(* ===== verification/Prelude.thy ===== *)
theory Prelude
  imports Main "HOL-Library.Multiset"
begin

text \<open>
  Shared vocabulary of the development: the strings, clocks and optional values of the
  TypeScript sources, the relational tables of the SQLite store as row lists, the stable
  \<open>Array.prototype.sort\<close> with a comparator, and the lemmas every component uses about them.
  Strings are ASCII \<open>char list\<close>s; a \<open>Date\<close> is an \<open>int\<close> of milliseconds since the epoch.
\<close>

named_theorems table_simps "rewriting of row tables"
named_theorems frame_simps "fields a store operation leaves alone"

section \<open>Optional values\<close>

text \<open>\<open>x ?? y\<close> and SQL \<open>coalesce(x, y)\<close> on optional values.\<close>

definition coalesce :: "'a option \<Rightarrow> 'a option \<Rightarrow> 'a option" where
  "coalesce x y = (case x of None \<Rightarrow> y | Some v \<Rightarrow> Some v)"

definition or_default :: "'a option \<Rightarrow> 'a \<Rightarrow> 'a" where
  "or_default x d = (case x of None \<Rightarrow> d | Some v \<Rightarrow> v)"

text \<open>The guard \<open>...(row.x ? { x: row.x } : {})\<close>: an empty string reads back as absent.\<close>

definition truthy :: "string option \<Rightarrow> string option" where
  "truthy x = (if x = Some [] then None else x)"

lemma coalesce_simps [simp]:
  "coalesce None y = y" "coalesce (Some v) y = Some v" "coalesce x None = x"
  by (simp_all add: coalesce_def split: option.split)

lemma or_default_simps [simp]: "or_default None d = d" "or_default (Some v) d = v"
  by (simp_all add: or_default_def)

lemma truthy_simps [simp]:
  "truthy None = None" "truthy (Some (c # s)) = Some (c # s)" "truthy (truthy x) = truthy x"
  "truthy (Some []) = None"
  by (auto simp: truthy_def)

lemma truthy_SomeD: "truthy x = Some s \<Longrightarrow> x = Some s \<and> s \<noteq> []"
  by (auto simp: truthy_def split: if_splits)

section \<open>Strings\<close>

definition char_code :: "char \<Rightarrow> nat" where
  "char_code c = of_char c"

definition lower_char :: "char \<Rightarrow> char" where
  "lower_char c = (if 65 \<le> char_code c \<and> char_code c \<le> 90 then char_of (char_code c + 32) else c)"

definition to_lower :: "string \<Rightarrow> string" where
  "to_lower s = map lower_char s"

definition is_space :: "char \<Rightarrow> bool" where
  "is_space c \<longleftrightarrow> (9 \<le> char_code c \<and> char_code c \<le> 13) \<or> char_code c = 32"

definition is_digit :: "char \<Rightarrow> bool" where
  "is_digit c \<longleftrightarrow> 48 \<le> char_code c \<and> char_code c \<le> 57"

definition is_lower_hex :: "char \<Rightarrow> bool" where
  "is_lower_hex c \<longleftrightarrow> is_digit c \<or> (97 \<le> char_code c \<and> char_code c \<le> 102)"

definition is_alnum :: "char \<Rightarrow> bool" where
  "is_alnum c \<longleftrightarrow> is_digit c \<or> (65 \<le> char_code c \<and> char_code c \<le> 90)
     \<or> (97 \<le> char_code c \<and> char_code c \<le> 122)"

text \<open>The character class \<open>[A-Za-z0-9_.-]\<close> of repository owners and names.\<close>

definition is_slug_char :: "char \<Rightarrow> bool" where
  "is_slug_char c \<longleftrightarrow> is_alnum c \<or> c = CHR ''_'' \<or> c = CHR ''.'' \<or> c = CHR ''-''"

definition trim :: "string \<Rightarrow> string" where
  "trim s = rev (dropWhile is_space (rev (dropWhile is_space s)))"

fun starts_with :: "string \<Rightarrow> string \<Rightarrow> bool" where
  "starts_with [] s = True"
| "starts_with (p # ps) [] = False"
| "starts_with (p # ps) (c # s) = (p = c \<and> starts_with ps s)"

fun str_includes :: "string \<Rightarrow> string \<Rightarrow> bool" where
  "str_includes sub [] = (sub = [])"
| "str_includes sub (c # s) = (starts_with sub (c # s) \<or> str_includes sub s)"

text \<open>\<open>s.split(d)\<close> for a one-character separator; the result is never empty.\<close>

fun split_on :: "char \<Rightarrow> string \<Rightarrow> string list" where
  "split_on d [] = [[]]"
| "split_on d (c # s) =
     (if c = d then [] # split_on d s
      else (case split_on d s of [] \<Rightarrow> [[c]] | w # ws \<Rightarrow> (c # w) # ws))"

text \<open>
  SQLite's \<open>LIKE\<close>: \<open>%\<close> is any run of characters, \<open>_\<close> any one character, and letters are
  compared without regard to ASCII case.
\<close>

fun sql_like :: "string \<Rightarrow> string \<Rightarrow> bool" where
  "sql_like [] s = (s = [])"
| "sql_like (p # ps) [] = (p = CHR ''%'' \<and> sql_like ps [])"
| "sql_like (p # ps) (c # s) =
     (if p = CHR ''%'' then sql_like ps (c # s) \<or> sql_like (p # ps) s
      else (p = CHR ''_'' \<or> lower_char p = lower_char c) \<and> sql_like ps s)"

fun digits_of_nat :: "nat \<Rightarrow> string" where
  "digits_of_nat n = (if n < 10 then [char_of (48 + n)]
     else digits_of_nat (n div 10) @ [char_of (48 + n mod 10)])"

declare digits_of_nat.simps [simp del]

text \<open>A number in a template literal.\<close>

definition string_of_int :: "int \<Rightarrow> string" where
  "string_of_int i = (if i < 0 then CHR ''-'' # digits_of_nat (nat (- i)) else digits_of_nat (nat i))"

lemma starts_with_iff: "starts_with p s \<longleftrightarrow> take (length p) s = p"
  by (induction p s rule: starts_with.induct) auto

lemma starts_with_append [simp]: "starts_with p (p @ s)"
  by (simp add: starts_with_iff)

lemma split_on_not_Nil [simp]: "split_on d s \<noteq> []"
  by (induction s) (auto split: list.split)

lemma lower_char_idem [simp]: "lower_char (lower_char c) = lower_char c"
  by (auto simp: lower_char_def char_code_def)

lemma to_lower_idem [simp]: "to_lower (to_lower s) = to_lower s"
  by (simp add: to_lower_def)

lemma length_to_lower [simp]: "length (to_lower s) = length s"
  by (simp add: to_lower_def)

section \<open>Clocks\<close>

text \<open>
  SQLite's \<open>datetime(x)\<close> drops the milliseconds of an ISO timestamp: comparisons through it
  have the granularity of a second.
\<close>

definition sql_datetime :: "int \<Rightarrow> int" where
  "sql_datetime t = t div 1000"

text \<open>\<open>datetime('now')\<close> stored in a column: the current time without its milliseconds.\<close>

definition sql_now :: "int \<Rightarrow> int" where
  "sql_now clock = (clock div 1000) * 1000"

lemma sql_datetime_mono: "s \<le> t \<Longrightarrow> sql_datetime s \<le> sql_datetime t"
  by (simp add: sql_datetime_def zdiv_mono1)

lemma sql_datetime_strict: "s + 1000 \<le> t \<Longrightarrow> sql_datetime s < sql_datetime t"
  by (simp add: sql_datetime_def)

section \<open>Row tables\<close>

text \<open>A table is the list of its rows in rowid order; \<open>key\<close> projects the primary key.\<close>

definition row_get :: "('r \<Rightarrow> 'k) \<Rightarrow> 'k \<Rightarrow> 'r list \<Rightarrow> 'r option" where
  "row_get key k rows = find (\<lambda>r. key r = k) rows"

text \<open>\<open>delete from t where P\<close>\<close>

definition row_delete :: "('r \<Rightarrow> bool) \<Rightarrow> 'r list \<Rightarrow> 'r list" where
  "row_delete P rows = filter (\<lambda>r. \<not> P r) rows"

text \<open>\<open>update t set f where P\<close> and the number of rows it changes\<close>

definition row_update :: "('r \<Rightarrow> bool) \<Rightarrow> ('r \<Rightarrow> 'r) \<Rightarrow> 'r list \<Rightarrow> 'r list" where
  "row_update P f rows = map (\<lambda>r. if P r then f r else r) rows"

definition row_count :: "('r \<Rightarrow> bool) \<Rightarrow> 'r list \<Rightarrow> nat" where
  "row_count P rows = length (filter P rows)"

text \<open>\<open>insert ... on conflict(key) do update set merge old new\<close>\<close>

definition row_upsert :: "('r \<Rightarrow> 'k) \<Rightarrow> ('r \<Rightarrow> 'r \<Rightarrow> 'r) \<Rightarrow> 'r \<Rightarrow> 'r list \<Rightarrow> 'r list" where
  "row_upsert key merge new rows =
     (case row_get key (key new) rows of
        None \<Rightarrow> rows @ [new]
      | Some _ \<Rightarrow> row_update (\<lambda>r. key r = key new) (\<lambda>old. merge old new) rows)"

text \<open>\<open>insert or replace\<close>: the old row goes, the new one gets a fresh rowid.\<close>

definition row_replace :: "('r \<Rightarrow> 'k) \<Rightarrow> 'r \<Rightarrow> 'r list \<Rightarrow> 'r list" where
  "row_replace key new rows = row_delete (\<lambda>r. key r = key new) rows @ [new]"

definition unique_rows :: "('r \<Rightarrow> 'k) \<Rightarrow> 'r list \<Rightarrow> bool" where
  "unique_rows key rows \<longleftrightarrow> distinct (map key rows)"

text \<open>\<open>order by f desc limit 1\<close>, a later rowid winning a tie.\<close>

fun latest_by :: "('r \<Rightarrow> int) \<Rightarrow> 'r list \<Rightarrow> 'r option" where
  "latest_by f [] = None"
| "latest_by f (r # rs) =
     (case latest_by f rs of None \<Rightarrow> Some r | Some b \<Rightarrow> if f r \<le> f b then Some b else Some r)"

lemma row_get_SomeD: "row_get key k rows = Some r \<Longrightarrow> r \<in> set rows \<and> key r = k"
  by (auto simp: row_get_def find_Some_iff)

lemma row_get_None_iff: "row_get key k rows = None \<longleftrightarrow> k \<notin> key ` set rows"
  by (auto simp: row_get_def find_None_iff)

lemma row_get_Nil [simp]: "row_get key k [] = None"
  by (simp add: row_get_def)

lemma row_get_Cons: "row_get key k (r # rs) = (if key r = k then Some r else row_get key k rs)"
  by (simp add: row_get_def)

lemma row_get_append:
  "row_get key k (xs @ ys) = (case row_get key k xs of None \<Rightarrow> row_get key k ys | Some r \<Rightarrow> Some r)"
  by (induction xs) (auto simp: row_get_Cons)

lemma row_get_delete_key [table_simps]: "row_get key k (row_delete (\<lambda>r. key r = k) rows) = None"
  by (auto simp: row_get_None_iff row_delete_def)

lemma row_get_delete_other [table_simps]:
  "k' \<noteq> k \<Longrightarrow> row_get key k' (row_delete (\<lambda>r. key r = k) rows) = row_get key k' rows"
  by (induction rows) (auto simp: row_delete_def row_get_Cons)

lemma row_get_delete_guarded [table_simps]:
  "k' \<noteq> k \<Longrightarrow> row_get key k' (row_delete (\<lambda>r. key r = k \<and> P r) rows) = row_get key k' rows"
  by (induction rows) (auto simp: row_delete_def row_get_Cons)

lemma row_get_update_key:
  assumes "\<And>r. key (f r) = key r"
  shows "row_get key k (row_update P f rows) =
    map_option (\<lambda>r. if P r then f r else r) (row_get key k rows)"
  by (induction rows) (auto simp: row_update_def row_get_Cons assms)

lemma row_get_replace [table_simps]:
  "row_get key k (row_replace key new rows) = (if k = key new then Some new else row_get key k rows)"
  by (auto simp: row_replace_def row_get_append row_get_Cons table_simps split: option.split)

lemma row_get_upsert [table_simps]:
  assumes "\<And>old. key old = key new \<Longrightarrow> key (merge old new) = key new"
  shows "row_get key k (row_upsert key merge new rows) =
    (if k = key new
     then Some (case row_get key k rows of None \<Rightarrow> new | Some old \<Rightarrow> merge old new)
     else row_get key k rows)"
proof (cases "row_get key (key new) rows")
  case None
  then show ?thesis
    by (auto simp: row_upsert_def row_get_append row_get_Cons split: option.split)
next
  case (Some old)
  have "row_get key k (row_update (\<lambda>r. key r = key new) (\<lambda>old. merge old new) rows) =
      map_option (\<lambda>r. if key r = key new then merge r new else r) (row_get key k rows)"
    by (induction rows) (auto simp: row_update_def row_get_Cons assms)
  with Some show ?thesis
    by (cases "row_get key k rows") (auto simp: row_upsert_def dest: row_get_SomeD)
qed

lemma unique_rows_Nil [simp]: "unique_rows key []"
  by (simp add: unique_rows_def)

lemma unique_rows_delete [intro]: "unique_rows key rows \<Longrightarrow> unique_rows key (row_delete P rows)"
  by (induction rows) (auto simp: unique_rows_def row_delete_def)

lemma unique_rows_update:
  "(\<And>r. key (f r) = key r) \<Longrightarrow> unique_rows key (row_update P f rows) = unique_rows key rows"
  by (simp add: unique_rows_def row_update_def comp_def if_distrib cong: if_cong)

lemma unique_rows_append_new:
  "unique_rows key rows \<Longrightarrow> row_get key (key new) rows = None \<Longrightarrow> unique_rows key (rows @ [new])"
  by (auto simp: unique_rows_def row_get_None_iff)

lemma unique_rows_replace: "unique_rows key rows \<Longrightarrow> unique_rows key (row_replace key new rows)"
  unfolding row_replace_def
  by (intro unique_rows_append_new unique_rows_delete) (simp_all add: table_simps)

lemma unique_rows_upsert:
  assumes "unique_rows key rows"
    and "\<And>old. key old = key new \<Longrightarrow> key (merge old new) = key new"
  shows "unique_rows key (row_upsert key merge new rows)"
proof (cases "row_get key (key new) rows")
  case None
  with assms(1) show ?thesis
    by (simp add: row_upsert_def unique_rows_append_new)
next
  case (Some old)
  have "map key (row_update (\<lambda>r. key r = key new) (\<lambda>old. merge old new) rows) = map key rows"
    by (simp add: row_update_def assms(2))
  with Some assms(1) show ?thesis
    by (simp add: row_upsert_def unique_rows_def)
qed

lemma unique_rows_get:
  "unique_rows key rows \<Longrightarrow> r \<in> set rows \<Longrightarrow> row_get key (key r) rows = Some r"
  by (induction rows) (auto simp: unique_rows_def row_get_Cons)

lemma length_row_update [simp]: "length (row_update P f rows) = length rows"
  by (simp add: row_update_def)

lemma set_row_delete [simp]: "set (row_delete P rows) = {r \<in> set rows. \<not> P r}"
  by (auto simp: row_delete_def)

lemma length_row_delete_le: "length (row_delete P rows) \<le> length rows"
  by (simp add: row_delete_def)

lemma row_update_noop: "(\<And>r. r \<in> set rows \<Longrightarrow> \<not> P r) \<Longrightarrow> row_update P f rows = rows"
  by (simp add: row_update_def map_idI)

lemma latest_by_None_iff [simp]: "latest_by f rows = None \<longleftrightarrow> rows = []"
  by (cases rows) (auto split: option.split)

lemma latest_by_SomeD:
  "latest_by f rows = Some r \<Longrightarrow> r \<in> set rows \<and> (\<forall>r' \<in> set rows. f r' \<le> f r)"
proof (induction rows arbitrary: r)
  case Nil
  then show ?case by simp
next
  case (Cons a rows)
  then show ?case
    by (fastforce split: option.splits if_splits)
qed

section \<open>Stable sorting with a comparator\<close>

text \<open>\<open>xs.sort(cmp)\<close>: a negative or zero \<open>cmp x y\<close> keeps \<open>x\<close> before \<open>y\<close>; the sort is stable.\<close>

fun js_insert :: "('a \<Rightarrow> 'a \<Rightarrow> int) \<Rightarrow> 'a \<Rightarrow> 'a list \<Rightarrow> 'a list" where
  "js_insert cmp x [] = [x]"
| "js_insert cmp x (y # ys) = (if cmp x y \<le> 0 then x # y # ys else y # js_insert cmp x ys)"

definition js_sort :: "('a \<Rightarrow> 'a \<Rightarrow> int) \<Rightarrow> 'a list \<Rightarrow> 'a list" where
  "js_sort cmp xs = foldr (js_insert cmp) xs []"

lemma mset_js_insert [simp]: "mset (js_insert cmp x ys) = add_mset x (mset ys)"
  by (induction ys) auto

lemma mset_js_sort [simp]: "mset (js_sort cmp xs) = mset xs"
  by (induction xs) (simp_all add: js_sort_def)

lemma set_js_sort [simp]: "set (js_sort cmp xs) = set xs"
  by (metis mset_js_sort set_mset_mset)

lemma length_js_sort [simp]: "length (js_sort cmp xs) = length xs"
  by (metis mset_js_sort size_mset)

lemma distinct_map_js_sort [simp]: "distinct (map f (js_sort cmp xs)) = distinct (map f xs)"
  by (metis mset_js_sort mset_map mset_eq_imp_distinct_iff)

text \<open>
  The contract of a comparator: a total preorder on the elements that are sorted. Under it
  the result is sorted and ties keep their order.
\<close>

locale comparator =
  fixes cmp :: "'a \<Rightarrow> 'a \<Rightarrow> int"
  assumes cmp_total: "cmp x y \<le> 0 \<or> cmp y x \<le> 0"
    and cmp_trans: "cmp x y \<le> 0 \<Longrightarrow> cmp y z \<le> 0 \<Longrightarrow> cmp x z \<le> 0"
begin

lemma sorted_js_insert:
  "sorted_wrt (\<lambda>x y. cmp x y \<le> 0) ys \<Longrightarrow> sorted_wrt (\<lambda>x y. cmp x y \<le> 0) (js_insert cmp x ys)"
proof (induction ys)
  case Nil
  then show ?case by simp
next
  case (Cons y ys)
  have ins: "set (js_insert cmp x ys) = insert x (set ys)"
    by (metis mset_js_insert set_mset_add_mset_insert set_mset_mset)
  show ?case
    using Cons cmp_total[of x y] by (auto simp: ins intro: cmp_trans)
qed

lemma sorted_js_sort: "sorted_wrt (\<lambda>x y. cmp x y \<le> 0) (js_sort cmp xs)"
  by (induction xs) (simp_all add: js_sort_def sorted_js_insert)

lemma filter_js_insert:
  assumes "\<And>y. P y \<Longrightarrow> P x \<Longrightarrow> cmp x y \<le> 0"
  shows "filter P (js_insert cmp x ys) = (if P x then x # filter P ys else filter P ys)"
  using assms by (induction ys) auto

lemma js_sort_stable:
  assumes "\<And>x y. P x \<Longrightarrow> P y \<Longrightarrow> cmp x y \<le> 0"
  shows "filter P (js_sort cmp xs) = filter P xs"
  using assms by (induction xs) (simp_all add: js_sort_def filter_js_insert)

lemma js_sort_head_least:
  assumes "js_sort cmp xs = x # rest" and "y \<in> set xs"
  shows "cmp x y \<le> 0"
proof -
  have "y \<in> insert x (set rest)"
    using assms by (metis list.simps(15) set_js_sort)
  moreover have "cmp x x \<le> 0" using cmp_total[of x x] by simp
  ultimately show ?thesis
    using sorted_js_sort[of xs] assms(1) by auto
qed

end

section \<open>Holding a resource across operations\<close>

text \<open>
  The contract of a lock kept in the store: a hold survives every operation that does not end it,
  and while it lasts the requests it covers are refused. The claims of review heads, the guard of
  the worktree cleanup and the leases of queue jobs are instances.
\<close>

locale exclusive_hold =
  fixes held :: "'h \<Rightarrow> 's \<Rightarrow> bool"
    and step :: "'op \<Rightarrow> 's \<Rightarrow> 's"
    and ends :: "'h \<Rightarrow> 'op \<Rightarrow> bool"
    and covers :: "'h \<Rightarrow> 'req \<Rightarrow> bool"
    and refused :: "'req \<Rightarrow> 's \<Rightarrow> bool"
  assumes held_step: "held h s \<Longrightarrow> \<not> ends h op \<Longrightarrow> held h (step op s)"
    and held_refuses: "held h s \<Longrightarrow> covers h r \<Longrightarrow> refused r s"
begin

lemma held_run: "held h s \<Longrightarrow> list_all (\<lambda>op. \<not> ends h op) ops \<Longrightarrow> held h (fold step ops s)"
  by (induction ops arbitrary: s) (auto intro: held_step)

lemma run_refuses:
  "held h s \<Longrightarrow> list_all (\<lambda>op. \<not> ends h op) ops \<Longrightarrow> covers h r \<Longrightarrow> refused r (fold step ops s)"
  by (rule held_refuses[OF held_run])

end

lemma find_SomeD: "find P xs = Some x \<Longrightarrow> x \<in> set xs \<and> P x"
  by (auto simp: find_Some_iff)

lemma in_map_filter: "y \<in> set (List.map_filter f xs) \<longleftrightarrow> (\<exists>x\<in>set xs. f x = Some y)"
  by (induction xs) (auto simp: List.map_filter_simps split: option.split)

end
