(* ===== verification/StoreModel.thy ===== *)
theory StoreModel
  imports Prelude
begin

text \<open>
  The data model of \<open>src/src/state.ts\<close>: its string unions as datatypes, its records, the SQLite
  tables as row lists (\<open>db\<close>), transactions, and the pure helpers its methods share. Columns
  that hold ISO timestamps are milliseconds; \<open>next_eligible_at\<close> stays text, since it can be copied
  from the free text of a provider error.
\<close>

section \<open>Unions\<close>

datatype processed_status = P_dry_run | P_posted | P_skipped | P_failed

datatype review_event = EV_COMMENT | EV_REQUEST_CHANGES

datatype finishing_touch_action = FT_generate_tests | FT_generate_docs | FT_generate_docstrings
  | FT_simplify_suggestion | FT_changelog_draft | FT_explain_risk | FT_make_review_ready

datatype command_action = CA_review | CA_re_review | CA_request_changes | CA_explain | CA_stop
  | CA_finishing_touch finishing_touch_action

datatype command_status = CS_triggered | CS_explained | CS_stopped | CS_ignored

datatype session_state = S_warming | S_active | S_draining | S_expired | S_failed

datatype session_job_state = SJ_assigned | SJ_running | SJ_completed | SJ_skipped | SJ_failed

datatype assignment_reason = AR_same_repo_active_session | AR_new_session
  | AR_session_expired_new_session | AR_manual_command_priority

datatype queue_source = QS_automatic | QS_manual_command

datatype queue_lane = QL_background | QL_manual

datatype queue_state = Q_queued | Q_leased | Q_running | Q_provider_deferred | Q_blocked_on_proof
  | Q_stale_retired | Q_closed_retired | Q_command_recorded | Q_posted | Q_failed

datatype readiness_state = R_queued | R_reviewing | R_needs_fix | R_awaiting_re_review
  | R_blocked_on_checks | R_blocked_on_proof | R_ready_for_human | R_provider_deferred | R_stale
  | R_closed | R_command_recorded | R_skipped | R_failed

text \<open>The exceptions the modelled methods throw.\<close>

datatype store_error = BadRepo | BadPullNumber | BadHeadSha | BadPriority | BadCommentId | BadAuthor
  | BadLimit string | BadReviewUrl | BadErrorText | BadTriggerCommentId | ConsumeNeedsDryRun
  | ConsumeNeedsConfigRevision | ApprovalChanged | ReserveAboveLimit | UniqueViolation
  | NoQueueJob string | NoSessionJob | NoSuchReview | NotRetirable processed_status
  | NoConsumption | DifferentAuthorization | NoopNeedsPostedComment | LostReadiness
  | OperationFailed

section \<open>Records and rows\<close>

type_synonym head_key = "string \<times> int \<times> string"

record processed_review_record =
  pr_repo :: string
  pr_pull :: int
  pr_head :: string
  pr_status :: processed_status
  pr_config_revision :: "string option"
  pr_base_ref :: "string option"
  pr_base_sha :: "string option"
  pr_diff_fingerprint :: "string option"
  pr_carried_from_head :: "string option"
  pr_event :: "review_event option"
  pr_review_url :: "string option"
  pr_error :: "string option"

record processed_row = processed_review_record +
  pr_created_at :: int

record head_claim_row =
  hc_repo :: string
  hc_pull :: int
  hc_head :: string
  hc_claim_id :: string
  hc_owner_pid :: int
  hc_claimed_at :: int
  hc_expires_at :: int

record lease_row =
  rl_lease_id :: string
  rl_started_at :: int
  rl_expires_at :: int
  rl_owner_pid :: "int option"

record guard_row =
  cg_owner_pid :: int
  cg_expires_at :: int

record invocation_row =
  pi_repo :: string
  pi_pull :: int
  pi_head :: string
  pi_author :: string
  pi_action :: string
  pi_invoked_at :: int

record queue_job =
  q_job_id :: string
  q_attempt_id :: string
  q_source :: queue_source
  q_lane :: queue_lane
  q_repo :: string
  q_repo_key :: "string option"
  q_org :: string
  q_pull :: int
  q_head :: string
  q_head_key :: "string option"
  q_base_sha :: "string option"
  q_provider_id :: "string option"
  q_priority :: int
  q_state :: queue_state
  q_next_eligible_at :: "string option"
  q_lease_id :: "string option"
  q_lease_expires_at :: "int option"
  q_session_id :: "string option"
  q_comment_id :: "int option"
  q_review_url :: "string option"
  q_last_error :: "string option"
  q_created_at :: int
  q_updated_at :: int
  q_started_at :: "int option"
  q_finished_at :: "int option"

record readiness_row =
  rr_repo :: string
  rr_pull :: int
  rr_head :: string
  rr_state :: readiness_state
  rr_reason :: "string option"
  rr_event :: "review_event option"
  rr_review_url :: "string option"
  rr_command_action :: "command_action option"
  rr_command_comment_id :: "int option"
  rr_created_at :: int
  rr_updated_at :: int

record session_row =
  rs_session_id :: string
  rs_repo :: string
  rs_repo_family :: "string option"
  rs_state :: session_state
  rs_started_at :: int
  rs_last_used_at :: int
  rs_expires_at :: int
  rs_head_count_used :: int
  rs_head_count_limit :: int
  rs_worker_pid :: "int option"
  rs_model :: "string option"
  rs_provider :: "string option"
  rs_zcode_cli_version :: "string option"
  rs_memory_packet_sha :: "string option"
  rs_gitnexus_packet_sha :: "string option"
  rs_last_error :: "string option"

record session_job_row =
  sj_session_id :: string
  sj_repo :: string
  sj_pull :: int
  sj_head :: string
  sj_state :: session_job_state
  sj_reason :: assignment_reason
  sj_created_at :: int
  sj_started_at :: "int option"
  sj_finished_at :: "int option"
  sj_processed_status :: "processed_status option"

record consumption_row =
  co_repo :: string
  co_pull :: int
  co_head :: string
  co_comment_id :: int
  co_author :: string
  co_consumed_at :: int
  co_posted_event :: "review_event option"
  co_review_url :: "string option"
  co_posted_at :: "int option"
  co_terminal_no_op :: bool
  co_terminal_reason :: "string option"
  co_terminal_at :: "int option"
  co_incident_error :: "string option"
  co_incident_comment_id :: "int option"
  co_incident_at :: "int option"

record command_row =
  pc_repo :: string
  pc_pull :: int
  pc_head :: string
  pc_comment_id :: int
  pc_action :: command_action
  pc_status :: command_status
  pc_author :: "string option"
  pc_url :: "string option"

record cooldown_row =
  cd_repo :: string
  cd_until :: int
  cd_reason :: string
  cd_updated_at :: int

record activation_row =
  ra_repo :: string
  ra_activated_at :: int
  ra_created_at :: int

text \<open>The primary keys of the tables.\<close>

definition pr_key :: "'a processed_review_record_scheme \<Rightarrow> head_key" where
  "pr_key r = (pr_repo r, pr_pull r, pr_head r)"

definition hc_key :: "head_claim_row \<Rightarrow> head_key" where
  "hc_key r = (hc_repo r, hc_pull r, hc_head r)"

definition rr_key :: "readiness_row \<Rightarrow> head_key" where
  "rr_key r = (rr_repo r, rr_pull r, rr_head r)"

definition sj_key :: "session_job_row \<Rightarrow> head_key" where
  "sj_key r = (sj_repo r, sj_pull r, sj_head r)"

definition co_key :: "consumption_row \<Rightarrow> head_key" where
  "co_key r = (co_repo r, co_pull r, co_head r)"

definition pc_key :: "command_row \<Rightarrow> head_key \<times> int" where
  "pc_key r = ((pc_repo r, pc_pull r, pc_head r), pc_comment_id r)"

definition pi_key :: "invocation_row \<Rightarrow> head_key \<times> string \<times> string" where
  "pi_key r = ((pi_repo r, pi_pull r, pi_head r), pi_author r, pi_action r)"

text \<open>The database behind \<open>ReviewStateStore\<close>.\<close>

record db =
  processed :: "processed_row list"
  claims :: "head_claim_row list"
  run_leases :: "lease_row list"
  cleanup_guard :: "guard_row option"
  enrichment_leases :: "lease_row list"
  invocations :: "invocation_row list"
  queue :: "queue_job list"
  readiness :: "readiness_row list"
  sessions :: "session_row list"
  session_jobs :: "session_job_row list"
  consumptions :: "consumption_row list"
  commands :: "command_row list"
  cooldowns :: "cooldown_row list"
  activations :: "activation_row list"

definition empty_db :: db where
  "empty_db = \<lparr>processed = [], claims = [], run_leases = [], cleanup_guard = None,
     enrichment_leases = [], invocations = [], queue = [], readiness = [], sessions = [],
     session_jobs = [], consumptions = [], commands = [], cooldowns = [], activations = []\<rparr>"

text \<open>
  What the methods take from their surroundings: \<open>Date.parse\<close> (None is NaN) and \<open>toISOString\<close> on
  text the store does not write itself, the redaction of \<open>secrets.ts\<close> and the operating system's
  answer to \<open>process.kill(pid, 0)\<close>.
\<close>

record host =
  date_parse :: "string \<Rightarrow> int option"
  iso_string :: "int \<Rightarrow> string"
  redact :: "string \<Rightarrow> string"
  alive :: "int \<Rightarrow> bool"

section \<open>Transactions\<close>

type_synonym 'a outcome = "(store_error + 'a) \<times> db"

text \<open>\<open>begin immediate\<close> ... \<open>commit\<close>, with \<open>rollback\<close> and a rethrow on an exception.\<close>

definition transaction :: "('s \<Rightarrow> ('e + 'a) \<times> 's) \<Rightarrow> 's \<Rightarrow> ('e + 'a) \<times> 's" where
  "transaction body d =
     (case body d of (Inl e, _) \<Rightarrow> (Inl e, d) | (Inr x, d') \<Rightarrow> (Inr x, d'))"

lemma transaction_error: "transaction body d = (Inl e, d') \<Longrightarrow> d' = d"
  by (auto simp: transaction_def split: prod.splits sum.splits)

lemma transaction_result: "transaction body d = (Inr x, d') \<longleftrightarrow> body d = (Inr x, d')"
  by (auto simp: transaction_def split: prod.splits sum.splits)

lemma fst_transaction [simp]: "fst (transaction body d) = fst (body d)"
  by (auto simp: transaction_def split: prod.splits sum.splits)

lemma snd_transaction:
  "snd (transaction body d) = (case fst (body d) of Inl e \<Rightarrow> d | Inr x \<Rightarrow> snd (body d))"
  by (auto simp: transaction_def split: prod.splits sum.splits)

section \<open>Error texts\<close>

definition ACTIVATION_BASELINE_EXISTING_HEAD_ERROR :: string where
  "ACTIVATION_BASELINE_EXISTING_HEAD_ERROR = ''activation_baseline_existing_head''"

definition EXACT_AUTHORIZATION_ALREADY_CONSUMED_ERROR :: string where
  "EXACT_AUTHORIZATION_ALREADY_CONSUMED_ERROR = ''exact_authorization_already_consumed''"

definition POST_REVIEW_HEAD_UNVERIFIED_ERROR :: string where
  "POST_REVIEW_HEAD_UNVERIFIED_ERROR = ''post_review_head_unverified''"

definition APPROVED_DRY_RUN_LIVE_CLAIM_ERROR :: string where
  "APPROVED_DRY_RUN_LIVE_CLAIM_ERROR = ''approved_dry_run_consumed_for_live_post''"

definition REVIEW_POSTED_HEAD_CHANGED_ERROR :: string where
  "REVIEW_POSTED_HEAD_CHANGED_ERROR = ''review_posted_head_changed''"

definition PROVIDER_COOLDOWN_ERROR_PREFIX :: string where
  "PROVIDER_COOLDOWN_ERROR_PREFIX = ''provider_rate_limit_cooldown_until=''"

definition BASE_MERGE_ONLY :: string where
  "BASE_MERGE_ONLY = ''base_merge_only''"

definition isRetryableApprovedDryRunPrePostFailure :: "processed_row \<Rightarrow> bool" where
  "isRetryableApprovedDryRunPrePostFailure r \<longleftrightarrow> pr_status r = P_skipped \<and>
     (case pr_error r of None \<Rightarrow> False
      | Some e \<Rightarrow> starts_with (APPROVED_DRY_RUN_LIVE_CLAIM_ERROR @ ''; post_error='') e)"

definition isActivationBaselineProcessedReview :: "processed_row \<Rightarrow> bool" where
  "isActivationBaselineProcessedReview r \<longleftrightarrow>
     pr_status r = P_skipped \<and> pr_error r = Some ACTIVATION_BASELINE_EXISTING_HEAD_ERROR"

record parsed_cooldown =
  pcd_until :: string
  pcd_reason :: "string option"
  pcd_retry_attempt :: "int option"
  pcd_provider_code :: "string option"
  pcd_retry_after_ms :: "int option"

fun digits_value :: "nat \<Rightarrow> string \<Rightarrow> nat" where
  "digits_value acc [] = acc"
| "digits_value acc (c # s) = digits_value (10 * acc + (char_code c - 48)) s"

text \<open>\<open>Number.parseInt(value, 10)\<close>, kept when it is a positive integer.\<close>

definition parsePositiveInt :: "string option \<Rightarrow> int option" where
  "parsePositiveInt v = (case truthy v of None \<Rightarrow> None
     | Some s \<Rightarrow>
        (let t = dropWhile is_space s;
             body = (case t of c # r \<Rightarrow> if c = CHR ''+'' then r else t | [] \<Rightarrow> t);
             ds = takeWhile is_digit body; n = digits_value 0 ds
         in if ds \<noteq> [] \<and> 0 < n then Some (int n) else None))"

definition cooldown_field :: "string \<Rightarrow> string list \<Rightarrow> string option" where
  "cooldown_field name parts =
     map_option (drop (length name)) (find (starts_with name) (map trim parts))"

definition parseProviderCooldownError :: "string option \<Rightarrow> parsed_cooldown option" where
  "parseProviderCooldownError e = (case e of None \<Rightarrow> None
     | Some err \<Rightarrow>
        if \<not> starts_with PROVIDER_COOLDOWN_ERROR_PREFIX err then None
        else (let parts = split_on (CHR '';'') err; rest = tl parts;
                  until = trim (drop (length PROVIDER_COOLDOWN_ERROR_PREFIX) (hd parts))
              in if until = [] then None
                 else Some \<lparr>pcd_until = until,
                   pcd_reason = truthy (map_option trim (cooldown_field ''reason='' rest)),
                   pcd_retry_attempt = parsePositiveInt (cooldown_field ''retry_attempt='' rest),
                   pcd_provider_code = truthy (map_option trim (cooldown_field ''provider_code='' rest)),
                   pcd_retry_after_ms = parsePositiveInt (cooldown_field ''retry_after_ms='' rest)\<rparr>))"

definition isProviderCooldownError :: "string option \<Rightarrow> bool" where
  "isProviderCooldownError e \<longleftrightarrow> parseProviderCooldownError e \<noteq> None"

section \<open>Validation\<close>

definition repoOrg :: "string \<Rightarrow> string" where
  "repoOrg repo = hd (split_on (CHR ''/'') repo)"

definition is_sha40 :: "string \<Rightarrow> bool" where
  "is_sha40 s \<longleftrightarrow> length s = 40 \<and> list_all (\<lambda>c. is_lower_hex (lower_char c)) s"

definition is_sha256 :: "string \<Rightarrow> bool" where
  "is_sha256 s \<longleftrightarrow> length s = 64 \<and> list_all is_lower_hex s"

definition repo_parts :: "string \<Rightarrow> (string \<times> string) option" where
  "repo_parts repo = (case split_on (CHR ''/'') repo of
       [owner, name] \<Rightarrow>
         if owner = [] \<or> name = [] \<or> owner = ''.'' \<or> owner = ''..'' \<or> name = ''.'' \<or> name = ''..''
            \<or> \<not> list_all is_slug_char owner \<or> \<not> list_all is_slug_char name
         then None else Some (owner, name)
     | _ \<Rightarrow> None)"

definition validateRepoName :: "string \<Rightarrow> store_error option" where
  "validateRepoName repo = (if repo_parts repo = None then Some BadRepo else None)"

definition validateReviewQueueInput ::
  "string \<Rightarrow> int \<Rightarrow> string \<Rightarrow> int option \<Rightarrow> int option \<Rightarrow> store_error option" where
  "validateReviewQueueInput repo pull head priority commentId =
     (if repoOrg repo = [] then Some BadRepo
      else if pull < 1 then Some BadPullNumber
      else if trim head = [] then Some BadHeadSha
      else if (case priority of None \<Rightarrow> False | Some p \<Rightarrow> p < 0) then Some BadPriority
      else if (case commentId of None \<Rightarrow> False | Some c \<Rightarrow> c < 1) then Some BadCommentId
      else None)"

definition canonicalReviewQueueIdentity :: "string \<Rightarrow> string \<Rightarrow> (string \<times> string) option" where
  "canonicalReviewQueueIdentity repo head = (case repo_parts repo of None \<Rightarrow> None
     | Some (owner, name) \<Rightarrow>
        if 100 < length owner \<or> 100 < length name \<or> \<not> is_sha40 head then None
        else Some (to_lower repo, to_lower head))"

definition validateReviewEventAuthorizationCoordinates :: "string \<Rightarrow> int \<Rightarrow> string \<Rightarrow> store_error option" where
  "validateReviewEventAuthorizationCoordinates repo pull head =
     (case repo_parts repo of None \<Rightarrow> Some BadRepo
      | Some (owner, name) \<Rightarrow>
         if 100 < length owner \<or> 100 < length name then Some BadRepo
         else if pull < 1 then Some BadPullNumber
         else if \<not> is_sha40 head then Some BadHeadSha
         else None)"

definition is_github_login :: "string \<Rightarrow> bool" where
  "is_github_login a \<longleftrightarrow> 1 \<le> length a \<and> length a \<le> 39 \<and> list_all (\<lambda>c. is_alnum c \<or> c = CHR ''-'') a"

definition validateReviewEventAuthorizationConsumption ::
  "string \<Rightarrow> int \<Rightarrow> string \<Rightarrow> int \<Rightarrow> string \<Rightarrow> store_error option" where
  "validateReviewEventAuthorizationConsumption repo pull head commentId author =
     (case validateReviewEventAuthorizationCoordinates repo pull head of
        Some e \<Rightarrow> Some e
      | None \<Rightarrow> if commentId < 1 then Some BadCommentId
                else if \<not> is_github_login author then Some BadAuthor else None)"

definition validatePositiveQueueLimit :: "int \<Rightarrow> string \<Rightarrow> store_error option" where
  "validatePositiveQueueLimit v label = (if v < 1 then Some (BadLimit label) else None)"

text \<open>The first error of a sequence of checks, as throwing one after the other gives.\<close>

definition first_error :: "store_error option list \<Rightarrow> store_error option" where
  "first_error checks = fold (\<lambda>c acc. coalesce acc c) checks None"

lemma coalesce_assoc: "coalesce (coalesce a b) c = coalesce a (coalesce b c)"
  by (cases a) auto

lemma fold_coalesce: "fold (\<lambda>c acc. coalesce acc c) cs a = coalesce a (fold (\<lambda>c acc. coalesce acc c) cs None)"
proof (induction cs arbitrary: a)
  case Nil
  then show ?case by simp
next
  case (Cons c cs)
  show ?case
    unfolding fold.simps comp_def
    by (subst Cons.IH, subst (2) Cons.IH) (simp add: coalesce_assoc)
qed

lemma first_error_Cons [simp]: "first_error (c # cs) = coalesce c (first_error cs)"
  unfolding first_error_def by (simp add: fold_coalesce[symmetric])

lemma first_error_Nil [simp]: "first_error [] = None"
  by (simp add: first_error_def)

lemma coalesce_None_iff [simp]: "coalesce a b = None \<longleftrightarrow> a = None \<and> b = None"
  by (cases a) auto

definition isTerminalQueueState :: "queue_state \<Rightarrow> bool" where
  "isTerminalQueueState s \<longleftrightarrow> s = Q_posted \<or> s = Q_failed \<or> s = Q_stale_retired
     \<or> s = Q_closed_retired \<or> s = Q_command_recorded"

section \<open>Rows read back as records\<close>

definition mapProcessedReviewRow :: "processed_row \<Rightarrow> processed_row" where
  "mapProcessedReviewRow r = r\<lparr>pr_config_revision := truthy (pr_config_revision r),
     pr_base_ref := truthy (pr_base_ref r), pr_base_sha := truthy (pr_base_sha r),
     pr_diff_fingerprint := truthy (pr_diff_fingerprint r),
     pr_carried_from_head := truthy (pr_carried_from_head r),
     pr_review_url := truthy (pr_review_url r), pr_error := truthy (pr_error r)\<rparr>"

definition mapReviewReadinessRow :: "readiness_row \<Rightarrow> readiness_row" where
  "mapReviewReadinessRow r = r\<lparr>rr_reason := truthy (rr_reason r), rr_review_url := truthy (rr_review_url r),
     rr_command_comment_id := (if rr_command_comment_id r = Some 0 then None else rr_command_comment_id r)\<rparr>"

definition mapReviewQueueJobRow :: "queue_job \<Rightarrow> queue_job" where
  "mapReviewQueueJobRow r = r\<lparr>q_base_sha := truthy (q_base_sha r),
     q_provider_id := truthy (q_provider_id r), q_next_eligible_at := truthy (q_next_eligible_at r),
     q_lease_id := truthy (q_lease_id r), q_session_id := truthy (q_session_id r),
     q_comment_id := (if q_comment_id r = Some 0 then None else q_comment_id r),
     q_review_url := truthy (q_review_url r), q_last_error := truthy (q_last_error r)\<rparr>"

definition mapReviewerSessionRow :: "session_row \<Rightarrow> session_row" where
  "mapReviewerSessionRow r = r\<lparr>rs_repo_family := truthy (rs_repo_family r),
     rs_worker_pid := (if rs_worker_pid r = Some 0 then None else rs_worker_pid r),
     rs_model := truthy (rs_model r), rs_provider := truthy (rs_provider r),
     rs_zcode_cli_version := truthy (rs_zcode_cli_version r),
     rs_memory_packet_sha := truthy (rs_memory_packet_sha r),
     rs_gitnexus_packet_sha := truthy (rs_gitnexus_packet_sha r),
     rs_last_error := truthy (rs_last_error r)\<rparr>"

lemma mapProcessedReviewRow_simps [simp]:
  "pr_key (mapProcessedReviewRow r) = pr_key r" "pr_status (mapProcessedReviewRow r) = pr_status r"
  "pr_head (mapProcessedReviewRow r) = pr_head r"
  "pr_event (mapProcessedReviewRow r) = pr_event r" "pr_created_at (mapProcessedReviewRow r) = pr_created_at r"
  "pr_error (mapProcessedReviewRow r) = truthy (pr_error r)"
  "pr_review_url (mapProcessedReviewRow r) = truthy (pr_review_url r)"
  "pr_carried_from_head (mapProcessedReviewRow r) = truthy (pr_carried_from_head r)"
  by (simp_all add: mapProcessedReviewRow_def pr_key_def)

lemma mapReviewQueueJobRow_simps [simp]:
  "q_job_id (mapReviewQueueJobRow r) = q_job_id r" "q_attempt_id (mapReviewQueueJobRow r) = q_attempt_id r"
  "q_state (mapReviewQueueJobRow r) = q_state r" "q_repo (mapReviewQueueJobRow r) = q_repo r"
  "q_pull (mapReviewQueueJobRow r) = q_pull r" "q_head (mapReviewQueueJobRow r) = q_head r"
  "q_org (mapReviewQueueJobRow r) = q_org r" "q_lane (mapReviewQueueJobRow r) = q_lane r"
  "q_source (mapReviewQueueJobRow r) = q_source r" "q_priority (mapReviewQueueJobRow r) = q_priority r"
  "q_created_at (mapReviewQueueJobRow r) = q_created_at r" "q_updated_at (mapReviewQueueJobRow r) = q_updated_at r"
  "q_provider_id (mapReviewQueueJobRow r) = truthy (q_provider_id r)"
  "q_lease_id (mapReviewQueueJobRow r) = truthy (q_lease_id r)"
  "q_lease_expires_at (mapReviewQueueJobRow r) = q_lease_expires_at r"
  "q_review_url (mapReviewQueueJobRow r) = truthy (q_review_url r)"
  "q_last_error (mapReviewQueueJobRow r) = truthy (q_last_error r)"
  "q_next_eligible_at (mapReviewQueueJobRow r) = truthy (q_next_eligible_at r)"
  by (simp_all add: mapReviewQueueJobRow_def)

lemma mapReviewReadinessRow_simps [simp]:
  "rr_key (mapReviewReadinessRow r) = rr_key r" "rr_state (mapReviewReadinessRow r) = rr_state r"
  "rr_event (mapReviewReadinessRow r) = rr_event r" "rr_created_at (mapReviewReadinessRow r) = rr_created_at r"
  "rr_reason (mapReviewReadinessRow r) = truthy (rr_reason r)"
  "rr_review_url (mapReviewReadinessRow r) = truthy (rr_review_url r)"
  "rr_command_action (mapReviewReadinessRow r) = rr_command_action r"
  by (simp_all add: mapReviewReadinessRow_def rr_key_def)

lemma mapReviewerSessionRow_simps [simp]:
  "rs_session_id (mapReviewerSessionRow r) = rs_session_id r" "rs_repo (mapReviewerSessionRow r) = rs_repo r"
  "rs_state (mapReviewerSessionRow r) = rs_state r" "rs_expires_at (mapReviewerSessionRow r) = rs_expires_at r"
  "rs_head_count_used (mapReviewerSessionRow r) = rs_head_count_used r"
  "rs_head_count_limit (mapReviewerSessionRow r) = rs_head_count_limit r"
  "rs_last_used_at (mapReviewerSessionRow r) = rs_last_used_at r"
  by (simp_all add: mapReviewerSessionRow_def)

end
