(* ===== verification/ProcessedReviews.thy ===== *)
theory ProcessedReviews
  imports StoreModel
begin

text \<open>
  The life of one pull-request head in the store (\<open>src/src/state.ts\<close>): the processed row that
  records the outcome of a review, the claim that keeps two reviews of the same head apart,
  the approval that a live run consumes, and the cooldown of public commands.
\<close>

section \<open>Reading and recording processed reviews\<close>

definition getProcessedReview :: "string \<Rightarrow> int \<Rightarrow> string \<Rightarrow> db \<Rightarrow> processed_row option" where
  "getProcessedReview repo pull head d =
     map_option mapProcessedReviewRow (row_get pr_key (repo, pull, head) (processed d))"

definition hasProcessed :: "string \<Rightarrow> int \<Rightarrow> string \<Rightarrow> db \<Rightarrow> bool" where
  "hasProcessed repo pull head d \<longleftrightarrow> row_get pr_key (repo, pull, head) (processed d) \<noteq> None"

datatype author_gate_reason = AG_untrusted_author_public_repo
  | AG_untrusted_author_restricted_unavailable | AG_untrusted_author_provider_unavailable

fun author_gate_text :: "author_gate_reason \<Rightarrow> string" where
  "author_gate_text AG_untrusted_author_public_repo = ''untrusted_author_public_repo''"
| "author_gate_text AG_untrusted_author_restricted_unavailable =
     ''untrusted_author_restricted_unavailable''"
| "author_gate_text AG_untrusted_author_provider_unavailable =
     ''untrusted_author_provider_unavailable''"

definition clearAuthorGateSkip ::
  "string \<Rightarrow> int \<Rightarrow> string \<Rightarrow> author_gate_reason \<Rightarrow> db \<Rightarrow> bool \<times> db" where
  "clearAuthorGateSkip repo pull head reason d =
     (let P = (\<lambda>r. pr_key r = (repo, pull, head) \<and> pr_status r = P_skipped
                 \<and> pr_error r = Some (author_gate_text reason))
      in (0 < row_count P (processed d), d\<lparr>processed := row_delete P (processed d)\<rparr>))"

text \<open>The latest posted row, usable as an anchor only with its fingerprint evidence.\<close>

definition getBaseMergeOnlyAnchor :: "string \<Rightarrow> int \<Rightarrow> db \<Rightarrow> processed_row option" where
  "getBaseMergeOnlyAnchor repo pull d =
     (case latest_by pr_created_at
             (filter (\<lambda>r. pr_repo r = repo \<and> pr_pull r = pull \<and> pr_status r = P_posted) (processed d)) of
        None \<Rightarrow> None
      | Some r \<Rightarrow>
          if pr_review_url r = None \<or> pr_diff_fingerprint r = None
             \<or> (pr_error r \<noteq> None \<and> pr_error r \<noteq> Some REVIEW_POSTED_HEAD_CHANGED_ERROR)
          then None else Some (mapProcessedReviewRow r))"

definition processed_row_of :: "processed_review_record \<Rightarrow> int \<Rightarrow> processed_row" where
  "processed_row_of r at = processed_review_record.extend r \<lparr>pr_created_at = at\<rparr>"

text \<open>The \<open>on conflict\<close> clause of \<open>recordProcessed\<close>.\<close>

definition merge_processed :: "processed_row \<Rightarrow> processed_row \<Rightarrow> processed_row" where
  "merge_processed old new =
     (if pr_error new = Some BASE_MERGE_ONLY \<and> pr_status old = P_posted then old
      else new\<lparr>pr_created_at :=
        (if pr_status old = P_posted \<and> pr_review_url old = pr_review_url new
         then pr_created_at old else pr_created_at new)\<rparr>)"

definition recordProcessed :: "processed_review_record \<Rightarrow> int \<Rightarrow> db \<Rightarrow> db" where
  "recordProcessed record clock d =
     d\<lparr>processed := row_upsert pr_key merge_processed (processed_row_of record clock) (processed d),
       claims := row_delete (\<lambda>c. hc_key c = pr_key record) (claims d)\<rparr>"

datatype skip_refusal = SR_active_claim | SR_existing_row | SR_anchor_changed

datatype skip_result = SkipRecorded | SkipRefused skip_refusal

text \<open>\<open>Omit<ProcessedReviewRecord, "status" | "error">\<close>; the two omitted fields are not read.\<close>

definition retryable_for_skip :: "processed_row \<Rightarrow> bool" where
  "retryable_for_skip p \<longleftrightarrow> pr_status p = P_failed \<or>
     (pr_status p = P_skipped \<and>
       (isProviderCooldownError (pr_error p) \<or> pr_error p = Some ''repo_queue_capacity_full''))"

definition recordBaseMergeOnlySkip ::
  "processed_review_record \<Rightarrow> int \<Rightarrow> db \<Rightarrow> skip_result \<times> db" where
  "recordBaseMergeOnlySkip record clock d =
     (let activeClaim = (\<exists>c \<in> set (claims d). hc_key c = pr_key record \<and> clock < hc_expires_at c);
          existing = getProcessedReview (pr_repo record) (pr_pull record) (pr_head record) d;
          blockedByRow = (case existing of None \<Rightarrow> False | Some p \<Rightarrow> \<not> retryable_for_skip p)
      in if activeClaim \<or> blockedByRow
         then (SkipRefused (if activeClaim then SR_active_claim else SR_existing_row), d)
         else (case getBaseMergeOnlyAnchor (pr_repo record) (pr_pull record) d of
             None \<Rightarrow> (SkipRefused SR_anchor_changed, d)
           | Some anchor \<Rightarrow>
               if Some (pr_head anchor) \<noteq> pr_carried_from_head record
                  \<or> (pr_review_url record \<noteq> None \<and> pr_review_url anchor \<noteq> pr_review_url record)
               then (SkipRefused SR_anchor_changed, d)
               else (SkipRecorded,
                 d\<lparr>processed := row_upsert pr_key (\<lambda>_ new. new)
                     ((processed_row_of record clock)\<lparr>pr_status := P_skipped, pr_error := Some BASE_MERGE_ONLY,
                        pr_config_revision := None, pr_event := None, pr_review_url := None\<rparr>)
                     (processed d)\<rparr>)))"

record dry_run_input =
  di_repo :: string
  di_pull :: int
  di_head :: string
  di_config_revision :: "string option"
  di_event :: "review_event option"
  di_allow_baseline_supersession :: bool
  di_allow_base_merge_supersession :: bool

definition dry_run_row :: "dry_run_input \<Rightarrow> int \<Rightarrow> processed_row" where
  "dry_run_row i now = \<lparr>pr_repo = di_repo i, pr_pull = di_pull i, pr_head = di_head i,
     pr_status = P_dry_run, pr_config_revision = di_config_revision i, pr_base_ref = None,
     pr_base_sha = None, pr_diff_fingerprint = None, pr_carried_from_head = None,
     pr_event = di_event i, pr_review_url = None, pr_error = None, pr_created_at = now\<rparr>"

definition dry_run_may_replace :: "dry_run_input \<Rightarrow> processed_row \<Rightarrow> bool" where
  "dry_run_may_replace i p \<longleftrightarrow> pr_status p = P_dry_run
     \<or> isRetryableApprovedDryRunPrePostFailure p
     \<or> (di_allow_baseline_supersession i \<and> isActivationBaselineProcessedReview p)
     \<or> (di_allow_base_merge_supersession i \<and> pr_status p = P_skipped \<and> pr_error p = Some BASE_MERGE_ONLY)"

text \<open>Claims of a head whose TTL has run out are swept before a claim or a dry run.\<close>

definition sweep_claims :: "head_key \<Rightarrow> int \<Rightarrow> head_claim_row list \<Rightarrow> head_claim_row list" where
  "sweep_claims k now cs = row_delete (\<lambda>c. hc_key c = k \<and> hc_expires_at c \<le> now) cs"

definition tryRecordDryRun :: "dry_run_input \<Rightarrow> int \<Rightarrow> db \<Rightarrow> bool \<times> db" where
  "tryRecordDryRun i now d =
     (let k = (di_repo i, di_pull i, di_head i);
          d1 = d\<lparr>claims := sweep_claims k now (claims d)\<rparr>
      in if row_get hc_key k (claims d1) \<noteq> None
            \<or> (case row_get pr_key k (processed d1) of None \<Rightarrow> False | Some p \<Rightarrow> \<not> dry_run_may_replace i p)
         then (False, d1)
         else (True, d1\<lparr>processed := row_replace pr_key (dry_run_row i now) (processed d1)\<rparr>))"

section \<open>Claiming a head\<close>

record claim_input =
  ci_repo :: string
  ci_pull :: int
  ci_head :: string
  ci_ttl_ms :: int
  ci_now :: int
  ci_owner_pid :: int
  ci_allow_supersession :: bool
  ci_required_status :: "processed_status option"
  ci_required_revision :: "string option"
  ci_required_error :: "string option"
  ci_consume :: bool

record head_claim =
  claim_id :: string
  claim_expires_at :: int
  claim_owner_pid :: int

datatype claim_block = CB_active_claim | CB_processed

datatype claim_attempt = Acquired head_claim | Blocked claim_block

definition ci_key :: "claim_input \<Rightarrow> head_key" where
  "ci_key i = (ci_repo i, ci_pull i, ci_head i)"

definition claim_input_error :: "claim_input \<Rightarrow> store_error option" where
  "claim_input_error i =
     (if ci_ttl_ms i < 1 then Some (BadLimit ''claimTtlMs'')
      else if ci_owner_pid i < 1 then Some (BadLimit ''ownerPid'')
      else if ci_consume i \<and> ci_required_status i \<noteq> Some P_dry_run then Some ConsumeNeedsDryRun
      else if ci_consume i \<and> (case ci_required_revision i of None \<Rightarrow> True | Some r \<Rightarrow> \<not> is_sha256 r)
        then Some ConsumeNeedsConfigRevision
      else None)"

definition supersession_allowed :: "claim_input \<Rightarrow> processed_row \<Rightarrow> bool" where
  "supersession_allowed i p \<longleftrightarrow> ci_allow_supersession i
     \<and> (ci_required_status i = None \<or> ci_required_status i = Some (pr_status p))
     \<and> (ci_required_revision i = None \<or> pr_config_revision p = ci_required_revision i)
     \<and> (ci_required_error i = None \<or> pr_error p = ci_required_error i)"

text \<open>The rows the consuming \<open>update\<close> of an acquire matches.\<close>

definition approval_matches :: "claim_input \<Rightarrow> processed_row \<Rightarrow> bool" where
  "approval_matches i p \<longleftrightarrow> pr_key p = ci_key i \<and> ci_required_status i = Some (pr_status p)
     \<and> ci_required_revision i \<noteq> None \<and> pr_config_revision p = ci_required_revision i"

definition consume_approval :: "claim_input \<Rightarrow> int \<Rightarrow> db \<Rightarrow> unit outcome" where
  "consume_approval i clock d =
     (if ci_required_status i = None \<or> ci_required_revision i = None
      then (Inl ConsumeNeedsConfigRevision, d)
      else (let d' = d\<lparr>processed := row_update (approval_matches i)
                  (\<lambda>p. p\<lparr>pr_status := P_skipped, pr_error := Some APPROVED_DRY_RUN_LIVE_CLAIM_ERROR,
                         pr_created_at := sql_now clock\<rparr>) (processed d)\<rparr>
            in if row_count (approval_matches i) (processed d) \<noteq> 1 then (Inl ApprovalChanged, d')
               else (Inr (), d')))"

definition claim_body :: "claim_input \<Rightarrow> string \<Rightarrow> int \<Rightarrow> db \<Rightarrow> claim_attempt outcome" where
  "claim_body i uuid clock d =
     (let k = ci_key i; now = ci_now i;
          d1 = d\<lparr>claims := sweep_claims k now (claims d)\<rparr>
      in if row_get hc_key k (claims d1) \<noteq> None then (Inr (Blocked CB_active_claim), d1)
         else if (case row_get pr_key k (processed d1) of None \<Rightarrow> False
                  | Some p \<Rightarrow> \<not> supersession_allowed i p)
         then (Inr (Blocked CB_processed), d1)
         else (let expires = now + ci_ttl_ms i;
                   row = \<lparr>hc_repo = ci_repo i, hc_pull = ci_pull i, hc_head = ci_head i,
                          hc_claim_id = uuid, hc_owner_pid = ci_owner_pid i, hc_claimed_at = now,
                          hc_expires_at = expires\<rparr>;
                   d2 = d1\<lparr>claims := claims d1 @ [row]\<rparr>;
                   won = Acquired \<lparr>claim_id = uuid, claim_expires_at = expires,
                                   claim_owner_pid = ci_owner_pid i\<rparr>
               in if ci_consume i
                  then (case consume_approval i clock d2 of (Inl e, d3) \<Rightarrow> (Inl e, d3)
                        | (Inr _, d3) \<Rightarrow> (Inr won, d3))
                  else (Inr won, d2)))"

definition tryClaimReviewHeadWithOutcome ::
  "claim_input \<Rightarrow> string \<Rightarrow> int \<Rightarrow> db \<Rightarrow> claim_attempt outcome" where
  "tryClaimReviewHeadWithOutcome i uuid clock d =
     (case claim_input_error i of Some e \<Rightarrow> (Inl e, d)
      | None \<Rightarrow> transaction (claim_body i uuid clock) d)"

definition tryClaimReviewHead ::
  "claim_input \<Rightarrow> string \<Rightarrow> int \<Rightarrow> db \<Rightarrow> head_claim option outcome" where
  "tryClaimReviewHead i uuid clock d =
     (case tryClaimReviewHeadWithOutcome i uuid clock d of
        (Inl e, d') \<Rightarrow> (Inl e, d')
      | (Inr (Acquired c), d') \<Rightarrow> (Inr (Some c), d')
      | (Inr (Blocked _), d') \<Rightarrow> (Inr None, d'))"

definition releaseReviewHeadClaim :: "string \<Rightarrow> db \<Rightarrow> db" where
  "releaseReviewHeadClaim cid d = d\<lparr>claims := row_delete (\<lambda>c. hc_claim_id c = cid) (claims d)\<rparr>"

section \<open>Public command cooldown\<close>

record invocation_input =
  ii_repo :: string
  ii_pull :: int
  ii_head :: string
  ii_author :: string
  ii_action :: string
  ii_cooldown_ms :: int
  ii_now :: int

definition invocation_of :: "invocation_input \<Rightarrow> invocation_row" where
  "invocation_of i = \<lparr>pi_repo = ii_repo i, pi_pull = ii_pull i, pi_head = ii_head i,
     pi_author = ii_author i, pi_action = ii_action i, pi_invoked_at = ii_now i\<rparr>"

definition tryRecordPublicCommandInvocation :: "invocation_input \<Rightarrow> db \<Rightarrow> bool outcome" where
  "tryRecordPublicCommandInvocation i d =
     (if ii_cooldown_ms i < 1 then (Inl (BadLimit ''cooldownMs''), d)
      else if (\<exists>r \<in> set (invocations d). pi_key r = pi_key (invocation_of i)
                 \<and> sql_datetime (ii_now i - ii_cooldown_ms i) < sql_datetime (pi_invoked_at r))
      then (Inr False, d)
      else (Inr True, d\<lparr>invocations := row_replace pi_key (invocation_of i) (invocations d)\<rparr>))"

section \<open>Claims keep reviews of a head apart\<close>

definition live_claim :: "head_key \<Rightarrow> int \<Rightarrow> db \<Rightarrow> bool" where
  "live_claim k now d \<longleftrightarrow> (\<exists>c \<in> set (claims d). hc_key c = k \<and> now < hc_expires_at c)"

definition heads_wf :: "db \<Rightarrow> bool" where
  "heads_wf d \<longleftrightarrow> unique_rows pr_key (processed d) \<and> unique_rows hc_key (claims d)
     \<and> unique_rows pi_key (invocations d)"

lemma sweep_claims_get:
  "row_get hc_key k (sweep_claims k now cs) = None \<longleftrightarrow>
     \<not> (\<exists>c \<in> set cs. hc_key c = k \<and> now < hc_expires_at c)"
  by (auto simp: row_get_None_iff sweep_claims_def)

lemma sweep_claims_live: "live_claim k' t (d\<lparr>claims := sweep_claims k now (claims d)\<rparr>) =
   (\<exists>c \<in> set (claims d). hc_key c = k' \<and> t < hc_expires_at c \<and> (k' = k \<longrightarrow> now < hc_expires_at c))"
  by (auto simp: live_claim_def sweep_claims_def)

lemma count_matching_unique:
  assumes "unique_rows key rows" "row_get key k rows = Some p" "\<And>r. P r \<Longrightarrow> key r = k" "P p"
  shows "row_count P rows = 1"
proof -
  have "filter P rows = [p]" using assms
    by (induction rows)
      (auto simp: row_get_Cons unique_rows_def filter_empty_conv image_iff split: if_splits)
  then show ?thesis by (simp add: row_count_def)
qed

lemma count_matching_zero:
  assumes "row_count P rows = 1" "\<And>r. P r \<Longrightarrow> key r = k"
  shows "row_get key k rows \<noteq> None"
proof -
  obtain r where "r \<in> set rows" "P r"
    using assms(1) by (metis row_count_def filter_False length_0_conv zero_neq_one)
  then show ?thesis using assms(2)[of r] by (auto simp: row_get_None_iff)
qed

lemma key_of_row_get: "row_get pr_key (ci_key i) rows = Some p \<Longrightarrow> pr_key p = ci_key i"
  by (drule row_get_SomeD) simp

lemma approval_count:
  assumes "heads_wf d" "ci_consume i" "claim_input_error i = None"
    "row_get pr_key (ci_key i) (processed d) = Some p" "supersession_allowed i p"
  shows "row_count (approval_matches i) (processed d) = 1"
proof (rule count_matching_unique[where key = pr_key and k = "ci_key i" and p = p])
  show "approval_matches i p" 
    using assms key_of_row_get[OF assms(4)]
    by (auto simp: approval_matches_def supersession_allowed_def claim_input_error_def
        split: if_splits option.splits)
qed (use assms in \<open>auto simp: heads_wf_def approval_matches_def\<close>)


text \<open>The outcomes of a claim attempt, for valid input.\<close>

lemma claim_blocked_active:
  "claim_input_error i = None \<Longrightarrow> live_claim (ci_key i) (ci_now i) d \<Longrightarrow>
   tryClaimReviewHeadWithOutcome i uuid clock d =
     (Inr (Blocked CB_active_claim), d\<lparr>claims := sweep_claims (ci_key i) (ci_now i) (claims d)\<rparr>)"
  by (simp add: tryClaimReviewHeadWithOutcome_def transaction_def claim_body_def Let_def
      sweep_claims_get live_claim_def)

lemma claim_blocked_processed:
  "claim_input_error i = None \<Longrightarrow> \<not> live_claim (ci_key i) (ci_now i) d \<Longrightarrow>
   row_get pr_key (ci_key i) (processed d) = Some p \<Longrightarrow> \<not> supersession_allowed i p \<Longrightarrow>
   tryClaimReviewHeadWithOutcome i uuid clock d =
     (Inr (Blocked CB_processed), d\<lparr>claims := sweep_claims (ci_key i) (ci_now i) (claims d)\<rparr>)"
  by (simp add: tryClaimReviewHeadWithOutcome_def transaction_def claim_body_def Let_def
      sweep_claims_get live_claim_def)

definition claim_row :: "claim_input \<Rightarrow> string \<Rightarrow> head_claim_row" where
  "claim_row i uuid = \<lparr>hc_repo = ci_repo i, hc_pull = ci_pull i, hc_head = ci_head i,
     hc_claim_id = uuid, hc_owner_pid = ci_owner_pid i, hc_claimed_at = ci_now i,
     hc_expires_at = ci_now i + ci_ttl_ms i\<rparr>"

definition consumed_row :: "int \<Rightarrow> processed_row \<Rightarrow> processed_row" where
  "consumed_row clock p = p\<lparr>pr_status := P_skipped,
     pr_error := Some APPROVED_DRY_RUN_LIVE_CLAIM_ERROR, pr_created_at := sql_now clock\<rparr>"

definition acquired_of :: "claim_input \<Rightarrow> string \<Rightarrow> head_claim" where
  "acquired_of i uuid = \<lparr>claim_id = uuid, claim_expires_at = ci_now i + ci_ttl_ms i,
     claim_owner_pid = ci_owner_pid i\<rparr>"

definition after_acquire :: "claim_input \<Rightarrow> string \<Rightarrow> int \<Rightarrow> db \<Rightarrow> db" where
  "after_acquire i uuid clock d =
     d\<lparr>claims := sweep_claims (ci_key i) (ci_now i) (claims d) @ [claim_row i uuid],
       processed := (if ci_consume i
         then row_update (approval_matches i) (consumed_row clock) (processed d) else processed d)\<rparr>"

lemma claim_free:
  assumes "claim_input_error i = None" "\<not> live_claim (ci_key i) (ci_now i) d"
    "\<And>p. row_get pr_key (ci_key i) (processed d) = Some p \<Longrightarrow> supersession_allowed i p"
  shows "tryClaimReviewHeadWithOutcome i uuid clock d =
     (if ci_consume i \<and> row_count (approval_matches i) (processed d) \<noteq> 1
      then (Inl ApprovalChanged, d)
      else (Inr (Acquired (acquired_of i uuid)), after_acquire i uuid clock d))"
proof -
  have free: "row_get hc_key (ci_key i) (sweep_claims (ci_key i) (ci_now i) (claims d)) = None"
    using assms(2) by (simp add: sweep_claims_get live_claim_def)
  have ok: "\<not> (case row_get pr_key (ci_key i) (processed d) of None \<Rightarrow> False
       | Some p \<Rightarrow> \<not> supersession_allowed i p)"
    using assms(3) by (simp split: option.split)
  have req: "ci_consume i \<Longrightarrow> ci_required_status i \<noteq> None \<and> ci_required_revision i \<noteq> None"
    using assms(1) by (auto simp: claim_input_error_def split: if_splits option.splits)
  show ?thesis
  proof (cases "ci_consume i")
    case True
    with req assms(1) free ok show ?thesis
      by (auto simp: tryClaimReviewHeadWithOutcome_def transaction_def claim_body_def Let_def
          consume_approval_def consumed_row_def[abs_def] claim_row_def acquired_of_def after_acquire_def)
  next
    case False
    with assms(1) free ok show ?thesis
      by (simp add: tryClaimReviewHeadWithOutcome_def transaction_def claim_body_def Let_def
          claim_row_def acquired_of_def after_acquire_def)
  qed
qed

lemma claim_cases:
  obtains (invalid) e where "claim_input_error i = Some e"
      "tryClaimReviewHeadWithOutcome i uuid clock d = (Inl e, d)"
  | (held) "claim_input_error i = None" "live_claim (ci_key i) (ci_now i) d"
  | (spent) p where "claim_input_error i = None" "\<not> live_claim (ci_key i) (ci_now i) d"
      "row_get pr_key (ci_key i) (processed d) = Some p" "\<not> supersession_allowed i p"
  | (free) "claim_input_error i = None" "\<not> live_claim (ci_key i) (ci_now i) d"
      "\<And>p. row_get pr_key (ci_key i) (processed d) = Some p \<Longrightarrow> supersession_allowed i p"
  by (cases "claim_input_error i"; cases "row_get pr_key (ci_key i) (processed d)")
    (auto simp: tryClaimReviewHeadWithOutcome_def)

lemma claim_acquiredD:
  assumes "tryClaimReviewHeadWithOutcome i uuid clock d = (Inr (Acquired c), d')"
  shows "claim_input_error i = None" "\<not> live_claim (ci_key i) (ci_now i) d"
    "\<And>p. row_get pr_key (ci_key i) (processed d) = Some p \<Longrightarrow> supersession_allowed i p"
    "ci_consume i \<Longrightarrow> row_count (approval_matches i) (processed d) = 1"
    "c = acquired_of i uuid" "d' = after_acquire i uuid clock d"
  using assms
  by (cases rule: claim_cases[of i uuid clock d];
      auto simp: claim_blocked_active claim_blocked_processed claim_free split: if_splits)+

lemma acquire_condition:
  assumes "heads_wf d"
  shows "(\<exists>c d'. tryClaimReviewHeadWithOutcome i uuid clock d = (Inr (Acquired c), d')) \<longleftrightarrow>
    claim_input_error i = None \<and> \<not> live_claim (ci_key i) (ci_now i) d \<and>
    (case row_get pr_key (ci_key i) (processed d) of
       None \<Rightarrow> \<not> ci_consume i | Some p \<Rightarrow> supersession_allowed i p)" (is "?l \<longleftrightarrow> ?r")
proof
  assume ?l
  then obtain c d' where t: "tryClaimReviewHeadWithOutcome i uuid clock d = (Inr (Acquired c), d')" by auto
  from claim_acquiredD(4)[OF t] have "ci_consume i \<Longrightarrow> row_get pr_key (ci_key i) (processed d) \<noteq> None"
    by (intro count_matching_zero[where P = "approval_matches i"]) (auto simp: approval_matches_def)
  with claim_acquiredD(1-3)[OF t] show ?r
    by (auto split: option.split)
next
  assume r: ?r
  then have "\<not> (ci_consume i \<and> row_count (approval_matches i) (processed d) \<noteq> 1)"
    using approval_count[OF assms] by (auto split: option.splits)
  with r claim_free[of i d uuid clock] show ?l
    by (auto split: option.splits)
qed

text \<open>A claim that is not acquired stores nothing but the sweep.\<close>

lemma claim_refused:
  assumes "tryClaimReviewHeadWithOutcome i uuid clock d = (r, d')" "\<And>c. r \<noteq> Inr (Acquired c)"
  shows "d' = d \<or> d' = d\<lparr>claims := sweep_claims (ci_key i) (ci_now i) (claims d)\<rparr>"
  using assms
  by (cases rule: claim_cases[of i uuid clock d]; auto simp: claim_blocked_active claim_blocked_processed claim_free split: if_splits)

lemma acquired_rows:
  assumes "heads_wf d" "\<not> live_claim (ci_key i) (ci_now i) d" "ci_consume i \<Longrightarrow> claim_input_error i = None"
    and "\<And>p. ci_consume i \<Longrightarrow> row_get pr_key (ci_key i) (processed d) = Some p \<Longrightarrow> supersession_allowed i p"
  shows "row_get hc_key k (claims (after_acquire i uuid clock d)) = (if k = ci_key i then Some (claim_row i uuid) else row_get hc_key k (claims d))"
    "row_get pr_key k (processed (after_acquire i uuid clock d)) =
       (if k = ci_key i \<and> ci_consume i then map_option (consumed_row clock) (row_get pr_key k (processed d)) else row_get pr_key k (processed d))"
proof -
  have key: "hc_key (claim_row i uuid) = ci_key i" by (simp add: claim_row_def hc_key_def ci_key_def)
  have free: "row_get hc_key (ci_key i) (sweep_claims (ci_key i) (ci_now i) (claims d)) = None"
    using assms(2) by (simp add: sweep_claims_get live_claim_def)
  have other: "row_get hc_key k (sweep_claims (ci_key i) (ci_now i) (claims d)) = row_get hc_key k (claims d)" if "k \<noteq> ci_key i"
    using that by (simp add: sweep_claims_def row_get_delete_guarded)
  show "row_get hc_key k (claims (after_acquire i uuid clock d)) = (if k = ci_key i then Some (claim_row i uuid) else row_get hc_key k (claims d))"
    using key free other by (auto simp: after_acquire_def row_get_append row_get_Cons split: option.split)
  have kept: "pr_key (consumed_row clock p) = pr_key p" for p by (simp add: consumed_row_def pr_key_def)
  have matches: "approval_matches i p" if "ci_consume i" "row_get pr_key (ci_key i) (processed d) = Some p" for p
    using assms(3)[OF that(1)] assms(4)[OF that] that key_of_row_get[OF that(2)]
    by (auto simp: approval_matches_def supersession_allowed_def claim_input_error_def split: if_splits option.splits)
  have "row_get pr_key k (row_update (approval_matches i) (consumed_row clock) (processed d)) =
      (if k = ci_key i then map_option (consumed_row clock) (row_get pr_key k (processed d)) else row_get pr_key k (processed d))" if "ci_consume i"
    using matches[OF that]
    by (cases "row_get pr_key k (processed d)") (auto simp: row_get_update_key kept approval_matches_def dest: row_get_SomeD)
  then show "row_get pr_key k (processed (after_acquire i uuid clock d)) =
       (if k = ci_key i \<and> ci_consume i then map_option (consumed_row clock) (row_get pr_key k (processed d)) else row_get pr_key k (processed d))"
    by (cases "ci_consume i"; cases "k = ci_key i") (simp_all add: after_acquire_def)
qed

text \<open>C10: an attempt to claim a head succeeds exactly when its input is valid, no unexpired claim of the head exists, and
  the head is unprocessed or its processed row passes every guard of the supersession the caller asked for (a consuming
  claim needs a processed row). A success stores, and returns, one claim of the head that lasts for the requested time,
  marks the approved dry run it consumes, if it is to consume one, as a live claim, and leaves every other head alone; a
  refusal stores nothing, or only sweeps the expired claims of the head.\<close>

theorem claim_acquired_iff:
  assumes "heads_wf d" "tryClaimReviewHeadWithOutcome i uuid clock d = (r, d')"
  shows "((\<exists>c. r = Inr (Acquired c)) \<longleftrightarrow>
      claim_input_error i = None \<and> \<not> live_claim (ci_key i) (ci_now i) d \<and>
      (case row_get pr_key (ci_key i) (processed d) of None \<Rightarrow> \<not> ci_consume i | Some p \<Rightarrow> supersession_allowed i p)) \<and>
    (\<forall>c. r = Inr (Acquired c) \<longrightarrow>
      c = \<lparr>claim_id = uuid, claim_expires_at = ci_now i + ci_ttl_ms i, claim_owner_pid = ci_owner_pid i\<rparr> \<and>
      row_get hc_key (ci_key i) (claims d') = Some \<lparr>hc_repo = ci_repo i, hc_pull = ci_pull i, hc_head = ci_head i, hc_claim_id = uuid,
        hc_owner_pid = ci_owner_pid i, hc_claimed_at = ci_now i, hc_expires_at = ci_now i + ci_ttl_ms i\<rparr> \<and>
      row_get pr_key (ci_key i) (processed d') = (if ci_consume i
        then map_option (\<lambda>p. p\<lparr>pr_status := P_skipped, pr_error := Some APPROVED_DRY_RUN_LIVE_CLAIM_ERROR, pr_created_at := sql_now clock\<rparr>)
          (row_get pr_key (ci_key i) (processed d))
        else row_get pr_key (ci_key i) (processed d)) \<and>
      (\<forall>k. k \<noteq> ci_key i \<longrightarrow> row_get hc_key k (claims d') = row_get hc_key k (claims d) \<and> row_get pr_key k (processed d') = row_get pr_key k (processed d)) \<and>
      d' = d\<lparr>claims := claims d', processed := processed d'\<rparr>) \<and>
    ((\<nexists>c. r = Inr (Acquired c)) \<longrightarrow> d' = d \<or> d' = d\<lparr>claims := sweep_claims (ci_key i) (ci_now i) (claims d)\<rparr>)" (is "?acquired \<and> (\<forall>c. r = Inr (Acquired c) \<longrightarrow> ?stored_as c) \<and> ?refused")
proof (intro conjI)
  show ?acquired using acquire_condition[OF assms(1), of i uuid clock] assms(2) by simp
  show "\<forall>c. r = Inr (Acquired c) \<longrightarrow> ?stored_as c"
  proof (intro allI impI)
    fix c assume "r = Inr (Acquired c)"
    note won = claim_acquiredD[OF assms(2)[unfolded this]]
    note rows = acquired_rows[OF assms(1) won(2) won(1) won(3), where uuid = uuid and clock = clock]
    show "?stored_as c" by (simp add: won(5,6) rows acquired_of_def claim_row_def consumed_row_def[abs_def]) (simp add: after_acquire_def)
  qed
  show ?refused using claim_refused[OF assms(2)] by blast
qed


lemma claim_held_attempt:
  assumes "live_claim (ci_key i) (ci_now i) d"
  shows "fst (tryClaimReviewHeadWithOutcome i uuid clock d) \<noteq> Inr (Acquired c)"
  using assms claim_acquiredD(2) by (metis prod.collapse)

text \<open>An abstract view of the claims of one head: the latest moment until which it is held.\<close>

definition held_by :: "head_key \<Rightarrow> string \<Rightarrow> int \<Rightarrow> db \<Rightarrow> bool" where
  "held_by k uuid till d \<longleftrightarrow>
     (\<exists>c \<in> set (claims d). hc_key c = k \<and> hc_claim_id c = uuid \<and> hc_expires_at c = till)"

lemma held_by_live: "held_by k uuid till d \<Longrightarrow> now < till \<Longrightarrow> live_claim k now d"
  by (auto simp: held_by_def live_claim_def)

lemma claims_after_claim:
  "claims (snd (tryClaimReviewHeadWithOutcome i uuid clock d)) =
     (case fst (tryClaimReviewHeadWithOutcome i uuid clock d) of
        Inl _ \<Rightarrow> claims d
      | Inr (Blocked _) \<Rightarrow> sweep_claims (ci_key i) (ci_now i) (claims d)
      | Inr (Acquired _) \<Rightarrow> sweep_claims (ci_key i) (ci_now i) (claims d) @ [claim_row i uuid])"
  by (cases rule: claim_cases[of i uuid clock d])
    (auto simp: claim_blocked_active claim_blocked_processed claim_free after_acquire_def)

lemma held_by_claim:
  assumes "held_by k uuid till d" "ci_key i = k \<Longrightarrow> ci_now i < till"
  shows "held_by k uuid till (snd (tryClaimReviewHeadWithOutcome i u clock d))"
  using assms
  by (auto simp: held_by_def claims_after_claim sweep_claims_def row_delete_def
      split: sum.split claim_attempt.split)

lemma held_by_release:
  "held_by k uuid till d \<Longrightarrow> cid \<noteq> uuid \<Longrightarrow> held_by k uuid till (releaseReviewHeadClaim cid d)"
  by (auto simp: held_by_def releaseReviewHeadClaim_def)

lemma held_by_record:
  "held_by k uuid till d \<Longrightarrow> pr_key r \<noteq> k \<Longrightarrow> held_by k uuid till (recordProcessed r clock d)"
  by (auto simp: held_by_def recordProcessed_def)

lemma claims_skip [simp]: "claims (snd (recordBaseMergeOnlySkip r clock d)) = claims d"
  by (simp add: recordBaseMergeOnlySkip_def Let_def split: option.split)

lemma claims_dry_run: "claims (snd (tryRecordDryRun i now d)) =
   sweep_claims (di_repo i, di_pull i, di_head i) now (claims d)"
  by (simp add: tryRecordDryRun_def Let_def)

lemma held_by_dry_run:
  assumes "held_by k uuid till d" "(di_repo i, di_pull i, di_head i) = k \<Longrightarrow> now < till"
  shows "held_by k uuid till (snd (tryRecordDryRun i now d))"
  using assms by (auto simp: held_by_def claims_dry_run sweep_claims_def row_delete_def)

lemma claims_clear_skip [simp]: "claims (snd (clearAuthorGateSkip repo pull head reason d)) = claims d"
  by (simp add: clearAuthorGateSkip_def Let_def)

datatype head_op =
    HClaim claim_input string int
  | HRelease string
  | HRecord processed_review_record int
  | HSkip processed_review_record int
  | HDryRun dry_run_input int
  | HClearSkip string int string author_gate_reason

fun apply_head_op :: "head_op \<Rightarrow> db \<Rightarrow> db" where
  "apply_head_op (HClaim i uuid clock) d = snd (tryClaimReviewHeadWithOutcome i uuid clock d)"
| "apply_head_op (HRelease cid) d = releaseReviewHeadClaim cid d"
| "apply_head_op (HRecord r clock) d = recordProcessed r clock d"
| "apply_head_op (HSkip r clock) d = snd (recordBaseMergeOnlySkip r clock d)"
| "apply_head_op (HDryRun i now) d = snd (tryRecordDryRun i now d)"
| "apply_head_op (HClearSkip repo pull head reason) d = snd (clearAuthorGateSkip repo pull head reason d)"

text \<open>The steps that can end a claim of head \<open>k\<close>: its release, the completion of the review, the clock.\<close>

fun ends_claim :: "head_key \<Rightarrow> string \<Rightarrow> int \<Rightarrow> head_op \<Rightarrow> bool" where
  "ends_claim k uuid till (HClaim i _ _) \<longleftrightarrow> ci_key i = k \<and> till \<le> ci_now i"
| "ends_claim k uuid till (HRelease cid) \<longleftrightarrow> cid = uuid"
| "ends_claim k uuid till (HRecord r _) \<longleftrightarrow> pr_key r = k"
| "ends_claim k uuid till (HDryRun i now) \<longleftrightarrow> (di_repo i, di_pull i, di_head i) = k \<and> till \<le> now"
| "ends_claim k uuid till _ \<longleftrightarrow> False"

lemma held_by_op:
  assumes "held_by k uuid till d" "\<not> ends_claim k uuid till op"
  shows "held_by k uuid till (apply_head_op op d)"
proof (cases op)
  case (HClaim i u clock)
  with assms show ?thesis by (auto intro: held_by_claim)
next
  case (HRelease cid)
  with assms show ?thesis by (auto intro: held_by_release)
next
  case (HRecord r clock)
  with assms show ?thesis by (auto intro: held_by_record)
next
  case (HDryRun i now)
  with assms show ?thesis by (auto intro: held_by_dry_run)
qed (use assms in \<open>simp_all add: held_by_def\<close>)

text \<open>What a live claim of a head refuses: another claim of the head, and the record of a dry run.\<close>

datatype head_request = RqClaim claim_input string int | RqDryRun dry_run_input int

fun claim_covers :: "head_key \<times> string \<times> int \<Rightarrow> head_request \<Rightarrow> bool" where
  "claim_covers (k, uuid, till) (RqClaim i _ _) \<longleftrightarrow>
     ci_key i = k \<and> ci_now i < till \<and> claim_input_error i = None"
| "claim_covers (k, uuid, till) (RqDryRun i now) \<longleftrightarrow>
     (di_repo i, di_pull i, di_head i) = k \<and> now < till"

fun head_request_refused :: "head_request \<Rightarrow> db \<Rightarrow> bool" where
  "head_request_refused (RqClaim i uuid clock) d \<longleftrightarrow>
     fst (tryClaimReviewHeadWithOutcome i uuid clock d) = Inr (Blocked CB_active_claim)"
| "head_request_refused (RqDryRun i now) d \<longleftrightarrow> \<not> fst (tryRecordDryRun i now d)"

interpretation head_hold: exclusive_hold "\<lambda>(k, uuid, till). held_by k uuid till" apply_head_op
  "\<lambda>(k, uuid, till). ends_claim k uuid till" claim_covers head_request_refused
proof unfold_locales
  fix h d op
  assume "(case h of (k, uuid, till) \<Rightarrow> held_by k uuid till) d"
    "\<not> (case h of (k, uuid, till) \<Rightarrow> ends_claim k uuid till) op"
  then show "(case h of (k, uuid, till) \<Rightarrow> held_by k uuid till) (apply_head_op op d)"
    by (cases h) (simp add: held_by_op)
next
  fix h d r
  assume "(case h of (k, uuid, till) \<Rightarrow> held_by k uuid till) d" "claim_covers h r"
  then show "head_request_refused r d"
    by (cases h; cases r) (auto simp: claim_blocked_active tryRecordDryRun_def Let_def sweep_claims_get
        dest!: held_by_live simp: live_claim_def)
qed

lemma held_by_acquired:
  assumes "tryClaimReviewHeadWithOutcome i uuid clock d = (Inr (Acquired c), d')"
  shows "held_by (ci_key i) uuid (claim_expires_at c) d'"
  unfolding claim_acquiredD(5)[OF assms] claim_acquiredD(6)[OF assms]
  by (simp add: held_by_def after_acquire_def claim_row_def acquired_of_def hc_key_def ci_key_def)

text \<open>C4: while a head is claimed, until the claim expires, is released by its id or the head's
  review completes, every other claim of the head is refused as an active claim and no dry run of
  the head is recorded, whatever operations on the heads run in between.\<close>

theorem claim_excludes_others:
  assumes "tryClaimReviewHeadWithOutcome i uuid clock d = (Inr (Acquired c), d')"
    and "list_all (\<lambda>op. \<not> ends_claim (ci_key i) uuid (claim_expires_at c) op) ops"
    and "claim_covers (ci_key i, uuid, claim_expires_at c) request"
  shows "head_request_refused request (fold apply_head_op ops d')"
  using head_hold.run_refuses[of "(ci_key i, uuid, claim_expires_at c)"] held_by_acquired[OF assms(1)] assms(2,3)
  by simp

text \<open>Consumption of an approval.\<close>

lemma consume_finds_dry_run:
  assumes "heads_wf d" "tryClaimReviewHeadWithOutcome i uuid clock d = (Inr (Acquired c), d')" "ci_consume i"
  obtains p where "row_get pr_key (ci_key i) (processed d) = Some p" "pr_status p = P_dry_run"
    "approval_matches i p"
proof -
  note a = claim_acquiredD[OF assms(2)]
  have "row_get pr_key (ci_key i) (processed d) \<noteq> None"
    by (rule count_matching_zero[OF a(4)[OF assms(3)]]) (simp add: approval_matches_def)
  then obtain p where p: "row_get pr_key (ci_key i) (processed d) = Some p" by auto
  have "approval_matches i p" "pr_status p = P_dry_run"
    using a(1) a(3)[OF p] assms(3) key_of_row_get[OF p]
    by (auto simp: approval_matches_def supersession_allowed_def claim_input_error_def
        split: if_splits option.splits)
  with p that show thesis by blast
qed

text \<open>a claim that consumes a dry-run approval finds a dry-run row, turns it into a skipped row
  marked as consumed, and as long as that row stands no consuming claim of the head succeeds again.\<close>

theorem approval_single_use:
  assumes "heads_wf d" "tryClaimReviewHeadWithOutcome i uuid clock d = (Inr (Acquired c), d')"
    and "ci_consume i"
    and "getProcessedReview (ci_repo i) (ci_pull i) (ci_head i) d'' =
         getProcessedReview (ci_repo i) (ci_pull i) (ci_head i) d'"
    and "ci_consume j" "ci_key j = ci_key i"
  shows "map_option pr_status (getProcessedReview (ci_repo i) (ci_pull i) (ci_head i) d) = Some P_dry_run \<and>
    map_option (\<lambda>p. (pr_status p, pr_error p)) (getProcessedReview (ci_repo i) (ci_pull i) (ci_head i) d') =
          Some (P_skipped, Some APPROVED_DRY_RUN_LIVE_CLAIM_ERROR) \<and>
    fst (tryClaimReviewHeadWithOutcome j uuid' clock' d'') \<noteq> Inr (Acquired c')"
proof (intro conjI)
  obtain p where p: "row_get pr_key (ci_key i) (processed d) = Some p" "pr_status p = P_dry_run"
    "approval_matches i p" using consume_finds_dry_run[OF assms(1-3)] .
  have row: "row_get pr_key (ci_key i) (processed d') = Some (consumed_row clock p)"
    unfolding claim_acquiredD(6)[OF assms(2)] using p assms(3)
    by (simp add: after_acquire_def row_get_update_key consumed_row_def pr_key_def)
  show "map_option pr_status (getProcessedReview (ci_repo i) (ci_pull i) (ci_head i) d) = Some P_dry_run"
    using p by (simp add: getProcessedReview_def ci_key_def)
  show q: "map_option (\<lambda>p. (pr_status p, pr_error p)) (getProcessedReview (ci_repo i) (ci_pull i) (ci_head i) d') =
          Some (P_skipped, Some APPROVED_DRY_RUN_LIVE_CLAIM_ERROR)"
    using row by (simp add: getProcessedReview_def ci_key_def consumed_row_def
        APPROVED_DRY_RUN_LIVE_CLAIM_ERROR_def)
  obtain p'' where p'': "row_get pr_key (ci_key j) (processed d'') = Some p''" "pr_status p'' = P_skipped"
    using q assms(4,6)
    by (auto simp: getProcessedReview_def ci_key_def) (metis mapProcessedReviewRow_simps(2))
  show "fst (tryClaimReviewHeadWithOutcome j uuid' clock' d'') \<noteq> Inr (Acquired c')"
  proof
    assume "fst (tryClaimReviewHeadWithOutcome j uuid' clock' d'') = Inr (Acquired c')"
    then have t: "tryClaimReviewHeadWithOutcome j uuid' clock' d'' =
        (Inr (Acquired c'), snd (tryClaimReviewHeadWithOutcome j uuid' clock' d''))"
      by (metis prod.collapse)
    show False
      using claim_acquiredD(1)[OF t] claim_acquiredD(3)[OF t p''(1)] p''(2) assms(5)
      by (auto simp: claim_input_error_def supersession_allowed_def split: if_splits)
  qed
qed


section \<open>Recording and skipping\<close>

lemma pr_key_processed_row_of [simp]: "pr_key (processed_row_of r at) = pr_key r"
  by (simp add: processed_row_of_def pr_key_def processed_review_record.defs)

lemma merge_processed_key: "pr_key old = pr_key new \<Longrightarrow> pr_key (merge_processed old new) = pr_key new"
  by (simp add: merge_processed_def pr_key_def)

lemma recordProcessed_row:
  "row_get pr_key k (processed (recordProcessed r clock d)) =
     (if k = pr_key r
      then Some (case row_get pr_key k (processed d) of None \<Rightarrow> processed_row_of r clock
                 | Some old \<Rightarrow> merge_processed old (processed_row_of r clock))
      else row_get pr_key k (processed d))"
  by (simp add: recordProcessed_def row_get_upsert merge_processed_key)

lemma processed_row_of_simps [simp]:
  "pr_status (processed_row_of r at) = pr_status r" "pr_error (processed_row_of r at) = pr_error r"
  "pr_review_url (processed_row_of r at) = pr_review_url r" "pr_event (processed_row_of r at) = pr_event r"
  "pr_created_at (processed_row_of r at) = at" "pr_head (processed_row_of r at) = pr_head r"
  "pr_repo (processed_row_of r at) = pr_repo r" "pr_pull (processed_row_of r at) = pr_pull r"
  "pr_carried_from_head (processed_row_of r at) = pr_carried_from_head r"
  "pr_diff_fingerprint (processed_row_of r at) = pr_diff_fingerprint r"
  by (simp_all add: processed_row_of_def processed_review_record.defs)

lemma truncate_processed_row_of [simp]:
  "processed_review_record.truncate (processed_row_of r at) = r"
  "processed_review_record.truncate (p\<lparr>pr_created_at := at\<rparr>) = processed_review_record.truncate p"
  by (simp_all add: processed_row_of_def processed_review_record.defs)

lemma recordProcessed_claims: "row_get hc_key (pr_key r) (claims (recordProcessed r clock d)) = None"
  by (simp add: recordProcessed_def table_simps)

text \<open>recording a processed review stores exactly that record and retires the claim of the
  head, except that a base-merge-only record never replaces a posted one; the timestamp of a posted
  review survives a rewrite with the same review URL and is renewed otherwise.\<close>

theorem recordProcessed_effect:
  "let d' = recordProcessed r clock d; k = pr_key r; old = row_get pr_key k (processed d);
       new = row_get pr_key k (processed d')
   in (if map_option pr_status old = Some P_posted \<and> pr_error r = Some BASE_MERGE_ONLY then new = old
       else map_option processed_review_record.truncate new = Some r \<and>
            map_option pr_created_at new =
              (case old of Some o' \<Rightarrow> (if pr_status o' = P_posted \<and> pr_review_url o' = pr_review_url r
                                      then Some (pr_created_at o') else Some clock)
                         | None \<Rightarrow> Some clock))
      \<and> row_get hc_key k (claims d') = None"
proof (cases "row_get pr_key (pr_key r) (processed d)")
  case None
  then show ?thesis
    by (simp add: Let_def recordProcessed_row recordProcessed_claims)
next
  case (Some old)
  then show ?thesis
    by (simp add: Let_def recordProcessed_row recordProcessed_claims merge_processed_def)
qed

theorem recordProcessed_frame:
  "k \<noteq> pr_key r \<Longrightarrow>
   row_get pr_key k (processed (recordProcessed r clock d)) = row_get pr_key k (processed d) \<and>
   row_get hc_key k (claims (recordProcessed r clock d)) = row_get hc_key k (claims d)"
  by (simp add: recordProcessed_row) (simp add: recordProcessed_def table_simps)

lemma anchor_props:
  assumes "getBaseMergeOnlyAnchor repo pull d = Some a"
  obtains r where "r \<in> set (processed d)" "a = mapProcessedReviewRow r" "pr_repo r = repo"
    "pr_pull r = pull" "pr_status r = P_posted" "pr_review_url r \<noteq> None" "pr_diff_fingerprint r \<noteq> None"
    "\<And>r'. r' \<in> set (processed d) \<Longrightarrow> pr_repo r' = repo \<Longrightarrow> pr_pull r' = pull \<Longrightarrow>
       pr_status r' = P_posted \<Longrightarrow> pr_created_at r' \<le> pr_created_at r"
  using assms
  by (auto simp: getBaseMergeOnlyAnchor_def split: option.splits if_splits dest!: latest_by_SomeD)

lemma latest_by_filter_update:
  assumes "\<And>r. r \<in> set rows \<Longrightarrow> P r \<Longrightarrow> \<not> Q r" "\<And>r. \<not> Q (f r)"
  shows "filter Q (row_update P f rows) = filter Q rows"
  using assms by (induction rows) (auto simp: row_update_def)

definition skip_row :: "processed_review_record \<Rightarrow> int \<Rightarrow> processed_row" where
  "skip_row r clock = (processed_row_of r clock)\<lparr>pr_status := P_skipped, pr_error := Some BASE_MERGE_ONLY,
     pr_config_revision := None, pr_event := None, pr_review_url := None\<rparr>"

lemma skip_recordedD:
  assumes "fst (recordBaseMergeOnlySkip r clock d) = SkipRecorded"
  obtains a where "\<not> live_claim (pr_key r) clock d"
    "\<And>p. getProcessedReview (pr_repo r) (pr_pull r) (pr_head r) d = Some p \<Longrightarrow> retryable_for_skip p"
    "getBaseMergeOnlyAnchor (pr_repo r) (pr_pull r) d = Some a" "pr_carried_from_head r = Some (pr_head a)"
    "pr_review_url r = None \<or> pr_review_url r = pr_review_url a"
    "snd (recordBaseMergeOnlySkip r clock d) =
       d\<lparr>processed := row_upsert pr_key (\<lambda>_ new. new) (skip_row r clock) (processed d)\<rparr>"
  using assms
  by (auto simp: recordBaseMergeOnlySkip_def Let_def live_claim_def skip_row_def
      split: if_splits option.splits)


lemma skip_row_simps [simp]:
  "pr_status (skip_row r clock) = P_skipped" "pr_error (skip_row r clock) = Some BASE_MERGE_ONLY"
  "pr_key (skip_row r clock) = pr_key r" "pr_carried_from_head (skip_row r clock) = pr_carried_from_head r"
  by (simp_all add: skip_row_def processed_row_of_def pr_key_def processed_review_record.defs)

lemma anchor_cong:
  "filter (\<lambda>r. pr_status r = P_posted) (processed d) = filter (\<lambda>r. pr_status r = P_posted) (processed d') \<Longrightarrow>
   getBaseMergeOnlyAnchor repo pull d = getBaseMergeOnlyAnchor repo pull d'"
proof -
  assume a: "filter (\<lambda>r. pr_status r = P_posted) (processed d) = filter (\<lambda>r. pr_status r = P_posted) (processed d')"
  have "filter (\<lambda>r. pr_repo r = repo \<and> pr_pull r = pull \<and> pr_status r = P_posted) rows =
     filter (\<lambda>r. pr_repo r = repo \<and> pr_pull r = pull) (filter (\<lambda>r. pr_status r = P_posted) rows)" for rows :: "processed_row list"
    by (auto intro!: filter_cong)
  with a show ?thesis by (simp add: getBaseMergeOnlyAnchor_def del: filter_filter)
qed

lemma posted_rows_upsert:
  assumes "unique_rows pr_key rows" "pr_status new \<noteq> P_posted"
    "\<And>p. row_get pr_key (pr_key new) rows = Some p \<Longrightarrow> pr_status p \<noteq> P_posted"
  shows "filter (\<lambda>r. pr_status r = P_posted) (row_upsert pr_key (\<lambda>_ n. n) new rows) =
         filter (\<lambda>r. pr_status r = P_posted) rows"
proof (cases "row_get pr_key (pr_key new) rows")
  case None
  with assms(2) show ?thesis by (simp add: row_upsert_def)
next
  case (Some p)
  then have "row_upsert pr_key (\<lambda>_ n. n) new rows = row_update (\<lambda>r. pr_key r = pr_key new) (\<lambda>_. new) rows"
    by (simp add: row_upsert_def)
  moreover have "\<not> pr_status r = P_posted" if "r \<in> set rows" "pr_key r = pr_key new" for r
    using assms(3)[of r] unique_rows_get[OF assms(1) that(1)] that(2) by simp
  ultimately show ?thesis using assms(2) by (simp add: latest_by_filter_update)
qed

lemma retryable_not_posted: "retryable_for_skip p \<Longrightarrow> pr_status p = P_failed \<or> pr_status p = P_skipped"
  by (auto simp: retryable_for_skip_def)

theorem base_merge_skip_recorded_iff:
  "fst (recordBaseMergeOnlySkip r clock d) = SkipRecorded \<longleftrightarrow>
     \<not> live_claim (pr_key r) clock d \<and>
     (case getProcessedReview (pr_repo r) (pr_pull r) (pr_head r) d of None \<Rightarrow> True
      | Some p \<Rightarrow> retryable_for_skip p) \<and>
     (case getBaseMergeOnlyAnchor (pr_repo r) (pr_pull r) d of None \<Rightarrow> False
      | Some a \<Rightarrow> pr_carried_from_head r = Some (pr_head a) \<and> pr_review_url r \<in> {None, pr_review_url a})"
  by (auto simp: recordBaseMergeOnlySkip_def Let_def live_claim_def split: option.split)

text \<open>a recorded base-merge-only skip names as its anchor a posted review of the same pull with
  a URL and a diff fingerprint, replaces at most a failed or skipped row, and changes neither the
  anchor of any pull nor any claim.\<close>

theorem base_merge_skip_effect:
  assumes "heads_wf d" "recordBaseMergeOnlySkip r clock d = (SkipRecorded, d')"
  shows "(\<exists>a \<in> set (processed d). pr_key a = (pr_repo r, pr_pull r, the (pr_carried_from_head r)) \<and>
             pr_status a = P_posted \<and> pr_review_url a \<noteq> None \<and> pr_diff_fingerprint a \<noteq> None) \<and>
         map_option pr_status (row_get pr_key (pr_key r) (processed d)) \<in> {None, Some P_failed, Some P_skipped} \<and>
         map_option (\<lambda>p. (pr_status p, pr_error p)) (row_get pr_key (pr_key r) (processed d')) =
             Some (P_skipped, Some BASE_MERGE_ONLY) \<and>
         getBaseMergeOnlyAnchor repo pull d' = getBaseMergeOnlyAnchor repo pull d \<and> claims d' = claims d"
proof -
  have rec: "fst (recordBaseMergeOnlySkip r clock d) = SkipRecorded" using assms(2) by simp
  obtain a where a: "\<And>p. getProcessedReview (pr_repo r) (pr_pull r) (pr_head r) d = Some p \<Longrightarrow> retryable_for_skip p"
    "getBaseMergeOnlyAnchor (pr_repo r) (pr_pull r) d = Some a" "pr_carried_from_head r = Some (pr_head a)"
    "d' = d\<lparr>processed := row_upsert pr_key (\<lambda>_ new. new) (skip_row r clock) (processed d)\<rparr>"
    using skip_recordedD[OF rec] assms(2) by (metis snd_conv)
  obtain ar where ar: "ar \<in> set (processed d)" "a = mapProcessedReviewRow ar" "pr_repo ar = pr_repo r"
    "pr_pull ar = pr_pull r" "pr_status ar = P_posted" "pr_review_url ar \<noteq> None" "pr_diff_fingerprint ar \<noteq> None"
    by (rule anchor_props[OF a(2)])
  have prev: "pr_status p = P_failed \<or> pr_status p = P_skipped"
    if "row_get pr_key (pr_key r) (processed d) = Some p" for p
    using retryable_not_posted[OF a(1)] that by (auto simp: getProcessedReview_def pr_key_def)
  have posted: "filter (\<lambda>r. pr_status r = P_posted) (processed d') = filter (\<lambda>r. pr_status r = P_posted) (processed d)"
    using prev assms(1) by (force simp: a(4) heads_wf_def intro!: posted_rows_upsert)
  show ?thesis
  proof (intro conjI)
    show "\<exists>a \<in> set (processed d). pr_key a = (pr_repo r, pr_pull r, the (pr_carried_from_head r)) \<and>
             pr_status a = P_posted \<and> pr_review_url a \<noteq> None \<and> pr_diff_fingerprint a \<noteq> None"
      by (rule bexI[OF _ ar(1)]) (use a(3) ar in \<open>simp add: pr_key_def\<close>)
    show "map_option pr_status (row_get pr_key (pr_key r) (processed d)) \<in> {None, Some P_failed, Some P_skipped}"
      using prev by (cases "row_get pr_key (pr_key r) (processed d)") auto
    show "map_option (\<lambda>p. (pr_status p, pr_error p)) (row_get pr_key (pr_key r) (processed d')) =
             Some (P_skipped, Some BASE_MERGE_ONLY)"
      by (simp add: a(4) row_get_upsert split: option.split)
    show "getBaseMergeOnlyAnchor repo pull d' = getBaseMergeOnlyAnchor repo pull d"
      by (rule anchor_cong[OF posted])
    show "claims d' = claims d" using claims_skip[of r clock d] assms(2) by simp
  qed
qed

section \<open>Dry runs\<close>

text \<open>a dry run is recorded exactly when no unexpired claim of the head exists and the head is
  unprocessed or its row is one a dry run may replace; it writes the dry-run row, otherwise the
  processed row is unchanged, and a posted or failed row is never replaced.\<close>

theorem tryRecordDryRun_iff:
  "let k = (di_repo i, di_pull i, di_head i); res = tryRecordDryRun i now d;
       old = row_get pr_key k (processed d); new = row_get pr_key k (processed (snd res))
   in (fst res \<longleftrightarrow> \<not> live_claim k now d \<and> (case old of None \<Rightarrow> True | Some p \<Rightarrow> dry_run_may_replace i p)) \<and>
      new = (if fst res then Some (dry_run_row i now) else old) \<and>
      \<not> (fst res \<and> map_option pr_status old \<in> {Some P_posted, Some P_failed})"
proof -
  have [simp]: "pr_key (dry_run_row i now) = (di_repo i, di_pull i, di_head i)"
    by (simp add: pr_key_def dry_run_row_def)
  let ?k = "(di_repo i, di_pull i, di_head i)"
  have s: "row_get hc_key ?k (sweep_claims ?k now (claims d)) = None \<longleftrightarrow> \<not> live_claim ?k now d"
    by (simp add: sweep_claims_get live_claim_def)
  have "\<not> dry_run_may_replace i p" if "pr_status p = P_posted \<or> pr_status p = P_failed" for p
    using that by (auto simp: dry_run_may_replace_def isRetryableApprovedDryRunPrePostFailure_def
        isActivationBaselineProcessedReview_def)
  then show ?thesis
    by (cases "row_get pr_key ?k (processed d)")
      (auto simp: tryRecordDryRun_def Let_def s row_get_replace simp del: not_None_eq)
qed

section \<open>Public commands\<close>

lemma invocation_key: "pi_key (invocation_of i) = ((ii_repo i, ii_pull i, ii_head i), ii_author i, ii_action i)"
  by (simp add: pi_key_def invocation_of_def)

definition run_invocations :: "invocation_input list \<Rightarrow> db \<Rightarrow> db" where
  "run_invocations is d = fold (\<lambda>i. snd \<circ> tryRecordPublicCommandInvocation i) is d"

definition invoked_since :: "invocation_input \<Rightarrow> int \<Rightarrow> db \<Rightarrow> bool" where
  "invoked_since i t d \<longleftrightarrow> (\<exists>r \<in> set (invocations d). pi_key r = pi_key (invocation_of i) \<and> t \<le> pi_invoked_at r)"

lemma invoked_since_step:
  "invoked_since i t d \<Longrightarrow> t \<le> ii_now j \<Longrightarrow>
   invoked_since i t (snd (tryRecordPublicCommandInvocation j d))"
  by (auto simp: invoked_since_def tryRecordPublicCommandInvocation_def row_replace_def invocation_of_def)

lemma invoked_since_run:
  "invoked_since i t d \<Longrightarrow> list_all (\<lambda>j. t \<le> ii_now j) is \<Longrightarrow> invoked_since i t (run_invocations is d)"
  by (induction "is" arbitrary: d) (auto simp: run_invocations_def invoked_since_step)

text \<open>after an accepted public command, a second one of the same author and action on the same
  head is refused within the cooldown (up to the second that the comparison rounds away), whatever
  commands are recorded in between at later times.\<close>

theorem public_command_rate_limited:
  assumes "tryRecordPublicCommandInvocation i d = (Inr True, d')"
    and "list_all (\<lambda>j. ii_now i \<le> ii_now j) is"
    and "pi_key (invocation_of j) = pi_key (invocation_of i)"
    and "ii_now j - ii_cooldown_ms j + 1000 \<le> ii_now i" "1 \<le> ii_cooldown_ms j"
  shows "tryRecordPublicCommandInvocation j (run_invocations is d') = (Inr False, run_invocations is d')"
proof -
  have "invoked_since i (ii_now i) d'"
    using assms(1) by (auto simp: tryRecordPublicCommandInvocation_def invoked_since_def row_replace_def
        invocation_of_def split: if_splits)
  then have "invoked_since i (ii_now i) (run_invocations is d')"
    using assms(2) by (rule invoked_since_run)
  then obtain r where r: "r \<in> set (invocations (run_invocations is d'))"
    "pi_key r = pi_key (invocation_of j)" "ii_now i \<le> pi_invoked_at r"
    using assms(3) by (auto simp: invoked_since_def)
  moreover have "sql_datetime (ii_now j - ii_cooldown_ms j) < sql_datetime (pi_invoked_at r)"
    using r(3) assms(4) by (intro sql_datetime_strict) simp
  ultimately show ?thesis using assms(5) by (auto simp: tryRecordPublicCommandInvocation_def)
qed

theorem public_command_allowed_again:
  assumes "1 \<le> ii_cooldown_ms i"
    and "\<And>r. row_get pi_key (pi_key (invocation_of i)) (invocations d) = Some r \<Longrightarrow>
               pi_invoked_at r + ii_cooldown_ms i \<le> ii_now i"
    and "unique_rows pi_key (invocations d)"
  shows "fst (tryRecordPublicCommandInvocation i d) = Inr True"
proof -
  have "\<not> sql_datetime (ii_now i - ii_cooldown_ms i) < sql_datetime (pi_invoked_at r)"
    if "r \<in> set (invocations d)" "pi_key r = pi_key (invocation_of i)" for r
    using assms(2)[of r] unique_rows_get[OF assms(3) that(1)] that(2)
      sql_datetime_mono[of "pi_invoked_at r" "ii_now i - ii_cooldown_ms i"] by simp
  with assms(1) show ?thesis by (auto simp: tryRecordPublicCommandInvocation_def)
qed

section \<open>Well-formedness\<close>

lemma unique_rows_append: "unique_rows key (xs @ [x]) \<longleftrightarrow> unique_rows key xs \<and> row_get key (key x) xs = None"
  by (auto simp: unique_rows_def row_get_None_iff)

lemma heads_wf_claim:
  assumes "heads_wf d"
  shows "heads_wf (snd (tryClaimReviewHeadWithOutcome i uuid clock d))"
proof -
  have sw: "unique_rows hc_key (sweep_claims k now (claims d))" for k now
    using assms by (simp add: heads_wf_def sweep_claims_def unique_rows_delete)
  have "pr_key (consumed_row clock p) = pr_key p" for p by (simp add: consumed_row_def pr_key_def)
  note upd = unique_rows_update[of pr_key, OF this]
  have "hc_key (claim_row i uuid) = ci_key i" by (simp add: claim_row_def hc_key_def ci_key_def)
  then show ?thesis
    using assms sw
    by (cases rule: claim_cases[of i uuid clock d])
      (auto simp: claim_blocked_active claim_blocked_processed claim_free after_acquire_def heads_wf_def
        unique_rows_append sweep_claims_get live_claim_def upd)
qed

lemma heads_wf_record: "heads_wf d \<Longrightarrow> heads_wf (recordProcessed r clock d)"
  by (auto simp: heads_wf_def recordProcessed_def intro!: unique_rows_upsert merge_processed_key)

lemma heads_wf_skip:
  assumes "heads_wf d"
  shows "heads_wf (snd (recordBaseMergeOnlySkip r clock d))"
proof (cases "fst (recordBaseMergeOnlySkip r clock d) = SkipRecorded")
  case True
  then show ?thesis
    by (rule skip_recordedD) (use assms in \<open>auto simp: heads_wf_def intro!: unique_rows_upsert\<close>)
next
  case False
  then have "snd (recordBaseMergeOnlySkip r clock d) = d"
    by (auto simp: recordBaseMergeOnlySkip_def Let_def split: option.splits if_splits)
  with assms show ?thesis by simp
qed

lemma heads_wf_dry_run: "heads_wf d \<Longrightarrow> heads_wf (snd (tryRecordDryRun i now d))"
  by (auto simp: heads_wf_def tryRecordDryRun_def Let_def sweep_claims_def intro!: unique_rows_replace)

lemma heads_wf_op: "heads_wf d \<Longrightarrow> heads_wf (apply_head_op op d)"
proof (cases op)
  case (HClaim i u clock)
  then show "heads_wf d \<Longrightarrow> ?thesis" by (simp add: heads_wf_claim)
next
  case (HRecord r clock)
  then show "heads_wf d \<Longrightarrow> ?thesis" by (simp add: heads_wf_record)
next
  case (HSkip r clock)
  then show "heads_wf d \<Longrightarrow> ?thesis" by (simp add: heads_wf_skip)
next
  case (HDryRun i now)
  then show "heads_wf d \<Longrightarrow> ?thesis" by (simp add: heads_wf_dry_run)
qed (auto simp: heads_wf_def releaseReviewHeadClaim_def clearAuthorGateSkip_def Let_def)

section \<open>Examples\<close>

definition ex_sha256 :: string where
  "ex_sha256 = replicate 64 (CHR ''a'')"

definition ex_record :: processed_review_record where
  "ex_record = \<lparr>pr_repo = ''o/r'', pr_pull = 7, pr_head = ''h1'', pr_status = P_dry_run,
     pr_config_revision = Some ex_sha256, pr_base_ref = Some ''main'', pr_base_sha = None,
     pr_diff_fingerprint = Some ''f'', pr_carried_from_head = None, pr_event = Some EV_COMMENT,
     pr_review_url = None, pr_error = None\<rparr>"

definition ex_db :: db where
  "ex_db = recordProcessed ex_record 1000 empty_db"

definition ex_claim :: claim_input where
  "ex_claim = \<lparr>ci_repo = ''o/r'', ci_pull = 7, ci_head = ''h1'', ci_ttl_ms = 60000, ci_now = 2000,
     ci_owner_pid = 42, ci_allow_supersession = True, ci_required_status = Some P_dry_run,
     ci_required_revision = Some ex_sha256, ci_required_error = None, ci_consume = True\<rparr>"

definition ex_dry_run :: dry_run_input where
  "ex_dry_run = \<lparr>di_repo = ''o/r'', di_pull = 7, di_head = ''h1'', di_config_revision = None,
     di_event = None, di_allow_baseline_supersession = False, di_allow_base_merge_supersession = False\<rparr>"

definition ex_ops :: "head_op list" where
  "ex_ops = [HClaim (ex_claim\<lparr>ci_now := 3000\<rparr>) ''c2'' 0, HRelease ''c2'', HDryRun ex_dry_run 4000,
     HRecord (ex_record\<lparr>pr_head := ''h2''\<rparr>) 4500, HSkip (ex_record\<lparr>pr_carried_from_head := Some ''h2''\<rparr>) 4600]"

definition ex_claimed :: db where
  "ex_claimed = snd (tryClaimReviewHeadWithOutcome ex_claim ''c1'' 0 ex_db)"

lemma ex_db_wf: "heads_wf ex_db"
  by code_simp

lemma ex_claim_acquired:
  "tryClaimReviewHeadWithOutcome ex_claim ''c1'' 0 ex_db = (Inr (Acquired (acquired_of ex_claim ''c1'')), ex_claimed)"
  by code_simp

theorem claim_acquired_iff_witness:
  "claim_input_error ex_claim = None \<and> \<not> live_claim (ci_key ex_claim) (ci_now ex_claim) ex_db \<and>
   map_option hc_expires_at (row_get hc_key (ci_key ex_claim) (claims ex_claimed)) = Some (ci_now ex_claim + ci_ttl_ms ex_claim)"
  using claim_acquired_iff[OF ex_db_wf ex_claim_acquired] by simp

theorem claim_excludes_others_witness:
  "head_request_refused (RqClaim (ex_claim\<lparr>ci_now := 5000\<rparr>) ''c3'' 0) (fold apply_head_op ex_ops ex_claimed) \<and>
   head_request_refused (RqDryRun ex_dry_run 5000) (fold apply_head_op ex_ops ex_claimed)"
  by (rule conjI; rule claim_excludes_others[OF ex_claim_acquired]; code_simp)

theorem approval_single_use_witness:
  "fst (tryClaimReviewHeadWithOutcome (ex_claim\<lparr>ci_now := 5000000\<rparr>) ''c3'' 0
        (releaseReviewHeadClaim ''c1'' ex_claimed)) \<noteq> Inr (Acquired (acquired_of ex_claim ''c3''))"
  by (rule approval_single_use[OF ex_db_wf ex_claim_acquired, THEN conjunct2, THEN conjunct2]) code_simp+

theorem recordProcessed_frame_witness:
  "row_get pr_key (''o/r'', 7, ''h1'') (processed (recordProcessed (ex_record\<lparr>pr_head := ''h2''\<rparr>) 0 ex_db)) =
   row_get pr_key (''o/r'', 7, ''h1'') (processed ex_db)"
  by (rule recordProcessed_frame[THEN conjunct1]) code_simp

definition ex_posted :: db where
  "ex_posted = recordProcessed (ex_record\<lparr>pr_status := P_posted, pr_review_url := Some ''u''\<rparr>) 1000 empty_db"

definition ex_skip :: processed_review_record where
  "ex_skip = ex_record\<lparr>pr_head := ''h2'', pr_carried_from_head := Some ''h1''\<rparr>"

theorem base_merge_skip_effect_witness:
  "getBaseMergeOnlyAnchor ''o/r'' 7 (snd (recordBaseMergeOnlySkip ex_skip 2000 ex_posted)) =
   getBaseMergeOnlyAnchor ''o/r'' 7 ex_posted"
proof -
  have "heads_wf ex_posted" by code_simp
  moreover have "recordBaseMergeOnlySkip ex_skip 2000 ex_posted =
      (SkipRecorded, snd (recordBaseMergeOnlySkip ex_skip 2000 ex_posted))"
    by code_simp
  ultimately show ?thesis
    using base_merge_skip_effect by blast
qed

definition ex_invocation :: invocation_input where
  "ex_invocation = \<lparr>ii_repo = ''o/r'', ii_pull = 7, ii_head = ''h1'', ii_author = ''a'', ii_action = ''review'',
     ii_cooldown_ms = 60000, ii_now = 10000\<rparr>"

theorem public_command_rate_limited_witness:
  "fst (tryRecordPublicCommandInvocation (ex_invocation\<lparr>ii_now := 69000\<rparr>)
     (run_invocations [ex_invocation\<lparr>ii_author := ''b'', ii_now := 20000\<rparr>]
        (snd (tryRecordPublicCommandInvocation ex_invocation empty_db)))) = Inr False"
proof -
  have "tryRecordPublicCommandInvocation ex_invocation empty_db =
     (Inr True, snd (tryRecordPublicCommandInvocation ex_invocation empty_db))"
    by code_simp
  from public_command_rate_limited[OF this, of "[ex_invocation\<lparr>ii_author := ''b'', ii_now := 20000\<rparr>]"
      "ex_invocation\<lparr>ii_now := 69000\<rparr>"]
  show ?thesis
    by (simp add: ex_invocation_def invocation_of_def pi_key_def)
qed

theorem public_command_allowed_again_witness:
  "fst (tryRecordPublicCommandInvocation (ex_invocation\<lparr>ii_now := 70000\<rparr>)
     (snd (tryRecordPublicCommandInvocation ex_invocation empty_db))) = Inr True"
  by (rule public_command_allowed_again)
    (auto simp: ex_invocation_def invocation_of_def pi_key_def tryRecordPublicCommandInvocation_def
      empty_db_def row_replace_def row_delete_def row_get_Cons unique_rows_def split: if_splits)

end
