(* ===== verification/RunLeases.thy ===== *)
theory RunLeases
  imports StoreModel
begin

text \<open>
  The capacity leases of \<open>src/src/state.ts\<close>: the review run leases with the worktree cleanup guard
  that must not overlap them, and the leases of the issue-enrichment runs. The answer of the
  operating system about a pid is the \<open>alive\<close> of the host at the moment of the call.
\<close>

section \<open>Review run leases\<close>

record run_lease =
  lease_id :: string
  lease_expires_at :: int
  lease_owner_pid :: int

definition lease_input_error :: "int \<Rightarrow> int \<Rightarrow> int \<Rightarrow> store_error option" where
  "lease_input_error maxActiveRuns leaseTtlMs ownerPid =
     (if maxActiveRuns < 1 then Some (BadLimit ''maxActiveRuns'')
      else if leaseTtlMs < 1 then Some (BadLimit ''leaseTtlMs'')
      else if ownerPid < 1 then Some (BadLimit ''ownerPid'') else None)"

definition owner_alive :: "host \<Rightarrow> lease_row \<Rightarrow> bool" where
  "owner_alive h r \<longleftrightarrow> (case rl_owner_pid r of None \<Rightarrow> False | Some p \<Rightarrow> alive h p)"

definition pruneInactiveReviewRunLeases :: "host \<Rightarrow> db \<Rightarrow> db" where
  "pruneInactiveReviewRunLeases h d =
     d\<lparr>run_leases := row_delete (\<lambda>r. \<not> owner_alive h r) (run_leases d)\<rparr>"

definition pruneInactiveWorktreeCleanupGuard :: "host \<Rightarrow> int \<Rightarrow> db \<Rightarrow> db" where
  "pruneInactiveWorktreeCleanupGuard h now d =
     (case cleanup_guard d of None \<Rightarrow> d
      | Some g \<Rightarrow> if cg_expires_at g \<le> now \<or> \<not> alive h (cg_owner_pid g)
                  then d\<lparr>cleanup_guard := None\<rparr> else d)"

definition new_lease_row :: "string \<Rightarrow> int \<Rightarrow> int \<Rightarrow> int \<Rightarrow> lease_row" where
  "new_lease_row uuid now ttl pid =
     \<lparr>rl_lease_id = uuid, rl_started_at = now, rl_expires_at = now + ttl, rl_owner_pid = Some pid\<rparr>"

definition run_lease_body :: "host \<Rightarrow> int \<Rightarrow> int \<Rightarrow> int \<Rightarrow> int \<Rightarrow> string \<Rightarrow> db \<Rightarrow> run_lease option outcome" where
  "run_lease_body h maxActiveRuns leaseTtlMs now ownerPid uuid d =
     (let d1 = d\<lparr>run_leases := row_delete (\<lambda>r. rl_expires_at r \<le> now) (run_leases d)\<rparr>;
          d2 = pruneInactiveWorktreeCleanupGuard h now (pruneInactiveReviewRunLeases h d1)
      in if cleanup_guard d2 \<noteq> None then (Inr None, d2)
         else if maxActiveRuns \<le> int (length (run_leases d2)) then (Inr None, d2)
         else if row_get rl_lease_id uuid (run_leases d2) \<noteq> None then (Inl UniqueViolation, d2)
         else (Inr (Some \<lparr>lease_id = uuid, lease_expires_at = now + leaseTtlMs, lease_owner_pid = ownerPid\<rparr>),
               d2\<lparr>run_leases := run_leases d2 @ [new_lease_row uuid now leaseTtlMs ownerPid]\<rparr>))"

definition tryAcquireReviewRunLease ::
  "host \<Rightarrow> int \<Rightarrow> int \<Rightarrow> int \<Rightarrow> int \<Rightarrow> string \<Rightarrow> db \<Rightarrow> run_lease option outcome" where
  "tryAcquireReviewRunLease h maxActiveRuns leaseTtlMs now ownerPid uuid d =
     (case lease_input_error maxActiveRuns leaseTtlMs ownerPid of Some e \<Rightarrow> (Inl e, d)
      | None \<Rightarrow> transaction (run_lease_body h maxActiveRuns leaseTtlMs now ownerPid uuid) d)"

definition releaseReviewRunLease :: "string \<Rightarrow> db \<Rightarrow> db" where
  "releaseReviewRunLease lid d = d\<lparr>run_leases := row_delete (\<lambda>r. rl_lease_id r = lid) (run_leases d)\<rparr>"

definition hasActiveReviewRunLease :: "host \<Rightarrow> db \<Rightarrow> bool" where
  "hasActiveReviewRunLease h d \<longleftrightarrow> list_ex (owner_alive h) (run_leases d)"

section \<open>The idle guard of the worktree cleanup\<close>

definition WORKTREE_CLEANUP_GUARD_TTL_MS :: int where
  "WORKTREE_CLEANUP_GUARD_TTL_MS = 60000"

text \<open>The first transaction of \<open>runWithExclusiveReviewIdleGuard\<close>: true when the guard is taken.\<close>

definition enterIdleGuard :: "host \<Rightarrow> int \<Rightarrow> int \<Rightarrow> db \<Rightarrow> bool \<times> db" where
  "enterIdleGuard h ownerPid now d =
     (let d1 = pruneInactiveWorktreeCleanupGuard h now d
      in if cleanup_guard d1 \<noteq> None \<or> hasActiveReviewRunLease h d1 then (False, d1)
         else (True, d1\<lparr>cleanup_guard := Some \<lparr>cg_owner_pid = ownerPid,
                 cg_expires_at = now + WORKTREE_CLEANUP_GUARD_TTL_MS\<rparr>\<rparr>))"

text \<open>Its \<open>finally\<close>.\<close>

definition leaveIdleGuard :: "int \<Rightarrow> db \<Rightarrow> db" where
  "leaveIdleGuard ownerPid d = (case cleanup_guard d of None \<Rightarrow> d
     | Some g \<Rightarrow> if cg_owner_pid g = ownerPid then d\<lparr>cleanup_guard := None\<rparr> else d)"

text \<open>
  The whole call: \<open>operation\<close> is the caller's code, with its exceptions as \<open>Inl\<close> and whatever other
  processes do to the store while it runs.
\<close>

definition runWithExclusiveReviewIdleGuard ::
  "host \<Rightarrow> int \<Rightarrow> int \<Rightarrow> (db \<Rightarrow> ('e + 'a) \<times> db) \<Rightarrow> db \<Rightarrow> ('e + 'a option) \<times> db" where
  "runWithExclusiveReviewIdleGuard h ownerPid now operation d =
     (case enterIdleGuard h ownerPid now d of
        (False, d1) \<Rightarrow> (Inr None, d1)
      | (True, d1) \<Rightarrow> (case operation d1 of
            (Inl e, d2) \<Rightarrow> (Inl e, leaveIdleGuard ownerPid d2)
          | (Inr v, d2) \<Rightarrow> (Inr (Some v), leaveIdleGuard ownerPid d2)))"

section \<open>Issue enrichment leases\<close>

definition enrichment_lease_body :: "int \<Rightarrow> int \<Rightarrow> int \<Rightarrow> int \<Rightarrow> string \<Rightarrow> db \<Rightarrow> run_lease option outcome" where
  "enrichment_lease_body maxActiveRuns leaseTtlMs now ownerPid uuid d =
     (let d1 = d\<lparr>enrichment_leases := row_delete (\<lambda>r. rl_expires_at r \<le> now) (enrichment_leases d)\<rparr>
      in if maxActiveRuns \<le> int (length (enrichment_leases d1)) then (Inr None, d1)
         else if row_get rl_lease_id uuid (enrichment_leases d1) \<noteq> None then (Inl UniqueViolation, d1)
         else (Inr (Some \<lparr>lease_id = uuid, lease_expires_at = now + leaseTtlMs, lease_owner_pid = ownerPid\<rparr>),
               d1\<lparr>enrichment_leases := enrichment_leases d1 @ [new_lease_row uuid now leaseTtlMs ownerPid]\<rparr>))"

definition tryAcquireIssueEnrichmentRunLease ::
  "int \<Rightarrow> int \<Rightarrow> int \<Rightarrow> int \<Rightarrow> string \<Rightarrow> db \<Rightarrow> run_lease option outcome" where
  "tryAcquireIssueEnrichmentRunLease maxActiveRuns leaseTtlMs now ownerPid uuid d =
     (case lease_input_error maxActiveRuns leaseTtlMs ownerPid of Some e \<Rightarrow> (Inl e, d)
      | None \<Rightarrow> transaction (enrichment_lease_body maxActiveRuns leaseTtlMs now ownerPid uuid) d)"

definition releaseIssueEnrichmentRunLease :: "string \<Rightarrow> db \<Rightarrow> db" where
  "releaseIssueEnrichmentRunLease lid d =
     d\<lparr>enrichment_leases := row_delete (\<lambda>r. rl_lease_id r = lid) (enrichment_leases d)\<rparr>"

record enrichment_clear_candidate =
  ec_lease_id :: string
  ec_expires_at :: int
  ec_owner_pid :: "int option"
  ec_expired :: bool

record enrichment_clear_result =
  er_checked_at :: int
  er_expired_only :: bool
  er_dry_run :: bool
  er_matched :: int
  er_expired_matched :: int
  er_active_matched :: int
  er_deleted :: int
  er_leases :: "enrichment_clear_candidate list"

definition clearIssueEnrichmentRunLeases ::
  "int \<Rightarrow> bool \<Rightarrow> bool \<Rightarrow> db \<Rightarrow> enrichment_clear_result \<times> db" where
  "clearIssueEnrichmentRunLeases now expiredOnly dryRun d =
     (let chosen = (\<lambda>r. expiredOnly \<longrightarrow> rl_expires_at r \<le> now);
          rows = js_sort (\<lambda>a b. rl_expires_at a - rl_expires_at b) (filter chosen (enrichment_leases d));
          leases = map (\<lambda>r. \<lparr>ec_lease_id = rl_lease_id r, ec_expires_at = rl_expires_at r,
                     ec_owner_pid = rl_owner_pid r, ec_expired = (rl_expires_at r \<le> now)\<rparr>) rows;
          matched = int (length leases); expiredMatched = int (length (filter ec_expired leases))
      in (\<lparr>er_checked_at = now, er_expired_only = expiredOnly, er_dry_run = dryRun,
           er_matched = matched, er_expired_matched = expiredMatched,
           er_active_matched = matched - expiredMatched,
           er_deleted = (if dryRun then 0 else int (row_count chosen (enrichment_leases d))),
           er_leases = leases\<rparr>,
          if dryRun then d else d\<lparr>enrichment_leases := row_delete chosen (enrichment_leases d)\<rparr>))"

section \<open>The contract of a lease pool\<close>

record lease_request =
  rq_host :: host
  rq_max :: int
  rq_ttl :: int
  rq_now :: int
  rq_pid :: int
  rq_uuid :: string

definition request_error :: "lease_request \<Rightarrow> store_error option" where
  "request_error q = lease_input_error (rq_max q) (rq_ttl q) (rq_pid q)"

definition granted_lease :: "lease_request \<Rightarrow> run_lease" where
  "granted_lease q =
     \<lparr>lease_id = rq_uuid q, lease_expires_at = rq_now q + rq_ttl q, lease_owner_pid = rq_pid q\<rparr>"

definition granted_row :: "lease_request \<Rightarrow> lease_row" where
  "granted_row q = new_lease_row (rq_uuid q) (rq_now q) (rq_ttl q) (rq_pid q)"

definition acquire_run :: "lease_request \<Rightarrow> db \<Rightarrow> run_lease option outcome" where
  "acquire_run q = tryAcquireReviewRunLease (rq_host q) (rq_max q) (rq_ttl q) (rq_now q) (rq_pid q) (rq_uuid q)"

definition acquire_enrichment :: "lease_request \<Rightarrow> db \<Rightarrow> run_lease option outcome" where
  "acquire_enrichment q = tryAcquireIssueEnrichmentRunLease (rq_max q) (rq_ttl q) (rq_now q) (rq_pid q) (rq_uuid q)"

text \<open>The rows that survive the sweep at the start of an acquire.\<close>

definition kept_run :: "lease_request \<Rightarrow> db \<Rightarrow> lease_row list" where
  "kept_run q d = filter (\<lambda>r. rq_now q < rl_expires_at r \<and> owner_alive (rq_host q) r) (run_leases d)"

definition kept_enrichment :: "lease_request \<Rightarrow> db \<Rightarrow> lease_row list" where
  "kept_enrichment q d = filter (\<lambda>r. rq_now q < rl_expires_at r) (enrichment_leases d)"

definition guard_stale :: "host \<Rightarrow> int \<Rightarrow> guard_row \<Rightarrow> bool" where
  "guard_stale h now g \<longleftrightarrow> cg_expires_at g \<le> now \<or> \<not> alive h (cg_owner_pid g)"

definition guard_in_force :: "host \<Rightarrow> int \<Rightarrow> db \<Rightarrow> bool" where
  "guard_in_force h now d \<longleftrightarrow> (case cleanup_guard d of None \<Rightarrow> False | Some g \<Rightarrow> \<not> guard_stale h now g)"

definition ready_run :: "lease_request \<Rightarrow> db \<Rightarrow> bool" where
  "ready_run q d \<longleftrightarrow> request_error q = None \<and> \<not> guard_in_force (rq_host q) (rq_now q) d
     \<and> row_get rl_lease_id (rq_uuid q) (kept_run q d) = None"

definition ready_enrichment :: "lease_request \<Rightarrow> db \<Rightarrow> bool" where
  "ready_enrichment q d \<longleftrightarrow> request_error q = None
     \<and> row_get rl_lease_id (rq_uuid q) (kept_enrichment q d) = None"

datatype pool_op = PAcquire lease_request | PRelease string

fun pool_step ::
  "(lease_request \<Rightarrow> db \<Rightarrow> run_lease option outcome) \<Rightarrow> (string \<Rightarrow> db \<Rightarrow> db) \<Rightarrow> pool_op \<Rightarrow> db \<Rightarrow> db" where
  "pool_step acquire release (PAcquire q) d = snd (acquire q d)"
| "pool_step acquire release (PRelease i) d = release i d"

text \<open>The largest number of active runs any acquire of a sequence allows is at most \<open>n\<close>.\<close>

fun within_cap :: "int \<Rightarrow> pool_op \<Rightarrow> bool" where
  "within_cap n (PAcquire q) \<longleftrightarrow> rq_max q \<le> n"
| "within_cap n (PRelease i) \<longleftrightarrow> True"

locale lease_pool =
  fixes leases :: "db \<Rightarrow> lease_row list"
    and acquire :: "lease_request \<Rightarrow> db \<Rightarrow> run_lease option outcome"
    and release :: "string \<Rightarrow> db \<Rightarrow> db"
    and kept :: "lease_request \<Rightarrow> db \<Rightarrow> lease_row list"
    and ready :: "lease_request \<Rightarrow> db \<Rightarrow> bool"
  assumes acquire_free: "ready q d \<Longrightarrow> int (length (kept q d)) < rq_max q \<Longrightarrow>
      fst (acquire q d) = Inr (Some (granted_lease q)) \<and>
      leases (snd (acquire q d)) = kept q d @ [granted_row q]"
    and acquire_full: "ready q d \<Longrightarrow> rq_max q \<le> int (length (kept q d)) \<Longrightarrow>
      fst (acquire q d) = Inr None \<and> leases (snd (acquire q d)) = kept q d"
    and acquire_closed: "\<not> ready q d \<Longrightarrow>
      fst (acquire q d) \<noteq> Inr (Some l) \<and> leases (snd (acquire q d)) \<in> {leases d, kept q d}"
    and kept_subset: "set (kept q d) \<subseteq> set (leases d)"
    and kept_length: "length (kept q d) \<le> length (leases d)"
    and release_length: "length (leases (release i d)) \<le> length (leases d)"
begin

lemma granted_iff: "fst (acquire q d) = Inr (Some l) \<longleftrightarrow>
    ready q d \<and> int (length (kept q d)) < rq_max q \<and> l = granted_lease q"
  using acquire_free[of q d] acquire_full[of q d] acquire_closed[of q d l]
  by (cases "ready q d"; cases "int (length (kept q d)) < rq_max q") auto

lemma granted_within: "fst (acquire q d) = Inr (Some l) \<Longrightarrow>
    int (length (leases (snd (acquire q d)))) \<le> rq_max q \<and> granted_row q \<in> set (leases (snd (acquire q d)))"
  using acquire_free[of q d] by (auto simp: granted_iff)

lemma pool_step_bound:
  assumes "int (length (leases d)) \<le> n" "within_cap n op"
  shows "int (length (leases (pool_step acquire release op d))) \<le> n"
proof (cases op)
  case (PAcquire q)
  have k: "int (length (kept q d)) \<le> n" using kept_length[of q d] assms(1) by simp
  show ?thesis
  proof (cases "ready q d")
    case True
    then show ?thesis
      using acquire_free[of q d] acquire_full[of q d] k assms(2) PAcquire
      by (cases "int (length (kept q d)) < rq_max q") auto
  next
    case False
    then show ?thesis using acquire_closed[OF False, where l = undefined] k assms(1) PAcquire by auto
  qed
next
  case (PRelease i)
  then show ?thesis using release_length[of i d] assms(1) by simp
qed

lemma pool_bound:
  "int (length (leases d)) \<le> n \<Longrightarrow>
   list_all (within_cap n) ops \<Longrightarrow>
   int (length (leases (fold (pool_step acquire release) ops d))) \<le> n"
  by (induction ops arbitrary: d) (auto intro: pool_step_bound)

end

lemma prune_guard_cases:
  "cleanup_guard (pruneInactiveWorktreeCleanupGuard h now d) =
     (if guard_in_force h now d then cleanup_guard d else None)"
  "run_leases (pruneInactiveWorktreeCleanupGuard h now d) = run_leases d"
  by (auto simp: pruneInactiveWorktreeCleanupGuard_def guard_in_force_def guard_stale_def
      split: option.split)

lemma guard_in_force_cong [simp]:
  "guard_in_force h now (run_leases_update f d) = guard_in_force h now d"
  by (simp add: guard_in_force_def)

lemma guard_in_force_Some: "guard_in_force h now d \<Longrightarrow> \<exists>g. cleanup_guard d = Some g"
  by (auto simp: guard_in_force_def split: option.splits)

lemma kept_run_sweep:
  "row_delete (\<lambda>r. \<not> owner_alive (rq_host q) r) (row_delete (\<lambda>r. rl_expires_at r \<le> rq_now q) (run_leases d)) = kept_run q d"
  by (auto simp: row_delete_def kept_run_def intro!: filter_cong)

lemma acquire_run_eval:
  assumes "request_error q = None"
  shows "fst (acquire_run q d) =
      (if guard_in_force (rq_host q) (rq_now q) d \<or> rq_max q \<le> int (length (kept_run q d)) then Inr None
       else if row_get rl_lease_id (rq_uuid q) (kept_run q d) \<noteq> None then Inl UniqueViolation
       else Inr (Some (granted_lease q)))"
    "run_leases (snd (acquire_run q d)) =
      (if guard_in_force (rq_host q) (rq_now q) d \<or> rq_max q \<le> int (length (kept_run q d)) then kept_run q d
       else if row_get rl_lease_id (rq_uuid q) (kept_run q d) \<noteq> None then run_leases d
       else kept_run q d @ [granted_row q])"
    "cleanup_guard (snd (acquire_run q d)) \<in>
      {cleanup_guard d, if guard_in_force (rq_host q) (rq_now q) d then cleanup_guard d else None}"
proof -
  let ?d2 = "pruneInactiveWorktreeCleanupGuard (rq_host q) (rq_now q) (pruneInactiveReviewRunLeases (rq_host q)
      (d\<lparr>run_leases := row_delete (\<lambda>r. rl_expires_at r \<le> rq_now q) (run_leases d)\<rparr>))"
  have d2: "run_leases ?d2 = kept_run q d"
    "cleanup_guard ?d2 = (if guard_in_force (rq_host q) (rq_now q) d then cleanup_guard d else None)"
    by (simp_all add: prune_guard_cases pruneInactiveReviewRunLeases_def kept_run_sweep)
  have g: "cleanup_guard ?d2 \<noteq> None \<longleftrightarrow> guard_in_force (rq_host q) (rq_now q) d"
    using guard_in_force_Some[of "rq_host q" "rq_now q" d] d2(2) by auto
  note g = g[unfolded d2(2)]
  note defs = acquire_run_def tryAcquireReviewRunLease_def assms[unfolded request_error_def]
    run_lease_body_def Let_def snd_transaction granted_lease_def granted_row_def
  show "fst (acquire_run q d) =
      (if guard_in_force (rq_host q) (rq_now q) d \<or> rq_max q \<le> int (length (kept_run q d)) then Inr None
       else if row_get rl_lease_id (rq_uuid q) (kept_run q d) \<noteq> None then Inl UniqueViolation
       else Inr (Some (granted_lease q)))"
    using g by (cases "guard_in_force (rq_host q) (rq_now q) d") (auto simp: defs d2 simp del: not_None_eq)
  show "run_leases (snd (acquire_run q d)) =
      (if guard_in_force (rq_host q) (rq_now q) d \<or> rq_max q \<le> int (length (kept_run q d)) then kept_run q d
       else if row_get rl_lease_id (rq_uuid q) (kept_run q d) \<noteq> None then run_leases d
       else kept_run q d @ [granted_row q])"
    using g by (cases "guard_in_force (rq_host q) (rq_now q) d") (auto simp: defs d2 simp del: not_None_eq)
  show "cleanup_guard (snd (acquire_run q d)) \<in>
      {cleanup_guard d, if guard_in_force (rq_host q) (rq_now q) d then cleanup_guard d else None}"
    using g by (cases "guard_in_force (rq_host q) (rq_now q) d") (auto simp: defs d2 simp del: not_None_eq)
qed

lemma acquire_run_invalid: "request_error q = Some e \<Longrightarrow> acquire_run q d = (Inl e, d)"
  by (simp add: acquire_run_def tryAcquireReviewRunLease_def request_error_def)

interpretation run_pool: lease_pool run_leases acquire_run releaseReviewRunLease kept_run ready_run
proof unfold_locales
  fix q d l
  show "ready_run q d \<Longrightarrow> int (length (kept_run q d)) < rq_max q \<Longrightarrow>
      fst (acquire_run q d) = Inr (Some (granted_lease q)) \<and>
      run_leases (snd (acquire_run q d)) = kept_run q d @ [granted_row q]"
    by (simp add: ready_run_def acquire_run_eval)
  show "ready_run q d \<Longrightarrow> rq_max q \<le> int (length (kept_run q d)) \<Longrightarrow>
      fst (acquire_run q d) = Inr None \<and> run_leases (snd (acquire_run q d)) = kept_run q d"
    by (simp add: ready_run_def acquire_run_eval)
  show "\<not> ready_run q d \<Longrightarrow> fst (acquire_run q d) \<noteq> Inr (Some l) \<and>
      run_leases (snd (acquire_run q d)) \<in> {run_leases d, kept_run q d}"
    by (cases "request_error q") (auto simp: ready_run_def acquire_run_eval acquire_run_invalid)
  show "set (kept_run q d) \<subseteq> set (run_leases d)" by (auto simp: kept_run_def)
  show "length (kept_run q d) \<le> length (run_leases d)" by (simp add: kept_run_def)
  show "length (run_leases (releaseReviewRunLease i d)) \<le> length (run_leases d)" for i
    by (simp add: releaseReviewRunLease_def row_delete_def)
qed

lemma kept_enrichment_sweep: "row_delete (\<lambda>r. rl_expires_at r \<le> rq_now q) (enrichment_leases d) = kept_enrichment q d"
  by (auto simp: row_delete_def kept_enrichment_def intro!: filter_cong)

interpretation enrichment_pool: lease_pool enrichment_leases acquire_enrichment
  releaseIssueEnrichmentRunLease kept_enrichment ready_enrichment
proof unfold_locales
  fix q d l
  note defs = acquire_enrichment_def tryAcquireIssueEnrichmentRunLease_def request_error_def
    enrichment_lease_body_def Let_def snd_transaction granted_lease_def granted_row_def kept_enrichment_sweep
  show "ready_enrichment q d \<Longrightarrow> int (length (kept_enrichment q d)) < rq_max q \<Longrightarrow>
      fst (acquire_enrichment q d) = Inr (Some (granted_lease q)) \<and>
      enrichment_leases (snd (acquire_enrichment q d)) = kept_enrichment q d @ [granted_row q]"
    by (simp add: ready_enrichment_def defs)
  show "ready_enrichment q d \<Longrightarrow> rq_max q \<le> int (length (kept_enrichment q d)) \<Longrightarrow>
      fst (acquire_enrichment q d) = Inr None \<and>
      enrichment_leases (snd (acquire_enrichment q d)) = kept_enrichment q d"
    by (simp add: ready_enrichment_def defs)
  show "\<not> ready_enrichment q d \<Longrightarrow> fst (acquire_enrichment q d) \<noteq> Inr (Some l) \<and>
      enrichment_leases (snd (acquire_enrichment q d)) \<in> {enrichment_leases d, kept_enrichment q d}"
    by (cases "lease_input_error (rq_max q) (rq_ttl q) (rq_pid q)")
      (auto simp: ready_enrichment_def defs)
  show "set (kept_enrichment q d) \<subseteq> set (enrichment_leases d)" by (auto simp: kept_enrichment_def)
  show "length (kept_enrichment q d) \<le> length (enrichment_leases d)" by (simp add: kept_enrichment_def)
  show "length (enrichment_leases (releaseIssueEnrichmentRunLease i d)) \<le> length (enrichment_leases d)" for i
    by (simp add: releaseIssueEnrichmentRunLease_def row_delete_def)
qed

section \<open>Capacity\<close>

text \<open>a review run lease is granted exactly when the request is valid, no cleanup guard is in
  force, fewer than the allowed number of leases are unexpired with a running owner, and the lease
  id is new; the new lease carries the owner and the expiry of the request.\<close>

theorem review_lease_granted_iff:
  "fst (tryAcquireReviewRunLease h cap ttl now pid uuid d) = Inr (Some l) \<longleftrightarrow>
     1 \<le> cap \<and> 1 \<le> ttl \<and> 1 \<le> pid \<and> \<not> guard_in_force h now d \<and>
     (let live = filter (\<lambda>r. now < rl_expires_at r \<and> owner_alive h r) (run_leases d)
      in int (length live) < cap \<and> uuid \<notin> rl_lease_id ` set live) \<and>
     l = \<lparr>lease_id = uuid, lease_expires_at = now + ttl, lease_owner_pid = pid\<rparr>"
  using run_pool.granted_iff[of "\<lparr>rq_host = h, rq_max = cap, rq_ttl = ttl, rq_now = now, rq_pid = pid, rq_uuid = uuid\<rparr>" d l]
  by (auto simp: acquire_run_def ready_run_def request_error_def lease_input_error_def kept_run_def
      granted_lease_def row_get_None_iff Let_def)

text \<open>C22: whatever sequence of acquires and releases runs, with every acquire allowing at most \<open>n\<close>
  runs, the review run leases never exceed \<open>n\<close>.\<close>

theorem review_lease_capacity:
  assumes "int (length (run_leases d)) \<le> n"
    and "list_all (within_cap n) ops"
  shows "int (length (run_leases (fold (pool_step acquire_run releaseReviewRunLease) ops d))) \<le> n"
  by (rule run_pool.pool_bound[OF assms])

text \<open>the leases of the issue-enrichment runs obey the same bound.\<close>

theorem enrichment_lease_capacity:
  assumes "int (length (enrichment_leases d)) \<le> n"
    and "list_all (within_cap n) ops"
  shows "int (length (enrichment_leases (fold (pool_step acquire_enrichment releaseIssueEnrichmentRunLease) ops d))) \<le> n"
  by (rule enrichment_pool.pool_bound[OF assms])

section \<open>The cleanup guard and the leases exclude each other\<close>

datatype lease_op =
    LAcquire lease_request
  | LRelease string
  | LEnter host int int
  | LLeave int

fun lease_step :: "lease_op \<Rightarrow> db \<Rightarrow> db" where
  "lease_step (LAcquire q) d = snd (acquire_run q d)"
| "lease_step (LRelease i) d = releaseReviewRunLease i d"
| "lease_step (LEnter h pid now) d = snd (enterIdleGuard h pid now d)"
| "lease_step (LLeave pid) d = leaveIdleGuard pid d"

fun lease_op_refused :: "lease_op \<Rightarrow> db \<Rightarrow> bool" where
  "lease_op_refused (LAcquire q) d \<longleftrightarrow> (case fst (acquire_run q d) of Inr (Some l) \<Rightarrow> False | _ \<Rightarrow> True)"
| "lease_op_refused (LEnter h pid now) d \<longleftrightarrow> \<not> fst (enterIdleGuard h pid now d)"
| "lease_op_refused _ d \<longleftrightarrow> False"

text \<open>What ends a guard: its owner leaves, its TTL runs out, or its owner is found dead.\<close>

fun ends_guard :: "guard_row \<Rightarrow> lease_op \<Rightarrow> bool" where
  "ends_guard g (LAcquire q) \<longleftrightarrow> guard_stale (rq_host q) (rq_now q) g"
| "ends_guard g (LRelease i) \<longleftrightarrow> False"
| "ends_guard g (LEnter h pid now) \<longleftrightarrow> guard_stale h now g"
| "ends_guard g (LLeave pid) \<longleftrightarrow> pid = cg_owner_pid g"

fun guard_covers :: "guard_row \<Rightarrow> lease_op \<Rightarrow> bool" where
  "guard_covers g (LAcquire q) \<longleftrightarrow> \<not> guard_stale (rq_host q) (rq_now q) g"
| "guard_covers g (LEnter h pid now) \<longleftrightarrow> \<not> guard_stale h now g"
| "guard_covers g _ \<longleftrightarrow> False"

definition guard_held :: "guard_row \<Rightarrow> db \<Rightarrow> bool" where
  "guard_held g d \<longleftrightarrow> cleanup_guard d = Some g"

lemma guard_held_in_force: "guard_held g d \<Longrightarrow> guard_in_force h now d \<longleftrightarrow> \<not> guard_stale h now g"
  by (simp add: guard_held_def guard_in_force_def)

lemma guard_after_acquire:
  "cleanup_guard (snd (acquire_run q d)) = cleanup_guard d \<or>
   (\<not> guard_in_force (rq_host q) (rq_now q) d \<and> cleanup_guard (snd (acquire_run q d)) = None)"
  using acquire_run_eval(3)[of q d] by (cases "request_error q") (auto simp: acquire_run_invalid split: if_splits)

lemma guard_after_enter:
  "guard_in_force h now d \<Longrightarrow> \<not> fst (enterIdleGuard h pid now d) \<and>
     cleanup_guard (snd (enterIdleGuard h pid now d)) = cleanup_guard d"
  using guard_in_force_Some[of h now d] by (auto simp: enterIdleGuard_def Let_def prune_guard_cases)

lemma run_leases_enter [simp]: "run_leases (snd (enterIdleGuard h pid now d)) = run_leases d"
  by (simp add: enterIdleGuard_def Let_def prune_guard_cases)

lemma run_leases_leave [simp]: "run_leases (leaveIdleGuard pid d) = run_leases d"
  by (simp add: leaveIdleGuard_def split: option.split)

interpretation guard_hold: exclusive_hold guard_held lease_step ends_guard guard_covers lease_op_refused
proof unfold_locales
  fix g d op
  assume "guard_held g d" "\<not> ends_guard g op"
  then show "guard_held g (lease_step op d)"
    using guard_held_in_force[of g d] guard_after_acquire[of _ d] guard_after_enter[of _ _ d]
    by (cases op) (auto simp: guard_held_def releaseReviewRunLease_def leaveIdleGuard_def)
next
  fix g d op
  assume g: "guard_held g d" "guard_covers g op"
  then show "lease_op_refused op d"
  proof (cases op)
    case (LAcquire q)
    with g show ?thesis
      by (cases "request_error q")
        (auto simp: guard_held_in_force acquire_run_eval acquire_run_invalid)
  next
    case (LEnter h pid now)
    with g show ?thesis by (simp add: guard_held_in_force guard_after_enter)
  qed simp_all
qed

fun ends_lease :: "lease_row \<Rightarrow> lease_op \<Rightarrow> bool" where
  "ends_lease r (LAcquire q) \<longleftrightarrow> rl_expires_at r \<le> rq_now q \<or> \<not> owner_alive (rq_host q) r"
| "ends_lease r (LRelease i) \<longleftrightarrow> i = rl_lease_id r"
| "ends_lease r _ \<longleftrightarrow> False"

fun lease_covers :: "lease_row \<Rightarrow> lease_op \<Rightarrow> bool" where
  "lease_covers r (LEnter h pid now) \<longleftrightarrow> owner_alive h r"
| "lease_covers r _ \<longleftrightarrow> False"

definition lease_held :: "lease_row \<Rightarrow> db \<Rightarrow> bool" where
  "lease_held r d \<longleftrightarrow> r \<in> set (run_leases d)"

lemma lease_survives_acquire:
  assumes "lease_held r d" "rq_now q < rl_expires_at r" "owner_alive (rq_host q) r"
  shows "lease_held r (snd (acquire_run q d))"
  using assms by (cases "request_error q") (auto simp: lease_held_def acquire_run_eval(2) acquire_run_invalid kept_run_def)

interpretation lease_hold: exclusive_hold lease_held lease_step ends_lease lease_covers lease_op_refused
proof unfold_locales
  fix r d op
  assume h: "lease_held r d" "\<not> ends_lease r op"
  show "lease_held r (lease_step op d)"
  proof (cases op)
    case (LAcquire q)
    with h show ?thesis by (simp add: lease_survives_acquire)
  qed (use h in \<open>auto simp: lease_held_def releaseReviewRunLease_def\<close>)
next
  fix r d op
  assume "lease_held r d" "lease_covers r op"
  then show "lease_op_refused op d"
    by (cases op) (auto simp: lease_held_def enterIdleGuard_def Let_def hasActiveReviewRunLease_def
        prune_guard_cases list_ex_iff)
qed

text \<open>once the idle guard of the worktree cleanup is taken, and until its owner leaves, its TTL
  runs out or its owner dies, no review run lease is granted and no second guard is taken, whatever
  lease operations run in between.\<close>

theorem idle_guard_blocks_leases:
  assumes "fst (enterIdleGuard h pid now d)"
    and "list_all (\<lambda>op. \<not> ends_guard \<lparr>cg_owner_pid = pid, cg_expires_at = now + 60000\<rparr> op) ops"
    and "guard_covers \<lparr>cg_owner_pid = pid, cg_expires_at = now + 60000\<rparr> request"
  shows "lease_op_refused request (fold lease_step ops (snd (enterIdleGuard h pid now d)))"
proof (rule guard_hold.run_refuses[OF _ assms(2,3)])
  show "guard_held \<lparr>cg_owner_pid = pid, cg_expires_at = now + 60000\<rparr> (snd (enterIdleGuard h pid now d))"
    using assms(1) by (auto simp: guard_held_def enterIdleGuard_def Let_def WORKTREE_CLEANUP_GUARD_TTL_MS_def
        split: if_splits)
qed

text \<open>from the moment a review run lease is granted, until it is released, expires at a later
  acquire or its owner dies, the worktree cleanup does not take its idle guard while the owner runs.\<close>

theorem live_lease_blocks_idle_guard:
  assumes "fst (acquire_run q d) = Inr (Some l)"
    and "list_all (\<lambda>op. \<not> ends_lease (granted_row q) op) ops"
    and "alive h (rq_pid q)"
  shows "\<not> fst (enterIdleGuard h pid now (fold lease_step ops (snd (acquire_run q d))))"
proof -
  have "lease_held (granted_row q) (snd (acquire_run q d))"
    using run_pool.granted_within[OF assms(1)] by (simp add: lease_held_def)
  from lease_hold.run_refuses[OF this assms(2), of "LEnter h pid now"] show ?thesis
    using assms(3) by (simp add: granted_row_def new_lease_row_def owner_alive_def)
qed

section \<open>Clearing enrichment leases\<close>

text \<open>clearing enrichment leases in a dry run changes nothing; otherwise it deletes exactly the
  leases it reports, and with the expired-only filter every unexpired lease stays.\<close>

theorem clear_enrichment_leases_effect:
  "let (res, d') = clearIssueEnrichmentRunLeases now expiredOnly dryRun d
   in d' = (if dryRun then d else d\<lparr>enrichment_leases := (if expiredOnly
              then filter (\<lambda>r. now < rl_expires_at r) (enrichment_leases d) else [])\<rparr>) \<and>
      er_deleted res = int (length (enrichment_leases d)) - int (length (enrichment_leases d')) \<and>
      er_matched res = er_expired_matched res + er_active_matched res \<and>
      er_active_matched res = int (length (filter (\<lambda>r. \<not> expiredOnly \<and> now < rl_expires_at r) (enrichment_leases d))) \<and>
      (dryRun \<or> er_deleted res = er_matched res)"
proof -
  let ?c = "\<lambda>r. expiredOnly \<longrightarrow> rl_expires_at r \<le> now"
  have parts: "length (filter P xs) + length (filter (\<lambda>x. \<not> P x) xs) = length xs" for P :: "lease_row \<Rightarrow> bool" and xs
    by (induction xs) auto
  have count: "length (filter P (js_sort cmp xs)) = length (filter P xs)" for P :: "lease_row \<Rightarrow> bool" and cmp xs
    by (metis mset_js_sort mset_filter size_mset)
  have act: "length (filter ?c xs) = length (filter (\<lambda>r. rl_expires_at r \<le> now \<and> ?c r) xs) +
      length (filter (\<lambda>r. \<not> expiredOnly \<and> now < rl_expires_at r) xs)" for xs :: "lease_row list"
    by (induction xs) auto
  have none: "row_delete ?c (enrichment_leases d) =
      (if expiredOnly then filter (\<lambda>r. now < rl_expires_at r) (enrichment_leases d) else [])"
    by (auto simp: row_delete_def filter_empty_conv intro!: filter_cong)
  show ?thesis
    using parts[of ?c "enrichment_leases d"] act[of "enrichment_leases d"]
    by (simp add: clearIssueEnrichmentRunLeases_def Let_def row_count_def filter_map comp_def count none[unfolded row_delete_def]
        row_delete_def conj_commute not_le)
qed

section \<open>Examples\<close>

definition ex_host :: host where
  "ex_host = \<lparr>date_parse = (\<lambda>_. None), iso_string = (\<lambda>_. []), redact = (\<lambda>s. s), alive = (\<lambda>p. p < 100)\<rparr>"

definition ex_request :: lease_request where
  "ex_request = \<lparr>rq_host = ex_host, rq_max = 2, rq_ttl = 1000, rq_now = 0, rq_pid = 7, rq_uuid = ''a''\<rparr>"

definition ex_pool_ops :: "pool_op list" where
  "ex_pool_ops = [PAcquire ex_request, PAcquire (ex_request\<lparr>rq_uuid := ''b''\<rparr>),
     PAcquire (ex_request\<lparr>rq_uuid := ''c''\<rparr>), PRelease ''a'', PAcquire (ex_request\<lparr>rq_uuid := ''d'', rq_max := 1\<rparr>)]"

theorem review_lease_capacity_witness:
  "int (length (run_leases (fold (pool_step acquire_run releaseReviewRunLease) ex_pool_ops empty_db))) \<le> 2"
  by (rule review_lease_capacity) code_simp+

theorem enrichment_lease_capacity_witness:
  "int (length (enrichment_leases (fold (pool_step acquire_enrichment releaseIssueEnrichmentRunLease)
     ex_pool_ops empty_db))) \<le> 2"
  by (rule enrichment_lease_capacity) code_simp+

theorem idle_guard_blocks_leases_witness:
  "lease_op_refused (LAcquire (ex_request\<lparr>rq_now := 59000\<rparr>))
     (fold lease_step [LAcquire (ex_request\<lparr>rq_now := 5\<rparr>), LEnter ex_host 8 30000, LLeave 8]
        (snd (enterIdleGuard ex_host 9 0 empty_db)))"
  by (rule idle_guard_blocks_leases) code_simp+

theorem live_lease_blocks_idle_guard_witness:
  "\<not> fst (enterIdleGuard ex_host 9 5000
     (fold lease_step [LAcquire (ex_request\<lparr>rq_now := 500, rq_uuid := ''b''\<rparr>), LRelease ''b'', LLeave 9]
        (snd (acquire_run ex_request empty_db))))"
  by (rule live_lease_blocks_idle_guard[where l = "granted_lease ex_request"]) code_simp+

end
