(* ===== verification/ReviewQueue.thy ===== *)
theory ReviewQueue
  imports ProcessedReviews RunLeases
begin

text \<open>
  The review queue of \<open>src/src/state.ts\<close>: enqueueing one attempt per pull head and base, leasing
  the next jobs under the provider, organisation, repository and global caps, state updates,
  the operator's clearing of leases and the retirement of failed heads.
\<close>

section \<open>Reading the queue\<close>

definition getReviewQueueJob :: "string \<Rightarrow> db \<Rightarrow> queue_job option" where
  "getReviewQueueJob jobId d = map_option mapReviewQueueJobRow (row_get q_job_id jobId (queue d))"

definition getReviewQueueJobByAttemptId :: "string \<Rightarrow> db \<Rightarrow> queue_job option" where
  "getReviewQueueJobByAttemptId attemptId d =
     map_option mapReviewQueueJobRow (row_get q_attempt_id attemptId (queue d))"

definition active_queue_states :: "queue_state list" where
  "active_queue_states = [Q_queued, Q_leased, Q_running, Q_provider_deferred, Q_blocked_on_proof]"

definition getActiveReviewQueueRetryJobByAttemptId :: "string \<Rightarrow> db \<Rightarrow> queue_job option" where
  "getActiveReviewQueueRetryJobByAttemptId attemptId d =
     (case js_sort (\<lambda>a b. sql_datetime (q_created_at b) - sql_datetime (q_created_at a))
             (filter (\<lambda>r. starts_with (attemptId @ '':after-terminal:'') (q_attempt_id r)
                        \<and> q_state r \<in> set active_queue_states) (queue d)) of
        [] \<Rightarrow> None | r # _ \<Rightarrow> Some (mapReviewQueueJobRow r))"

text \<open>\<open>order by priority asc, datetime(created_at) asc\<close>\<close>

definition queue_order :: "queue_job \<Rightarrow> queue_job \<Rightarrow> int" where
  "queue_order a b = (if q_priority a \<noteq> q_priority b then q_priority a - q_priority b
     else sql_datetime (q_created_at a) - sql_datetime (q_created_at b))"

definition listReviewQueueJobs ::
  "string option \<Rightarrow> queue_state list option \<Rightarrow> int option \<Rightarrow> db \<Rightarrow> store_error + queue_job list" where
  "listReviewQueueJobs repo states limit d =
     (if (case limit of None \<Rightarrow> False | Some n \<Rightarrow> n < 1) then Inl (BadLimit ''limit'')
      else (let rows = js_sort queue_order
                  (case truthy repo of None \<Rightarrow> queue d | Some r \<Rightarrow> filter (\<lambda>j. q_repo j = r) (queue d));
                jobs = filter (\<lambda>j. case states of None \<Rightarrow> True | Some ss \<Rightarrow> q_state j \<in> set ss)
                         (map mapReviewQueueJobRow rows)
            in Inr (case limit of None \<Rightarrow> jobs | Some n \<Rightarrow> take (nat n) jobs)))"

definition all_queue_jobs :: "db \<Rightarrow> queue_job list" where
  "all_queue_jobs d = map mapReviewQueueJobRow (js_sort queue_order (queue d))"

definition listReviewQueueJobsForPull ::
  "string \<Rightarrow> int \<Rightarrow> queue_state list option \<Rightarrow> int option \<Rightarrow> db \<Rightarrow> store_error + queue_job list" where
  "listReviewQueueJobsForPull repo pull states limit d =
     (if (case limit of None \<Rightarrow> False | Some n \<Rightarrow> n < 1) then Inl (BadLimit ''limit'')
      else (let inStates = (\<lambda>j. case states of None \<Rightarrow> True | Some ss \<Rightarrow> ss = [] \<or> q_state j \<in> set ss);
                rows = js_sort queue_order
                  (filter (\<lambda>j. q_repo j = repo \<and> q_pull j = pull \<and> inStates j) (queue d))
            in Inr (map mapReviewQueueJobRow (case limit of None \<Rightarrow> rows | Some n \<Rightarrow> take (nat n) rows))))"

section \<open>Enqueueing\<close>

record enqueue_input =
  en_repo :: string
  en_pull :: int
  en_head :: string
  en_base_sha :: "string option"
  en_source :: "queue_source option"
  en_lane :: "queue_lane option"
  en_provider_id :: "string option"
  en_priority :: "int option"
  en_attempt_id :: "string option"
  en_comment_id :: "int option"
  en_session_id :: "string option"
  en_now :: int

text \<open>The three random ids an enqueue may draw.\<close>

record enqueue_ids =
  id_attempt :: string
  id_retry :: string
  id_job :: string

datatype enqueue_result = Enqueued queue_job | AlreadyQueued queue_job

definition buildReviewQueueAttemptId ::
  "queue_source \<Rightarrow> string \<Rightarrow> int \<Rightarrow> string \<Rightarrow> string option \<Rightarrow> int option \<Rightarrow> string \<Rightarrow> string" where
  "buildReviewQueueAttemptId source repo pull head baseSha commentId uuid =
     (if source = QS_manual_command
      then ''manual:'' @ repo @ ''#'' @ string_of_int pull @ ''@'' @ head @ '':'' @
             (case commentId of Some c \<Rightarrow> string_of_int c | None \<Rightarrow> uuid)
      else ''automatic:'' @ repo @ ''#'' @ string_of_int pull @ ''@'' @ head @ '':base='' @
             or_default baseSha ''unknown'')"

definition en_source_of :: "enqueue_input \<Rightarrow> queue_source" where
  "en_source_of i = or_default (en_source i) QS_automatic"

definition en_lane_of :: "enqueue_input \<Rightarrow> queue_lane" where
  "en_lane_of i = or_default (en_lane i) (if en_source_of i = QS_manual_command then QL_manual else QL_background)"

definition en_priority_of :: "enqueue_input \<Rightarrow> int" where
  "en_priority_of i = or_default (en_priority i) (if en_lane_of i = QL_manual then 10 else 50)"

definition en_attempt_of :: "enqueue_input \<Rightarrow> enqueue_ids \<Rightarrow> string" where
  "en_attempt_of i ids = or_default (en_attempt_id i)
     (buildReviewQueueAttemptId (en_source_of i) (en_repo i) (en_pull i) (en_head i) (en_base_sha i)
        (en_comment_id i) (id_attempt ids))"

definition enqueue_row :: "enqueue_input \<Rightarrow> string \<Rightarrow> string \<Rightarrow> queue_job" where
  "enqueue_row i jobId attemptId =
     (let shadow = canonicalReviewQueueIdentity (en_repo i) (en_head i)
      in \<lparr>q_job_id = jobId, q_attempt_id = attemptId, q_source = en_source_of i, q_lane = en_lane_of i,
          q_repo = en_repo i, q_repo_key = map_option fst shadow, q_org = repoOrg (en_repo i),
          q_pull = en_pull i, q_head = en_head i, q_head_key = map_option snd shadow,
          q_base_sha = en_base_sha i, q_provider_id = en_provider_id i, q_priority = en_priority_of i,
          q_state = Q_queued, q_next_eligible_at = None, q_lease_id = None, q_lease_expires_at = None,
          q_session_id = en_session_id i, q_comment_id = en_comment_id i, q_review_url = None,
          q_last_error = None, q_created_at = en_now i, q_updated_at = en_now i, q_started_at = None,
          q_finished_at = None\<rparr>)"

definition enqueueReviewQueueJob ::
  "enqueue_input \<Rightarrow> enqueue_ids \<Rightarrow> db \<Rightarrow> enqueue_result outcome" where
  "enqueueReviewQueueJob i ids d =
     (case validateReviewQueueInput (en_repo i) (en_pull i) (en_head i) (en_priority i) (en_comment_id i) of
        Some e \<Rightarrow> (Inl e, d)
      | None \<Rightarrow>
        (let attemptId = en_attempt_of i ids;
             existing = getReviewQueueJobByAttemptId attemptId d;
             insert_as = (\<lambda>aid.
               let row = enqueue_row i (id_job ids) aid
               in if row_get q_job_id (id_job ids) (queue d) \<noteq> None \<or> row_get q_attempt_id aid (queue d) \<noteq> None
                  then (Inl UniqueViolation, d)
                  else (Inr (Enqueued (mapReviewQueueJobRow row)), d\<lparr>queue := queue d @ [row]\<rparr>))
         in case existing of
              None \<Rightarrow> insert_as attemptId
            | Some job \<Rightarrow>
                if \<not> isTerminalQueueState (q_state job) then (Inr (AlreadyQueued job), d)
                else (case getActiveReviewQueueRetryJobByAttemptId attemptId d of
                    Some retry \<Rightarrow> (Inr (AlreadyQueued retry), d)
                  | None \<Rightarrow> insert_as (attemptId @ '':after-terminal:'' @ id_retry ids))))"

section \<open>Leasing\<close>

record reserved_job =
  rj_job_id :: string
  rj_provider_id :: "string option"
  rj_org :: string
  rj_repo :: string
  rj_pull :: int
  rj_head :: string

record lease_aging =
  ag_enabled :: bool
  ag_max_wait_minutes :: int

record lease_next_input =
  ln_max_global :: "int option"
  ln_max_provider :: int
  ln_max_org :: int
  ln_max_repo :: int
  ln_max_repo_by_repo :: "(string \<times> int) list"
  ln_manual_reserve :: "int option"
  ln_exclude_job_ids :: "string list"
  ln_reserved :: "reserved_job list"
  ln_limit :: "int option"
  ln_lease_ttl_ms :: "int option"
  ln_aging :: "lease_aging option"
  ln_now :: int

definition DEFAULT_QUEUE_LEASE_TTL_MS :: int where
  "DEFAULT_QUEUE_LEASE_TTL_MS = 15 * 60000"

text \<open>The per-repository overrides; a later entry replaces an earlier one of the same name.\<close>

fun normalizeRepoActiveLimitOverrides ::
  "(string \<times> int) list \<Rightarrow> (string \<rightharpoonup> int) \<Rightarrow> store_error + (string \<rightharpoonup> int)" where
  "normalizeRepoActiveLimitOverrides [] m = Inr m"
| "normalizeRepoActiveLimitOverrides ((repo, limit) # es) m =
     (case first_error [validateRepoName repo, validatePositiveQueueLimit limit (''maxRepoActiveByRepo.'' @ repo)] of
        Some e \<Rightarrow> Inl e
      | None \<Rightarrow> normalizeRepoActiveLimitOverrides es (m(to_lower repo \<mapsto> limit)))"

definition ln_global :: "lease_next_input \<Rightarrow> int" where
  "ln_global i = or_default (ln_max_global i) (ln_max_provider i)"

definition ln_limit_of :: "lease_next_input \<Rightarrow> int" where
  "ln_limit_of i = or_default (ln_limit i) (ln_max_provider i)"

definition ln_reserve :: "lease_next_input \<Rightarrow> int" where
  "ln_reserve i = or_default (ln_manual_reserve i) 0"

definition ln_ttl :: "lease_next_input \<Rightarrow> int" where
  "ln_ttl i = or_default (ln_lease_ttl_ms i) DEFAULT_QUEUE_LEASE_TTL_MS"

definition lease_next_check :: "lease_next_input \<Rightarrow> store_error + (string \<rightharpoonup> int)" where
  "lease_next_check i =
     (case first_error [validatePositiveQueueLimit (ln_max_provider i) ''maxProviderActive'',
          validatePositiveQueueLimit (ln_global i) ''maxGlobalActive'',
          validatePositiveQueueLimit (ln_max_org i) ''maxOrgActive'',
          validatePositiveQueueLimit (ln_max_repo i) ''maxRepoActive''] of
        Some e \<Rightarrow> Inl e
      | None \<Rightarrow> (case normalizeRepoActiveLimitOverrides (ln_max_repo_by_repo i) Map.empty of
          Inl e \<Rightarrow> Inl e
        | Inr overrides \<Rightarrow>
            (case first_error [if ln_reserve i < 0 then Some (BadLimit ''manualCommandReserve'') else None,
                if ln_max_provider i < ln_reserve i then Some ReserveAboveLimit else None,
                if ln_global i < ln_reserve i then Some ReserveAboveLimit else None,
                validatePositiveQueueLimit (ln_limit_of i) ''limit'',
                validatePositiveQueueLimit (ln_ttl i) ''leaseTtlMs''] of
               Some e \<Rightarrow> Inl e | None \<Rightarrow> Inr overrides)))"

definition is_active_state :: "queue_state \<Rightarrow> bool" where
  "is_active_state s \<longleftrightarrow> s = Q_leased \<or> s = Q_running"

definition queue_lease_lapsed :: "int \<Rightarrow> int \<Rightarrow> queue_job \<Rightarrow> bool" where
  "queue_lease_lapsed now ttl r \<longleftrightarrow> is_active_state (q_state r) \<and>
     (case q_lease_expires_at r of
        Some e \<Rightarrow> sql_datetime e \<le> sql_datetime now
      | None \<Rightarrow> sql_datetime (q_updated_at r) \<le> sql_datetime (now - ttl))"

definition requeue_lapsed :: "int \<Rightarrow> int \<Rightarrow> queue_job list \<Rightarrow> queue_job list" where
  "requeue_lapsed now ttl rows = row_update (queue_lease_lapsed now ttl)
     (\<lambda>r. r\<lparr>q_state := Q_queued, q_lease_id := None, q_lease_expires_at := None,
            q_last_error := Some ''queue_lease_expired_requeued'', q_updated_at := now\<rparr>) rows"

definition isQueueJobEligible :: "host \<Rightarrow> int \<Rightarrow> queue_job \<Rightarrow> bool" where
  "isQueueJobEligible h now job \<longleftrightarrow> q_state job = Q_queued \<or>
     ((q_state job = Q_provider_deferred \<or> q_state job = Q_blocked_on_proof) \<and>
      (case truthy (q_next_eligible_at job) of None \<Rightarrow> True
       | Some s \<Rightarrow> (case date_parse h s of None \<Rightarrow> True | Some t \<Rightarrow> t \<le> now)))"

definition compareQueueJobsForLease :: "queue_job \<Rightarrow> queue_job \<Rightarrow> int" where
  "compareQueueJobsForLease left right =
     (if q_priority left \<noteq> q_priority right then q_priority left - q_priority right
      else q_created_at left - q_created_at right)"

definition isRescued :: "int \<Rightarrow> int \<Rightarrow> queue_job \<Rightarrow> bool" where
  "isRescued maxWaitMinutes now job \<longleftrightarrow> maxWaitMinutes * 60000 < now - q_created_at job"

definition buildLeaseComparator :: "lease_aging option \<Rightarrow> int \<Rightarrow> queue_job \<Rightarrow> queue_job \<Rightarrow> int" where
  "buildLeaseComparator aging now left right =
     (case aging of None \<Rightarrow> compareQueueJobsForLease left right
      | Some a \<Rightarrow>
          if \<not> ag_enabled a then compareQueueJobsForLease left right
          else (let l = isRescued (ag_max_wait_minutes a) now left; r = isRescued (ag_max_wait_minutes a) now right
                in if l \<noteq> r then (if l then - 1 else 1)
                   else if l then q_created_at left - q_created_at right
                   else compareQueueJobsForLease left right))"

definition head_key_of :: "string \<Rightarrow> int \<Rightarrow> string \<Rightarrow> string" where
  "head_key_of repo pull head = to_lower repo @ ''#'' @ string_of_int pull @ ''@'' @ to_lower head"

definition reviewQueueHeadKey :: "queue_job \<Rightarrow> string" where
  "reviewQueueHeadKey j = head_key_of (q_repo j) (q_pull j) (q_head j)"

text \<open>The scan over \<open>eligible\<close>, whose tail \<open>rest\<close> is the list after the current index.\<close>

definition hasUncoveredManualAfter :: "queue_job list \<Rightarrow> string list \<Rightarrow> string \<Rightarrow> bool" where
  "hasUncoveredManualAfter rest activeHeads candidate =
     list_ex (\<lambda>j. q_lane j = QL_manual \<and> reviewQueueHeadKey j \<noteq> candidate
                 \<and> reviewQueueHeadKey j \<notin> set activeHeads) rest"

text \<open>An active job as the counters see it.\<close>

definition reserved_of :: "queue_job \<Rightarrow> reserved_job" where
  "reserved_of j = \<lparr>rj_job_id = q_job_id j, rj_provider_id = q_provider_id j, rj_org = q_org j,
     rj_repo = q_repo j, rj_pull = q_pull j, rj_head = q_head j\<rparr>"

definition rj_provider :: "reserved_job \<Rightarrow> string" where
  "rj_provider j = or_default (rj_provider_id j) ''default''"

definition rj_head_key :: "reserved_job \<Rightarrow> string" where
  "rj_head_key j = head_key_of (rj_repo j) (rj_pull j) (rj_head j)"

definition countBy :: "('a \<Rightarrow> string) \<Rightarrow> 'a list \<Rightarrow> string \<Rightarrow> int" where
  "countBy key items v = int (length (filter (\<lambda>x. key x = v) items))"

record lease_scan =
  ls_rows :: "queue_job list"
  ls_provider :: "string \<Rightarrow> int"
  ls_org :: "string \<Rightarrow> int"
  ls_repo :: "string \<Rightarrow> int"
  ls_heads :: "string list"
  ls_leased :: "queue_job list"

definition q_provider :: "queue_job \<Rightarrow> string" where
  "q_provider j = or_default (q_provider_id j) ''default''"

definition repo_limit :: "lease_next_input \<Rightarrow> (string \<rightharpoonup> int) \<Rightarrow> string \<Rightarrow> int" where
  "repo_limit i overrides repo = or_default (overrides (to_lower repo)) (ln_max_repo i)"

definition lease_skips ::
  "lease_next_input \<Rightarrow> (string \<rightharpoonup> int) \<Rightarrow> queue_job \<Rightarrow> queue_job list \<Rightarrow> lease_scan \<Rightarrow> bool" where
  "lease_skips i overrides job rest st \<longleftrightarrow>
     reviewQueueHeadKey job \<in> set (ls_heads st)
     \<or> ln_max_provider i \<le> ls_provider st (q_provider job)
     \<or> ln_max_org i \<le> ls_org st (q_org job)
     \<or> repo_limit i overrides (q_repo job) \<le> ls_repo st (q_repo job)
     \<or> (q_lane job = QL_background
        \<and> hasUncoveredManualAfter rest (ls_heads st) (reviewQueueHeadKey job)
        \<and> 0 < ln_reserve i
        \<and> min (ln_max_provider i) (ln_global i) - ln_reserve i \<le> ls_provider st (q_provider job))"

definition leased_row :: "string \<Rightarrow> int \<Rightarrow> int \<Rightarrow> queue_job \<Rightarrow> queue_job" where
  "leased_row leaseId expires now r = r\<lparr>q_state := Q_leased, q_lease_id := Some leaseId,
     q_lease_expires_at := Some expires, q_updated_at := now,
     q_last_error := (if q_state r = Q_blocked_on_proof \<and>
          (case q_last_error r of None \<Rightarrow> True | Some e \<Rightarrow> \<not> sql_like ''%blocked_on_proof%'' e)
        then Some (''blocked_on_proof; '' @ or_default (q_last_error r) [])
        else q_last_error r)\<rparr>"

definition is_leasable_state :: "queue_state \<Rightarrow> bool" where
  "is_leasable_state s \<longleftrightarrow> s = Q_queued \<or> s = Q_provider_deferred \<or> s = Q_blocked_on_proof"

definition lease_take ::
  "lease_next_input \<Rightarrow> (nat \<Rightarrow> string) \<Rightarrow> queue_job \<Rightarrow> lease_scan \<Rightarrow> lease_scan" where
  "lease_take i uuid job st =
     (let rows = row_update (\<lambda>r. q_job_id r = q_job_id job \<and> is_leasable_state (q_state r))
            (leased_row (uuid (length (ls_leased st))) (ln_now i + ln_ttl i) (ln_now i)) (ls_rows st);
          read = (case row_get q_job_id (q_job_id job) rows of Some r \<Rightarrow> mapReviewQueueJobRow r | None \<Rightarrow> job)
      in \<lparr>ls_rows = rows,
          ls_provider = (ls_provider st)(q_provider job := ls_provider st (q_provider job) + 1),
          ls_org = (ls_org st)(q_org job := ls_org st (q_org job) + 1),
          ls_repo = (ls_repo st)(q_repo job := ls_repo st (q_repo job) + 1),
          ls_heads = reviewQueueHeadKey job # ls_heads st,
          ls_leased = ls_leased st @ [read]\<rparr>)"

fun lease_loop ::
  "lease_next_input \<Rightarrow> (string \<rightharpoonup> int) \<Rightarrow> (nat \<Rightarrow> string) \<Rightarrow> int \<Rightarrow> queue_job list \<Rightarrow> lease_scan \<Rightarrow> lease_scan" where
  "lease_loop i overrides uuid activeCount [] st = st"
| "lease_loop i overrides uuid activeCount (job # rest) st =
     (if ln_limit_of i \<le> int (length (ls_leased st)) then st
      else if ln_global i \<le> activeCount + int (length (ls_leased st)) then st
      else if lease_skips i overrides job rest st then lease_loop i overrides uuid activeCount rest st
      else lease_loop i overrides uuid activeCount rest (lease_take i uuid job st))"

text \<open>The jobs that count as active: those leased or running in the store, and the reserved ones.\<close>

definition active_jobs :: "lease_next_input \<Rightarrow> queue_job list \<Rightarrow> reserved_job list" where
  "active_jobs i jobs =
     map reserved_of (filter (\<lambda>j. is_active_state (q_state j) \<and> q_job_id j \<notin> rj_job_id ` set (ln_reserved i)) jobs)
     @ ln_reserved i"

definition eligible_jobs :: "host \<Rightarrow> lease_next_input \<Rightarrow> queue_job list \<Rightarrow> queue_job list" where
  "eligible_jobs h i jobs = js_sort (buildLeaseComparator (ln_aging i) (ln_now i))
     (filter (\<lambda>j. q_job_id j \<notin> set (ln_exclude_job_ids i) \<and> isQueueJobEligible h (ln_now i) j) jobs)"

definition lease_start :: "reserved_job list \<Rightarrow> queue_job list \<Rightarrow> lease_scan" where
  "lease_start active rows = \<lparr>ls_rows = rows, ls_provider = countBy rj_provider active,
     ls_org = countBy rj_org active, ls_repo = countBy rj_repo active,
     ls_heads = map rj_head_key active, ls_leased = []\<rparr>"

definition leaseNextReviewQueueJobs ::
  "host \<Rightarrow> lease_next_input \<Rightarrow> (nat \<Rightarrow> string) \<Rightarrow> db \<Rightarrow> queue_job list outcome" where
  "leaseNextReviewQueueJobs h i uuid d =
     (case lease_next_check i of Inl e \<Rightarrow> (Inl e, d)
      | Inr overrides \<Rightarrow>
          (let rows = requeue_lapsed (ln_now i) (ln_ttl i) (queue d);
               jobs = all_queue_jobs (d\<lparr>queue := rows\<rparr>);
               active = active_jobs i jobs;
               st = lease_loop i overrides uuid (int (length active)) (eligible_jobs h i jobs)
                      (lease_start active rows)
           in (Inr (ls_leased st), d\<lparr>queue := ls_rows st\<rparr>)))"

section \<open>State updates\<close>

record queue_update =
  qu_job_id :: string
  qu_state :: queue_state
  qu_next_eligible_at :: "string option"
  qu_lease_id :: "string option"
  qu_lease_expires_at :: "int option"
  qu_clear_lease :: "bool option"
  qu_session_id :: "string option"
  qu_review_url :: "string option"
  qu_last_error :: "string option"
  qu_now :: int

definition qu_clears :: "queue_update \<Rightarrow> bool" where
  "qu_clears u = or_default (qu_clear_lease u)
     (isTerminalQueueState (qu_state u) \<or> qu_state u = Q_queued \<or> qu_state u = Q_provider_deferred
      \<or> qu_state u = Q_blocked_on_proof)"

definition updated_queue_row :: "host \<Rightarrow> queue_update \<Rightarrow> queue_job \<Rightarrow> queue_job" where
  "updated_queue_row h u r = r\<lparr>
     q_state := qu_state u,
     q_next_eligible_at := qu_next_eligible_at u,
     q_lease_id := (if qu_clears u then None else coalesce (qu_lease_id u) (q_lease_id r)),
     q_lease_expires_at := (if qu_clears u then None else coalesce (qu_lease_expires_at u) (q_lease_expires_at r)),
     q_session_id := coalesce (qu_session_id u) (q_session_id r),
     q_review_url := coalesce (qu_review_url u) (q_review_url r),
     q_last_error := coalesce (map_option (redact h) (truthy (qu_last_error u))) (q_last_error r),
     q_updated_at := qu_now u,
     q_started_at := (if qu_state u = Q_running \<and> q_started_at r = None then Some (qu_now u) else q_started_at r),
     q_finished_at := (if isTerminalQueueState (qu_state u) then Some (qu_now u) else q_finished_at r)\<rparr>"

definition updateReviewQueueJobState :: "host \<Rightarrow> queue_update \<Rightarrow> db \<Rightarrow> queue_job outcome" where
  "updateReviewQueueJobState h u d =
     (case getReviewQueueJob (qu_job_id u) d of
        None \<Rightarrow> (Inl (NoQueueJob (qu_job_id u)), d)
      | Some _ \<Rightarrow>
          (let d' = d\<lparr>queue := row_update (\<lambda>r. q_job_id r = qu_job_id u) (updated_queue_row h u) (queue d)\<rparr>
           in (Inr (the (getReviewQueueJob (qu_job_id u) d')), d')))"

definition updateReviewQueueJobPriority :: "string \<Rightarrow> int \<Rightarrow> int \<Rightarrow> db \<Rightarrow> queue_job outcome" where
  "updateReviewQueueJobPriority jobId priority now d =
     (case getReviewQueueJob jobId d of
        None \<Rightarrow> (Inl (NoQueueJob jobId), d)
      | Some existing \<Rightarrow>
          (case validateReviewQueueInput (q_repo existing) (q_pull existing) (q_head existing) (Some priority)
                  (q_comment_id existing) of
             Some e \<Rightarrow> (Inl e, d)
           | None \<Rightarrow>
               (let d' = d\<lparr>queue := row_update (\<lambda>r. q_job_id r = jobId)
                       (\<lambda>r. r\<lparr>q_priority := priority, q_updated_at := now\<rparr>) (queue d)\<rparr>
                in (Inr (the (getReviewQueueJob jobId d')), d'))))"

section \<open>Clearing leases\<close>

datatype run_stale_reason = RS_owner_not_running | RS_expired

record run_clear_candidate =
  rc_lease_id :: string
  rc_expires_at :: int
  rc_owner_pid :: int
  rc_expired :: bool
  rc_owner_alive :: bool
  rc_stale_reason :: "run_stale_reason option"

definition listReviewRunLeaseClearCandidates :: "host \<Rightarrow> int \<Rightarrow> db \<Rightarrow> run_clear_candidate list" where
  "listReviewRunLeaseClearCandidates h checkedAt d =
     map (\<lambda>r. let expired = rl_expires_at r \<le> checkedAt; ownerAlive = owner_alive h r
              in \<lparr>rc_lease_id = rl_lease_id r, rc_expires_at = rl_expires_at r,
                  rc_owner_pid = or_default (rl_owner_pid r) 0, rc_expired = expired, rc_owner_alive = ownerAlive,
                  rc_stale_reason = (if \<not> ownerAlive then Some RS_owner_not_running
                     else if expired then Some RS_expired else None)\<rparr>)
       (js_sort (\<lambda>a b. sql_datetime (rl_expires_at a) - sql_datetime (rl_expires_at b)) (run_leases d))"

datatype queue_stale_reason = QR_missing_lease_expiry | QR_expired | QR_forced_active

fun queue_stale_text :: "queue_stale_reason \<Rightarrow> string" where
  "queue_stale_text QR_missing_lease_expiry = ''missing_lease_expiry''"
| "queue_stale_text QR_expired = ''expired''"
| "queue_stale_text QR_forced_active = ''forced_active''"

record clear_input =
  cl_now :: int
  cl_ttl_ms :: "int option"
  cl_expired_only :: "bool option"
  cl_dry_run :: "bool option"
  cl_repo :: "string option"
  cl_pull :: "int option"
  cl_job_id :: "string option"
  cl_force_active :: "bool option"

record queue_clear_candidate =
  qc_job :: queue_job
  qc_expired :: bool
  qc_stale_reason :: "queue_stale_reason option"

definition queue_clear_candidate_of :: "clear_input \<Rightarrow> string list \<Rightarrow> queue_job \<Rightarrow> queue_clear_candidate" where
  "queue_clear_candidate_of i staleRunLeaseIds job =
     (let ttl = or_default (cl_ttl_ms i) DEFAULT_QUEUE_LEASE_TTL_MS;
          byExpiry = (case q_lease_expires_at job of
             Some e \<Rightarrow> e \<le> cl_now i | None \<Rightarrow> q_updated_at job \<le> cl_now i - ttl);
          byRunLease = (case q_lease_id job of None \<Rightarrow> False | Some l \<Rightarrow> l \<in> set staleRunLeaseIds);
          expired = byExpiry \<or> byRunLease
      in \<lparr>qc_job = job, qc_expired = expired,
          qc_stale_reason = (if q_lease_expires_at job = None \<and> byExpiry then Some QR_missing_lease_expiry
             else if expired then Some QR_expired
             else if or_default (cl_force_active i) False \<and> \<not> or_default (cl_expired_only i) True
               then Some QR_forced_active else None)\<rparr>)"

definition listReviewQueueLeaseClearCandidates ::
  "clear_input \<Rightarrow> string list \<Rightarrow> db \<Rightarrow> queue_clear_candidate list" where
  "listReviewQueueLeaseClearCandidates i staleRunLeaseIds d =
     filter (\<lambda>c. qc_expired c \<or> (\<not> or_default (cl_expired_only i) True \<and> or_default (cl_force_active i) False))
       (map (queue_clear_candidate_of i staleRunLeaseIds)
         (filter (\<lambda>j. is_active_state (q_state j)
              \<and> (case truthy (cl_repo i) of None \<Rightarrow> True | Some r \<Rightarrow> q_repo j = r)
              \<and> (case cl_pull i of None \<Rightarrow> True | Some p \<Rightarrow> q_pull j = p)
              \<and> (case truthy (cl_job_id i) of None \<Rightarrow> True | Some k \<Rightarrow> q_job_id j = k))
            (all_queue_jobs d)))"

record clear_result =
  cr_matched :: int
  cr_expired_matched :: int
  cr_active_matched :: int
  cr_requeued :: int
  cr_deleted_run_leases :: int
  cr_jobs :: "queue_clear_candidate list"
  cr_run_leases :: "run_clear_candidate list"

definition requeued_by_operator :: "int \<Rightarrow> queue_clear_candidate \<Rightarrow> queue_job \<Rightarrow> queue_job" where
  "requeued_by_operator checkedAt c r = r\<lparr>q_state := Q_queued, q_lease_id := None, q_lease_expires_at := None,
     q_last_error := Some (''queue_lease_operator_requeued:'' @
       (case qc_stale_reason c of Some x \<Rightarrow> queue_stale_text x | None \<Rightarrow> ''matched'')),
     q_updated_at := checkedAt\<rparr>"

definition requeue_candidate :: "int \<Rightarrow> queue_clear_candidate \<Rightarrow> int \<times> queue_job list \<Rightarrow> int \<times> queue_job list" where
  "requeue_candidate checkedAt c acc =
     (let P = (\<lambda>r. q_job_id r = q_job_id (qc_job c) \<and> is_active_state (q_state r))
      in (fst acc + int (row_count P (snd acc)),
          row_update P (requeued_by_operator checkedAt c) (snd acc)))"

definition delete_run_lease :: "run_clear_candidate \<Rightarrow> int \<times> lease_row list \<Rightarrow> int \<times> lease_row list" where
  "delete_run_lease l acc =
     (let P = (\<lambda>r. rl_lease_id r = rc_lease_id l)
      in (fst acc + int (row_count P (snd acc)), row_delete P (snd acc)))"

definition clearReviewQueueLeases :: "host \<Rightarrow> clear_input \<Rightarrow> db \<Rightarrow> clear_result outcome" where
  "clearReviewQueueLeases h i d =
     (case validatePositiveQueueLimit (or_default (cl_ttl_ms i) DEFAULT_QUEUE_LEASE_TTL_MS) ''leaseTtlMs'' of
        Some e \<Rightarrow> (Inl e, d)
      | None \<Rightarrow>
        (let staleRun = filter (\<lambda>l. rc_stale_reason l \<noteq> None) (listReviewRunLeaseClearCandidates h (cl_now i) d);
             jobs = listReviewQueueLeaseClearCandidates i (map rc_lease_id staleRun) d;
             hasFilters = (truthy (cl_repo i) \<noteq> None \<or> cl_pull i \<noteq> None \<or> truthy (cl_job_id i) \<noteq> None);
             scoped = List.map_filter (\<lambda>c. q_lease_id (qc_job c)) jobs;
             runLeases = (if hasFilters then filter (\<lambda>l. rc_lease_id l \<in> set scoped) staleRun else staleRun);
             matched = int (length jobs) + int (length runLeases);
             expiredMatched = int (length (filter qc_expired jobs)) + int (length runLeases);
             dryRun = or_default (cl_dry_run i) True;
             q = (if dryRun then (0, queue d) else fold (requeue_candidate (cl_now i)) jobs (0, queue d));
             l = (if dryRun then (0, run_leases d) else fold delete_run_lease runLeases (0, run_leases d))
         in (Inr \<lparr>cr_matched = matched, cr_expired_matched = expiredMatched,
               cr_active_matched = matched - expiredMatched, cr_requeued = fst q,
               cr_deleted_run_leases = fst l, cr_jobs = jobs, cr_run_leases = runLeases\<rparr>,
             d\<lparr>queue := snd q, run_leases := snd l\<rparr>)))"

section \<open>Retiring a failed head\<close>

definition is_reason_char :: "char \<Rightarrow> bool" where
  "is_reason_char c \<longleftrightarrow> is_digit c \<or> (97 \<le> char_code c \<and> char_code c \<le> 122)
     \<or> c = CHR ''.'' \<or> c = CHR ''_'' \<or> c = CHR ''-''"

text \<open>\<open>replaceAll(/[^a-z0-9._-]+/g, "_")\<close>: each maximal run of other characters becomes one \<open>_\<close>.\<close>

fun squash_reason :: "bool \<Rightarrow> string \<Rightarrow> string" where
  "squash_reason inRun [] = []"
| "squash_reason inRun (c # s) =
     (if is_reason_char c then c # squash_reason False s
      else if inRun then squash_reason True s else CHR ''_'' # squash_reason True s)"

definition strip_underscores :: "string \<Rightarrow> string" where
  "strip_underscores s = rev (dropWhile (\<lambda>c. c = CHR ''_'') (rev (dropWhile (\<lambda>c. c = CHR ''_'') s)))"

definition normalizeRetirementReason :: "string \<Rightarrow> string" where
  "normalizeRetirementReason reason =
     (let n = take 80 (strip_underscores (squash_reason False (to_lower (trim reason))))
      in if n = [] then ''operator_acknowledged'' else n)"

definition RETIRED_FAILED_HEAD_PREFIX :: string where
  "RETIRED_FAILED_HEAD_PREFIX = ''retired_failed_head:''"

definition buildRetiredFailedHeadError :: "host \<Rightarrow> string \<Rightarrow> string option \<Rightarrow> string" where
  "buildRetiredFailedHeadError h reason previousError =
     RETIRED_FAILED_HEAD_PREFIX @ normalizeRetirementReason reason @
       (case truthy previousError of None \<Rightarrow> [] | Some e \<Rightarrow> ''; previous_error='' @ redact h e)"

definition retireFailedReviewQueueJobs :: "string \<Rightarrow> int \<Rightarrow> string \<Rightarrow> string \<Rightarrow> int \<Rightarrow> db \<Rightarrow> db" where
  "retireFailedReviewQueueJobs repo pull head retiredError now d =
     d\<lparr>queue := row_update
         (\<lambda>r. q_repo r = repo \<and> q_pull r = pull \<and> q_head r = head \<and> q_state r = Q_failed)
         (\<lambda>r. r\<lparr>q_state := Q_stale_retired, q_lease_id := None, q_lease_expires_at := None,
             q_last_error := Some retiredError, q_updated_at := now,
             q_finished_at := coalesce (q_finished_at r) (Some now)\<rparr>) (queue d)\<rparr>"

text \<open>The clock is read once for the processed row and once for the queue jobs.\<close>

definition retireFailedReview ::
  "host \<Rightarrow> string \<Rightarrow> int \<Rightarrow> string \<Rightarrow> string \<Rightarrow> int \<Rightarrow> int \<Rightarrow> db \<Rightarrow> processed_row outcome" where
  "retireFailedReview h repo pull head reason clock1 clock2 d =
     (case getProcessedReview repo pull head d of
        None \<Rightarrow> (Inl NoSuchReview, d)
      | Some existing \<Rightarrow>
          if pr_status existing \<noteq> P_failed
          then (case pr_error existing of
                  Some e \<Rightarrow>
                    if pr_status existing = P_skipped \<and> starts_with RETIRED_FAILED_HEAD_PREFIX e
                    then (Inr existing, retireFailedReviewQueueJobs repo pull head e clock2 d)
                    else (Inl (NotRetirable (pr_status existing)), d)
                | None \<Rightarrow> (Inl (NotRetirable (pr_status existing)), d))
          else (let retiredError = buildRetiredFailedHeadError h (normalizeRetirementReason reason) (pr_error existing);
                    d1 = recordProcessed \<lparr>pr_repo = repo, pr_pull = pull, pr_head = head,
                           pr_status = P_skipped, pr_config_revision = None, pr_base_ref = None,
                           pr_base_sha = None, pr_diff_fingerprint = None, pr_carried_from_head = None,
                           pr_event = None, pr_review_url = None, pr_error = Some retiredError\<rparr> clock1 d;
                    d2 = retireFailedReviewQueueJobs repo pull head retiredError clock2 d1
                in (Inr (the (getProcessedReview repo pull head d2)), d2)))"

section \<open>Orders\<close>

interpretation lease_order: comparator compareQueueJobsForLease
  by unfold_locales (auto simp: compareQueueJobsForLease_def split: if_splits)

interpretation aged_lease_order: comparator "buildLeaseComparator aging now" for aging now
proof unfold_locales
  show "buildLeaseComparator aging now x y \<le> 0 \<or> buildLeaseComparator aging now y x \<le> 0" for x y
    using lease_order.cmp_total[of x y]
    by (auto simp: buildLeaseComparator_def Let_def split: option.split)
  show "buildLeaseComparator aging now x y \<le> 0 \<Longrightarrow> buildLeaseComparator aging now y z \<le> 0 \<Longrightarrow>
      buildLeaseComparator aging now x z \<le> 0" for x y z
    using lease_order.cmp_trans[of x y z]
    by (auto simp: buildLeaseComparator_def Let_def split: option.splits if_splits)
qed

interpretation queue_list_order: comparator queue_order
  by unfold_locales (auto simp: queue_order_def split: if_splits)

section \<open>The leasing loop\<close>

definition queue_wf :: "db \<Rightarrow> bool" where
  "queue_wf d \<longleftrightarrow> unique_rows q_job_id (queue d) \<and> unique_rows q_attempt_id (queue d)"

text \<open>The call or the host has no room for one more job.\<close>

definition lease_full :: "lease_next_input \<Rightarrow> int \<Rightarrow> queue_job list \<Rightarrow> bool" where
  "lease_full i n leased \<longleftrightarrow> ln_limit_of i \<le> int (length leased) \<or> ln_global i \<le> n + int (length leased)"

text \<open>An invariant of the loop, indexed by the jobs still to scan; the loop ends with none left or with no room.\<close>

lemma lease_loop_rule:
  assumes "P jobs st"
    and "\<And>job rest st. P (job # rest) st \<Longrightarrow> lease_skips i ov job rest st \<Longrightarrow> P rest st"
    and "\<And>job rest st. P (job # rest) st \<Longrightarrow> int (length (ls_leased st)) < ln_limit_of i \<Longrightarrow>
           n + int (length (ls_leased st)) < ln_global i \<Longrightarrow> \<not> lease_skips i ov job rest st \<Longrightarrow>
           P rest (lease_take i uuid job st)"
  shows "\<exists>rest. P rest (lease_loop i ov uuid n jobs st) \<and>
    (rest = [] \<or> lease_full i n (ls_leased (lease_loop i ov uuid n jobs st)))"
  using assms(1)
proof (induction jobs arbitrary: st)
  case Nil
  then show ?case by auto
next
  case (Cons job rest)
  show ?case
  proof (cases "lease_full i n (ls_leased st)")
    case True
    then have "lease_loop i ov uuid n (job # rest) st = st" by (auto simp: lease_full_def)
    with True Cons.prems show ?thesis by metis
  next
    case False
    then have "P rest (if lease_skips i ov job rest st then st else lease_take i uuid job st)"
      using assms(2,3) Cons.prems by (auto simp: lease_full_def)
    from Cons.IH[OF this] False show ?thesis by (auto simp: lease_full_def split: if_splits)
  qed
qed

definition lease_of :: "lease_next_input \<Rightarrow> string \<Rightarrow> queue_job \<Rightarrow> queue_job" where
  "lease_of i leaseId r = leased_row leaseId (ln_now i + ln_ttl i) (ln_now i) r"

lemma leased_row_simps [simp]:
  "q_job_id (leased_row l e now r) = q_job_id r" "q_provider_id (leased_row l e now r) = q_provider_id r"
  "q_org (leased_row l e now r) = q_org r" "q_repo (leased_row l e now r) = q_repo r"
  "q_pull (leased_row l e now r) = q_pull r" "q_head (leased_row l e now r) = q_head r"
  "q_state (leased_row l e now r) = Q_leased" "q_lane (leased_row l e now r) = q_lane r"
  "q_lease_id (leased_row l e now r) = Some l" "q_lease_expires_at (leased_row l e now r) = Some e"
  "q_updated_at (leased_row l e now r) = now" "q_attempt_id (leased_row l e now r) = q_attempt_id r"
  "q_priority (leased_row l e now r) = q_priority r" "q_created_at (leased_row l e now r) = q_created_at r"
  by (simp_all add: leased_row_def)

lemma lease_of_simps [simp]:
  "q_job_id (lease_of i l r) = q_job_id r" "q_provider_id (lease_of i l r) = q_provider_id r"
  "q_org (lease_of i l r) = q_org r" "q_repo (lease_of i l r) = q_repo r"
  "q_pull (lease_of i l r) = q_pull r" "q_head (lease_of i l r) = q_head r"
  "q_state (lease_of i l r) = Q_leased" "q_lane (lease_of i l r) = q_lane r"
  "q_lease_id (lease_of i l r) = Some l" "q_lease_expires_at (lease_of i l r) = Some (ln_now i + ln_ttl i)"
  "reviewQueueHeadKey (lease_of i l r) = reviewQueueHeadKey r"
  "q_provider (mapReviewQueueJobRow (lease_of i l r)) = q_provider (mapReviewQueueJobRow r)"
  "q_priority (lease_of i l r) = q_priority r" "q_created_at (lease_of i l r) = q_created_at r"
  by (simp_all add: lease_of_def reviewQueueHeadKey_def q_provider_def)

lemma q_provider_map [simp]:
  "q_provider (mapReviewQueueJobRow (leased_row l e now r)) = q_provider (mapReviewQueueJobRow r)"
  by (simp add: q_provider_def)

lemma head_key_map [simp]:
  "reviewQueueHeadKey (mapReviewQueueJobRow r) = reviewQueueHeadKey r"
  "reviewQueueHeadKey (leased_row l e now r) = reviewQueueHeadKey r"
  by (simp_all add: reviewQueueHeadKey_def)

text \<open>What the loop keeps of the rows: the jobs still to scan are untouched, those taken are leased.\<close>

definition rows_inv ::
  "lease_next_input \<Rightarrow> queue_job list \<Rightarrow> queue_job list \<Rightarrow> queue_job list \<Rightarrow> lease_scan \<Rightarrow> bool" where
  "rows_inv i rows jobs rest st \<longleftrightarrow>
     distinct (map q_job_id (ls_leased st @ rest)) \<and>
     (\<forall>job \<in> set rest. \<exists>r. row_get q_job_id (q_job_id job) rows = Some r \<and>
        job = mapReviewQueueJobRow r \<and> is_leasable_state (q_state r)) \<and>
     (\<forall>l \<in> set (ls_leased st). \<exists>r u. row_get q_job_id (q_job_id l) rows = Some r \<and> is_leasable_state (q_state r) \<and>
        l = mapReviewQueueJobRow (lease_of i u r) \<and> mapReviewQueueJobRow r \<in> set jobs \<and>
        row_get q_job_id (q_job_id l) (ls_rows st) = Some (lease_of i u r)) \<and>
     (\<forall>k. k \<notin> q_job_id ` set (ls_leased st) \<longrightarrow> row_get q_job_id k (ls_rows st) = row_get q_job_id k rows)"


lemma lease_take_row:
  fixes uuid :: "nat \<Rightarrow> string"
  assumes "row_get q_job_id (q_job_id job) (ls_rows st) = Some r" "is_leasable_state (q_state r)"
    "job = mapReviewQueueJobRow r"
  defines "u \<equiv> uuid (length (ls_leased st))"
  shows "ls_leased (lease_take i uuid job st) = ls_leased st @ [mapReviewQueueJobRow (lease_of i u r)]"
    and "row_get q_job_id k (ls_rows (lease_take i uuid job st)) =
      (if k = q_job_id job then Some (lease_of i u r) else row_get q_job_id k (ls_rows st))"
proof -
  have L: "leased_row (uuid (length (ls_leased st))) (ln_now i + ln_ttl i) (ln_now i) = lease_of i u"
    by (rule ext) (simp add: lease_of_def u_def)
  have get: "row_get q_job_id k (ls_rows (lease_take i uuid job st)) =
      map_option (\<lambda>r. if q_job_id r = q_job_id job \<and> is_leasable_state (q_state r)
        then lease_of i u r else r) (row_get q_job_id k (ls_rows st))" for k
    by (simp add: lease_take_def Let_def row_get_update_key L)
  then show "row_get q_job_id k (ls_rows (lease_take i uuid job st)) =
      (if k = q_job_id job then Some (lease_of i u r) else row_get q_job_id k (ls_rows st))"
    using assms(1,2) by (cases "row_get q_job_id k (ls_rows st)") (auto dest: row_get_SomeD)
  have "row_get q_job_id (q_job_id job) (ls_rows (lease_take i uuid job st)) = Some (lease_of i u r)"
    using get[of "q_job_id job"] assms(1,2,3) by (auto dest: row_get_SomeD)
  then show "ls_leased (lease_take i uuid job st) = ls_leased st @ [mapReviewQueueJobRow (lease_of i u r)]"
    by (simp add: lease_take_def Let_def)
qed

lemma rows_inv_skip: "rows_inv i rows jobs (job # rest) st \<Longrightarrow> rows_inv i rows jobs rest st"
  by (simp add: rows_inv_def)

lemma rows_inv_leased:
  assumes "rows_inv i rows jobs rest st" "l \<in> set (ls_leased st)"
  obtains r u where "row_get q_job_id (q_job_id l) rows = Some r" "is_leasable_state (q_state r)"
    "l = mapReviewQueueJobRow (lease_of i u r)" "mapReviewQueueJobRow r \<in> set jobs"
    "row_get q_job_id (q_job_id l) (ls_rows st) = Some (lease_of i u r)"
proof -
  have "\<forall>l \<in> set (ls_leased st). \<exists>r u. row_get q_job_id (q_job_id l) rows = Some r \<and> is_leasable_state (q_state r) \<and>
        l = mapReviewQueueJobRow (lease_of i u r) \<and> mapReviewQueueJobRow r \<in> set jobs \<and>
        row_get q_job_id (q_job_id l) (ls_rows st) = Some (lease_of i u r)"
    using assms(1) unfolding rows_inv_def by (elim conjE)
  from bspec[OF this assms(2)] that show thesis by blast
qed

lemma rows_inv_next:
  assumes "rows_inv i rows jobs (job # rest) st"
  obtains r where "row_get q_job_id (q_job_id job) (ls_rows st) = Some r" "job = mapReviewQueueJobRow r"
    "is_leasable_state (q_state r)" "row_get q_job_id (q_job_id job) rows = Some r"
  using assms by (fastforce simp: rows_inv_def)


lemma rows_inv_take:
  assumes inv: "rows_inv i rows jobs (job # rest) st" and mem: "job \<in> set jobs"
  shows "rows_inv i rows jobs rest (lease_take i uuid job st)"
proof -
  obtain r where r: "row_get q_job_id (q_job_id job) (ls_rows st) = Some r" "job = mapReviewQueueJobRow r"
    "is_leasable_state (q_state r)" "row_get q_job_id (q_job_id job) rows = Some r"
    by (rule rows_inv_next[OF inv])
  let ?u = "uuid (length (ls_leased st))"
  note t = lease_take_row[OF r(1) r(3) r(2)]
  have id: "q_job_id (lease_of i u r) = q_job_id job" for u using r(2) by (simp add: lease_of_def)
  have leased: "ls_leased (lease_take i uuid job st) = ls_leased st @ [mapReviewQueueJobRow (lease_of i ?u r)]"
    by (rule t(1))
  have jr: "q_job_id r = q_job_id job" by (simp add: r(2))
  have dist: "distinct (map q_job_id (ls_leased st @ job # rest))" using inv by (simp only: rows_inv_def)
  show ?thesis
    unfolding rows_inv_def leased
  proof (intro conjI)
    show "distinct (map q_job_id ((ls_leased st @ [mapReviewQueueJobRow (lease_of i ?u r)]) @ rest))"
      using dist by (auto simp: r(2))
    show "\<forall>job \<in> set rest. \<exists>r. row_get q_job_id (q_job_id job) rows = Some r \<and>
        job = mapReviewQueueJobRow r \<and> is_leasable_state (q_state r)"
      using inv by (simp add: rows_inv_def)
    show "\<forall>l \<in> set (ls_leased st @ [mapReviewQueueJobRow (lease_of i ?u r)]). \<exists>r u.
        row_get q_job_id (q_job_id l) rows = Some r \<and> is_leasable_state (q_state r) \<and>
        l = mapReviewQueueJobRow (lease_of i u r) \<and> mapReviewQueueJobRow r \<in> set jobs \<and>
        row_get q_job_id (q_job_id l) (ls_rows (lease_take i uuid job st)) = Some (lease_of i u r)"
    proof
      fix l assume l: "l \<in> set (ls_leased st @ [mapReviewQueueJobRow (lease_of i ?u r)])"
      show "\<exists>r u. row_get q_job_id (q_job_id l) rows = Some r \<and> is_leasable_state (q_state r) \<and>
        l = mapReviewQueueJobRow (lease_of i u r) \<and> mapReviewQueueJobRow r \<in> set jobs \<and>
        row_get q_job_id (q_job_id l) (ls_rows (lease_take i uuid job st)) = Some (lease_of i u r)"
      proof (cases "l \<in> set (ls_leased st)")
        case True
        then have "q_job_id l \<in> q_job_id ` set (ls_leased st)" by simp
        with dist have "q_job_id l \<noteq> q_job_id job" by (auto simp del: image_eqI)
        then show ?thesis using inv True by (simp add: rows_inv_def t(2))
      next
        case False
        then have "l = mapReviewQueueJobRow (lease_of i ?u r)" using l by simp
        then show ?thesis using r mem t(2)[of "q_job_id job"]
          by (intro exI[of _ r] exI[of _ ?u]) (simp add: id)
      qed
    qed
    show "\<forall>k. k \<notin> q_job_id ` set (ls_leased st @ [mapReviewQueueJobRow (lease_of i ?u r)]) \<longrightarrow>
        row_get q_job_id k (ls_rows (lease_take i uuid job st)) = row_get q_job_id k rows"
      using inv by (simp add: rows_inv_def t(2) jr)
  qed
qed

text \<open>The counters are the counts over the active and the leased jobs.\<close>

definition total :: "(reserved_job \<Rightarrow> string) \<Rightarrow> (queue_job \<Rightarrow> string) \<Rightarrow> reserved_job list \<Rightarrow> queue_job list \<Rightarrow> string \<Rightarrow> int" where
  "total akey jkey active leased v = countBy akey active v + countBy jkey leased v"

definition counters_inv :: "reserved_job list \<Rightarrow> lease_scan \<Rightarrow> bool" where
  "counters_inv active st \<longleftrightarrow>
     ls_provider st = total rj_provider q_provider active (ls_leased st) \<and>
     ls_org st = total rj_org q_org active (ls_leased st) \<and>
     ls_repo st = total rj_repo q_repo active (ls_leased st) \<and>
     set (ls_heads st) = rj_head_key ` set active \<union> reviewQueueHeadKey ` set (ls_leased st)"

lemma countBy_append [simp]: "countBy key (xs @ ys) v = countBy key xs v + countBy key ys v"
  by (simp add: countBy_def)

lemma countBy_single [simp]: "countBy key [x] v = (if key x = v then 1 else 0)"
  by (simp add: countBy_def)

lemma countBy_Nil [simp]: "countBy key [] v = 0"
  by (simp add: countBy_def)

lemma countBy_nonneg [simp]: "0 \<le> countBy key xs v"
  by (simp add: countBy_def)

lemma counters_inv_take:
  assumes "rows_inv i rows jobs (job # rest) st" "counters_inv active st"
  shows "counters_inv active (lease_take i uuid job st)"
proof -
  obtain r where r: "row_get q_job_id (q_job_id job) (ls_rows st) = Some r" "job = mapReviewQueueJobRow r"
    "is_leasable_state (q_state r)" by (rule rows_inv_next[OF assms(1)])
  let ?l = "mapReviewQueueJobRow (lease_of i (uuid (length (ls_leased st))) r)"
  have leased: "ls_leased (lease_take i uuid job st) = ls_leased st @ [?l]"
    by (rule lease_take_row(1)[OF r(1) r(3) r(2)])
  have fields: "q_provider ?l = q_provider job" "q_org ?l = q_org job" "q_repo ?l = q_repo job"
    "reviewQueueHeadKey ?l = reviewQueueHeadKey job"
    by (simp_all add: r(2) lease_of_def)
  show ?thesis
    unfolding counters_inv_def leased
    using assms(2) by (auto simp: counters_inv_def total_def r(2) fun_eq_iff lease_take_def Let_def)
qed

text \<open>The caps.\<close>

definition capped :: "(reserved_job \<Rightarrow> string) \<Rightarrow> (queue_job \<Rightarrow> string) \<Rightarrow> (string \<Rightarrow> int) \<Rightarrow> reserved_job list \<Rightarrow> queue_job list \<Rightarrow> bool" where
  "capped akey jkey cap active leased \<longleftrightarrow>
     (\<forall>l \<in> set leased. total akey jkey active leased (jkey l) \<le> cap (jkey l))"

definition caps_inv ::
  "lease_next_input \<Rightarrow> (string \<rightharpoonup> int) \<Rightarrow> reserved_job list \<Rightarrow> queue_job list \<Rightarrow> bool" where
  "caps_inv i overrides active leased \<longleftrightarrow>
     capped rj_provider q_provider (\<lambda>_. ln_max_provider i) active leased \<and>
     capped rj_org q_org (\<lambda>_. ln_max_org i) active leased \<and>
     capped rj_repo q_repo (repo_limit i overrides) active leased \<and>
     int (length leased) \<le> ln_limit_of i \<and>
     (leased = [] \<or> int (length active) + int (length leased) \<le> ln_global i) \<and>
     distinct (map reviewQueueHeadKey leased) \<and>
     rj_head_key ` set active \<inter> reviewQueueHeadKey ` set leased = {}"

lemma capped_snoc:
  assumes "capped akey jkey cap active leased" "total akey jkey active leased (jkey l) < cap (jkey l)"
  shows "capped akey jkey cap active (leased @ [l])"
  using assms by (auto simp: capped_def total_def)

lemma caps_inv_take:
  assumes "rows_inv i rows jobs (job # rest) st" "counters_inv active st"
    "caps_inv i ov active (ls_leased st)" "\<not> lease_skips i ov job rest st"
    "int (length (ls_leased st)) < ln_limit_of i"
    "int (length active) + int (length (ls_leased st)) < ln_global i"
  shows "caps_inv i ov active (ls_leased (lease_take i uuid job st))"
proof -
  obtain r where r: "row_get q_job_id (q_job_id job) (ls_rows st) = Some r" "job = mapReviewQueueJobRow r"
    "is_leasable_state (q_state r)" by (rule rows_inv_next[OF assms(1)])
  let ?l = "mapReviewQueueJobRow (lease_of i (uuid (length (ls_leased st))) r)"
  have leased: "ls_leased (lease_take i uuid job st) = ls_leased st @ [?l]"
    by (rule lease_take_row(1)[OF r(1) r(3) r(2)])
  have fields: "q_provider ?l = q_provider job" "q_org ?l = q_org job" "q_repo ?l = q_repo job"
    "reviewQueueHeadKey ?l = reviewQueueHeadKey job"
    by (simp_all add: r(2) lease_of_def)
  have free: "total rj_provider q_provider active (ls_leased st) (q_provider ?l) < ln_max_provider i"
    "total rj_org q_org active (ls_leased st) (q_org ?l) < ln_max_org i"
    "total rj_repo q_repo active (ls_leased st) (q_repo ?l) < repo_limit i ov (q_repo ?l)"
    and head: "reviewQueueHeadKey ?l \<notin> rj_head_key ` set active \<union> reviewQueueHeadKey ` set (ls_leased st)"
    using assms(2,4) unfolding fields by (auto simp: lease_skips_def counters_inv_def)
  show ?thesis
    unfolding caps_inv_def leased
    using assms(3,5,6) free head
    by (auto simp: caps_inv_def intro!: capped_snoc)
qed


section \<open>What a lease call does\<close>

definition lease_inv where
  "lease_inv i ov active rows jobs rest st \<longleftrightarrow>
     rows_inv i rows jobs rest st \<and> set rest \<subseteq> set jobs \<and> counters_inv active st \<and> caps_inv i ov active (ls_leased st)"

lemma lease_loop_inv:
  assumes "lease_inv i ov active rows jobs jobs st"
  shows "\<exists>rest. lease_inv i ov active rows jobs rest
    (lease_loop i ov uuid (int (length active)) jobs st)"
proof -
  have "\<exists>rest. lease_inv i ov active rows jobs rest (lease_loop i ov uuid (int (length active)) jobs st) \<and>
    (rest = [] \<or> lease_full i (int (length active)) (ls_leased (lease_loop i ov uuid (int (length active)) jobs st)))"
  proof (rule lease_loop_rule[where P = "lease_inv i ov active rows jobs", OF assms])
  fix job rest st
  assume inv: "lease_inv i ov active rows jobs (job # rest) st"
  then show "lease_inv i ov active rows jobs rest st"
    by (auto simp: lease_inv_def intro: rows_inv_skip)
  assume "int (length (ls_leased st)) < ln_limit_of i"
    "int (length active) + int (length (ls_leased st)) < ln_global i" "\<not> lease_skips i ov job rest st"
  with inv show "lease_inv i ov active rows jobs rest (lease_take i uuid job st)"
    by (auto simp: lease_inv_def intro: rows_inv_take counters_inv_take caps_inv_take)
  qed
  then show ?thesis by blast
qed

definition lease_rows :: "lease_next_input \<Rightarrow> db \<Rightarrow> queue_job list" where
  "lease_rows i d = requeue_lapsed (ln_now i) (ln_ttl i) (queue d)"

definition lease_jobs :: "lease_next_input \<Rightarrow> db \<Rightarrow> queue_job list" where
  "lease_jobs i d = all_queue_jobs (d\<lparr>queue := lease_rows i d\<rparr>)"

lemma requeue_key [simp]: "map q_job_id (requeue_lapsed now ttl rows) = map q_job_id rows"
  by (simp add: requeue_lapsed_def row_update_def)

lemma lease_jobs_ids: "queue_wf d \<Longrightarrow> distinct (map q_job_id (lease_jobs i d))"
  by (simp add: lease_jobs_def all_queue_jobs_def lease_rows_def queue_wf_def unique_rows_def comp_def
      requeue_key[unfolded map_map])

lemma lease_jobs_row:
  assumes "queue_wf d" "job \<in> set (lease_jobs i d)"
  obtains r where "row_get q_job_id (q_job_id job) (lease_rows i d) = Some r" "job = mapReviewQueueJobRow r"
proof -
  obtain r where r: "r \<in> set (lease_rows i d)" "job = mapReviewQueueJobRow r"
    using assms(2) by (auto simp: lease_jobs_def all_queue_jobs_def)
  have "unique_rows q_job_id (lease_rows i d)"
    using assms(1) by (simp add: queue_wf_def lease_rows_def unique_rows_def)
  from unique_rows_get[OF this r(1)] r(2) that show thesis by simp
qed

lemma eligible_leasable: "isQueueJobEligible h now job \<Longrightarrow> is_leasable_state (q_state job)"
  by (auto simp: isQueueJobEligible_def is_leasable_state_def)

lemma lease_start_inv:
  fixes h :: host
  assumes "queue_wf d" "lease_next_check i = Inr ov"
  defines "jobs \<equiv> eligible_jobs h i (lease_jobs i d)" and "active \<equiv> active_jobs i (lease_jobs i d)"
  shows "lease_inv i ov active (lease_rows i d) jobs jobs (lease_start active (lease_rows i d))"
proof -
  have "distinct (map q_job_id jobs)"
    using lease_jobs_ids[OF assms(1), of i] by (simp add: jobs_def eligible_jobs_def distinct_map_filter)
  moreover have "\<exists>r. row_get q_job_id (q_job_id job) (lease_rows i d) = Some r \<and>
      job = mapReviewQueueJobRow r \<and> is_leasable_state (q_state r)" if "job \<in> set jobs" for job
  proof -
    have e: "job \<in> set (lease_jobs i d)" "is_leasable_state (q_state job)"
      using that eligible_leasable[of h "ln_now i" job] by (auto simp: jobs_def eligible_jobs_def)
    obtain r where "row_get q_job_id (q_job_id job) (lease_rows i d) = Some r" "job = mapReviewQueueJobRow r"
      by (rule lease_jobs_row[OF assms(1) e(1)])
    with e(2) show ?thesis by auto
  qed
  moreover have "1 \<le> ln_limit_of i"
    using assms(2) by (auto simp: lease_next_check_def validatePositiveQueueLimit_def split: option.splits sum.splits if_splits)
  ultimately show ?thesis
    by (auto simp: lease_inv_def rows_inv_def lease_start_def counters_inv_def total_def fun_eq_iff
        caps_inv_def capped_def)
qed

lemma leaseNext_inv:
  assumes "queue_wf d" "leaseNextReviewQueueJobs h i uuid d = (Inr leased, d')"
  obtains ov st rest where "lease_next_check i = Inr ov" "leased = ls_leased st" "d' = d\<lparr>queue := ls_rows st\<rparr>"
    "lease_inv i ov (active_jobs i (lease_jobs i d)) (lease_rows i d) (eligible_jobs h i (lease_jobs i d)) rest st"
    "st = lease_loop i ov uuid (int (length (active_jobs i (lease_jobs i d)))) (eligible_jobs h i (lease_jobs i d))
            (lease_start (active_jobs i (lease_jobs i d)) (lease_rows i d))"
proof -
  obtain ov where ov: "lease_next_check i = Inr ov"
    using assms(2) by (auto simp: leaseNextReviewQueueJobs_def split: sum.splits)
  let ?st = "lease_loop i ov uuid (int (length (active_jobs i (lease_jobs i d)))) (eligible_jobs h i (lease_jobs i d))
            (lease_start (active_jobs i (lease_jobs i d)) (lease_rows i d))"
  have eq: "leased = ls_leased ?st" "d' = d\<lparr>queue := ls_rows ?st\<rparr>"
    using assms(2) ov by (auto simp: leaseNextReviewQueueJobs_def Let_def lease_jobs_def lease_rows_def)
  from lease_loop_inv[OF lease_start_inv[OF assms(1) ov]] that[OF ov eq] show thesis by blast
qed


text \<open>C9: one lease call never overruns a cap: with the jobs active before it, the jobs it leases keep
  every provider, organisation, repository (with its override) and global count within its limit,
  their number within the call's limit, and no two active jobs of it share a pull head.\<close>

theorem lease_respects_caps:
  assumes "queue_wf d" "leaseNextReviewQueueJobs h i uuid d = (Inr leased, d')"
  shows "\<exists>ov. lease_next_check i = Inr ov \<and>
    (let active = active_jobs i (lease_jobs i d) in
      list_all (\<lambda>l.
        countBy rj_provider active (q_provider l) + countBy q_provider leased (q_provider l) \<le> ln_max_provider i \<and>
        countBy rj_org active (q_org l) + countBy q_org leased (q_org l) \<le> ln_max_org i \<and>
        countBy rj_repo active (q_repo l) + countBy q_repo leased (q_repo l) \<le> repo_limit i ov (q_repo l)) leased \<and>
      int (length leased) \<le> ln_limit_of i \<and>
      (leased = [] \<or> int (length active) + int (length leased) \<le> ln_global i) \<and>
      distinct (map reviewQueueHeadKey leased) \<and>
      rj_head_key ` set active \<inter> reviewQueueHeadKey ` set leased = {})"
proof (rule leaseNext_inv[OF assms])
  fix ov st rest
  assume "lease_next_check i = Inr ov" "leased = ls_leased st"
    "lease_inv i ov (active_jobs i (lease_jobs i d)) (lease_rows i d) (eligible_jobs h i (lease_jobs i d)) rest st"
  then show ?thesis
    by (auto simp: lease_inv_def caps_inv_def capped_def total_def list_all_iff Let_def)
qed

text \<open>a lease call changes the queue only by requeueing the jobs whose lease has lapsed and leasing
  the jobs it returns; each of those was eligible and not excluded, and is stored as leased with its
  own lease id, expiring one TTL from now.\<close>

theorem lease_effect:
  assumes "queue_wf d" "leaseNextReviewQueueJobs h i uuid d = (Inr leased, d')"
  shows "list_all (\<lambda>l. \<exists>r u. row_get q_job_id (q_job_id l) (lease_rows i d) = Some r \<and>
            isQueueJobEligible h (ln_now i) (mapReviewQueueJobRow r) \<and> q_job_id l \<notin> set (ln_exclude_job_ids i) \<and>
            l = mapReviewQueueJobRow (leased_row u (ln_now i + ln_ttl i) (ln_now i) r) \<and>
            row_get q_job_id (q_job_id l) (queue d') = Some (leased_row u (ln_now i + ln_ttl i) (ln_now i) r)) leased \<and>
         (k \<in> q_job_id ` set leased \<or> row_get q_job_id k (queue d') = row_get q_job_id k (lease_rows i d)) \<and>
         d' = d\<lparr>queue := queue d'\<rparr>"
proof (rule leaseNext_inv[OF assms])
  fix ov st rest
  assume st: "leased = ls_leased st" "d' = d\<lparr>queue := ls_rows st\<rparr>"
    and inv: "lease_inv i ov (active_jobs i (lease_jobs i d)) (lease_rows i d) (eligible_jobs h i (lease_jobs i d)) rest st"
  from inv have ri: "rows_inv i (lease_rows i d) (eligible_jobs h i (lease_jobs i d)) rest st"
    by (simp add: lease_inv_def)
  have "\<exists>r u. row_get q_job_id (q_job_id l) (lease_rows i d) = Some r \<and>
            isQueueJobEligible h (ln_now i) (mapReviewQueueJobRow r) \<and> q_job_id l \<notin> set (ln_exclude_job_ids i) \<and>
            l = mapReviewQueueJobRow (lease_of i u r) \<and> row_get q_job_id (q_job_id l) (ls_rows st) = Some (lease_of i u r)"
    if l: "l \<in> set (ls_leased st)" for l
  proof -
    obtain r u where r: "row_get q_job_id (q_job_id l) (lease_rows i d) = Some r"
      "l = mapReviewQueueJobRow (lease_of i u r)" "mapReviewQueueJobRow r \<in> set (eligible_jobs h i (lease_jobs i d))"
      "row_get q_job_id (q_job_id l) (ls_rows st) = Some (lease_of i u r)"
      by (rule rows_inv_leased[OF ri l]) blast
    have "isQueueJobEligible h (ln_now i) (mapReviewQueueJobRow r)" "q_job_id l \<notin> set (ln_exclude_job_ids i)"
      using r(3) by (simp_all add: eligible_jobs_def r(2))
    with r(1,2,4) show ?thesis by blast
  qed
  moreover have "k \<in> q_job_id ` set (ls_leased st) \<or> row_get q_job_id k (ls_rows st) = row_get q_job_id k (lease_rows i d)"
    using ri by (auto simp: rows_inv_def)
  ultimately show ?thesis
    by (simp add: st list_all_iff lease_of_def)
qed

lemma lease_comparator_map:
  "buildLeaseComparator aging now (mapReviewQueueJobRow (lease_of i u r)) y =
   buildLeaseComparator aging now (mapReviewQueueJobRow r) y"
  "buildLeaseComparator aging now y (mapReviewQueueJobRow (lease_of i u r)) =
   buildLeaseComparator aging now y (mapReviewQueueJobRow r)"
  by (simp_all add: buildLeaseComparator_def compareQueueJobsForLease_def isRescued_def Let_def split: option.split)

lemma lease_order_inv:
  assumes "rows_inv i rows jobs (job # rest) st"
    and "sorted_wrt (\<lambda>x y. buildLeaseComparator aging now x y \<le> 0) (ls_leased st @ job # rest)"
  shows "sorted_wrt (\<lambda>x y. buildLeaseComparator aging now x y \<le> 0) (ls_leased (lease_take i uuid job st) @ rest)"
proof -
  obtain r where r: "row_get q_job_id (q_job_id job) (ls_rows st) = Some r" "job = mapReviewQueueJobRow r"
    "is_leasable_state (q_state r)" by (rule rows_inv_next[OF assms(1)])
  from assms(2) show ?thesis
    unfolding lease_take_row(1)[OF r(1) r(3) r(2)]
    by (simp add: sorted_wrt_append lease_comparator_map r(2))
qed

text \<open>the jobs of a lease call come out in lease order: by priority and age, or with aging enabled
  the rescued jobs before all others and the oldest of them first.\<close>

theorem lease_in_order:
  assumes "queue_wf d" "leaseNextReviewQueueJobs h i uuid d = (Inr leased, d')"
  shows "sorted_wrt (\<lambda>x y. buildLeaseComparator (ln_aging i) (ln_now i) x y \<le> 0) leased"
proof (rule leaseNext_inv[OF assms])
  fix ov st rest
  let ?jobs = "eligible_jobs h i (lease_jobs i d)" and ?act = "active_jobs i (lease_jobs i d)"
  let ?C = "\<lambda>x y. buildLeaseComparator (ln_aging i) (ln_now i) x y \<le> 0"
  let ?P = "\<lambda>rest st. rows_inv i (lease_rows i d) ?jobs rest st \<and> set rest \<subseteq> set ?jobs \<and> sorted_wrt ?C (ls_leased st @ rest)"
  assume ov: "lease_next_check i = Inr ov" and st: "leased = ls_leased st"
    "st = lease_loop i ov uuid (int (length ?act)) ?jobs (lease_start ?act (lease_rows i d))"
  have "\<exists>rest. ?P rest (lease_loop i ov uuid (int (length ?act)) ?jobs (lease_start ?act (lease_rows i d))) \<and>
    (rest = [] \<or> lease_full i (int (length ?act)) (ls_leased (lease_loop i ov uuid (int (length ?act)) ?jobs (lease_start ?act (lease_rows i d)))))"
  proof (rule lease_loop_rule[where P = ?P])
    show "?P ?jobs (lease_start ?act (lease_rows i d))"
      using lease_start_inv[OF assms(1) ov, of h] aged_lease_order.sorted_js_sort
      by (simp add: lease_inv_def lease_start_def eligible_jobs_def)
  next
    fix job rest st
    assume "?P (job # rest) st"
    then show "?P rest st" by (auto simp: sorted_wrt_append intro: rows_inv_skip)
  next
    fix job rest st
    assume P: "?P (job # rest) st"
    then show "?P rest (lease_take i uuid job st)"
      using lease_order_inv[of i "lease_rows i d" ?jobs job rest st "ln_aging i" "ln_now i" uuid]
        rows_inv_take[of i "lease_rows i d" ?jobs job rest st uuid] by simp
  qed
  then show ?thesis by (auto simp: st sorted_wrt_append)
qed

section \<open>Nothing younger overtakes a starving job\<close>

text \<open>The reasons for which the scan passes over a job, the jobs \<open>ahead\<close> leased before it in the same call: the call
  or the host is full, its head is taken, one of its caps is reached, or it is a background job that would cut into
  the slots kept for a manual job still waiting.\<close>

definition no_room ::
  "lease_next_input \<Rightarrow> (string \<rightharpoonup> int) \<Rightarrow> reserved_job list \<Rightarrow> queue_job list \<Rightarrow> queue_job list \<Rightarrow> queue_job \<Rightarrow> bool" where
  "no_room i ov active waiting ahead job \<longleftrightarrow>
     lease_full i (int (length active)) ahead \<or>
     reviewQueueHeadKey job \<in> rj_head_key ` set active \<union> reviewQueueHeadKey ` set ahead \<or>
     ln_max_provider i \<le> countBy rj_provider active (q_provider job) + countBy q_provider ahead (q_provider job) \<or>
     ln_max_org i \<le> countBy rj_org active (q_org job) + countBy q_org ahead (q_org job) \<or>
     repo_limit i ov (q_repo job) \<le> countBy rj_repo active (q_repo job) + countBy q_repo ahead (q_repo job) \<or>
     q_lane job = QL_background \<and> 0 < ln_reserve i \<and>
       min (ln_max_provider i) (ln_global i) - ln_reserve i \<le>
         countBy rj_provider active (q_provider job) + countBy q_provider ahead (q_provider job) \<and>
       (\<exists>m \<in> set waiting. q_lane m = QL_manual \<and> reviewQueueHeadKey m \<noteq> reviewQueueHeadKey job \<and>
          reviewQueueHeadKey m \<notin> rj_head_key ` set active \<union> reviewQueueHeadKey ` set ahead)"

lemma skipped_no_room:
  assumes "lease_skips i ov job rest st" "counters_inv active st" "set rest \<subseteq> set waiting"
  shows "no_room i ov active waiting (ls_leased st) job"
  using assms unfolding lease_skips_def no_room_def counters_inv_def total_def hasUncoveredManualAfter_def list_ex_iff
  by (elim disjE conjE) auto

text \<open>Where a job is in the scan: still to come, leased, or passed over for want of room.\<close>

definition scanned ::
  "lease_next_input \<Rightarrow> (string \<rightharpoonup> int) \<Rightarrow> reserved_job list \<Rightarrow> queue_job list \<Rightarrow> queue_job \<Rightarrow> queue_job list \<Rightarrow> lease_scan \<Rightarrow> bool" where
  "scanned i ov active waiting job rest st \<longleftrightarrow>
     job \<in> set rest \<or> q_job_id job \<in> q_job_id ` set (ls_leased st) \<or>
     (\<exists>ahead later. ls_leased st = ahead @ later \<and>
        (\<forall>x \<in> set ahead. buildLeaseComparator (ln_aging i) (ln_now i) x job \<le> 0) \<and> no_room i ov active waiting ahead job)"

lemma scanned_take:
  assumes "scanned i ov active waiting job (x # rest) st" "rows_inv i rows jobs (x # rest) st"
  shows "scanned i ov active waiting job rest (lease_take i uuid x st)"
proof -
  obtain r where r: "row_get q_job_id (q_job_id x) (ls_rows st) = Some r" "x = mapReviewQueueJobRow r"
    "is_leasable_state (q_state r)" by (rule rows_inv_next[OF assms(2)])
  let ?l = "mapReviewQueueJobRow (lease_of i (uuid (length (ls_leased st))) r)"
  have leased: "ls_leased (lease_take i uuid x st) = ls_leased st @ [?l]" by (rule lease_take_row(1)[OF r(1) r(3) r(2)])
  have id: "q_job_id ?l = q_job_id x" by (simp add: r(2))
  from assms(1) show ?thesis
    unfolding scanned_def leased
  proof (elim disjE exE conjE)
    fix ahead later
    assume "ls_leased st = ahead @ later" "\<forall>x \<in> set ahead. buildLeaseComparator (ln_aging i) (ln_now i) x job \<le> 0"
      "no_room i ov active waiting ahead job"
    then have "ls_leased st @ [?l] = ahead @ (later @ [?l]) \<and>
      (\<forall>x \<in> set ahead. buildLeaseComparator (ln_aging i) (ln_now i) x job \<le> 0) \<and> no_room i ov active waiting ahead job"
      by simp
    then show "job \<in> set rest \<or> q_job_id job \<in> q_job_id ` set (ls_leased st @ [?l]) \<or>
      (\<exists>ahead later. ls_leased st @ [?l] = ahead @ later \<and>
        (\<forall>x \<in> set ahead. buildLeaseComparator (ln_aging i) (ln_now i) x job \<le> 0) \<and> no_room i ov active waiting ahead job)"
      by blast
  qed (use id in auto)
qed

lemma scanned_skip:
  assumes "scanned i ov active waiting job (x # rest) st" "lease_skips i ov x rest st" "counters_inv active st"
    "sorted_wrt (\<lambda>x y. buildLeaseComparator (ln_aging i) (ln_now i) x y \<le> 0) (ls_leased st @ x # rest)"
    "set rest \<subseteq> set waiting"
  shows "scanned i ov active waiting job rest st"
proof (cases "x = job")
  case True
  have "no_room i ov active waiting (ls_leased st) job"
    using skipped_no_room[OF assms(2,3,5)] True by simp
  moreover have "\<forall>y \<in> set (ls_leased st). buildLeaseComparator (ln_aging i) (ln_now i) y job \<le> 0"
    using assms(4) True by (simp add: sorted_wrt_append)
  ultimately show ?thesis unfolding scanned_def by (metis append_Nil2)
qed (use assms(1) in \<open>auto simp: scanned_def\<close>)

lemma scan_ends:
  assumes "queue_wf d" "leaseNextReviewQueueJobs h i uuid d = (Inr leased, d')" "job \<in> set (eligible_jobs h i (lease_jobs i d))"
  obtains ov where "lease_next_check i = Inr ov"
    "q_job_id job \<in> q_job_id ` set leased \<or>
     (\<exists>ahead later. leased = ahead @ later \<and> (\<forall>x \<in> set ahead. buildLeaseComparator (ln_aging i) (ln_now i) x job \<le> 0) \<and>
        no_room i ov (active_jobs i (lease_jobs i d)) (eligible_jobs h i (lease_jobs i d)) ahead job)"
proof (rule leaseNext_inv[OF assms(1,2)])
  fix ov st rest'
  let ?jobs = "eligible_jobs h i (lease_jobs i d)" and ?act = "active_jobs i (lease_jobs i d)"
  let ?C = "\<lambda>x y. buildLeaseComparator (ln_aging i) (ln_now i) x y \<le> 0"
  let ?P = "\<lambda>rest st. rows_inv i (lease_rows i d) ?jobs rest st \<and> set rest \<subseteq> set ?jobs \<and> counters_inv ?act st \<and>
    sorted_wrt ?C (ls_leased st @ rest) \<and> scanned i ov ?act ?jobs job rest st"
  let ?final = "lease_loop i ov uuid (int (length ?act)) ?jobs (lease_start ?act (lease_rows i d))"
  assume ov: "lease_next_check i = Inr ov" and leased: "leased = ls_leased st" and st: "st = ?final"
  have "\<exists>rest. ?P rest ?final \<and> (rest = [] \<or> lease_full i (int (length ?act)) (ls_leased ?final))"
  proof (rule lease_loop_rule[where P = ?P])
    show "?P ?jobs (lease_start ?act (lease_rows i d))"
      using lease_start_inv[OF assms(1) ov, of h] aged_lease_order.sorted_js_sort assms(3)
      by (simp add: lease_inv_def lease_start_def eligible_jobs_def scanned_def)
  next
    fix x rest st
    assume "?P (x # rest) st" "lease_skips i ov x rest st"
    then show "?P rest st"
      using scanned_skip[of i ov ?act ?jobs job x rest st] by (auto simp: sorted_wrt_append intro: rows_inv_skip)
  next
    fix x rest st
    assume P: "?P (x # rest) st"
    then show "?P rest (lease_take i uuid x st)"
      using lease_order_inv[of i "lease_rows i d" ?jobs x rest st "ln_aging i" "ln_now i" uuid]
        rows_inv_take[of i "lease_rows i d" ?jobs x rest st uuid] counters_inv_take[of i "lease_rows i d" ?jobs x rest st ?act uuid]
        scanned_take[of i ov ?act ?jobs job x rest st "lease_rows i d" ?jobs uuid] by simp
  qed
  then obtain rest where rest: "?P rest st" "rest = [] \<or> lease_full i (int (length ?act)) leased"
    unfolding leased st by blast
  have "scanned i ov ?act ?jobs job [] st"
  proof (cases "job \<in> set rest")
    case True
    then have "lease_full i (int (length ?act)) leased" "\<forall>x \<in> set (ls_leased st). ?C x job"
      using rest by (auto simp: sorted_wrt_append)
    then show ?thesis unfolding scanned_def no_room_def leased by (metis append_Nil2)
  qed (use rest in \<open>auto simp: scanned_def\<close>)
  then show thesis using that[OF ov] by (simp add: scanned_def leased)
qed

text \<open>C36: with aging enabled nothing younger overtakes a starving job. A job that is eligible, is not excluded by the
  call and has waited longer than the limit is leased by the call, or it was passed over at a moment when the jobs
  leased before it in this call had all starved too and were at least as old, and these together with the jobs active
  before the call left no room for it: the call or the host was full, its pull head was taken, its provider,
  organisation or repository cap was reached, or it is a background job that would have cut into the slots reserved
  while a manual job waits. Its priority plays no part. In particular the oldest starving job that can be leased at all
  is leased whenever the active jobs leave room for it.\<close>

theorem starving_job_not_overtaken:
  assumes "queue_wf d" "leaseNextReviewQueueJobs h i uuid d = (Inr leased, d')"
    and job: "job \<in> set (lease_jobs i d)" "isQueueJobEligible h (ln_now i) job" "q_job_id job \<notin> set (ln_exclude_job_ids i)"
    and aged: "ln_aging i = Some a" "ag_enabled a" "isRescued (ag_max_wait_minutes a) (ln_now i) job"
  shows "\<exists>ov. lease_next_check i = Inr ov \<and>
    (q_job_id job \<in> q_job_id ` set leased \<or>
     (\<exists>ahead later. leased = ahead @ later \<and>
        (\<forall>x \<in> set ahead. isRescued (ag_max_wait_minutes a) (ln_now i) x \<and> q_created_at x \<le> q_created_at job) \<and>
        no_room i ov (active_jobs i (lease_jobs i d)) (eligible_jobs h i (lease_jobs i d)) ahead job))"
proof -
  have "job \<in> set (eligible_jobs h i (lease_jobs i d))" using job by (simp add: eligible_jobs_def)
  moreover have "isRescued (ag_max_wait_minutes a) (ln_now i) x \<and> q_created_at x \<le> q_created_at job"
    if "buildLeaseComparator (ln_aging i) (ln_now i) x job \<le> 0" for x
    using that aged by (auto simp: buildLeaseComparator_def Let_def split: if_splits)
  ultimately show ?thesis by (elim scan_ends[OF assms(1,2)]) blast
qed

section \<open>A leased head is not leased again\<close>

datatype queue_op =
    QEnqueue enqueue_input enqueue_ids
  | QLease host lease_next_input "nat \<Rightarrow> string"
  | QUpdate host queue_update
  | QPriority string int int
  | QClear host clear_input
  | QRetire string int string string int

fun queue_step :: "queue_op \<Rightarrow> db \<Rightarrow> db" where
  "queue_step (QEnqueue i ids) d = snd (enqueueReviewQueueJob i ids d)"
| "queue_step (QLease h i uuid) d = snd (leaseNextReviewQueueJobs h i uuid d)"
| "queue_step (QUpdate h u) d = snd (updateReviewQueueJobState h u d)"
| "queue_step (QPriority jobId priority now) d = snd (updateReviewQueueJobPriority jobId priority now d)"
| "queue_step (QClear h i) d = snd (clearReviewQueueLeases h i d)"
| "queue_step (QRetire repo pull head e now) d = retireFailedReviewQueueJobs repo pull head e now d"

type_synonym queue_hold = "string \<times> string \<times> int"

text \<open>Job \<open>jobId\<close> holds the head \<open>headKey\<close> until \<open>till\<close>.\<close>

fun queue_held :: "queue_hold \<Rightarrow> db \<Rightarrow> bool" where
  "queue_held (jobId, headKey, till) d \<longleftrightarrow> queue_wf d \<and>
     (case row_get q_job_id jobId (queue d) of None \<Rightarrow> False
      | Some r \<Rightarrow> is_active_state (q_state r) \<and> q_lease_expires_at r = Some till \<and> reviewQueueHeadKey r = headKey)"

fun ends_queue_hold :: "queue_hold \<Rightarrow> queue_op \<Rightarrow> bool" where
  "ends_queue_hold (jobId, headKey, till) (QLease h i uuid) \<longleftrightarrow> sql_datetime till \<le> sql_datetime (ln_now i)"
| "ends_queue_hold (jobId, headKey, till) (QUpdate h u) \<longleftrightarrow> qu_job_id u = jobId"
| "ends_queue_hold (jobId, headKey, till) (QClear h i) \<longleftrightarrow> \<not> or_default (cl_dry_run i) True"
| "ends_queue_hold (jobId, headKey, till) _ \<longleftrightarrow> False"

text \<open>A lease call of the head before the lease lapses, whose reservations do not misattribute the job.\<close>

fun queue_covers :: "queue_hold \<Rightarrow> string \<times> queue_op \<Rightarrow> bool" where
  "queue_covers (jobId, headKey, till) (k, QLease h i uuid) \<longleftrightarrow>
     k = headKey \<and> sql_datetime (ln_now i) < sql_datetime till \<and>
     list_all (\<lambda>rj. rj_job_id rj \<noteq> jobId \<or> rj_head_key rj = headKey) (ln_reserved i)"
| "queue_covers _ _ \<longleftrightarrow> False"

fun lease_refused :: "string \<times> queue_op \<Rightarrow> db \<Rightarrow> bool" where
  "lease_refused (k, QLease h i uuid) d \<longleftrightarrow>
     (case fst (leaseNextReviewQueueJobs h i uuid d) of Inl e \<Rightarrow> True
      | Inr leased \<Rightarrow> k \<notin> reviewQueueHeadKey ` set leased)"
| "lease_refused _ d \<longleftrightarrow> False"

lemma lease_loop_keys:
  assumes "\<And>l e now r. f (leased_row l e now r) = f r"
  shows "map f (ls_rows (lease_loop i ov uuid n jobs st)) = map f (ls_rows st)"
proof (induction jobs arbitrary: st)
  case Nil
  then show ?case by simp
next
  case (Cons job rest)
  have "map f (ls_rows (lease_take i uuid job st)) = map f (ls_rows st)"
    by (simp add: lease_take_def Let_def row_update_def assms)
  with Cons show ?case by simp
qed

lemma queue_wf_map_cong:
  "map q_job_id (queue d') = map q_job_id (queue d) \<Longrightarrow> map q_attempt_id (queue d') = map q_attempt_id (queue d) \<Longrightarrow>
   queue_wf d \<Longrightarrow> queue_wf d'"
  by (simp add: queue_wf_def unique_rows_def)

lemma queue_wf_lease: "queue_wf d \<Longrightarrow> queue_wf (snd (leaseNextReviewQueueJobs h i uuid d))"
  by (rule queue_wf_map_cong)
    (auto simp: leaseNextReviewQueueJobs_def Let_def lease_loop_keys lease_start_def requeue_lapsed_def
      row_update_def split: sum.split)

lemma queue_wf_row_update:
  "queue_wf d \<Longrightarrow> (\<And>r. q_job_id (f r) = q_job_id r) \<Longrightarrow> (\<And>r. q_attempt_id (f r) = q_attempt_id r) \<Longrightarrow>
   queue_wf (d\<lparr>queue := row_update P f (queue d)\<rparr>)"
  by (rule queue_wf_map_cong[of _ d]) (simp_all add: row_update_def)

lemma queue_wf_enqueue: "queue_wf d \<Longrightarrow> queue_wf (snd (enqueueReviewQueueJob i ids d))"
proof -
  have "q_job_id (enqueue_row i j a) = j" "q_attempt_id (enqueue_row i j a) = a" for j a
    by (simp_all add: enqueue_row_def Let_def)
  then show "queue_wf d \<Longrightarrow> queue_wf (snd (enqueueReviewQueueJob i ids d))"
    by (auto simp: enqueueReviewQueueJob_def Let_def queue_wf_def unique_rows_append split: option.split)
qed

lemma queue_wf_update: "queue_wf d \<Longrightarrow> queue_wf (snd (updateReviewQueueJobState h u d))"
  by (auto simp: updateReviewQueueJobState_def Let_def updated_queue_row_def
      intro!: queue_wf_row_update split: option.split)

lemma queue_wf_priority: "queue_wf d \<Longrightarrow> queue_wf (snd (updateReviewQueueJobPriority j p now d))"
  by (auto simp: updateReviewQueueJobPriority_def Let_def intro!: queue_wf_row_update split: option.split)

lemma queue_wf_retire: "queue_wf d \<Longrightarrow> queue_wf (retireFailedReviewQueueJobs repo pull head e now d)"
  unfolding retireFailedReviewQueueJobs_def by (rule queue_wf_row_update) simp_all

lemma clear_dry_run: "or_default (cl_dry_run i) True \<Longrightarrow> snd (clearReviewQueueLeases h i d) = d"
  by (simp add: clearReviewQueueLeases_def Let_def split: option.split)


lemma held_row:
  assumes "queue_held (jobId, headKey, till) d"
  obtains r where "queue_wf d" "row_get q_job_id jobId (queue d) = Some r" "is_active_state (q_state r)"
    "q_lease_expires_at r = Some till" "reviewQueueHeadKey r = headKey" "q_job_id r = jobId"
  using assms by (auto split: option.splits dest: row_get_SomeD)

lemma held_rowI:
  "queue_wf d \<Longrightarrow> row_get q_job_id jobId (queue d) = Some r \<Longrightarrow> is_active_state (q_state r) \<Longrightarrow>
   q_lease_expires_at r = Some till \<Longrightarrow> reviewQueueHeadKey r = headKey \<Longrightarrow> queue_held (jobId, headKey, till) d"
  by simp

lemma requeue_keeps_held:
  assumes "row_get q_job_id k (queue d) = Some r" "q_lease_expires_at r = Some till"
    "sql_datetime (ln_now i) < sql_datetime till"
  shows "row_get q_job_id k (lease_rows i d) = Some r"
  using assms by (simp add: lease_rows_def requeue_lapsed_def row_get_update_key queue_lease_lapsed_def)

lemma held_lease:
  assumes "queue_held (jobId, headKey, till) d" "sql_datetime (ln_now i) < sql_datetime till"
  shows "queue_held (jobId, headKey, till) (snd (leaseNextReviewQueueJobs h i uuid d))"
proof (rule held_row[OF assms(1)])
  fix r
  assume r: "queue_wf d" "row_get q_job_id jobId (queue d) = Some r" "is_active_state (q_state r)"
    "q_lease_expires_at r = Some till" "reviewQueueHeadKey r = headKey" "q_job_id r = jobId"
  have row: "row_get q_job_id jobId (lease_rows i d) = Some r"
    by (rule requeue_keeps_held[OF r(2,4) assms(2)])
  have "row_get q_job_id jobId (queue (snd (leaseNextReviewQueueJobs h i uuid d))) = Some r"
  proof (cases "leaseNextReviewQueueJobs h i uuid d")
    case (Pair res d')
    show ?thesis
    proof (cases res)
      case (Inl e)
      then show ?thesis using Pair r(2) by (auto simp: leaseNextReviewQueueJobs_def Let_def split: sum.splits)
    next
      case (Inr leased)
      with Pair have call: "leaseNextReviewQueueJobs h i uuid d = (Inr leased, d')" by simp
      show ?thesis
      proof (rule leaseNext_inv[OF r(1) call])
        fix ov st rest
        assume st: "leased = ls_leased st" "d' = d\<lparr>queue := ls_rows st\<rparr>"
          and "lease_inv i ov (active_jobs i (lease_jobs i d)) (lease_rows i d) (eligible_jobs h i (lease_jobs i d)) rest st"
        then have inv: "rows_inv i (lease_rows i d) (eligible_jobs h i (lease_jobs i d)) rest st"
          by (simp add: lease_inv_def)
        have "jobId \<notin> q_job_id ` set (ls_leased st)"
        proof
          assume "jobId \<in> q_job_id ` set (ls_leased st)"
          then obtain l where l: "l \<in> set (ls_leased st)" "q_job_id l = jobId" by auto
          from rows_inv_leased[OF inv l(1)] l(2) row have "is_leasable_state (q_state r)" by (metis option.inject)
          then show False using r(3) by (auto simp: is_leasable_state_def is_active_state_def)
        qed
        then show ?thesis using inv row Pair st(2) by (simp add: rows_inv_def)
      qed
    qed
  qed
  with r queue_wf_lease[OF r(1)] show ?thesis by (auto intro: held_rowI)
qed

lemma lease_head_of_held:
  assumes "queue_held (jobId, headKey, till) d" "sql_datetime (ln_now i) < sql_datetime till"
    and "list_all (\<lambda>rj. rj_job_id rj \<noteq> jobId \<or> rj_head_key rj = headKey) (ln_reserved i)"
  shows "headKey \<in> rj_head_key ` set (active_jobs i (lease_jobs i d))"
proof (rule held_row[OF assms(1)])
  fix r
  assume r: "row_get q_job_id jobId (queue d) = Some r" "is_active_state (q_state r)"
    "q_lease_expires_at r = Some till" "reviewQueueHeadKey r = headKey" "q_job_id r = jobId"
  have "row_get q_job_id jobId (lease_rows i d) = Some r"
    by (rule requeue_keeps_held[OF r(1,3) assms(2)])
  then have mem: "mapReviewQueueJobRow r \<in> set (lease_jobs i d)"
    by (auto simp: lease_jobs_def all_queue_jobs_def dest: row_get_SomeD)
  show ?thesis
  proof (cases "jobId \<in> rj_job_id ` set (ln_reserved i)")
    case True
    then show ?thesis using assms(3) by (auto simp: active_jobs_def list_all_iff image_iff)
  next
    case False
    then have "reserved_of (mapReviewQueueJobRow r) \<in> set (active_jobs i (lease_jobs i d))"
      using mem r(2,5) by (auto simp: active_jobs_def)
    moreover have "rj_head_key (reserved_of (mapReviewQueueJobRow r)) = headKey"
      using r(4) by (simp add: rj_head_key_def reserved_of_def reviewQueueHeadKey_def)
    ultimately show ?thesis by (metis imageI)
  qed
qed

lemma held_refused:
  assumes "queue_held (jobId, headKey, till) d" "queue_covers (jobId, headKey, till) q"
  shows "lease_refused q d"
proof -
  obtain h i uuid where q: "q = (headKey, QLease h i uuid)"
    "sql_datetime (ln_now i) < sql_datetime till"
    "list_all (\<lambda>rj. rj_job_id rj \<noteq> jobId \<or> rj_head_key rj = headKey) (ln_reserved i)"
  proof (cases q)
    case (Pair k op)
    then show thesis using assms(2) that by (cases op) auto
  qed
  have wf: "queue_wf d" using assms(1) by simp
  show ?thesis
  proof (cases "fst (leaseNextReviewQueueJobs h i uuid d)")
    case (Inl e)
    then show ?thesis by (simp add: q(1))
  next
    case (Inr leased)
    then have call: "leaseNextReviewQueueJobs h i uuid d = (Inr leased, snd (leaseNextReviewQueueJobs h i uuid d))"
      by (metis prod.collapse)
    have "rj_head_key ` set (active_jobs i (lease_jobs i d)) \<inter> reviewQueueHeadKey ` set leased = {}"
      using leaseNext_inv[OF wf call] by (metis caps_inv_def lease_inv_def)
    then show ?thesis using lease_head_of_held[OF assms(1) q(2,3)] Inr by (auto simp: q(1))
  qed
qed

interpretation queue_hold: exclusive_hold queue_held queue_step ends_queue_hold queue_covers lease_refused
proof unfold_locales
  fix k :: queue_hold and d op
  assume "queue_held k d" "\<not> ends_queue_hold k op"
  then show "queue_held k (queue_step op d)"
  proof (cases k)
    fix jobId headKey till
    assume k: "k = (jobId, headKey, till)" and held: "queue_held k d" and live: "\<not> ends_queue_hold k op"
    from held k obtain r where r: "queue_wf d" "row_get q_job_id jobId (queue d) = Some r" "is_active_state (q_state r)"
      "q_lease_expires_at r = Some till" "reviewQueueHeadKey r = headKey" "q_job_id r = jobId"
      using held_row by blast
    show "queue_held k (queue_step op d)"
    proof (cases op)
      case (QEnqueue i ids)
      have "row_get q_job_id jobId (queue (snd (enqueueReviewQueueJob i ids d))) = Some r"
        using r(2) by (simp add: enqueueReviewQueueJob_def Let_def row_get_append split: option.split)
      then show ?thesis using r queue_wf_enqueue[OF r(1)] by (auto simp: k QEnqueue intro: held_rowI)
    next
      case (QLease h i uuid)
      then show ?thesis using held_lease[of jobId headKey till d i h uuid] held live by (simp add: k)
    next
      case (QUpdate h u)
      have "row_get q_job_id jobId (queue (snd (updateReviewQueueJobState h u d))) = Some r"
        using r(2,6) live by (simp add: k QUpdate updateReviewQueueJobState_def Let_def row_get_update_key
            updated_queue_row_def split: option.split)
      then show ?thesis using r queue_wf_update[OF r(1)] by (auto simp: k QUpdate intro: held_rowI)
    next
      case (QPriority j p now)
      have "\<exists>r'. row_get q_job_id jobId (queue (snd (updateReviewQueueJobPriority j p now d))) = Some r' \<and>
          q_state r' = q_state r \<and> q_lease_expires_at r' = q_lease_expires_at r \<and>
          reviewQueueHeadKey r' = reviewQueueHeadKey r"
        using r(2) by (auto simp: updateReviewQueueJobPriority_def Let_def row_get_update_key
            reviewQueueHeadKey_def split: option.split)
      then show ?thesis using r queue_wf_priority[OF r(1)] by (auto simp: k QPriority intro: held_rowI)
    next
      case (QClear h i)
      then show ?thesis using held live clear_dry_run[of i h d] by (simp add: k)
    next
      case (QRetire repo pull head e now)
      have "row_get q_job_id jobId (queue (retireFailedReviewQueueJobs repo pull head e now d)) = Some r"
        using r(2,3) by (simp add: retireFailedReviewQueueJobs_def row_get_update_key is_active_state_def)
          (auto)
      then show ?thesis using r queue_wf_retire[OF r(1)] by (auto simp: k QRetire intro: held_rowI)
    qed
  qed
next
  fix k :: queue_hold and d q
  assume "queue_held k d" "queue_covers k q"
  then show "lease_refused q d" by (cases k) (auto intro: held_refused)
qed

text \<open>a pull head under an unexpired queue lease is not leased to a second review: until the lease
  lapses (at the granularity of a second), the job's state is updated or an operator clears leases,
  no lease call returns a job of that head, whatever queue operations run in between.\<close>

theorem leased_head_exclusive:
  assumes "queue_wf d" "leaseNextReviewQueueJobs h i uuid d = (Inr leased, d')" "l \<in> set leased"
    and "list_all (\<lambda>op. \<not> ends_queue_hold (q_job_id l, reviewQueueHeadKey l, ln_now i + ln_ttl i) op) ops"
    and "queue_covers (q_job_id l, reviewQueueHeadKey l, ln_now i + ln_ttl i) request"
  shows "lease_refused request (fold queue_step ops d')"
proof (rule queue_hold.run_refuses[OF _ assms(4,5)])
  have wf: "queue_wf d'" using queue_wf_lease[OF assms(1), of h i uuid] assms(2) by simp
  obtain r u where "row_get q_job_id (q_job_id l) (queue d') = Some (lease_of i u r)" "l = mapReviewQueueJobRow (lease_of i u r)"
  proof (rule leaseNext_inv[OF assms(1,2)])
    fix ov st rest
    assume st: "leased = ls_leased st" "d' = d\<lparr>queue := ls_rows st\<rparr>"
      and "lease_inv i ov (active_jobs i (lease_jobs i d)) (lease_rows i d) (eligible_jobs h i (lease_jobs i d)) rest st"
    then have inv: "rows_inv i (lease_rows i d) (eligible_jobs h i (lease_jobs i d)) rest st"
      by (simp add: lease_inv_def)
    from assms(3) st(1) have l: "l \<in> set (ls_leased st)" by simp
    show thesis
      by (rule rows_inv_leased[OF inv l], rule that) (simp_all add: st(2))
  qed
  with wf show "queue_held (q_job_id l, reviewQueueHeadKey l, ln_now i + ln_ttl i) d'"
    by (auto simp: is_active_state_def intro!: held_rowI)
qed

section \<open>Enqueueing is idempotent\<close>

lemma enqueue_row_simps [simp]:
  "q_job_id (enqueue_row i j a) = j" "q_attempt_id (enqueue_row i j a) = a" "q_state (enqueue_row i j a) = Q_queued"
  "q_priority (enqueue_row i j a) = en_priority_of i" "q_lane (enqueue_row i j a) = en_lane_of i"
  "q_source (enqueue_row i j a) = en_source_of i" "q_repo (enqueue_row i j a) = en_repo i"
  "q_pull (enqueue_row i j a) = en_pull i" "q_head (enqueue_row i j a) = en_head i"
  "q_org (enqueue_row i j a) = repoOrg (en_repo i)" "q_lease_id (enqueue_row i j a) = None"
  "q_created_at (enqueue_row i j a) = en_now i"
  by (simp_all add: enqueue_row_def Let_def)

lemma js_sort_Nil_iff: "js_sort cmp xs = [] \<longleftrightarrow> xs = []"
  using length_js_sort[of cmp xs] by (cases xs) (auto simp: js_sort_def)

lemma js_sort_single: "js_sort cmp [x] = [x]"
  by (simp add: js_sort_def)

lemma enqueue_enqueuedD:
  assumes "enqueueReviewQueueJob i ids d = (Inr (Enqueued job), d')"
  obtains a where "a = en_attempt_of i ids \<or>
      (a = en_attempt_of i ids @ '':after-terminal:'' @ id_retry ids \<and>
       (\<exists>e. row_get q_attempt_id (en_attempt_of i ids) (queue d) = Some e \<and> isTerminalQueueState (q_state e)) \<and>
       getActiveReviewQueueRetryJobByAttemptId (en_attempt_of i ids) d = None)"
    "job = mapReviewQueueJobRow (enqueue_row i (id_job ids) a)"
    "d' = d\<lparr>queue := queue d @ [enqueue_row i (id_job ids) a]\<rparr>"
    "row_get q_job_id (id_job ids) (queue d) = None" "row_get q_attempt_id a (queue d) = None"
  using assms
  by (auto simp: enqueueReviewQueueJob_def Let_def getReviewQueueJobByAttemptId_def
      split: option.splits if_splits)

text \<open>an enqueued job is stored as queued under its attempt, with the default lane and priority of
  its source, and leaves every other job alone; enqueueing the same attempt again, from any caller,
  stores nothing and returns that job, also when it is the retry of a terminal attempt.\<close>

theorem enqueue_idempotent:
  assumes "enqueueReviewQueueJob i ids d = (Inr (Enqueued job), d')"
    and "en_attempt_of i' ids' = en_attempt_of i ids"
    and "validateReviewQueueInput (en_repo i') (en_pull i') (en_head i') (en_priority i') (en_comment_id i') = None"
  shows "enqueueReviewQueueJob i' ids' d' = (Inr (AlreadyQueued job), d') \<and>
    getReviewQueueJob (id_job ids) d' = Some job \<and> q_state job = Q_queued \<and>
    q_priority job = or_default (en_priority i) (if q_lane job = QL_manual then 10 else 50) \<and>
    (k = id_job ids \<or> row_get q_job_id k (queue d') = row_get q_job_id k (queue d))"
proof (rule enqueue_enqueuedD[OF assms(1)])
  fix a
  let ?row = "enqueue_row i (id_job ids) a"
  assume a: "a = en_attempt_of i ids \<or>
      (a = en_attempt_of i ids @ '':after-terminal:'' @ id_retry ids \<and>
       (\<exists>e. row_get q_attempt_id (en_attempt_of i ids) (queue d) = Some e \<and> isTerminalQueueState (q_state e)) \<and>
       getActiveReviewQueueRetryJobByAttemptId (en_attempt_of i ids) d = None)"
    and job: "job = mapReviewQueueJobRow ?row" and d': "d' = d\<lparr>queue := queue d @ [?row]\<rparr>"
    and new: "row_get q_job_id (id_job ids) (queue d) = None" "row_get q_attempt_id a (queue d) = None"
  have again: "enqueueReviewQueueJob i' ids' d' = (Inr (AlreadyQueued job), d')"
    using a
  proof
    assume "a = en_attempt_of i ids"
    then have "getReviewQueueJobByAttemptId (en_attempt_of i' ids') d' = Some job"
      using new(2) by (simp add: getReviewQueueJobByAttemptId_def assms(2) d' row_get_append row_get_Cons job)
    then show ?thesis
      using assms(3) by (simp add: enqueueReviewQueueJob_def Let_def job isTerminalQueueState_def)
  next
    assume r: "a = en_attempt_of i ids @ '':after-terminal:'' @ id_retry ids \<and>
       (\<exists>e. row_get q_attempt_id (en_attempt_of i ids) (queue d) = Some e \<and> isTerminalQueueState (q_state e)) \<and>
       getActiveReviewQueueRetryJobByAttemptId (en_attempt_of i ids) d = None"
    then obtain e where e: "row_get q_attempt_id (en_attempt_of i ids) (queue d) = Some e" "isTerminalQueueState (q_state e)"
      by blast
    let ?P = "\<lambda>r. starts_with (en_attempt_of i ids @ '':after-terminal:'') (q_attempt_id r) \<and> q_state r \<in> set active_queue_states"
    have "js_sort (\<lambda>a b. sql_datetime (q_created_at b) - sql_datetime (q_created_at a)) (filter ?P (queue d)) = []"
      using r by (auto simp: getActiveReviewQueueRetryJobByAttemptId_def split: list.splits)
    then have none: "filter ?P (queue d) = []"
      by (simp only: js_sort_Nil_iff)
    have start: "starts_with (en_attempt_of i ids @ '':after-terminal:'') a"
      using r starts_with_append[of "en_attempt_of i ids @ '':after-terminal:''" "id_retry ids"] by simp
    have "getActiveReviewQueueRetryJobByAttemptId (en_attempt_of i' ids') d' = Some job"
      using none start
      by (simp add: getActiveReviewQueueRetryJobByAttemptId_def assms(2) d' job active_queue_states_def js_sort_single)
    moreover have "getReviewQueueJobByAttemptId (en_attempt_of i' ids') d' = Some (mapReviewQueueJobRow e)"
      using e by (simp add: getReviewQueueJobByAttemptId_def assms(2) d' row_get_append)
    ultimately show ?thesis
      using assms(3) e(2) by (simp add: enqueueReviewQueueJob_def Let_def)
  qed
  have get: "row_get q_job_id k (queue d') =
      (if k = id_job ids then Some ?row else row_get q_job_id k (queue d))" for k
    using new(1) by (cases "row_get q_job_id k (queue d)") (auto simp: d' row_get_append row_get_Cons)
  show ?thesis
    using again by (simp add: getReviewQueueJob_def get job en_priority_of_def)
qed

section \<open>Updating and clearing\<close>

text \<open>an update sets exactly the state of its job: a terminal state is stamped as finished, the first
  running state as started and never again, a queued, deferred, blocked or terminal state drops the
  lease unless the caller keeps it, and no other job changes.\<close>

theorem update_queue_job_effect:
  assumes "queue_wf d" "updateReviewQueueJobState h u d = (Inr job, d')"
  shows "\<exists>r. row_get q_job_id (qu_job_id u) (queue d) = Some r \<and>
    getReviewQueueJob (qu_job_id u) d' = Some job \<and> q_state job = qu_state u \<and>
    q_finished_at job = (if isTerminalQueueState (qu_state u) then Some (qu_now u) else q_finished_at r) \<and>
    q_started_at job = (case q_started_at r of Some t \<Rightarrow> Some t
        | None \<Rightarrow> if qu_state u = Q_running then Some (qu_now u) else None) \<and>
    (if qu_clear_lease u = None \<and> qu_state u \<notin> {Q_leased, Q_running}
     then q_lease_id job = None \<and> q_lease_expires_at job = None
     else True) \<and>
    (k = qu_job_id u \<or> row_get q_job_id k (queue d') = row_get q_job_id k (queue d)) \<and>
    d' = d\<lparr>queue := queue d'\<rparr> \<and> queue_wf d'"
proof -
  obtain r where r: "row_get q_job_id (qu_job_id u) (queue d) = Some r"
    using assms(2) by (auto simp: updateReviewQueueJobState_def getReviewQueueJob_def split: option.splits)
  have id: "q_job_id (updated_queue_row h u r) = q_job_id r" for r by (simp add: updated_queue_row_def)
  have d': "d' = d\<lparr>queue := row_update (\<lambda>r. q_job_id r = qu_job_id u) (updated_queue_row h u) (queue d)\<rparr>"
    and job: "job = the (getReviewQueueJob (qu_job_id u) d')"
    using assms(2) r by (auto simp: updateReviewQueueJobState_def getReviewQueueJob_def Let_def)
  have get: "row_get q_job_id k (queue d') = map_option (\<lambda>r. if q_job_id r = qu_job_id u then updated_queue_row h u r else r)
      (row_get q_job_id k (queue d))" for k
    by (simp add: d' row_get_update_key id)
  have job': "getReviewQueueJob (qu_job_id u) d' = Some job" "job = mapReviewQueueJobRow (updated_queue_row h u r)"
    using get[of "qu_job_id u"] r row_get_SomeD[OF r] by (simp_all add: getReviewQueueJob_def job)
  have others: "k = qu_job_id u \<or> row_get q_job_id k (queue d') = row_get q_job_id k (queue d)"
    using get[of k] by (cases "row_get q_job_id k (queue d)") (auto dest: row_get_SomeD)
  have wf: "queue_wf d'" using queue_wf_update[OF assms(1), of h u] assms(2) by simp
  have lease: "qu_clears u" if "qu_clear_lease u = None \<and> qu_state u \<notin> {Q_leased, Q_running}"
    using that by (cases "qu_state u") (auto simp: qu_clears_def isTerminalQueueState_def)
  show ?thesis
    using r job'(1) others wf lease
    by (intro exI[of _ r]) (auto simp: job'(2) mapReviewQueueJobRow_def updated_queue_row_def d' split: option.split)
qed


lemma requeued_by_operator_simps [simp]:
  "q_job_id (requeued_by_operator now c r) = q_job_id r" "q_attempt_id (requeued_by_operator now c r) = q_attempt_id r"
  "q_state (requeued_by_operator now c r) = Q_queued" "q_lease_id (requeued_by_operator now c r) = None"
  "q_lease_expires_at (requeued_by_operator now c r) = None"
  by (simp_all add: requeued_by_operator_def)

lemma requeue_candidate_get:
  "row_get q_job_id k (snd (requeue_candidate now c acc)) =
     map_option (\<lambda>r. if q_job_id r = q_job_id (qc_job c) \<and> is_active_state (q_state r)
       then requeued_by_operator now c r else r) (row_get q_job_id k (snd acc))"
  by (simp add: requeue_candidate_def Let_def row_get_update_key)

lemma requeue_candidate_ids: "map q_job_id (snd (requeue_candidate now c acc)) = map q_job_id (snd acc)"
  by (simp add: requeue_candidate_def Let_def row_update_def)

lemma requeue_fold_ids: "map q_job_id (snd (fold (requeue_candidate now) cs acc)) = map q_job_id (snd acc)"
proof (induction cs arbitrary: acc)
  case Nil
  then show ?case by simp
next
  case (Cons c cs)
  show ?case by (simp only: fold.simps comp_def Cons.IH requeue_candidate_ids)
qed

lemma requeue_fold_other:
  "(k \<notin> (\<lambda>c. q_job_id (qc_job c)) ` set cs \<or> \<not> is_active_state (q_state r)) \<Longrightarrow>
   row_get q_job_id k (snd acc) = Some r \<Longrightarrow>
   row_get q_job_id k (snd (fold (requeue_candidate now) cs acc)) = Some r"
proof (induction cs arbitrary: acc)
  case Nil
  then show ?case by simp
next
  case (Cons c cs)
  have "row_get q_job_id k (snd (requeue_candidate now c acc)) = Some r"
    using Cons.prems row_get_SomeD[OF Cons.prems(2)] by (auto simp: requeue_candidate_get)
  moreover have "k \<notin> (\<lambda>c. q_job_id (qc_job c)) ` set cs \<or> \<not> is_active_state (q_state r)"
    using Cons.prems(1) by auto
  ultimately show ?case using Cons.IH by simp
qed

lemma requeue_fold_hit:
  "k \<in> (\<lambda>c. q_job_id (qc_job c)) ` set cs \<Longrightarrow> row_get q_job_id k (snd acc) = Some r \<Longrightarrow>
   is_active_state (q_state r) \<Longrightarrow>
   \<exists>r'. row_get q_job_id k (snd (fold (requeue_candidate now) cs acc)) = Some r' \<and>
     q_state r' = Q_queued \<and> q_lease_id r' = None \<and> q_lease_expires_at r' = None"
proof (induction cs arbitrary: acc)
  case Nil
  then show ?case by simp
next
  case (Cons c cs)
  have id: "q_job_id r = k" using row_get_SomeD[OF Cons.prems(2)] by simp
  show ?case
  proof (cases "q_job_id (qc_job c) = k")
    case True
    let ?r = "requeued_by_operator now c r"
    have "row_get q_job_id k (snd (requeue_candidate now c acc)) = Some ?r"
      using True id Cons.prems(2,3) by (simp add: requeue_candidate_get)
    from requeue_fold_other[OF _ this, of cs now] show ?thesis
      by (simp add: is_active_state_def)
  next
    case False
    then have "row_get q_job_id k (snd (requeue_candidate now c acc)) = Some r"
      using id Cons.prems(2) by (simp add: requeue_candidate_get)
    moreover have "k \<in> (\<lambda>c. q_job_id (qc_job c)) ` set cs" using Cons.prems(1) False by auto
    ultimately show ?thesis using Cons.IH Cons.prems(3) by simp
  qed
qed

lemma clear_jobs_active:
  assumes "queue_wf d" "c \<in> set (listReviewQueueLeaseClearCandidates i ids d)"
  obtains r where "row_get q_job_id (q_job_id (qc_job c)) (queue d) = Some r" "is_active_state (q_state r)"
    "qc_job c = mapReviewQueueJobRow r"
proof -
  obtain j where j: "j \<in> set (all_queue_jobs d)" "is_active_state (q_state j)" "qc_job c = j"
    using assms(2) by (auto simp: listReviewQueueLeaseClearCandidates_def queue_clear_candidate_of_def Let_def)
  then obtain r where r: "r \<in> set (queue d)" "j = mapReviewQueueJobRow r"
    by (auto simp: all_queue_jobs_def)
  have "row_get q_job_id (q_job_id r) (queue d) = Some r"
    using assms(1) r(1) by (intro unique_rows_get) (simp add: queue_wf_def)
  with that[of r] r j show thesis by simp
qed

text \<open>clearing queue leases without the operator's confirmation changes nothing; confirmed, it puts
  exactly the reported jobs back to queued without a lease, leaves every other job as it was, and
  reports an unexpired job only when active leases are forced and not only expired ones requested.\<close>

theorem clear_queue_leases_effect:
  assumes "queue_wf d" "clearReviewQueueLeases h i d = (Inr res, d')"
  shows "(if or_default (cl_dry_run i) True then d' = d \<and> cr_requeued res = 0 \<and> cr_deleted_run_leases res = 0
     else if k \<in> (\<lambda>c. q_job_id (qc_job c)) ` set (cr_jobs res)
     then \<exists>r r'. row_get q_job_id k (queue d) = Some r \<and> is_active_state (q_state r) \<and>
        row_get q_job_id k (queue d') = Some r' \<and> q_state r' = Q_queued \<and>
        q_lease_id r' = None \<and> q_lease_expires_at r' = None
     else row_get q_job_id k (queue d') = row_get q_job_id k (queue d)) \<and>
    list_all (\<lambda>c. qc_expired c \<or> (or_default (cl_force_active i) False \<and> cl_expired_only i = Some False)) (cr_jobs res)"
proof -
  let ?stale = "map rc_lease_id (filter (\<lambda>l. rc_stale_reason l \<noteq> None) (listReviewRunLeaseClearCandidates h (cl_now i) d))"
  let ?jobs = "listReviewQueueLeaseClearCandidates i ?stale d"
  have jobs: "cr_jobs res = ?jobs"
    using assms(2) by (auto simp: clearReviewQueueLeases_def Let_def split: option.splits)
  have q: "queue d' = (if or_default (cl_dry_run i) True then queue d
      else snd (fold (requeue_candidate (cl_now i)) ?jobs (0, queue d)))"
    using assms(2) by (auto simp: clearReviewQueueLeases_def Let_def split: option.splits)
  have flags: "list_all (\<lambda>c. qc_expired c \<or> (or_default (cl_force_active i) False \<and> cl_expired_only i = Some False)) ?jobs"
    by (cases "cl_expired_only i") (auto simp: listReviewQueueLeaseClearCandidates_def list_all_iff)
  show ?thesis
  proof (cases "or_default (cl_dry_run i) True")
    case True
    then have "d' = d" using clear_dry_run[of i h d] assms(2) by simp
    moreover have "cr_requeued res = 0 \<and> cr_deleted_run_leases res = 0"
      using assms(2) True by (auto simp: clearReviewQueueLeases_def Let_def split: option.splits)
    ultimately show ?thesis using True flags jobs by simp
  next
    case False
    show ?thesis
    proof (cases "k \<in> (\<lambda>c. q_job_id (qc_job c)) ` set ?jobs")
      case hit: True
      then obtain c where c: "c \<in> set ?jobs" "k = q_job_id (qc_job c)" by auto
      obtain r where r: "row_get q_job_id k (queue d) = Some r" "is_active_state (q_state r)"
        unfolding c(2) by (rule clear_jobs_active[OF assms(1) c(1)])
      have q': "queue d' = snd (fold (requeue_candidate (cl_now i)) ?jobs (0, queue d))"
        using False by (simp only: q if_False)
      obtain r' where r': "row_get q_job_id k (queue d') = Some r'" "q_state r' = Q_queued" "q_lease_id r' = None"
        "q_lease_expires_at r' = None"
        using requeue_fold_hit[OF hit _ r(2), of "(0, queue d)" "cl_now i"] r(1) unfolding q' by auto
      from r r' have "\<exists>r r'. row_get q_job_id k (queue d) = Some r \<and> is_active_state (q_state r) \<and>
          row_get q_job_id k (queue d') = Some r' \<and> q_state r' = Q_queued \<and>
          q_lease_id r' = None \<and> q_lease_expires_at r' = None" by blast
      with hit flags False show ?thesis by (simp only: jobs if_False if_True simp_thms)
    next
      case miss: False
      then have "row_get q_job_id k (queue d') = row_get q_job_id k (queue d)"
      proof (cases "row_get q_job_id k (queue d)")
        case None
        have "map q_job_id (queue d') = map q_job_id (queue d)"
          unfolding q using requeue_fold_ids[of "cl_now i" ?jobs "(0, queue d)"] by (simp only: snd_conv if_cancel split: if_split) blast
        then have "q_job_id ` set (queue d') = q_job_id ` set (queue d)" by (metis image_set)
        then have "row_get q_job_id k (queue d') = None"
          using None by (simp add: row_get_None_iff)
        with None show ?thesis by simp
      next
        case (Some r)
        with miss False show ?thesis
          using requeue_fold_other[of k ?jobs r "(0, queue d)" "cl_now i"] by (simp add: q)
      qed
      with miss False flags show ?thesis by (simp add: jobs)
    qed
  qed
qed

section \<open>Retiring\<close>

lemma squash_reason_chars: "list_all is_reason_char (squash_reason b s)"
  by (induction b s rule: squash_reason.induct) (auto simp: is_reason_char_def)

lemma list_all_dropWhile: "list_all P xs \<Longrightarrow> list_all P (dropWhile Q xs)"
  by (auto simp: list_all_iff dest: set_dropWhileD)

text \<open>a normalised retirement reason is never empty, has at most 80 characters, and all of them are
  lower-case letters, digits, dots, underscores or dashes, whatever the operator typed.\<close>

theorem retirement_reason_safe:
  "let n = normalizeRetirementReason reason in 1 \<le> length n \<and> length n \<le> 80 \<and> list_all is_reason_char n"
proof -
  have "list_all is_reason_char (strip_underscores (squash_reason False s))" for s
    by (simp add: strip_underscores_def list_all_dropWhile squash_reason_chars list_all_rev)
  then have "list_all is_reason_char (take 80 (strip_underscores (squash_reason False (to_lower (trim reason)))))"
    by (auto simp: list_all_iff dest: in_set_takeD)
  moreover have "list_all is_reason_char ''operator_acknowledged''" by code_simp
  ultimately show ?thesis
    by (auto simp: normalizeRetirementReason_def Let_def Suc_le_eq)
qed

lemma row_update_none:
  "(\<And>r. P r \<Longrightarrow> \<not> Q (f r)) \<Longrightarrow> (\<And>r. Q r \<Longrightarrow> P r) \<Longrightarrow> \<not> list_ex Q (row_update P f rows)"
  by (induction rows) (auto simp: row_update_def)

lemma retire_jobs_none_failed:
  "\<not> list_ex (\<lambda>j. q_repo j = repo \<and> q_pull j = pull \<and> q_head j = head \<and> q_state j = Q_failed)
     (queue (retireFailedReviewQueueJobs repo pull head e now d))"
  unfolding retireFailedReviewQueueJobs_def
  by (simp, rule row_update_none) simp_all

lemma retire_jobs_idle:
  "\<not> list_ex (\<lambda>j. q_repo j = repo \<and> q_pull j = pull \<and> q_head j = head \<and> q_state j = Q_failed) (queue d) \<Longrightarrow>
   retireFailedReviewQueueJobs repo pull head e now d = d"
  unfolding retireFailedReviewQueueJobs_def
  by (subst row_update_noop) (auto simp: list_ex_iff)

lemma processed_retire_jobs [simp]:
  "getProcessedReview r p h (retireFailedReviewQueueJobs repo pull head e now d) = getProcessedReview r p h d"
  by (simp add: getProcessedReview_def retireFailedReviewQueueJobs_def)

text \<open>retiring a failed head leaves its processed row skipped under a retired-failed-head error and no
  failed queue job of the head; retiring it again changes nothing, and a refused retirement changes
  nothing either.\<close>

theorem retire_failed_review_effect:
  assumes "retireFailedReview h repo pull head reason c1 c2 d = (res, d')"
  shows "case res of Inl e \<Rightarrow> d' = d \<and> e \<in> {NoSuchReview} \<union> NotRetirable ` {P_dry_run, P_posted, P_skipped}
    | Inr p \<Rightarrow> getProcessedReview repo pull head d' = Some p \<and> pr_status p = P_skipped \<and>
        (\<exists>e. pr_error p = Some e \<and> starts_with RETIRED_FAILED_HEAD_PREFIX e) \<and>
        \<not> list_ex (\<lambda>j. q_repo j = repo \<and> q_pull j = pull \<and> q_head j = head \<and> q_state j = Q_failed) (queue d') \<and>
        retireFailedReview h repo pull head reason' c1' c2' d' = (Inr p, d')"
proof -
  have again: "retireFailedReview h repo pull head reason' c1' c2' d2 = (Inr p, d2)"
    if "getProcessedReview repo pull head d2 = Some p" "pr_status p = P_skipped" "pr_error p = Some e"
      "starts_with RETIRED_FAILED_HEAD_PREFIX e"
      "\<not> list_ex (\<lambda>j. q_repo j = repo \<and> q_pull j = pull \<and> q_head j = head \<and> q_state j = Q_failed) (queue d2)" for d2 p e
    using that retire_jobs_idle[OF that(5)] by (simp add: retireFailedReview_def)
  show ?thesis
  proof (cases "getProcessedReview repo pull head d")
    case None
    with assms show ?thesis by (auto simp: retireFailedReview_def)
  next
    case (Some p)
    show ?thesis
    proof (cases "pr_status p = P_failed")
      case False
      show ?thesis
      proof (cases "pr_status p = P_skipped \<and> (\<exists>e. pr_error p = Some e \<and> starts_with RETIRED_FAILED_HEAD_PREFIX e)")
        case True
        then obtain e where e: "pr_error p = Some e" "starts_with RETIRED_FAILED_HEAD_PREFIX e" "pr_status p = P_skipped" by blast
        then have "res = Inr p" "d' = retireFailedReviewQueueJobs repo pull head e c2 d"
          using assms Some by (auto simp: retireFailedReview_def)
        then show ?thesis
          using Some e again[of d' p e] retire_jobs_none_failed[of repo pull head e c2 d] by simp
      next
        case nope: False
        then show ?thesis using assms Some False
          by (cases "pr_status p"; cases "pr_error p") (auto simp: retireFailedReview_def split: if_splits)
      qed
    next
      case True
      let ?e = "buildRetiredFailedHeadError h (normalizeRetirementReason reason) (pr_error p)"
      have st: "starts_with RETIRED_FAILED_HEAD_PREFIX ?e" by (simp add: buildRetiredFailedHeadError_def)
      let ?r = "\<lparr>pr_repo = repo, pr_pull = pull, pr_head = head,
                           pr_status = P_skipped, pr_config_revision = None, pr_base_ref = None,
                           pr_base_sha = None, pr_diff_fingerprint = None, pr_carried_from_head = None,
                           pr_event = None, pr_review_url = None, pr_error = Some ?e\<rparr>"
      let ?d1 = "recordProcessed ?r c1 d"
      have d': "d' = retireFailedReviewQueueJobs repo pull head ?e c2 ?d1"
        and res: "res = Inr (the (getProcessedReview repo pull head d'))"
        using assms Some True by (auto simp: retireFailedReview_def Let_def)
      obtain r0 where r0: "row_get pr_key (repo, pull, head) (processed d) = Some r0" "pr_status r0 = P_failed"
        using Some True by (auto simp: getProcessedReview_def)
      have "pr_key ?r = (repo, pull, head)" by (simp add: pr_key_def)
      then obtain q where q: "getProcessedReview repo pull head ?d1 = Some q" "pr_status q = P_skipped" "pr_error q = truthy (Some ?e)"
        using r0 by (auto simp: getProcessedReview_def recordProcessed_row merge_processed_def)
      have "truthy (Some ?e) = Some ?e" using st by (cases ?e) (auto simp: RETIRED_FAILED_HEAD_PREFIX_def)
      with q have "getProcessedReview repo pull head d' = Some q" "pr_error q = Some ?e" by (simp_all add: d')
      then show ?thesis
        using q(2) st again[of d' q ?e] retire_jobs_none_failed[of repo pull head ?e c2 ?d1, folded d']
        by (simp add: res)
    qed
  qed
qed

section \<open>Examples\<close>

definition ex_enqueue :: enqueue_input where
  "ex_enqueue = \<lparr>en_repo = ''o/r'', en_pull = 1, en_head = ''h1'', en_base_sha = None, en_source = None,
     en_lane = None, en_provider_id = None, en_priority = None, en_attempt_id = None, en_comment_id = None,
     en_session_id = None, en_now = 0\<rparr>"

definition ex_ids :: "string \<Rightarrow> enqueue_ids" where
  "ex_ids j = \<lparr>id_attempt = ''a'' @ j, id_retry = ''t'' @ j, id_job = j\<rparr>"

text \<open>An old background job, a fresh manual one of another repository, and a second old job.\<close>

definition ex_queue :: db where
  "ex_queue = fold queue_step
     [QEnqueue ex_enqueue (ex_ids ''j1''),
      QEnqueue (ex_enqueue\<lparr>en_repo := ''o/s'', en_source := Some QS_manual_command, en_comment_id := Some 5,
                 en_now := 590000\<rparr>) (ex_ids ''j2''),
      QEnqueue (ex_enqueue\<lparr>en_pull := 2, en_now := 1000\<rparr>) (ex_ids ''j3'')] empty_db"

definition ex_lease :: lease_next_input where
  "ex_lease = \<lparr>ln_max_global = None, ln_max_provider = 2, ln_max_org = 3, ln_max_repo = 1,
     ln_max_repo_by_repo = [(''O/R'', 2)], ln_manual_reserve = None, ln_exclude_job_ids = [], ln_reserved = [],
     ln_limit = None, ln_lease_ttl_ms = None, ln_aging = Some \<lparr>ag_enabled = True, ag_max_wait_minutes = 5\<rparr>,
     ln_now = 600000\<rparr>"

definition ex_uuid :: "nat \<Rightarrow> string" where
  "ex_uuid n = ''lease'' @ string_of_int (int n)"

definition ex_leased :: "queue_job list" where
  "ex_leased = projr (fst (leaseNextReviewQueueJobs ex_host ex_lease ex_uuid ex_queue))"

definition ex_leased_db :: db where
  "ex_leased_db = snd (leaseNextReviewQueueJobs ex_host ex_lease ex_uuid ex_queue)"

lemma ex_queue_wf: "queue_wf ex_queue"
  by code_simp

lemma ex_lease_call: "leaseNextReviewQueueJobs ex_host ex_lease ex_uuid ex_queue = (Inr ex_leased, ex_leased_db)"
proof -
  have "\<not> isl (fst (leaseNextReviewQueueJobs ex_host ex_lease ex_uuid ex_queue))" by code_simp
  then show ?thesis
    by (cases "leaseNextReviewQueueJobs ex_host ex_lease ex_uuid ex_queue")
      (auto simp: ex_leased_def ex_leased_db_def)
qed

lemma ex_leased_ids: "map q_job_id ex_leased = [''j1'', ''j3'']"
  by code_simp

theorem lease_respects_caps_witness:
  "int (length (active_jobs ex_lease (lease_jobs ex_lease ex_queue))) + int (length ex_leased) \<le> 2 \<and>
   map q_job_id ex_leased = [''j1'', ''j3'']"
proof -
  have "ex_leased \<noteq> []" using ex_leased_ids by auto
  moreover have "ln_global ex_lease = 2" by code_simp
  ultimately show ?thesis
    using lease_respects_caps[OF ex_queue_wf ex_lease_call] ex_leased_ids by (auto simp: Let_def)
qed

theorem lease_effect_witness:
  "row_get q_job_id ''j2'' (queue ex_leased_db) = row_get q_job_id ''j2'' (lease_rows ex_lease ex_queue)"
proof -
  have "''j2'' \<notin> q_job_id ` set ex_leased" by code_simp
  with lease_effect[OF ex_queue_wf ex_lease_call, of "''j2''"] show ?thesis by blast
qed

theorem lease_in_order_witness:
  "sorted_wrt (\<lambda>x y. buildLeaseComparator (ln_aging ex_lease) (ln_now ex_lease) x y \<le> 0) ex_leased"
  by (rule lease_in_order[OF ex_queue_wf ex_lease_call])

text \<open>A call that leases one job: of the two starving jobs the older one.\<close>

definition ex_one :: lease_next_input where
  "ex_one = ex_lease\<lparr>ln_limit := Some 1\<rparr>"

definition ex_one_leased :: "queue_job list" where
  "ex_one_leased = projr (fst (leaseNextReviewQueueJobs ex_host ex_one ex_uuid ex_queue))"

definition ex_starving :: queue_job where
  "ex_starving = the (getReviewQueueJob ''j3'' ex_queue)"

theorem starving_job_not_overtaken_witness:
  "map q_job_id ex_one_leased = [''j1''] \<and>
   (\<exists>ahead later. ex_one_leased = ahead @ later \<and> (\<forall>x \<in> set ahead. isRescued 5 600000 x \<and> q_created_at x \<le> q_created_at ex_starving))"
proof -
  have "\<not> isl (fst (leaseNextReviewQueueJobs ex_host ex_one ex_uuid ex_queue))" by code_simp
  then obtain d' where call: "leaseNextReviewQueueJobs ex_host ex_one ex_uuid ex_queue = (Inr ex_one_leased, d')"
    by (cases "leaseNextReviewQueueJobs ex_host ex_one ex_uuid ex_queue") (auto simp: ex_one_leased_def)
  have n: "ln_now ex_one = 600000" "ag_max_wait_minutes \<lparr>ag_enabled = True, ag_max_wait_minutes = 5\<rparr> = 5"
    "map q_job_id ex_one_leased = [''j1'']" "q_job_id ex_starving \<notin> q_job_id ` set ex_one_leased"
    by code_simp+
  have "ex_starving \<in> set (lease_jobs ex_one ex_queue)" "isQueueJobEligible ex_host (ln_now ex_one) ex_starving"
    "q_job_id ex_starving \<notin> set (ln_exclude_job_ids ex_one)"
    "ln_aging ex_one = Some \<lparr>ag_enabled = True, ag_max_wait_minutes = 5\<rparr>"
    "ag_enabled \<lparr>ag_enabled = True, ag_max_wait_minutes = 5\<rparr>"
    "isRescued (ag_max_wait_minutes \<lparr>ag_enabled = True, ag_max_wait_minutes = 5\<rparr>) (ln_now ex_one) ex_starving"
    by code_simp+
  from starving_job_not_overtaken[OF ex_queue_wf call this] n show ?thesis by auto
qed

theorem leased_head_exclusive_witness:
  "lease_refused (reviewQueueHeadKey (hd ex_leased), QLease ex_host (ex_lease\<lparr>ln_now := 700000\<rparr>) ex_uuid)
     (fold queue_step [QEnqueue (ex_enqueue\<lparr>en_head := ''H1''\<rparr>) (ex_ids ''j4''),
        QLease ex_host (ex_lease\<lparr>ln_now := 650000\<rparr>) ex_uuid] ex_leased_db)"
proof (rule leased_head_exclusive[OF ex_queue_wf ex_lease_call])
  have "ex_leased \<noteq> []" using ex_leased_ids by auto
  then show "hd ex_leased \<in> set ex_leased" by simp
qed code_simp+

theorem enqueue_idempotent_witness:
  "enqueueReviewQueueJob (ex_enqueue\<lparr>en_now := 9\<rparr>) (ex_ids ''j9'')
     (snd (enqueueReviewQueueJob ex_enqueue (ex_ids ''j1'') empty_db)) =
   (Inr (AlreadyQueued (mapReviewQueueJobRow (enqueue_row ex_enqueue ''j1'' (en_attempt_of ex_enqueue (ex_ids ''j1''))))),
    snd (enqueueReviewQueueJob ex_enqueue (ex_ids ''j1'') empty_db))"
  by (rule enqueue_idempotent[of ex_enqueue "ex_ids ''j1''" empty_db, THEN conjunct1]) code_simp+

definition ex_update :: queue_update where
  "ex_update = \<lparr>qu_job_id = ''j1'', qu_state = Q_posted, qu_next_eligible_at = None, qu_lease_id = None,
     qu_lease_expires_at = None, qu_clear_lease = None, qu_session_id = None, qu_review_url = Some ''u'',
     qu_last_error = None, qu_now = 700000\<rparr>"

theorem update_queue_job_effect_witness:
  "queue_wf (snd (updateReviewQueueJobState ex_host ex_update ex_queue))"
proof -
  have "updateReviewQueueJobState ex_host ex_update ex_queue =
      (Inr (projr (fst (updateReviewQueueJobState ex_host ex_update ex_queue))),
       snd (updateReviewQueueJobState ex_host ex_update ex_queue))"
    by code_simp
  from update_queue_job_effect[OF ex_queue_wf this] show ?thesis by blast
qed

definition ex_clear :: clear_input where
  "ex_clear = \<lparr>cl_now = 99000000, cl_ttl_ms = None, cl_expired_only = None, cl_dry_run = Some False, cl_repo = None,
     cl_pull = None, cl_job_id = Some ''j1'', cl_force_active = None\<rparr>"

theorem clear_queue_leases_effect_witness:
  "row_get q_job_id ''j3'' (queue (snd (clearReviewQueueLeases ex_host ex_clear ex_leased_db))) =
   row_get q_job_id ''j3'' (queue ex_leased_db)"
proof -
  let ?c = "clearReviewQueueLeases ex_host ex_clear ex_leased_db"
  have wf: "queue_wf ex_leased_db" by code_simp
  have "\<not> isl (fst ?c)" by code_simp
  then have "?c = (Inr (projr (fst ?c)), snd ?c)" by (cases ?c) auto
  moreover have "''j3'' \<notin> (\<lambda>c. q_job_id (qc_job c)) ` set (cr_jobs (projr (fst ?c)))" by code_simp
  moreover have "\<not> or_default (cl_dry_run ex_clear) True" by code_simp
  ultimately show ?thesis
    using clear_queue_leases_effect[OF wf, of ex_host ex_clear _ _ "''j3''"] by (metis (no_types, lifting))
qed

definition ex_failed :: db where
  "ex_failed = recordProcessed (ex_record\<lparr>pr_status := P_failed, pr_error := Some ''boom''\<rparr>) 1000 empty_db"

theorem retire_failed_review_effect_witness:
  "retireFailedReview ex_host ''o/r'' 7 ''h1'' ''again'' 3 4
     (snd (retireFailedReview ex_host ''o/r'' 7 ''h1'' ''Known issue!'' 1 2 ex_failed)) =
   retireFailedReview ex_host ''o/r'' 7 ''h1'' ''other'' 5 6
     (snd (retireFailedReview ex_host ''o/r'' 7 ''h1'' ''Known issue!'' 1 2 ex_failed))"
proof -
  let ?c = "retireFailedReview ex_host ''o/r'' 7 ''h1'' ''Known issue!'' 1 2 ex_failed"
  have "\<not> isl (fst ?c)" by code_simp
  then have c: "?c = (Inr (projr (fst ?c)), snd ?c)" by (cases ?c) auto
  from retire_failed_review_effect[OF c, of "''again''" 3 4] retire_failed_review_effect[OF c, of "''other''" 5 6]
  show ?thesis by simp
qed

end
