(* ===== verification/ReviewerSessions.thy ===== *)
theory ReviewerSessions
  imports StoreModel
begin

text \<open>
  The sticky reviewer sessions of \<open>src/src/state.ts\<close>: heads of a repository are assigned to a session
  until its head budget is used up, its time is over or its worker dies.
\<close>

section \<open>Reading\<close>

definition getReviewerSession :: "string \<Rightarrow> db \<Rightarrow> session_row option" where
  "getReviewerSession sid d = map_option mapReviewerSessionRow (row_get rs_session_id sid (sessions d))"

definition getReviewerSessionJob :: "string \<Rightarrow> int \<Rightarrow> string \<Rightarrow> db \<Rightarrow> session_job_row option" where
  "getReviewerSessionJob repo pull head d = row_get sj_key (repo, pull, head) (session_jobs d)"

definition hasReviewerSessionForRepo :: "string \<Rightarrow> db \<Rightarrow> bool" where
  "hasReviewerSessionForRepo repo d \<longleftrightarrow> (\<exists>s \<in> set (sessions d). rs_repo s = repo)"

definition last_used_desc :: "session_row \<Rightarrow> session_row \<Rightarrow> int" where
  "last_used_desc a b = sql_datetime (rs_last_used_at b) - sql_datetime (rs_last_used_at a)"

definition session_usable :: "int \<Rightarrow> session_row \<Rightarrow> bool" where
  "session_usable now s \<longleftrightarrow> (rs_state s = S_active \<or> rs_state s = S_warming) \<and> now < rs_expires_at s
     \<and> rs_head_count_used s < rs_head_count_limit s"

definition listReviewerSessions ::
  "string option \<Rightarrow> session_state option \<Rightarrow> bool \<Rightarrow> int \<Rightarrow> db \<Rightarrow> session_row list" where
  "listReviewerSessions repo state activeOnly now d =
     filter (\<lambda>s. \<not> activeOnly \<or> session_usable now s)
       (filter (\<lambda>s. case state of None \<Rightarrow> True | Some st \<Rightarrow> rs_state s = st)
         (map mapReviewerSessionRow (js_sort last_used_desc
           (case truthy repo of None \<Rightarrow> sessions d | Some r \<Rightarrow> filter (\<lambda>s. rs_repo s = r) (sessions d)))))"

section \<open>Expiry and dead workers\<close>

definition is_open_state :: "session_state \<Rightarrow> bool" where
  "is_open_state s \<longleftrightarrow> s = S_warming \<or> s = S_active \<or> s = S_draining"

definition session_lapsed :: "int \<Rightarrow> string option \<Rightarrow> session_row \<Rightarrow> bool" where
  "session_lapsed now repo s \<longleftrightarrow> (case truthy repo of None \<Rightarrow> True | Some r \<Rightarrow> rs_repo s = r)
     \<and> is_open_state (rs_state s)
     \<and> (rs_expires_at s \<le> now
        \<or> ((rs_state s = S_warming \<or> rs_state s = S_active) \<and> rs_head_count_limit s \<le> rs_head_count_used s))"

definition expireReviewerSessions :: "int \<Rightarrow> string option \<Rightarrow> db \<Rightarrow> int \<times> db" where
  "expireReviewerSessions now repo d =
     (int (row_count (session_lapsed now repo) (sessions d)),
      d\<lparr>sessions := row_update (session_lapsed now repo) (\<lambda>s. s\<lparr>rs_state := S_expired\<rparr>) (sessions d)\<rparr>)"

definition failed_session :: "int \<Rightarrow> session_row \<Rightarrow> session_row" where
  "failed_session pid s =
     s\<lparr>rs_state := S_failed, rs_last_error := Some (''owner_pid_not_alive:'' @ string_of_int pid)\<rparr>"

definition fail_session :: "string \<Rightarrow> int \<Rightarrow> db \<Rightarrow> db" where
  "fail_session sid pid d = d\<lparr>sessions := row_update (\<lambda>s. rs_session_id s = sid)
     (failed_session pid) (sessions d)\<rparr>"

fun fail_dead_workers :: "host \<Rightarrow> (string \<times> int) list \<Rightarrow> int \<times> db \<Rightarrow> int \<times> db" where
  "fail_dead_workers h [] acc = acc"
| "fail_dead_workers h ((sid, pid) # rest) (n, d) =
     (if alive h pid then fail_dead_workers h rest (n, d)
      else fail_dead_workers h rest
        (n + int (row_count (\<lambda>s. rs_session_id s = sid) (sessions d)), fail_session sid pid d))"

definition reconcileReviewerSessions :: "host \<Rightarrow> int \<Rightarrow> string option \<Rightarrow> db \<Rightarrow> (int \<times> int) \<times> db" where
  "reconcileReviewerSessions h now repo d =
     (let (expired, d1) = expireReviewerSessions now repo d;
          rows = List.map_filter (\<lambda>s. if (case truthy repo of None \<Rightarrow> True | Some r \<Rightarrow> rs_repo s = r)
                      \<and> is_open_state (rs_state s)
                    then map_option (Pair (rs_session_id s)) (rs_worker_pid s) else None) (sessions d1);
          (failed, d2) = fail_dead_workers h rows (0, d1)
      in ((expired, failed), d2))"

section \<open>Assigning heads\<close>

record assign_input =
  as_repo :: string
  as_pull :: int
  as_head :: string
  as_ttl_ms :: int
  as_head_count_limit :: int
  as_now :: int
  as_worker_pid :: "int option"
  as_model :: "string option"
  as_provider :: "string option"
  as_zcode_cli_version :: "string option"
  as_repo_family :: "string option"
  as_reason :: "assignment_reason option"
  as_allow_processed :: bool

datatype assign_result =
    AlreadyProcessed
  | AlreadyAssigned "session_row option" session_job_row
  | Assigned session_row session_job_row assignment_reason

definition validateReviewerSessionInput :: "int \<Rightarrow> int \<Rightarrow> int option \<Rightarrow> store_error option" where
  "validateReviewerSessionInput ttlMs headCountLimit workerPid =
     (if ttlMs < 1 then Some (BadLimit ''ttlMs'')
      else if headCountLimit < 1 then Some (BadLimit ''headCountLimit'')
      else if (case workerPid of None \<Rightarrow> False | Some p \<Rightarrow> p < 1) then Some (BadLimit ''workerPid'')
      else None)"

fun pick_reusable :: "host \<Rightarrow> session_row list \<Rightarrow> db \<Rightarrow> session_row option \<times> db" where
  "pick_reusable h [] d = (None, d)"
| "pick_reusable h (row # rows) d =
     (let session = mapReviewerSessionRow row
      in case rs_worker_pid session of
           None \<Rightarrow> (Some session, d)
         | Some pid \<Rightarrow> if alive h pid then (Some session, d)
                       else pick_reusable h rows (fail_session (rs_session_id session) pid d))"

definition getReusableReviewerSession :: "host \<Rightarrow> string \<Rightarrow> int \<Rightarrow> db \<Rightarrow> session_row option \<times> db" where
  "getReusableReviewerSession h repo now d =
     pick_reusable h (js_sort last_used_desc
       (filter (\<lambda>s. rs_repo s = repo \<and> session_usable now s) (sessions d))) d"

definition new_session_row :: "assign_input \<Rightarrow> int \<Rightarrow> string \<Rightarrow> session_row" where
  "new_session_row i pid sid = \<lparr>rs_session_id = sid, rs_repo = as_repo i, rs_repo_family = as_repo_family i,
     rs_state = S_active, rs_started_at = as_now i, rs_last_used_at = as_now i,
     rs_expires_at = as_now i + as_ttl_ms i, rs_head_count_used = 0,
     rs_head_count_limit = as_head_count_limit i, rs_worker_pid = Some (or_default (as_worker_pid i) pid),
     rs_model = as_model i, rs_provider = as_provider i, rs_zcode_cli_version = as_zcode_cli_version i,
     rs_memory_packet_sha = None, rs_gitnexus_packet_sha = None, rs_last_error = None\<rparr>"

definition createReviewerSession :: "session_row \<Rightarrow> db \<Rightarrow> session_row outcome" where
  "createReviewerSession row d =
     (if row_get rs_session_id (rs_session_id row) (sessions d) \<noteq> None then (Inl UniqueViolation, d)
      else (let d' = d\<lparr>sessions := sessions d @ [row]\<rparr>
            in (Inr (the (getReviewerSession (rs_session_id row) d')), d')))"

definition new_session_job :: "assign_input \<Rightarrow> string \<Rightarrow> assignment_reason \<Rightarrow> session_job_row" where
  "new_session_job i sid reason = \<lparr>sj_session_id = sid, sj_repo = as_repo i, sj_pull = as_pull i,
     sj_head = as_head i, sj_state = SJ_assigned, sj_reason = reason, sj_created_at = as_now i,
     sj_started_at = None, sj_finished_at = None, sj_processed_status = None\<rparr>"

text \<open>The end of the transaction: the job row, then the head count and state of its session.\<close>

definition bump_session :: "session_row \<Rightarrow> int \<Rightarrow> session_row \<Rightarrow> session_row" where
  "bump_session session now s = s\<lparr>rs_head_count_used := rs_head_count_used session + 1,
     rs_last_used_at := now,
     rs_state := (if rs_head_count_limit session \<le> rs_head_count_used session + 1
                  then S_draining else S_active)\<rparr>"

definition attach_job :: "assign_input \<Rightarrow> session_row \<Rightarrow> assignment_reason \<Rightarrow> db \<Rightarrow> db" where
  "attach_job i session reason d =
     d\<lparr>session_jobs := session_jobs d @ [new_session_job i (rs_session_id session) reason],
       sessions := row_update (\<lambda>s. rs_session_id s = rs_session_id session)
         (bump_session session (as_now i)) (sessions d)\<rparr>"

definition assign_body :: "host \<Rightarrow> int \<Rightarrow> string \<Rightarrow> assign_input \<Rightarrow> db \<Rightarrow> assign_result outcome" where
  "assign_body h pid uuid i d =
     (let k = (as_repo i, as_pull i, as_head i)
      in if \<not> as_allow_processed i \<and> row_get pr_key k (processed d) \<noteq> None then (Inr AlreadyProcessed, d)
         else (case getReviewerSessionJob (as_repo i) (as_pull i) (as_head i) d of
             Some job \<Rightarrow> (Inr (AlreadyAssigned (getReviewerSession (sj_session_id job) d) job), d)
           | None \<Rightarrow>
               (let hadPrevious = hasReviewerSessionForRepo (as_repo i) d;
                    (expired, d1) = expireReviewerSessions (as_now i) (Some (as_repo i)) d;
                    (reusable, d2) = getReusableReviewerSession h (as_repo i) (as_now i) d1;
                    chosen = (case reusable of
                       Some s \<Rightarrow> (Inr (s, or_default (as_reason i) AR_same_repo_active_session), d2)
                     | None \<Rightarrow> (case createReviewerSession (new_session_row i pid uuid) d2 of
                           (Inl e, d3) \<Rightarrow> (Inl e, d3)
                         | (Inr s, d3) \<Rightarrow> (Inr (s, or_default (as_reason i)
                             (if hadPrevious \<or> 0 < expired then AR_session_expired_new_session
                              else AR_new_session)), d3)))
                in case chosen of
                     (Inl e, d3) \<Rightarrow> (Inl e, d3)
                   | (Inr (s, reason), d3) \<Rightarrow>
                       (let d4 = attach_job i s reason d3;
                            job = the (getReviewerSessionJob (as_repo i) (as_pull i) (as_head i) d4)
                        in (Inr (Assigned (the (getReviewerSession (sj_session_id job) d4)) job (sj_reason job)), d4)))))"

definition assignReviewerSessionJob ::
  "host \<Rightarrow> int \<Rightarrow> string \<Rightarrow> assign_input \<Rightarrow> db \<Rightarrow> assign_result outcome" where
  "assignReviewerSessionJob h pid uuid i d =
     (case validateReviewerSessionInput (as_ttl_ms i) (as_head_count_limit i) (as_worker_pid i) of
        Some e \<Rightarrow> (Inl e, d)
      | None \<Rightarrow> transaction (assign_body h pid uuid i) d)"

section \<open>Job progress\<close>

definition is_finished_job :: "session_job_state \<Rightarrow> bool" where
  "is_finished_job s \<longleftrightarrow> s = SJ_completed \<or> s = SJ_skipped \<or> s = SJ_failed"

definition expireDrainedReviewerSessionIfComplete :: "string \<Rightarrow> db \<Rightarrow> db" where
  "expireDrainedReviewerSessionIfComplete sid d =
     (if map_option rs_state (getReviewerSession sid d) \<noteq> Some S_draining then d
      else if 0 < row_count (\<lambda>j. sj_session_id j = sid \<and> \<not> is_finished_job (sj_state j)) (session_jobs d) then d
      else d\<lparr>sessions := row_update (\<lambda>s. rs_session_id s = sid) (\<lambda>s. s\<lparr>rs_state := S_expired\<rparr>) (sessions d)\<rparr>)"

definition updateReviewerSessionJobState ::
  "string \<Rightarrow> int \<Rightarrow> string \<Rightarrow> session_job_state \<Rightarrow> processed_status option \<Rightarrow> int \<Rightarrow> db \<Rightarrow> session_job_row outcome" where
  "updateReviewerSessionJobState repo pull head jobState processedStatus now d =
     (case getReviewerSessionJob repo pull head d of
        None \<Rightarrow> (Inl NoSessionJob, d)
      | Some existing \<Rightarrow>
          (let d1 = d\<lparr>session_jobs := row_update (\<lambda>j. sj_key j = (repo, pull, head))
                 (\<lambda>j. j\<lparr>sj_state := jobState,
                    sj_started_at := (if jobState = SJ_running \<and> sj_started_at j = None then Some now else sj_started_at j),
                    sj_finished_at := (if is_finished_job jobState then Some now else sj_finished_at j),
                    sj_processed_status := coalesce processedStatus (sj_processed_status j)\<rparr>) (session_jobs d)\<rparr>;
               updated = the (getReviewerSessionJob repo pull head d1)
           in (Inr updated,
               if is_finished_job jobState then expireDrainedReviewerSessionIfComplete (sj_session_id existing) d1
               else d1)))"


section \<open>The head budget\<close>

definition session_load :: "string \<Rightarrow> db \<Rightarrow> int" where
  "session_load sid d = int (row_count (\<lambda>j. sj_session_id j = sid) (session_jobs d))"

definition session_budget_ok :: "db \<Rightarrow> session_row \<Rightarrow> bool" where
  "session_budget_ok d s \<longleftrightarrow> rs_head_count_used s = session_load (rs_session_id s) d
     \<and> rs_head_count_used s \<le> rs_head_count_limit s"

definition sessions_wf :: "db \<Rightarrow> bool" where
  "sessions_wf d \<longleftrightarrow> unique_rows rs_session_id (sessions d) \<and> unique_rows sj_key (session_jobs d)
     \<and> list_all (session_budget_ok d) (sessions d)
     \<and> list_all (\<lambda>j. row_get rs_session_id (sj_session_id j) (sessions d) \<noteq> None) (session_jobs d)"

text \<open>The moves of a session between its states; nothing leaves an expired or failed session.\<close>

inductive session_move :: "session_state \<Rightarrow> session_state \<Rightarrow> bool" where
  stay: "session_move s s"
| expire: "is_open_state s \<Longrightarrow> session_move s S_expired"
| fail: "is_open_state s \<Longrightarrow> session_move s S_failed"
| use: "s = S_warming \<or> s = S_active \<Longrightarrow> session_move s S_active"
| drain: "s = S_warming \<or> s = S_active \<Longrightarrow> session_move s S_draining"

code_pred session_move .

inductive_simps session_move_expired: "session_move S_expired s"
inductive_simps session_move_failed: "session_move S_failed s"
inductive_cases session_move_draining: "session_move S_draining s"

text \<open>Rows that keep their identity and budget and whose state makes one of the moves.\<close>

definition session_evolves :: "session_row \<Rightarrow> session_row \<Rightarrow> bool" where
  "session_evolves s s' \<longleftrightarrow> rs_session_id s' = rs_session_id s \<and> rs_repo s' = rs_repo s
     \<and> rs_head_count_limit s' = rs_head_count_limit s \<and> session_move (rs_state s) (rs_state s')"

definition sessions_evolve :: "db \<Rightarrow> db \<Rightarrow> bool" where
  "sessions_evolve d d' \<longleftrightarrow> (\<forall>sid s. row_get rs_session_id sid (sessions d) = Some s \<longrightarrow>
     (\<exists>s'. row_get rs_session_id sid (sessions d') = Some s' \<and> session_evolves s s'))"

definition state_only :: "(session_row \<Rightarrow> session_row) \<Rightarrow> bool" where
  "state_only f \<longleftrightarrow> (\<forall>s. rs_session_id (f s) = rs_session_id s \<and> rs_repo (f s) = rs_repo s
     \<and> rs_head_count_used (f s) = rs_head_count_used s \<and> rs_head_count_limit (f s) = rs_head_count_limit s)"

lemma sessions_wf_state_only:
  assumes "sessions_wf d" "state_only f"
  shows "sessions_wf (d\<lparr>sessions := row_update P f (sessions d)\<rparr>)"
proof -
  have id: "rs_session_id (f s) = rs_session_id s" for s using assms(2) by (simp add: state_only_def)
  have ok: "session_budget_ok (d\<lparr>sessions := xs\<rparr>) s = session_budget_ok d s"
    "session_budget_ok d (f s) = session_budget_ok d s" for s xs
    using assms(2) by (simp_all add: session_budget_ok_def session_load_def state_only_def)
  show ?thesis
    using assms(1)
    by (simp add: sessions_wf_def unique_rows_update id row_get_update_key list_all_iff)
      (auto simp: row_update_def ok)
qed

lemma failed_session_simps [simp]:
  "rs_session_id (failed_session pid s) = rs_session_id s" "rs_repo (failed_session pid s) = rs_repo s"
  "rs_head_count_used (failed_session pid s) = rs_head_count_used s"
  "rs_head_count_limit (failed_session pid s) = rs_head_count_limit s"
  "rs_state (failed_session pid s) = S_failed"
  by (simp_all add: failed_session_def)

lemma sessions_wf_expire: "sessions_wf d \<Longrightarrow> sessions_wf (snd (expireReviewerSessions now repo d))"
  unfolding expireReviewerSessions_def snd_conv
  by (rule sessions_wf_state_only) (simp_all add: state_only_def)

lemma sessions_wf_fail: "sessions_wf d \<Longrightarrow> sessions_wf (fail_session sid pid d)"
  unfolding fail_session_def by (rule sessions_wf_state_only) (simp_all add: state_only_def)

lemma fail_session_frame [simp]:
  "session_jobs (fail_session sid pid d) = session_jobs d" "processed (fail_session sid pid d) = processed d"
  "length (sessions (fail_session sid pid d)) = length (sessions d)"
  by (simp_all add: fail_session_def)

lemma expire_frame [simp]:
  "session_jobs (snd (expireReviewerSessions now repo d)) = session_jobs d"
  "length (sessions (snd (expireReviewerSessions now repo d))) = length (sessions d)"
  by (simp_all add: expireReviewerSessions_def)

lemma fail_session_get:
  "row_get rs_session_id k (sessions (fail_session sid pid d)) =
     map_option (\<lambda>s. if rs_session_id s = sid then failed_session pid s else s)
     (row_get rs_session_id k (sessions d))"
  by (simp add: fail_session_def row_get_update_key)

lemma fail_session_other: "k \<noteq> sid \<Longrightarrow>
    row_get rs_session_id k (sessions (fail_session sid pid d)) = row_get rs_session_id k (sessions d)"
  by (cases "row_get rs_session_id k (sessions d)") (auto simp: fail_session_get dest: row_get_SomeD)

text \<open>What the search for a reusable session does.\<close>

lemma pick_reusable_wf: "sessions_wf d \<Longrightarrow> sessions_wf (snd (pick_reusable h rows d))"
  by (induction h rows d rule: pick_reusable.induct) (auto simp: Let_def sessions_wf_fail split: option.split)

lemma pick_reusable_frame [simp]:
  "session_jobs (snd (pick_reusable h rows d)) = session_jobs d"
  "length (sessions (snd (pick_reusable h rows d))) = length (sessions d)"
  by (induction h rows d rule: pick_reusable.induct) (auto simp: Let_def split: option.split)

lemma pick_reusable_other:
  "k \<notin> rs_session_id ` set rows \<Longrightarrow>
   row_get rs_session_id k (sessions (snd (pick_reusable h rows d))) = row_get rs_session_id k (sessions d)"
  by (induction h rows d rule: pick_reusable.induct) (auto simp: Let_def fail_session_other split: option.split)

definition worker_ok :: "host \<Rightarrow> session_row \<Rightarrow> bool" where
  "worker_ok h s \<longleftrightarrow> (case rs_worker_pid (mapReviewerSessionRow s) of None \<Rightarrow> True | Some p \<Rightarrow> alive h p)"

lemma pick_reusable_Some:
  assumes "pick_reusable h rows d = (Some s, d')" "distinct (map rs_session_id rows)"
    "\<And>r. r \<in> set rows \<Longrightarrow> row_get rs_session_id (rs_session_id r) (sessions d) = Some r"
  shows "\<exists>r \<in> set rows. s = mapReviewerSessionRow r \<and> worker_ok h r \<and>
     row_get rs_session_id (rs_session_id s) (sessions d') = Some r"
  using assms
proof (induction h rows d rule: pick_reusable.induct)
  case (1 h d)
  then show ?case by simp
next
  case (2 h row rows d)
  show ?case
  proof (cases "worker_ok h row")
    case True
    then have "s = mapReviewerSessionRow row" "d' = d"
      using "2.prems"(1) by (auto simp: worker_ok_def Let_def split: option.splits)
    with True "2.prems"(3) show ?thesis by auto
  next
    case False
    then obtain p where p: "rs_worker_pid (mapReviewerSessionRow row) = Some p" "\<not> alive h p"
      by (auto simp: worker_ok_def split: option.splits)
    have rest: "pick_reusable h rows (fail_session (rs_session_id row) p d) = (Some s, d')"
      using "2.prems"(1) p by simp
    have "row_get rs_session_id (rs_session_id r) (sessions (fail_session (rs_session_id row) p d)) = Some r"
      if "r \<in> set rows" for r
    proof -
      have "rs_session_id r \<in> rs_session_id ` set rows" using that by simp
      then have "rs_session_id r \<noteq> rs_session_id row" using "2.prems"(2) by auto
      then show ?thesis using that "2.prems"(3)[of r] by (simp add: fail_session_other)
    qed
    with "2.IH"[OF refl p(1,2)] rest "2.prems"(2) show ?thesis by auto
  qed
qed

lemma pick_reusable_None:
  "fst (pick_reusable h rows d) = None \<Longrightarrow> r \<in> set rows \<Longrightarrow> \<not> worker_ok h r"
proof (induction h rows d rule: pick_reusable.induct)
  case (1 h d)
  then show ?case by simp
next
  case (2 h row rows d)
  show ?case
  proof (cases "worker_ok h row")
    case True
    then show ?thesis using "2.prems"(1) by (auto simp: worker_ok_def Let_def split: option.splits)
  next
    case False
    then obtain p where p: "rs_worker_pid (mapReviewerSessionRow row) = Some p" "\<not> alive h p"
      by (auto simp: worker_ok_def split: option.splits)
    with "2.prems" "2.IH"[OF refl p(1,2)] False show ?thesis by auto
  qed
qed


text \<open>The session an assignment works on: an old one that is usable, or the one it creates.\<close>

definition ready_session :: "assign_input \<Rightarrow> session_row \<Rightarrow> db \<Rightarrow> bool" where
  "ready_session i row d \<longleftrightarrow> row_get rs_session_id (rs_session_id row) (sessions d) = Some row
     \<and> rs_repo row = as_repo i \<and> session_usable (as_now i) row"

lemma unique_rows_sessions: "sessions_wf d \<Longrightarrow> s \<in> set (sessions d) \<Longrightarrow>
    row_get rs_session_id (rs_session_id s) (sessions d) = Some s"
  by (simp add: sessions_wf_def unique_rows_get)

lemma reusable_rows:
  fixes repo :: string and now :: int
  assumes "sessions_wf d"
  defines "rows \<equiv> js_sort last_used_desc (filter (\<lambda>s. rs_repo s = repo \<and> session_usable now s) (sessions d))"
  shows "distinct (map rs_session_id rows)"
    and "\<And>r. r \<in> set rows \<longleftrightarrow> r \<in> set (sessions d) \<and> rs_repo r = repo \<and> session_usable now r"
  using assms by (auto simp: rows_def sessions_wf_def unique_rows_def distinct_map_filter)

lemma reusable_ready:
  assumes "sessions_wf d" "getReusableReviewerSession h (as_repo i) (as_now i) d = (Some s, d')"
  obtains row where "s = mapReviewerSessionRow row" "ready_session i row d'" "worker_ok h row" "row \<in> set (sessions d)"
proof -
  let ?rows = "js_sort last_used_desc (filter (\<lambda>s. rs_repo s = as_repo i \<and> session_usable (as_now i) s) (sessions d))"
  have "pick_reusable h ?rows d = (Some s, d')"
    using assms(2) by (simp add: getReusableReviewerSession_def)
  from pick_reusable_Some[OF this reusable_rows(1)[OF assms(1)]] 
  obtain r where "r \<in> set ?rows" "s = mapReviewerSessionRow r" "worker_ok h r"
    "row_get rs_session_id (rs_session_id s) (sessions d') = Some r"
    using unique_rows_sessions[OF assms(1)] by auto
  with that[of r] show thesis by (simp add: ready_session_def)
qed

lemma load_unknown:
  assumes "sessions_wf d" "row_get rs_session_id sid (sessions d) = None"
  shows "session_load sid d = 0"
proof -
  have "sj_session_id j \<noteq> sid" if "j \<in> set (session_jobs d)" for j
    using assms that by (auto simp: sessions_wf_def list_all_iff)
  then show ?thesis by (simp add: session_load_def row_count_def)
qed

lemma create_wf:
  assumes "sessions_wf d" "createReviewerSession row d = (Inr s, d')" "rs_head_count_used row = 0" "0 \<le> rs_head_count_limit row"
  shows "sessions_wf d' \<and> row_get rs_session_id (rs_session_id row) (sessions d') = Some row \<and>
    s = mapReviewerSessionRow row \<and> session_jobs d' = session_jobs d"
proof -
  have new: "row_get rs_session_id (rs_session_id row) (sessions d) = None" and d': "d' = d\<lparr>sessions := sessions d @ [row]\<rparr>"
    and s: "s = the (getReviewerSession (rs_session_id row) d')"
    using assms(2) by (auto simp: createReviewerSession_def Let_def split: if_splits)
  have get: "row_get rs_session_id (rs_session_id row) (sessions d') = Some row"
    using new by (simp add: d' row_get_append row_get_Cons)
  have ok: "session_budget_ok d' x = session_budget_ok d x" for x
    by (simp add: session_budget_ok_def session_load_def d')
  have ok': "list_all (session_budget_ok d') xs = list_all (session_budget_ok d) xs" for xs
    by (simp add: list_all_iff ok)
  have parts: "sessions d' = sessions d @ [row]" "session_jobs d' = session_jobs d" by (simp_all add: d')
  have "session_budget_ok d row"
    using load_unknown[OF assms(1) new] assms(3,4) by (simp add: session_budget_ok_def)
  moreover have "list_all (\<lambda>j. row_get rs_session_id (sj_session_id j) (sessions d') \<noteq> None) (session_jobs d)"
    using assms(1) by (auto simp: sessions_wf_def list_all_iff d' row_get_append split: option.split)
  moreover have "unique_rows rs_session_id (sessions d')"
    using assms(1) new by (simp add: d' sessions_wf_def unique_rows_append_new)
  ultimately have "sessions_wf d'"
    using assms(1) unfolding sessions_wf_def ok' parts by simp
  with get show ?thesis by (simp add: s getReviewerSession_def parts(2))
qed

lemma attach_wf:
  assumes "sessions_wf d" "ready_session i row d" "row_get sj_key (as_repo i, as_pull i, as_head i) (session_jobs d) = None"
    "s = mapReviewerSessionRow row"
  shows "sessions_wf (attach_job i s reason d)"
proof -
  let ?d' = "attach_job i s reason d" and ?j = "new_session_job i (rs_session_id s) reason"
  have row: "row_get rs_session_id (rs_session_id row) (sessions d) = Some row" "rs_head_count_used row < rs_head_count_limit row"
    using assms(2) by (simp_all add: ready_session_def session_usable_def)
  have key: "sj_key ?j = (as_repo i, as_pull i, as_head i)" "sj_session_id ?j = rs_session_id row"
    by (simp_all add: new_session_job_def sj_key_def assms(4))
  have jobs: "session_jobs ?d' = session_jobs d @ [?j]" by (simp add: attach_job_def)
  have sess: "sessions ?d' = row_update (\<lambda>x. rs_session_id x = rs_session_id row) (bump_session s (as_now i)) (sessions d)"
    by (simp add: attach_job_def assms(4))
  have id: "rs_session_id (bump_session s now x) = rs_session_id x" for now x by (simp add: bump_session_def)
  have load: "session_load sid ?d' = session_load sid d + (if sid = rs_session_id row then 1 else 0)" for sid
    by (simp add: session_load_def row_count_def jobs key(2))
  have budget: "session_budget_ok ?d' (if rs_session_id x = rs_session_id row then bump_session s (as_now i) x else x)"
    if "x \<in> set (sessions d)" for x
  proof (cases "rs_session_id x = rs_session_id row")
    case True
    have "row_get rs_session_id (rs_session_id row) (sessions d) = Some x"
      using unique_rows_sessions[OF assms(1) that] unfolding True .
    then have "x = row" unfolding row(1) by (rule option.inject[THEN iffD1, symmetric])
    moreover have "session_budget_ok d row"
      using assms(1) row_get_SomeD[OF row(1)] by (simp add: sessions_wf_def list_all_iff)
    ultimately show ?thesis
      using row(2) by (simp add: session_budget_ok_def load[unfolded assms(4)] bump_session_def assms(4))
  next
    case False
    moreover have "session_budget_ok d x" using assms(1) that by (simp add: sessions_wf_def list_all_iff)
    ultimately show ?thesis by (simp add: session_budget_ok_def load)
  qed
  have refs: "row_get rs_session_id (sj_session_id j) (sessions ?d') \<noteq> None" if "j \<in> set (session_jobs ?d')" for j
  proof -
    have "row_get rs_session_id (sj_session_id j) (sessions d) \<noteq> None"
      using that assms(1) row(1) key(2) by (auto simp: jobs sessions_wf_def list_all_iff)
    then show ?thesis by (simp add: sess row_get_update_key id)
  qed
  have "unique_rows rs_session_id (sessions ?d')" "unique_rows sj_key (session_jobs ?d')"
    using assms(1,3) by (simp_all add: sess jobs sessions_wf_def unique_rows_update id unique_rows_append_new key(1))
  moreover have "list_all (session_budget_ok ?d') (sessions ?d')"
    unfolding list_all_iff unfolding sess row_update_def set_map using budget by blast
  ultimately show ?thesis using refs by (simp add: sessions_wf_def list_all_iff)
qed

text \<open>The anatomy of a successful assignment.\<close>

lemma assign_body_cases:
  assumes "sessions_wf d" "1 \<le> as_head_count_limit i" "1 \<le> as_ttl_ms i" "assign_body h pid uuid i d = (res, d')"
  obtains (processed) "res = Inr AlreadyProcessed" "d' = d" "row_get pr_key (as_repo i, as_pull i, as_head i) (processed d) \<noteq> None"
  | (assigned) job where "res = Inr (AlreadyAssigned (getReviewerSession (sj_session_id job) d) job)" "d' = d"
      "row_get sj_key (as_repo i, as_pull i, as_head i) (session_jobs d) = Some job"
  | (clash) e where "res = Inl e"
  | (fresh) row reason d1 where "row_get sj_key (as_repo i, as_pull i, as_head i) (session_jobs d) = None"
      "sessions_wf d1" "session_jobs d1 = session_jobs d" "ready_session i row d1"
      "d' = attach_job i (mapReviewerSessionRow row) reason d1"
      "res = Inr (Assigned (mapReviewerSessionRow (bump_session (mapReviewerSessionRow row) (as_now i) row))
         (new_session_job i (rs_session_id row) reason) reason)"
      "(\<exists>s. getReusableReviewerSession h (as_repo i) (as_now i) (snd (expireReviewerSessions (as_now i) (Some (as_repo i)) d)) = (Some s, d1) \<and>
          s = mapReviewerSessionRow row) \<or>
       (\<exists>d2. getReusableReviewerSession h (as_repo i) (as_now i) (snd (expireReviewerSessions (as_now i) (Some (as_repo i)) d)) = (None, d2) \<and>
          row = new_session_row i pid uuid \<and> row_get rs_session_id uuid (sessions d2) = None \<and>
          d1 = d2\<lparr>sessions := sessions d2 @ [row]\<rparr>)"
proof -
  let ?k = "(as_repo i, as_pull i, as_head i)"
  consider (p) "\<not> as_allow_processed i \<and> row_get pr_key ?k (processed d) \<noteq> None"
    | (a) job where "as_allow_processed i \<or> row_get pr_key ?k (processed d) = None" "row_get sj_key ?k (session_jobs d) = Some job"
    | (f) "as_allow_processed i \<or> row_get pr_key ?k (processed d) = None" "row_get sj_key ?k (session_jobs d) = None"
    by (cases "row_get sj_key ?k (session_jobs d)") auto
  then show thesis
  proof cases
    case p
    then show thesis using assms(4) by (intro processed) (auto simp: assign_body_def Let_def)
  next
    case a
    then show thesis using assms(4)
      by (intro assigned[of job]) (auto simp: assign_body_def Let_def getReviewerSessionJob_def)
  next
    case f
    obtain n d0 where ex: "expireReviewerSessions (as_now i) (Some (as_repo i)) d = (n, d0)" by fastforce
    have wf0: "sessions_wf d0" and jobs0: "session_jobs d0 = session_jobs d"
      using sessions_wf_expire[OF assms(1), of "as_now i" "Some (as_repo i)"] expire_frame(1)[of "as_now i" "Some (as_repo i)" d]
      by (simp_all add: ex)
    obtain ro d2 where re: "getReusableReviewerSession h (as_repo i) (as_now i) d0 = (ro, d2)" by fastforce
    have wf2: "sessions_wf d2" and jobs2: "session_jobs d2 = session_jobs d"
      using pick_reusable_wf[OF wf0] jobs0 arg_cong[OF re, of snd]
      by (auto simp: getReusableReviewerSession_def)
    have finish: thesis if "sessions_wf d1" "session_jobs d1 = session_jobs d" "ready_session i row d1"
      "d' = attach_job i (mapReviewerSessionRow row) reason d1"
      "res = Inr (Assigned (the (getReviewerSession (rs_session_id row) d')) (new_session_job i (rs_session_id row) reason) reason)"
      "(\<exists>s. getReusableReviewerSession h (as_repo i) (as_now i) d0 = (Some s, d1) \<and> s = mapReviewerSessionRow row) \<or>
       (\<exists>d2. getReusableReviewerSession h (as_repo i) (as_now i) d0 = (None, d2) \<and> row = new_session_row i pid uuid \<and>
          row_get rs_session_id uuid (sessions d2) = None \<and> d1 = d2\<lparr>sessions := sessions d2 @ [row]\<rparr>)" for row reason d1
    proof (rule fresh[OF f(2) that(1-4)])
      have "row_get rs_session_id (rs_session_id row) (sessions d1) = Some row"
        using that(3) by (simp add: ready_session_def)
      then have "getReviewerSession (rs_session_id row) d' =
          Some (mapReviewerSessionRow (bump_session (mapReviewerSessionRow row) (as_now i) row))"
        by (simp add: that(4) getReviewerSession_def attach_job_def row_get_update_key bump_session_def)
      with that(5) show "res = Inr (Assigned (mapReviewerSessionRow (bump_session (mapReviewerSessionRow row) (as_now i) row))
         (new_session_job i (rs_session_id row) reason) reason)" by simp
    qed (use that(6) ex in simp)
    have job: "getReviewerSessionJob (as_repo i) (as_pull i) (as_head i) (attach_job i s reason dd) =
        Some (new_session_job i (rs_session_id s) reason)" if "session_jobs dd = session_jobs d" for s reason dd
      using f(2) that by (simp add: getReviewerSessionJob_def attach_job_def row_get_append row_get_Cons
          new_session_job_def sj_key_def)
    show thesis
    proof (cases ro)
      case (Some s)
      with re have re': "getReusableReviewerSession h (as_repo i) (as_now i) d0 = (Some s, d2)" by simp
      obtain row where row: "s = mapReviewerSessionRow row" "ready_session i row d2"
        by (rule reusable_ready[OF wf0 re'])
      show thesis
      proof (rule finish[OF wf2 jobs2 row(2)])
        show "d' = attach_job i (mapReviewerSessionRow row) (or_default (as_reason i) AR_same_repo_active_session) d2"
          "res = Inr (Assigned (the (getReviewerSession (rs_session_id row) d'))
             (new_session_job i (rs_session_id row) (or_default (as_reason i) AR_same_repo_active_session))
             (or_default (as_reason i) AR_same_repo_active_session))"
          using assms(4) f ex re' row(1) job[OF jobs2]
          by (auto simp: assign_body_def Let_def getReviewerSessionJob_def[of _ _ _ d] new_session_job_def)
      qed (use re' row(1) in auto)
    next
      case None
      let ?row = "new_session_row i pid uuid"
      let ?reason = "or_default (as_reason i) (if hasReviewerSessionForRepo (as_repo i) d \<or> 0 < n
          then AR_session_expired_new_session else AR_new_session)"
      show thesis
      proof (cases "createReviewerSession ?row d2")
        case (Pair r d3)
        show thesis
        proof (cases r)
          case (Inl e)
          then show thesis using assms(4) f ex re None Pair
            by (intro clash[of e]) (auto simp: assign_body_def Let_def getReviewerSessionJob_def)
        next
          case (Inr s)
          with Pair have c: "createReviewerSession ?row d2 = (Inr s, d3)" by simp
          have lim: "rs_head_count_used ?row = 0" "0 \<le> rs_head_count_limit ?row"
            using assms(2) by (simp_all add: new_session_row_def)
          note cw = create_wf[OF wf2 c lim]
          have ready: "ready_session i ?row d3"
            using cw assms(2,3) by (simp add: ready_session_def session_usable_def new_session_row_def)
          have d3: "row_get rs_session_id uuid (sessions d2) = None" "d3 = d2\<lparr>sessions := sessions d2 @ [?row]\<rparr>"
            using c by (auto simp: createReviewerSession_def Let_def new_session_row_def split: if_splits)
          have sid: "rs_session_id s = uuid" "rs_session_id ?row = uuid" "s = mapReviewerSessionRow ?row"
            using cw by (simp_all add: new_session_row_def)
          show thesis
          proof (rule finish[of d3 ?row])
            show "d' = attach_job i (mapReviewerSessionRow ?row) ?reason d3"
              "res = Inr (Assigned (the (getReviewerSession (rs_session_id ?row) d'))
                 (new_session_job i (rs_session_id ?row) ?reason) ?reason)"
              using assms(4) f ex re None c sid job[of d3] cw jobs2
              by (auto simp: assign_body_def Let_def getReviewerSessionJob_def[of _ _ _ d] new_session_job_def)
          qed (use cw jobs2 ready re None d3 in auto)
        qed
      qed
    qed
  qed
qed


section \<open>Every operation keeps the budget and the moves\<close>

lemma evolve_refl: "session_evolves s s"
  by (simp add: session_evolves_def session_move.stay)

lemma session_move_trans: "session_move a b \<Longrightarrow> session_move b c \<Longrightarrow> session_move a c"
  by (auto simp: session_move.simps is_open_state_def)

lemma session_evolves_trans: "session_evolves a b \<Longrightarrow> session_evolves b c \<Longrightarrow> session_evolves a c"
  by (auto simp: session_evolves_def intro: session_move_trans)

lemma sessions_evolve_refl [simp]: "sessions_evolve d d"
  by (auto simp: sessions_evolve_def intro: evolve_refl)

lemma sessions_evolve_trans: "sessions_evolve d d1 \<Longrightarrow> sessions_evolve d1 d2 \<Longrightarrow> sessions_evolve d d2"
  unfolding sessions_evolve_def by (meson session_evolves_trans)

lemma sessions_evolve_update:
  assumes "\<And>s. s \<in> set (sessions d) \<Longrightarrow> P s \<Longrightarrow> session_evolves s (f s)" "\<And>s. rs_session_id (f s) = rs_session_id s"
  shows "sessions_evolve d (d\<lparr>sessions := row_update P f (sessions d)\<rparr>)"
proof -
  have "\<exists>s'. row_get rs_session_id sid (row_update P f (sessions d)) = Some s' \<and> session_evolves s s'"
    if "row_get rs_session_id sid (sessions d) = Some s" for sid s
    using assms(1)[of s] row_get_SomeD[OF that] that evolve_refl
    by (auto simp: row_get_update_key assms(2))
  then show ?thesis by (simp add: sessions_evolve_def)
qed

lemma expire_evolves: "sessions_evolve d (snd (expireReviewerSessions now repo d))"
  unfolding expireReviewerSessions_def snd_conv
  by (rule sessions_evolve_update)
    (simp_all add: session_evolves_def session_lapsed_def session_move.expire)

lemma fail_evolves:
  assumes "row_get rs_session_id sid (sessions d) = Some s" "is_open_state (rs_state s)"
    "unique_rows rs_session_id (sessions d)"
  shows "sessions_evolve d (fail_session sid pid d)"
  unfolding fail_session_def
proof (rule sessions_evolve_update)
  fix x assume x: "x \<in> set (sessions d)" "rs_session_id x = sid"
  from unique_rows_get[OF assms(3) x(1)] x(2) assms(1) have "x = s" by (metis option.inject)
  then show "session_evolves x (failed_session pid x)"
    using assms(2) by (simp add: session_evolves_def session_move.fail)
qed simp

lemma unique_fail: "unique_rows rs_session_id (sessions d) \<Longrightarrow> unique_rows rs_session_id (sessions (fail_session sid pid d))"
  by (simp add: fail_session_def unique_rows_update)

lemma pick_evolves:
  "unique_rows rs_session_id (sessions d) \<Longrightarrow> distinct (map rs_session_id rows) \<Longrightarrow>
   (\<And>r. r \<in> set rows \<Longrightarrow> row_get rs_session_id (rs_session_id r) (sessions d) = Some r \<and> is_open_state (rs_state r)) \<Longrightarrow>
   sessions_evolve d (snd (pick_reusable h rows d))"
proof (induction h rows d rule: pick_reusable.induct)
  case (1 h d)
  then show ?case by simp
next
  case (2 h row rows d)
  show ?case
  proof (cases "worker_ok h row")
    case True
    then show ?thesis by (auto simp: worker_ok_def Let_def split: option.splits)
  next
    case False
    then obtain p where p: "rs_worker_pid (mapReviewerSessionRow row) = Some p" "\<not> alive h p"
      by (auto simp: worker_ok_def split: option.splits)
    let ?d = "fail_session (rs_session_id row) p d"
    have step: "sessions_evolve d ?d"
      using "2.prems"(1) "2.prems"(3)[of row] by (intro fail_evolves) auto
    have keep: "row_get rs_session_id (rs_session_id r) (sessions ?d) = Some r \<and> is_open_state (rs_state r)"
      if "r \<in> set rows" for r
    proof -
      have "rs_session_id r \<in> rs_session_id ` set rows" using that by simp
      then have "rs_session_id r \<noteq> rs_session_id row" using "2.prems"(2) by auto
      then show ?thesis using that "2.prems"(3)[of r] by (simp add: fail_session_other)
    qed
    have "sessions_evolve ?d (snd (pick_reusable h rows ?d))"
      using "2.IH"[OF refl p(1,2)] unique_fail[OF "2.prems"(1)] "2.prems"(2) keep by simp
    with step show ?thesis using p by (auto intro: sessions_evolve_trans)
  qed
qed

lemma reusable_evolves:
  assumes "sessions_wf d"
  shows "sessions_evolve d (snd (getReusableReviewerSession h repo now d))"
  unfolding getReusableReviewerSession_def
proof (rule pick_evolves)
  show "unique_rows rs_session_id (sessions d)" using assms by (simp add: sessions_wf_def)
  show "distinct (map rs_session_id (js_sort last_used_desc (filter (\<lambda>s. rs_repo s = repo \<and> session_usable now s) (sessions d))))"
    by (rule reusable_rows(1)[OF assms])
  fix r
  assume "r \<in> set (js_sort last_used_desc (filter (\<lambda>s. rs_repo s = repo \<and> session_usable now s) (sessions d)))"
  then show "row_get rs_session_id (rs_session_id r) (sessions d) = Some r \<and> is_open_state (rs_state r)"
    using unique_rows_sessions[OF assms] by (auto simp: session_usable_def is_open_state_def)
qed

lemma append_evolves: "sessions_evolve d (d\<lparr>sessions := sessions d @ xs\<rparr>)"
  by (auto simp: sessions_evolve_def row_get_append intro: evolve_refl)

lemma attach_evolves:
  assumes "ready_session i row d" "unique_rows rs_session_id (sessions d)"
  shows "sessions_evolve d (attach_job i (mapReviewerSessionRow row) reason d)"
proof -
  have row: "row_get rs_session_id (rs_session_id row) (sessions d) = Some row"
    "rs_state row = S_warming \<or> rs_state row = S_active"
    using assms(1) by (auto simp: ready_session_def session_usable_def)
  have "sessions_evolve d (d\<lparr>sessions := row_update (\<lambda>x. rs_session_id x = rs_session_id row)
      (bump_session (mapReviewerSessionRow row) (as_now i)) (sessions d)\<rparr>)"
  proof (rule sessions_evolve_update)
    fix x assume x: "x \<in> set (sessions d)" "rs_session_id x = rs_session_id row"
    from unique_rows_get[OF assms(2) x(1)] x(2) row(1) have "x = row" by (metis option.inject)
    then show "session_evolves x (bump_session (mapReviewerSessionRow row) (as_now i) x)"
      using row(2) by (auto simp: session_evolves_def bump_session_def intro: session_move.use session_move.drain)
  qed (simp add: bump_session_def)
  then show ?thesis by (simp add: sessions_evolve_def attach_job_def)
qed

lemma assign_keeps:
  assumes "sessions_wf d"
  shows "sessions_wf (snd (assignReviewerSessionJob h pid uuid i d))"
    and "sessions_evolve d (snd (assignReviewerSessionJob h pid uuid i d))"
proof -
  have "sessions_wf d' \<and> sessions_evolve d d'" if d': "d' = snd (assignReviewerSessionJob h pid uuid i d)" for d'
  proof (cases "validateReviewerSessionInput (as_ttl_ms i) (as_head_count_limit i) (as_worker_pid i)")
    case (Some e)
    then show ?thesis using assms d' by (simp add: assignReviewerSessionJob_def)
  next
    case None
    then have lim: "1 \<le> as_head_count_limit i" "1 \<le> as_ttl_ms i"
      by (auto simp: validateReviewerSessionInput_def split: if_splits)
    obtain res d1 where b: "assign_body h pid uuid i d = (res, d1)" by fastforce
    have d'': "d' = (case res of Inl e \<Rightarrow> d | Inr x \<Rightarrow> d1)"
      using None by (simp add: d' assignReviewerSessionJob_def snd_transaction b split: sum.split)
    show ?thesis
    proof (rule assign_body_cases[OF assms lim b])
      fix row reason dd
      let ?d0 = "snd (expireReviewerSessions (as_now i) (Some (as_repo i)) d)"
      assume new: "row_get sj_key (as_repo i, as_pull i, as_head i) (session_jobs d) = None"
        and dd: "sessions_wf dd" "session_jobs dd = session_jobs d" "ready_session i row dd"
        and d1: "d1 = attach_job i (mapReviewerSessionRow row) reason dd"
        and res: "res = Inr (Assigned (mapReviewerSessionRow (bump_session (mapReviewerSessionRow row) (as_now i) row))
         (new_session_job i (rs_session_id row) reason) reason)"
        and src: "(\<exists>s. getReusableReviewerSession h (as_repo i) (as_now i) ?d0 = (Some s, dd) \<and> s = mapReviewerSessionRow row) \<or>
       (\<exists>d2. getReusableReviewerSession h (as_repo i) (as_now i) ?d0 = (None, d2) \<and>
          row = new_session_row i pid uuid \<and> row_get rs_session_id uuid (sessions d2) = None \<and>
          dd = d2\<lparr>sessions := sessions d2 @ [row]\<rparr>)"
      have re: "sessions_evolve ?d0 (snd (getReusableReviewerSession h (as_repo i) (as_now i) ?d0))"
        by (rule reusable_evolves[OF sessions_wf_expire[OF assms]])
      from src have "sessions_evolve ?d0 dd"
      proof
        assume "\<exists>s. getReusableReviewerSession h (as_repo i) (as_now i) ?d0 = (Some s, dd) \<and> s = mapReviewerSessionRow row"
        with re show ?thesis by auto
      next
        assume "\<exists>d2. getReusableReviewerSession h (as_repo i) (as_now i) ?d0 = (None, d2) \<and>
          row = new_session_row i pid uuid \<and> row_get rs_session_id uuid (sessions d2) = None \<and>
          dd = d2\<lparr>sessions := sessions d2 @ [row]\<rparr>"
        then obtain d2 where d2: "getReusableReviewerSession h (as_repo i) (as_now i) ?d0 = (None, d2)"
          "dd = d2\<lparr>sessions := sessions d2 @ [row]\<rparr>" by blast
        from re d2(1) have "sessions_evolve ?d0 d2" by simp
        then show ?thesis unfolding d2(2) by (rule sessions_evolve_trans[OF _ append_evolves])
      qed
      moreover have "sessions_evolve dd d1"
        unfolding d1 using dd by (intro attach_evolves) (simp_all add: sessions_wf_def)
      ultimately have "sessions_evolve d d1"
        by (meson expire_evolves sessions_evolve_trans)
      moreover have "sessions_wf d1"
        unfolding d1 by (rule attach_wf[OF dd(1,3) _ refl]) (simp add: dd(2) new)
      ultimately show ?thesis by (simp add: d'' res)
    qed (use assms d'' in auto)
  qed
  then show "sessions_wf (snd (assignReviewerSessionJob h pid uuid i d))"
    "sessions_evolve d (snd (assignReviewerSessionJob h pid uuid i d))" by auto
qed


lemma jobs_update_wf:
  assumes "sessions_wf d" "\<And>j. sj_session_id (f j) = sj_session_id j" "\<And>j. sj_key (f j) = sj_key j"
  shows "sessions_wf (d\<lparr>session_jobs := row_update P f (session_jobs d)\<rparr>)"
proof -
  have "row_count (\<lambda>j. sj_session_id j = sid) (row_update P f xs) = row_count (\<lambda>j. sj_session_id j = sid) xs" for sid xs
    by (induction xs) (auto simp: row_count_def row_update_def assms(2))
  then have ok: "session_budget_ok (d\<lparr>session_jobs := row_update P f (session_jobs d)\<rparr>) s = session_budget_ok d s" for s
    by (simp add: session_budget_ok_def session_load_def)
  have sid: "sj_session_id (if P j then f j else j) = sj_session_id j" for j by (simp add: assms(2))
  have jobs: "list_all (\<lambda>j. row_get rs_session_id (sj_session_id j) xs \<noteq> None) (row_update P f js) =
      list_all (\<lambda>j. row_get rs_session_id (sj_session_id j) xs \<noteq> None) js" for xs js
    by (induction js) (simp_all add: row_update_def assms(2))
  have budget: "list_all (session_budget_ok (d\<lparr>session_jobs := row_update P f (session_jobs d)\<rparr>)) xs =
      list_all (session_budget_ok d) xs" for xs
    by (simp add: list_all_iff ok)
  have parts: "sessions (d\<lparr>session_jobs := js\<rparr>) = sessions d" "session_jobs (d\<lparr>session_jobs := js\<rparr>) = js" for js
    by simp_all
  show ?thesis
    using assms(1) unfolding sessions_wf_def budget unfolding parts jobs
    by (simp add: unique_rows_update assms(3))
qed

lemma drained_keeps:
  assumes "sessions_wf d"
  shows "sessions_wf (expireDrainedReviewerSessionIfComplete sid d)"
    and "sessions_evolve d (expireDrainedReviewerSessionIfComplete sid d)"
proof -
  have wf: "sessions_wf (d\<lparr>sessions := row_update (\<lambda>s. rs_session_id s = sid) (\<lambda>s. s\<lparr>rs_state := S_expired\<rparr>) (sessions d)\<rparr>)"
    using assms by (rule sessions_wf_state_only) (simp add: state_only_def)
  then show "sessions_wf (expireDrainedReviewerSessionIfComplete sid d)"
    using assms by (simp add: expireDrainedReviewerSessionIfComplete_def)
  have "sessions_evolve d (d\<lparr>sessions := row_update (\<lambda>s. rs_session_id s = sid) (\<lambda>s. s\<lparr>rs_state := S_expired\<rparr>) (sessions d)\<rparr>)"
    if dr: "map_option rs_state (getReviewerSession sid d) = Some S_draining"
  proof (rule sessions_evolve_update)
    fix x assume x: "x \<in> set (sessions d)" "rs_session_id x = sid"
    from unique_rows_sessions[OF assms x(1)] dr x(2) have "rs_state x = S_draining"
      by (simp add: getReviewerSession_def)
    then show "session_evolves x (x\<lparr>rs_state := S_expired\<rparr>)"
      by (simp add: session_evolves_def is_open_state_def session_move.expire)
  qed simp
  then show "sessions_evolve d (expireDrainedReviewerSessionIfComplete sid d)"
    by (simp add: expireDrainedReviewerSessionIfComplete_def)
qed

lemma update_keeps:
  assumes "sessions_wf d"
  shows "sessions_wf (snd (updateReviewerSessionJobState repo pull head st ps now d)) \<and>
     sessions_evolve d (snd (updateReviewerSessionJobState repo pull head st ps now d))"
proof (cases "getReviewerSessionJob repo pull head d")
  case None
  with assms show ?thesis by (simp add: updateReviewerSessionJobState_def)
next
  case (Some e)
  let ?f = "\<lambda>j. j\<lparr>sj_state := st,
      sj_started_at := (if st = SJ_running \<and> sj_started_at j = None then Some now else sj_started_at j),
      sj_finished_at := (if is_finished_job st then Some now else sj_finished_at j),
      sj_processed_status := coalesce ps (sj_processed_status j)\<rparr>"
  let ?d1 = "d\<lparr>session_jobs := row_update (\<lambda>j. sj_key j = (repo, pull, head)) ?f (session_jobs d)\<rparr>"
  have wf: "sessions_wf ?d1" by (rule jobs_update_wf[OF assms]) (simp_all add: sj_key_def)
  have ev: "sessions_evolve d ?d1" by (auto simp: sessions_evolve_def intro: evolve_refl)
  have res: "snd (updateReviewerSessionJobState repo pull head st ps now d) =
      (if is_finished_job st then expireDrainedReviewerSessionIfComplete (sj_session_id e) ?d1 else ?d1)"
    using Some by (simp add: updateReviewerSessionJobState_def Let_def)
  show ?thesis
    unfolding res using wf ev drained_keeps[OF wf, of "sj_session_id e"]
    by (auto intro: sessions_evolve_trans)
qed

lemma fail_dead_keeps:
  "sessions_wf d \<Longrightarrow> distinct (map fst rows) \<Longrightarrow>
   (\<And>sid pid. (sid, pid) \<in> set rows \<Longrightarrow> \<exists>s. row_get rs_session_id sid (sessions d) = Some s \<and> is_open_state (rs_state s)) \<Longrightarrow>
   sessions_wf (snd (fail_dead_workers h rows (n, d))) \<and> sessions_evolve d (snd (fail_dead_workers h rows (n, d)))"
proof (induction rows arbitrary: n d)
  case Nil
  then show ?case by simp
next
  case (Cons row rows)
  obtain sid pid where row: "row = (sid, pid)" by (cases row)
  show ?case
  proof (cases "alive h pid")
    case True
    have "sessions_wf (snd (fail_dead_workers h rows (n, d))) \<and> sessions_evolve d (snd (fail_dead_workers h rows (n, d)))"
      by (rule Cons.IH) (use Cons.prems in auto)
    with True row show ?thesis by simp
  next
    case False
    let ?d = "fail_session sid pid d"
    obtain s where s: "row_get rs_session_id sid (sessions d) = Some s" "is_open_state (rs_state s)"
      using Cons.prems(3)[of sid pid] row by auto
    have step: "sessions_wf ?d" "sessions_evolve d ?d"
      using sessions_wf_fail[OF Cons.prems(1)] fail_evolves[OF s] Cons.prems(1) by (simp_all add: sessions_wf_def)
    have keep: "\<exists>s. row_get rs_session_id sid' (sessions ?d) = Some s \<and> is_open_state (rs_state s)"
      if "(sid', pid') \<in> set rows" for sid' pid'
    proof -
      have "sid' \<in> fst ` set rows" using that by force
      then have "sid' \<noteq> sid" using Cons.prems(2) row by auto
      then show ?thesis using Cons.prems(3)[of sid' pid'] that by (simp add: fail_session_other)
    qed
    from Cons.IH[OF step(1) _ keep] Cons.prems(2) show ?thesis
      using False step(2) row by (auto intro: sessions_evolve_trans)
  qed
qed

lemma map_filter_fst_sub:
  "distinct (map rs_session_id ss) \<Longrightarrow>
   distinct (map fst (List.map_filter (\<lambda>s. if P s then map_option (Pair (rs_session_id s)) (rs_worker_pid s) else None) ss))"
  by (induction ss) (auto simp: map_filter_def split: if_splits)

lemma reconcile_keeps:
  assumes "sessions_wf d"
  shows "sessions_wf (snd (reconcileReviewerSessions h now repo d)) \<and>
    sessions_evolve d (snd (reconcileReviewerSessions h now repo d))"
proof -
  obtain n d1 where ex: "expireReviewerSessions now repo d = (n, d1)" by fastforce
  have wf: "sessions_wf d1" and ev: "sessions_evolve d d1"
    using sessions_wf_expire[OF assms, of now repo] expire_evolves[of d now repo] by (simp_all add: ex)
  define P where "P \<equiv> \<lambda>s :: session_row. (case truthy repo of None \<Rightarrow> True | Some r \<Rightarrow> rs_repo s = r) \<and> is_open_state (rs_state s)"
  define rows where "rows \<equiv> List.map_filter (\<lambda>s. if P s then map_option (Pair (rs_session_id s)) (rs_worker_pid s) else None) (sessions d1)"
  have "snd (reconcileReviewerSessions h now repo d) = snd (fail_dead_workers h rows (0, d1))"
    by (simp add: reconcileReviewerSessions_def ex Let_def rows_def P_def split: prod.split)
  moreover have "sessions_wf (snd (fail_dead_workers h rows (0, d1))) \<and> sessions_evolve d1 (snd (fail_dead_workers h rows (0, d1)))"
  proof (rule fail_dead_keeps[OF wf])
    show "distinct (map fst rows)"
      unfolding rows_def using wf by (intro map_filter_fst_sub) (simp add: sessions_wf_def unique_rows_def)
    fix sid pid assume "(sid, pid) \<in> set rows"
    then obtain s where "s \<in> set (sessions d1)" "P s" "rs_session_id s = sid"
      by (auto simp: rows_def map_filter_def split: if_splits)
    then show "\<exists>s. row_get rs_session_id sid (sessions d1) = Some s \<and> is_open_state (rs_state s)"
      using unique_rows_sessions[OF wf, of s] by (auto simp: P_def)
  qed
  ultimately show ?thesis using ev by (auto intro: sessions_evolve_trans)
qed

datatype session_op =
    SAssign host int string assign_input
  | SUpdate string int string session_job_state "processed_status option" int
  | SExpire int "string option"
  | SReconcile host int "string option"

fun session_step :: "session_op \<Rightarrow> db \<Rightarrow> db" where
  "session_step (SAssign h pid uuid i) d = snd (assignReviewerSessionJob h pid uuid i d)"
| "session_step (SUpdate repo pull head st ps now) d = snd (updateReviewerSessionJobState repo pull head st ps now d)"
| "session_step (SExpire now repo) d = snd (expireReviewerSessions now repo d)"
| "session_step (SReconcile h now repo) d = snd (reconcileReviewerSessions h now repo d)"

lemma session_step_keeps: "sessions_wf d \<Longrightarrow> sessions_wf (session_step op d) \<and> sessions_evolve d (session_step op d)"
  by (cases op) (simp_all add: assign_keeps update_keeps sessions_wf_expire expire_evolves reconcile_keeps)

lemma session_run_keeps: "sessions_wf d \<Longrightarrow> sessions_wf (fold session_step ops d) \<and> sessions_evolve d (fold session_step ops d)"
proof (induction ops arbitrary: d)
  case Nil
  then show ?case by simp
next
  case (Cons op ops)
  then show ?case using session_step_keeps[of d op] by (auto intro: sessions_evolve_trans)
qed

text \<open>C24: whatever assignments, job updates, expiries and reconciliations run from an empty store, every
  session's head count is the number of jobs assigned to it and stays within its limit, every job
  belongs to a stored session, and no head has two jobs.\<close>

theorem session_budget_invariant:
  "let d = fold session_step ops empty_db in
     list_all (\<lambda>s. rs_head_count_used s = int (length (filter (\<lambda>j. sj_session_id j = rs_session_id s) (session_jobs d)))
        \<and> rs_head_count_used s \<le> rs_head_count_limit s) (sessions d) \<and>
     list_all (\<lambda>j. row_get rs_session_id (sj_session_id j) (sessions d) \<noteq> None) (session_jobs d) \<and>
     distinct (map sj_key (session_jobs d)) \<and> distinct (map rs_session_id (sessions d))"
proof -
  have "sessions_wf empty_db" by (simp add: sessions_wf_def empty_db_def)
  from session_run_keeps[OF this, of ops] show ?thesis
    by (simp add: sessions_wf_def Let_def unique_rows_def session_budget_ok_def[abs_def] session_load_def row_count_def)
qed

text \<open>a session keeps its repository and head limit for life and moves only forward: a draining
  session is never active again, and an expired or failed one never changes state.\<close>

theorem session_lifecycle:
  assumes "sessions_wf d" "row_get rs_session_id sid (sessions d) = Some s"
  shows "\<exists>s'. row_get rs_session_id sid (sessions (fold session_step ops d)) = Some s' \<and>
     rs_repo s' = rs_repo s \<and> rs_head_count_limit s' = rs_head_count_limit s \<and>
     session_move (rs_state s) (rs_state s') \<and>
     \<not> (rs_state s = S_draining \<and> rs_state s' \<in> {S_warming, S_active}) \<and>
     \<not> (rs_state s \<in> {S_expired, S_failed} \<and> rs_state s' \<noteq> rs_state s)"
proof -
  obtain s' where s': "row_get rs_session_id sid (sessions (fold session_step ops d)) = Some s'" "session_evolves s s'"
    using session_run_keeps[OF assms(1), of ops] assms(2) unfolding sessions_evolve_def by blast
  then have "session_move (rs_state s) (rs_state s')" by (simp add: session_evolves_def)
  then show ?thesis
    using s' by (auto simp: session_evolves_def session_move_expired session_move_failed is_open_state_def
        elim: session_move_draining)
qed


lemma assign_Inr:
  assumes "assignReviewerSessionJob h pid uuid i d = (Inr x, d')"
  shows "1 \<le> as_head_count_limit i" "1 \<le> as_ttl_ms i" "assign_body h pid uuid i d = (Inr x, d')"
proof -
  have v: "validateReviewerSessionInput (as_ttl_ms i) (as_head_count_limit i) (as_worker_pid i) = None"
    using assms by (auto simp: assignReviewerSessionJob_def split: option.splits)
  then show "1 \<le> as_head_count_limit i" "1 \<le> as_ttl_ms i"
    by (auto simp: validateReviewerSessionInput_def split: if_splits)
  show "assign_body h pid uuid i d = (Inr x, d')"
    using assms v by (simp add: assignReviewerSessionJob_def transaction_result)
qed

lemma usable_survives_expiry:
  assumes "sessions_wf d" "s \<in> set (sessions d)" "session_usable now s"
  shows "s \<in> set (sessions (snd (expireReviewerSessions now repo d)))"
  using assms(2,3)
  by (force simp: expireReviewerSessions_def row_update_def session_lapsed_def session_usable_def)

text \<open>an assigned head joins an unexpired session of its repository with budget left, whose count
  grows by one and which drains exactly when the budget is used up; assigning the head again, with
  any parameters, changes nothing and returns the same job.\<close>

theorem assign_effect:
  assumes "sessions_wf d" "assignReviewerSessionJob h pid uuid i d = (Inr (Assigned s job reason), d')"
    and "as_repo i' = as_repo i" "as_pull i' = as_pull i" "as_head i' = as_head i" "as_allow_processed i'"
    and "validateReviewerSessionInput (as_ttl_ms i') (as_head_count_limit i') (as_worker_pid i') = None"
  shows "getReviewerSession (rs_session_id s) d' = Some s \<and> rs_repo s = as_repo i \<and> as_now i < rs_expires_at s \<and>
    rs_head_count_used s \<le> rs_head_count_limit s \<and> rs_last_used_at s = as_now i \<and>
    rs_state s = (if rs_head_count_used s = rs_head_count_limit s then S_draining else S_active) \<and>
    sj_key job = (as_repo i, as_pull i, as_head i) \<and> sj_session_id job = rs_session_id s \<and> sj_reason job = reason \<and>
    session_load (rs_session_id s) d' = session_load (rs_session_id s) d + 1 \<and>
    assignReviewerSessionJob h' pid' uuid' i' d' = (Inr (AlreadyAssigned (Some s) job), d')"
proof (rule assign_body_cases[OF assms(1) assign_Inr[OF assms(2)]])
  fix row r d1
  let ?s = "mapReviewerSessionRow (bump_session (mapReviewerSessionRow row) (as_now i) row)"
  assume new: "row_get sj_key (as_repo i, as_pull i, as_head i) (session_jobs d) = None"
    and d1: "sessions_wf d1" "session_jobs d1 = session_jobs d" "ready_session i row d1"
    and d': "d' = attach_job i (mapReviewerSessionRow row) r d1"
    and res: "(Inr (Assigned s job reason) :: store_error + assign_result) =
       Inr (Assigned ?s (new_session_job i (rs_session_id row) r) r)"
  have eqs: "s = ?s" "job = new_session_job i (rs_session_id row) r" "reason = r" using res by simp_all
  have row: "row_get rs_session_id (rs_session_id row) (sessions d1) = Some row" "rs_repo row = as_repo i"
    "as_now i < rs_expires_at row" "rs_head_count_used row < rs_head_count_limit row"
    using d1(3) by (simp_all add: ready_session_def session_usable_def)
  have sid: "rs_session_id s = rs_session_id row" by (simp add: eqs bump_session_def)
  have get: "getReviewerSession (rs_session_id s) d' = Some s"
    using row(1) by (simp add: sid getReviewerSession_def d' attach_job_def row_get_update_key bump_session_def eqs(1))
  have job: "row_get sj_key (as_repo i, as_pull i, as_head i) (session_jobs d') = Some job"
    using new by (simp add: d' attach_job_def d1(2) row_get_append row_get_Cons eqs(2) new_session_job_def sj_key_def)
  have key: "sj_key job = (as_repo i, as_pull i, as_head i)" "sj_session_id job = rs_session_id s" "sj_reason job = reason"
    by (simp_all add: eqs(2,3) sid new_session_job_def sj_key_def)
  have load: "session_load (rs_session_id s) d' = session_load (rs_session_id s) d + 1"
    by (simp add: session_load_def row_count_def d' attach_job_def d1(2) sid new_session_job_def)
  have again: "assignReviewerSessionJob h' pid' uuid' i' d' = (Inr (AlreadyAssigned (Some s) job), d')"
    using assms(3-7) job get key(2)
    by (simp add: assignReviewerSessionJob_def transaction_def assign_body_def Let_def getReviewerSessionJob_def)
  show ?thesis
    using get key load again row(2-4)
    by (simp add: eqs(1)) (auto simp: bump_session_def mapReviewerSessionRow_def)
qed simp_all

text \<open>a repository with a live session is not given a second one: if some session of it is open,
  unexpired, within budget and its worker runs, an assignment uses a stored session and creates none.\<close>

theorem assign_reuses_session:
  assumes "sessions_wf d" "assignReviewerSessionJob h pid uuid i d = (Inr (Assigned s job reason), d')"
    and "old \<in> set (sessions d)" "rs_repo old = as_repo i" "session_usable (as_now i) old" "worker_ok h old"
  shows "rs_session_id s \<in> rs_session_id ` set (sessions d) \<and> length (sessions d') = length (sessions d) \<and>
    reason = or_default (as_reason i) AR_same_repo_active_session"
proof (rule assign_body_cases[OF assms(1) assign_Inr[OF assms(2)]])
  fix row r d1
  let ?d0 = "snd (expireReviewerSessions (as_now i) (Some (as_repo i)) d)"
  assume d': "d' = attach_job i (mapReviewerSessionRow row) r d1" and new: "row_get sj_key (as_repo i, as_pull i, as_head i) (session_jobs d) = None"
    and same: "session_jobs d1 = session_jobs d"
    and res: "(Inr (Assigned s job reason) :: store_error + assign_result) =
       Inr (Assigned (mapReviewerSessionRow (bump_session (mapReviewerSessionRow row) (as_now i) row))
         (new_session_job i (rs_session_id row) r) r)"
    and src: "(\<exists>s. getReusableReviewerSession h (as_repo i) (as_now i) ?d0 = (Some s, d1) \<and> s = mapReviewerSessionRow row) \<or>
       (\<exists>d2. getReusableReviewerSession h (as_repo i) (as_now i) ?d0 = (None, d2) \<and>
          row = new_session_row i pid uuid \<and> row_get rs_session_id uuid (sessions d2) = None \<and>
          d1 = d2\<lparr>sessions := sessions d2 @ [row]\<rparr>)"
  have wf0: "sessions_wf ?d0" by (rule sessions_wf_expire[OF assms(1)])
  have "old \<in> set (sessions ?d0)" by (rule usable_survives_expiry[OF assms(1,3,5)])
  then have "old \<in> set (js_sort last_used_desc (filter (\<lambda>s. rs_repo s = as_repo i \<and> session_usable (as_now i) s) (sessions ?d0)))"
    using assms(4,5) by simp
  then have "fst (getReusableReviewerSession h (as_repo i) (as_now i) ?d0) \<noteq> None"
    using pick_reusable_None assms(6) unfolding getReusableReviewerSession_def by blast
  with src have re: "getReusableReviewerSession h (as_repo i) (as_now i) ?d0 = (Some (mapReviewerSessionRow row), d1)"
    by auto
  obtain row' where row': "mapReviewerSessionRow row = mapReviewerSessionRow row'" "row' \<in> set (sessions ?d0)"
    by (rule reusable_ready[OF wf0 re])
  have ids: "rs_session_id ` set (sessions ?d0) = rs_session_id ` set (sessions d)"
  proof -
    have "map rs_session_id (sessions ?d0) = map rs_session_id (sessions d)"
      by (simp add: expireReviewerSessions_def row_update_def)
    then show ?thesis by (metis set_map)
  qed
  have "rs_session_id row = rs_session_id row'"
    using arg_cong[OF row'(1), of rs_session_id] by simp
  then have "rs_session_id row \<in> rs_session_id ` set (sessions d)" using row'(2) ids by (metis imageI)
  moreover have "rs_session_id s = rs_session_id row" using res by (simp add: bump_session_def)
  moreover have "length (sessions d') = length (sessions d)"
  proof -
    have "length (sessions d1) = length (sessions ?d0)"
      using arg_cong[OF re, of "\<lambda>x. length (sessions (snd x))"] by (simp add: getReusableReviewerSession_def)
    then show ?thesis by (simp add: d' attach_job_def)
  qed
  moreover have "reason = or_default (as_reason i) AR_same_repo_active_session"
  proof -
    obtain n d0 where ex: "expireReviewerSessions (as_now i) (Some (as_repo i)) d = (n, d0)" by fastforce
    with re have re': "getReusableReviewerSession h (as_repo i) (as_now i) d0 = (Some (mapReviewerSessionRow row), d1)" by simp
    show ?thesis
      using assign_Inr(3)[OF assms(2)] ex re' new same
      by (auto simp: assign_body_def Let_def getReviewerSessionJob_def attach_job_def row_get_append row_get_Cons
          new_session_job_def sj_key_def split: if_splits option.splits)
  qed
  ultimately show ?thesis by simp
qed simp_all

section \<open>Examples\<close>

definition ex_assign :: assign_input where
  "ex_assign = \<lparr>as_repo = ''o/r'', as_pull = 1, as_head = ''h1'', as_ttl_ms = 60000, as_head_count_limit = 2,
     as_now = 1000, as_worker_pid = None, as_model = None, as_provider = None, as_zcode_cli_version = None,
     as_repo_family = None, as_reason = None, as_allow_processed = True\<rparr>"

definition ex_session_host :: host where
  "ex_session_host = \<lparr>date_parse = (\<lambda>_. None), iso_string = (\<lambda>_. []), redact = (\<lambda>s. s), alive = (\<lambda>p. p < 100)\<rparr>"

definition ex_assigned :: db where
  "ex_assigned = snd (assignReviewerSessionJob ex_session_host 7 ''s1'' ex_assign empty_db)"

definition ex_second :: "assign_result outcome" where
  "ex_second = assignReviewerSessionJob ex_session_host 7 ''s2'' (ex_assign\<lparr>as_head := ''h2''\<rparr>) ex_assigned"

lemma ex_second_eq:
  "assignReviewerSessionJob ex_session_host 7 ''s2'' (ex_assign\<lparr>as_head := ''h2''\<rparr>) ex_assigned =
   (Inr (Assigned (the (getReviewerSession ''s1'' (snd ex_second)))
      (the (getReviewerSessionJob ''o/r'' 1 ''h2'' (snd ex_second))) AR_same_repo_active_session), snd ex_second)"
  by code_simp

lemma ex_assigned_wf: "sessions_wf ex_assigned"
  by code_simp

theorem session_lifecycle_witness:
  "\<exists>s'. row_get rs_session_id ''s1'' (sessions (fold session_step [SExpire 90000 None, SReconcile ex_session_host 90001 None] ex_assigned)) = Some s' \<and>
     rs_repo s' = ''o/r''"
proof -
  let ?s = "the (row_get rs_session_id ''s1'' (sessions ex_assigned))"
  have "row_get rs_session_id ''s1'' (sessions ex_assigned) = Some ?s" "rs_repo ?s = ''o/r''" by code_simp+
  then show ?thesis
    using session_lifecycle[OF ex_assigned_wf, of "''s1''" ?s "[SExpire 90000 None, SReconcile ex_session_host 90001 None]"] by auto
qed

theorem assign_effect_witness:
  "rs_state (the (getReviewerSession ''s1'' (snd ex_second))) = S_draining \<and>
   session_load ''s1'' (snd ex_second) = session_load ''s1'' ex_assigned + 1"
proof -
  let ?s = "the (getReviewerSession ''s1'' (snd ex_second))"
  have f: "rs_session_id ?s = ''s1''" "rs_head_count_used ?s = rs_head_count_limit ?s" by code_simp+
  have "validateReviewerSessionInput (as_ttl_ms ex_assign) (as_head_count_limit ex_assign) (as_worker_pid ex_assign) = None"
    by code_simp
  from assign_effect[OF ex_assigned_wf ex_second_eq, of "ex_assign\<lparr>as_head := ''h2''\<rparr>"] this f
  show ?thesis by (simp add: ex_assign_def)
qed

theorem assign_reuses_session_witness:
  "length (sessions (snd ex_second)) = length (sessions ex_assigned)"
proof -
  let ?old = "the (row_get rs_session_id ''s1'' (sessions ex_assigned))"
  have "?old \<in> set (sessions ex_assigned)" "rs_repo ?old = as_repo (ex_assign\<lparr>as_head := ''h2''\<rparr>)"
    "session_usable (as_now (ex_assign\<lparr>as_head := ''h2''\<rparr>)) ?old" "worker_ok ex_session_host ?old"
    by code_simp+
  from assign_reuses_session[OF ex_assigned_wf ex_second_eq this] show ?thesis by simp
qed

end
