(* ===== verification/Authorizations.thy ===== *)
theory Authorizations
  imports ProcessedReviews
begin

text \<open>
  The readiness of a head and the one-shot authorizations of \<open>src/src/state.ts\<close>: an owner's
  request-changes comment is consumed once per head and ends as a posted review, a no-op or an
  incident, together with the processed row and the readiness the same transaction writes.
\<close>

section \<open>Readiness\<close>

definition getReviewReadiness :: "string \<Rightarrow> int \<Rightarrow> string \<Rightarrow> db \<Rightarrow> readiness_row option" where
  "getReviewReadiness repo pull head d =
     map_option mapReviewReadinessRow (row_get rr_key (repo, pull, head) (readiness d))"

record readiness_input =
  ri_repo :: string
  ri_pull :: int
  ri_head :: string
  ri_state :: readiness_state
  ri_reason :: "string option"
  ri_event :: "review_event option"
  ri_review_url :: "string option"
  ri_command_action :: "command_action option"
  ri_command_comment_id :: "int option"
  ri_clear_command :: bool
  ri_now :: int

definition clean_text :: "host \<Rightarrow> string \<Rightarrow> string" where
  "clean_text h s = take 500 (trim (redact h s))"

text \<open>The \<open>on conflict\<close> clause: everything but the creation time is replaced.\<close>

definition merge_readiness :: "readiness_row \<Rightarrow> readiness_row \<Rightarrow> readiness_row" where
  "merge_readiness old new = new\<lparr>rr_created_at := rr_created_at old\<rparr>"

definition readiness_target :: "host \<Rightarrow> readiness_input \<Rightarrow> readiness_row option \<Rightarrow> readiness_row" where
  "readiness_target h i existing =
     (let old = (\<lambda>f. case existing of None \<Rightarrow> None | Some r \<Rightarrow> f r)
      in \<lparr>rr_repo = ri_repo i, rr_pull = ri_pull i, rr_head = ri_head i, rr_state = ri_state i,
          rr_reason = map_option (clean_text h) (truthy (ri_reason i)),
          rr_event = coalesce (ri_event i) (case existing of None \<Rightarrow> None | Some r \<Rightarrow> rr_event r),
          rr_review_url = (case truthy (ri_review_url i) of Some u \<Rightarrow> Some (clean_text h u)
            | None \<Rightarrow> old rr_review_url),
          rr_command_action = (if ri_clear_command i then None
            else coalesce (ri_command_action i) (case existing of None \<Rightarrow> None | Some r \<Rightarrow> rr_command_action r)),
          rr_command_comment_id = (if ri_clear_command i then None
            else coalesce (ri_command_comment_id i) (case existing of None \<Rightarrow> None | Some r \<Rightarrow> rr_command_comment_id r)),
          rr_created_at = (case existing of None \<Rightarrow> ri_now i | Some r \<Rightarrow> rr_created_at r),
          rr_updated_at = ri_now i\<rparr>)"

definition same_readiness :: "readiness_row \<Rightarrow> readiness_row \<Rightarrow> bool" where
  "same_readiness a b \<longleftrightarrow> rr_state a = rr_state b \<and> rr_reason a = rr_reason b \<and> rr_event a = rr_event b
     \<and> rr_review_url a = rr_review_url b \<and> rr_command_action a = rr_command_action b
     \<and> rr_command_comment_id a = rr_command_comment_id b"

definition recordReviewReadiness :: "host \<Rightarrow> readiness_input \<Rightarrow> db \<Rightarrow> readiness_row outcome" where
  "recordReviewReadiness h i d =
     (case validateReviewQueueInput (ri_repo i) (ri_pull i) (ri_head i) None (ri_command_comment_id i) of
        Some e \<Rightarrow> (Inl e, d)
      | None \<Rightarrow>
         (let existing = getReviewReadiness (ri_repo i) (ri_pull i) (ri_head i) d;
              target = readiness_target h i existing
          in case existing of
               Some old \<Rightarrow>
                 if same_readiness old target then (Inr old, d)
                 else (let d' = d\<lparr>readiness := row_upsert rr_key merge_readiness target (readiness d)\<rparr>
                       in (Inr (the (getReviewReadiness (ri_repo i) (ri_pull i) (ri_head i) d')), d'))
             | None \<Rightarrow>
                 (let d' = d\<lparr>readiness := row_upsert rr_key merge_readiness target (readiness d)\<rparr>
                  in (Inr (the (getReviewReadiness (ri_repo i) (ri_pull i) (ri_head i) d')), d'))))"

section \<open>Consuming an authorization\<close>

record auth_input =
  ai_repo :: string
  ai_pull :: int
  ai_head :: string
  ai_comment_id :: int
  ai_author :: string
  ai_now :: int

definition ai_key :: "'a auth_input_scheme \<Rightarrow> head_key" where
  "ai_key i = (ai_repo i, ai_pull i, to_lower (ai_head i))"

definition validate_auth :: "'a auth_input_scheme \<Rightarrow> store_error option" where
  "validate_auth i = validateReviewEventAuthorizationConsumption (ai_repo i) (ai_pull i) (ai_head i)
     (ai_comment_id i) (ai_author i)"

definition fresh_consumption :: "auth_input \<Rightarrow> consumption_row" where
  "fresh_consumption i = \<lparr>co_repo = ai_repo i, co_pull = ai_pull i, co_head = to_lower (ai_head i),
     co_comment_id = ai_comment_id i, co_author = ai_author i, co_consumed_at = ai_now i,
     co_posted_event = None, co_review_url = None, co_posted_at = None, co_terminal_no_op = False,
     co_terminal_reason = None, co_terminal_at = None, co_incident_error = None,
     co_incident_comment_id = None, co_incident_at = None\<rparr>"

definition tryConsumeReviewEventAuthorization :: "auth_input \<Rightarrow> db \<Rightarrow> bool outcome" where
  "tryConsumeReviewEventAuthorization i d =
     (case validate_auth i of Some e \<Rightarrow> (Inl e, d)
      | None \<Rightarrow> (case row_get co_key (ai_key i) (consumptions d) of
          Some _ \<Rightarrow> (Inr False, d)
        | None \<Rightarrow> (Inr True, d\<lparr>consumptions := consumptions d @ [fresh_consumption i]\<rparr>)))"

definition map_consumption_row :: "consumption_row \<Rightarrow> consumption_row" where
  "map_consumption_row r = r\<lparr>co_review_url := truthy (co_review_url r),
     co_terminal_reason := truthy (co_terminal_reason r), co_incident_error := truthy (co_incident_error r),
     co_incident_comment_id := (if co_incident_comment_id r = Some 0 then None else co_incident_comment_id r)\<rparr>"

definition getReviewEventAuthorizationConsumption ::
  "string \<Rightarrow> int \<Rightarrow> string \<Rightarrow> db \<Rightarrow> store_error + consumption_row option" where
  "getReviewEventAuthorizationConsumption repo pull head d =
     (case validateReviewEventAuthorizationCoordinates repo pull head of Some e \<Rightarrow> Inl e
      | None \<Rightarrow> Inr (map_option map_consumption_row (row_get co_key (repo, pull, to_lower head) (consumptions d))))"

section \<open>The authorized review is posted\<close>

record posted_input = auth_input +
  po_event :: review_event
  po_review_url :: string
  po_base_ref :: "string option"
  po_base_sha :: "string option"
  po_diff_fingerprint :: "string option"
  po_preserve_blocking :: bool

definition exact_consumption :: "'a auth_input_scheme \<Rightarrow> consumption_row \<Rightarrow> bool" where
  "exact_consumption i r \<longleftrightarrow> co_key r = ai_key i \<and> co_comment_id r = ai_comment_id i \<and> co_author r = ai_author i"

definition posted_receipt :: "posted_input \<Rightarrow> consumption_row \<Rightarrow> consumption_row" where
  "posted_receipt i r = r\<lparr>co_posted_event := Some (po_event i), co_review_url := Some (po_review_url i),
     co_posted_at := Some (ai_now i), co_terminal_no_op := False, co_terminal_reason := None,
     co_terminal_at := None, co_incident_error := None, co_incident_comment_id := None, co_incident_at := None\<rparr>"

definition posted_processed_row :: "posted_input \<Rightarrow> processed_row" where
  "posted_processed_row i = \<lparr>pr_repo = ai_repo i, pr_pull = ai_pull i, pr_head = ai_head i, pr_status = P_posted,
     pr_config_revision = None, pr_base_ref = po_base_ref i, pr_base_sha = po_base_sha i,
     pr_diff_fingerprint = po_diff_fingerprint i, pr_carried_from_head = None, pr_event = Some (po_event i),
     pr_review_url = Some (po_review_url i), pr_error = None, pr_created_at = ai_now i\<rparr>"

definition keeps_blocking :: "posted_input \<Rightarrow> processed_row option \<Rightarrow> bool" where
  "keeps_blocking i existing \<longleftrightarrow> po_preserve_blocking i \<and>
     (case existing of None \<Rightarrow> False
      | Some p \<Rightarrow> pr_status p = P_posted \<and> pr_event p = Some EV_REQUEST_CHANGES \<and> pr_error p = None)"

definition readiness_state_of_event :: "review_event \<Rightarrow> readiness_state" where
  "readiness_state_of_event e = (if e = EV_REQUEST_CHANGES then R_needs_fix else R_ready_for_human)"

definition readiness_reason_of_event :: "review_event \<Rightarrow> string" where
  "readiness_reason_of_event e =
     (if e = EV_REQUEST_CHANGES then ''request_changes_review_posted'' else ''comment_review_posted'')"

definition posted_readiness_row ::
  "posted_input \<Rightarrow> review_event \<Rightarrow> string option \<Rightarrow> readiness_row option \<Rightarrow> readiness_row" where
  "posted_readiness_row i event url existing = \<lparr>rr_repo = ai_repo i, rr_pull = ai_pull i, rr_head = ai_head i,
     rr_state = readiness_state_of_event event, rr_reason = Some (readiness_reason_of_event event),
     rr_event = Some event, rr_review_url = url, rr_command_action = Some CA_request_changes,
     rr_command_comment_id = Some (ai_comment_id i),
     rr_created_at = (case existing of None \<Rightarrow> ai_now i | Some r \<Rightarrow> rr_created_at r),
     rr_updated_at = ai_now i\<rparr>"

definition drop_claims :: "head_key \<Rightarrow> db \<Rightarrow> db" where
  "drop_claims k d = d\<lparr>claims := row_delete (\<lambda>c. hc_key c = k) (claims d)\<rparr>"

definition posted_body :: "posted_input \<Rightarrow> db \<Rightarrow> unit outcome" where
  "posted_body i d =
     (let existing = getProcessedReview (ai_repo i) (ai_pull i) (ai_head i) d;
          preserve = keeps_blocking i existing;
          d1 = d\<lparr>consumptions := row_update (exact_consumption i) (posted_receipt i) (consumptions d)\<rparr>
      in if row_count (exact_consumption i) (consumptions d) \<noteq> 1 then (Inl NoConsumption, d1)
         else (let d2 = (if preserve then d1 else d1\<lparr>processed :=
                     row_upsert pr_key merge_processed (posted_processed_row i) (processed d1)\<rparr>);
                   event = (if preserve then EV_REQUEST_CHANGES else po_event i);
                   url = (if preserve then (case existing of None \<Rightarrow> None | Some p \<Rightarrow> pr_review_url p)
                          else Some (po_review_url i));
                   oldReadiness = getReviewReadiness (ai_repo i) (ai_pull i) (ai_head i) d2;
                   d3 = d2\<lparr>readiness := row_upsert rr_key merge_readiness
                          (posted_readiness_row i event url oldReadiness) (readiness d2)\<rparr>
               in (Inr (), drop_claims (ai_repo i, ai_pull i, ai_head i) d3)))"

definition recordAuthorizedReviewPosted :: "posted_input \<Rightarrow> db \<Rightarrow> unit outcome" where
  "recordAuthorizedReviewPosted i d =
     (case validate_auth i of Some e \<Rightarrow> (Inl e, d)
      | None \<Rightarrow> if \<not> starts_with ''https://github.com/'' (po_review_url i) then (Inl BadReviewUrl, d)
                else transaction (posted_body i) d)"

section \<open>The authorized review is a no-op\<close>

record noop_input = auth_input +
  no_reason :: string

definition consumption_closed :: "consumption_row \<Rightarrow> bool" where
  "consumption_closed r \<longleftrightarrow> co_posted_at r \<noteq> None \<or> co_terminal_at r \<noteq> None"

definition matching_advisory :: "readiness_row option \<Rightarrow> processed_row option \<Rightarrow> bool" where
  "matching_advisory rd p \<longleftrightarrow> (case rd of None \<Rightarrow> False
     | Some r \<Rightarrow> rr_state r = R_ready_for_human \<and> rr_event r = Some EV_COMMENT
         \<and> rr_review_url r = (case p of None \<Rightarrow> None | Some q \<Rightarrow> pr_review_url q))"

definition matching_scheduler :: "int \<Rightarrow> readiness_row option \<Rightarrow> processed_row option \<Rightarrow> bool" where
  "matching_scheduler comment rd p \<longleftrightarrow> (case rd of None \<Rightarrow> False
     | Some r \<Rightarrow> (rr_state r = R_queued \<or> rr_state r = R_reviewing) \<and> rr_event r = Some EV_COMMENT
         \<and> rr_review_url r = (case p of None \<Rightarrow> None | Some q \<Rightarrow> pr_review_url q)
         \<and> rr_command_action r = Some CA_request_changes \<and> rr_command_comment_id r = Some comment)"

definition recoverable_incident :: "consumption_row \<Rightarrow> readiness_row option \<Rightarrow> bool" where
  "recoverable_incident c rd \<longleftrightarrow> co_incident_at c \<noteq> None \<and> truthy (co_incident_error c) \<noteq> None
     \<and> co_incident_comment_id c \<noteq> None \<and> co_incident_comment_id c \<noteq> Some 0
     \<and> (case rd of None \<Rightarrow> False
        | Some r \<Rightarrow> rr_state r = R_failed \<and> rr_reason r = co_incident_error c
            \<and> rr_command_action r = Some CA_request_changes
            \<and> rr_command_comment_id r = co_incident_comment_id c)"

definition noop_receipt :: "noop_input \<Rightarrow> consumption_row \<Rightarrow> consumption_row" where
  "noop_receipt i r = r\<lparr>co_terminal_no_op := True, co_terminal_reason := Some (no_reason i),
     co_terminal_at := Some (ai_now i), co_incident_error := None, co_incident_comment_id := None,
     co_incident_at := None\<rparr>"

definition restored_readiness :: "noop_input \<Rightarrow> string option \<Rightarrow> readiness_row \<Rightarrow> readiness_row" where
  "restored_readiness i url r = r\<lparr>rr_state := R_ready_for_human, rr_reason := Some ''comment_review_posted'',
     rr_event := Some EV_COMMENT, rr_review_url := url, rr_command_action := Some CA_request_changes,
     rr_command_comment_id := Some (ai_comment_id i), rr_updated_at := ai_now i\<rparr>"

text \<open>The readiness rows the two restoring updates match.\<close>

definition incident_readiness :: "noop_input \<Rightarrow> consumption_row \<Rightarrow> readiness_row \<Rightarrow> bool" where
  "incident_readiness i c r \<longleftrightarrow> rr_key r = (ai_repo i, ai_pull i, ai_head i) \<and> rr_state r = R_failed
     \<and> rr_reason r = co_incident_error c \<and> co_incident_error c \<noteq> None
     \<and> rr_command_action r = Some CA_request_changes
     \<and> rr_command_comment_id r = co_incident_comment_id c \<and> co_incident_comment_id c \<noteq> None"

definition scheduler_readiness :: "noop_input \<Rightarrow> string option \<Rightarrow> readiness_row \<Rightarrow> bool" where
  "scheduler_readiness i url r \<longleftrightarrow> rr_key r = (ai_repo i, ai_pull i, ai_head i)
     \<and> (rr_state r = R_queued \<or> rr_state r = R_reviewing) \<and> rr_event r = Some EV_COMMENT
     \<and> url \<noteq> None \<and> rr_review_url r = url \<and> rr_command_action r = Some CA_request_changes
     \<and> rr_command_comment_id r = Some (ai_comment_id i)"

definition restore_readiness ::
  "noop_input \<Rightarrow> string option \<Rightarrow> (readiness_row \<Rightarrow> bool) \<Rightarrow> db \<Rightarrow> unit outcome" where
  "restore_readiness i url P d =
     (let d' = d\<lparr>readiness := row_update P (restored_readiness i url) (readiness d)\<rparr>
      in if row_count P (readiness d) \<noteq> 1 then (Inl LostReadiness, d') else (Inr (), d'))"

text \<open>The writing half: close the consumption, restore the readiness, drop the claim.\<close>

definition noop_restore :: "noop_input \<Rightarrow> consumption_row \<Rightarrow> bool \<Rightarrow> bool \<Rightarrow> string option \<Rightarrow> db \<Rightarrow> unit outcome" where
  "noop_restore i c recoverable scheduler url d =
     (if recoverable then restore_readiness i url (incident_readiness i c) d
      else if scheduler then restore_readiness i url (scheduler_readiness i url) d
      else (Inr (), d))"

definition open_exact :: "noop_input \<Rightarrow> consumption_row \<Rightarrow> bool" where
  "open_exact i r \<longleftrightarrow> exact_consumption i r \<and> \<not> consumption_closed r"

definition noop_close :: "noop_input \<Rightarrow> consumption_row \<Rightarrow> bool \<Rightarrow> bool \<Rightarrow> string option \<Rightarrow> db \<Rightarrow> bool outcome" where
  "noop_close i c recoverable scheduler url d =
     (let d1 = d\<lparr>consumptions := row_update (open_exact i) (noop_receipt i) (consumptions d)\<rparr>
      in if row_count (open_exact i) (consumptions d) \<noteq> 1
         then (case row_get co_key (ai_key i) (consumptions d1) of
                 None \<Rightarrow> (Inl NoConsumption, d1)
               | Some e \<Rightarrow> if consumption_closed e then (Inr False, d1) else (Inl NoConsumption, d1))
         else (case noop_restore i c recoverable scheduler url d1 of
                 (Inl e, d2) \<Rightarrow> (Inl e, d2)
               | (Inr _, d2) \<Rightarrow> (Inr True, drop_claims (ai_repo i, ai_pull i, ai_head i) d2)))"

definition is_posted_comment :: "processed_row option \<Rightarrow> bool" where
  "is_posted_comment p \<longleftrightarrow> (case p of None \<Rightarrow> False
     | Some q \<Rightarrow> pr_status q = P_posted \<and> pr_event q = Some EV_COMMENT \<and> pr_review_url q \<noteq> None)"

definition noop_body :: "noop_input \<Rightarrow> db \<Rightarrow> bool outcome" where
  "noop_body i d =
     (case row_get co_key (ai_key i) (consumptions d) of
        None \<Rightarrow> (Inl NoConsumption, d)
      | Some c \<Rightarrow>
          if consumption_closed c then (Inr False, d)
          else if co_comment_id c \<noteq> ai_comment_id i \<or> co_author c \<noteq> ai_author i then (Inl DifferentAuthorization, d)
          else
            (let p = getProcessedReview (ai_repo i) (ai_pull i) (ai_head i) d;
                 rd = getReviewReadiness (ai_repo i) (ai_pull i) (ai_head i) d;
                 scheduler = matching_scheduler (ai_comment_id i) rd p;
                 recoverable = recoverable_incident c rd
             in if \<not> is_posted_comment p \<or> (\<not> matching_advisory rd p \<and> \<not> scheduler \<and> \<not> recoverable)
                then (Inl NoopNeedsPostedComment, d)
                else noop_close i c recoverable scheduler (case p of None \<Rightarrow> None | Some q \<Rightarrow> pr_review_url q) d))"

definition recordAuthorizedReviewNoop :: "noop_input \<Rightarrow> db \<Rightarrow> bool outcome" where
  "recordAuthorizedReviewNoop i d =
     (case validate_auth i of Some e \<Rightarrow> (Inl e, d) | None \<Rightarrow> transaction (noop_body i) d)"

section \<open>An incident\<close>

record incident_input =
  in_repo :: string
  in_pull :: int
  in_head :: string
  in_trigger_comment_id :: int
  in_error :: string
  in_now :: int

definition incident_readiness_row :: "incident_input \<Rightarrow> string \<Rightarrow> readiness_row option \<Rightarrow> readiness_row" where
  "incident_readiness_row i err existing = \<lparr>rr_repo = in_repo i, rr_pull = in_pull i, rr_head = in_head i,
     rr_state = R_failed, rr_reason = Some err, rr_event = None, rr_review_url = None,
     rr_command_action = Some CA_request_changes, rr_command_comment_id = Some (in_trigger_comment_id i),
     rr_created_at = (case existing of None \<Rightarrow> in_now i | Some r \<Rightarrow> rr_created_at r), rr_updated_at = in_now i\<rparr>"

definition incident_body :: "incident_input \<Rightarrow> string \<Rightarrow> db \<Rightarrow> bool outcome" where
  "incident_body i err d =
     (let k = (in_repo i, in_pull i, to_lower (in_head i));
          open_row = (\<lambda>r. co_key r = k \<and> \<not> consumption_closed r);
          d1 = d\<lparr>consumptions := row_update open_row (\<lambda>r. r\<lparr>co_incident_error := Some err,
                 co_incident_comment_id := Some (in_trigger_comment_id i),
                 co_incident_at := Some (in_now i)\<rparr>) (consumptions d)\<rparr>
      in if row_count open_row (consumptions d) \<noteq> 1
         then (case row_get co_key k (consumptions d1) of
                 None \<Rightarrow> (Inl NoConsumption, d1)
               | Some e \<Rightarrow> if consumption_closed e then (Inr False, d1) else (Inl NoConsumption, d1))
         else (let existing = getReviewReadiness (in_repo i) (in_pull i) (in_head i) d1
               in (Inr True, d1\<lparr>readiness := row_upsert rr_key merge_readiness
                     (incident_readiness_row i err existing) (readiness d1)\<rparr>)))"

definition recordReviewEventAuthorizationIncident :: "host \<Rightarrow> incident_input \<Rightarrow> db \<Rightarrow> bool outcome" where
  "recordReviewEventAuthorizationIncident h i d =
     (case validateReviewEventAuthorizationCoordinates (in_repo i) (in_pull i) (in_head i) of
        Some e \<Rightarrow> (Inl e, d)
      | None \<Rightarrow>
          if in_trigger_comment_id i < 1 then (Inl BadTriggerCommentId, d)
          else (let err = clean_text h (in_error i)
                in if err = [] then (Inl BadErrorText, d) else transaction (incident_body i err) d))"


section \<open>An authorization is consumed once\<close>

definition auth_wf :: "db \<Rightarrow> bool" where
  "auth_wf d \<longleftrightarrow> unique_rows co_key (consumptions d) \<and> unique_rows rr_key (readiness d)"

datatype auth_op =
    AConsume auth_input
  | APosted posted_input
  | ANoop noop_input
  | AIncident host incident_input
  | AReadiness host readiness_input
  | AHead head_op

fun auth_step :: "auth_op \<Rightarrow> db \<Rightarrow> db" where
  "auth_step (AConsume i) d = snd (tryConsumeReviewEventAuthorization i d)"
| "auth_step (APosted i) d = snd (recordAuthorizedReviewPosted i d)"
| "auth_step (ANoop i) d = snd (recordAuthorizedReviewNoop i d)"
| "auth_step (AIncident h i) d = snd (recordReviewEventAuthorizationIncident h i d)"
| "auth_step (AReadiness h i) d = snd (recordReviewReadiness h i d)"
| "auth_step (AHead op) d = apply_head_op op d"

definition consumed :: "head_key \<Rightarrow> db \<Rightarrow> bool" where
  "consumed k d \<longleftrightarrow> k \<in> co_key ` set (consumptions d)"

lemma consumed_get: "consumed k d \<longleftrightarrow> row_get co_key k (consumptions d) \<noteq> None"
  by (simp add: consumed_def row_get_None_iff del: not_None_eq)

lemma consumed_update:
  "(\<And>r. co_key (f r) = co_key r) \<Longrightarrow> consumed k (d\<lparr>consumptions := row_update P f (consumptions d)\<rparr>) = consumed k d"
proof -
  assume f: "\<And>r. co_key (f r) = co_key r"
  have "map co_key (row_update P f (consumptions d)) = map co_key (consumptions d)"
    by (simp add: row_update_def f)
  then show ?thesis by (simp add: consumed_def) (metis set_map)
qed

lemma consumed_cong: "consumptions d' = consumptions d \<Longrightarrow> consumed k d' = consumed k d"
  by (simp add: consumed_def)

lemma receipt_keys [simp]:
  "co_key (posted_receipt i r) = co_key r" "co_key (noop_receipt j r) = co_key r"
  "co_key (r\<lparr>co_incident_error := a, co_incident_comment_id := b, co_incident_at := c\<rparr>) = co_key r"
  by (simp_all add: posted_receipt_def noop_receipt_def co_key_def)

lemma consumed_transaction:
  "consumed k d \<Longrightarrow> consumed k (snd (body d)) \<Longrightarrow> consumed k (snd (transaction body d))"
  by (auto simp: snd_transaction split: sum.split)

lemma consumptions_restore [simp]: "consumptions (snd (restore_readiness i url P d)) = consumptions d"
  by (simp add: restore_readiness_def Let_def)

lemma consumptions_drop_claims [simp]: "consumptions (drop_claims k d) = consumptions d"
  by (simp add: drop_claims_def)

lemma consumed_posted: "consumed k d \<Longrightarrow> consumed k (snd (posted_body i d))"
proof -
  assume c: "consumed k d"
  have "consumptions (snd (posted_body i d)) =
      consumptions (d\<lparr>consumptions := row_update (exact_consumption i) (posted_receipt i) (consumptions d)\<rparr>)"
    by (simp add: posted_body_def Let_def)
  from consumed_cong[OF this, of k] c show ?thesis by (simp add: consumed_update)
qed

lemma noop_restore_frame [simp]:
  "consumptions (snd (noop_restore i c rec sch url d)) = consumptions d"
  "processed (snd (noop_restore i c rec sch url d)) = processed d"
  by (simp_all add: noop_restore_def restore_readiness_def Let_def)

lemma noop_close_frame:
  "consumptions (snd (noop_close i c rec sch url d)) = row_update (open_exact i) (noop_receipt i) (consumptions d)"
  "processed (snd (noop_close i c rec sch url d)) = processed d"
proof -
  let ?d1 = "d\<lparr>consumptions := row_update (open_exact i) (noop_receipt i) (consumptions d)\<rparr>"
  obtain r d2 where n: "noop_restore i c rec sch url ?d1 = (r, d2)" by fastforce
  have f: "consumptions d2 = row_update (open_exact i) (noop_receipt i) (consumptions d)" "processed d2 = processed d"
    using noop_restore_frame[of i c rec sch url ?d1] by (simp_all add: n)
  have "processed (drop_claims k d2) = processed d2" for k by (simp add: drop_claims_def)
  with f show "consumptions (snd (noop_close i c rec sch url d)) = row_update (open_exact i) (noop_receipt i) (consumptions d)"
    "processed (snd (noop_close i c rec sch url d)) = processed d"
    by (simp_all add: noop_close_def Let_def n split: option.split sum.split)
qed

lemma consumed_noop: "consumed k d \<Longrightarrow> consumed k (snd (noop_body i d))"
proof -
  assume c: "consumed k d"
  have "consumptions (snd (noop_body i d)) = consumptions d \<or>
      consumptions (snd (noop_body i d)) = row_update (open_exact i) (noop_receipt i) (consumptions d)"
    by (simp add: noop_body_def Let_def noop_close_frame split: option.split)
  then show ?thesis
  proof
    assume "consumptions (snd (noop_body i d)) = consumptions d"
    then show ?thesis using c by (simp add: consumed_def)
  next
    assume "consumptions (snd (noop_body i d)) = row_update (open_exact i) (noop_receipt i) (consumptions d)"
    then have "consumed k (snd (noop_body i d)) =
        consumed k (d\<lparr>consumptions := row_update (open_exact i) (noop_receipt i) (consumptions d)\<rparr>)"
      by (simp add: consumed_def)
    then show ?thesis using c by (simp add: consumed_update)
  qed
qed

lemma consumed_incident: "consumed k d \<Longrightarrow> consumed k (snd (incident_body i err d))"
proof -
  assume c: "consumed k d"
  let ?d1 = "d\<lparr>consumptions := row_update (\<lambda>r. co_key r = (in_repo i, in_pull i, to_lower (in_head i)) \<and> \<not> consumption_closed r)
      (\<lambda>r. r\<lparr>co_incident_error := Some err, co_incident_comment_id := Some (in_trigger_comment_id i),
                 co_incident_at := Some (in_now i)\<rparr>) (consumptions d)\<rparr>"
  have "consumptions (snd (incident_body i err d)) = consumptions ?d1"
    by (simp add: incident_body_def Let_def split: option.split)
  from consumed_cong[OF this, of k] c show ?thesis by (simp add: consumed_update)
qed

lemma consumptions_readiness [simp]: "consumptions (snd (recordReviewReadiness h i d)) = consumptions d"
  by (simp add: recordReviewReadiness_def Let_def split: option.split)

lemma consumptions_head_op [simp]: "consumptions (apply_head_op op d) = consumptions d"
proof (cases op)
  case (HClaim i u clock)
  then show ?thesis
    by (cases rule: claim_cases[of i u clock d])
      (simp_all add: claim_blocked_active claim_blocked_processed claim_free after_acquire_def)
qed (simp_all add: releaseReviewHeadClaim_def recordProcessed_def recordBaseMergeOnlySkip_def tryRecordDryRun_def
    clearAuthorGateSkip_def Let_def split: option.split)

definition consume_refused :: "auth_input \<Rightarrow> db \<Rightarrow> bool" where
  "consume_refused i d \<longleftrightarrow> fst (tryConsumeReviewEventAuthorization i d) \<noteq> Inr True"

interpretation consumption_hold: exclusive_hold consumed auth_step "\<lambda>k op. False" "\<lambda>k i. ai_key i = k" consume_refused
proof unfold_locales
  fix k d op
  assume k: "consumed k d"
  show "consumed k (auth_step op d)"
  proof (cases op)
    case (AConsume i)
    then show ?thesis using k by (auto simp: tryConsumeReviewEventAuthorization_def consumed_def split: option.split)
  next
    case (APosted i)
    then show ?thesis using k consumed_transaction[where body = "posted_body i", OF k consumed_posted[OF k]]
      by (simp add: recordAuthorizedReviewPosted_def split: option.split)
  next
    case (ANoop i)
    then show ?thesis using k consumed_transaction[where body = "noop_body i", OF k consumed_noop[OF k]]
      by (simp add: recordAuthorizedReviewNoop_def split: option.split)
  next
    case (AIncident h i)
    then show ?thesis using k consumed_transaction[where body = "incident_body i (clean_text h (in_error i))", OF k consumed_incident[OF k]]
      by (simp add: recordReviewEventAuthorizationIncident_def Let_def split: option.split)
  qed (use k in \<open>simp_all add: consumed_def\<close>)
next
  fix k d and i :: auth_input
  assume "consumed k d" "ai_key i = k"
  then show "consume_refused i d"
    by (auto simp: consume_refused_def consumed_get tryConsumeReviewEventAuthorization_def split: option.split)
qed

text \<open>C11: the authorization of a head is consumed at most once, in whatever case the head is written and
  by whatever comment or author it is claimed again, across every later posting, no-op, incident,
  claim, processed row and readiness update.\<close>

theorem authorization_consumed_once:
  assumes "tryConsumeReviewEventAuthorization i d = (Inr True, d')"
    and "ai_repo j = ai_repo i" "ai_pull j = ai_pull i" "to_lower (ai_head j) = to_lower (ai_head i)"
  shows "fst (tryConsumeReviewEventAuthorization j (fold auth_step ops d')) \<noteq> Inr True"
proof -
  have "consumed (ai_key i) d'"
    using assms(1) by (auto simp: tryConsumeReviewEventAuthorization_def consumed_def ai_key_def
        fresh_consumption_def co_key_def split: option.splits)
  moreover have "ai_key j = ai_key i" using assms(2-4) by (simp add: ai_key_def)
  moreover have "list_all (\<lambda>op. \<not> False) ops" by (simp add: list_all_iff)
  ultimately show ?thesis using consumption_hold.run_refuses[of "ai_key i" d' ops j] by (simp add: consume_refused_def)
qed

section \<open>Posting, closing and readiness agree\<close>

lemma rr_key_target [simp]: "rr_key (posted_readiness_row i e u x) = (ai_repo i, ai_pull i, ai_head i)"
  "rr_key (incident_readiness_row j err y) = (in_repo j, in_pull j, in_head j)"
  "rr_key (readiness_target h ri z) = (ri_repo ri, ri_pull ri, ri_head ri)"
  by (simp_all add: posted_readiness_row_def incident_readiness_row_def readiness_target_def rr_key_def Let_def)

lemma merge_readiness_key: "rr_key old = rr_key new \<Longrightarrow> rr_key (merge_readiness old new) = rr_key new"
  by (simp add: merge_readiness_def rr_key_def)

lemma merge_readiness_simps [simp]:
  "rr_state (merge_readiness old new) = rr_state new" "rr_event (merge_readiness old new) = rr_event new"
  "rr_review_url (merge_readiness old new) = rr_review_url new" "rr_reason (merge_readiness old new) = rr_reason new"
  "rr_created_at (merge_readiness old new) = rr_created_at old"
  by (simp_all add: merge_readiness_def)

lemma readiness_upsert_get:
  "getReviewReadiness repo pull head (d\<lparr>readiness := row_upsert rr_key merge_readiness new (readiness d)\<rparr>) =
     (if (repo, pull, head) = rr_key new
      then Some (mapReviewReadinessRow (case row_get rr_key (rr_key new) (readiness d) of None \<Rightarrow> new
         | Some old \<Rightarrow> merge_readiness old new))
      else getReviewReadiness repo pull head d)"
  by (auto simp: getReviewReadiness_def row_get_upsert merge_readiness_key)

lemma posted_processed_key [simp]: "pr_key (posted_processed_row i) = (ai_repo i, ai_pull i, ai_head i)"
  by (simp add: posted_processed_row_def pr_key_def)

lemma github_url_truthy: "starts_with ''https://github.com/'' u \<Longrightarrow> truthy (Some u) = Some u"
  by (cases u) auto

lemma posted_row_simps:
  "rr_state (posted_readiness_row i e x y) = readiness_state_of_event e"
  "rr_event (posted_readiness_row i e x y) = Some e" "rr_review_url (posted_readiness_row i e x y) = x"
  "pr_status (posted_processed_row i) = P_posted" "pr_error (posted_processed_row i) = None"
  "pr_event (posted_processed_row i) = Some (po_event i)" "pr_review_url (posted_processed_row i) = Some (po_review_url i)"
  "pr_status (merge_processed o' (posted_processed_row i)) = P_posted"
  "pr_error (merge_processed o' (posted_processed_row i)) = None"
  "pr_event (merge_processed o' (posted_processed_row i)) = Some (po_event i)"
  "pr_review_url (merge_processed o' (posted_processed_row i)) = Some (po_review_url i)"
  by (simp_all add: posted_readiness_row_def merge_processed_def posted_processed_row_def BASE_MERGE_ONLY_def)

lemma posted_receipt_stored:
  assumes "row_count (exact_consumption i) rows = 1"
  shows "\<exists>c \<in> set (row_update (exact_consumption i) (posted_receipt i) rows).
    exact_consumption i c \<and> co_posted_at c = Some (ai_now i) \<and> co_posted_event c = Some (po_event i)"
proof -
  obtain c where c: "c \<in> set rows" "exact_consumption i c"
    using assms by (metis row_count_def filter_False length_0_conv zero_neq_one)
  then have "posted_receipt i c \<in> set (row_update (exact_consumption i) (posted_receipt i) rows)" by (force simp: row_update_def)
  moreover have "exact_consumption i (posted_receipt i c)" "co_posted_at (posted_receipt i c) = Some (ai_now i)"
    "co_posted_event (posted_receipt i c) = Some (po_event i)"
    using c(2) by (simp_all add: exact_consumption_def co_key_def posted_receipt_def)
  ultimately show ?thesis by blast
qed

text \<open>C26: recording an authorized review either fails and changes nothing, or links the receipt to the
  review, leaves the head's processed row posted without an error and the readiness telling the same
  event and URL, needs-fix exactly when changes are requested; a posted blocking review the caller
  asks to preserve keeps its row, and the head's claim is gone.\<close>

theorem authorized_post_effect:
  assumes "recordAuthorizedReviewPosted i d = (res, d')"
  shows "case res of Inl e \<Rightarrow> d' = d
    | Inr u \<Rightarrow> (let k = (ai_repo i, ai_pull i, ai_head i);
           p = getProcessedReview (ai_repo i) (ai_pull i) (ai_head i) d';
           r = getReviewReadiness (ai_repo i) (ai_pull i) (ai_head i) d' in
        map_option pr_status p = Some P_posted \<and> map_option pr_error p = Some None \<and>
        map_option rr_event r = map_option pr_event p \<and>
        map_option rr_review_url r = map_option pr_review_url p \<and>
        map_option rr_state r = Some (if map_option pr_event p = Some (Some EV_REQUEST_CHANGES) then R_needs_fix
           else R_ready_for_human) \<and>
        (if keeps_blocking i (getProcessedReview (ai_repo i) (ai_pull i) (ai_head i) d)
         then p = getProcessedReview (ai_repo i) (ai_pull i) (ai_head i) d
         else map_option pr_event p = Some (Some (po_event i)) \<and> map_option pr_review_url p = Some (Some (po_review_url i))) \<and>
        row_get hc_key k (claims d') = None \<and>
        (\<exists>c \<in> set (consumptions d'). exact_consumption i c \<and> co_posted_at c = Some (ai_now i)
           \<and> co_posted_event c = Some (po_event i)))"
proof (cases res)
  case (Inl e)
  then show ?thesis
    using assms by (auto simp: recordAuthorizedReviewPosted_def split: option.splits if_splits dest: transaction_error)
next
  case (Inr u)
  then have url: "starts_with ''https://github.com/'' (po_review_url i)" and body: "posted_body i d = (Inr (), d')"
    using assms by (auto simp: recordAuthorizedReviewPosted_def transaction_result split: option.splits if_splits)
  let ?k = "(ai_repo i, ai_pull i, ai_head i)"
  let ?old = "getProcessedReview (ai_repo i) (ai_pull i) (ai_head i) d"
  let ?keep = "keeps_blocking i ?old"
  let ?d1 = "d\<lparr>consumptions := row_update (exact_consumption i) (posted_receipt i) (consumptions d)\<rparr>"
  let ?d2 = "if ?keep then ?d1 else ?d1\<lparr>processed := row_upsert pr_key merge_processed (posted_processed_row i) (processed ?d1)\<rparr>"
  let ?event = "if ?keep then EV_REQUEST_CHANGES else po_event i"
  let ?url = "if ?keep then (case ?old of None \<Rightarrow> None | Some p \<Rightarrow> pr_review_url p) else Some (po_review_url i)"
  let ?row = "posted_readiness_row i ?event ?url (getReviewReadiness (ai_repo i) (ai_pull i) (ai_head i) ?d2)"
  have one: "row_count (exact_consumption i) (consumptions d) = 1"
    and d': "d' = drop_claims ?k (?d2\<lparr>readiness := row_upsert rr_key merge_readiness ?row (readiness ?d2)\<rparr>)"
    using body by (auto simp: posted_body_def Let_def split: if_splits)
  have procd: "processed d' = processed ?d2" by (simp add: d' drop_claims_def)
  have p: "getProcessedReview (ai_repo i) (ai_pull i) (ai_head i) d' = (if ?keep then ?old
      else Some (mapProcessedReviewRow (case row_get pr_key ?k (processed d) of None \<Rightarrow> posted_processed_row i
        | Some o' \<Rightarrow> merge_processed o' (posted_processed_row i))))"
    by (simp add: getProcessedReview_def procd row_get_upsert merge_processed_key)
  have "getReviewReadiness (ai_repo i) (ai_pull i) (ai_head i) d' =
      getReviewReadiness (ai_repo i) (ai_pull i) (ai_head i) (?d2\<lparr>readiness := row_upsert rr_key merge_readiness ?row (readiness ?d2)\<rparr>)"
    by (simp add: d' getReviewReadiness_def drop_claims_def)
  then have r: "getReviewReadiness (ai_repo i) (ai_pull i) (ai_head i) d' =
      Some (mapReviewReadinessRow (case row_get rr_key ?k (readiness ?d2) of None \<Rightarrow> ?row | Some o' \<Rightarrow> merge_readiness o' ?row))"
    by (simp add: readiness_upsert_get del: split_paired_All)
  have claims: "row_get hc_key ?k (claims d') = None" by (simp add: d' drop_claims_def table_simps)
  have "consumptions d' = row_update (exact_consumption i) (posted_receipt i) (consumptions d)" by (simp add: d' drop_claims_def)
  then have receipt: "\<exists>c \<in> set (consumptions d'). exact_consumption i c \<and> co_posted_at c = Some (ai_now i)
           \<and> co_posted_event c = Some (po_event i)" using posted_receipt_stored[OF one] by simp
  show ?thesis
  proof (cases ?keep)
    case True
    then obtain q where q: "?old = Some q" "pr_status q = P_posted" "pr_event q = Some EV_REQUEST_CHANGES" "pr_error q = None"
      by (auto simp: keeps_blocking_def split: option.splits)
    have "truthy (pr_review_url q) = pr_review_url q"
      using q(1) by (auto simp: getProcessedReview_def)
    with True q claims receipt show ?thesis
      by (simp add: Inr p r posted_row_simps readiness_state_of_event_def Let_def split: option.split)
  next
    case False
    show ?thesis
      using False claims receipt github_url_truthy[OF url]
      by (simp add: Inr p r posted_row_simps readiness_state_of_event_def Let_def split: option.split)
  qed
qed


lemma open_exact_count:
  assumes "auth_wf d" "row_get co_key (ai_key i) (consumptions d) = Some c" "\<not> consumption_closed c"
    "co_comment_id c = ai_comment_id i" "co_author c = ai_author i"
  shows "row_count (open_exact i) (consumptions d) = 1"
proof (rule count_matching_unique[where key = co_key and k = "ai_key i" and p = c])
  show "open_exact i c"
    using assms row_get_SomeD[OF assms(2)] by (simp add: open_exact_def exact_consumption_def)
qed (use assms in \<open>auto simp: auth_wf_def open_exact_def exact_consumption_def\<close>)

lemma noop_success:
  assumes "auth_wf d" "noop_body i d = (Inr True, d')"
  obtains c p rd where "row_get co_key (ai_key i) (consumptions d) = Some c" "\<not> consumption_closed c"
    "p = getProcessedReview (ai_repo i) (ai_pull i) (ai_head i) d" "is_posted_comment p"
    "rd = getReviewReadiness (ai_repo i) (ai_pull i) (ai_head i) d"
    "matching_advisory rd p \<or> matching_scheduler (ai_comment_id i) rd p \<or> recoverable_incident c rd"
    "noop_close i c (recoverable_incident c rd) (matching_scheduler (ai_comment_id i) rd p)
       (case p of None \<Rightarrow> None | Some q \<Rightarrow> pr_review_url q) d = (Inr True, d')"
    "row_count (open_exact i) (consumptions d) = 1"
proof -
  from assms(2) obtain c where c: "row_get co_key (ai_key i) (consumptions d) = Some c" "\<not> consumption_closed c"
    "co_comment_id c = ai_comment_id i" "co_author c = ai_author i"
    by (auto simp: noop_body_def split: option.splits if_splits)
  from that[OF c(1,2) refl _ refl _ _ open_exact_count[OF assms(1) c]] assms(2) c show thesis
    by (simp add: noop_body_def Let_def split: if_splits)
qed

lemma restore_readiness_get:
  assumes "restore_readiness i url P d = (Inr u, d')" "unique_rows rr_key (readiness d)"
    "\<And>r. P r \<Longrightarrow> rr_key r = (ai_repo i, ai_pull i, ai_head i)"
  shows "\<exists>r. getReviewReadiness (ai_repo i) (ai_pull i) (ai_head i) d' =
    Some (mapReviewReadinessRow (restored_readiness i url r))"
proof -
  let ?k = "(ai_repo i, ai_pull i, ai_head i)"
  have one: "row_count P (readiness d) = 1" and d': "d' = d\<lparr>readiness := row_update P (restored_readiness i url) (readiness d)\<rparr>"
    using assms(1) by (auto simp: restore_readiness_def Let_def split: if_splits)
  obtain r where r: "r \<in> set (readiness d)" "P r"
    using one by (metis row_count_def filter_False length_0_conv zero_neq_one)
  then have "row_get rr_key ?k (readiness d) = Some r"
    using unique_rows_get[OF assms(2) r(1)] assms(3)[OF r(2)] by simp
  moreover have "rr_key (restored_readiness i url x) = rr_key x" for x
    by (simp add: restored_readiness_def rr_key_def)
  ultimately show ?thesis
    using r(2) by (auto simp: getReviewReadiness_def d' row_get_update_key)
qed

lemma restored_simps [simp]:
  "rr_state (restored_readiness i url r) = R_ready_for_human" "rr_event (restored_readiness i url r) = Some EV_COMMENT"
  "rr_review_url (restored_readiness i url r) = url"
  by (simp_all add: restored_readiness_def)

lemma readiness_update_consumptions [simp]:
  "getReviewReadiness a b c (d\<lparr>consumptions := x\<rparr>) = getReviewReadiness a b c d"
  "getReviewReadiness a b c (drop_claims k d) = getReviewReadiness a b c d"
  by (simp_all add: getReviewReadiness_def drop_claims_def)

text \<open>an authorization is resolved as a no-op only on a head whose posted review is a comment; the
  processed row is untouched, the consumption becomes terminal with the given reason, the readiness
  is ready-for-human with the comment's URL, and the head's claim is gone. A refused no-op changes
  nothing.\<close>

theorem authorized_noop_effect:
  assumes "auth_wf d" "recordAuthorizedReviewNoop i d = (res, d')"
  shows "if res = Inr True
     then (let p = getProcessedReview (ai_repo i) (ai_pull i) (ai_head i) d;
               r = getReviewReadiness (ai_repo i) (ai_pull i) (ai_head i) d' in
        is_posted_comment p \<and> processed d' = processed d \<and>
        map_option rr_state r = Some R_ready_for_human \<and> map_option rr_event r = Some (Some EV_COMMENT) \<and>
        map_option rr_review_url r = map_option pr_review_url p \<and>
        map_option co_terminal_reason (row_get co_key (ai_key i) (consumptions d')) = Some (Some (no_reason i)) \<and>
        row_get hc_key (ai_repo i, ai_pull i, ai_head i) (claims d') = None)
     else d' = d"
proof (cases "res = Inr True")
  case True
  then have body: "noop_body i d = (Inr True, d')"
    using assms(2) by (auto simp: recordAuthorizedReviewNoop_def transaction_result split: option.splits)
  obtain c p rd where c: "row_get co_key (ai_key i) (consumptions d) = Some c" "\<not> consumption_closed c"
    and p: "p = getProcessedReview (ai_repo i) (ai_pull i) (ai_head i) d" "is_posted_comment p"
    and rd: "rd = getReviewReadiness (ai_repo i) (ai_pull i) (ai_head i) d"
    and match: "matching_advisory rd p \<or> matching_scheduler (ai_comment_id i) rd p \<or> recoverable_incident c rd"
    and close: "noop_close i c (recoverable_incident c rd) (matching_scheduler (ai_comment_id i) rd p)
       (case p of None \<Rightarrow> None | Some q \<Rightarrow> pr_review_url q) d = (Inr True, d')"
    and one: "row_count (open_exact i) (consumptions d) = 1"
    by (rule noop_success[OF assms(1) body])
  let ?url = "case p of None \<Rightarrow> None | Some q \<Rightarrow> pr_review_url q"
  let ?d1 = "d\<lparr>consumptions := row_update (open_exact i) (noop_receipt i) (consumptions d)\<rparr>"
  obtain u d2 where re: "noop_restore i c (recoverable_incident c rd) (matching_scheduler (ai_comment_id i) rd p) ?url ?d1 = (Inr u, d2)"
    and d': "d' = drop_claims (ai_repo i, ai_pull i, ai_head i) d2"
    using close one by (auto simp: noop_close_def Let_def split: prod.splits sum.splits)
  obtain q where q: "p = Some q" "pr_review_url q \<noteq> None" using p(2) by (auto simp: is_posted_comment_def split: option.splits)
  have turl: "truthy (pr_review_url q) = pr_review_url q"
    using p(1)[symmetric] q(1) by (auto simp: getProcessedReview_def)
  have uniq: "unique_rows rr_key (readiness ?d1)" using assms(1) by (simp add: auth_wf_def)
  have r: "map_option rr_state (getReviewReadiness (ai_repo i) (ai_pull i) (ai_head i) d2) = Some R_ready_for_human \<and>
      map_option rr_event (getReviewReadiness (ai_repo i) (ai_pull i) (ai_head i) d2) = Some (Some EV_COMMENT) \<and>
      map_option rr_review_url (getReviewReadiness (ai_repo i) (ai_pull i) (ai_head i) d2) = Some (pr_review_url q)"
  proof (cases "recoverable_incident c rd \<or> matching_scheduler (ai_comment_id i) rd p")
    case True
    define P where "P \<equiv> if recoverable_incident c rd then incident_readiness i c else scheduler_readiness i ?url"
    have "restore_readiness i ?url P ?d1 = (Inr u, d2)"
      using re True by (cases "recoverable_incident c rd") (auto simp: noop_restore_def P_def)
    moreover have "\<And>r. P r \<Longrightarrow> rr_key r = (ai_repo i, ai_pull i, ai_head i)"
      by (simp add: P_def incident_readiness_def scheduler_readiness_def split: if_splits)
    note * = calculation this
    from restore_readiness_get[OF *(1) uniq *(2)] show ?thesis
      using q(1) turl by auto
  next
    case False
    then have "d2 = ?d1" using re by (simp add: noop_restore_def)
    moreover have "matching_advisory rd p" using match False by simp
    ultimately show ?thesis
      using q(1) by (auto simp: matching_advisory_def rd split: option.splits)
  qed
  have "co_key c = ai_key i" "open_exact i c"
  proof -
    show "co_key c = ai_key i" using row_get_SomeD[OF c(1)] by simp
    obtain x where "x \<in> set (consumptions d)" "open_exact i x"
      using one by (metis row_count_def filter_False length_0_conv zero_neq_one)
    then have "row_get co_key (ai_key i) (consumptions d) = Some x"
      using unique_rows_get[of co_key "consumptions d" x] assms(1) by (auto simp: auth_wf_def open_exact_def exact_consumption_def)
    with c(1) \<open>open_exact i x\<close> show "open_exact i c" by simp
  qed
  then have cons: "map_option co_terminal_reason (row_get co_key (ai_key i) (consumptions d')) = Some (Some (no_reason i))"
    using noop_close_frame(1)[of i c "recoverable_incident c rd" "matching_scheduler (ai_comment_id i) rd p" ?url d] close c(1)
    by (simp add: row_get_update_key) (simp add: noop_receipt_def)
  have procd: "processed d' = processed d"
    using noop_close_frame(2)[of i c "recoverable_incident c rd" "matching_scheduler (ai_comment_id i) rd p" ?url d] close by simp
  have "row_get hc_key (ai_repo i, ai_pull i, ai_head i) (claims d') = None"
    by (simp add: d' drop_claims_def table_simps)
  moreover have "getProcessedReview (ai_repo i) (ai_pull i) (ai_head i) d = Some q" using p(1) q(1) by simp
  ultimately show ?thesis using True r cons procd p(2) q(1) by (simp add: d' Let_def)
next
  case False
  show ?thesis
  proof (cases res)
    case (Inl e)
    with False assms(2) show ?thesis
      by (auto simp: recordAuthorizedReviewNoop_def split: option.splits dest: transaction_error)
  next
    case (Inr b)
    with False have b: "\<not> b" by auto
    have v: "validate_auth i = None" and body: "noop_body i d = (Inr False, d')"
      using Inr b assms(2) by (auto simp: recordAuthorizedReviewNoop_def transaction_result split: option.splits)
    show ?thesis
    proof (cases "row_get co_key (ai_key i) (consumptions d)")
      case None
      with body show ?thesis by (simp add: noop_body_def)
    next
      case (Some c)
      show ?thesis
      proof (cases "consumption_closed c \<or> co_comment_id c \<noteq> ai_comment_id i \<or> co_author c \<noteq> ai_author i")
        case True
        with Some body False show ?thesis by (auto simp: noop_body_def split: if_splits)
      next
        case nope: False
        then have "row_count (open_exact i) (consumptions d) = 1"
          using open_exact_count[OF assms(1) Some] by simp
        then have "fst (noop_close i c rec sch url d) \<noteq> Inr False" for rec sch url
          by (simp add: noop_close_def Let_def split: prod.split sum.split)
        with Some nope body show ?thesis by (auto simp: noop_body_def Let_def split: if_splits) (metis fst_conv)+
      qed
    qed
  qed
qed

text \<open>once an authorization has been posted or resolved as a no-op, no later no-op and no incident
  reopens it: both report false and change nothing.\<close>

theorem closed_authorization_final:
  assumes "auth_wf d" "row_get co_key (ai_key i) (consumptions d) = Some c" "consumption_closed c"
    and "validate_auth i = None"
    and "in_repo j = ai_repo i" "in_pull j = ai_pull i" "in_head j = ai_head i" "1 \<le> in_trigger_comment_id j"
    and "clean_text h (in_error j) \<noteq> []"
  shows "recordAuthorizedReviewNoop i d = (Inr False, d) \<and>
    recordReviewEventAuthorizationIncident h j d = (Inr False, d)"
proof
  show "recordAuthorizedReviewNoop i d = (Inr False, d)"
    using assms(2-4) by (simp add: recordAuthorizedReviewNoop_def transaction_def noop_body_def)
  let ?k = "(in_repo j, in_pull j, to_lower (in_head j))"
  have k: "?k = ai_key i" using assms(5-7) by (simp add: ai_key_def)
  have none: "\<not> (co_key r = ?k \<and> \<not> consumption_closed r)" if "r \<in> set (consumptions d)" for r
    using unique_rows_get[of co_key "consumptions d" r] assms(1-3) that by (auto simp: auth_wf_def k)
  then have upd: "row_update (\<lambda>r. co_key r = ?k \<and> \<not> consumption_closed r) f (consumptions d) = consumptions d" for f
    by (rule row_update_noop)
  have cnt: "row_count (\<lambda>r. co_key r = ?k \<and> \<not> consumption_closed r) (consumptions d) = 0"
    using none by (simp add: row_count_def filter_empty_conv)
  have body: "incident_body j err d = (Inr False, d)" for err
    using assms(2,3) by (simp add: incident_body_def upd cnt k[symmetric])
  have "validateReviewEventAuthorizationCoordinates (in_repo j) (in_pull j) (in_head j) = None"
    using assms(4-7) by (auto simp: validate_auth_def validateReviewEventAuthorizationConsumption_def split: option.splits)
  then show "recordReviewEventAuthorizationIncident h j d = (Inr False, d)"
    using assms(8,9) body by (simp add: recordReviewEventAuthorizationIncident_def Let_def transaction_def)
qed


section \<open>Recording readiness\<close>

lemma readiness_get_cong: "readiness d' = readiness d \<Longrightarrow> getReviewReadiness a b c d' = getReviewReadiness a b c d"
  by (simp add: getReviewReadiness_def)

lemma record_readiness_Inr:
  assumes "recordReviewReadiness h i d = (Inr r, d')"
  defines "existing \<equiv> getReviewReadiness (ri_repo i) (ri_pull i) (ri_head i) d"
  shows "validateReviewQueueInput (ri_repo i) (ri_pull i) (ri_head i) None (ri_command_comment_id i) = None"
    "(\<exists>old. existing = Some old \<and> same_readiness old (readiness_target h i existing) \<and> r = old \<and> d' = d) \<or>
     (\<not> (\<exists>old. existing = Some old \<and> same_readiness old (readiness_target h i existing)) \<and>
      d' = d\<lparr>readiness := row_upsert rr_key merge_readiness (readiness_target h i existing) (readiness d)\<rparr> \<and>
      r = the (getReviewReadiness (ri_repo i) (ri_pull i) (ri_head i) d'))"
  using assms by (auto simp: recordReviewReadiness_def Let_def split: option.splits if_splits)

lemma target_existing:
  assumes "existing = map_option mapReviewReadinessRow (row_get rr_key k rows)"
  shows "(case row_get rr_key k rows of None \<Rightarrow> readiness_target h i existing
       | Some old \<Rightarrow> merge_readiness old (readiness_target h i existing)) = readiness_target h i existing"
  using assms by (auto simp: merge_readiness_def readiness_target_def Let_def mapReviewReadinessRow_def split: option.split)

definition keeps_text :: "host \<Rightarrow> string option \<Rightarrow> bool" where
  "keeps_text h s \<longleftrightarrow> (case truthy s of None \<Rightarrow> True | Some t \<Rightarrow> clean_text h t \<noteq> [])"

lemma same_after_map:
  assumes "keeps_text h (ri_reason i)" "keeps_text h (ri_review_url i)" "ri_command_comment_id i \<noteq> Some 0"
    "existing = map_option mapReviewReadinessRow x"
  shows "same_readiness (mapReviewReadinessRow (readiness_target h i existing))
     (readiness_target h (i\<lparr>ri_now := t\<rparr>) (Some (mapReviewReadinessRow (readiness_target h i existing))))"
proof -
  let ?m = "mapReviewReadinessRow (readiness_target h i existing)"
  let ?n = "readiness_target h (i\<lparr>ri_now := t\<rparr>) (Some ?m)"
  have "rr_state ?m = rr_state ?n"
    by (simp add: readiness_target_def Let_def mapReviewReadinessRow_def)
  moreover have "rr_reason ?m = rr_reason ?n"
    using assms(1) by (cases "truthy (ri_reason i)")
      (simp_all add: readiness_target_def Let_def mapReviewReadinessRow_def keeps_text_def truthy_def)
  moreover have "rr_event ?m = rr_event ?n"
    by (cases "ri_event i") (simp_all add: readiness_target_def Let_def mapReviewReadinessRow_def)
  moreover have "rr_review_url ?m = rr_review_url ?n"
    using assms(2) by (cases "truthy (ri_review_url i)")
      (simp_all add: readiness_target_def Let_def mapReviewReadinessRow_def keeps_text_def truthy_def)
  moreover have "rr_command_action ?m = rr_command_action ?n"
    by (cases "ri_command_action i"; cases "ri_clear_command i")
      (simp_all add: readiness_target_def Let_def mapReviewReadinessRow_def)
  moreover have "rr_command_comment_id ?m = rr_command_comment_id ?n"
    using assms(3) by (cases "ri_command_comment_id i"; cases "ri_clear_command i")
      (simp_all add: readiness_target_def Let_def mapReviewReadinessRow_def)
  ultimately show ?thesis unfolding same_readiness_def by blast
qed

lemma target_later: "readiness_target h (i\<lparr>ri_now := t\<rparr>) (Some r) = (readiness_target h i (Some r))\<lparr>rr_updated_at := t\<rparr>"
  by (simp add: readiness_target_def Let_def)

lemma same_later: "same_readiness r (x\<lparr>rr_updated_at := t\<rparr>) = same_readiness r x"
  by (simp add: same_readiness_def)

text \<open>recording a readiness stores the given state, keeps the head's creation time and every other
  head, and recording the same again at any later time changes nothing, so the update time tells the
  last real change; texts that are empty after redaction are excepted.\<close>

theorem record_readiness_idempotent:
  assumes "recordReviewReadiness h i d = (Inr r, d')"
    and "keeps_text h (ri_reason i)" "keeps_text h (ri_review_url i)"
  shows "getReviewReadiness (ri_repo i) (ri_pull i) (ri_head i) d' = Some r \<and> rr_state r = ri_state i \<and>
    rr_created_at r = (case getReviewReadiness (ri_repo i) (ri_pull i) (ri_head i) d of None \<Rightarrow> ri_now i
       | Some old \<Rightarrow> rr_created_at old) \<and>
    ((repo, pull, head) = (ri_repo i, ri_pull i, ri_head i) \<or>
       getReviewReadiness repo pull head d' = getReviewReadiness repo pull head d) \<and>
    recordReviewReadiness h (i\<lparr>ri_now := t\<rparr>) d' = (Inr r, d')"
proof -
  let ?ex = "getReviewReadiness (ri_repo i) (ri_pull i) (ri_head i) d"
  let ?t = "readiness_target h i ?ex"
  have v: "validateReviewQueueInput (ri_repo i) (ri_pull i) (ri_head i) None (ri_command_comment_id i) = None"
    by (rule record_readiness_Inr(1)[OF assms(1)])
  then have cid: "ri_command_comment_id i \<noteq> Some 0"
    by (auto simp: validateReviewQueueInput_def split: if_splits)
  have ts: "rr_state ?t = ri_state i" "rr_created_at ?t = (case ?ex of None \<Rightarrow> ri_now i | Some old \<Rightarrow> rr_created_at old)"
    by (simp_all add: readiness_target_def Let_def)
  from record_readiness_Inr(2)[OF assms(1)] show ?thesis
  proof
    assume "\<exists>old. ?ex = Some old \<and> same_readiness old ?t \<and> r = old \<and> d' = d"
    then have r: "?ex = Some r" "same_readiness r ?t" "d' = d" by auto
    have "same_readiness r (readiness_target h (i\<lparr>ri_now := t\<rparr>) (Some r))"
      using r(1,2) by (simp add: target_later same_later)
    then have "recordReviewReadiness h (i\<lparr>ri_now := t\<rparr>) d' = (Inr r, d')"
      using v r(1,3) by (simp add: recordReviewReadiness_def Let_def)
    moreover have "rr_state r = ri_state i"
      using conjunct1[OF r(2)[unfolded same_readiness_def]] ts(1) by (rule trans)
    ultimately show ?thesis using r(1,3) by simp
  next
    assume "\<not> (\<exists>old. ?ex = Some old \<and> same_readiness old ?t) \<and>
      d' = d\<lparr>readiness := row_upsert rr_key merge_readiness ?t (readiness d)\<rparr> \<and>
      r = the (getReviewReadiness (ri_repo i) (ri_pull i) (ri_head i) d')"
    then have d': "d' = d\<lparr>readiness := row_upsert rr_key merge_readiness ?t (readiness d)\<rparr>"
      and r: "r = the (getReviewReadiness (ri_repo i) (ri_pull i) (ri_head i) d')" by auto
    have ex: "?ex = map_option mapReviewReadinessRow (row_get rr_key (ri_repo i, ri_pull i, ri_head i) (readiness d))"
      by (simp add: getReviewReadiness_def)
    have get: "getReviewReadiness a b c d' = (if (a, b, c) = (ri_repo i, ri_pull i, ri_head i)
        then Some (mapReviewReadinessRow ?t) else getReviewReadiness a b c d)" for a b c
      unfolding d' readiness_upsert_get rr_key_target using target_existing[OF ex] by simp
    then have rt: "r = mapReviewReadinessRow ?t" and here: "getReviewReadiness (ri_repo i) (ri_pull i) (ri_head i) d' = Some r"
      by (simp_all add: r)
    have "same_readiness r (readiness_target h (i\<lparr>ri_now := t\<rparr>) (Some r))"
      unfolding rt by (rule same_after_map[OF assms(2,3) cid ex])
    then have "recordReviewReadiness h (i\<lparr>ri_now := t\<rparr>) d' = (Inr r, d')"
      using v here by (simp add: recordReviewReadiness_def Let_def)
    with here get[of repo pull head] ts show ?thesis by (simp add: rt)
  qed
qed

section \<open>Examples\<close>

definition ex_sha40 :: string where
  "ex_sha40 = replicate 40 (CHR ''a'')"

definition ex_auth :: auth_input where
  "ex_auth = \<lparr>ai_repo = ''o/r'', ai_pull = 7, ai_head = ex_sha40, ai_comment_id = 5, ai_author = ''owner'', ai_now = 1000\<rparr>"

definition ex_authorized :: db where
  "ex_authorized = empty_db\<lparr>consumptions := [fresh_consumption ex_auth]\<rparr>"

definition ex_post :: posted_input where
  "ex_post = auth_input.extend ex_auth \<lparr>po_event = EV_COMMENT, po_review_url = ''https://github.com/o/r/1'',
     po_base_ref = None, po_base_sha = None, po_diff_fingerprint = None, po_preserve_blocking = False\<rparr>"

definition ex_noop :: noop_input where
  "ex_noop = auth_input.extend ex_auth \<lparr>no_reason = ''advisory_already_posted''\<rparr>"

text \<open>A head with a posted comment and a fresh authorization, and one whose authorization is spent.\<close>

definition ex_advisory :: db where
  "ex_advisory = ex_authorized\<lparr>processed := [posted_processed_row ex_post],
     readiness := [posted_readiness_row ex_post EV_COMMENT (Some (po_review_url ex_post)) None]\<rparr>"

definition ex_closed :: db where
  "ex_closed = empty_db\<lparr>consumptions := [posted_receipt ex_post (fresh_consumption ex_auth)]\<rparr>"

definition ex_incident :: incident_input where
  "ex_incident = \<lparr>in_repo = ''o/r'', in_pull = 7, in_head = ex_sha40, in_trigger_comment_id = 9, in_error = ''lost'', in_now = 5\<rparr>"

definition ex_readiness :: readiness_input where
  "ex_readiness = \<lparr>ri_repo = ''o/r'', ri_pull = 7, ri_head = ''h1'', ri_state = R_queued, ri_reason = Some ''why'',
     ri_event = None, ri_review_url = None, ri_command_action = None, ri_command_comment_id = None,
     ri_clear_command = False, ri_now = 3000\<rparr>"

definition ex_auth_host :: host where
  "ex_auth_host = \<lparr>date_parse = (\<lambda>_. None), iso_string = (\<lambda>_. []), redact = (\<lambda>s. s), alive = (\<lambda>_. True)\<rparr>"

lemma ex_sha40_ok: "is_sha40 ex_sha40" "to_lower ex_sha40 = ex_sha40" "to_lower (replicate 40 (CHR ''A'')) = ex_sha40"
proof -
  have c: "lower_char (CHR ''a'') = CHR ''a''" "lower_char (CHR ''A'') = CHR ''a''" "is_lower_hex (CHR ''a'')" by code_simp+
  then show "is_sha40 ex_sha40" by (simp add: is_sha40_def ex_sha40_def list_all_iff)
  show "to_lower ex_sha40 = ex_sha40" "to_lower (replicate 40 (CHR ''A'')) = ex_sha40"
    by (simp_all only: to_lower_def ex_sha40_def c map_replicate)
qed

lemma ex_repo_ok: "repo_parts ''o/r'' = Some (''o'', ''r'')"
  by code_simp

lemma ex_login_ok: "is_github_login ''owner''"
  by code_simp

lemma ex_auth_fields:
  "ai_repo ex_auth = ''o/r''" "ai_pull ex_auth = 7" "ai_head ex_auth = ex_sha40" "ai_comment_id ex_auth = 5"
  "ai_author ex_auth = ''owner''" "ai_repo ex_post = ''o/r''" "ai_pull ex_post = 7" "ai_head ex_post = ex_sha40"
  "ai_comment_id ex_post = 5" "ai_author ex_post = ''owner''" "ai_repo ex_noop = ''o/r''" "ai_pull ex_noop = 7"
  "ai_head ex_noop = ex_sha40" "ai_comment_id ex_noop = 5" "ai_author ex_noop = ''owner''"
  "po_event ex_post = EV_COMMENT" "po_review_url ex_post = ''https://github.com/o/r/1''" "\<not> po_preserve_blocking ex_post"
  by (simp_all add: ex_auth_def ex_post_def ex_noop_def auth_input.defs)

lemma ex_auth_valid: "validate_auth ex_auth = None" "validate_auth ex_post = None" "validate_auth ex_noop = None"
  by (simp_all add: validate_auth_def validateReviewEventAuthorizationConsumption_def ex_auth_fields
      validateReviewEventAuthorizationCoordinates_def ex_repo_ok ex_sha40_ok ex_login_ok)

lemma ex_keys:
  "ai_key ex_auth = (''o/r'', 7, ex_sha40)" "ai_key ex_post = (''o/r'', 7, ex_sha40)" "ai_key ex_noop = (''o/r'', 7, ex_sha40)"
  "co_key (fresh_consumption ex_auth) = (''o/r'', 7, ex_sha40)"
  by (simp_all add: ai_key_def ex_auth_fields ex_sha40_ok co_key_def fresh_consumption_def)

lemma ex_exact: "exact_consumption ex_post (fresh_consumption ex_auth)" "open_exact ex_noop (fresh_consumption ex_auth)"
  by (simp_all add: exact_consumption_def open_exact_def ex_keys consumption_closed_def) 
    (simp_all add: fresh_consumption_def ex_auth_fields)

theorem authorization_consumed_once_witness:
  "fst (tryConsumeReviewEventAuthorization (ex_auth\<lparr>ai_head := replicate 40 (CHR ''A''), ai_comment_id := 6\<rparr>)
     (fold auth_step [APosted ex_post, ANoop ex_noop, AIncident ex_auth_host ex_incident] ex_authorized)) \<noteq> Inr True"
proof (rule authorization_consumed_once[of ex_auth empty_db])
  show "tryConsumeReviewEventAuthorization ex_auth empty_db = (Inr True, ex_authorized)"
    by (simp add: tryConsumeReviewEventAuthorization_def ex_auth_valid empty_db_def ex_authorized_def)
qed (simp_all add: ex_auth_fields ex_sha40_ok)

theorem authorized_post_effect_witness:
  "row_get hc_key (''o/r'', 7, ex_sha40) (claims (snd (recordAuthorizedReviewPosted ex_post ex_authorized))) = None"
proof -
  have "fst (posted_body ex_post ex_authorized) = Inr ()"
    by (simp add: posted_body_def Let_def ex_authorized_def row_count_def ex_exact)
  then have "fst (recordAuthorizedReviewPosted ex_post ex_authorized) = Inr ()"
    by (simp add: recordAuthorizedReviewPosted_def ex_auth_valid ex_auth_fields)
  then have "recordAuthorizedReviewPosted ex_post ex_authorized = (Inr (), snd (recordAuthorizedReviewPosted ex_post ex_authorized))"
    by (metis prod.collapse)
  from authorized_post_effect[OF this] show ?thesis
    by (simp add: Let_def ex_auth_fields)
qed

theorem authorized_noop_effect_witness:
  "processed (snd (recordAuthorizedReviewNoop ex_noop ex_advisory)) = processed ex_advisory"
proof -
  let ?p = "mapProcessedReviewRow (posted_processed_row ex_post)"
  let ?r = "mapReviewReadinessRow (posted_readiness_row ex_post EV_COMMENT (Some (po_review_url ex_post)) None)"
  have wf: "auth_wf ex_advisory" by (simp add: auth_wf_def ex_advisory_def ex_authorized_def unique_rows_def)
  have p: "getProcessedReview ''o/r'' 7 ex_sha40 ex_advisory = Some ?p"
    by (simp add: getProcessedReview_def ex_advisory_def row_get_Cons ex_auth_fields)
  have r: "getReviewReadiness ''o/r'' 7 ex_sha40 ex_advisory = Some ?r"
    by (simp add: getReviewReadiness_def ex_advisory_def row_get_Cons ex_auth_fields)
  have posted: "is_posted_comment (Some ?p)" and adv: "matching_advisory (Some ?r) (Some ?p)"
    by (simp_all add: is_posted_comment_def matching_advisory_def posted_processed_row_def posted_readiness_row_def
        ex_auth_fields readiness_state_of_event_def)
  have sched: "\<not> matching_scheduler 5 (Some ?r) (Some ?p)" and inc: "\<not> recoverable_incident (fresh_consumption ex_auth) (Some ?r)"
    by (simp_all add: matching_scheduler_def recoverable_incident_def posted_readiness_row_def
        readiness_state_of_event_def fresh_consumption_def)
  have cons: "consumptions ex_advisory = [fresh_consumption ex_auth]" by (simp add: ex_advisory_def ex_authorized_def)
  have "fst (noop_body ex_noop ex_advisory) = Inr True"
    using ex_exact(2) posted adv sched inc
    by (simp add: noop_body_def cons row_get_Cons ex_keys ex_auth_fields p r Let_def noop_close_def noop_restore_def
        row_count_def open_exact_def exact_consumption_def)
  then have "fst (recordAuthorizedReviewNoop ex_noop ex_advisory) = Inr True"
    by (simp add: recordAuthorizedReviewNoop_def ex_auth_valid)
  then have "recordAuthorizedReviewNoop ex_noop ex_advisory = (Inr True, snd (recordAuthorizedReviewNoop ex_noop ex_advisory))"
    by (metis prod.collapse)
  from authorized_noop_effect[OF wf this] show ?thesis by (simp add: Let_def)
qed

theorem closed_authorization_final_witness:
  "recordReviewEventAuthorizationIncident ex_auth_host ex_incident ex_closed = (Inr False, ex_closed)"
proof (rule closed_authorization_final[where i = ex_noop, THEN conjunct2])
  show "row_get co_key (ai_key ex_noop) (consumptions ex_closed) = Some (posted_receipt ex_post (fresh_consumption ex_auth))"
    by (simp add: ex_closed_def row_get_Cons ex_keys)
  show "clean_text ex_auth_host (in_error ex_incident) \<noteq> []" by code_simp
qed (simp_all add: auth_wf_def ex_closed_def empty_db_def unique_rows_def consumption_closed_def posted_receipt_def
    ex_auth_valid ex_incident_def ex_auth_fields)

theorem record_readiness_idempotent_witness:
  "recordReviewReadiness ex_auth_host (ex_readiness\<lparr>ri_now := 9000\<rparr>) (snd (recordReviewReadiness ex_auth_host ex_readiness empty_db)) =
   recordReviewReadiness ex_auth_host (ex_readiness\<lparr>ri_now := 9500\<rparr>) (snd (recordReviewReadiness ex_auth_host ex_readiness empty_db))"
proof -
  let ?c = "recordReviewReadiness ex_auth_host ex_readiness empty_db"
  have "\<not> isl (fst ?c)" by code_simp
  then have c: "?c = (Inr (projr (fst ?c)), snd ?c)" by (cases ?c) auto
  have k: "keeps_text ex_auth_host (ri_reason ex_readiness)" "keeps_text ex_auth_host (ri_review_url ex_readiness)" by code_simp+
  from record_readiness_idempotent[OF c k, of _ _ _ 9000] record_readiness_idempotent[OF c k, of _ _ _ 9500] show ?thesis
    by simp
qed

end
