(* ===== verification/Texts.thy ===== *)
theory Texts
  imports StoreModel
begin

text \<open>
  Text handling shared by the diff, finding and command components: lines and words, decimal
  numbers, and the white space of \<open>replace(/\s+/g, " ")\<close>.
\<close>

section \<open>Decimal numbers\<close>

lemma digit_char: "k < 10 \<Longrightarrow> is_digit (char_of (48 + k)) \<and> char_code (char_of (48 + k)) = 48 + k"
  by (simp add: is_digit_def char_code_def)

lemma digits_of_nat_digits: "list_all is_digit (digits_of_nat n)"
proof (induction n rule: digits_of_nat.induct)
  case (1 n)
  show ?case
    using 1 digit_char[of n] digit_char[of "n mod 10"]
    by (subst digits_of_nat.simps) simp
qed

lemma digits_of_nat_not_Nil [simp]: "digits_of_nat n \<noteq> []"
  by (subst digits_of_nat.simps) simp

lemma digits_value_append: "digits_value a (s @ t) = digits_value (digits_value a s) t"
  by (induction a s rule: digits_value.induct) auto

lemma digits_value_of_nat [simp]: "digits_value 0 (digits_of_nat n) = n"
proof (induction n rule: digits_of_nat.induct)
  case (1 n)
  show ?case
    using 1 digit_char[of n] digit_char[of "n mod 10"]
    by (subst digits_of_nat.simps) (simp add: digits_value_append)
qed

lemma span_digits:
  assumes "rest = [] \<or> \<not> is_digit (hd rest)"
  shows "takeWhile is_digit (digits_of_nat n @ rest) = digits_of_nat n"
    "dropWhile is_digit (digits_of_nat n @ rest) = rest"
  using digits_of_nat_digits[of n] assms
  by (auto simp: list_all_iff takeWhile_append2 dropWhile_append2 takeWhile_eq_Nil_iff dropWhile_eq_self_iff)

lemma digits_of_nat_inj [simp]: "digits_of_nat m = digits_of_nat n \<longleftrightarrow> m = n"
  by (metis digits_value_of_nat)

section \<open>Lines and words\<close>

text \<open>\<open>ws.join(d)\<close> for a one-character separator.\<close>

fun join_on :: "char \<Rightarrow> string list \<Rightarrow> string" where
  "join_on d [] = []"
| "join_on d [w] = w"
| "join_on d (w # v # ws) = w @ d # join_on d (v # ws)"

lemma split_on_none: "d \<notin> set w \<Longrightarrow> split_on d w = [w]"
  by (induction w) auto

lemma split_on_append: "d \<notin> set w \<Longrightarrow> split_on d (w @ d # s) = w # split_on d s"
  by (induction w) auto

lemma split_join:
  "ws \<noteq> [] \<Longrightarrow> \<forall>w\<in>set ws. d \<notin> set w \<Longrightarrow> split_on d (join_on d ws) = ws"
  by (induction d ws rule: join_on.induct) (simp_all add: split_on_none split_on_append)

lemma set_join_on: "set (join_on d ws) \<subseteq> insert d (\<Union> (set ` set ws))"
  by (induction d ws rule: join_on.induct) auto

text \<open>\<open>s.split(/\r?\n/)\<close>: a carriage return before a line feed goes with it.\<close>

definition drop_cr :: "string \<Rightarrow> string" where
  "drop_cr w = (if w \<noteq> [] \<and> last w = CHR 0x0D then butlast w else w)"

definition split_lines :: "string \<Rightarrow> string list" where
  "split_lines s = (let ws = split_on (CHR 0x0A) s in map drop_cr (butlast ws) @ [last ws])"

lemma split_lines_single: "CHR 0x0A \<notin> set s \<Longrightarrow> split_lines s = [s]"
  by (simp add: split_lines_def split_on_none)

section \<open>White space\<close>

text \<open>\<open>s.replace(/\s+/g, " ")\<close>\<close>

fun collapse_spaces :: "string \<Rightarrow> string" where
  "collapse_spaces [] = []"
| "collapse_spaces (c # s) =
     (if is_space c
      then CHR '' '' # (case collapse_spaces s of [] \<Rightarrow> []
             | e # t \<Rightarrow> if s \<noteq> [] \<and> is_space (hd s) then t else e # t)
      else c # collapse_spaces s)"

definition single_spaced :: "string list \<Rightarrow> bool" where
  "single_spaced ws \<longleftrightarrow> ws \<noteq> [] \<and> (\<forall>w\<in>set ws. w \<noteq> [] \<and> (\<forall>c\<in>set w. \<not> is_space c))"

lemma collapse_no_space: "\<forall>c\<in>set w. \<not> is_space c \<Longrightarrow> collapse_spaces (w @ s) = w @ collapse_spaces s"
  by (induction w) auto

lemma space_is_space [simp]: "is_space (CHR '' '')"
  by code_simp

lemma single_spaced_hd:
  assumes "single_spaced (w # ws)"
  shows "join_on (CHR '' '') (w # ws) \<noteq> [] \<and> \<not> is_space (hd (join_on (CHR '' '') (w # ws)))"
  using assms by (cases w; cases ws) (auto simp: single_spaced_def)

lemma collapse_join: "single_spaced ws \<Longrightarrow> collapse_spaces (join_on (CHR '' '') ws) = join_on (CHR '' '') ws"
proof (induction "CHR '' ''" ws rule: join_on.induct)
  case 1
  then show ?case by simp
next
  case (2 w)
  then show ?case using collapse_no_space[of w "[]"] by (simp add: single_spaced_def)
next
  case (3 w v ws)
  have v: "single_spaced (v # ws)" using 3(2) by (simp add: single_spaced_def)
  let ?t = "join_on (CHR '' '') (v # ws)"
  have h: "?t \<noteq> []" "\<not> is_space (hd ?t)" using single_spaced_hd[OF v] by auto
  have "collapse_spaces (w @ CHR '' '' # ?t) = w @ CHR '' '' # ?t"
    using collapse_no_space[of w "CHR '' '' # ?t"] 3 v h by (auto simp: single_spaced_def split: list.split)
  then show ?case by simp
qed

lemma trim_join:
  assumes "single_spaced ws"
  shows "trim (join_on (CHR '' '') ws) = join_on (CHR '' '') ws"
proof -
  have h: "join_on (CHR '' '') ws \<noteq> []" "\<not> is_space (hd (join_on (CHR '' '') ws))"
    using assms single_spaced_hd by (cases ws; auto simp: single_spaced_def)+
  have l: "\<not> is_space (last (join_on (CHR '' '') ws))"
    using assms
  proof (induction "CHR '' ''" ws rule: join_on.induct)
    case (3 w v ws)
    moreover have "join_on (CHR '' '') (v # ws) \<noteq> []"
      using 3(2) single_spaced_hd[of v ws] by (simp add: single_spaced_def)
    ultimately show ?case by (simp add: single_spaced_def)
  qed (auto simp: single_spaced_def)
  have 1: "dropWhile is_space s = s" if "\<not> is_space (hd s)" for s
    using that by (cases s) auto
  have "\<not> is_space (hd (rev (join_on (CHR '' '') ws)))" using h(1) l by (simp add: hd_rev)
  then show ?thesis by (simp add: trim_def 1 h(2))
qed

lemma space_set_join: "c \<in> set (join_on (CHR '' '') ws) \<Longrightarrow> c = CHR '' '' \<or> (\<exists>w\<in>set ws. c \<in> set w)"
  using set_join_on by fastforce

end
