(* ===== verification/Diff.thy ===== *)
theory Diff
  imports Complex_Main Texts
begin

text \<open>
  The lines of a pull request's diff a review comment can be attached to (\<open>src/diff.ts\<close>): the
  scan of a unified patch, the check of the findings against it, and the correctness of the scan
  against rendered hunks.
\<close>

section \<open>Data\<close>

text \<open>Severities, regression categories and findings of \<open>src/types.ts\<close>.\<close>

datatype severity = P0 | P1 | P2 | P3

datatype category = data_loss | auth | ci_build | unity_scene_prefab | security_boundary | migration
  | api_compatibility | release_regression | flaky_test_risk | proof_gap | runtime_correctness
  | dependency | docs_only | unknown

record evidence_ref =
  ev_path :: string
  ev_start :: int
  ev_end :: int
  ev_excerpt :: string

text \<open>The confidence is a finite JavaScript number, read as a rational.\<close>

record finding =
  f_severity :: severity
  f_path :: string
  f_line :: int
  f_title :: string
  f_body :: string
  f_confidence :: rat
  f_category :: "category option"
  f_why :: "string option"
  f_evidence :: "evidence_ref list option"
  f_evidence_malformed :: bool

text \<open>
  A dropped finding: the finding's fields when it was parsed, and why it went. Schema drops carry no
  finding.
\<close>

datatype drop_reason = invalid_schema | file_not_in_diff | line_not_in_current_diff
  | repo_memory_false_positive_match | repo_memory_false_positive_coarse_match
  | prior_thread_answered | secret_detected | same_run_near_duplicate | comment_cap_exceeded

record dropped_finding =
  df_finding :: "finding option"
  df_reason :: drop_reason
  df_fingerprint :: "string option"
  df_thread :: "int option"

definition drop_for :: "drop_reason \<Rightarrow> finding \<Rightarrow> dropped_finding" where
  "drop_for r f = \<lparr>df_finding = Some f, df_reason = r, df_fingerprint = None, df_thread = None\<rparr>"

record file_patch =
  fp_filename :: string
  fp_patch :: "string option"

section \<open>The scan of a patch\<close>

text \<open>
  \<open>HUNK_HEADER = /^@@ -\d+(?:,\d+)? \+(\d+)(?:,(\d+))? @@/\<close>. Greedy digits never need to give one
  back, since none of the following characters is a digit.
\<close>

fun after_prefix :: "string \<Rightarrow> string \<Rightarrow> string option" where
  "after_prefix [] s = Some s"
| "after_prefix (p # ps) [] = None"
| "after_prefix (p # ps) (c # s) = (if p = c then after_prefix ps s else None)"

definition take_number :: "string \<Rightarrow> (nat \<times> string) option" where
  "take_number s = (let ds = takeWhile is_digit s
     in if ds = [] then None else Some (digits_value 0 ds, dropWhile is_digit s))"

definition skip_count :: "string \<Rightarrow> string" where
  "skip_count s = (case s of [] \<Rightarrow> []
     | c # t \<Rightarrow> if c = CHR '','' then (case take_number t of None \<Rightarrow> s | Some (_, rest) \<Rightarrow> rest) else s)"

definition hunk_start :: "string \<Rightarrow> nat option" where
  "hunk_start raw =
     Option.bind (after_prefix ''@@ -'' raw) (\<lambda>s1.
     Option.bind (take_number s1) (\<lambda>(_, s2).
     Option.bind (after_prefix '' +'' (skip_count s2)) (\<lambda>s3.
     Option.bind (take_number s3) (\<lambda>(n, s4).
     map_option (\<lambda>_. n) (after_prefix '' @@'' (skip_count s4))))))"

text \<open>One raw line: the next line of the new file, and the lines collected so far.\<close>

type_synonym scan = "nat option \<times> nat set"

definition scan_line :: "string \<Rightarrow> scan \<Rightarrow> scan" where
  "scan_line raw s =
     (case hunk_start raw of
        Some n \<Rightarrow> (Some n, snd s)
      | None \<Rightarrow>
          (case fst s of
             None \<Rightarrow> s
           | Some n \<Rightarrow>
               if starts_with (CHR 0x5C # '' No newline'') raw then s
               else if starts_with ''+'' raw \<and> \<not> starts_with ''+++'' raw then (Some (n + 1), insert n (snd s))
               else if starts_with ''-'' raw \<and> \<not> starts_with ''---'' raw then s
               else (Some (n + 1), insert n (snd s))))"

definition right_lines :: "string option \<Rightarrow> nat set" where
  "right_lines patch = snd (fold scan_line (split_on (CHR 0x0A) (case patch of None \<Rightarrow> [] | Some p \<Rightarrow> p)) (None, {}))"

text \<open>A file without lines has no entry; a later file of the same name replaces an earlier one.\<close>

definition add_file :: "file_patch \<Rightarrow> (string \<rightharpoonup> nat set) \<Rightarrow> (string \<rightharpoonup> nat set)" where
  "add_file f m = (let ls = right_lines (fp_patch f) in if ls = {} then m else m(fp_filename f \<mapsto> ls))"

definition collectRightSideLines :: "file_patch list \<Rightarrow> (string \<rightharpoonup> nat set)" where
  "collectRightSideLines files = fold add_file files Map.empty"

definition location_drop :: "(string \<rightharpoonup> nat set) \<Rightarrow> finding \<Rightarrow> drop_reason option" where
  "location_drop m f = (case m (f_path f) of
      None \<Rightarrow> Some file_not_in_diff
    | Some ls \<Rightarrow> if f_line f \<in> int ` ls then None else Some line_not_in_current_diff)"

definition validateFindingLocations :: "finding list \<Rightarrow> file_patch list \<Rightarrow> finding list \<times> dropped_finding list" where
  "validateFindingLocations fs files = (let m = collectRightSideLines files
     in (filter (\<lambda>f. location_drop m f = None) fs,
         List.map_filter (\<lambda>f. map_option (\<lambda>r. drop_for r f) (location_drop m f)) fs))"

section \<open>Rendered hunks\<close>

text \<open>
  The unified diff format: a hunk is a header and lines that are kept, added or deleted; the marker
  line tells that a file does not end in a newline.
\<close>

datatype diff_line = Kept string | Added string | Deleted string | NoNewline

record hunk =
  hk_old :: nat
  hk_old_count :: nat
  hk_new :: nat
  hk_new_count :: nat
  hk_context :: string
  hk_lines :: "diff_line list"

fun render_line :: "diff_line \<Rightarrow> string" where
  "render_line (Kept s) = CHR '' '' # s"
| "render_line (Added s) = CHR ''+'' # s"
| "render_line (Deleted s) = CHR ''-'' # s"
| "render_line NoNewline = CHR 0x5C # '' No newline at end of file''"

definition render_header :: "hunk \<Rightarrow> string" where
  "render_header h = ''@@ -'' @ digits_of_nat (hk_old h) @ '','' @ digits_of_nat (hk_old_count h) @
     '' +'' @ digits_of_nat (hk_new h) @ '','' @ digits_of_nat (hk_new_count h) @ '' @@'' @ hk_context h"

definition render_hunk :: "hunk \<Rightarrow> string list" where
  "render_hunk h = render_header h # map render_line (hk_lines h)"

definition render_patch :: "hunk list \<Rightarrow> string" where
  "render_patch hs = join_on (CHR 0x0A) (concat (map render_hunk hs))"

text \<open>What the diff shows of the new file: its kept and added lines, numbered from the header's start.\<close>

fun shown_in_new :: "diff_line \<Rightarrow> bool" where
  "shown_in_new (Kept s) = True"
| "shown_in_new (Added s) = True"
| "shown_in_new _ = False"

fun new_file_lines :: "nat \<Rightarrow> diff_line list \<Rightarrow> nat set" where
  "new_file_lines n [] = {}"
| "new_file_lines n (l # ls) = (if shown_in_new l then insert n (new_file_lines (n + 1) ls) else new_file_lines n ls)"

text \<open>A deleted line whose text starts with two dashes renders with three, as a file header does.\<close>

fun dashed :: "diff_line \<Rightarrow> bool" where
  "dashed (Deleted s) = starts_with ''--'' s"
| "dashed _ = False"

fun line_text :: "diff_line \<Rightarrow> string" where
  "line_text (Kept s) = s"
| "line_text (Added s) = s"
| "line_text (Deleted s) = s"
| "line_text NoNewline = []"

definition one_line :: "hunk \<Rightarrow> bool" where
  "one_line h \<longleftrightarrow> CHR 0x0A \<notin> set (hk_context h) \<and> (\<forall>l\<in>set (hk_lines h). CHR 0x0A \<notin> set (line_text l))"

section \<open>The scan of a rendered hunk\<close>

lemma after_prefix_append [simp]: "after_prefix p (p @ s) = Some s"
  by (induction p) auto

lemma take_number_digits:
  "rest = [] \<or> \<not> is_digit (hd rest) \<Longrightarrow> take_number (digits_of_nat n @ rest) = Some (n, rest)"
  by (simp add: take_number_def span_digits)

lemma not_digits: "\<not> is_digit (CHR '','')" "\<not> is_digit (CHR '' '')"
  by code_simp+

lemma skip_count_digits:
  "rest = [] \<or> \<not> is_digit (hd rest) \<Longrightarrow> skip_count (CHR '','' # digits_of_nat n @ rest) = rest"
  by (simp add: skip_count_def take_number_digits)

lemma hunk_start_header: "hunk_start (render_header h) = Some (hk_new h)"
proof -
  let ?s4 = "CHR '','' # digits_of_nat (hk_new_count h) @ '' @@'' @ hk_context h"
  let ?s3 = "digits_of_nat (hk_new h) @ ?s4"
  let ?s2 = "CHR '','' # digits_of_nat (hk_old_count h) @ '' +'' @ ?s3"
  have 1: "after_prefix ''@@ -'' (render_header h) = Some (digits_of_nat (hk_old h) @ ?s2)"
    by (simp add: render_header_def)
  have 2: "take_number (digits_of_nat (hk_old h) @ ?s2) = Some (hk_old h, ?s2)"
    by (rule take_number_digits) (simp add: not_digits)
  have 3: "after_prefix '' +'' (skip_count ?s2) = Some ?s3"
    by (subst skip_count_digits) (simp_all add: not_digits)
  have 4: "take_number ?s3 = Some (hk_new h, ?s4)"
    by (rule take_number_digits) (simp add: not_digits)
  have 5: "after_prefix '' @@'' (skip_count ?s4) = Some (hk_context h)"
    by (subst skip_count_digits) (simp_all add: not_digits)
  show ?thesis by (simp only: hunk_start_def 1 2 3 4 5 bind.simps prod.case option.map)
qed

lemma hunk_start_line [simp]: "hunk_start (render_line l) = None"
  by (cases l) (simp_all add: hunk_start_def)

lemma scan_header: "scan_line (render_header h) s = (Some (hk_new h), snd s)"
  by (simp add: scan_line_def hunk_start_header)

lemma scan_rendered:
  "scan_line (render_line l) (Some n, ls) =
     (if shown_in_new l \<or> dashed l then (Some (n + 1), insert n ls) else (Some n, ls))"
  using hunk_start_line[of l] by (cases l) (simp_all add: scan_line_def)

definition scanned :: "diff_line list \<Rightarrow> nat" where
  "scanned ls = length (filter (\<lambda>l. shown_in_new l \<or> dashed l) ls)"

lemma scan_lines:
  "fold scan_line (map render_line ls) (Some n, acc) = (Some (n + scanned ls), acc \<union> {n ..< n + scanned ls})"
proof (induction ls arbitrary: n acc)
  case Nil
  then show ?case by (simp add: scanned_def)
next
  case (Cons l ls)
  have "insert n acc \<union> {Suc n ..< Suc n + scanned ls} = acc \<union> {n ..< n + Suc (scanned ls)}"
    by auto
  then show ?case using Cons by (simp add: scan_rendered scanned_def)
qed

lemma scan_hunk:
  "fold scan_line (render_hunk h) s =
     (Some (hk_new h + scanned (hk_lines h)), snd s \<union> {hk_new h ..< hk_new h + scanned (hk_lines h)})"
  by (simp add: render_hunk_def scan_header scan_lines)

lemma scan_hunks:
  "snd (fold scan_line (concat (map render_hunk hs)) s) =
     snd s \<union> (\<Union>h\<in>set hs. {hk_new h ..< hk_new h + scanned (hk_lines h)})"
  by (induction hs arbitrary: s) (auto simp: scan_hunk)

lemma line_break_digits: "CHR 0x0A \<notin> set (digits_of_nat n)"
proof -
  have "\<not> is_digit (CHR 0x0A)" by code_simp
  then show ?thesis using digits_of_nat_digits[of n] by (auto simp: list_all_iff)
qed

lemma render_no_break: "one_line h \<Longrightarrow> w \<in> set (render_hunk h) \<Longrightarrow> CHR 0x0A \<notin> set w"
proof -
  have l: "CHR 0x0A \<notin> set (line_text l) \<Longrightarrow> CHR 0x0A \<notin> set (render_line l)" for l
    by (cases l) auto
  show "one_line h \<Longrightarrow> w \<in> set (render_hunk h) \<Longrightarrow> CHR 0x0A \<notin> set w"
    by (auto simp: one_line_def render_hunk_def render_header_def line_break_digits dest!: l)
qed

lemma right_lines_render:
  assumes "list_all one_line hs"
  shows "right_lines (Some (render_patch hs)) = (\<Union>h\<in>set hs. {hk_new h ..< hk_new h + scanned (hk_lines h)})"
proof (cases hs)
  case Nil
  then show ?thesis by (simp add: right_lines_def render_patch_def scan_line_def hunk_start_def)
next
  case (Cons h t)
  then have "concat (map render_hunk hs) \<noteq> []" by (simp add: render_hunk_def)
  moreover have "\<forall>w\<in>set (concat (map render_hunk hs)). CHR 0x0A \<notin> set w"
    using assms render_no_break by (fastforce simp: list_all_iff)
  ultimately show ?thesis
    unfolding right_lines_def render_patch_def by (simp add: split_join scan_hunks)
qed

lemma new_file_lines_interval:
  "new_file_lines n ls = {n ..< n + length (filter shown_in_new ls)}"
  by (induction ls arbitrary: n) auto

lemma scanned_split: "scanned ls = length (filter shown_in_new ls) + length (filter dashed ls)"
proof (induction ls)
  case (Cons l ls)
  then show ?case by (cases l) (auto simp: scanned_def)
qed (simp add: scanned_def)

section \<open>The properties\<close>

text \<open>C29: for a patch without a deleted line whose text starts with two dashes, the scan finds exactly
  the kept and added lines of the new file, at the numbers the hunk headers give them.\<close>

theorem right_lines_correct:
  assumes "list_all one_line hs" "\<forall>h\<in>set hs. \<forall>l\<in>set (hk_lines h). \<not> dashed l"
  shows "right_lines (Some (render_patch hs)) = (\<Union>h\<in>set hs. new_file_lines (hk_new h) (hk_lines h))"
  using assms by (auto simp: right_lines_render new_file_lines_interval scanned_split filter_False)

text \<open>C30: each deleted line whose text starts with two dashes is taken for a line of the new file: the
  scan of a hunk reports as many lines past the end of the hunk as there are such deletions, so a finding
  there passes the location check although no diff line carries it.\<close>

theorem dashed_deletion_overruns:
  assumes "one_line h"
  shows "right_lines (Some (render_patch [h])) - new_file_lines (hk_new h) (hk_lines h) =
    {hk_new h + length (filter shown_in_new (hk_lines h)) ..<
     hk_new h + length (filter shown_in_new (hk_lines h)) + length (filter dashed (hk_lines h))}"
  using assms by (auto simp: right_lines_render new_file_lines_interval scanned_split)

lemma add_file_at: "add_file f m p = (if p = fp_filename f \<and> right_lines (fp_patch f) \<noteq> {}
    then Some (right_lines (fp_patch f)) else m p)"
  by (simp add: add_file_def Let_def)

lemma collect_lookup:
  assumes "distinct (map fp_filename files)" "f \<in> set files"
  shows "fold add_file files m (fp_filename f) =
    (if right_lines (fp_patch f) = {} then m (fp_filename f) else Some (right_lines (fp_patch f)))"
proof -
  have other: "p \<notin> fp_filename ` set fs \<Longrightarrow> fold add_file fs m p = m p" for p fs and m :: "string \<rightharpoonup> nat set"
    by (induction fs arbitrary: m) (auto simp: add_file_at)
  show ?thesis using assms
  proof (induction files arbitrary: m)
    case (Cons g gs)
    show ?case
    proof (cases "f = g")
      case True
      then show ?thesis using Cons.prems other[of "fp_filename g" gs] add_file_at[of g m "fp_filename g"] by simp
    next
      case False
      with Cons.prems have "f \<in> set gs" by simp
      then have "fp_filename f \<in> fp_filename ` set gs" by (rule imageI)
      then have "fp_filename f \<noteq> fp_filename g" using Cons.prems(1) by auto
      then show ?thesis using Cons False add_file_at[of g m "fp_filename f"] by simp
    qed
  qed simp
qed

lemma collect_missing: "p \<notin> fp_filename ` set files \<Longrightarrow> collectRightSideLines files p = None"
proof -
  have "p \<notin> fp_filename ` set files \<Longrightarrow> fold add_file files m p = m p" for m
    by (induction files arbitrary: m) (auto simp: add_file_at)
  then show "p \<notin> fp_filename ` set files \<Longrightarrow> collectRightSideLines files p = None"
    by (simp add: collectRightSideLines_def)
qed

lemma location_partition:
  "mset fs = mset (fst (validateFindingLocations fs files)) + mset (List.map_filter df_finding (snd (validateFindingLocations fs files)))"
  by (induction fs) (auto simp: validateFindingLocations_def Let_def List.map_filter_simps drop_for_def split: option.split)

text \<open>the location check keeps a finding exactly when a file of the pull request has its path and its
  line among the scanned lines; every other finding is dropped once, unchanged, with the reason that tells
  an unknown file from an unknown line.\<close>

theorem finding_locations_checked:
  assumes "distinct (map fp_filename files)"
  shows "(f \<in> set (fst (validateFindingLocations fs files)) \<longleftrightarrow>
      f \<in> set fs \<and> (\<exists>p\<in>set files. fp_filename p = f_path f \<and> f_line f \<in> int ` right_lines (fp_patch p))) \<and>
    (d \<in> set (snd (validateFindingLocations fs files)) \<longleftrightarrow>
      (\<exists>g\<in>set fs. d = drop_for (if \<exists>p\<in>set files. fp_filename p = f_path g \<and> right_lines (fp_patch p) \<noteq> {}
           then line_not_in_current_diff else file_not_in_diff) g \<and>
         \<not> (\<exists>p\<in>set files. fp_filename p = f_path g \<and> f_line g \<in> int ` right_lines (fp_patch p)))) \<and>
    mset fs = mset (fst (validateFindingLocations fs files)) +
      mset (List.map_filter df_finding (snd (validateFindingLocations fs files)))"
proof -
  let ?m = "collectRightSideLines files"
  have hit: "?m (f_path g) = Some ls \<longleftrightarrow> ls \<noteq> {} \<and> (\<exists>p\<in>set files. fp_filename p = f_path g \<and> ls = right_lines (fp_patch p))" for g ls
  proof (cases "f_path g \<in> fp_filename ` set files")
    case True
    then obtain p where p: "p \<in> set files" "fp_filename p = f_path g" by auto
    have "q = p" if "q \<in> set files" "fp_filename q = f_path g" for q
      using assms that p by (metis inj_onD distinct_map)
    then have one: "(\<exists>p'\<in>set files. fp_filename p' = f_path g \<and> ls = right_lines (fp_patch p')) \<longleftrightarrow> ls = right_lines (fp_patch p)"
      using p by blast
    have "?m (f_path g) = (if right_lines (fp_patch p) = {} then None else Some (right_lines (fp_patch p)))"
      using collect_lookup[OF assms p(1), of Map.empty] p(2) by (simp add: collectRightSideLines_def)
    then show ?thesis unfolding one by auto
  next
    case False
    then have "\<not> (\<exists>p\<in>set files. fp_filename p = f_path g)" by (metis imageI)
    then show ?thesis using collect_missing[OF False] by auto
  qed
  have ok: "location_drop ?m g = None \<longleftrightarrow>
      (\<exists>p\<in>set files. fp_filename p = f_path g \<and> f_line g \<in> int ` right_lines (fp_patch p))" for g
  proof (cases "?m (f_path g)")
    case None
    have "right_lines (fp_patch p) = {}" if "p \<in> set files" "fp_filename p = f_path g" for p
      using hit[of g "right_lines (fp_patch p)", unfolded None] that by auto
    then show ?thesis using None by (simp add: location_drop_def)
  next
    case (Some ls)
    then obtain p where p: "p \<in> set files" "fp_filename p = f_path g" "ls = right_lines (fp_patch p)" "ls \<noteq> {}"
      using hit[of g ls] by auto
    have u: "q = p" if "q \<in> set files" "fp_filename q = f_path g" for q
      using assms that p(1,2) by (metis inj_onD distinct_map)
    have "(\<exists>q\<in>set files. fp_filename q = f_path g \<and> f_line g \<in> int ` right_lines (fp_patch q)) \<longleftrightarrow> f_line g \<in> int ` ls"
      unfolding p(3) using u p(1,2) by blast
    with Some show ?thesis by (simp add: location_drop_def)
  qed
  have why: "location_drop ?m g = Some r \<longleftrightarrow>
      \<not> (\<exists>p\<in>set files. fp_filename p = f_path g \<and> f_line g \<in> int ` right_lines (fp_patch p)) \<and>
      r = (if \<exists>p\<in>set files. fp_filename p = f_path g \<and> right_lines (fp_patch p) \<noteq> {}
           then line_not_in_current_diff else file_not_in_diff)" for g r
  proof (cases "?m (f_path g)")
    case None
    then show ?thesis using ok[of g] hit[of g] by (auto simp: location_drop_def)
  next
    case (Some ls)
    then show ?thesis using ok[of g] hit[of g ls] by (auto simp: location_drop_def split: if_splits)
  qed
  have dropped: "d \<in> set (snd (validateFindingLocations fs files)) \<longleftrightarrow>
      (\<exists>g\<in>set fs. \<exists>r. location_drop ?m g = Some r \<and> d = drop_for r g)"
    by (force simp: validateFindingLocations_def Let_def List.map_filter_def)
  have kept: "f \<in> set (fst (validateFindingLocations fs files)) \<longleftrightarrow> f \<in> set fs \<and> location_drop ?m f = None"
    by (simp add: validateFindingLocations_def Let_def)
  show ?thesis
    unfolding dropped kept ok why using location_partition[of fs files] by blast
qed

section \<open>Examples\<close>

definition ex_hunk :: hunk where
  "ex_hunk = \<lparr>hk_old = 4, hk_old_count = 3, hk_new = 4, hk_new_count = 3, hk_context = '' query'',
     hk_lines = [Kept ''select *'', Deleted ''from a'', Added ''from b'', Kept ''where 1'', NoNewline]\<rparr>"

definition ex_sql_hunk :: hunk where
  "ex_sql_hunk = \<lparr>hk_old = 1, hk_old_count = 3, hk_new = 1, hk_new_count = 2, hk_context = [],
     hk_lines = [Kept ''select 1;'', Deleted ''-- todo'', Added ''select 2;'']\<rparr>"

definition ex_files :: "file_patch list" where
  "ex_files = [\<lparr>fp_filename = ''q.sql'', fp_patch = Some (render_patch [ex_sql_hunk])\<rparr>]"

definition ex_finding :: finding where
  "ex_finding = \<lparr>f_severity = P1, f_path = ''q.sql'', f_line = 2, f_title = ''Wrong constant'', f_body = ''selects two'',
     f_confidence = 9 / 10, f_category = None, f_why = None, f_evidence = None, f_evidence_malformed = False\<rparr>"

lemma ex_one_line: "one_line ex_hunk" "one_line ex_sql_hunk"
  by code_simp+

theorem right_lines_correct_witness: "right_lines (Some (render_patch [ex_hunk])) = {4, 5, 6}"
proof -
  have "right_lines (Some (render_patch [ex_hunk])) = (\<Union>h\<in>set [ex_hunk]. new_file_lines (hk_new h) (hk_lines h))"
    by (rule right_lines_correct) (simp_all add: ex_one_line, simp add: ex_hunk_def)
  then show ?thesis by (auto simp: ex_hunk_def)
qed

theorem dashed_deletion_overruns_witness:
  "3 \<in> right_lines (Some (render_patch [ex_sql_hunk])) \<and> 3 \<notin> new_file_lines (hk_new ex_sql_hunk) (hk_lines ex_sql_hunk)"
proof -
  have l: "length (filter shown_in_new (hk_lines ex_sql_hunk)) = 2" "length (filter dashed (hk_lines ex_sql_hunk)) = 1"
    "hk_new ex_sql_hunk = 1"
    by (simp_all add: ex_sql_hunk_def)
  from dashed_deletion_overruns[OF ex_one_line(2)] show ?thesis
    unfolding l by fastforce
qed

theorem finding_locations_checked_witness:
  "ex_finding \<in> set (fst (validateFindingLocations [ex_finding] ex_files))"
proof -
  have "right_lines (Some (render_patch [ex_sql_hunk])) = {1 ..< 4}"
    by (simp add: right_lines_render ex_one_line) (auto simp: ex_sql_hunk_def scanned_def)
  then show ?thesis
    using conjunct1[OF finding_locations_checked[of ex_files ex_finding "[ex_finding]"]]
    by (simp add: ex_files_def) (simp add: ex_finding_def)
qed

end
