(* ===== verification/Findings.thy ===== *)
theory Findings
  imports Diff
begin

text \<open>
  From model findings to review comments (\<open>src/findings.ts\<close>, \<open>src/regression-taxonomy.ts\<close>): the
  categories and what may request changes, the finding's fingerprint, the schema check of the model's
  answer, and the normalization that ranks, deduplicates and caps the findings of one run.
\<close>

section \<open>Categories\<close>

fun categoryLabel :: "category \<Rightarrow> string" where
  "categoryLabel data_loss = ''Data loss''"
| "categoryLabel auth = ''Auth''"
| "categoryLabel ci_build = ''CI/build''"
| "categoryLabel unity_scene_prefab = ''Unity scene/prefab''"
| "categoryLabel security_boundary = ''Security boundary''"
| "categoryLabel migration = ''Migration''"
| "categoryLabel api_compatibility = ''API compatibility''"
| "categoryLabel release_regression = ''Release regression''"
| "categoryLabel flaky_test_risk = ''Flaky test risk''"
| "categoryLabel proof_gap = ''Proof gap''"
| "categoryLabel runtime_correctness = ''Runtime correctness''"
| "categoryLabel dependency = ''Dependency''"
| "categoryLabel docs_only = ''Docs only''"
| "categoryLabel unknown = ''Uncategorized''"

text \<open>\<open>REGRESSION_CATEGORY_POLICY[c].requestChangesEligible\<close>\<close>

definition category_eligible :: "category \<Rightarrow> bool" where
  "category_eligible c \<longleftrightarrow> c \<noteq> proof_gap \<and> c \<noteq> docs_only"

fun category_name :: "category \<Rightarrow> string" where
  "category_name data_loss = ''data_loss''"
| "category_name auth = ''auth''"
| "category_name ci_build = ''ci_build''"
| "category_name unity_scene_prefab = ''unity_scene_prefab''"
| "category_name security_boundary = ''security_boundary''"
| "category_name migration = ''migration''"
| "category_name api_compatibility = ''api_compatibility''"
| "category_name release_regression = ''release_regression''"
| "category_name flaky_test_risk = ''flaky_test_risk''"
| "category_name proof_gap = ''proof_gap''"
| "category_name runtime_correctness = ''runtime_correctness''"
| "category_name dependency = ''dependency''"
| "category_name docs_only = ''docs_only''"
| "category_name unknown = ''unknown''"

definition REGRESSION_CATEGORIES :: "category list" where
  "REGRESSION_CATEGORIES = [data_loss, auth, ci_build, unity_scene_prefab, security_boundary, migration,
     api_compatibility, release_regression, flaky_test_risk, proof_gap, runtime_correctness, dependency,
     docs_only, unknown]"

text \<open>\<open>isRegressionCategory(value)\<close> with the category it names.\<close>

definition category_of_name :: "string \<Rightarrow> category option" where
  "category_of_name s = find (\<lambda>c. category_name c = s) REGRESSION_CATEGORIES"

fun severity_name :: "severity \<Rightarrow> string" where
  "severity_name P0 = ''P0''"
| "severity_name P1 = ''P1''"
| "severity_name P2 = ''P2''"
| "severity_name P3 = ''P3''"

fun severity_of_name :: "string \<Rightarrow> severity option" where
  "severity_of_name s = find (\<lambda>v. severity_name v = s) [P0, P1, P2, P3]"

fun SEVERITY_RANK :: "severity \<Rightarrow> int" where
  "SEVERITY_RANK P0 = 0"
| "SEVERITY_RANK P1 = 1"
| "SEVERITY_RANK P2 = 2"
| "SEVERITY_RANK P3 = 3"

instantiation severity :: linorder
begin

definition less_eq_severity :: "severity \<Rightarrow> severity \<Rightarrow> bool" where
  "less_eq_severity a b \<longleftrightarrow> SEVERITY_RANK a \<le> SEVERITY_RANK b"

definition less_severity :: "severity \<Rightarrow> severity \<Rightarrow> bool" where
  "less_severity a b \<longleftrightarrow> SEVERITY_RANK a < SEVERITY_RANK b"

instance
proof
  fix x y z :: severity
  show "x < y \<longleftrightarrow> x \<le> y \<and> \<not> y \<le> x" by (auto simp: less_eq_severity_def less_severity_def)
  show "x \<le> x" by (simp add: less_eq_severity_def)
  show "x \<le> y \<Longrightarrow> y \<le> z \<Longrightarrow> x \<le> z" by (simp add: less_eq_severity_def)
  show "x \<le> y \<Longrightarrow> y \<le> x \<Longrightarrow> x = y" by (cases x; cases y) (simp_all add: less_eq_severity_def)
  show "x \<le> y \<or> y \<le> x" by (auto simp: less_eq_severity_def)
qed

end

definition isHighSeverity :: "severity \<Rightarrow> bool" where
  "isHighSeverity s \<longleftrightarrow> s = P0 \<or> s = P1"

text \<open>
  \<open>matchesAny\<close>: a needle with a separator is searched anywhere, another one as a whole word of the
  regular expression \<open>(^|[^a-z0-9])needle([^a-z0-9]|$)\<close>.
\<close>

definition is_word_char :: "char \<Rightarrow> bool" where
  "is_word_char c \<longleftrightarrow> is_digit c \<or> (97 \<le> char_code c \<and> char_code c \<le> 122)"

fun word_in :: "string \<Rightarrow> bool \<Rightarrow> string \<Rightarrow> bool" where
  "word_in w boundary [] = (boundary \<and> w = [])"
| "word_in w boundary (c # s) =
     (boundary \<and> starts_with w (c # s) \<and>
        (case drop (length w) (c # s) of [] \<Rightarrow> True | e # _ \<Rightarrow> \<not> is_word_char e)
      \<or> word_in w (\<not> is_word_char c) s)"

definition has_separator :: "string \<Rightarrow> bool" where
  "has_separator w \<longleftrightarrow> list_ex (\<lambda>c. is_space c \<or> c \<in> set ''/.*_-'') w"

definition matchesAny :: "string \<Rightarrow> string list \<Rightarrow> bool" where
  "matchesAny text needles = list_ex (\<lambda>w. if has_separator w then str_includes w text else word_in w True text) needles"

definition finding_haystack :: "finding \<Rightarrow> string" where
  "finding_haystack f = to_lower (f_path f @ CHR 0x0A # f_title f @ CHR 0x0A # f_body f @ CHR 0x0A # or_default (f_why f) [])"

definition inferRegressionCategory :: "finding \<Rightarrow> category" where
  "inferRegressionCategory f =
     (let haystack = finding_haystack f; path = to_lower (f_path f)
      in if matchesAny haystack [''data loss'', ''overwrite'', ''clobber'', ''truncate'', ''corrupt''] \<or>
            (matchesAny haystack [''rollback''] \<and> matchesAny haystack [''save'', ''state'', ''database'', ''customer data''])
         then data_loss
         else if matchesAny haystack [''secret'', ''credential'', ''private key'', ''api key'', ''access token'',
            ''leaked token'', ''cookie'', ''xss'', ''csrf'', ''ssrf'', ''injection'']
         then security_boundary
         else if matchesAny haystack [''auth'', ''permission'', ''unauthorized'', ''oauth'', ''session'', ''login'', ''token'']
         then auth
         else if matchesAny path [''.github/workflows/'', ''package.json'', ''package-lock.json'', ''pnpm-lock.yaml'',
            ''yarn.lock'', ''tsconfig'']
         then ci_build
         else if matchesAny path [''assets/'', ''projectsettings/'', ''.unity'', ''.prefab'', ''.asset'', ''.cs'']
         then unity_scene_prefab
         else if matchesAny haystack [''migration'', ''schema'', ''database'', ''backfill''] then migration
         else if matchesAny haystack [''api'', ''contract'', ''compatibility'', ''breaking change'', ''payload'']
         then api_compatibility
         else if matchesAny haystack [''release'', ''deploy'', ''launchd'', ''notar'', ''rollback'', ''appcast'', ''production'']
         then release_regression
         else if matchesAny haystack [''flaky'', ''race'', ''timeout'', ''non-deterministic'', ''nondeterministic'']
         then flaky_test_risk
         else if matchesAny haystack [''proof'', ''evidence'', ''screenshot'', ''recording'', ''smoke'', ''play mode'', ''playmode'']
         then proof_gap
         else if matchesAny path [''docs/'', ''.md'', ''.mdx''] then docs_only
         else if matchesAny path [''src/'', ''app/'', ''lib/'', ''server/'', ''client/''] then runtime_correctness
         else if matchesAny path [''requirements'', ''poetry.lock'', ''cargo.lock'', ''go.sum'', ''bun.lock''] then dependency
         else unknown)"

text \<open>The model's category wins, unless the inferred one escalates across the eligibility boundary.\<close>

definition normalizeFindingCategory :: "finding \<Rightarrow> category" where
  "normalizeFindingCategory f =
     (let inferred = inferRegressionCategory f
      in case f_category f of
           None \<Rightarrow> inferred
         | Some c \<Rightarrow>
             if c = unknown then inferred
             else if \<not> category_eligible c \<and> inferred \<noteq> unknown \<and> category_eligible inferred then inferred
             else c)"

section \<open>Review events\<close>

record conf_floors =
  floor_P0 :: "rat option"
  floor_P1 :: "rat option"

type_synonym category_floors = "category \<Rightarrow> rat option"

definition severity_floor :: "conf_floors option \<Rightarrow> severity \<Rightarrow> rat option" where
  "severity_floor fl s = (case fl of None \<Rightarrow> None
     | Some x \<Rightarrow> (case s of P0 \<Rightarrow> floor_P0 x | P1 \<Rightarrow> floor_P1 x | _ \<Rightarrow> None))"

definition below :: "rat \<Rightarrow> rat option \<Rightarrow> bool" where
  "below x fl = (case fl of None \<Rightarrow> False | Some f \<Rightarrow> x < f)"

definition isRequestChangesEligible ::
    "conf_floors option \<Rightarrow> category_floors option \<Rightarrow> severity \<Rightarrow> category \<Rightarrow> rat \<Rightarrow> bool" where
  "isRequestChangesEligible fl cf s c conf =
     (if \<not> isHighSeverity s \<or> \<not> category_eligible c then False
      else if below conf (case cf of None \<Rightarrow> None | Some g \<Rightarrow> g c) then False
      else if below conf (severity_floor fl s) then False
      else True)"

record review_comment =
  c_path :: string
  c_line :: int
  c_severity :: severity
  c_category :: category
  c_confidence :: rat
  c_fingerprint :: string
  c_title :: string
  c_body :: string
  c_demoted_from :: "severity option"
  c_demotion_reason :: "string option"

definition comment_eligible :: "conf_floors option \<Rightarrow> category_floors option \<Rightarrow> review_comment \<Rightarrow> bool" where
  "comment_eligible fl cf c = isRequestChangesEligible fl cf (c_severity c) (c_category c) (c_confidence c)"

definition decideReviewEvent :: "conf_floors option \<Rightarrow> category_floors option \<Rightarrow> review_comment list \<Rightarrow> review_event" where
  "decideReviewEvent fl cf cs = (if list_ex (comment_eligible fl cf) cs then EV_REQUEST_CHANGES else EV_COMMENT)"

section \<open>Fingerprints\<close>

text \<open>\<open>JSON.stringify\<close> of a string: control characters, quotes and backslashes are escaped.\<close>

definition hex_digit :: "nat \<Rightarrow> char" where
  "hex_digit k = (if k < 10 then char_of (48 + k) else char_of (87 + k))"

definition json_char :: "char \<Rightarrow> string" where
  "json_char c =
     (let n = char_code c; bs = CHR 0x5C
      in if n = 34 \<or> n = 92 then [bs, c]
         else if n = 8 then [bs, CHR ''b'']
         else if n = 9 then [bs, CHR ''t'']
         else if n = 10 then [bs, CHR ''n'']
         else if n = 12 then [bs, CHR ''f'']
         else if n = 13 then [bs, CHR ''r'']
         else if n < 32 then [bs, CHR ''u'', CHR ''0'', CHR ''0'', hex_digit (n div 16), hex_digit (n mod 16)]
         else [c])"

definition json_string :: "string \<Rightarrow> string" where
  "json_string s = CHR 0x22 # concat (map json_char s) @ [CHR 0x22]"

definition json_member :: "string \<Rightarrow> string \<Rightarrow> string" where
  "json_member k v = json_string k @ '':'' @ v"

text \<open>The services a finding's texts pass through: secrets, public text, collation and hashing.\<close>

record text_host =
  containsSecretLikeText :: "string \<Rightarrow> bool"
  redactSecrets :: "string \<Rightarrow> string"
  sanitizePublicConfidenceText :: "string \<Rightarrow> string"
  localeCompare :: "string \<Rightarrow> string \<Rightarrow> int"
  sha256_hex :: "string \<Rightarrow> string"

definition canonical_finding :: "finding \<Rightarrow> string" where
  "canonical_finding f = ''{'' @
     json_member ''severity'' (json_string (severity_name (f_severity f))) @ '','' @
     json_member ''path'' (json_string (f_path f)) @ '','' @
     json_member ''line'' (string_of_int (f_line f)) @ '','' @
     json_member ''title'' (json_string (to_lower (trim (f_title f)))) @ '','' @
     json_member ''body'' (json_string (to_lower (trim (f_body f)))) @ '','' @
     json_member ''why_this_matters'' (json_string (case f_why f of None \<Rightarrow> [] | Some w \<Rightarrow> to_lower (trim w))) @ '','' @
     json_member ''category'' (json_string (category_name (or_default (f_category f) unknown))) @ ''}''"

definition buildFindingFingerprint :: "text_host \<Rightarrow> finding \<Rightarrow> string" where
  "buildFindingFingerprint h f = ''finding:'' @ sha256_hex h (canonical_finding f)"

section \<open>The schema of a model answer\<close>

datatype json = JNull | JBool bool | JNum rat | JStr string | JArr "json list" | JObj "(string \<times> json) list"

fun member :: "string \<Rightarrow> json \<Rightarrow> json option" where
  "member k (JObj kvs) = map_of kvs k"
| "member k _ = None"

fun is_object :: "json \<Rightarrow> bool" where
  "is_object (JObj _) = True"
| "is_object _ = False"

fun string_value :: "json option \<Rightarrow> string option" where
  "string_value (Some (JStr s)) = Some s"
| "string_value _ = None"

fun number_value :: "json option \<Rightarrow> rat option" where
  "number_value (Some (JNum r)) = Some r"
| "number_value _ = None"

fun array_value :: "json option \<Rightarrow> json list option" where
  "array_value (Some (JArr xs)) = Some xs"
| "array_value _ = None"

definition integer_value :: "json option \<Rightarrow> int option" where
  "integer_value j = (case number_value j of None \<Rightarrow> None
     | Some r \<Rightarrow> if of_int \<lfloor>r\<rfloor> = r then Some \<lfloor>r\<rfloor> else None)"

text \<open>\<open>isFindingEvidenceRef\<close>, with the reference it accepts.\<close>

definition parse_evidence_ref :: "json \<Rightarrow> evidence_ref option" where
  "parse_evidence_ref j =
     (case (string_value (member ''path'' j), integer_value (member ''startLine'' j),
            integer_value (member ''endLine'' j), string_value (member ''excerpt'' j)) of
        (Some p, Some a, Some b, Some e) \<Rightarrow>
          if p \<noteq> [] \<and> 0 < a \<and> a \<le> b \<and> e \<noteq> [] \<and> length e \<le> 1000
          then Some \<lparr>ev_path = p, ev_start = a, ev_end = b, ev_excerpt = e\<rparr> else None
      | _ \<Rightarrow> None)"

definition evidence_malformed :: "json option \<Rightarrow> bool" where
  "evidence_malformed j = (case j of None \<Rightarrow> False
     | Some v \<Rightarrow> (case array_value (Some v) of None \<Rightarrow> True
         | Some xs \<Rightarrow> 5 < length xs \<or> length (List.map_filter parse_evidence_ref xs) \<noteq> length xs))"

definition parse_finding :: "json \<Rightarrow> finding option" where
  "parse_finding raw =
     (if \<not> is_object raw then None
      else case (Option.bind (string_value (member ''severity'' raw)) severity_of_name, string_value (member ''path'' raw),
            integer_value (member ''line'' raw), string_value (member ''title'' raw),
            string_value (member ''body'' raw), number_value (member ''confidence'' raw)) of
        (Some sev, Some p, Some l, Some t, Some b, Some c) \<Rightarrow>
          if l \<le> 0 \<or> trim t = [] \<or> trim b = [] \<or> c < 0 \<or> 1 < c then None
          else Some \<lparr>f_severity = sev, f_path = p, f_line = l, f_title = trim t, f_body = trim b, f_confidence = c,
             f_category = Option.bind (string_value (member ''category'' raw)) category_of_name,
             f_why = (case string_value (member ''why_this_matters'' raw) of None \<Rightarrow> None
                | Some w \<Rightarrow> if trim w = [] then None else Some (trim w)),
             f_evidence = map_option (List.map_filter parse_evidence_ref) (array_value (member ''evidence'' raw)),
             f_evidence_malformed = evidence_malformed (member ''evidence'' raw)\<rparr>
      | _ \<Rightarrow> None)"

definition schema_drop :: dropped_finding where
  "schema_drop = \<lparr>df_finding = None, df_reason = invalid_schema, df_fingerprint = None, df_thread = None\<rparr>"

definition raw_findings :: "json \<Rightarrow> json list" where
  "raw_findings v = (case v of JArr xs \<Rightarrow> xs | _ \<Rightarrow> or_default (array_value (member ''findings'' v)) [])"

definition parseFindings :: "json \<Rightarrow> finding list \<times> dropped_finding list" where
  "parseFindings v = (List.map_filter parse_finding (raw_findings v),
     map (\<lambda>_. schema_drop) (filter (\<lambda>raw. parse_finding raw = None) (raw_findings v)))"

section \<open>Near-duplicates of one run\<close>

definition SAME_RUN_DEDUP_MAX_LINE_DELTA :: int where
  "SAME_RUN_DEDUP_MAX_LINE_DELTA = 3"

definition SAME_RUN_DEDUP_MIN_PREFIX_LENGTH :: nat where
  "SAME_RUN_DEDUP_MIN_PREFIX_LENGTH = 12"

text \<open>\<open>replace(/[^a-z0-9]+/g, " ").trim().replace(/\s+/g, " ")\<close>\<close>

function words_only :: "string \<Rightarrow> string" where
  "words_only [] = []"
| "words_only (c # s) =
     (if is_word_char c then c # words_only s
      else CHR '' '' # words_only (dropWhile (\<lambda>e. \<not> is_word_char e) s))"
  by pat_completeness auto
termination
  by (relation "measure length") (auto simp: less_Suc_eq_le length_dropWhile_le)

definition normalizeTitleForDedup :: "string \<Rightarrow> string" where
  "normalizeTitleForDedup t = collapse_spaces (trim (words_only (to_lower t)))"

definition titlesAreNearDuplicate :: "string \<Rightarrow> string \<Rightarrow> bool" where
  "titlesAreNearDuplicate a b =
     (if a = b then 0 < length a
      else (let (shorter, longer) = (if length a \<le> length b then (a, b) else (b, a))
            in SAME_RUN_DEDUP_MIN_PREFIX_LENGTH \<le> length shorter \<and> starts_with shorter longer))"

definition sameRunFindingsAreNearDuplicates :: "finding \<Rightarrow> finding \<Rightarrow> bool" where
  "sameRunFindingsAreNearDuplicates l r \<longleftrightarrow>
     f_path l = f_path r \<and> normalizeFindingCategory l = normalizeFindingCategory r \<and>
     \<bar>f_line l - f_line r\<bar> \<le> SAME_RUN_DEDUP_MAX_LINE_DELTA \<and>
     titlesAreNearDuplicate (normalizeTitleForDedup (f_title l)) (normalizeTitleForDedup (f_title r))"

fun suppress_loop :: "finding list \<Rightarrow> finding list \<Rightarrow> finding list \<times> finding list" where
  "suppress_loop kept [] = (kept, [])"
| "suppress_loop kept (f # fs) =
     (if list_ex (\<lambda>e. sameRunFindingsAreNearDuplicates e f) kept
      then (let (k, d) = suppress_loop kept fs in (k, f # d))
      else suppress_loop (kept @ [f]) fs)"

definition suppressSameRunNearDuplicates :: "finding list \<Rightarrow> finding list \<times> finding list" where
  "suppressSameRunNearDuplicates fs = suppress_loop [] fs"

section \<open>Normalization\<close>

definition redactFinding :: "text_host \<Rightarrow> finding \<Rightarrow> finding" where
  "redactFinding h f = f\<lparr>f_title := redactSecrets h (f_title f), f_body := redactSecrets h (f_body f),
     f_why := (case truthy (f_why f) of None \<Rightarrow> f_why f | Some w \<Rightarrow> Some (redactSecrets h w))\<rparr>"

definition sanitizeDroppedFindingPublicText :: "text_host \<Rightarrow> finding \<Rightarrow> finding" where
  "sanitizeDroppedFindingPublicText h f = f\<lparr>f_title := sanitizePublicConfidenceText h (f_title f),
     f_body := sanitizePublicConfidenceText h (f_body f),
     f_why := map_option (sanitizePublicConfidenceText h) (f_why f)\<rparr>"

definition sanitize_finding :: "text_host \<Rightarrow> finding \<Rightarrow> finding" where
  "sanitize_finding h f = f\<lparr>f_title := sanitizePublicConfidenceText h (redactSecrets h (f_title f)),
     f_body := sanitizePublicConfidenceText h (redactSecrets h (f_body f)),
     f_why := map_option (\<lambda>w. sanitizePublicConfidenceText h (redactSecrets h w)) (f_why f)\<rparr>"

definition sanitizeDroppedFinding :: "text_host \<Rightarrow> dropped_finding \<Rightarrow> dropped_finding" where
  "sanitizeDroppedFinding h d = d\<lparr>df_finding := map_option (sanitize_finding h) (df_finding d)\<rparr>"

definition carries_secret :: "text_host \<Rightarrow> finding \<Rightarrow> bool" where
  "carries_secret h f = containsSecretLikeText h
     (f_title f @ CHR 0x0A # f_body f @ CHR 0x0A # or_default (f_why f) [])"

text \<open>The sign of the confidence difference stands for the difference: the sort uses nothing else.\<close>

definition finding_order :: "text_host \<Rightarrow> finding \<Rightarrow> finding \<Rightarrow> int" where
  "finding_order h a b =
     (let severity = SEVERITY_RANK (f_severity a) - SEVERITY_RANK (f_severity b)
      in if severity \<noteq> 0 then severity
         else if f_confidence a \<noteq> f_confidence b then (if f_confidence b < f_confidence a then -1 else 1)
         else (let path = localeCompare h (f_path a) (f_path b)
               in if path \<noteq> 0 then path
                  else if f_line a \<noteq> f_line b then f_line a - f_line b
                  else localeCompare h (f_title a) (f_title b)))"

definition formatReviewComment :: "text_host \<Rightarrow> bool \<Rightarrow> finding \<Rightarrow> string" where
  "formatReviewComment h textAlreadySanitized f =
     (let text = (\<lambda>s. if textAlreadySanitized then s else sanitizePublicConfidenceText h s) in
     ''**'' @ severity_name (f_severity f) @ '': '' @ text (f_title f) @ ''**'' @ [CHR 0x0A, CHR 0x0A] @ text (f_body f) @
     (case f_category f of None \<Rightarrow> [] | Some c \<Rightarrow> [CHR 0x0A, CHR 0x0A] @ ''Category: '' @ categoryLabel c) @
     (case truthy (f_why f) of None \<Rightarrow> [] | Some w \<Rightarrow> [CHR 0x0A, CHR 0x0A] @ ''Why this matters: '' @ text w))"

definition comment_of :: "text_host \<Rightarrow> finding \<Rightarrow> review_comment" where
  "comment_of h f =
     (let cat = normalizeFindingCategory f;
          public = sanitizePublicConfidenceText h;
          why = map_option public (truthy (f_why f))
      in \<lparr>c_path = f_path f, c_line = f_line f, c_severity = f_severity f, c_category = cat,
          c_confidence = f_confidence f, c_fingerprint = buildFindingFingerprint h f, c_title = public (f_title f),
          c_body = formatReviewComment h True (f\<lparr>f_category := Some cat, f_title := public (f_title f),
             f_body := public (f_body f), f_why := (case truthy why of None \<Rightarrow> f_why f | Some w \<Rightarrow> Some w)\<rparr>),
          c_demoted_from = None, c_demotion_reason = None\<rparr>)"

definition normalizeFindingsForReview ::
    "text_host \<Rightarrow> nat option \<Rightarrow> finding list \<Rightarrow> review_comment list \<times> dropped_finding list" where
  "normalizeFindingsForReview h maxInlineComments fs =
     (let cap = or_default maxInlineComments 25;
          secrets = filter (carries_secret h) fs;
          ranked = js_sort (finding_order h) (filter (\<lambda>f. \<not> carries_secret h f) fs);
          (distinct_ones, duplicates) = suppressSameRunNearDuplicates ranked;
          public = sanitizeDroppedFindingPublicText h
      in (map (comment_of h) (take cap distinct_ones),
          map (\<lambda>f. drop_for secret_detected (public (redactFinding h f))) secrets @
          map (\<lambda>f. drop_for same_run_near_duplicate (public f)) duplicates @
          map (\<lambda>f. drop_for comment_cap_exceeded (public f)) (drop cap distinct_ones)))"

definition SEVERITY_DEMOTION_NOTE :: string where
  "SEVERITY_DEMOTION_NOTE = ''a second check did not confirm it.''"

definition demoteReviewComment :: "review_comment \<Rightarrow> string \<Rightarrow> review_comment option" where
  "demoteReviewComment c note =
     (let prefix = ''**'' @ severity_name (c_severity c) @ '': ''
      in if (c_severity c \<noteq> P0 \<and> c_severity c \<noteq> P1) \<or> \<not> starts_with prefix (c_body c) then None
         else Some (c\<lparr>c_severity := P2,
            c_body := ''**P2: '' @ drop (length prefix) (c_body c) @ [CHR 0x0A, CHR 0x0A] @
               ''_Severity lowered from '' @ severity_name (c_severity c) @ '': '' @ note @ ''_'',
            c_demoted_from := Some (c_severity c), c_demotion_reason := Some note\<rparr>))"

definition countCategories :: "review_comment list \<Rightarrow> category \<Rightarrow> nat" where
  "countCategories cs k = length (filter (\<lambda>c. c_category c = k) cs)"

section \<open>Fingerprint identity\<close>

definition hex_value :: "char \<Rightarrow> nat" where
  "hex_value c = (if char_code c < 58 then char_code c - 48 else char_code c - 87)"

text \<open>Reads one escaped character back.\<close>

fun json_read :: "string \<Rightarrow> (char \<times> string) option" where
  "json_read (c # s) =
     (if char_code c \<noteq> 92 then Some (c, s)
      else (case s of
         d # t \<Rightarrow>
           if d = CHR ''b'' then Some (char_of (8::nat), t)
           else if d = CHR ''t'' then Some (char_of (9::nat), t)
           else if d = CHR ''n'' then Some (char_of (10::nat), t)
           else if d = CHR ''f'' then Some (char_of (12::nat), t)
           else if d = CHR ''r'' then Some (char_of (13::nat), t)
           else if d = CHR ''u'' then (case t of _ # _ # a # b # u \<Rightarrow> Some (char_of (16 * hex_value a + hex_value b), u) | _ \<Rightarrow> None)
           else Some (d, t)
       | [] \<Rightarrow> None))"
| "json_read [] = None"

lemma hex_roundtrip: "k < 16 \<Longrightarrow> hex_value (hex_digit k) = k"
  by (auto simp: hex_value_def hex_digit_def char_code_def)

lemma char_code_of [simp]: "char_of (char_code c) = c"
  by (simp add: char_code_def)

lemma backslash_code: "char_code (CHR 0x5C) = 92"
  by (simp add: char_code_def)

lemma json_short:
  "json_read (json_char (char_of (8::nat)) @ s) = Some (char_of (8::nat), s)"
  "json_read (json_char (char_of (9::nat)) @ s) = Some (char_of (9::nat), s)"
  "json_read (json_char (char_of (10::nat)) @ s) = Some (char_of (10::nat), s)"
  "json_read (json_char (char_of (12::nat)) @ s) = Some (char_of (12::nat), s)"
  "json_read (json_char (char_of (13::nat)) @ s) = Some (char_of (13::nat), s)"
  by (simp_all add: json_char_def Let_def char_code_def)

lemma json_read_char: "json_read (json_char c @ s) = Some (c, s)"
proof -
  have hex: "char_of (16 * hex_value (hex_digit (char_code c div 16)) + hex_value (hex_digit (char_code c mod 16))) = c"
    if "char_code c < 32"
    using that by (simp add: hex_roundtrip)
  have q: "c = CHR 0x22 \<or> c = CHR 0x5C" if "char_code c = 34 \<or> char_code c = 92"
  proof -
    have "c = char_of (34::nat) \<or> c = char_of (92::nat)" using that char_code_of[of c] by metis
    moreover have "char_of (34::nat) = CHR 0x22" "char_of (92::nat) = CHR 0x5C" by code_simp+
    ultimately show ?thesis by (elim disjE) (simp_all only: simp_thms)
  qed
  consider (quote) "char_code c = 34 \<or> char_code c = 92" | (short) "char_code c \<in> {8, 9, 10, 12, 13}"
    | (control) "char_code c < 32" "char_code c \<notin> {8, 9, 10, 12, 13}" | (plain) "32 \<le> char_code c" "char_code c \<noteq> 34" "char_code c \<noteq> 92"
    by fastforce
  then show ?thesis
  proof cases
    case quote
    then show ?thesis using q by (auto simp: json_char_def Let_def char_code_def)
  next
    case short
    then have "c = char_of (8::nat) \<or> c = char_of (9::nat) \<or> c = char_of (10::nat) \<or> c = char_of (12::nat) \<or> c = char_of (13::nat)"
      using char_code_of[of c] by (metis empty_iff insert_iff)
    then show ?thesis
      by (elim disjE) (simp_all only: json_short)
  next
    case control
    then have e: "json_char c = [CHR 0x5C, CHR ''u'', CHR ''0'', CHR ''0'', hex_digit (char_code c div 16), hex_digit (char_code c mod 16)]"
      by (simp add: json_char_def Let_def)
    have "json_read (CHR 0x5C # CHR ''u'' # y # z # a # b # s) = Some (char_of (16 * hex_value a + hex_value b), s)" for y z a b
      by (simp add: backslash_code)
    then show ?thesis unfolding e append_Cons append_Nil using hex[OF control(1)] by metis
  next
    case plain
    then show ?thesis by (auto simp: json_char_def Let_def)
  qed
qed

lemma json_char_quote: "json_char c = CHR 0x22 # w \<Longrightarrow> False"
  by (auto simp: json_char_def Let_def char_code_def split: if_splits)

lemma json_chars_inj:
  "concat (map json_char s) @ CHR 0x22 # x = concat (map json_char t) @ CHR 0x22 # y \<Longrightarrow> s = t \<and> x = y"
proof (induction s arbitrary: t)
  case Nil
  show ?case
  proof (cases t)
    case (Cons d t')
    then have "json_read (CHR 0x22 # x) = Some (d, concat (map json_char t') @ CHR 0x22 # y)"
      using Nil by (simp add: json_read_char)
    moreover have "json_read (CHR 0x22 # x) = Some (CHR 0x22, x)" by (simp add: char_code_def)
    ultimately have "d = CHR 0x22" by simp
    with Nil Cons show ?thesis by (simp add: json_char_def Let_def char_code_def)
  qed (use Nil in simp)
next
  case (Cons c s)
  show ?case
  proof (cases t)
    case Nil
    then have "json_read (CHR 0x22 # y) = Some (c, concat (map json_char s) @ CHR 0x22 # x)"
      using Cons.prems by (metis append.assoc append_Nil concat.simps json_read_char list.simps(8,9))
    moreover have "json_read (CHR 0x22 # y) = Some (CHR 0x22, y)" by (simp add: char_code_def)
    ultimately have "c = CHR 0x22" by simp
    with Nil Cons.prems show ?thesis by (simp add: json_char_def Let_def char_code_def)
  next
    case t: (Cons d t')
    have "Some (c, concat (map json_char s) @ CHR 0x22 # x) = Some (d, concat (map json_char t') @ CHR 0x22 # y)"
      using Cons.prems t json_read_char by (metis append.assoc concat.simps(2) list.simps(9))
    then show ?thesis using Cons.IH t by simp
  qed
qed

lemma json_string_inj: "json_string s @ x = json_string t @ y \<longleftrightarrow> s = t \<and> x = y"
proof
  assume "json_string s @ x = json_string t @ y"
  then have "concat (map json_char s) @ CHR 0x22 # x = concat (map json_char t) @ CHR 0x22 # y"
    by (simp add: json_string_def)
  then show "s = t \<and> x = y" by (rule json_chars_inj)
qed simp

lemma json_string_eq [simp]: "json_string s = json_string t \<longleftrightarrow> s = t"
  using json_string_inj[of s "[]" t "[]"] by simp

lemma number_prefix_inj:
  assumes "string_of_int i @ CHR '','' # x = string_of_int j @ CHR '','' # y"
  shows "i = j \<and> x = y"
proof -
  have d: "takeWhile (\<lambda>c. c \<noteq> CHR '','') (string_of_int k @ CHR '','' # z) = string_of_int k"
    "dropWhile (\<lambda>c. c \<noteq> CHR '','') (string_of_int k @ CHR '','' # z) = CHR '','' # z" for k z
  proof -
    have "CHR '','' \<notin> set (string_of_int k)"
      using digits_of_nat_digits not_digits(1) by (auto simp: string_of_int_def list_all_iff)
    then show "takeWhile (\<lambda>c. c \<noteq> CHR '','') (string_of_int k @ CHR '','' # z) = string_of_int k"
      "dropWhile (\<lambda>c. c \<noteq> CHR '','') (string_of_int k @ CHR '','' # z) = CHR '','' # z"
      by (subst takeWhile_append2 dropWhile_append2, force, simp)+
  qed
  have "string_of_int i = string_of_int j" "x = y" using d[of i x] d[of j y] assms by simp_all
  moreover have "\<not> is_digit (CHR ''-'')" by code_simp
  then have "hd (digits_of_nat n) \<noteq> CHR ''-''" for n
    using digits_of_nat_digits[of n] by (cases "digits_of_nat n") auto
  then have "CHR ''-'' # w \<noteq> digits_of_nat n" for n w by (metis list.sel(1))
  ultimately show ?thesis
    by (auto simp: string_of_int_def split: if_splits) (metis)+
qed

definition finding_identity :: "finding \<Rightarrow> severity \<times> string \<times> int \<times> string \<times> string \<times> string \<times> category" where
  "finding_identity f = (f_severity f, f_path f, f_line f, to_lower (trim (f_title f)), to_lower (trim (f_body f)),
     (case f_why f of None \<Rightarrow> [] | Some w \<Rightarrow> to_lower (trim w)), or_default (f_category f) unknown)"

lemma names_inj [simp]:
  "severity_name a = severity_name b \<longleftrightarrow> a = b" "category_name c = category_name d \<longleftrightarrow> c = d"
  by (cases a; cases b; simp) (cases c; cases d; simp)

text \<open>two findings have the same canonical text exactly when they agree on severity, path, line, category
  and, up to case and outer white space, title, body and rationale: no quoting or concatenation makes distinct
  findings share a fingerprint, other than a collision of the hash.\<close>

theorem fingerprint_identity:
  "canonical_finding f = canonical_finding g \<longleftrightarrow> finding_identity f = finding_identity g"
proof
  assume "finding_identity f = finding_identity g"
  then show "canonical_finding f = canonical_finding g"
    by (simp add: canonical_finding_def finding_identity_def)
next
  assume "canonical_finding f = canonical_finding g"
  then show "finding_identity f = finding_identity g"
    unfolding canonical_finding_def json_member_def append_assoc same_append_eq json_string_inj append_Cons append_Nil list.inject
    by (auto simp: finding_identity_def json_string_inj dest!: number_prefix_inj)
qed

section \<open>The schema check\<close>

definition evidence_ok :: "evidence_ref \<Rightarrow> bool" where
  "evidence_ok r \<longleftrightarrow> ev_path r \<noteq> [] \<and> 0 < ev_start r \<and> ev_start r \<le> ev_end r \<and> ev_excerpt r \<noteq> [] \<and>
     length (ev_excerpt r) \<le> 1000"

definition finding_ok :: "finding \<Rightarrow> bool" where
  "finding_ok f \<longleftrightarrow> 0 < f_line f \<and> f_title f \<noteq> [] \<and> trim (f_title f) = f_title f \<and> f_body f \<noteq> [] \<and>
     trim (f_body f) = f_body f \<and> 0 \<le> f_confidence f \<and> f_confidence f \<le> 1 \<and> f_why f \<noteq> Some [] \<and>
     list_all evidence_ok (or_default (f_evidence f) []) \<and>
     (f_evidence_malformed f \<or> length (or_default (f_evidence f) []) \<le> 5)"

lemma parse_evidence_ok: "parse_evidence_ref j = Some r \<Longrightarrow> evidence_ok r"
  by (auto simp: parse_evidence_ref_def evidence_ok_def split: option.splits if_splits)

lemma evidence_refs_ok: "list_all evidence_ok (List.map_filter parse_evidence_ref xs)"
  by (induction xs) (auto simp: List.map_filter_simps parse_evidence_ok split: option.split)

lemma trim_trim [simp]: "trim (trim s) = trim s"
proof -
  have d: "dropWhile is_space (rev (dropWhile is_space (rev t))) = rev (dropWhile is_space (rev t))" if "t = [] \<or> \<not> is_space (hd t)" for t
  proof (cases "dropWhile is_space (rev t) = []")
    case False
    then have "t \<noteq> []" by auto
    with that have "\<not> is_space (hd t)" by simp
    have "last (dropWhile is_space (rev t)) = last (rev t)"
      by (metis False dropWhile_eq_Nil_conv last_append takeWhile_dropWhile_id)
    then have "hd (rev (dropWhile is_space (rev t))) = hd t" using \<open>t \<noteq> []\<close> False by (simp add: hd_rev last_rev)
    with \<open>\<not> is_space (hd t)\<close> show ?thesis by (metis dropWhile_eq_self_iff)
  qed (metis dropWhile.simps(1) rev.simps(1))
  have h: "dropWhile is_space s = [] \<or> \<not> is_space (hd (dropWhile is_space s))"
    using hd_dropWhile by blast
  show ?thesis unfolding trim_def by (simp add: d[OF h] dropWhile_idem)
qed

lemma evidence_parsed:
  "list_all evidence_ok (or_default (map_option (List.map_filter parse_evidence_ref) (array_value j)) [])"
  "evidence_malformed j \<or> length (or_default (map_option (List.map_filter parse_evidence_ref) (array_value j)) []) \<le> 5"
proof -
  show "list_all evidence_ok (or_default (map_option (List.map_filter parse_evidence_ref) (array_value j)) [])"
    by (cases "array_value j") (simp_all add: evidence_refs_ok)
  show "evidence_malformed j \<or> length (or_default (map_option (List.map_filter parse_evidence_ref) (array_value j)) []) \<le> 5"
    by (cases j; cases "array_value j") (auto simp: evidence_malformed_def)
qed

lemma parse_finding_ok: "parse_finding j = Some f \<Longrightarrow> finding_ok f"
  using evidence_parsed[of "member ''evidence'' j"]
  by (auto simp: parse_finding_def finding_ok_def split: option.splits if_splits)

text \<open>C37: whatever the model answers, every finding that comes out of the schema check has a positive line, a
  trimmed non-empty title and body, a confidence between 0 and 1 and well-formed evidence of at most five
  references unless it is marked malformed; and every element of the answer is either a finding or one
  schema drop.\<close>

theorem parse_findings_sound:
  "list_all finding_ok (fst (parseFindings v)) \<and>
   length (fst (parseFindings v)) + length (snd (parseFindings v)) = length (raw_findings v) \<and>
   snd (parseFindings v) = replicate (length (snd (parseFindings v))) schema_drop"
proof (intro conjI)
  show "list_all finding_ok (fst (parseFindings v))"
    by (auto simp: parseFindings_def list_all_iff List.map_filter_def parse_finding_ok)
  have "length (List.map_filter g xs) + length (filter (\<lambda>x. g x = None) xs) = length xs" for g :: "json \<Rightarrow> finding option" and xs
    by (induction xs) (auto simp: List.map_filter_simps split: option.split)
  then show "length (fst (parseFindings v)) + length (snd (parseFindings v)) = length (raw_findings v)"
    by (simp add: parseFindings_def)
  show "snd (parseFindings v) = replicate (length (snd (parseFindings v))) schema_drop"
    by (simp add: parseFindings_def map_replicate_const)
qed

section \<open>Ranking, duplicates and the cap\<close>

text \<open>What \<open>localeCompare\<close> documents: an antisymmetric total preorder.\<close>

definition collation :: "(string \<Rightarrow> string \<Rightarrow> int) \<Rightarrow> bool" where
  "collation lc \<longleftrightarrow> comparator lc \<and> (\<forall>s t. sgn (lc t s) = - sgn (lc s t))"

lemma finding_order_comparator:
  assumes "collation (localeCompare h)"
  shows "comparator (finding_order h)"
proof -
  let ?lc = "localeCompare h"
  have total: "?lc x y \<le> 0 \<or> ?lc y x \<le> 0" and trans: "?lc x y \<le> 0 \<Longrightarrow> ?lc y z \<le> 0 \<Longrightarrow> ?lc x z \<le> 0" for x y z
    using assms by (auto simp: collation_def comparator_def)
  have sg: "?lc y x < 0 \<longleftrightarrow> 0 < ?lc x y" "?lc y x = 0 \<longleftrightarrow> ?lc x y = 0" for x y
    using assms by (auto simp: collation_def sgn_if split: if_splits) (smt (verit))+
  have eqt: "?lc x y = 0 \<Longrightarrow> ?lc y z = 0 \<Longrightarrow> ?lc x z = 0" for x y z
    using trans[of x y z] trans[of z y x] sg by (smt (verit))
  have ltt: "?lc x y < 0 \<Longrightarrow> ?lc y z \<le> 0 \<Longrightarrow> ?lc x z < 0" "?lc x y \<le> 0 \<Longrightarrow> ?lc y z < 0 \<Longrightarrow> ?lc x z < 0" for x y z
    using trans[of x y z] trans[of y z x] trans[of z x y] sg by (smt (verit))+
  show ?thesis
  proof
    fix x y :: finding
    show "finding_order h x y \<le> 0 \<or> finding_order h y x \<le> 0"
      using total[of "f_path x" "f_path y"] total[of "f_title x" "f_title y"] sg
      by (auto simp: finding_order_def Let_def)
  next
    fix x y z :: finding
    assume a: "finding_order h x y \<le> 0" "finding_order h y z \<le> 0"
    let ?s = "\<lambda>a b. SEVERITY_RANK (f_severity a) - SEVERITY_RANK (f_severity b)"
    consider "?s x z < 0" | "?s x y = 0" "?s y z = 0"
      using a by (auto simp: finding_order_def Let_def split: if_splits)
    then show "finding_order h x z \<le> 0"
    proof cases
      case 2
      consider "f_confidence z < f_confidence x" | "f_confidence x = f_confidence y" "f_confidence y = f_confidence z"
        using a 2 by (auto simp: finding_order_def Let_def split: if_splits)
      then show ?thesis
      proof cases
        case c: 2
        consider "?lc (f_path x) (f_path z) < 0" | "?lc (f_path x) (f_path y) = 0" "?lc (f_path y) (f_path z) = 0"
          using a 2 c ltt[of "f_path x" "f_path y" "f_path z"]
          by (auto simp: finding_order_def Let_def split: if_splits)
        then show ?thesis
        proof cases
          case p: 2
          show ?thesis
            using a 2 c p eqt[OF p] trans[of "f_title x" "f_title y" "f_title z"]
            by (auto simp: finding_order_def Let_def split: if_splits)
        qed (use 2 c in \<open>simp add: finding_order_def Let_def\<close>)
      qed (use 2 in \<open>simp add: finding_order_def Let_def\<close>)
    qed (simp add: finding_order_def Let_def)
  qed
qed

lemma finding_order_severity: "finding_order h a b \<le> 0 \<Longrightarrow> f_severity a \<le> f_severity b"
  by (auto simp: finding_order_def less_eq_severity_def Let_def split: if_splits)

lemma suppress_loop_props:
  assumes "suppress_loop kept fs = (k, d)"
  shows "mset k + mset d = mset kept + mset fs"
    and "set kept \<subseteq> set k"
    and "sorted_wrt (\<lambda>e f. \<not> sameRunFindingsAreNearDuplicates e f) kept \<Longrightarrow>
      sorted_wrt (\<lambda>e f. \<not> sameRunFindingsAreNearDuplicates e f) k"
    and "sorted_wrt R (kept @ fs) \<Longrightarrow> sorted_wrt R k \<and>
      (\<forall>g\<in>set d. \<exists>e\<in>set k. sameRunFindingsAreNearDuplicates e g \<and> R e g)"
proof -
  have "mset k + mset d = mset kept + mset fs \<and> set kept \<subseteq> set k \<and>
    (sorted_wrt (\<lambda>e f. \<not> sameRunFindingsAreNearDuplicates e f) kept \<longrightarrow>
      sorted_wrt (\<lambda>e f. \<not> sameRunFindingsAreNearDuplicates e f) k) \<and>
    (sorted_wrt R (kept @ fs) \<longrightarrow> sorted_wrt R k \<and>
      (\<forall>g\<in>set d. \<exists>e\<in>set k. sameRunFindingsAreNearDuplicates e g \<and> R e g))"
    using assms
  proof (induction fs arbitrary: kept d)
    case Nil
    then show ?case by simp
  next
    case (Cons f fs)
    show ?case
    proof (cases "list_ex (\<lambda>e. sameRunFindingsAreNearDuplicates e f) kept")
      case True
      then obtain d' where d: "suppress_loop kept fs = (k, d')" "d = f # d'"
        using Cons.prems by (auto simp: Let_def split: prod.splits)
      obtain e where "e \<in> set kept" "sameRunFindingsAreNearDuplicates e f" using True by (auto simp: list_ex_iff)
      with Cons.IH[OF d(1)] d(2) show ?thesis by (auto simp: sorted_wrt_append)
    next
      case False
      with Cons.prems have "suppress_loop (kept @ [f]) fs = (k, d)" by simp
      from Cons.IH[OF this] False show ?thesis by (auto simp: sorted_wrt_append list_ex_iff)
    qed
  qed
  then show "mset k + mset d = mset kept + mset fs" "set kept \<subseteq> set k"
    "sorted_wrt (\<lambda>e f. \<not> sameRunFindingsAreNearDuplicates e f) kept \<Longrightarrow>
      sorted_wrt (\<lambda>e f. \<not> sameRunFindingsAreNearDuplicates e f) k"
    "sorted_wrt R (kept @ fs) \<Longrightarrow> sorted_wrt R k \<and>
      (\<forall>g\<in>set d. \<exists>e\<in>set k. sameRunFindingsAreNearDuplicates e g \<and> R e g)"
    by blast+
qed

text \<open>C23: the normalization turns each finding into exactly one comment or one drop. The comments are at
  most the cap, no two of them near-duplicates and none with a secret; a duplicate goes only when one of
  equal or better rank stays, and the cap drops only what ranks no better than every comment, so it never
  drops a more severe finding for a less severe one.\<close>

theorem normalization_selects:
  assumes "collation (localeCompare h)"
  shows "\<exists>kept duplicates over.
    normalizeFindingsForReview h cap fs = (map (comment_of h) kept,
       map (\<lambda>f. drop_for secret_detected (sanitizeDroppedFindingPublicText h (redactFinding h f))) (filter (carries_secret h) fs) @
       map (\<lambda>f. drop_for same_run_near_duplicate (sanitizeDroppedFindingPublicText h f)) duplicates @
       map (\<lambda>f. drop_for comment_cap_exceeded (sanitizeDroppedFindingPublicText h f)) over) \<and>
    mset kept + mset duplicates + mset over = mset (filter (\<lambda>f. \<not> carries_secret h f) fs) \<and>
    length kept \<le> or_default cap 25 \<and> (over = [] \<or> length kept = or_default cap 25) \<and>
    sorted_wrt (\<lambda>e f. \<not> sameRunFindingsAreNearDuplicates e f) (kept @ over) \<and>
    (\<forall>g\<in>set duplicates. \<exists>e\<in>set (kept @ over). sameRunFindingsAreNearDuplicates e g \<and> finding_order h e g \<le> 0) \<and>
    (\<forall>e\<in>set kept. \<forall>g\<in>set over. finding_order h e g \<le> 0 \<and> f_severity e \<le> f_severity g)"
proof -
  let ?n = "or_default cap 25"
  let ?ranked = "js_sort (finding_order h) (filter (\<lambda>f. \<not> carries_secret h f) fs)"
  obtain k d where s: "suppress_loop [] ?ranked = (k, d)" by (cases "suppress_loop [] ?ranked")
  have sorted: "sorted_wrt (\<lambda>x y. finding_order h x y \<le> 0) ([] @ ?ranked)"
    using comparator.sorted_js_sort[OF finding_order_comparator[OF assms]] by simp
  note props = suppress_loop_props(1,3)[OF s] conjunct1[OF suppress_loop_props(4)[OF s sorted]]
    conjunct2[OF suppress_loop_props(4)[OF s sorted]]
  have split: "take ?n k @ drop ?n k = k" by simp
  have "sorted_wrt (\<lambda>x y. finding_order h x y \<le> 0) (take ?n k @ drop ?n k)" using props(3) by simp
  then have rank: "\<forall>e\<in>set (take ?n k). \<forall>g\<in>set (drop ?n k). finding_order h e g \<le> 0"
    by (simp add: sorted_wrt_append del: append_take_drop_id)
  have "mset (take ?n k) + mset (drop ?n k) = mset k" by (metis mset_append split)
  then have "mset (take ?n k) + mset d + mset (drop ?n k) = mset (filter (\<lambda>f. \<not> carries_secret h f) fs)"
    using props(1) by (simp add: ac_simps)
  moreover have "drop ?n k = [] \<or> length (take ?n k) = ?n" by auto
  moreover have "normalizeFindingsForReview h cap fs = (map (comment_of h) (take ?n k),
       map (\<lambda>f. drop_for secret_detected (sanitizeDroppedFindingPublicText h (redactFinding h f))) (filter (carries_secret h) fs) @
       map (\<lambda>f. drop_for same_run_near_duplicate (sanitizeDroppedFindingPublicText h f)) d @
       map (\<lambda>f. drop_for comment_cap_exceeded (sanitizeDroppedFindingPublicText h f)) (drop ?n k))"
    by (simp add: normalizeFindingsForReview_def Let_def suppressSameRunNearDuplicates_def s)
  moreover have "length (take ?n k) \<le> ?n" by simp
  moreover have "sorted_wrt (\<lambda>e f. \<not> sameRunFindingsAreNearDuplicates e f) (take ?n k @ drop ?n k)"
    unfolding split by (rule props(2)) simp
  moreover have "\<forall>g\<in>set d. \<exists>e\<in>set (take ?n k @ drop ?n k). sameRunFindingsAreNearDuplicates e g \<and> finding_order h e g \<le> 0"
    unfolding split by (rule props(4))
  ultimately show ?thesis using rank finding_order_severity by blast
qed

section \<open>Requesting changes\<close>

lemma below_simps [simp]: "\<not> below x None" "below x (Some f) \<longleftrightarrow> x < f"
  by (simp_all add: below_def)

lemma eligible_iff:
  "isRequestChangesEligible fl cf s c conf \<longleftrightarrow> s \<le> P1 \<and> category_eligible c \<and>
     \<not> below conf (Option.bind cf (\<lambda>g. g c)) \<and> \<not> below conf (severity_floor fl s)"
  by (cases s; cases cf) (auto simp: isRequestChangesEligible_def isHighSeverity_def less_eq_severity_def)

text \<open>a review requests changes only for a comment of severity P0 or P1 outside the proof-gap and
  docs-only categories that no floor mutes; configured floors only make the decision quieter, and a comment
  that a second check demoted never counts and is never demoted again.\<close>

theorem changes_requested_for_severe_only:
  assumes "decideReviewEvent fl cf cs = EV_REQUEST_CHANGES"
  shows "(\<exists>c\<in>set cs. c_severity c \<le> P1 \<and> c_category c \<notin> {proof_gap, docs_only} \<and>
      demoteReviewComment c note \<noteq> Some c \<and> comment_eligible fl cf c) \<and>
    decideReviewEvent None None cs = EV_REQUEST_CHANGES \<and>
    (demoteReviewComment b note = Some d \<longrightarrow> \<not> comment_eligible fl' cf' d \<and> demoteReviewComment d note' = None \<and>
       c_fingerprint d = c_fingerprint b \<and> c_path d = c_path b \<and> c_line d = c_line b)"
proof (intro conjI impI)
  obtain c where c: "c \<in> set cs" "comment_eligible fl cf c"
    using assms by (auto simp: decideReviewEvent_def list_ex_iff split: if_splits)
  have "demoteReviewComment c note \<noteq> Some c"
    by (cases c) (auto simp: demoteReviewComment_def Let_def)
  with c show "\<exists>c\<in>set cs. c_severity c \<le> P1 \<and> c_category c \<notin> {proof_gap, docs_only} \<and>
      demoteReviewComment c note \<noteq> Some c \<and> comment_eligible fl cf c"
    by (auto simp: comment_eligible_def eligible_iff category_eligible_def)
  have "comment_eligible None None c"
    using c(2) by (simp add: comment_eligible_def eligible_iff severity_floor_def)
  with c(1) show "decideReviewEvent None None cs = EV_REQUEST_CHANGES"
    by (auto simp: decideReviewEvent_def list_ex_iff)
next
  assume d: "demoteReviewComment b note = Some d"
  then have "c_severity d = P2" by (auto simp: demoteReviewComment_def Let_def split: if_splits)
  then show "\<not> comment_eligible fl' cf' d" "demoteReviewComment d note' = None"
    by (simp_all add: comment_eligible_def eligible_iff less_eq_severity_def demoteReviewComment_def Let_def)
  show "c_fingerprint d = c_fingerprint b" "c_path d = c_path b" "c_line d = c_line b"
    using d by (auto simp: demoteReviewComment_def Let_def split: if_splits)
qed

text \<open>The header a demotion looks for is the one the comment builder writes.\<close>

lemma built_comment_demotable: "isHighSeverity (f_severity f) \<Longrightarrow> demoteReviewComment (comment_of h f) note \<noteq> None"
  by (auto simp: demoteReviewComment_def comment_of_def formatReviewComment_def isHighSeverity_def Let_def)

section \<open>Examples\<close>

fun byte_compare :: "string \<Rightarrow> string \<Rightarrow> int" where
  "byte_compare [] [] = 0"
| "byte_compare [] (d # t) = -1"
| "byte_compare (c # s) [] = 1"
| "byte_compare (c # s) (d # t) = (if c = d then byte_compare s t else int (char_code c) - int (char_code d))"

lemma char_code_inj: "char_code c = char_code d \<Longrightarrow> c = d"
  by (metis char_code_of)

lemma byte_compare_sgn: "sgn (byte_compare t s) = - sgn (byte_compare s t)"
proof (induction s t rule: byte_compare.induct)
  case (4 c s d t)
  have "sgn (int (char_code d) - int (char_code c)) = - sgn (int (char_code c) - int (char_code d))" by (simp add: sgn_if)
  with 4 show ?case by (cases "c = d") simp_all
qed simp_all

lemma byte_compare_trans: "byte_compare x y \<le> 0 \<Longrightarrow> byte_compare y z \<le> 0 \<Longrightarrow> byte_compare x z \<le> 0"
proof (induction x y arbitrary: z rule: byte_compare.induct)
  case (1 z)
  then show ?case by simp
next
  case (2 d t z)
  then show ?case by (cases z) auto
next
  case (3 c s z)
  then show ?case by simp
next
  case (4 c s d t z)
  then show ?case
    by (cases z) (auto split: if_splits dest: char_code_inj)
qed

lemma byte_collation: "collation byte_compare"
proof -
  have "comparator byte_compare"
  proof
    show "byte_compare x y \<le> 0 \<or> byte_compare y x \<le> 0" for x y
      using byte_compare_sgn[of x y] by (auto simp: sgn_if split: if_splits)
    show "byte_compare x y \<le> 0 \<Longrightarrow> byte_compare y z \<le> 0 \<Longrightarrow> byte_compare x z \<le> 0" for x y z
      by (rule byte_compare_trans)
  qed
  then show ?thesis
    unfolding collation_def by (intro conjI allI byte_compare_sgn)
qed

definition ex_text_host :: text_host where
  "ex_text_host = \<lparr>containsSecretLikeText = (\<lambda>s. str_includes ''ghp_'' s), redactSecrets = (\<lambda>s. s),
     sanitizePublicConfidenceText = (\<lambda>s. s), localeCompare = byte_compare, sha256_hex = (\<lambda>s. s)\<rparr>"

definition ex_minor :: finding where
  "ex_minor = ex_finding\<lparr>f_severity := P3, f_line := 40, f_title := ''Typo''\<rparr>"

definition ex_comment :: review_comment where
  "ex_comment = \<lparr>c_path = ''q.sql'', c_line = 2, c_severity = P1, c_category = runtime_correctness, c_confidence = 9 / 10,
     c_fingerprint = ''finding:0'', c_title = ''Wrong constant'', c_body = ''**P1: Wrong constant**'', c_demoted_from = None,
     c_demotion_reason = None\<rparr>"

theorem normalization_selects_witness:
  "length (fst (normalizeFindingsForReview ex_text_host (Some 1) [ex_minor, ex_finding])) \<le> 1"
proof -
  have "collation (localeCompare ex_text_host)" by (simp add: ex_text_host_def byte_collation)
  from normalization_selects[OF this, of "Some 1" "[ex_minor, ex_finding]"] show ?thesis by auto
qed

theorem changes_requested_for_severe_only_witness:
  "decideReviewEvent None None [ex_comment] = EV_REQUEST_CHANGES \<and>
   \<not> comment_eligible None None (the (demoteReviewComment ex_comment SEVERITY_DEMOTION_NOTE))"
proof -
  have e: "decideReviewEvent (Some \<lparr>floor_P0 = None, floor_P1 = Some (1 / 2)\<rparr>) None [ex_comment] = EV_REQUEST_CHANGES"
    by (simp add: decideReviewEvent_def comment_eligible_def eligible_iff ex_comment_def category_eligible_def
        severity_floor_def less_eq_severity_def)
  have d: "demoteReviewComment ex_comment SEVERITY_DEMOTION_NOTE =
      Some (the (demoteReviewComment ex_comment SEVERITY_DEMOTION_NOTE))"
    by (simp add: demoteReviewComment_def ex_comment_def)
  from changes_requested_for_severe_only[OF e, of SEVERITY_DEMOTION_NOTE ex_comment] d show ?thesis by blast
qed

end
