(* ===== verification/ReviewGate.thy ===== *)
theory ReviewGate
  imports Findings
begin

text \<open>
  The deterministic gate between the model's findings and the posted review (\<open>src/review-gate.ts\<close>,
  \<open>src/prior-thread-suppression.ts\<close>): false positives remembered for the repository, threads that were
  answered before, and the composition of all filters with its summary.
\<close>

section \<open>Remembered false positives\<close>

record memory_entry =
  me_fingerprint :: string
  me_path :: string
  me_category :: string
  me_line :: int
  me_title :: string
  me_confirmed :: bool

definition isMemorySuppressible :: "finding \<Rightarrow> bool \<Rightarrow> bool" where
  "isMemorySuppressible f confirmedByHuman =
     (if confirmedByHuman then True else f_severity f = P2 \<or> f_severity f = P3)"

text \<open>
  The index of exact fingerprints: a legacy fingerprint carries no entry and hides an entry of the same
  fingerprint; among entries the first one counts.
\<close>

definition exact_entry :: "string list \<Rightarrow> memory_entry list \<Rightarrow> string \<Rightarrow> memory_entry option option" where
  "exact_entry fingerprints entries fp =
     (if fp \<in> set fingerprints then Some None
      else map_option Some (find (\<lambda>e. me_fingerprint e = fp) entries))"

definition coarse_match :: "finding \<Rightarrow> memory_entry \<Rightarrow> bool" where
  "coarse_match f e \<longleftrightarrow> me_path e = f_path f \<and> me_category e = category_name (normalizeFindingCategory f) \<and>
     \<bar>me_line e - f_line f\<bar> \<le> SAME_RUN_DEDUP_MAX_LINE_DELTA \<and>
     titlesAreNearDuplicate (normalizeTitleForDedup (f_title f)) (normalizeTitleForDedup (me_title e))"

definition findCoarseFalsePositiveMatch :: "finding \<Rightarrow> memory_entry list \<Rightarrow> memory_entry option" where
  "findCoarseFalsePositiveMatch f entries = find (coarse_match f) entries"

text \<open>What the memory decides for one finding: keep it, or drop it with a reason and a fingerprint.\<close>

definition memory_verdict ::
    "text_host \<Rightarrow> string list \<Rightarrow> memory_entry list \<Rightarrow> finding \<Rightarrow> (drop_reason \<times> string) option" where
  "memory_verdict h fingerprints entries f =
     (let fp = buildFindingFingerprint h f
      in case exact_entry fingerprints entries fp of
           Some exact \<Rightarrow>
             if isMemorySuppressible f (case exact of None \<Rightarrow> False | Some e \<Rightarrow> me_confirmed e)
             then Some (repo_memory_false_positive_match, fp) else None
         | None \<Rightarrow>
             (case findCoarseFalsePositiveMatch f entries of
                Some e \<Rightarrow> if isMemorySuppressible f (me_confirmed e)
                  then Some (repo_memory_false_positive_coarse_match, me_fingerprint e) else None
              | None \<Rightarrow> None))"

fun suppress_remembered ::
    "text_host \<Rightarrow> string list \<Rightarrow> memory_entry list \<Rightarrow> finding list \<Rightarrow> finding list \<times> dropped_finding list" where
  "suppress_remembered h fps es [] = ([], [])"
| "suppress_remembered h fps es (f # fs) =
     (let (kept, gone) = suppress_remembered h fps es fs
      in case memory_verdict h fps es f of
           None \<Rightarrow> (f # kept, gone)
         | Some (r, fp) \<Rightarrow> (kept, (drop_for r f)\<lparr>df_fingerprint := Some fp\<rparr> # gone))"

definition applyRepoMemoryFalsePositiveSuppressions ::
    "text_host \<Rightarrow> finding list \<Rightarrow> string list \<Rightarrow> memory_entry list \<Rightarrow> finding list \<times> dropped_finding list" where
  "applyRepoMemoryFalsePositiveSuppressions h fs fps es =
     (if fps = [] \<and> es = [] then (fs, []) else suppress_remembered h fps es fs)"

section \<open>Answered threads\<close>

record comment_user =
  cu_login :: string
  cu_type :: "string option"

record pull_comment =
  pc_id :: int
  pc_path :: "string option"
  pc_line :: "int option"
  pc_in_reply_to :: "int option"
  pc_body :: "string option"
  pc_user :: "comment_user option"

record answered_thread =
  at_id :: int
  at_path :: string
  at_line :: int
  at_title :: string
  at_body :: string

definition PRIOR_THREAD_MAX_LINE_DELTA :: int where
  "PRIOR_THREAD_MAX_LINE_DELTA = 10"

definition PRIOR_THREAD_TITLE_JACCARD_THRESHOLD :: rat where
  "PRIOR_THREAD_TITLE_JACCARD_THRESHOLD = 1 / 2"

definition PRIOR_THREAD_BODY_JACCARD_THRESHOLD :: rat where
  "PRIOR_THREAD_BODY_JACCARD_THRESHOLD = 2 / 5"

definition STOP_WORDS :: "string list" where
  "STOP_WORDS = [''the'', ''and'', ''are'', ''now'', ''for'', ''with'', ''this'', ''that'', ''from'', ''into'', ''when'', ''not'']"

text \<open>The words between runs of characters outside \<open>[a-z0-9_-]\<close>.\<close>

definition is_title_char :: "char \<Rightarrow> bool" where
  "is_title_char c \<longleftrightarrow> is_word_char c \<or> c = CHR ''_'' \<or> c = CHR ''-''"

fun split_runs :: "string \<Rightarrow> string list" where
  "split_runs [] = [[]]"
| "split_runs (c # s) =
     (if is_title_char c then (case split_runs s of [] \<Rightarrow> [[c]] | w # ws \<Rightarrow> (c # w) # ws)
      else [] # split_runs s)"

text \<open>Empty pieces are shorter than three characters, so runs of separators leave no trace.\<close>

definition titleWords :: "string \<Rightarrow> string list" where
  "titleWords text = remdups (filter (\<lambda>w. 2 < length w \<and> w \<notin> set STOP_WORDS) (split_runs (to_lower text)))"

definition wordSetJaccard :: "string list \<Rightarrow> string list \<Rightarrow> rat" where
  "wordSetJaccard l r =
     (let inter = length (filter (\<lambda>w. w \<in> set r) l); union = length l + length r - inter
      in if union = 0 then 0 else of_nat inter / of_nat union)"

definition thread_matches :: "finding \<Rightarrow> answered_thread \<Rightarrow> bool" where
  "thread_matches f t \<longleftrightarrow> at_path t = f_path f \<and> \<bar>at_line t - f_line f\<bar> \<le> PRIOR_THREAD_MAX_LINE_DELTA \<and>
     (PRIOR_THREAD_TITLE_JACCARD_THRESHOLD \<le> wordSetJaccard (titleWords (f_title f)) (titleWords (at_title t)) \<or>
      PRIOR_THREAD_BODY_JACCARD_THRESHOLD \<le> wordSetJaccard (titleWords (f_body f)) (titleWords (at_body t)))"

definition matchPriorThread :: "finding \<Rightarrow> answered_thread list \<Rightarrow> answered_thread option" where
  "matchPriorThread f threads = (if f_severity f = P0 then None else find (thread_matches f) threads)"

definition ends_with :: "string \<Rightarrow> string \<Rightarrow> bool" where
  "ends_with p s = starts_with (rev p) (rev s)"

definition is_human_reply :: "pull_comment \<Rightarrow> bool" where
  "is_human_reply c \<longleftrightarrow> pc_in_reply_to c \<noteq> None \<and>
     (case pc_user c of None \<Rightarrow> False
      | Some u \<Rightarrow> cu_type u \<noteq> Some ''Bot'' \<and> \<not> ends_with ''[bot]'' (cu_login u))"

text \<open>\<open>replace(/^\*\*P\d:\s*/, "")\<close> and \<open>replace(/\*\*$/, "")\<close>\<close>

definition strip_severity_header :: "string \<Rightarrow> string" where
  "strip_severity_header s =
     (if starts_with ''**P'' s \<and> 5 \<le> length s \<and> is_digit (s ! 3) \<and> s ! 4 = CHR '':''
      then dropWhile is_space (drop 5 s) else s)"

definition strip_bold_end :: "string \<Rightarrow> string" where
  "strip_bold_end s = (if ends_with ''**'' s then take (length s - 2) s else s)"

definition thread_of_root :: "pull_comment \<Rightarrow> answered_thread" where
  "thread_of_root first =
     (let ls = split_lines (or_default (pc_body first) []); rest = tl ls;
          before = takeWhile (\<lambda>l. \<not> starts_with ''Category:'' l) rest
      in \<lparr>at_id = pc_id first, at_path = or_default (pc_path first) [], at_line = or_default (pc_line first) 0,
          at_title = trim (strip_bold_end (strip_severity_header (hd ls))),
          at_body = trim (join_on (CHR 0x0A) before)\<rparr>)"

definition collectAnsweredThreads :: "pull_comment list \<Rightarrow> (pull_comment \<Rightarrow> bool) \<Rightarrow> answered_thread list" where
  "collectAnsweredThreads comments isOwnComment =
     (let answered = map pc_in_reply_to (filter is_human_reply comments)
      in map thread_of_root (filter (\<lambda>first. pc_in_reply_to first = None \<and> isOwnComment first \<and>
           pc_line first \<noteq> None \<and> pc_path first \<noteq> None \<and> Some (pc_id first) \<in> set answered) comments))"

definition prior_thread_drop :: "finding \<Rightarrow> answered_thread \<Rightarrow> dropped_finding" where
  "prior_thread_drop f t = (drop_for prior_thread_answered f)\<lparr>df_thread := Some (at_id t)\<rparr>"

text \<open>A demoted P0 is matched again at the severity it is published with.\<close>

definition demoted_thread ::
    "text_host \<Rightarrow> finding list \<Rightarrow> answered_thread list \<Rightarrow> review_comment \<Rightarrow> (finding \<times> answered_thread) option" where
  "demoted_thread h fs threads c =
     (case (if c_demoted_from c = Some P0 then find (\<lambda>f. buildFindingFingerprint h f = c_fingerprint c) fs else None) of
        None \<Rightarrow> None
      | Some f \<Rightarrow> map_option (\<lambda>t. (f, t)) (matchPriorThread (f\<lparr>f_severity := c_severity c\<rparr>) threads))"

definition suppressAnsweredDemotedComments ::
    "text_host \<Rightarrow> review_comment list \<Rightarrow> finding list \<Rightarrow> answered_thread list \<Rightarrow> review_comment list \<times> dropped_finding list" where
  "suppressAnsweredDemotedComments h cs fs threads =
     (if threads = [] then (cs, [])
      else (filter (\<lambda>c. demoted_thread h fs threads c = None) cs,
            List.map_filter (\<lambda>c. map_option (\<lambda>(f, t). prior_thread_drop f t) (demoted_thread h fs threads c)) cs))"

section \<open>The gate\<close>

record gate_input =
  gi_findings :: "finding list"
  gi_files :: "file_patch list"
  gi_schema_drops :: "dropped_finding list"
  gi_cap :: "nat option"
  gi_fingerprints :: "string list"
  gi_memory :: "memory_entry list"
  gi_threads :: "answered_thread list"
  gi_floors :: "conf_floors option"
  gi_category_floors :: "category_floors option"

record gate_result =
  gr_event :: review_event
  gr_comments :: "review_comment list"
  gr_dropped :: "dropped_finding list"
  gr_input_findings :: nat
  gr_accepted :: nat
  gr_dropped_count :: nat
  gr_eligible :: nat
  gr_categories :: "category \<Rightarrow> nat"
  gr_drop_reasons :: "drop_reason \<Rightarrow> nat"

definition countDropReasons :: "dropped_finding list \<Rightarrow> drop_reason \<Rightarrow> nat" where
  "countDropReasons ds r = length (filter (\<lambda>d. df_reason d = r) ds)"

definition applyDeterministicReviewGate :: "text_host \<Rightarrow> gate_input \<Rightarrow> gate_result" where
  "applyDeterministicReviewGate h i =
     (let (located, misplaced) = validateFindingLocations (gi_findings i) (gi_files i);
          (unremembered, remembered) = applyRepoMemoryFalsePositiveSuppressions h located (gi_fingerprints i) (gi_memory i);
          fresh = filter (\<lambda>f. matchPriorThread f (gi_threads i) = None) unremembered;
          answered = List.map_filter (\<lambda>f. map_option (prior_thread_drop f) (matchPriorThread f (gi_threads i))) unremembered;
          (comments, normalized) = normalizeFindingsForReview h (gi_cap i) fresh;
          dropped = map (sanitizeDroppedFinding h) (gi_schema_drops i @ misplaced @ remembered @ answered @ normalized);
          event = decideReviewEvent (gi_floors i) (gi_category_floors i) comments
      in \<lparr>gr_event = event, gr_comments = comments, gr_dropped = dropped,
          gr_input_findings = length (gi_findings i), gr_accepted = length comments,
          gr_dropped_count = length dropped,
          gr_eligible = length (filter (comment_eligible (gi_floors i) (gi_category_floors i)) comments),
          gr_categories = countCategories comments, gr_drop_reasons = countDropReasons dropped\<rparr>)"

section \<open>What suppression may drop\<close>

lemma memory_verdict_severe:
  assumes "memory_verdict h fps es f = Some (r, fp)" "isHighSeverity (f_severity f)"
  shows "\<exists>e\<in>set es. me_confirmed e \<and> (me_fingerprint e = buildFindingFingerprint h f \<or> coarse_match f e)"
proof -
  have severe: "isMemorySuppressible f b \<longleftrightarrow> b" for b
    using assms(2) by (auto simp: isMemorySuppressible_def isHighSeverity_def)
  show ?thesis
  proof (cases "exact_entry fps es (buildFindingFingerprint h f)")
  case None
  then obtain e where e: "findCoarseFalsePositiveMatch f es = Some e" "isMemorySuppressible f (me_confirmed e)"
    using assms(1) by (auto simp: memory_verdict_def Let_def split: option.splits if_splits)
  then have "e \<in> set es" "coarse_match f e"
    by (auto simp: findCoarseFalsePositiveMatch_def find_Some_iff)
  then show ?thesis using e(2) severe by blast
next
  case (Some x)
  then have "isMemorySuppressible f (case x of None \<Rightarrow> False | Some e \<Rightarrow> me_confirmed e)"
    using assms(1) by (auto simp: memory_verdict_def Let_def split: if_splits)
  then obtain e where e: "x = Some e" "me_confirmed e" using severe by (cases x) auto
  then have "find (\<lambda>e. me_fingerprint e = buildFindingFingerprint h f) es = Some e"
    using Some by (auto simp: exact_entry_def split: if_splits)
  then have "e \<in> set es" "me_fingerprint e = buildFindingFingerprint h f"
    by (auto simp: find_Some_iff)
  then show ?thesis using e(2) by blast
qed
qed

lemma suppress_remembered_step:
  "memory_verdict h fps es f = None \<Longrightarrow> suppress_remembered h fps es (f # fs) =
     (f # fst (suppress_remembered h fps es fs), snd (suppress_remembered h fps es fs))"
  "memory_verdict h fps es f = Some (r, fp) \<Longrightarrow> suppress_remembered h fps es (f # fs) =
     (fst (suppress_remembered h fps es fs), (drop_for r f)\<lparr>df_fingerprint := Some fp\<rparr> # snd (suppress_remembered h fps es fs))"
  by (simp_all add: case_prod_beta)

lemma suppress_remembered_fst:
  "fst (suppress_remembered h fps es fs) = filter (\<lambda>f. memory_verdict h fps es f = None) fs"
proof (induction fs)
  case (Cons f fs)
  then show ?case
    by (cases "memory_verdict h fps es f") (auto simp: suppress_remembered_step simp del: suppress_remembered.simps(2))
qed simp

lemma suppress_remembered_kept:
  "set (fst (suppress_remembered h fps es fs)) = {f \<in> set fs. memory_verdict h fps es f = None}"
  by (simp add: suppress_remembered_fst)

lemma memory_kept:
  "f \<in> set fs \<Longrightarrow> memory_verdict h fps es f = None \<Longrightarrow> f \<in> set (fst (applyRepoMemoryFalsePositiveSuppressions h fs fps es))"
  by (simp add: applyRepoMemoryFalsePositiveSuppressions_def suppress_remembered_kept)

section \<open>What the gate accounts for\<close>

lemma normalize_shape:
  assumes "normalizeFindingsForReview h cap fs = (cs, ds)"
  shows "length cs + length ds = length fs" "length cs \<le> or_default cap 25"
    "set cs \<subseteq> comment_of h ` {f \<in> set fs. \<not> carries_secret h f}"
proof -
  let ?n = "or_default cap 25"
  let ?ranked = "js_sort (finding_order h) (filter (\<lambda>f. \<not> carries_secret h f) fs)"
  obtain k d where s: "suppress_loop [] ?ranked = (k, d)" by (cases "suppress_loop [] ?ranked")
  have m: "mset k + mset d = mset (filter (\<lambda>f. \<not> carries_secret h f) fs)"
    using suppress_loop_props(1)[OF s] by simp
  then have "length k + length d = length (filter (\<lambda>f. \<not> carries_secret h f) fs)"
    by (metis size_mset size_union)
  then have l: "length k + length d + length (filter (carries_secret h) fs) = length fs"
    using sum_length_filter_compl[of "carries_secret h" fs] by simp
  have k: "set k \<subseteq> {f \<in> set fs. \<not> carries_secret h f}"
    using m by (metis mset_subset_eq_add_left set_mset_mono set_mset_mset set_filter)
  have cs: "cs = map (comment_of h) (take ?n k)" and ds: "length ds = length (filter (carries_secret h) fs) + length d + length (drop ?n k)"
    using assms by (auto simp: normalizeFindingsForReview_def Let_def suppressSameRunNearDuplicates_def s)
  show "length cs \<le> ?n" by (simp add: cs)
  show "length cs + length ds = length fs" using l by (simp add: cs ds)
  show "set cs \<subseteq> comment_of h ` {f \<in> set fs. \<not> carries_secret h f}"
    unfolding cs using k set_take_subset[of ?n k] by auto
qed

lemma comment_of_place [simp]: "c_path (comment_of h f) = f_path f" "c_line (comment_of h f) = f_line f"
  by (simp_all add: comment_of_def Let_def)

lemma memory_subset: "set (fst (applyRepoMemoryFalsePositiveSuppressions h fs fps es)) \<subseteq> set fs"
  by (auto simp: applyRepoMemoryFalsePositiveSuppressions_def suppress_remembered_kept)

lemma kept_location:
  assumes "f \<in> set (fst (validateFindingLocations fs files))"
  shows "f \<in> set fs \<and> (\<exists>ls. collectRightSideLines files (f_path f) = Some ls \<and> f_line f \<in> int ` ls)"
  using assms by (auto simp: validateFindingLocations_def location_drop_def Let_def split: option.splits if_splits)

lemma gate_event: "gr_event (applyDeterministicReviewGate h i) =
    decideReviewEvent (gi_floors i) (gi_category_floors i) (gr_comments (applyDeterministicReviewGate h i))"
  by (simp add: applyDeterministicReviewGate_def Let_def split: prod.split)

lemma gate_cap: "length (gr_comments (applyDeterministicReviewGate h i)) \<le> or_default (gi_cap i) 25"
  by (auto simp: applyDeterministicReviewGate_def Let_def split: prod.split dest: normalize_shape(2))

text \<open>Every comment of the gate is made from a finding without secrets on a scanned line.\<close>

lemma gate_comment_source:
  assumes "c \<in> set (gr_comments (applyDeterministicReviewGate h i))"
  shows "\<exists>f ls. c = comment_of h f \<and> f \<in> set (gi_findings i) \<and> \<not> carries_secret h f \<and>
       collectRightSideLines (gi_files i) (f_path f) = Some ls \<and> f_line f \<in> int ` ls"
proof -
  obtain located misplaced where l: "validateFindingLocations (gi_findings i) (gi_files i) = (located, misplaced)" by fastforce
  obtain unre remem where m: "applyRepoMemoryFalsePositiveSuppressions h located (gi_fingerprints i) (gi_memory i) = (unre, remem)"
    by fastforce
  obtain cs ds where n: "normalizeFindingsForReview h (gi_cap i) (filter (\<lambda>f. matchPriorThread f (gi_threads i) = None) unre) = (cs, ds)"
    by fastforce
  have "c \<in> set cs" using assms by (simp add: applyDeterministicReviewGate_def Let_def l m n)
  then obtain f where "c = comment_of h f" "f \<in> set unre" "\<not> carries_secret h f"
    using normalize_shape(3)[OF n] by auto
  moreover have "set unre \<subseteq> set located" using memory_subset[of h located] m by (metis fst_conv)
  ultimately show ?thesis using kept_location[of f "gi_findings i" "gi_files i"] l by auto
qed

text \<open>Every stage keeps the findings it has no reason against and pairs every other one with its drop.\<close>

lemma map_filter_map_option:
  "List.map_filter (\<lambda>f. map_option (p f) (g f)) fs = map (\<lambda>f. p f (the (g f))) (filter (\<lambda>f. g f \<noteq> None) fs)"
  by (induction fs) (auto simp: List.map_filter_simps split: option.split)

lemma mset_partition: "mset fs = mset (filter P fs) + mset (filter (\<lambda>f. \<not> P f) fs)"
  by (induction fs) auto

lemma memory_parts:
  "applyRepoMemoryFalsePositiveSuppressions h fs fps es =
     (filter (\<lambda>f. memory_verdict h fps es f = None) fs,
      map (\<lambda>f. (drop_for (fst (the (memory_verdict h fps es f))) f)\<lparr>df_fingerprint := Some (snd (the (memory_verdict h fps es f)))\<rparr>)
        (filter (\<lambda>f. memory_verdict h fps es f \<noteq> None) fs))"
proof -
  have none: "memory_verdict h [] [] f = None" for f
    by (simp add: memory_verdict_def Let_def exact_entry_def findCoarseFalsePositiveMatch_def)
  have "suppress_remembered h fps es fs =
     (filter (\<lambda>f. memory_verdict h fps es f = None) fs,
      map (\<lambda>f. (drop_for (fst (the (memory_verdict h fps es f))) f)\<lparr>df_fingerprint := Some (snd (the (memory_verdict h fps es f)))\<rparr>)
        (filter (\<lambda>f. memory_verdict h fps es f \<noteq> None) fs))"
  proof (induction fs)
    case (Cons f fs)
    then show ?case
      by (cases "memory_verdict h fps es f") (auto simp: suppress_remembered_step simp del: suppress_remembered.simps(2))
  qed simp
  then show ?thesis by (simp add: applyRepoMemoryFalsePositiveSuppressions_def none)
qed

lemma normalize_parts:
  obtains kept duplicates over where
    "normalizeFindingsForReview h cap fs = (map (comment_of h) kept,
       map (\<lambda>f. drop_for secret_detected (sanitizeDroppedFindingPublicText h (redactFinding h f))) (filter (carries_secret h) fs) @
       map (\<lambda>f. drop_for same_run_near_duplicate (sanitizeDroppedFindingPublicText h f)) duplicates @
       map (\<lambda>f. drop_for comment_cap_exceeded (sanitizeDroppedFindingPublicText h f)) over)"
    "mset kept + mset duplicates + mset over = mset (filter (\<lambda>f. \<not> carries_secret h f) fs)"
    "length kept \<le> or_default cap 25" "over = [] \<or> length kept = or_default cap 25"
    "\<forall>g\<in>set duplicates. \<exists>e\<in>set (kept @ over). sameRunFindingsAreNearDuplicates e g"
proof -
  let ?n = "or_default cap 25"
  let ?ranked = "js_sort (finding_order h) (filter (\<lambda>f. \<not> carries_secret h f) fs)"
  obtain k d where s: "suppress_loop [] ?ranked = (k, d)" by (cases "suppress_loop [] ?ranked")
  have any: "sorted_wrt (\<lambda>_ _. True) ([] @ ?ranked)" by (simp add: sorted_wrt_iff_nth_less)
  show thesis
  proof (rule that[of "take ?n k" d "drop ?n k"])
    show "normalizeFindingsForReview h cap fs = (map (comment_of h) (take ?n k),
       map (\<lambda>f. drop_for secret_detected (sanitizeDroppedFindingPublicText h (redactFinding h f))) (filter (carries_secret h) fs) @
       map (\<lambda>f. drop_for same_run_near_duplicate (sanitizeDroppedFindingPublicText h f)) d @
       map (\<lambda>f. drop_for comment_cap_exceeded (sanitizeDroppedFindingPublicText h f)) (drop ?n k))"
      by (simp add: normalizeFindingsForReview_def Let_def suppressSameRunNearDuplicates_def s)
    have "mset (take ?n k) + mset (drop ?n k) = mset k" by (metis mset_append append_take_drop_id)
    then show "mset (take ?n k) + mset d + mset (drop ?n k) = mset (filter (\<lambda>f. \<not> carries_secret h f) fs)"
      using suppress_loop_props(1)[OF s] by (simp add: ac_simps)
    show "\<forall>g\<in>set d. \<exists>e\<in>set (take ?n k @ drop ?n k). sameRunFindingsAreNearDuplicates e g"
      using suppress_loop_props(4)[OF s any] by simp
  qed auto
qed

text \<open>The reasons the gate has to drop a finding, with the drop each of them records: its line is not part of the change, the
  memory of false positives has it, its thread was answered, it carries a secret, it is a near-duplicate of another
  finding, or the cap on comments is used up.\<close>

definition dropped_as :: "text_host \<Rightarrow> gate_input \<Rightarrow> nat \<Rightarrow> finding \<Rightarrow> dropped_finding \<Rightarrow> bool" where
  "dropped_as h i comments f d \<longleftrightarrow>
     (\<exists>r. location_drop (collectRightSideLines (gi_files i)) f = Some r \<and> d = drop_for r f) \<or>
     (\<exists>r fp. memory_verdict h (gi_fingerprints i) (gi_memory i) f = Some (r, fp) \<and> d = (drop_for r f)\<lparr>df_fingerprint := Some fp\<rparr>) \<or>
     (\<exists>t. matchPriorThread f (gi_threads i) = Some t \<and> d = prior_thread_drop f t) \<or>
     carries_secret h f \<and> d = drop_for secret_detected (sanitizeDroppedFindingPublicText h (redactFinding h f)) \<or>
     (\<exists>e\<in>#mset (gi_findings i) - {#f#}. sameRunFindingsAreNearDuplicates e f) \<and>
       d = drop_for same_run_near_duplicate (sanitizeDroppedFindingPublicText h f) \<or>
     comments = or_default (gi_cap i) 25 \<and> d = drop_for comment_cap_exceeded (sanitizeDroppedFindingPublicText h f)"

text \<open>The reason a drop names is the one that holds.\<close>

lemma dropped_reasons:
  assumes "dropped_as h i n f d"
  shows "df_reason d \<in> {repo_memory_false_positive_match, repo_memory_false_positive_coarse_match} \<Longrightarrow>
      \<exists>r fp. memory_verdict h (gi_fingerprints i) (gi_memory i) f = Some (r, fp)"
    "df_reason d = prior_thread_answered \<Longrightarrow> f_severity f \<noteq> P0 \<and> (\<exists>t\<in>set (gi_threads i). thread_matches f t \<and> df_thread d = Some (at_id t))"
proof -
  have loc: "location_drop m f = Some r \<Longrightarrow> r \<in> {file_not_in_diff, line_not_in_current_diff}" for m r
    by (auto simp: location_drop_def split: option.splits if_splits)
  have mem: "memory_verdict h fps es f = Some (r, fp) \<Longrightarrow> r \<in> {repo_memory_false_positive_match, repo_memory_false_positive_coarse_match}" for fps es r fp
    by (auto simp: memory_verdict_def Let_def split: option.splits if_splits)
  have thread: "matchPriorThread f ts = Some t \<Longrightarrow> f_severity f \<noteq> P0 \<and> t \<in> set ts \<and> thread_matches f t" for ts t
    by (auto simp: matchPriorThread_def find_Some_iff split: if_splits)
  show "df_reason d \<in> {repo_memory_false_positive_match, repo_memory_false_positive_coarse_match} \<Longrightarrow>
      \<exists>r fp. memory_verdict h (gi_fingerprints i) (gi_memory i) f = Some (r, fp)"
    using assms by (auto simp: dropped_as_def drop_for_def prior_thread_drop_def dest!: loc)
  show "df_reason d = prior_thread_answered \<Longrightarrow> f_severity f \<noteq> P0 \<and> (\<exists>t\<in>set (gi_threads i). thread_matches f t \<and> df_thread d = Some (at_id t))"
    using assms by (auto simp: dropped_as_def drop_for_def prior_thread_drop_def dest: loc mem thread dest!: loc mem)
qed

lemma gate_partition:
  fixes i :: gate_input and h :: text_host
  defines "r \<equiv> applyDeterministicReviewGate h i"
  obtains kept gone where "mset (gi_findings i) = mset kept + mset (map fst gone)"
    "gr_comments r = map (comment_of h) kept" "gr_dropped r = map (sanitizeDroppedFinding h) (gi_schema_drops i @ map snd gone)"
    "\<forall>f\<in>set kept. location_drop (collectRightSideLines (gi_files i)) f = None \<and> \<not> carries_secret h f \<and>
       memory_verdict h (gi_fingerprints i) (gi_memory i) f = None \<and> matchPriorThread f (gi_threads i) = None"
    "\<forall>g\<in>set gone. dropped_as h i (length kept) (fst g) (snd g)" "length kept \<le> or_default (gi_cap i) 25"
proof -
  let ?loc = "location_drop (collectRightSideLines (gi_files i))"
  let ?mem = "memory_verdict h (gi_fingerprints i) (gi_memory i)"
  let ?thread = "\<lambda>f. matchPriorThread f (gi_threads i)"
  define located where "located = filter (\<lambda>f. ?loc f = None) (gi_findings i)"
  define unre where "unre = filter (\<lambda>f. ?mem f = None) located"
  define fresh where "fresh = filter (\<lambda>f. ?thread f = None) unre"
  obtain kept duplicates over where n: "normalizeFindingsForReview h (gi_cap i) fresh = (map (comment_of h) kept,
       map (\<lambda>f. drop_for secret_detected (sanitizeDroppedFindingPublicText h (redactFinding h f))) (filter (carries_secret h) fresh) @
       map (\<lambda>f. drop_for same_run_near_duplicate (sanitizeDroppedFindingPublicText h f)) duplicates @
       map (\<lambda>f. drop_for comment_cap_exceeded (sanitizeDroppedFindingPublicText h f)) over)"
    and parts: "mset kept + mset duplicates + mset over = mset (filter (\<lambda>f. \<not> carries_secret h f) fresh)"
    and cap: "length kept \<le> or_default (gi_cap i) 25" "over = [] \<or> length kept = or_default (gi_cap i) 25"
    and dup: "\<forall>g\<in>set duplicates. \<exists>e\<in>set (kept @ over). sameRunFindingsAreNearDuplicates e g"
    by (rule normalize_parts)
  define gone where "gone =
    map (\<lambda>f. (f, drop_for (the (?loc f)) f)) (filter (\<lambda>f. ?loc f \<noteq> None) (gi_findings i)) @
    map (\<lambda>f. (f, (drop_for (fst (the (?mem f))) f)\<lparr>df_fingerprint := Some (snd (the (?mem f)))\<rparr>)) (filter (\<lambda>f. ?mem f \<noteq> None) located) @
    map (\<lambda>f. (f, prior_thread_drop f (the (?thread f)))) (filter (\<lambda>f. ?thread f \<noteq> None) unre) @
    map (\<lambda>f. (f, drop_for secret_detected (sanitizeDroppedFindingPublicText h (redactFinding h f)))) (filter (carries_secret h) fresh) @
    map (\<lambda>f. (f, drop_for same_run_near_duplicate (sanitizeDroppedFindingPublicText h f))) duplicates @
    map (\<lambda>f. (f, drop_for comment_cap_exceeded (sanitizeDroppedFindingPublicText h f))) over"
  have l: "validateFindingLocations (gi_findings i) (gi_files i) =
      (located, map (\<lambda>f. drop_for (the (?loc f)) f) (filter (\<lambda>f. ?loc f \<noteq> None) (gi_findings i)))"
    by (simp add: validateFindingLocations_def Let_def map_filter_map_option located_def)
  note m = memory_parts[of h located "gi_fingerprints i" "gi_memory i", folded unre_def]
  have run: "gr_comments r = map (comment_of h) kept" "gr_dropped r = map (sanitizeDroppedFinding h) (gi_schema_drops i @ map snd gone)"
    by (simp_all only: r_def applyDeterministicReviewGate_def Let_def l m prod.case fresh_def[symmetric] n map_filter_map_option
        gate_result.simps gone_def map_append map_map comp_def snd_conv)
  have sum: "mset (gi_findings i) = mset kept + mset (map fst gone)"
  proof -
    have "mset (gi_findings i) = mset located + mset (filter (\<lambda>f. ?loc f \<noteq> None) (gi_findings i))"
      "mset located = mset unre + mset (filter (\<lambda>f. ?mem f \<noteq> None) located)"
      "mset unre = mset fresh + mset (filter (\<lambda>f. ?thread f \<noteq> None) unre)"
      unfolding located_def unre_def fresh_def by (rule mset_partition)+
    moreover have "mset fresh = mset (filter (carries_secret h) fresh) + (mset kept + mset duplicates + mset over)"
      unfolding parts by (rule mset_partition)
    ultimately show ?thesis by (simp only: gone_def map_append map_map comp_def fst_conv map_ident mset_append ac_simps)
  qed
  have members: "set kept \<union> set duplicates \<union> set over = {f \<in> set fresh. \<not> carries_secret h f}"
    using arg_cong[OF parts, of set_mset] by simp
  have "\<forall>f\<in>set kept. ?loc f = None \<and> \<not> carries_secret h f \<and> ?mem f = None \<and> ?thread f = None"
    using members by (auto simp: fresh_def unre_def located_def)
  moreover have "\<forall>g\<in>set gone. dropped_as h i (length kept) (fst g) (snd g)"
  proof
    fix g assume "g \<in> set gone"
    moreover have "\<exists>e\<in>#mset (gi_findings i) - {#f#}. sameRunFindingsAreNearDuplicates e f" if "f \<in> set duplicates" for f
    proof -
      from dup that obtain e where e: "e \<in> set (kept @ over)" "sameRunFindingsAreNearDuplicates e f" by blast
      from that obtain D where D: "mset duplicates = add_mset f D" by (metis multi_member_split set_mset_mset)
      have "mset (gi_findings i) = add_mset f (mset kept + mset over + D + (mset (filter (\<lambda>f. ?loc f \<noteq> None) (gi_findings i)) +
          mset (filter (\<lambda>f. ?mem f \<noteq> None) located) + mset (filter (\<lambda>f. ?thread f \<noteq> None) unre) + mset (filter (carries_secret h) fresh)))"
        unfolding sum gone_def by (simp only: map_append map_map comp_def fst_conv map_ident mset_append D union_mset_add_mset_right
          union_mset_add_mset_left ac_simps)
      then obtain M where M: "mset (gi_findings i) = add_mset f (mset kept + mset over + M)" by (metis union_assoc)
      then have "e \<in># mset (gi_findings i) - {#f#}" unfolding M using e(1) by simp
      then show ?thesis using e(2) by blast
    qed
    ultimately show "dropped_as h i (length kept) (fst g) (snd g)"
      using cap(2) unfolding gone_def dropped_as_def by (auto; blast)
  qed
  ultimately show thesis using that[OF sum run] cap(1) by blast
qed

text \<open>C12: the gate loses nothing and invents nothing. The findings split into those that become the comments, in their order,
  and those that become the drops after the schema drops, one drop for each with a reason that holds of that very
  finding; a comment stems from a finding without secrets, on a line of the change, that neither the memory nor an
  answered thread has. The comments are within the cap, the counts of the summary are those of the lists, and the
  event requests changes exactly when one of the comments is eligible for it.\<close>

theorem gate_accounts_for_every_finding:
  fixes i :: gate_input and h :: text_host
  defines "r \<equiv> applyDeterministicReviewGate h i"
  shows "(\<exists>kept gone. mset (gi_findings i) = mset kept + mset (map fst gone) \<and>
      gr_comments r = map (comment_of h) kept \<and>
      gr_dropped r = map (sanitizeDroppedFinding h) (gi_schema_drops i @ map snd gone) \<and>
      (\<forall>f\<in>set kept. location_drop (collectRightSideLines (gi_files i)) f = None \<and> \<not> carries_secret h f \<and>
         memory_verdict h (gi_fingerprints i) (gi_memory i) f = None \<and> matchPriorThread f (gi_threads i) = None) \<and>
      (\<forall>g\<in>set gone. dropped_as h i (length kept) (fst g) (snd g))) \<and>
    length (gr_comments r) \<le> or_default (gi_cap i) 25 \<and>
    gr_input_findings r = length (gi_findings i) \<and> gr_accepted r = length (gr_comments r) \<and>
    gr_dropped_count r = length (gr_dropped r) \<and>
    gr_eligible r = length (filter (comment_eligible (gi_floors i) (gi_category_floors i)) (gr_comments r)) \<and>
    (gr_event r = EV_REQUEST_CHANGES \<longleftrightarrow> (\<exists>c\<in>set (gr_comments r). comment_eligible (gi_floors i) (gi_category_floors i) c))"
proof -
  have counts: "gr_input_findings r = length (gi_findings i)" "gr_accepted r = length (gr_comments r)" "gr_dropped_count r = length (gr_dropped r)"
    "gr_eligible r = length (filter (comment_eligible (gi_floors i) (gi_category_floors i)) (gr_comments r))"
    by (simp_all add: r_def applyDeterministicReviewGate_def Let_def split: prod.split)
  have event: "gr_event r = EV_REQUEST_CHANGES \<longleftrightarrow> (\<exists>c\<in>set (gr_comments r). comment_eligible (gi_floors i) (gi_category_floors i) c)"
    by (simp add: r_def gate_event decideReviewEvent_def list_ex_iff)
  obtain kept gone where g: "mset (gi_findings i) = mset kept + mset (map fst gone)"
    "gr_comments r = map (comment_of h) kept" "gr_dropped r = map (sanitizeDroppedFinding h) (gi_schema_drops i @ map snd gone)"
    "\<forall>f\<in>set kept. location_drop (collectRightSideLines (gi_files i)) f = None \<and> \<not> carries_secret h f \<and>
       memory_verdict h (gi_fingerprints i) (gi_memory i) f = None \<and> matchPriorThread f (gi_threads i) = None"
    "\<forall>g\<in>set gone. dropped_as h i (length kept) (fst g) (snd g)" "length kept \<le> or_default (gi_cap i) 25"
    unfolding r_def by (rule gate_partition)
  have "length (gr_comments r) \<le> or_default (gi_cap i) 25" using g(6) by (simp add: g(2))
  with counts event g(1-5) show ?thesis by blast
qed

section \<open>Demoted comments\<close>

text \<open>after self-consistency demoted comments, only a comment that was lowered from P0 and whose original
  finding matches an answered thread at the published severity is taken back; everything else stays in
  order, and one drop is recorded per comment taken back.\<close>

theorem demoted_comments_checked_again:
  "fst (suppressAnsweredDemotedComments h cs fs threads) =
     filter (\<lambda>c. \<not> (c_demoted_from c = Some P0 \<and> c_severity c \<noteq> P0 \<and>
        (\<exists>f. find (\<lambda>f. buildFindingFingerprint h f = c_fingerprint c) fs = Some f \<and>
           list_ex (thread_matches f) threads))) cs \<and>
   length (fst (suppressAnsweredDemotedComments h cs fs threads)) +
     length (snd (suppressAnsweredDemotedComments h cs fs threads)) = length cs"
proof
  have tm: "thread_matches (f\<lparr>f_severity := s\<rparr>) = thread_matches f" for f s
    by (auto simp: thread_matches_def)
  have t: "demoted_thread h fs threads c = None \<longleftrightarrow> \<not> (c_demoted_from c = Some P0 \<and> c_severity c \<noteq> P0 \<and>
        (\<exists>f. find (\<lambda>f. buildFindingFingerprint h f = c_fingerprint c) fs = Some f \<and>
           list_ex (thread_matches f) threads))" for c
    by (cases "find (\<lambda>f. buildFindingFingerprint h f = c_fingerprint c) fs")
      (auto simp: demoted_thread_def matchPriorThread_def find_None_iff[of "thread_matches _"] list_ex_iff tm)
  show "fst (suppressAnsweredDemotedComments h cs fs threads) =
     filter (\<lambda>c. \<not> (c_demoted_from c = Some P0 \<and> c_severity c \<noteq> P0 \<and>
        (\<exists>f. find (\<lambda>f. buildFindingFingerprint h f = c_fingerprint c) fs = Some f \<and>
           list_ex (thread_matches f) threads))) cs"
    by (simp add: suppressAnsweredDemotedComments_def t)
  show "length (fst (suppressAnsweredDemotedComments h cs fs threads)) +
     length (snd (suppressAnsweredDemotedComments h cs fs threads)) = length cs"
    by (induction cs) (auto simp: suppressAnsweredDemotedComments_def List.map_filter_simps split: option.split)
qed

section \<open>What learning may silence\<close>

text \<open>C25: no suppression silences a severe finding by itself. The gate drops a finding of severity P0 or P1 as a remembered
  false positive only when a human confirmed an entry that matches it, and as answered before only a P1 whose thread
  matches; the pass after self-consistency takes back only comments that were lowered from P0, so a comment that is
  still P0, or was never lowered, stays.\<close>

theorem severe_findings_survive_suppression:
  fixes i :: gate_input and h :: text_host
  defines "r \<equiv> applyDeterministicReviewGate h i"
  shows "(\<exists>kept gone. mset (gi_findings i) = mset kept + mset (map fst gone) \<and>
      gr_comments r = map (comment_of h) kept \<and>
      gr_dropped r = map (sanitizeDroppedFinding h) (gi_schema_drops i @ map snd gone) \<and>
      (\<forall>g\<in>set gone. isHighSeverity (f_severity (fst g)) \<longrightarrow>
        (df_reason (snd g) \<in> {repo_memory_false_positive_match, repo_memory_false_positive_coarse_match} \<longrightarrow>
          (\<exists>e\<in>set (gi_memory i). me_confirmed e \<and> (me_fingerprint e = buildFindingFingerprint h (fst g) \<or> coarse_match (fst g) e))) \<and>
        (df_reason (snd g) = prior_thread_answered \<longrightarrow> f_severity (fst g) = P1 \<and>
          (\<exists>t\<in>set (gi_threads i). thread_matches (fst g) t \<and> df_thread (snd g) = Some (at_id t))))) \<and>
    (\<forall>c\<in>set cs. c_demoted_from c \<noteq> Some P0 \<or> c_severity c = P0 \<longrightarrow> c \<in> set (fst (suppressAnsweredDemotedComments h cs fs threads)))"
proof (intro conjI)
  obtain kept gone where g: "mset (gi_findings i) = mset kept + mset (map fst gone)"
    "gr_comments r = map (comment_of h) kept" "gr_dropped r = map (sanitizeDroppedFinding h) (gi_schema_drops i @ map snd gone)"
    "\<forall>g\<in>set gone. dropped_as h i (length kept) (fst g) (snd g)"
    unfolding r_def by (rule gate_partition)
  have "(df_reason d \<in> {repo_memory_false_positive_match, repo_memory_false_positive_coarse_match} \<longrightarrow>
          (\<exists>e\<in>set (gi_memory i). me_confirmed e \<and> (me_fingerprint e = buildFindingFingerprint h f \<or> coarse_match f e))) \<and>
        (df_reason d = prior_thread_answered \<longrightarrow> f_severity f = P1 \<and>
          (\<exists>t\<in>set (gi_threads i). thread_matches f t \<and> df_thread d = Some (at_id t)))"
    if "dropped_as h i (length kept) f d" "isHighSeverity (f_severity f)" for f d
    using dropped_reasons[OF that(1)] memory_verdict_severe[OF _ that(2)] that(2) by (auto simp: isHighSeverity_def) 
  with g show "\<exists>kept gone. mset (gi_findings i) = mset kept + mset (map fst gone) \<and>
      gr_comments r = map (comment_of h) kept \<and>
      gr_dropped r = map (sanitizeDroppedFinding h) (gi_schema_drops i @ map snd gone) \<and>
      (\<forall>g\<in>set gone. isHighSeverity (f_severity (fst g)) \<longrightarrow>
        (df_reason (snd g) \<in> {repo_memory_false_positive_match, repo_memory_false_positive_coarse_match} \<longrightarrow>
          (\<exists>e\<in>set (gi_memory i). me_confirmed e \<and> (me_fingerprint e = buildFindingFingerprint h (fst g) \<or> coarse_match (fst g) e))) \<and>
        (df_reason (snd g) = prior_thread_answered \<longrightarrow> f_severity (fst g) = P1 \<and>
          (\<exists>t\<in>set (gi_threads i). thread_matches (fst g) t \<and> df_thread (snd g) = Some (at_id t))))"
    by blast
  show "\<forall>c\<in>set cs. c_demoted_from c \<noteq> Some P0 \<or> c_severity c = P0 \<longrightarrow> c \<in> set (fst (suppressAnsweredDemotedComments h cs fs threads))"
    by (auto simp: suppressAnsweredDemotedComments_def demoted_thread_def matchPriorThread_def split: option.splits)
qed

section \<open>Example\<close>

definition ex_entry :: memory_entry where
  "ex_entry = \<lparr>me_fingerprint = ''finding:1'', me_path = ''q.sql'', me_category = ''unknown'', me_line = 2,
     me_title = ''Wrong constant'', me_confirmed = False\<rparr>"

definition ex_gate_input :: gate_input where
  "ex_gate_input = \<lparr>gi_findings = [ex_finding], gi_files = [], gi_schema_drops = [], gi_cap = None, gi_fingerprints = [],
     gi_memory = [ex_entry], gi_threads = [], gi_floors = None, gi_category_floors = None\<rparr>"

lemma ex_unplaced: "location_drop (collectRightSideLines (gi_files ex_gate_input)) f = Some file_not_in_diff"
  by (simp add: ex_gate_input_def collectRightSideLines_def location_drop_def)

lemma single_gone: "mset (gi_findings ex_gate_input) = mset (map fst gone) \<Longrightarrow> \<exists>d. gone = [(ex_finding, d)]"
proof -
  assume g: "mset (gi_findings ex_gate_input) = mset (map fst gone)"
  then have "length gone = 1" "set (map fst gone) = {ex_finding}"
    using mset_eq_length[OF g] mset_eq_setD[OF g] by (simp_all add: ex_gate_input_def)
  then show ?thesis by (cases gone) auto
qed

theorem gate_accounts_for_every_finding_witness:
  "gr_comments (applyDeterministicReviewGate ex_text_host ex_gate_input) = [] \<and>
   length (gr_dropped (applyDeterministicReviewGate ex_text_host ex_gate_input)) = 1"
proof -
  obtain kept gone where g: "mset (gi_findings ex_gate_input) = mset kept + mset (map fst gone)"
    "gr_comments (applyDeterministicReviewGate ex_text_host ex_gate_input) = map (comment_of ex_text_host) kept"
    "gr_dropped (applyDeterministicReviewGate ex_text_host ex_gate_input) =
       map (sanitizeDroppedFinding ex_text_host) (gi_schema_drops ex_gate_input @ map snd gone)"
    "\<forall>f\<in>set kept. location_drop (collectRightSideLines (gi_files ex_gate_input)) f = None"
    using gate_accounts_for_every_finding[of ex_gate_input ex_text_host] by blast
  have "kept = []" using g(4) unfolding ex_unplaced by (cases kept) auto
  moreover from this obtain d where "gone = [(ex_finding, d)]" using g(1) single_gone[of gone] by auto
  ultimately show ?thesis using g(2,3) by (simp add: ex_gate_input_def)
qed

theorem severe_findings_survive_suppression_witness:
  "list_all (\<lambda>d. df_reason d \<noteq> repo_memory_false_positive_coarse_match)
     (gr_dropped (applyDeterministicReviewGate ex_text_host ex_gate_input))"
proof -
  have severe: "isHighSeverity (f_severity ex_finding)" "\<not> me_confirmed ex_entry"
    by (simp_all add: isHighSeverity_def ex_finding_def ex_entry_def)
  obtain kept gone where g: "mset (gi_findings ex_gate_input) = mset kept + mset (map fst gone)"
    "gr_dropped (applyDeterministicReviewGate ex_text_host ex_gate_input) =
       map (sanitizeDroppedFinding ex_text_host) (gi_schema_drops ex_gate_input @ map snd gone)"
    "\<forall>g\<in>set gone. isHighSeverity (f_severity (fst g)) \<longrightarrow>
        (df_reason (snd g) \<in> {repo_memory_false_positive_match, repo_memory_false_positive_coarse_match} \<longrightarrow>
          (\<exists>e\<in>set (gi_memory ex_gate_input). me_confirmed e))"
    using severe_findings_survive_suppression[of ex_gate_input ex_text_host "[]" "[]" "[]"] by fast
  have "fst g = ex_finding" if "g \<in> set gone" for g
    using arg_cong[OF g(1), of set_mset] that by (auto simp: ex_gate_input_def)
  then have "\<forall>g\<in>set gone. df_reason (snd g) \<noteq> repo_memory_false_positive_coarse_match"
    using g(3) severe by (simp add: ex_gate_input_def)
  moreover have "gi_schema_drops ex_gate_input = []" by (simp add: ex_gate_input_def)
  ultimately show ?thesis unfolding g(2) by (auto simp: list_all_iff sanitizeDroppedFinding_def)
qed

end
