(* ===== verification/ReviewHeadGate.thy ===== *)
theory ReviewHeadGate
  imports ReviewQueue Authorizations Texts
begin

text \<open>
  The merge gate for an exact pull head (\<open>src/review-head-gate.ts\<close>): which of the processed review, the queue
  jobs and the readiness of a head decides, and what is reported. The gate reads the store only through
  three methods; their contract is the locale below.
\<close>

section \<open>Decisions\<close>

datatype gate_decision = GD_passed | GD_missing | GD_queued | GD_reviewing | GD_provider_deferred | GD_failed
  | GD_needs_fix | GD_skipped | GD_dry_run | GD_stale | GD_closed | GD_blocked

definition decisionFromProcessed :: "processed_row \<Rightarrow> gate_decision" where
  "decisionFromProcessed p = (case pr_status p of
      P_posted \<Rightarrow> if pr_event p = Some EV_REQUEST_CHANGES then GD_needs_fix else GD_passed
    | P_dry_run \<Rightarrow> GD_dry_run
    | P_skipped \<Rightarrow> GD_skipped
    | P_failed \<Rightarrow> GD_failed)"

definition decisionFromQueueJob :: "queue_job \<Rightarrow> gate_decision" where
  "decisionFromQueueJob j = (case q_state j of
      Q_queued \<Rightarrow> GD_queued
    | Q_leased \<Rightarrow> GD_reviewing
    | Q_running \<Rightarrow> GD_reviewing
    | Q_provider_deferred \<Rightarrow> GD_provider_deferred
    | Q_blocked_on_proof \<Rightarrow> GD_blocked
    | Q_failed \<Rightarrow> GD_failed
    | Q_stale_retired \<Rightarrow> GD_stale
    | Q_closed_retired \<Rightarrow> GD_closed
    | Q_command_recorded \<Rightarrow> GD_blocked
    | Q_posted \<Rightarrow> if q_review_url j \<noteq> None then GD_passed else GD_blocked)"

definition decisionFromReadiness :: "readiness_row \<Rightarrow> gate_decision" where
  "decisionFromReadiness r = (case rr_state r of
      R_ready_for_human \<Rightarrow> if rr_review_url r \<noteq> None then GD_passed else GD_blocked
    | R_needs_fix \<Rightarrow> GD_needs_fix
    | R_queued \<Rightarrow> GD_queued
    | R_reviewing \<Rightarrow> GD_reviewing
    | R_provider_deferred \<Rightarrow> GD_provider_deferred
    | R_failed \<Rightarrow> GD_failed
    | R_skipped \<Rightarrow> GD_skipped
    | R_command_recorded \<Rightarrow> GD_skipped
    | R_stale \<Rightarrow> GD_stale
    | R_awaiting_re_review \<Rightarrow> GD_stale
    | R_closed \<Rightarrow> GD_closed
    | R_blocked_on_checks \<Rightarrow> GD_blocked
    | R_blocked_on_proof \<Rightarrow> GD_blocked)"

definition isActiveQueueJob :: "queue_job \<Rightarrow> bool" where
  "isActiveQueueJob j \<longleftrightarrow> q_state j = Q_queued \<or> q_state j = Q_leased \<or> q_state j = Q_running \<or> q_state j = Q_provider_deferred"

definition isTerminalQueueJob :: "queue_job \<Rightarrow> bool" where
  "isTerminalQueueJob j \<longleftrightarrow> q_state j = Q_posted \<or> q_state j = Q_failed \<or> q_state j = Q_stale_retired \<or>
     q_state j = Q_closed_retired \<or> q_state j = Q_command_recorded"

text \<open>Both timestamps are instants here; the two text formats they are stored in parse to the same instants.\<close>

definition isQueueJobNewerThanProcessed :: "queue_job \<Rightarrow> processed_row \<Rightarrow> bool" where
  "isQueueJobNewerThanProcessed j p \<longleftrightarrow> pr_created_at p < q_updated_at j"

definition decideReviewHeadGate ::
    "gate_decision option \<Rightarrow> processed_row option \<Rightarrow> readiness_row option \<Rightarrow> queue_job list \<Rightarrow> gate_decision" where
  "decideReviewHeadGate carried p rd jobs =
     (case (find isActiveQueueJob jobs, p) of
        (Some j, None) \<Rightarrow> decisionFromQueueJob j
      | (active, Some q) \<Rightarrow>
          if (case active of None \<Rightarrow> False | Some j \<Rightarrow> isQueueJobNewerThanProcessed j q)
          then decisionFromQueueJob (the active)
          else or_default carried (decisionFromProcessed q)
      | (None, None) \<Rightarrow>
          (case find isTerminalQueueJob jobs of
             Some j \<Rightarrow> decisionFromQueueJob j
           | None \<Rightarrow> (case rd of Some r \<Rightarrow> decisionFromReadiness r | None \<Rightarrow> GD_missing)))"

section \<open>The report\<close>

fun status_name :: "processed_status \<Rightarrow> string" where
  "status_name P_dry_run = ''dry_run''"
| "status_name P_posted = ''posted''"
| "status_name P_skipped = ''skipped''"
| "status_name P_failed = ''failed''"

fun event_name :: "review_event \<Rightarrow> string" where
  "event_name EV_COMMENT = ''COMMENT''"
| "event_name EV_REQUEST_CHANGES = ''REQUEST_CHANGES''"

fun queue_state_name :: "queue_state \<Rightarrow> string" where
  "queue_state_name Q_queued = ''queued''"
| "queue_state_name Q_leased = ''leased''"
| "queue_state_name Q_running = ''running''"
| "queue_state_name Q_provider_deferred = ''provider_deferred''"
| "queue_state_name Q_blocked_on_proof = ''blocked_on_proof''"
| "queue_state_name Q_stale_retired = ''stale_retired''"
| "queue_state_name Q_closed_retired = ''closed_retired''"
| "queue_state_name Q_command_recorded = ''command_recorded''"
| "queue_state_name Q_posted = ''posted''"
| "queue_state_name Q_failed = ''failed''"

fun readiness_state_name :: "readiness_state \<Rightarrow> string" where
  "readiness_state_name R_queued = ''queued''"
| "readiness_state_name R_reviewing = ''reviewing''"
| "readiness_state_name R_needs_fix = ''needs_fix''"
| "readiness_state_name R_awaiting_re_review = ''awaiting_re_review''"
| "readiness_state_name R_blocked_on_checks = ''blocked_on_checks''"
| "readiness_state_name R_blocked_on_proof = ''blocked_on_proof''"
| "readiness_state_name R_ready_for_human = ''ready_for_human''"
| "readiness_state_name R_provider_deferred = ''provider_deferred''"
| "readiness_state_name R_stale = ''stale''"
| "readiness_state_name R_closed = ''closed''"
| "readiness_state_name R_command_recorded = ''command_recorded''"
| "readiness_state_name R_skipped = ''skipped''"
| "readiness_state_name R_failed = ''failed''"

definition processed_detail :: "processed_row \<Rightarrow> string" where
  "processed_detail p = ''processed_reviews status='' @ status_name (pr_status p) @
     '' event='' @ (case pr_event p of None \<Rightarrow> ''unknown'' | Some e \<Rightarrow> event_name e) @
     '' reviewUrl='' @ or_default (pr_review_url p) ''none''"

definition job_detail :: "queue_job \<Rightarrow> string" where
  "job_detail j = ''queue_job state='' @ queue_state_name (q_state j) @ '' priority='' @ string_of_int (q_priority j)"

definition gateDetail ::
    "gate_decision \<Rightarrow> processed_row option \<Rightarrow> readiness_row option \<Rightarrow> queue_job list \<Rightarrow> string" where
  "gateDetail dec p rd jobs =
     (if dec = GD_passed \<and> p \<noteq> None then processed_detail (the p)
      else case find isActiveQueueJob jobs of
        Some j \<Rightarrow> job_detail j @ '' lastError='' @ or_default (q_last_error j) ''none''
      | None \<Rightarrow> (case find isTerminalQueueJob jobs of
          Some j \<Rightarrow> job_detail j @ '' reviewUrl='' @ or_default (q_review_url j) ''none'' @
            '' lastError='' @ or_default (q_last_error j) ''none''
        | None \<Rightarrow>
            if dec = GD_passed \<and> rd \<noteq> None
            then ''review_readiness state='' @ readiness_state_name (rr_state (the rd)) @
              '' reviewUrl='' @ or_default (rr_review_url (the rd)) ''none''
            else case p of
              Some q \<Rightarrow> ''processed_reviews status='' @ status_name (pr_status q) @ '' error='' @ or_default (pr_error q) ''none''
            | None \<Rightarrow> (case rd of
                Some r \<Rightarrow> ''review_readiness state='' @ readiness_state_name (rr_state r) @
                  '' reason='' @ or_default (rr_reason r) ''none''
              | None \<Rightarrow> ''no processed review, active queue job, or readiness row for exact head'')))"

fun nextAction :: "gate_decision \<Rightarrow> string" where
  "nextAction GD_passed = ''merge gate passed for exact head''"
| "nextAction GD_queued = ''wait for evaOS review status to reach completed before merging''"
| "nextAction GD_reviewing = ''wait for evaOS review status to reach completed before merging''"
| "nextAction GD_provider_deferred = ''wait for provider cooldown or retry according to provider-cooldown policy before merging''"
| "nextAction GD_missing = ''do not merge; wait for the daemon to observe this head or run an explicit review-pr/re-review command''"
| "nextAction GD_dry_run = ''do not merge from dry-run proof; require a live App-authored review or explicit waiver''"
| "nextAction GD_skipped = ''do not merge without confirming the skip reason is an approved waiver''"
| "nextAction GD_failed = ''inspect failure evidence and retry or fix before merging''"
| "nextAction GD_needs_fix = ''do not merge; address evaOS requested changes or explicitly override with human approval''"
| "nextAction GD_stale = ''refresh the current PR head and run the gate for the latest SHA''"
| "nextAction GD_closed = ''PR is already closed or merged; record this as incident evidence if the final head needed review''"
| "nextAction GD_blocked = ''resolve the blocked readiness state before merging''"

datatype gate_error = InvalidRepoSlug string | InvalidPullNumber int | InvalidHeadSha string

record head_gate_result =
  hg_ok :: bool
  hg_checked_at :: string
  hg_repo :: string
  hg_pull :: int
  hg_head :: string
  hg_decision :: gate_decision
  hg_carried_from :: "string option"
  hg_processed :: "processed_row option"
  hg_readiness :: "readiness_row option"
  hg_jobs :: "queue_job list"
  hg_detail :: string
  hg_next_action :: string

definition valid_repo_slug :: "string \<Rightarrow> bool" where
  "valid_repo_slug repo = (case split_on (CHR ''/'') repo of
      [owner, name] \<Rightarrow> owner \<noteq> [] \<and> name \<noteq> [] \<and> list_all is_slug_char owner \<and> list_all is_slug_char name
    | _ \<Rightarrow> False)"

text \<open>The head a base-merge-only skip carries its decision from, and the decision when it was posted.\<close>

definition carried_head :: "processed_row option \<Rightarrow> string option" where
  "carried_head p = (case p of None \<Rightarrow> None
     | Some q \<Rightarrow> if pr_status q = P_skipped \<and> pr_error q = Some BASE_MERGE_ONLY then pr_carried_from_head q else None)"

definition carried_decision :: "processed_row option \<Rightarrow> gate_decision option" where
  "carried_decision anchor = (case anchor of None \<Rightarrow> None
     | Some a \<Rightarrow> if pr_status a = P_posted then Some (decisionFromProcessed a) else None)"

definition carried_detail :: "gate_decision \<Rightarrow> processed_row option \<Rightarrow> string option" where
  "carried_detail dec anchor = (case anchor of None \<Rightarrow> None
     | Some a \<Rightarrow> if pr_status a = P_posted \<and> dec = decisionFromProcessed a
         then Some (processed_detail a @ ''; carried from '' @ take 12 (pr_head a) @ '' via a base-merge-only push'') else None)"

definition buildReviewHeadGate ::
    "(string \<Rightarrow> int \<Rightarrow> string \<Rightarrow> 's \<Rightarrow> processed_row option) \<Rightarrow> (string \<Rightarrow> int \<Rightarrow> string \<Rightarrow> 's \<Rightarrow> readiness_row option) \<Rightarrow>
     (string \<Rightarrow> int \<Rightarrow> 's \<Rightarrow> queue_job list) \<Rightarrow> host \<Rightarrow> int \<Rightarrow> string \<Rightarrow> int \<Rightarrow> string \<Rightarrow> 's \<Rightarrow>
     gate_error + head_gate_result" where
  "buildReviewHeadGate processed_of readiness_of jobs_of h now repo pull head s =
     (if \<not> valid_repo_slug repo then Inl (InvalidRepoSlug repo)
      else if pull < 1 then Inl (InvalidPullNumber pull)
      else if \<not> is_sha40 head then Inl (InvalidHeadSha head)
      else
        (let p = processed_of repo pull head s;
             rd = readiness_of repo pull head s;
             jobs = filter (\<lambda>j. q_head j = head) (jobs_of repo pull s);
             carried = carried_head p;
             anchor = (case truthy carried of None \<Rightarrow> None | Some c \<Rightarrow> processed_of repo pull c s);
             dec = decideReviewHeadGate (carried_decision anchor) p rd jobs
         in Inr \<lparr>hg_ok = (dec = GD_passed), hg_checked_at = iso_string h now, hg_repo = repo, hg_pull = pull, hg_head = head,
              hg_decision = dec, hg_carried_from = truthy carried, hg_processed = p, hg_readiness = rd, hg_jobs = jobs,
              hg_detail = or_default (carried_detail dec anchor) (gateDetail dec p rd jobs),
              hg_next_action = nextAction dec\<rparr>))"

lemma find_sorted_first:
  "sorted_wrt R xs \<Longrightarrow> find P xs = Some x \<Longrightarrow> y \<in> set xs \<Longrightarrow> P y \<Longrightarrow> x = y \<or> R x y"
  by (induction xs) (auto split: if_splits)

section \<open>The store behind the gate\<close>

text \<open>
  What the gate relies on: a lookup returns the record of exactly the requested head, and the jobs of a
  pull come with their pull in priority order.
\<close>

locale head_gate_store =
  fixes processed_of :: "string \<Rightarrow> int \<Rightarrow> string \<Rightarrow> 's \<Rightarrow> processed_row option"
    and readiness_of :: "string \<Rightarrow> int \<Rightarrow> string \<Rightarrow> 's \<Rightarrow> readiness_row option"
    and jobs_of :: "string \<Rightarrow> int \<Rightarrow> 's \<Rightarrow> queue_job list"
  assumes processed_of_head: "processed_of repo pull head s = Some p \<Longrightarrow> pr_repo p = repo \<and> pr_pull p = pull \<and> pr_head p = head"
    and readiness_of_head: "readiness_of repo pull head s = Some r \<Longrightarrow> rr_repo r = repo \<and> rr_pull r = pull \<and> rr_head r = head"
    and jobs_of_pull: "j \<in> set (jobs_of repo pull s) \<Longrightarrow> q_repo j = repo \<and> q_pull j = pull"
    and jobs_of_sorted: "sorted_wrt (\<lambda>a b. q_priority a \<le> q_priority b) (jobs_of repo pull s)"
begin

lemma gate_about_head:
  assumes "buildReviewHeadGate processed_of readiness_of jobs_of h now repo pull head s = Inr g"
  shows "(\<forall>p. hg_processed g = Some p \<longrightarrow> pr_repo p = repo \<and> pr_pull p = pull \<and> pr_head p = head) \<and>
    (\<forall>r. hg_readiness g = Some r \<longrightarrow> rr_repo r = repo \<and> rr_pull r = pull \<and> rr_head r = head) \<and>
    (\<forall>j\<in>set (hg_jobs g). q_repo j = repo \<and> q_pull j = pull \<and> q_head j = head)"
proof -
  have "hg_processed g = processed_of repo pull head s" "hg_readiness g = readiness_of repo pull head s"
    "hg_jobs g = filter (\<lambda>j. q_head j = head) (jobs_of repo pull s)"
    using assms by (auto simp: buildReviewHeadGate_def Let_def split: if_splits)
  then show ?thesis using processed_of_head readiness_of_head jobs_of_pull by auto
qed

lemma gate_first_active:
  assumes "buildReviewHeadGate processed_of readiness_of jobs_of h now repo pull head s = Inr g"
    and "find isActiveQueueJob (hg_jobs g) = Some j" "k \<in> set (hg_jobs g)" "isActiveQueueJob k"
  shows "q_priority j \<le> q_priority k"
proof -
  have jobs: "hg_jobs g = filter (\<lambda>j. q_head j = head) (jobs_of repo pull s)"
    using assms(1) by (auto simp: buildReviewHeadGate_def Let_def split: if_splits)
  have s: "sorted_wrt (\<lambda>a b. q_priority a \<le> q_priority b) (hg_jobs g)"
    unfolding jobs by (rule sorted_wrt_filter[OF jobs_of_sorted])
  then show ?thesis using find_sorted_first[OF s assms(2-4)] by auto
qed

end

text \<open>The store the command line passes: the queue listing without filters.\<close>

definition pull_jobs :: "string \<Rightarrow> int \<Rightarrow> db \<Rightarrow> queue_job list" where
  "pull_jobs repo pull d = (case listReviewQueueJobsForPull repo pull None None d of Inl _ \<Rightarrow> [] | Inr js \<Rightarrow> js)"

lemma pull_jobs_eq:
  "pull_jobs repo pull d = map mapReviewQueueJobRow (js_sort queue_order (filter (\<lambda>j. q_repo j = repo \<and> q_pull j = pull) (queue d)))"
  by (simp add: pull_jobs_def listReviewQueueJobsForPull_def)

lemma queue_order_priority: "queue_order a b \<le> 0 \<Longrightarrow> q_priority a \<le> q_priority b"
  by (auto simp: queue_order_def split: if_splits)

interpretation store_gate: head_gate_store getProcessedReview getReviewReadiness pull_jobs
proof
  fix repo pull head s p r j
  show "getProcessedReview repo pull head s = Some p \<Longrightarrow> pr_repo p = repo \<and> pr_pull p = pull \<and> pr_head p = head"
    by (auto simp: getProcessedReview_def mapProcessedReviewRow_def pr_key_def dest!: row_get_SomeD)
  show "getReviewReadiness repo pull head s = Some r \<Longrightarrow> rr_repo r = repo \<and> rr_pull r = pull \<and> rr_head r = head"
    by (auto simp: getReviewReadiness_def mapReviewReadinessRow_def rr_key_def dest!: row_get_SomeD)
  show "j \<in> set (pull_jobs repo pull s) \<Longrightarrow> q_repo j = repo \<and> q_pull j = pull"
    by (auto simp: pull_jobs_eq mapReviewQueueJobRow_def)
  have "sorted_wrt (\<lambda>a b. queue_order a b \<le> 0) (js_sort queue_order (filter (\<lambda>j. q_repo j = repo \<and> q_pull j = pull) (queue s)))"
    by (rule queue_list_order.sorted_js_sort)
  then show "sorted_wrt (\<lambda>a b. q_priority a \<le> q_priority b) (pull_jobs repo pull s)"
    by (auto simp: pull_jobs_eq sorted_wrt_map mapReviewQueueJobRow_def elim!: sorted_wrt_mono_rel[rotated] intro: queue_order_priority)
qed

definition storeHeadGate :: "host \<Rightarrow> int \<Rightarrow> string \<Rightarrow> int \<Rightarrow> string \<Rightarrow> db \<Rightarrow> gate_error + head_gate_result" where
  "storeHeadGate = buildReviewHeadGate getProcessedReview getReviewReadiness pull_jobs"

section \<open>When the gate passes\<close>

lemma decision_passed [simp]:
  "decisionFromProcessed p = GD_passed \<longleftrightarrow> pr_status p = P_posted \<and> pr_event p \<noteq> Some EV_REQUEST_CHANGES"
  "decisionFromQueueJob j = GD_passed \<longleftrightarrow> q_state j = Q_posted \<and> q_review_url j \<noteq> None"
  "decisionFromReadiness r = GD_passed \<longleftrightarrow> rr_state r = R_ready_for_human \<and> rr_review_url r \<noteq> None"
  by (auto simp: decisionFromProcessed_def decisionFromQueueJob_def decisionFromReadiness_def
      split: processed_status.splits queue_state.splits readiness_state.splits)

lemma active_never_passes: "isActiveQueueJob j \<Longrightarrow> decisionFromQueueJob j \<noteq> GD_passed"
  by (auto simp: isActiveQueueJob_def)

lemma decide_passed:
  "decideReviewHeadGate carried p rd jobs = GD_passed \<longleftrightarrow>
     (case p of
        Some q \<Rightarrow> \<not> (\<exists>j. find isActiveQueueJob jobs = Some j \<and> isQueueJobNewerThanProcessed j q) \<and>
          or_default carried (decisionFromProcessed q) = GD_passed
      | None \<Rightarrow> find isActiveQueueJob jobs = None \<and>
          (case find isTerminalQueueJob jobs of
             Some j \<Rightarrow> q_state j = Q_posted \<and> q_review_url j \<noteq> None
           | None \<Rightarrow> (\<exists>r. rd = Some r \<and> rr_state r = R_ready_for_human \<and> rr_review_url r \<noteq> None)))"
  using active_never_passes find_SomeD[of isActiveQueueJob jobs]
  by (cases "find isActiveQueueJob jobs"; cases p; cases "find isTerminalQueueJob jobs"; cases rd)
    (auto simp: decideReviewHeadGate_def)

text \<open>The anchor of a base-merge-only skip, as the gate looks it up.\<close>

definition skip_anchor :: "string \<Rightarrow> int \<Rightarrow> processed_row option \<Rightarrow> db \<Rightarrow> processed_row option" where
  "skip_anchor repo pull p d = (case truthy (carried_head p) of None \<Rightarrow> None | Some c \<Rightarrow> getProcessedReview repo pull c d)"

lemma storeHeadGate_Inr:
  assumes "storeHeadGate h now repo pull head d = Inr g"
  shows "hg_ok g \<longleftrightarrow> hg_decision g = GD_passed"
    "hg_decision g = decideReviewHeadGate
       (carried_decision (skip_anchor repo pull (getProcessedReview repo pull head d) d))
       (getProcessedReview repo pull head d) (getReviewReadiness repo pull head d)
       (filter (\<lambda>j. q_head j = head) (pull_jobs repo pull d))"
    "hg_jobs g = filter (\<lambda>j. q_head j = head) (pull_jobs repo pull d)"
  using assms by (auto simp: storeHeadGate_def buildReviewHeadGate_def skip_anchor_def Let_def split: if_splits)

lemma storeHeadGate_valid:
  "(\<exists>g. storeHeadGate h now repo pull head d = Inr g) \<longleftrightarrow> valid_repo_slug repo \<and> 1 \<le> pull \<and> is_sha40 head"
  by (auto simp: storeHeadGate_def buildReviewHeadGate_def Let_def)

lemma gate_passes_iff:
  "(case storeHeadGate h now repo pull head d of Inl _ \<Rightarrow> False | Inr g \<Rightarrow> hg_ok g) \<longleftrightarrow>
    valid_repo_slug repo \<and> 1 \<le> pull \<and> is_sha40 head \<and>
    (let jobs = filter (\<lambda>j. q_head j = head) (pull_jobs repo pull d) in
     case getProcessedReview repo pull head d of
       Some q \<Rightarrow> \<not> (\<exists>j. find isActiveQueueJob jobs = Some j \<and> pr_created_at q < q_updated_at j) \<and>
         (case skip_anchor repo pull (Some q) d of
            Some a \<Rightarrow> (if pr_status a = P_posted then pr_event a \<noteq> Some EV_REQUEST_CHANGES
              else pr_status q = P_posted \<and> pr_event q \<noteq> Some EV_REQUEST_CHANGES)
          | None \<Rightarrow> pr_status q = P_posted \<and> pr_event q \<noteq> Some EV_REQUEST_CHANGES)
     | None \<Rightarrow> find isActiveQueueJob jobs = None \<and>
         (case find isTerminalQueueJob jobs of
            Some j \<Rightarrow> q_state j = Q_posted \<and> q_review_url j \<noteq> None
          | None \<Rightarrow> (\<exists>r. getReviewReadiness repo pull head d = Some r \<and> rr_state r = R_ready_for_human \<and>
              rr_review_url r \<noteq> None)))"
proof (cases "storeHeadGate h now repo pull head d")
  case (Inl e)
  then have "\<not> (valid_repo_slug repo \<and> 1 \<le> pull \<and> is_sha40 head)"
    using storeHeadGate_valid[of h now repo pull head d] by auto
  with Inl show ?thesis by simp blast
next
  case (Inr g)
  then have v: "valid_repo_slug repo \<and> 1 \<le> pull \<and> is_sha40 head"
    using storeHeadGate_valid[of h now repo pull head d] by blast
  show ?thesis
    using v storeHeadGate_Inr(1,2)[OF Inr]
    by (cases "getProcessedReview repo pull head d"; cases "skip_anchor repo pull (getProcessedReview repo pull head d) d")
      (auto simp: Inr decide_passed carried_decision_def isQueueJobNewerThanProcessed_def Let_def)
qed

text \<open>C15: the gate lets a head pass exactly when the head is well-formed and either its processed review was posted
  without requesting changes (or is a base-merge-only skip of a posted review that did not), with no newer
  active job at the front of the queue, or, without a processed review, no job is active and the first terminal
  job was posted with its URL, or, without any job either, the head is ready for a human with its review URL.\<close>

theorem head_gate_passes_iff:
  "(case storeHeadGate h now repo pull head d of Inl _ \<Rightarrow> False | Inr g \<Rightarrow> hg_ok g) \<longleftrightarrow>
    valid_repo_slug repo \<and> 1 \<le> pull \<and> is_sha40 head \<and>
    (let jobs = filter (\<lambda>j. q_head j = head) (pull_jobs repo pull d) in
     case getProcessedReview repo pull head d of
       Some q \<Rightarrow> \<not> (\<exists>j. find isActiveQueueJob jobs = Some j \<and> pr_created_at q < q_updated_at j) \<and>
         (case skip_anchor repo pull (Some q) d of
            Some a \<Rightarrow> (if pr_status a = P_posted then pr_event a \<noteq> Some EV_REQUEST_CHANGES
              else pr_status q = P_posted \<and> pr_event q \<noteq> Some EV_REQUEST_CHANGES)
          | None \<Rightarrow> pr_status q = P_posted \<and> pr_event q \<noteq> Some EV_REQUEST_CHANGES)
     | None \<Rightarrow> find isActiveQueueJob jobs = None \<and>
         (case find isTerminalQueueJob jobs of
            Some j \<Rightarrow> q_state j = Q_posted \<and> q_review_url j \<noteq> None
          | None \<Rightarrow> (\<exists>r. getReviewReadiness repo pull head d = Some r \<and> rr_state r = R_ready_for_human \<and>
              rr_review_url r \<noteq> None)))"
  by (rule gate_passes_iff)

text \<open>every record the gate reports belongs to the requested head, its verdict is its decision, and the active
  job it judges is one of the most urgent active jobs of the head.\<close>

theorem head_gate_reports_head:
  assumes "storeHeadGate h now repo pull head d = Inr g"
  shows "hg_ok g = (hg_decision g = GD_passed) \<and>
    (case hg_processed g of None \<Rightarrow> True | Some p \<Rightarrow> pr_key p = (repo, pull, head)) \<and>
    (case hg_readiness g of None \<Rightarrow> True | Some r \<Rightarrow> rr_key r = (repo, pull, head)) \<and>
    list_all (\<lambda>j. q_repo j = repo \<and> q_pull j = pull \<and> q_head j = head) (hg_jobs g) \<and>
    (case find isActiveQueueJob (hg_jobs g) of None \<Rightarrow> True
     | Some j \<Rightarrow> list_all (\<lambda>k. isActiveQueueJob k \<longrightarrow> q_priority j \<le> q_priority k) (hg_jobs g))"
  using storeHeadGate_Inr(1)[OF assms] store_gate.gate_about_head[OF assms[unfolded storeHeadGate_def]]
    store_gate.gate_first_active[OF assms[unfolded storeHeadGate_def]]
  by (auto simp: list_all_iff pr_key_def rr_key_def split: option.split)

lemma decide_no_active:
  assumes "find isActiveQueueJob jobs = None"
  shows "decideReviewHeadGate c (Some q) rd jobs = or_default c (decisionFromProcessed q)"
  using assms by (simp add: decideReviewHeadGate_def)

section \<open>Example\<close>

definition ex_gate_db :: db where
  "ex_gate_db = empty_db\<lparr>processed := [posted_processed_row ex_post]\<rparr>"

theorem head_gate_reports_head_witness:
  "hg_ok (projr (storeHeadGate ex_auth_host 0 ''o/r'' 7 ex_sha40 ex_gate_db)) \<longleftrightarrow>
   hg_decision (projr (storeHeadGate ex_auth_host 0 ''o/r'' 7 ex_sha40 ex_gate_db)) = GD_passed"
proof -
  have "valid_repo_slug ''o/r''" by code_simp
  then have "\<exists>g. storeHeadGate ex_auth_host 0 ''o/r'' 7 ex_sha40 ex_gate_db = Inr g"
    by (simp add: storeHeadGate_valid ex_sha40_ok)
  then obtain g where g: "storeHeadGate ex_auth_host 0 ''o/r'' 7 ex_sha40 ex_gate_db = Inr g" by blast
  show ?thesis using conjunct1[OF head_gate_reports_head[OF g]] by (simp add: g)
qed

end
