(* ===== verification/Commands.thy ===== *)
theory Commands
  imports ProcessedReviews Texts
begin

text \<open>
  Commands in pull request comments (\<open>src/commands.ts\<close>, the parser of \<open>src/finishing-touches.ts\<close>,
  \<open>src/review-event-policy.ts\<close>, and the ledger of processed commands of \<open>src/state.ts\<close>): what a comment asks
  for, who may ask, which command acts next, and when a review may request changes.
\<close>

section \<open>Data\<close>

record comment_author =
  ca_login :: string
  ca_type :: "string option"

record issue_comment =
  ic_id :: int
  ic_body :: "string option"
  ic_url :: "string option"
  ic_user :: "comment_author option"

record public_commands =
  pub_enabled :: bool
  pub_actions :: "command_action list"
  pub_cooldown_minutes :: int

record command_config =
  cc_enabled :: bool
  cc_mentions :: "string list"
  cc_trusted :: "string list"
  cc_acknowledge :: bool
  cc_public :: "public_commands option"

record review_command =
  rc_action :: command_action
  rc_comment_id :: int
  rc_author :: string
  rc_body :: string
  rc_url :: "string option"

record unauthorized_command =
  uc_action :: command_action
  uc_comment_id :: int
  uc_author :: string

record collected_commands =
  col_commands :: "review_command list"
  col_public :: "review_command list"
  col_unauthorized :: "unauthorized_command list"

section \<open>Parsing an action\<close>

definition COMMAND_PHRASES :: "(finishing_touch_action \<times> string list) list" where
  "COMMAND_PHRASES =
     [(FT_generate_tests, [''generate tests'', ''generate unit tests'', ''draft tests'', ''draft unit tests'']),
      (FT_generate_docs, [''generate docs'', ''generate documentation'', ''docs draft'', ''draft docs'', ''draft documentation'']),
      (FT_generate_docstrings, [''generate docstrings'']),
      (FT_simplify_suggestion, [''simplify suggestion'']),
      (FT_changelog_draft, [''changelog draft'', ''release notes draft'', ''draft changelog'', ''draft release notes'']),
      (FT_explain_risk, [''explain risk'', ''risk explanation'', ''explain risks'']),
      (FT_make_review_ready, [''make review-ready'', ''make review ready'', ''review-ready checklist''])]"

text \<open>\<open>replace(/[.!?,;:]+$/g, "")\<close> and \<open>replace(/\s+please$/i, "")\<close>\<close>

definition strip_punctuation :: "string \<Rightarrow> string" where
  "strip_punctuation s = rev (dropWhile (\<lambda>c. c \<in> set ''.!?,;:'') (rev s))"

definition strip_please :: "string \<Rightarrow> string" where
  "strip_please s =
     (let n = length s - 6; rest = take n s
      in if 6 \<le> length s \<and> to_lower (drop n s) = ''please'' \<and> rest \<noteq> [] \<and> is_space (last rest)
         then rev (dropWhile is_space (rev rest)) else s)"

definition normalizeCommandSuffix :: "string \<Rightarrow> string" where
  "normalizeCommandSuffix v = trim (strip_punctuation (strip_please (trim (strip_punctuation (trim v)))))"

text \<open>The rest of a line after a mention and one space.\<close>

definition after_mention :: "string \<Rightarrow> string \<Rightarrow> string option" where
  "after_mention m line = (if starts_with (m @ '' '') line then Some (drop (length m + 1) line) else None)"

definition normalized_line :: "string \<Rightarrow> string" where
  "normalized_line l = to_lower (collapse_spaces (trim l))"

definition phrase_action :: "string \<Rightarrow> finishing_touch_action option" where
  "phrase_action suffix = map_option fst (find (\<lambda>(a, ps). suffix \<in> set ps) COMMAND_PHRASES)"

definition parseFinishingTouchCommand :: "string option \<Rightarrow> string list \<Rightarrow> finishing_touch_action option" where
  "parseFinishingTouchCommand body mentions =
     (case truthy body of None \<Rightarrow> None
      | Some b \<Rightarrow>
          (case [a. l \<leftarrow> split_lines b, m \<leftarrow> mentions,
              a \<leftarrow> (case after_mention (to_lower m) (normalized_line l) of None \<Rightarrow> []
                 | Some s \<Rightarrow> (case phrase_action (normalizeCommandSuffix s) of None \<Rightarrow> [] | Some a \<Rightarrow> [a]))] of
             [] \<Rightarrow> None | a # _ \<Rightarrow> Some a))"

definition simple_action :: "string \<Rightarrow> command_action option" where
  "simple_action s = (if s = ''review'' then Some CA_review else if s = ''re-review'' then Some CA_re_review
     else if s = ''explain'' then Some CA_explain else if s = ''stop'' then Some CA_stop else None)"

definition parseCommandAction :: "string option \<Rightarrow> string list \<Rightarrow> command_action option" where
  "parseCommandAction body mentions =
     (case truthy body of None \<Rightarrow> None
      | Some b \<Rightarrow>
          (case [a. l \<leftarrow> split_lines b, m \<leftarrow> mentions,
              a \<leftarrow> (case Option.bind (after_mention (to_lower m) (normalized_line l)) simple_action of
                 None \<Rightarrow> [] | Some a \<Rightarrow> [a])] of
             [] \<Rightarrow> map_option CA_finishing_touch (parseFinishingTouchCommand body mentions)
           | a # _ \<Rightarrow> Some a))"

section \<open>Who may command\<close>

definition isTrustedAuthor :: "string \<Rightarrow> command_config \<Rightarrow> bool" where
  "isTrustedAuthor a c \<longleftrightarrow> a \<in> set (cc_trusted c) \<or> ''*'' \<in> set (cc_trusted c)"

definition isExplicitTrustedAuthor :: "string \<Rightarrow> command_config \<Rightarrow> bool" where
  "isExplicitTrustedAuthor a c \<longleftrightarrow> a \<noteq> ''*'' \<and> a \<in> set (cc_trusted c)"

datatype command_authorization = Trusted | PublicEligible | Unauthorized

definition classifyCommandAuthorization :: "command_action \<Rightarrow> string \<Rightarrow> command_config \<Rightarrow> command_authorization" where
  "classifyCommandAuthorization action author c =
     (if isTrustedAuthor author c then Trusted
      else (case cc_public c of
          Some p \<Rightarrow> if pub_enabled p \<and> action \<in> set (pub_actions p) then PublicEligible else Unauthorized
        | None \<Rightarrow> Unauthorized))"

definition parseReviewCommand :: "issue_comment \<Rightarrow> command_config \<Rightarrow> review_command option" where
  "parseReviewCommand cm c =
     (if \<not> cc_enabled c then None
      else (case (parseCommandAction (ic_body cm) (cc_mentions c), truthy (map_option ca_login (ic_user cm))) of
          (Some a, Some author) \<Rightarrow>
            if isTrustedAuthor author c
            then Some \<lparr>rc_action = a, rc_comment_id = ic_id cm, rc_author = author, rc_body = or_default (ic_body cm) [],
               rc_url = ic_url cm\<rparr> else None
        | _ \<Rightarrow> None))"

text \<open>A comment with an action, and the way it is authorized.\<close>

definition classified_command :: "command_config \<Rightarrow> issue_comment \<Rightarrow> (review_command \<times> command_authorization) option" where
  "classified_command c cm =
     (case parseCommandAction (ic_body cm) (cc_mentions c) of None \<Rightarrow> None
      | Some a \<Rightarrow>
          (let author = or_default (map_option ca_login (ic_user cm)) ''(unknown)''
           in Some (\<lparr>rc_action = a, rc_comment_id = ic_id cm, rc_author = author, rc_body = or_default (ic_body cm) [],
               rc_url = ic_url cm\<rparr>, classifyCommandAuthorization a author c)))"

definition by_comment :: "review_command \<Rightarrow> review_command \<Rightarrow> int" where
  "by_comment l r = rc_comment_id l - rc_comment_id r"

definition collectTrustedReviewCommands :: "issue_comment list \<Rightarrow> command_config \<Rightarrow> collected_commands" where
  "collectTrustedReviewCommands comments c =
     (if \<not> cc_enabled c then \<lparr>col_commands = [], col_public = [], col_unauthorized = []\<rparr>
      else (let found = List.map_filter (classified_command c) comments;
                having = (\<lambda>z. map fst (filter (\<lambda>x. snd x = z) found))
            in \<lparr>col_commands = js_sort by_comment (having Trusted),
                col_public = js_sort by_comment (having PublicEligible),
                col_unauthorized = map (\<lambda>r. \<lparr>uc_action = rc_action r, uc_comment_id = rc_comment_id r, uc_author = rc_author r\<rparr>)
                   (having Unauthorized)\<rparr>))"

definition isBotCommandComment :: "comment_author option \<Rightarrow> string \<Rightarrow> bool" where
  "isBotCommandComment user botLogin = (case user of None \<Rightarrow> False
     | Some u \<Rightarrow> ca_type u = Some ''Bot'' \<or> ca_login u = botLogin)"

section \<open>Which command acts\<close>

definition isReviewCommandAction :: "command_action \<Rightarrow> bool" where
  "isReviewCommandAction a \<longleftrightarrow> a = CA_review \<or> a = CA_re_review \<or> a = CA_request_changes"

definition isFinishingTouchCommandAction :: "command_action \<Rightarrow> bool" where
  "isFinishingTouchCommandAction a = (case a of CA_finishing_touch _ \<Rightarrow> True | _ \<Rightarrow> False)"

definition isRecordOnlyCommandAction :: "command_action \<Rightarrow> bool" where
  "isRecordOnlyCommandAction a \<longleftrightarrow> \<not> isReviewCommandAction a"

definition last_of :: "'a list \<Rightarrow> 'a option" where
  "last_of xs = (if xs = [] then None else Some (last xs))"

text \<open>The decision is the command that acts, or none; it asks for a review when its action does.\<close>

definition decideCommandAction :: "review_command list \<Rightarrow> (int \<Rightarrow> bool) \<Rightarrow> review_command option" where
  "decideCommandAction cmds processedId =
     (let pending = filter (\<lambda>c. \<not> processedId (rc_comment_id c)) cmds;
          latestReview = last_of (filter (\<lambda>c. isReviewCommandAction (rc_action c)) pending);
          latestStop = last_of (filter (\<lambda>c. rc_action c = CA_stop) pending)
      in case latestStop of
           Some st \<Rightarrow> (case latestReview of None \<Rightarrow> Some st
             | Some rv \<Rightarrow> if rc_comment_id rv < rc_comment_id st then Some st else Some rv)
         | None \<Rightarrow> coalesce latestReview (last_of pending))"

definition should_review :: "review_command option \<Rightarrow> bool" where
  "should_review dec = (case dec of None \<Rightarrow> False | Some c \<Rightarrow> isReviewCommandAction (rc_action c))"

section \<open>The ledger of processed commands\<close>

definition hasProcessedCommand :: "string \<Rightarrow> int \<Rightarrow> string \<Rightarrow> int \<Rightarrow> db \<Rightarrow> bool" where
  "hasProcessedCommand repo pull head commentId d \<longleftrightarrow>
     (\<exists>r\<in>set (commands d). pc_repo r = repo \<and> pc_pull r = pull \<and> pc_comment_id r = commentId)"

definition map_command_row :: "command_row \<Rightarrow> command_row" where
  "map_command_row r = r\<lparr>pc_author := truthy (pc_author r), pc_url := truthy (pc_url r)\<rparr>"

definition getProcessedCommand :: "string \<Rightarrow> int \<Rightarrow> string \<Rightarrow> int \<Rightarrow> db \<Rightarrow> command_row option" where
  "getProcessedCommand repo pull head commentId d =
     map_option map_command_row (row_get pc_key ((repo, pull, head), commentId) (commands d))"

definition recordProcessedCommand :: "command_row \<Rightarrow> db \<Rightarrow> db" where
  "recordProcessedCommand r d = d\<lparr>commands := row_replace pc_key r (commands d)\<rparr>"

section \<open>Public commands\<close>

text \<open>\<open>admitPublicCommands\<close> of \<open>src/scheduler.ts\<close>: the cooldown is recorded when a command is admitted.\<close>

fun action_name :: "command_action \<Rightarrow> string" where
  "action_name CA_review = ''review''"
| "action_name CA_re_review = ''re-review''"
| "action_name CA_request_changes = ''request-changes''"
| "action_name CA_explain = ''explain''"
| "action_name CA_stop = ''stop''"
| "action_name (CA_finishing_touch FT_generate_tests) = ''generate_tests''"
| "action_name (CA_finishing_touch FT_generate_docs) = ''generate_docs''"
| "action_name (CA_finishing_touch FT_generate_docstrings) = ''generate_docstrings''"
| "action_name (CA_finishing_touch FT_simplify_suggestion) = ''simplify_suggestion''"
| "action_name (CA_finishing_touch FT_changelog_draft) = ''changelog_draft''"
| "action_name (CA_finishing_touch FT_explain_risk) = ''explain_risk''"
| "action_name (CA_finishing_touch FT_make_review_ready) = ''make_review_ready''"

record admission =
  ad_config :: command_config
  ad_bot :: string
  ad_repo :: string
  ad_pull :: int
  ad_head :: string
  ad_comments :: "issue_comment list"
  ad_now :: int

text \<open>\<open>new Map(comments.map(...))\<close>: a later comment of the same id replaces an earlier one.\<close>

definition comment_source :: "issue_comment list \<Rightarrow> int \<Rightarrow> issue_comment option" where
  "comment_source cs i = find (\<lambda>c. ic_id c = i) (rev cs)"

definition command_invocation :: "admission \<Rightarrow> public_commands \<Rightarrow> review_command \<Rightarrow> invocation_input" where
  "command_invocation a p c = \<lparr>ii_repo = ad_repo a, ii_pull = ad_pull a, ii_head = ad_head a, ii_author = rc_author c,
     ii_action = action_name (rc_action c), ii_cooldown_ms = pub_cooldown_minutes p * 60000, ii_now = ad_now a\<rparr>"

fun admit_loop :: "admission \<Rightarrow> public_commands \<Rightarrow> review_command list \<Rightarrow> db \<Rightarrow> review_command list outcome" where
  "admit_loop a p [] d = (Inr [], d)"
| "admit_loop a p (c # cs) d =
     (if isBotCommandComment (Option.bind (comment_source (ad_comments a) (rc_comment_id c)) ic_user) (ad_bot a)
      then admit_loop a p cs d
      else (case tryRecordPublicCommandInvocation (command_invocation a p c) d of
          (Inl e, d1) \<Rightarrow> (Inl e, d1)
        | (Inr allowed, d1) \<Rightarrow>
            (case admit_loop a p cs d1 of
               (Inl e, d2) \<Rightarrow> (Inl e, d2)
             | (Inr rest, d2) \<Rightarrow> (Inr (if allowed then c # rest else rest), d2))))"

definition admitPublicCommands :: "admission \<Rightarrow> review_command list \<Rightarrow> db \<Rightarrow> review_command list outcome" where
  "admitPublicCommands a eligible d =
     (case cc_public (ad_config a) of
        None \<Rightarrow> (Inr [], d)
      | Some p \<Rightarrow> if \<not> pub_enabled p \<or> eligible = [] then (Inr [], d) else admit_loop a p eligible d)"

section \<open>Authorizing requested changes\<close>

datatype attempt_status = AS_missing | AS_malformed | AS_untrusted | AS_lookup_failed | AS_consumed | AS_state_error

datatype auth_attempt =
    Attempt attempt_status "string option" "int option"
  | StaleHead string "string option" "int option"
  | Eligible string string int

record auth_target =
  tg_repo :: string
  tg_pull :: int
  tg_head :: string

record auth_request =
  rq_comment_id :: int
  rq_author :: string
  rq_repo :: string
  rq_pull :: int
  rq_head :: string

datatype parsed_request = Malformed | Parsed string int string

definition normalizeHeadSha :: "string \<Rightarrow> string option" where
  "normalizeHeadSha s = (if is_sha40 s then Some (to_lower s) else None)"

definition isRepoName :: "string \<Rightarrow> bool" where
  "isRepoName repo = (case split_on (CHR ''/'') repo of
      [owner, name] \<Rightarrow> owner \<noteq> [] \<and> length owner \<le> 100 \<and> list_all is_slug_char owner \<and>
        name \<noteq> [] \<and> length name \<le> 100 \<and> list_all is_slug_char name
    | _ \<Rightarrow> False)"

definition boundedAuthor :: "string option \<Rightarrow> string option" where
  "boundedAuthor a = (case a of None \<Rightarrow> None | Some s \<Rightarrow> if is_github_login s then Some s else None)"

text \<open>\<open>/^[1-9]\d*$/\<close> and \<open>Number.isSafeInteger\<close>\<close>

definition safe_integer :: "int \<Rightarrow> bool" where
  "safe_integer n \<longleftrightarrow> \<bar>n\<bar> < 2 ^ 53"

definition parse_pull_number :: "string \<Rightarrow> int option" where
  "parse_pull_number s =
     (if s \<noteq> [] \<and> list_all is_digit s \<and> hd s \<noteq> CHR ''0'' \<and> safe_integer (int (digits_value 0 s))
      then Some (int (digits_value 0 s)) else None)"

text \<open>The tokens of a whole-line command: \<open>@bot request-changes --repo R --pr N --head SHA\<close>.\<close>

definition parse_request_tokens :: "string list \<Rightarrow> string list \<Rightarrow> parsed_request" where
  "parse_request_tokens mentions tokens =
     (case tokens of
        [m, verb, f1, repo, f2, pull, f3, head] \<Rightarrow>
          if to_lower m \<in> set mentions \<and> to_lower verb = ''request-changes'' \<and> f1 = ''--repo'' \<and> f2 = ''--pr'' \<and> f3 = ''--head''
          then (if isRepoName repo
                then (case (parse_pull_number pull, normalizeHeadSha head) of
                    (Some n, Some sha) \<Rightarrow> Parsed repo n sha
                  | _ \<Rightarrow> Malformed) else Malformed)
          else Malformed
      | _ \<Rightarrow> Malformed)"

definition mentions_request_changes :: "string list \<Rightarrow> string \<Rightarrow> bool" where
  "mentions_request_changes mentions normalized =
     list_ex (\<lambda>m. str_includes (m @ '' request-changes'') (to_lower normalized)) mentions"

definition parseRequestChangesCommand :: "string option \<Rightarrow> string list \<Rightarrow> parsed_request option" where
  "parseRequestChangesCommand body mentions =
     (case truthy body of None \<Rightarrow> None
      | Some b \<Rightarrow>
          (let ms = map to_lower mentions; trimmed = trim b; normalized = collapse_spaces trimmed
           in if \<not> mentions_request_changes ms normalized then None
              else if trimmed = [] \<or> CHR 0x0D \<in> set trimmed \<or> CHR 0x0A \<in> set trimmed then Some Malformed
              else Some (parse_request_tokens ms (split_on (CHR '' '') normalized))))"

text \<open>One comment: the attempt it is, and the review request of an eligible one.\<close>

definition comment_attempt :: "command_config \<Rightarrow> auth_target \<Rightarrow> issue_comment \<Rightarrow> (auth_attempt \<times> auth_request option) option" where
  "comment_attempt c t cm =
     (case parseRequestChangesCommand (ic_body cm) (cc_mentions c) of
        None \<Rightarrow> None
      | Some parsed \<Rightarrow>
          (let author = boundedAuthor (map_option ca_login (ic_user cm)); i = ic_id cm
           in Some (case parsed of
                Malformed \<Rightarrow> (Attempt AS_malformed author (Some i), None)
              | Parsed repo pull head \<Rightarrow>
                  (case author of
                     None \<Rightarrow> (Attempt AS_untrusted author (Some i), None)
                   | Some a \<Rightarrow>
                       if \<not> isExplicitTrustedAuthor a c then (Attempt AS_untrusted author (Some i), None)
                       else if repo \<noteq> tg_repo t \<or> pull \<noteq> tg_pull t \<or> Some head \<noteq> normalizeHeadSha (tg_head t)
                       then (StaleHead head author (Some i), None)
                       else (Eligible head a i,
                         Some \<lparr>rq_comment_id = i, rq_author = a, rq_repo = repo, rq_pull = pull, rq_head = head\<rparr>)))))"

text \<open>Comments without a positive safe id, and repeated ids, are passed over.\<close>

fun fresh_comments :: "int list \<Rightarrow> issue_comment list \<Rightarrow> issue_comment list" where
  "fresh_comments seen [] = []"
| "fresh_comments seen (cm # cms) =
     (if \<not> safe_integer (ic_id cm) \<or> ic_id cm < 1 \<or> ic_id cm \<in> set seen then fresh_comments seen cms
      else cm # fresh_comments (ic_id cm # seen) cms)"

fun attempt_head :: "auth_attempt \<Rightarrow> string option" where
  "attempt_head (Eligible h a i) = Some h"
| "attempt_head _ = None"

definition eligible_for :: "string \<Rightarrow> auth_attempt \<Rightarrow> bool" where
  "eligible_for head a = (case attempt_head a of None \<Rightarrow> False
     | Some h \<Rightarrow> normalizeHeadSha head \<noteq> None \<and> normalizeHeadSha h = normalizeHeadSha head)"

fun is_missing :: "auth_attempt \<Rightarrow> bool" where
  "is_missing (Attempt AS_missing _ _) = True"
| "is_missing _ = False"

definition selectReviewEventAuthorizationAttempt :: "auth_attempt list \<Rightarrow> string \<Rightarrow> auth_attempt" where
  "selectReviewEventAuthorizationAttempt attempts head =
     (case find (eligible_for head) (rev attempts) of
        Some a \<Rightarrow> a
      | None \<Rightarrow> or_default (find (\<lambda>a. \<not> is_missing a) (rev attempts)) (Attempt AS_missing None None))"

definition collectReviewEventAuthorizationAttempts ::
    "issue_comment list \<Rightarrow> command_config \<Rightarrow> auth_target \<Rightarrow> auth_attempt list \<times> auth_attempt \<times> auth_request list" where
  "collectReviewEventAuthorizationAttempts comments c t =
     (if \<not> cc_enabled c then ([], Attempt AS_missing None None, [])
      else (let found = List.map_filter (comment_attempt c t) (fresh_comments [] comments); attempts = map fst found
            in (attempts, selectReviewEventAuthorizationAttempt attempts (tg_head t), List.map_filter snd found)))"

section \<open>The event policy\<close>

datatype policy_mode = Automatic | TrustedCommandOnly

datatype policy_reason = PR_automatic | PR_candidate_comment | PR_authorization attempt_status
  | PR_authorization_stale_head | PR_authorization_eligible

record policy_decision =
  pd_candidate :: review_event
  pd_selected :: review_event
  pd_mode :: policy_mode
  pd_reason :: policy_reason
  pd_head :: string
  pd_author :: "string option"
  pd_comment :: "int option"

definition selectedMetadata :: "auth_attempt \<Rightarrow> string option \<times> int option" where
  "selectedMetadata a =
     (let (author, cid) = (case a of Attempt _ au i \<Rightarrow> (au, i) | StaleHead _ au i \<Rightarrow> (au, i) | Eligible _ au i \<Rightarrow> (Some au, Some i))
      in (map_option (take 100) author, (case cid of None \<Rightarrow> None | Some i \<Rightarrow> if safe_integer i \<and> 0 < i then Some i else None)))"

definition decideReviewEventPolicy :: "policy_mode \<Rightarrow> review_event \<Rightarrow> string \<Rightarrow> auth_attempt \<Rightarrow> policy_decision" where
  "decideReviewEventPolicy mode candidate head a =
     (let sha = or_default (normalizeHeadSha head) head;
          meta = selectedMetadata a;
          answer = (\<lambda>ev reason m. \<lparr>pd_candidate = candidate, pd_selected = ev, pd_mode = mode, pd_reason = reason, pd_head = sha,
             pd_author = fst m, pd_comment = snd m\<rparr>)
      in if mode = Automatic then answer candidate PR_automatic (None, None)
         else if candidate = EV_COMMENT then answer EV_COMMENT PR_candidate_comment (None, None)
         else (case a of
             Eligible h _ _ \<Rightarrow>
               if normalizeHeadSha h \<noteq> None \<and> normalizeHeadSha head \<noteq> None \<and> normalizeHeadSha h = normalizeHeadSha head
               then answer EV_REQUEST_CHANGES PR_authorization_eligible meta
               else answer EV_COMMENT PR_authorization_stale_head meta
           | StaleHead _ _ _ \<Rightarrow> answer EV_COMMENT PR_authorization_stale_head meta
           | Attempt s _ _ \<Rightarrow> answer EV_COMMENT (PR_authorization s) meta))"

section \<open>Authorization of comment commands\<close>

interpretation comment_order: comparator by_comment
  by unfold_locales (auto simp: by_comment_def)

lemma by_comment_sorted: "sorted (map rc_comment_id (js_sort by_comment xs))"
  using comment_order.sorted_js_sort[of xs]
  by (simp add: sorted_map by_comment_def)

lemma classified_parts:
  "classified_command c cm = Some (r, z) \<Longrightarrow> z = classifyCommandAuthorization (rc_action r) (rc_author r) c"
  by (auto simp: classified_command_def Let_def split: option.splits)

lemma filter_three:
  "length (filter (\<lambda>x. snd x = Trusted) xs) + length (filter (\<lambda>x. snd x = PublicEligible) xs) +
   length (filter (\<lambda>x. snd x = Unauthorized) xs) = length xs"
proof (induction xs)
  case (Cons x xs)
  then show ?case by (cases "snd x") auto
qed simp

text \<open>of the comments that carry a command, every one is classified once: a command runs as trusted only for
  a trusted author, is offered to the public path only for an action the public policy allows, and is
  otherwise reported as unauthorized without its body; with commands disabled nothing is collected, and the
  commands come in comment order.\<close>

theorem command_authorization_sound:
  "let r = collectTrustedReviewCommands comments c in
    list_all (\<lambda>x. cc_enabled c \<and> isTrustedAuthor (rc_author x) c) (col_commands r) \<and>
    list_all (\<lambda>x. \<not> isTrustedAuthor (rc_author x) c \<and>
      (\<exists>p. cc_public c = Some p \<and> pub_enabled p \<and> rc_action x \<in> set (pub_actions p))) (col_public r) \<and>
    list_all (\<lambda>x. \<not> isTrustedAuthor (uc_author x) c) (col_unauthorized r) \<and>
    length (col_commands r) + length (col_public r) + length (col_unauthorized r) =
      (if cc_enabled c then length (filter (\<lambda>cm. parseCommandAction (ic_body cm) (cc_mentions c) \<noteq> None) comments) else 0) \<and>
    sorted (map rc_comment_id (col_commands r)) \<and> sorted (map rc_comment_id (col_public r))"
proof (cases "cc_enabled c")
  case False
  then show ?thesis by (simp add: collectTrustedReviewCommands_def Let_def)
next
  case True
  let ?found = "List.map_filter (classified_command c) comments"
  let ?r = "collectTrustedReviewCommands comments c"
  have r: "?r = \<lparr>col_commands = js_sort by_comment (map fst (filter (\<lambda>x. snd x = Trusted) ?found)),
      col_public = js_sort by_comment (map fst (filter (\<lambda>x. snd x = PublicEligible) ?found)),
      col_unauthorized = map (\<lambda>r. \<lparr>uc_action = rc_action r, uc_comment_id = rc_comment_id r, uc_author = rc_author r\<rparr>)
        (map fst (filter (\<lambda>x. snd x = Unauthorized) ?found))\<rparr>"
    using True by (simp add: collectTrustedReviewCommands_def Let_def)
  have z: "snd x = classifyCommandAuthorization (rc_action (fst x)) (rc_author (fst x)) c" if "x \<in> set ?found" for x
    using that classified_parts[of c _ "fst x" "snd x"] by (auto simp: List.map_filter_def)
  have cls: "classifyCommandAuthorization a b c = Trusted \<longleftrightarrow> isTrustedAuthor b c"
    "classifyCommandAuthorization a b c = PublicEligible \<longleftrightarrow> \<not> isTrustedAuthor b c \<and>
       (\<exists>p. cc_public c = Some p \<and> pub_enabled p \<and> a \<in> set (pub_actions p))"
    "classifyCommandAuthorization a b c = Unauthorized \<Longrightarrow> \<not> isTrustedAuthor b c" for a b
    by (auto simp: classifyCommandAuthorization_def split: option.splits if_splits)
  have n: "length ?found = length (filter (\<lambda>cm. parseCommandAction (ic_body cm) (cc_mentions c) \<noteq> None) comments)"
    by (induction comments) (auto simp: List.map_filter_simps classified_command_def Let_def split: option.splits)
  show ?thesis
    unfolding Let_def r collected_commands.select_convs
  proof (intro conjI)
    show "list_all (\<lambda>x. cc_enabled c \<and> isTrustedAuthor (rc_author x) c)
        (js_sort by_comment (map fst (filter (\<lambda>x. snd x = Trusted) ?found)))"
      unfolding list_all_iff
    proof
      fix x assume "x \<in> set (js_sort by_comment (map fst (filter (\<lambda>x. snd x = Trusted) ?found)))"
      then obtain y where y: "y \<in> set ?found" "snd y = Trusted" "x = fst y" by auto
      then show "cc_enabled c \<and> isTrustedAuthor (rc_author x) c" using True z[OF y(1)] cls(1)[of "rc_action x" "rc_author x"] by simp
    qed
    show "list_all (\<lambda>x. \<not> isTrustedAuthor (rc_author x) c \<and>
        (\<exists>p. cc_public c = Some p \<and> pub_enabled p \<and> rc_action x \<in> set (pub_actions p)))
        (js_sort by_comment (map fst (filter (\<lambda>x. snd x = PublicEligible) ?found)))"
      unfolding list_all_iff
    proof
      fix x assume "x \<in> set (js_sort by_comment (map fst (filter (\<lambda>x. snd x = PublicEligible) ?found)))"
      then obtain y where y: "y \<in> set ?found" "snd y = PublicEligible" "x = fst y" by auto
      then show "\<not> isTrustedAuthor (rc_author x) c \<and> (\<exists>p. cc_public c = Some p \<and> pub_enabled p \<and> rc_action x \<in> set (pub_actions p))"
        using z[OF y(1)] cls(2)[of "rc_action x" "rc_author x"] by simp
    qed
    show "list_all (\<lambda>x. \<not> isTrustedAuthor (uc_author x) c)
       (map (\<lambda>r. \<lparr>uc_action = rc_action r, uc_comment_id = rc_comment_id r, uc_author = rc_author r\<rparr>)
        (map fst (filter (\<lambda>x. snd x = Unauthorized) ?found)))"
      unfolding list_all_iff
    proof
      fix x assume "x \<in> set (map (\<lambda>r. \<lparr>uc_action = rc_action r, uc_comment_id = rc_comment_id r, uc_author = rc_author r\<rparr>)
        (map fst (filter (\<lambda>x. snd x = Unauthorized) ?found)))"
      then obtain y where y: "y \<in> set ?found" "snd y = Unauthorized" "uc_author x = rc_author (fst y)" by auto
      then show "\<not> isTrustedAuthor (uc_author x) c" using z[OF y(1)] cls(3)[of "rc_action (fst y)" "rc_author (fst y)"] by simp
    qed
    show "length (js_sort by_comment (map fst (filter (\<lambda>x. snd x = Trusted) ?found))) +
        length (js_sort by_comment (map fst (filter (\<lambda>x. snd x = PublicEligible) ?found))) +
        length (map (\<lambda>r. \<lparr>uc_action = rc_action r, uc_comment_id = rc_comment_id r, uc_author = rc_author r\<rparr>)
          (map fst (filter (\<lambda>x. snd x = Unauthorized) ?found))) =
      (if cc_enabled c then length (filter (\<lambda>cm. parseCommandAction (ic_body cm) (cc_mentions c) \<noteq> None) comments) else 0)"
      using True filter_three[of ?found] n by simp
  qed (rule by_comment_sorted)+
qed

section \<open>Exact-head authorizations\<close>

lemma fresh_comments_props:
  "distinct (map ic_id (fresh_comments seen cs)) \<and> set (fresh_comments seen cs) \<subseteq> set cs \<and>
   set seen \<inter> ic_id ` set (fresh_comments seen cs) = {}"
  by (induction seen cs rule: fresh_comments.induct) auto

lemma comment_attempt_request:
  assumes "comment_attempt c t cm = Some (a, Some q)"
  shows "rq_comment_id q = ic_id cm" "isExplicitTrustedAuthor (rq_author q) c" "rq_repo q = tg_repo t" "rq_pull q = tg_pull t"
    "normalizeHeadSha (tg_head t) = Some (rq_head q)"
    "parseRequestChangesCommand (ic_body cm) (cc_mentions c) = Some (Parsed (rq_repo q) (rq_pull q) (rq_head q))"
    "map_option ca_login (ic_user cm) = Some (rq_author q)" "a = Eligible (rq_head q) (rq_author q) (rq_comment_id q)"
  using assms
  by (auto simp: comment_attempt_def boundedAuthor_def Let_def split: option.splits parsed_request.splits if_splits)

lemma comment_attempt_eligible:
  "comment_attempt c t cm = Some (a, r) \<Longrightarrow> (attempt_head a \<noteq> None) = (r \<noteq> None)"
  by (cases "normalizeHeadSha (tg_head t)") (auto simp: comment_attempt_def Let_def split: option.splits parsed_request.splits if_splits)

lemma normalize_normalized: "normalizeHeadSha s = Some h \<Longrightarrow> normalizeHeadSha h = Some h"
  by (auto simp: normalizeHeadSha_def is_sha40_def list_all_iff to_lower_def split: if_splits)

lemma find_rev_last:
  "find P (rev xs) = last_of (filter P xs)"
  by (induction xs rule: rev_induct) (auto simp: last_of_def)

text \<open>What makes a comment a request for changes of the target, and the request it makes; the comments that count are those
  with a positive safe id that no earlier comment has.\<close>

definition asks_changes :: "command_config \<Rightarrow> auth_target \<Rightarrow> issue_comment \<Rightarrow> bool" where
  "asks_changes c t cm \<longleftrightarrow> (\<exists>author head. boundedAuthor (map_option ca_login (ic_user cm)) = Some author \<and>
     isExplicitTrustedAuthor author c \<and> normalizeHeadSha (tg_head t) = Some head \<and>
     parseRequestChangesCommand (ic_body cm) (cc_mentions c) = Some (Parsed (tg_repo t) (tg_pull t) head))"

definition request_of :: "auth_target \<Rightarrow> issue_comment \<Rightarrow> auth_request" where
  "request_of t cm = \<lparr>rq_comment_id = ic_id cm, rq_author = (case ic_user cm of None \<Rightarrow> [] | Some u \<Rightarrow> ca_login u),
     rq_repo = tg_repo t, rq_pull = tg_pull t, rq_head = or_default (normalizeHeadSha (tg_head t)) []\<rparr>"

definition counts :: "issue_comment list \<Rightarrow> nat \<Rightarrow> bool" where
  "counts cs k \<longleftrightarrow> safe_integer (ic_id (cs ! k)) \<and> 1 \<le> ic_id (cs ! k) \<and> (\<forall>j<k. ic_id (cs ! j) \<noteq> ic_id (cs ! k))"

lemma filter_upt_Suc: "filter P [0..<Suc n] = (if P 0 then [0] else []) @ map Suc (filter (\<lambda>k. P (Suc k)) [0..<n])"
proof -
  have "[0..<Suc n] = 0 # map Suc [0..<n]" by (simp add: map_Suc_upt upt_conv_Cons)
  then show ?thesis by (simp only: filter.simps filter_map comp_def append.simps split: if_split) simp
qed

lemma counts_Cons: "counts (cm # cs) 0 \<longleftrightarrow> safe_integer (ic_id cm) \<and> 1 \<le> ic_id cm"
  "counts (cm # cs) (Suc k) \<longleftrightarrow> counts cs k \<and> ic_id cm \<noteq> ic_id (cs ! k)"
  by (auto simp: counts_def less_Suc_eq_0_disj)

lemma fresh_comments_listed:
  "fresh_comments seen cs = map ((!) cs) (filter (\<lambda>k. counts cs k \<and> ic_id (cs ! k) \<notin> set seen) [0..<length cs])"
proof (induction cs arbitrary: seen)
  case (Cons cm cs)
  let ?ok = "safe_integer (ic_id cm) \<and> 1 \<le> ic_id cm \<and> ic_id cm \<notin> set seen"
  have step: "map ((!) (cm # cs)) (filter (\<lambda>k. counts (cm # cs) k \<and> ic_id ((cm # cs) ! k) \<notin> set seen) [0..<length (cm # cs)]) =
      (if ?ok then [cm] else []) @ map ((!) cs) (filter (\<lambda>k. (counts cs k \<and> ic_id cm \<noteq> ic_id (cs ! k)) \<and> ic_id (cs ! k) \<notin> set seen) [0..<length cs])"
    by (simp add: filter_upt_Suc counts_Cons comp_def del: upt_Suc)
  show ?case
  proof (cases ?ok)
    case True
    have "filter (\<lambda>k. counts cs k \<and> ic_id (cs ! k) \<notin> set (ic_id cm # seen)) [0..<length cs] =
        filter (\<lambda>k. (counts cs k \<and> ic_id cm \<noteq> ic_id (cs ! k)) \<and> ic_id (cs ! k) \<notin> set seen) [0..<length cs]"
      by (rule filter_cong) auto
    then show ?thesis unfolding step using True Cons[of "ic_id cm # seen"] by simp
  next
    case False
    have "filter (\<lambda>k. counts cs k \<and> ic_id (cs ! k) \<notin> set seen) [0..<length cs] =
        filter (\<lambda>k. (counts cs k \<and> ic_id cm \<noteq> ic_id (cs ! k)) \<and> ic_id (cs ! k) \<notin> set seen) [0..<length cs]"
      using False by (intro filter_cong) (auto simp: counts_def)
    then show ?thesis unfolding step using False Cons[of seen] by auto
  qed
qed simp

lemma attempt_asks:
  "comment_attempt c t cm = None \<Longrightarrow> \<not> asks_changes c t cm"
  "comment_attempt c t cm = Some (a, r) \<Longrightarrow> r = (if asks_changes c t cm then Some (request_of t cm) else None)"
  by (auto simp: comment_attempt_def asks_changes_def request_of_def boundedAuthor_def Let_def or_default_def
      split: option.splits parsed_request.splits if_splits)

lemma requests_listed:
  "List.map_filter snd (List.map_filter (comment_attempt c t) xs) = map (request_of t) (filter (asks_changes c t) xs)"
proof (induction xs)
  case (Cons x xs)
  then show ?case using attempt_asks[of c t x]
    by (cases "comment_attempt c t x") (auto simp: List.map_filter_simps split: if_splits)
qed (simp add: List.map_filter_simps)

lemma attempt_found:
  assumes "comment_attempt c t cm = Some (a, r)"
  shows "\<not> is_missing a" "eligible_for (tg_head t) a \<longleftrightarrow> r \<noteq> None"
    "r = Some q \<Longrightarrow> a = Eligible (rq_head q) (rq_author q) (rq_comment_id q)"
proof -
  show "\<not> is_missing a" using assms
    by (auto simp: comment_attempt_def Let_def split: option.splits parsed_request.splits if_splits)
  show "r = Some q \<Longrightarrow> a = Eligible (rq_head q) (rq_author q) (rq_comment_id q)"
    using comment_attempt_request(8)[of c t cm a q] assms by simp
  show "eligible_for (tg_head t) a \<longleftrightarrow> r \<noteq> None"
    using comment_attempt_eligible[OF assms] comment_attempt_request(5,8)[of c t cm a] assms normalize_normalized
    by (cases r) (auto simp: eligible_for_def)
qed

lemma attempts_found:
  "filter (eligible_for (tg_head t)) (map fst (List.map_filter (comment_attempt c t) xs)) =
     map (\<lambda>q. Eligible (rq_head q) (rq_author q) (rq_comment_id q)) (List.map_filter snd (List.map_filter (comment_attempt c t) xs))"
  "filter (\<lambda>a. \<not> is_missing a) (map fst (List.map_filter (comment_attempt c t) xs)) = map fst (List.map_filter (comment_attempt c t) xs)"
  "List.map_filter snd (List.map_filter (comment_attempt c t) xs) = [] \<Longrightarrow>
     a \<in> set (map fst (List.map_filter (comment_attempt c t) xs)) \<Longrightarrow> attempt_head a = None"
proof (induction xs)
  case (Cons x xs)
  { case 1 then show ?case using Cons.IH(1) attempt_found[of c t x]
      by (cases "comment_attempt c t x") (auto simp: List.map_filter_simps split: option.split) }
  { case 2 then show ?case using Cons.IH(2) attempt_found(1)[of c t x]
      by (cases "comment_attempt c t x") (auto simp: List.map_filter_simps) }
  { case 3 then show ?case using Cons.IH(3) comment_attempt_eligible[of c t x]
      by (cases "comment_attempt c t x") (auto simp: List.map_filter_simps split: option.splits) }
qed (simp_all add: List.map_filter_simps)

text \<open>C27: the review requests are exactly those of the comments that count and ask for changes of the target: whose author is
  trusted by name and that name its repository, its pull request and its current head, in the order of the comments and
  each comment once; with commands switched off there are none. The authorization selected for the head is the most
  recent request; without a request it is the most recent attempt, which is then not eligible, or a missing one.\<close>

theorem authorization_requests_exact:
  "case collectReviewEventAuthorizationAttempts comments c t of (attempts, selected, requests) \<Rightarrow>
    requests = (if cc_enabled c
      then map (\<lambda>k. request_of t (comments ! k)) (filter (\<lambda>k. counts comments k \<and> asks_changes c t (comments ! k)) [0..<length comments])
      else []) \<and>
    distinct (map rq_comment_id requests) \<and>
    selected = (if requests \<noteq> [] then Eligible (rq_head (last requests)) (rq_author (last requests)) (rq_comment_id (last requests))
      else if attempts \<noteq> [] then last attempts else Attempt AS_missing None None) \<and>
    (attempt_head selected \<noteq> None \<longleftrightarrow> requests \<noteq> [])"
proof (cases "cc_enabled c")
  case False
  then show ?thesis by (simp add: collectReviewEventAuthorizationAttempts_def)
next
  case True
  let ?fresh = "fresh_comments [] comments"
  define found where "found = List.map_filter (comment_attempt c t) ?fresh"
  define requests where "requests = List.map_filter snd found"
  note all = attempts_found[where c = c and t = t and xs = ?fresh, folded found_def, folded requests_def]
  have listed: "requests = map (\<lambda>k. request_of t (comments ! k)) (filter (\<lambda>k. counts comments k \<and> asks_changes c t (comments ! k)) [0..<length comments])"
    by (simp add: requests_def found_def requests_listed fresh_comments_listed filter_map comp_def conj_commute)
  have "requests = map (request_of t) (filter (asks_changes c t) ?fresh)" by (simp add: requests_def found_def requests_listed)
  then have ids: "distinct (map rq_comment_id requests)"
    using fresh_comments_props[of "[]" comments] by (simp add: comp_def request_of_def distinct_map_filter)
  have selected: "selectReviewEventAuthorizationAttempt (map fst found) (tg_head t) =
      (if requests \<noteq> [] then Eligible (rq_head (last requests)) (rq_author (last requests)) (rq_comment_id (last requests))
       else if found \<noteq> [] then last (map fst found) else Attempt AS_missing None None)"
    by (simp add: selectReviewEventAuthorizationAttempt_def find_rev_last all(1,2) last_of_def or_default_def last_map)
  have "attempt_head (last (map fst found)) = None" if "requests = []" "found \<noteq> []"
    using all(3)[OF that(1), of "last (map fst found)"] that(2) last_in_set[of "map fst found"] by simp
  then have head: "attempt_head (selectReviewEventAuthorizationAttempt (map fst found) (tg_head t)) \<noteq> None \<longleftrightarrow> requests \<noteq> []"
    by (simp add: selected)
  have run: "collectReviewEventAuthorizationAttempts comments c t =
      (map fst found, selectReviewEventAuthorizationAttempt (map fst found) (tg_head t), requests)"
    using True by (simp add: collectReviewEventAuthorizationAttempts_def found_def requests_def Let_def)
  show ?thesis unfolding run prod.case
  proof (intro conjI)
    show "selectReviewEventAuthorizationAttempt (map fst found) (tg_head t) =
      (if requests \<noteq> [] then Eligible (rq_head (last requests)) (rq_author (last requests)) (rq_comment_id (last requests))
       else if map fst found \<noteq> [] then last (map fst found) else Attempt AS_missing None None)" using selected by simp
    show "requests = (if cc_enabled c
      then map (\<lambda>k. request_of t (comments ! k)) (filter (\<lambda>k. counts comments k \<and> asks_changes c t (comments ! k)) [0..<length comments])
      else [])" using True listed by simp
  qed (rule ids head)+
qed

text \<open>the event policy never turns a comment into requested changes, and outside the automatic mode a review
  requests changes exactly when its candidate does and the authorization is eligible for this very head.\<close>

theorem policy_never_escalates:
  "pd_selected (decideReviewEventPolicy mode candidate head a) = EV_REQUEST_CHANGES \<longleftrightarrow>
     candidate = EV_REQUEST_CHANGES \<and> (mode = Automatic \<or> eligible_for head a)"
  by (cases a; cases candidate) (auto simp: decideReviewEventPolicy_def eligible_for_def Let_def split: prod.splits)


section \<open>A well-formed request is read back\<close>

definition request_line :: "string \<Rightarrow> string \<Rightarrow> nat \<Rightarrow> string \<Rightarrow> string list" where
  "request_line m repo n sha = [m, ''request-changes'', ''--repo'', repo, ''--pr'', digits_of_nat n, ''--head'', sha]"

lemma slug_not_space: "is_slug_char c \<Longrightarrow> \<not> is_space c"
  by (auto simp: is_slug_char_def is_space_def is_alnum_def is_digit_def char_code_def)

lemma hex_not_space: "is_lower_hex (lower_char c) \<Longrightarrow> \<not> is_space c"
  by (auto simp: is_lower_hex_def lower_char_def is_space_def char_code_def is_digit_def split: if_splits)

lemma digit_not_space: "is_digit c \<Longrightarrow> \<not> is_space c"
  by (auto simp: is_digit_def is_space_def)

lemma digits_hd: "0 < n \<Longrightarrow> hd (digits_of_nat n) \<noteq> CHR ''0''"
proof (induction n rule: digits_of_nat.induct)
  case (1 n)
  show ?case
  proof (cases "n < 10")
    case True
    then have "hd (digits_of_nat n) = char_of (48 + n)" by (subst digits_of_nat.simps) simp
    moreover have "of_char (char_of (48 + n) :: char) = (48 + n :: nat)" using True by simp
    moreover have "of_char (CHR ''0'') = (48 :: nat)" by simp
    ultimately show ?thesis using 1(2) by (metis add_cancel_left_right less_numeral_extra(3))
  next
    case False
    then show ?thesis using 1 by (subst digits_of_nat.simps) (simp add: hd_append)
  qed
qed

lemma join_split: "join_on d (split_on d s) = s"
proof (induction s)
  case (Cons c s)
  obtain w ws where w: "split_on d s = w # ws" by (cases "split_on d s") auto
  then show ?case using Cons by (cases ws) auto
qed simp

lemma starts_with_includes: "starts_with p s \<Longrightarrow> str_includes p s"
  by (cases s; cases p) auto

lemma starts_with_same: "starts_with (p @ q) (p @ s) \<longleftrightarrow> starts_with q s"
  by (induction p) auto

lemma isRepoName_chars:
  assumes "isRepoName repo"
  shows "repo \<noteq> []" "c \<in> set repo \<Longrightarrow> \<not> is_space c"
proof -
  obtain a b where ab: "split_on (CHR ''/'') repo = [a, b]" "list_all is_slug_char a" "list_all is_slug_char b"
    using assms by (auto simp: isRepoName_def split: list.splits)
  have repo: "repo = join_on (CHR ''/'') [a, b]" using join_split[of "CHR ''/''" repo] ab(1) by simp
  show "repo \<noteq> []" using repo by simp
  assume "c \<in> set repo"
  then have "c \<in> set a \<or> c = CHR ''/'' \<or> c \<in> set b" using repo by auto
  then show "\<not> is_space c" using ab slug_not_space by (auto simp: list_all_iff is_space_def char_code_def)
qed

lemma space_line_ends: "is_space (CHR 0x0D)" "is_space (CHR 0x0A)"
  by code_simp+

lemma request_line_single:
  assumes "m \<noteq> []" "\<forall>c\<in>set m. \<not> is_space c" "isRepoName repo" "is_sha40 sha"
  shows "single_spaced (request_line m repo n sha)"
  using assms isRepoName_chars[OF assms(3)] digits_of_nat_digits[of n] digit_not_space hex_not_space
  by (auto simp: single_spaced_def request_line_def is_sha40_def list_all_iff is_space_def char_code_def)

lemma request_line_mentioned:
  assumes "m \<in> set mentions"
  shows "mentions_request_changes (map to_lower mentions) (join_on (CHR '' '') (request_line m repo n sha))"
proof -
  have "starts_with (to_lower m @ '' request-changes'') (to_lower (join_on (CHR '' '') (request_line m repo n sha)))"
    by (simp add: request_line_def to_lower_def starts_with_same) (simp add: lower_char_def char_code_def)
  then have "str_includes (to_lower m @ '' request-changes'') (to_lower (join_on (CHR '' '') (request_line m repo n sha)))"
    by (rule starts_with_includes)
  then show ?thesis using assms by (auto simp: mentions_request_changes_def list_ex_iff)
qed

lemma request_line_parsed:
  assumes "m \<in> set mentions" "m \<noteq> []" "\<forall>c\<in>set m. \<not> is_space c" "isRepoName repo" "0 < n" "safe_integer (int n)" "is_sha40 sha"
  shows "parseRequestChangesCommand (Some (join_on (CHR '' '') (request_line m repo n sha))) mentions =
    Some (Parsed repo (int n) (to_lower sha))"
proof -
  let ?line = "join_on (CHR '' '') (request_line m repo n sha)"
  have ss: "single_spaced (request_line m repo n sha)" by (rule request_line_single[OF assms(2-4,7)])
  have nn: "?line \<noteq> []" using single_spaced_hd[of m] ss unfolding request_line_def by blast
  have line_space: "c = CHR '' ''" if c: "c \<in> set ?line" "is_space c" for c
  proof (rule ccontr)
    assume "c \<noteq> CHR '' ''"
    then obtain w where "w \<in> set (request_line m repo n sha)" "c \<in> set w" using space_set_join[OF c(1)] by blast
    then show False using ss c(2) unfolding single_spaced_def by blast
  qed
  have cr: "CHR 0x0D \<notin> set ?line" "CHR 0x0A \<notin> set ?line"
    using line_space[of "CHR 0x0D"] line_space[of "CHR 0x0A"] space_line_ends by auto
  have split: "split_on (CHR '' '') ?line = request_line m repo n sha"
    using ss space_is_space by (intro split_join) (auto simp: single_spaced_def simp del: space_is_space)
  have pull: "parse_pull_number (digits_of_nat n) = Some (int n)"
    using assms(5,6) digits_of_nat_digits digits_hd by (simp add: parse_pull_number_def)
  have verb: "to_lower ''request-changes'' = ''request-changes''" by code_simp
  have head: "normalizeHeadSha sha = Some (to_lower sha)" using assms(7) by (simp add: normalizeHeadSha_def)
  have "parse_request_tokens (map to_lower mentions) (request_line m repo n sha) = Parsed repo (int n) (to_lower sha)"
    using assms(1,4) pull head verb by (simp add: parse_request_tokens_def request_line_def)
  then show ?thesis
    using nn cr split request_line_mentioned[OF assms(1), of repo n sha]
    by (simp add: parseRequestChangesCommand_def truthy_def Let_def trim_join[OF ss] collapse_join[OF ss])
qed

text \<open>C35: a request written as the documentation shows it (any configured mention, a repository name, a positive pull
  request number below 2^53 and a 40-digit head in either case) parses to exactly what it says, with the head
  in lower case.\<close>

theorem request_changes_roundtrip:
  assumes "m \<in> set mentions" "m \<noteq> []" "\<forall>c\<in>set m. \<not> is_space c" "isRepoName repo" "0 < n" "safe_integer (int n)" "is_sha40 sha"
  shows "parseRequestChangesCommand (Some (join_on (CHR '' '') (request_line m repo n sha))) mentions =
    Some (Parsed repo (int n) (to_lower sha))"
  by (rule request_line_parsed[OF assms])

theorem request_changes_roundtrip_witness:
  "parseRequestChangesCommand
     (Some (join_on (CHR '' '') (request_line ''@Neondiff'' ''acme/api'' 42 (replicate 40 (CHR ''A''))))) [''@evaos'', ''@Neondiff''] =
   Some (Parsed ''acme/api'' 42 (replicate 40 (CHR ''a'')))"
proof -
  have low: "lower_char (CHR ''A'') = CHR ''a''" by code_simp
  have h: "to_lower (replicate 40 (CHR ''A'')) = replicate 40 (CHR ''a'')" using low by (simp add: to_lower_def)
  have hex: "is_lower_hex (lower_char (CHR ''A''))" by code_simp
  have r: "isRepoName ''acme/api''" by code_simp
  have sp: "\<forall>c\<in>set ''@Neondiff''. \<not> is_space c" by code_simp
  have sha: "is_sha40 (replicate 40 (CHR ''A''))" using hex by (simp add: is_sha40_def list_all_iff)
  show ?thesis
    using request_changes_roundtrip[of "''@Neondiff''" "[''@evaos'', ''@Neondiff'']" "''acme/api''" 42 "replicate 40 (CHR ''A'')",
        OF _ _ sp r _ _ sha] h by (simp add: safe_integer_def)
qed

section \<open>The chosen command\<close>

lemma last_of_SomeD: "last_of xs = Some x \<Longrightarrow> x \<in> set xs"
  by (auto simp: last_of_def split: if_splits)

lemma sorted_le_last: "sorted (map f xs) \<Longrightarrow> y \<in> set xs \<Longrightarrow> f y \<le> f (last xs)"
  by (induction xs) auto

lemma last_of_filter:
  assumes "last_of (filter P xs) = Some x"
  shows "x \<in> set xs" "P x" "sorted (map f xs) \<Longrightarrow> y \<in> set xs \<Longrightarrow> P y \<Longrightarrow> f y \<le> f x"
proof -
  show "x \<in> set xs" "P x" using last_of_SomeD[OF assms] by auto
  assume *: "sorted (map f xs)" "y \<in> set xs" "P y"
  then have "sorted (map f (filter P xs))" using sorted_filter by blast
  moreover have "filter P xs \<noteq> []" "x = last (filter P xs)" using assms by (auto simp: last_of_def split: if_splits)
  moreover have "y \<in> set (filter P xs)" using * by simp
  ultimately show "f y \<le> f x" using sorted_le_last[of f "filter P xs" y] by simp
qed

lemma last_of_None: "last_of xs = None \<longleftrightarrow> xs = []"
  by (simp add: last_of_def)


definition pending_commands :: "review_command list \<Rightarrow> string \<Rightarrow> int \<Rightarrow> string \<Rightarrow> db \<Rightarrow> review_command list" where
  "pending_commands cmds repo pull head d = filter (\<lambda>c. \<not> hasProcessedCommand repo pull head (rc_comment_id c) d) cmds"

lemma processed_after_record:
  "hasProcessedCommand repo pull head i (recordProcessedCommand r d) \<longleftrightarrow>
     hasProcessedCommand repo pull head i d \<or> (pc_repo r = repo \<and> pc_pull r = pull \<and> pc_comment_id r = i)"
  by (auto simp: hasProcessedCommand_def recordProcessedCommand_def row_replace_def row_delete_def pc_key_def)

lemma decide_pending:
  "decideCommandAction cmds (\<lambda>i. hasProcessedCommand repo pull head i d) =
    (let ps = pending_commands cmds repo pull head d; rv = last_of (filter (\<lambda>c. isReviewCommandAction (rc_action c)) ps)
     in case last_of (filter (\<lambda>c. rc_action c = CA_stop) ps) of
          Some st \<Rightarrow> (case rv of None \<Rightarrow> Some st | Some r \<Rightarrow> if rc_comment_id r < rc_comment_id st then Some st else Some r)
        | None \<Rightarrow> coalesce rv (last_of ps))"
  by (simp add: decideCommandAction_def pending_commands_def Let_def)

lemma decide_none: "decideCommandAction cmds (\<lambda>i. hasProcessedCommand repo pull head i d) = None \<longleftrightarrow> pending_commands cmds repo pull head d = []"
  by (auto simp: decide_pending Let_def last_of_def coalesce_def split: option.splits if_splits)

lemma decide_chosen:
  assumes sorted: "sorted (map rc_comment_id cmds)"
    and some: "decideCommandAction cmds (\<lambda>i. hasProcessedCommand repo pull head i d) = Some c"
  shows "c \<in> set (pending_commands cmds repo pull head d) \<and> (\<forall>x\<in>set (pending_commands cmds repo pull head d).
      (isReviewCommandAction (rc_action c) \<and> rc_action x = CA_stop \<longrightarrow> rc_comment_id x \<le> rc_comment_id c) \<and>
      (rc_action c = CA_stop \<and> isReviewCommandAction (rc_action x) \<longrightarrow> rc_comment_id x < rc_comment_id c) \<and>
      (\<not> isReviewCommandAction (rc_action c) \<and> rc_action c \<noteq> CA_stop \<longrightarrow>
        \<not> isReviewCommandAction (rc_action x) \<and> rc_action x \<noteq> CA_stop))"
proof -
  let ?ps = "pending_commands cmds repo pull head d"
  let ?rv = "last_of (filter (\<lambda>c. isReviewCommandAction (rc_action c)) ?ps)"
  let ?st = "last_of (filter (\<lambda>c. rc_action c = CA_stop) ?ps)"
  have srt: "sorted (map rc_comment_id ?ps)" using sorted sorted_filter unfolding pending_commands_def by blast
  have rv: "isReviewCommandAction (rc_action r) \<and> r \<in> set ?ps \<and>
      (\<forall>x\<in>set ?ps. isReviewCommandAction (rc_action x) \<longrightarrow> rc_comment_id x \<le> rc_comment_id r)" if "?rv = Some r" for r
    using last_of_filter[OF that] srt by blast
  have st: "rc_action r = CA_stop \<and> r \<in> set ?ps \<and>
      (\<forall>x\<in>set ?ps. rc_action x = CA_stop \<longrightarrow> rc_comment_id x \<le> rc_comment_id r)" if "?st = Some r" for r
    using last_of_filter[OF that] srt by blast
  have rv0: "\<not> isReviewCommandAction (rc_action x)" if "?rv = None" "x \<in> set ?ps" for x
    using that by (auto simp: last_of_None filter_empty_conv)
  have st0: "rc_action x \<noteq> CA_stop" if "?st = None" "x \<in> set ?ps" for x
    using that by (auto simp: last_of_None filter_empty_conv)
  have stop: "\<not> isReviewCommandAction CA_stop" by (simp add: isReviewCommandAction_def)
  show ?thesis
  proof (cases ?st)
    case (Some s)
    show ?thesis
    proof (cases ?rv)
      case None
      then have "c = s" using some Some by (simp add: decide_pending Let_def)
      then show ?thesis using st[OF Some] rv0[OF None] stop by simp
    next
      case rvs: (Some r)
      show ?thesis
      proof (cases "rc_comment_id r < rc_comment_id s")
        case True
        then have "c = s" using some Some rvs by (simp add: decide_pending Let_def)
        then show ?thesis using st[OF Some] rv[OF rvs] stop True by fastforce
      next
        case False
        then have "c = r" using some Some rvs by (simp add: decide_pending Let_def)
        then show ?thesis using st[OF Some] rv[OF rvs] stop False by force
      qed
    qed
  next
    case None
    show ?thesis
    proof (cases ?rv)
      case rvn: None
      then have c: "last_of ?ps = Some c" using some None by (simp add: decide_pending Let_def)
      then show ?thesis using last_of_SomeD[OF c] rv0[OF rvn] st0[OF None] by simp
    next
      case (Some r)
      then have "c = r" using some None by (simp add: decide_pending Let_def)
      then show ?thesis using rv[OF Some] st0[OF None] stop by fastforce
    qed
  qed
qed

lemma pending_after_record:
  assumes "pc_repo r = repo" "pc_pull r = pull" "pc_comment_id r = i"
  shows "pending_commands cmds repo pull head' (recordProcessedCommand r d) =
    filter (\<lambda>x. rc_comment_id x \<noteq> i) (pending_commands cmds repo pull head d)"
proof -
  have "hasProcessedCommand repo pull head' j d = hasProcessedCommand repo pull head j d" for j
    by (simp add: hasProcessedCommand_def)
  then show ?thesis
    using assms by (auto simp: pending_commands_def processed_after_record intro!: filter_cong)
qed

text \<open>C34: of the commands of a pull request, in comment order, one is chosen exactly while one is unprocessed; it is
  itself unprocessed, a review only if no unprocessed stop is newer, a stop only if every unprocessed review is
  older, and anything else only if neither is pending. Once its processing is recorded, it is not pending for any
  head and every other command still is, so the commands are handled in at most as many rounds as there are commands.\<close>

theorem command_chosen_once:
  assumes "sorted (map rc_comment_id cmds)" "pending_commands cmds repo pull head d \<noteq> []"
  shows "\<exists>c. decideCommandAction cmds (\<lambda>i. hasProcessedCommand repo pull head i d) = Some c \<and>
    c \<in> set (pending_commands cmds repo pull head d) \<and>
    (\<forall>x\<in>set (pending_commands cmds repo pull head d).
      (isReviewCommandAction (rc_action c) \<and> rc_action x = CA_stop \<longrightarrow> rc_comment_id x \<le> rc_comment_id c) \<and>
      (rc_action c = CA_stop \<and> isReviewCommandAction (rc_action x) \<longrightarrow> rc_comment_id x < rc_comment_id c) \<and>
      (\<not> isReviewCommandAction (rc_action c) \<and> rc_action c \<noteq> CA_stop \<longrightarrow>
        \<not> isReviewCommandAction (rc_action x) \<and> rc_action x \<noteq> CA_stop)) \<and>
    (\<forall>r head'. pc_repo r = repo \<and> pc_pull r = pull \<and> pc_comment_id r = rc_comment_id c \<longrightarrow>
      pending_commands cmds repo pull head' (recordProcessedCommand r d) =
        filter (\<lambda>x. rc_comment_id x \<noteq> rc_comment_id c) (pending_commands cmds repo pull head d) \<and>
      length (pending_commands cmds repo pull head' (recordProcessedCommand r d)) < length (pending_commands cmds repo pull head d))"
proof -
  obtain c where c: "decideCommandAction cmds (\<lambda>i. hasProcessedCommand repo pull head i d) = Some c"
    using decide_none[of cmds repo pull head d] assms(2) by auto
  note chosen = decide_chosen[OF assms(1) c]
  have "length (filter (\<lambda>x. rc_comment_id x \<noteq> rc_comment_id c) (pending_commands cmds repo pull head d)) <
      length (pending_commands cmds repo pull head d)"
    using chosen by (intro length_filter_less) auto
  then have "pending_commands cmds repo pull head' (recordProcessedCommand r d) =
        filter (\<lambda>x. rc_comment_id x \<noteq> rc_comment_id c) (pending_commands cmds repo pull head d) \<and>
      length (pending_commands cmds repo pull head' (recordProcessedCommand r d)) < length (pending_commands cmds repo pull head d)"
    if "pc_repo r = repo \<and> pc_pull r = pull \<and> pc_comment_id r = rc_comment_id c" for r head'
    using that pending_after_record[of r repo pull "rc_comment_id c" cmds head' d head] by simp
  then show ?thesis using c chosen by blast
qed

definition demo_commands :: "review_command list" where
  "demo_commands =
     [\<lparr>rc_action = CA_review, rc_comment_id = 10, rc_author = ''ada'', rc_body = [], rc_url = None\<rparr>,
      \<lparr>rc_action = CA_stop, rc_comment_id = 20, rc_author = ''ada'', rc_body = [], rc_url = None\<rparr>]"

theorem command_chosen_once_witness:
  "decideCommandAction demo_commands (\<lambda>i. hasProcessedCommand ''acme/api'' 7 ''h'' i empty_db) = Some (demo_commands ! 1) \<and>
   (\<exists>c. decideCommandAction demo_commands (\<lambda>i. hasProcessedCommand ''acme/api'' 7 ''h'' i empty_db) = Some c \<and>
     c \<in> set (pending_commands demo_commands ''acme/api'' 7 ''h'' empty_db))"
proof -
  have "sorted (map rc_comment_id demo_commands)" by code_simp
  moreover have "pending_commands demo_commands ''acme/api'' 7 ''h'' empty_db \<noteq> []" by code_simp
  moreover have "decideCommandAction demo_commands (\<lambda>i. hasProcessedCommand ''acme/api'' 7 ''h'' i empty_db) = Some (demo_commands ! 1)"
    by code_simp
  ultimately show ?thesis
    using command_chosen_once[of demo_commands "''acme/api''" 7 "''h''" empty_db] by blast
qed


section \<open>Admission of public commands\<close>

lemma action_name_inj: "action_name x = action_name y \<Longrightarrow> x = y"
  by (cases x rule: action_name.cases; cases y rule: action_name.cases; simp)

text \<open>The command is within the cooldown of a recorded one of its author and action.\<close>

definition cooling_down :: "admission \<Rightarrow> public_commands \<Rightarrow> review_command \<Rightarrow> db \<Rightarrow> bool" where
  "cooling_down a p c d \<longleftrightarrow> (\<exists>r \<in> set (invocations d). pi_key r = pi_key (invocation_of (command_invocation a p c)) \<and>
     sql_datetime (ad_now a - pub_cooldown_minutes p * 60000) < sql_datetime (pi_invoked_at r))"

lemma record_invocation:
  assumes "1 \<le> pub_cooldown_minutes p"
  shows "tryRecordPublicCommandInvocation (command_invocation a p c) d =
    (if cooling_down a p c d then (Inr False, d)
     else (Inr True, d\<lparr>invocations := row_replace pi_key (invocation_of (command_invocation a p c)) (invocations d)\<rparr>))"
  using assms by (auto simp: tryRecordPublicCommandInvocation_def cooling_down_def command_invocation_def)

lemma cooling_down_replace:
  assumes "1 \<le> pub_cooldown_minutes p"
  shows "cooling_down a p x (d\<lparr>invocations := row_replace pi_key (invocation_of (command_invocation a p c)) (invocations d)\<rparr>) \<longleftrightarrow>
    (rc_author x = rc_author c \<and> rc_action x = rc_action c) \<or> cooling_down a p x d"
proof -
  have t: "sql_datetime (ad_now a - pub_cooldown_minutes p * 60000) < sql_datetime (ad_now a)"
    using assms by (intro sql_datetime_strict) simp
  have k: "pi_key (invocation_of (command_invocation a p x)) = pi_key (invocation_of (command_invocation a p c)) \<longleftrightarrow>
      rc_author x = rc_author c \<and> rc_action x = rc_action c"
    using action_name_inj by (auto simp: invocation_key command_invocation_def)
  have n: "pi_invoked_at (invocation_of (command_invocation a p c)) = ad_now a"
    by (simp add: invocation_of_def command_invocation_def)
  show ?thesis
    using t k n by (auto simp: cooling_down_def row_replace_def row_delete_def)
qed

lemma admit_loop_sound:
  assumes "1 \<le> pub_cooldown_minutes p" "admit_loop a p es d = (Inr cs, d')"
  shows "set cs \<subseteq> set es \<and>
    (\<forall>c\<in>set cs. \<not> isBotCommandComment (Option.bind (comment_source (ad_comments a) (rc_comment_id c)) ic_user) (ad_bot a) \<and>
      \<not> cooling_down a p c d \<and> cooling_down a p c d') \<and>
    distinct (map (\<lambda>c. (rc_author c, rc_action c)) cs) \<and>
    (\<forall>c. cooling_down a p c d \<longrightarrow> cooling_down a p c d')"
  using assms(2)
proof (induction es arbitrary: cs d)
  case Nil
  then show ?case by simp
next
  case (Cons e es)
  show ?case
  proof (cases "isBotCommandComment (Option.bind (comment_source (ad_comments a) (rc_comment_id e)) ic_user) (ad_bot a) \<or> cooling_down a p e d")
    case True
    then have "admit_loop a p es d = (Inr cs, d')"
      using Cons.prems by (auto simp: record_invocation[OF assms(1)] split: if_splits prod.splits sum.splits)
    from Cons.IH[OF this] show ?thesis by auto
  next
    case False
    let ?d = "d\<lparr>invocations := row_replace pi_key (invocation_of (command_invocation a p e)) (invocations d)\<rparr>"
    obtain rest where r: "admit_loop a p es ?d = (Inr rest, d')" "cs = e # rest"
      using Cons.prems False by (auto simp: record_invocation[OF assms(1)] split: if_splits prod.splits sum.splits)
    note ih = Cons.IH[OF r(1)] and step = cooling_down_replace[OF assms(1), of a _ e d]
    have e: "cooling_down a p e ?d" using step[of e] by simp
    have "(rc_author c, rc_action c) \<noteq> (rc_author e, rc_action e)" if "c \<in> set rest" for c
      using ih that step[of c] by auto
    then have "(rc_author e, rc_action e) \<notin> (\<lambda>c. (rc_author c, rc_action c)) ` set rest" by (metis (no_types, lifting) imageE)
    then have "distinct (map (\<lambda>c. (rc_author c, rc_action c)) cs)" using ih r(2) by simp
    then show ?thesis using ih r(2) e step False by auto
  qed
qed

text \<open>of the commands offered by the public, those admitted are among the eligible ones, none was written by a
  bot or by the application itself, no two come from one author with one action, and none is within the cooldown
  of an earlier admission; each admitted one starts its own cooldown, and no cooldown is lost.\<close>

theorem public_admission_sound:
  assumes "cc_public (ad_config a) = Some p" "1 \<le> pub_cooldown_minutes p"
    and "admitPublicCommands a es d = (Inr cs, d')"
  shows "set cs \<subseteq> set es \<and> (cs \<noteq> [] \<longrightarrow> pub_enabled p) \<and>
    (\<forall>c\<in>set cs. \<not> isBotCommandComment (Option.bind (comment_source (ad_comments a) (rc_comment_id c)) ic_user) (ad_bot a) \<and>
      \<not> cooling_down a p c d \<and> cooling_down a p c d') \<and>
    distinct (map (\<lambda>c. (rc_author c, rc_action c)) cs) \<and>
    (\<forall>c. cooling_down a p c d \<longrightarrow> cooling_down a p c d')"
  using assms admit_loop_sound[OF assms(2), of a es d cs d']
  by (auto simp: admitPublicCommands_def split: if_splits)

definition demo_admission :: admission where
  "demo_admission = \<lparr>ad_config = \<lparr>cc_enabled = True, cc_mentions = [''@evaos''], cc_trusted = [],
       cc_acknowledge = False, cc_public = Some \<lparr>pub_enabled = True, pub_actions = [CA_review], pub_cooldown_minutes = 10\<rparr>\<rparr>,
     ad_bot = ''evaos[bot]'', ad_repo = ''acme/api'', ad_pull = 7, ad_head = ''h'', ad_comments = [], ad_now = 5000000\<rparr>"

theorem public_admission_sound_witness:
  "admitPublicCommands demo_admission [demo_commands ! 0, demo_commands ! 0] empty_db =
     (Inr [demo_commands ! 0], snd (admitPublicCommands demo_admission [demo_commands ! 0, demo_commands ! 0] empty_db)) \<and>
   distinct (map (\<lambda>c. (rc_author c, rc_action c)) [demo_commands ! 0])"
proof -
  let ?d = "snd (admitPublicCommands demo_admission [demo_commands ! 0, demo_commands ! 0] empty_db)"
  have "fst (admitPublicCommands demo_admission [demo_commands ! 0, demo_commands ! 0] empty_db) = Inr [demo_commands ! 0]" by code_simp
  then have eq: "admitPublicCommands demo_admission [demo_commands ! 0, demo_commands ! 0] empty_db = (Inr [demo_commands ! 0], ?d)"
    by (metis prod.collapse)
  have "cc_public (ad_config demo_admission) = Some \<lparr>pub_enabled = True, pub_actions = [CA_review], pub_cooldown_minutes = 10\<rparr>"
    by (simp add: demo_admission_def)
  from public_admission_sound[OF this _ eq] show ?thesis using eq by simp
qed

end
