(* ===== verification/Receipts.thy ===== *)
theory Receipts
  imports Findings
begin

text \<open>
  The receipts of the severe-finding verifier (\<open>src/severe-verification-receipt-schema.ts\<close> and
  \<open>src/severe-verification-receipt-canonical.ts\<close>): their data, the schema they are validated against with the
  rules of each state, and the canonical order of their evidence.
\<close>

section \<open>Data\<close>

datatype receipt_state = RS_confirmed | RS_refuted | RS_failed | RS_malformed | RS_timeout | RS_unavailable
  | RS_stale_head | RS_incomplete

datatype receipt_code = RC_not_read | RC_refuted | RC_malformed | RC_timeout | RC_unavailable | RC_stale_head
  | RC_incomplete | RC_schema_invalid | RC_identity_mismatch | RC_evidence_incomplete | RC_provider_unavailable
  | RC_cap_exceeded | RC_receipt_invalid

datatype disposition = Retain | Suppress

datatype evidence_kind = Whole_file | Module

record evidence_file =
  ef_path :: string
  ef_kind :: evidence_kind
  ef_sha256 :: string
  ef_bytes :: int
  ef_complete :: bool

record evidence_hunk =
  eh_sha256 :: string
  eh_bytes :: int
  eh_complete :: bool

record evidence_omission =
  eo_path :: string
  eo_code :: receipt_code

record evidence =
  vi_hunk :: "evidence_hunk option"
  vi_files :: "evidence_file list"
  vi_omitted :: "evidence_omission list"
  vi_complete :: bool

record receipt =
  rv_repo :: string
  rv_pull :: int
  rv_base :: string
  rv_head :: string
  rv_fingerprint :: string
  rv_state :: receipt_state
  rv_disposition :: disposition
  rv_confidence :: "rat option"
  rv_reason :: "receipt_code option"
  rv_evidence :: evidence

section \<open>The schema\<close>

record state_rule =
  sr_disposition :: disposition
  sr_complete :: bool
  sr_reasons :: "receipt_code list option"

fun STATE_RULES :: "receipt_state \<Rightarrow> state_rule" where
  "STATE_RULES RS_confirmed = \<lparr>sr_disposition = Retain, sr_complete = True, sr_reasons = None\<rparr>"
| "STATE_RULES RS_refuted = \<lparr>sr_disposition = Suppress, sr_complete = True, sr_reasons = Some [RC_refuted]\<rparr>"
| "STATE_RULES RS_failed = \<lparr>sr_disposition = Suppress, sr_complete = False, sr_reasons = Some [RC_provider_unavailable, RC_receipt_invalid]\<rparr>"
| "STATE_RULES RS_malformed = \<lparr>sr_disposition = Suppress, sr_complete = False,
     sr_reasons = Some [RC_malformed, RC_schema_invalid, RC_receipt_invalid]\<rparr>"
| "STATE_RULES RS_timeout = \<lparr>sr_disposition = Suppress, sr_complete = False, sr_reasons = Some [RC_timeout]\<rparr>"
| "STATE_RULES RS_unavailable = \<lparr>sr_disposition = Suppress, sr_complete = False, sr_reasons = Some [RC_unavailable, RC_provider_unavailable]\<rparr>"
| "STATE_RULES RS_stale_head = \<lparr>sr_disposition = Suppress, sr_complete = False, sr_reasons = Some [RC_stale_head, RC_identity_mismatch]\<rparr>"
| "STATE_RULES RS_incomplete = \<lparr>sr_disposition = Suppress, sr_complete = False,
     sr_reasons = Some [RC_incomplete, RC_not_read, RC_evidence_incomplete, RC_cap_exceeded]\<rparr>"

text \<open>The pattern of owners: alphanumeric at both ends, single dashes inside, at most 39 characters.\<close>

definition is_owner :: "string \<Rightarrow> bool" where
  "is_owner s \<longleftrightarrow> s \<noteq> [] \<and> length s \<le> 39 \<and> is_alnum (hd s) \<and> is_alnum (last s) \<and>
     list_all (\<lambda>c. is_alnum c \<or> c = CHR ''-'') s \<and> \<not> str_includes ''--'' s"

definition receipt_repo :: "string \<Rightarrow> bool" where
  "receipt_repo repo = (3 \<le> length repo \<and> length repo \<le> 140 \<and>
     (case split_on (CHR ''/'') repo of
        [owner, name] \<Rightarrow> is_owner owner \<and> name \<noteq> [] \<and> length name \<le> 100 \<and> list_all is_slug_char name
      | _ \<Rightarrow> False))"

definition is_head40 :: "string \<Rightarrow> bool" where
  "is_head40 s \<longleftrightarrow> length s = 40 \<and> list_all is_lower_hex s"

text \<open>\<open>SAFE_PATH\<close>: relative, no drive letter, no empty, dot or dot-dot part, no backslash or control character.\<close>

definition safe_path :: "string \<Rightarrow> bool" where
  "safe_path p \<longleftrightarrow> p \<noteq> [] \<and> length p \<le> 4096 \<and>
     \<not> (2 \<le> length p \<and> ((65 \<le> char_code (hd p) \<and> char_code (hd p) \<le> 90) \<or> (97 \<le> char_code (hd p) \<and> char_code (hd p) \<le> 122))
          \<and> p ! 1 = CHR '':'') \<and>
     list_all (\<lambda>c. char_code c \<noteq> 92 \<and> 32 \<le> char_code c \<and> \<not> (127 \<le> char_code c \<and> char_code c \<le> 159)) p \<and>
     list_all (\<lambda>w. w \<noteq> [] \<and> w \<noteq> ''.'' \<and> w \<noteq> ''..'') (split_on (CHR ''/'') p)"

definition valid_hunk :: "evidence_hunk \<Rightarrow> bool" where
  "valid_hunk k \<longleftrightarrow> is_sha256 (eh_sha256 k) \<and> 1 \<le> eh_bytes k \<and> eh_bytes k \<le> 65536"

definition valid_file :: "evidence_file \<Rightarrow> bool" where
  "valid_file f \<longleftrightarrow> safe_path (ef_path f) \<and> is_sha256 (ef_sha256 f) \<and> 0 \<le> ef_bytes f \<and> ef_bytes f \<le> 65536"

text \<open>The keyword \<open>noEvidencePathOverlap\<close>: whole files are not listed twice, nor omitted, nor is a path omitted twice.\<close>

definition no_path_overlap :: "evidence \<Rightarrow> bool" where
  "no_path_overlap v \<longleftrightarrow>
     (let whole = map ef_path (filter (\<lambda>f. ef_kind f = Whole_file) (vi_files v)); omitted = map eo_path (vi_omitted v)
      in distinct whole \<and> distinct omitted \<and> set whole \<inter> set omitted = {})"

definition valid_evidence :: "evidence \<Rightarrow> bool" where
  "valid_evidence v \<longleftrightarrow>
     (case vi_hunk v of None \<Rightarrow> True | Some k \<Rightarrow> valid_hunk k) \<and>
     length (vi_files v) \<le> 64 \<and> distinct (vi_files v) \<and> list_all valid_file (vi_files v) \<and>
     length (vi_omitted v) \<le> 64 \<and> list_all (\<lambda>x. safe_path (eo_path x)) (vi_omitted v) \<and>
     no_path_overlap v \<and> (vi_files v \<noteq> [] \<or> vi_omitted v \<noteq> []) \<and>
     (vi_complete v \<longrightarrow> (case vi_hunk v of None \<Rightarrow> True | Some k \<Rightarrow> eh_complete k) \<and>
        vi_files v \<noteq> [] \<and> list_all ef_complete (vi_files v) \<and> vi_omitted v = [])"

definition valid_state :: "receipt \<Rightarrow> bool" where
  "valid_state r \<longleftrightarrow> (let rule = STATE_RULES (rv_state r) in
     rv_disposition r = sr_disposition rule \<and> vi_complete (rv_evidence r) = sr_complete rule \<and>
     (case sr_reasons rule of
        None \<Rightarrow> rv_reason r = None
      | Some cs \<Rightarrow> (case rv_reason r of None \<Rightarrow> False | Some c \<Rightarrow> c \<in> set cs)))"

definition finding_id :: "string \<Rightarrow> bool" where
  "finding_id s \<longleftrightarrow> starts_with ''finding:'' s \<and> is_sha256 (drop 8 s)"

definition valid_receipt :: "receipt \<Rightarrow> bool" where
  "valid_receipt r \<longleftrightarrow> receipt_repo (rv_repo r) \<and> 1 \<le> rv_pull r \<and> rv_pull r < 2 ^ 53 \<and>
     is_head40 (rv_base r) \<and> is_head40 (rv_head r) \<and> finding_id (rv_fingerprint r) \<and>
     (case rv_confidence r of None \<Rightarrow> True | Some q \<Rightarrow> 0 \<le> q \<and> q \<le> 1) \<and>
     valid_evidence (rv_evidence r) \<and> valid_state r"

section \<open>Canonical order\<close>

fun compareText :: "string \<Rightarrow> string \<Rightarrow> int" where
  "compareText (a # s) (b # t) =
     (if a \<noteq> b then (if char_code a < char_code b then - 1 else 1) else compareText s t)"
| "compareText s t = int (length s) - int (length t)"

fun kind_name :: "evidence_kind \<Rightarrow> string" where
  "kind_name Whole_file = ''whole_file''"
| "kind_name Module = ''module''"

fun code_name :: "receipt_code \<Rightarrow> string" where
  "code_name RC_not_read = ''not_read''"
| "code_name RC_refuted = ''refuted''"
| "code_name RC_malformed = ''malformed''"
| "code_name RC_timeout = ''timeout''"
| "code_name RC_unavailable = ''unavailable''"
| "code_name RC_stale_head = ''stale_head''"
| "code_name RC_incomplete = ''incomplete''"
| "code_name RC_schema_invalid = ''schema_invalid''"
| "code_name RC_identity_mismatch = ''identity_mismatch''"
| "code_name RC_evidence_incomplete = ''evidence_incomplete''"
| "code_name RC_provider_unavailable = ''provider_unavailable''"
| "code_name RC_cap_exceeded = ''cap_exceeded''"
| "code_name RC_receipt_invalid = ''receipt_invalid''"

text \<open>\<open>x || y\<close> on numbers: the next comparison decides when this one is zero.\<close>

definition or_else :: "int \<Rightarrow> int \<Rightarrow> int" where
  "or_else x y = (if x = 0 then y else x)"

definition compareFiles :: "evidence_file \<Rightarrow> evidence_file \<Rightarrow> int" where
  "compareFiles a b =
     or_else (compareText (ef_path a) (ef_path b))
     (or_else (compareText (kind_name (ef_kind a)) (kind_name (ef_kind b)))
     (or_else (compareText (ef_sha256 a) (ef_sha256 b))
     (or_else (ef_bytes a - ef_bytes b) (of_bool (ef_complete a) - of_bool (ef_complete b)))))"

definition compareOmissions :: "evidence_omission \<Rightarrow> evidence_omission \<Rightarrow> int" where
  "compareOmissions a b =
     or_else (compareText (eo_path a) (eo_path b)) (compareText (code_name (eo_code a)) (code_name (eo_code b)))"

definition canonical_receipt :: "receipt \<Rightarrow> receipt" where
  "canonical_receipt r = (let v = rv_evidence r in
     r\<lparr>rv_evidence := v\<lparr>vi_files := js_sort compareFiles (vi_files v), vi_omitted := js_sort compareOmissions (vi_omitted v)\<rparr>\<rparr>)"

section \<open>The canonical order is total\<close>

text \<open>The comparators whose results are opposite in the two directions.\<close>

definition comparison :: "('a \<Rightarrow> 'a \<Rightarrow> int) \<Rightarrow> bool" where
  "comparison f \<longleftrightarrow> (\<forall>x y. f y x < 0 \<longleftrightarrow> 0 < f x y) \<and> (\<forall>x y z. f x y \<le> 0 \<longrightarrow> f y z \<le> 0 \<longrightarrow> f x z \<le> 0)"

lemma comparisonD:
  assumes "comparison f"
  shows "f y x < 0 \<longleftrightarrow> 0 < f x y" "f x y \<le> 0 \<Longrightarrow> f y z \<le> 0 \<Longrightarrow> f x z \<le> 0"
  using assms unfolding comparison_def by blast+

lemma comparison_zero: "comparison f \<Longrightarrow> f y x = 0 \<longleftrightarrow> f x y = 0"
  using comparisonD(1)[of f x y] comparisonD(1)[of f y x] by linarith

lemma comparison_less:
  assumes "comparison f"
  shows "f x y < 0 \<Longrightarrow> f y z \<le> 0 \<Longrightarrow> f x z < 0" "f x y \<le> 0 \<Longrightarrow> f y z < 0 \<Longrightarrow> f x z < 0"
  using comparisonD(2)[OF assms, of y z x] comparisonD(1)[OF assms, of z x] comparisonD(1)[OF assms, of y x]
    comparisonD(2)[OF assms, of z x y] comparisonD(1)[OF assms, of z y] comparisonD(1)[OF assms, of x z]
    comparisonD(1)[OF assms, of x y] comparisonD(1)[OF assms, of y z] by (force simp: not_less)+

lemma comparison_comparator: "comparison f \<Longrightarrow> comparator f"
proof
  fix x y z
  assume f: "comparison f"
  show "f x y \<le> 0 \<or> f y x \<le> 0" using comparisonD(1)[OF f, of y x] by linarith
  show "f x y \<le> 0 \<Longrightarrow> f y z \<le> 0 \<Longrightarrow> f x z \<le> 0" by (rule comparisonD(2)[OF f])
qed

lemma comparison_map: "comparison f \<Longrightarrow> comparison (\<lambda>a b. f (k a) (k b))"
  unfolding comparison_def by blast

lemma comparison_diff: "comparison (\<lambda>a b. (k a :: int) - k b)"
  by (simp add: comparison_def)

lemma comparison_or_else:
  assumes "comparison f" "comparison g"
  shows "comparison (\<lambda>x y. or_else (f x y) (g x y))"
  unfolding comparison_def
proof (intro conjI allI impI)
  fix x y z
  show "or_else (f y x) (g y x) < 0 \<longleftrightarrow> 0 < or_else (f x y) (g x y)"
    using comparisonD(1)[OF assms(1), of y x] comparisonD(1)[OF assms(2), of y x] comparison_zero[OF assms(1), of y x]
    by (simp add: or_else_def)
  assume *: "or_else (f x y) (g x y) \<le> 0" "or_else (f y z) (g y z) \<le> 0"
  show "or_else (f x z) (g x z) \<le> 0"
  proof (cases "f x y = 0 \<and> f y z = 0")
    case True
    then have "f x z = 0"
      using comparisonD(2)[OF assms(1), of x y z] comparisonD(2)[OF assms(1), of z y x] comparison_zero[OF assms(1)] comparisonD(1)[OF assms(1), of x z]
      by (smt (verit))
    then show ?thesis using * True comparisonD(2)[OF assms(2), of x y z] by (simp add: or_else_def)
  next
    case False
    then have "f x z < 0"
      using * comparison_less[OF assms(1), of x y z] by (auto simp: or_else_def split: if_splits)
    then show ?thesis by (simp add: or_else_def)
  qed
qed

lemma or_else_zero [simp]: "or_else x y = 0 \<longleftrightarrow> x = 0 \<and> y = 0"
  by (simp add: or_else_def)

lemma compareText_zero [simp]: "compareText s t = 0 \<longleftrightarrow> s = t"
  by (induction s t rule: compareText.induct) auto

lemma compareText_comparison: "comparison compareText"
  unfolding comparison_def
proof (intro conjI allI impI)
  show "compareText t s < 0 \<longleftrightarrow> 0 < compareText s t" for s t
  proof (induction s t rule: compareText.induct)
    case (1 a s b t)
    then show ?case using char_code_inj[of a b] by (cases "a = b") auto
  qed simp_all
  show "compareText x y \<le> 0 \<Longrightarrow> compareText y z \<le> 0 \<Longrightarrow> compareText x z \<le> 0" for x y z
  proof (induction x y arbitrary: z rule: compareText.induct)
    case (1 a s b t)
    then show ?case by (cases z) (auto split: if_splits dest: char_code_inj)
  qed (cases z; auto split: list.splits)+
qed

lemma names_eq [simp]: "kind_name k = kind_name l \<longleftrightarrow> k = l" "code_name c = code_name d \<longleftrightarrow> c = d"
  by (cases k; cases l; simp) (cases c; cases d; simp)

lemma compareFiles_comparison: "comparison compareFiles"
  unfolding compareFiles_def[abs_def]
  by (intro comparison_or_else comparison_map[OF compareText_comparison] comparison_map[OF compareText_comparison, of "\<lambda>a. kind_name (ef_kind a)"]
      comparison_diff)

lemma compareOmissions_comparison: "comparison compareOmissions"
  unfolding compareOmissions_def[abs_def]
  by (intro comparison_or_else comparison_map[OF compareText_comparison] comparison_map[OF compareText_comparison, of "\<lambda>a. code_name (eo_code a)"])

lemma compare_zero [simp]: "compareFiles a b = 0 \<longleftrightarrow> a = b" "compareOmissions x y = 0 \<longleftrightarrow> x = y"
  by (auto simp: compareFiles_def compareOmissions_def of_bool_def split: if_splits)

interpretation file_order: comparator compareFiles
  by (rule comparison_comparator[OF compareFiles_comparison])

interpretation omission_order: comparator compareOmissions
  by (rule comparison_comparator[OF compareOmissions_comparison])

lemma sorted_unique:
  assumes "sorted_wrt R xs" "sorted_wrt R ys" "mset xs = mset ys" "\<And>x y. R x y \<Longrightarrow> R y x \<Longrightarrow> x = y"
  shows "xs = ys"
  using assms(1-3)
proof (induction xs arbitrary: ys)
  case (Cons x xs)
  then obtain y zs where y: "ys = y # zs" by (cases ys) auto
  have "x \<in> set ys" "y \<in> set (x # xs)" using Cons.prems(3) y by (metis list.set_intros(1) set_mset_mset)+
  then have "x = y" using Cons.prems(1,2) y assms(4)[of x y] by auto
  then show ?case using Cons y by simp
qed simp

lemma js_sort_unique:
  assumes "comparison f" "\<And>x y. f x y = 0 \<Longrightarrow> x = y"
  shows "js_sort f xs = js_sort f ys \<longleftrightarrow> mset xs = mset ys"
proof
  assume m: "mset xs = mset ys"
  have "x = y" if "f x y \<le> 0" "f y x \<le> 0" for x y
    using that comparisonD(1)[OF assms(1), of x y] assms(2)[of x y] by linarith
  then show "js_sort f xs = js_sort f ys"
    using comparator.sorted_js_sort[OF comparison_comparator[OF assms(1)]] m
    by (intro sorted_unique[where R = "\<lambda>x y. f x y \<le> 0"]) auto
qed (metis mset_js_sort)

lemma canonical_lists [simp]:
  "js_sort compareFiles xs = js_sort compareFiles ys \<longleftrightarrow> mset xs = mset ys"
  "js_sort compareOmissions us = js_sort compareOmissions vs \<longleftrightarrow> mset us = mset vs"
  by (rule js_sort_unique; simp add: compareFiles_comparison compareOmissions_comparison)+

lemma sorted_evidence_valid:
  "valid_evidence (v\<lparr>vi_files := js_sort compareFiles (vi_files v), vi_omitted := js_sort compareOmissions (vi_omitted v)\<rparr>) = valid_evidence v"
proof -
  have nil: "js_sort f xs = [] \<longleftrightarrow> xs = []" for f :: "'a \<Rightarrow> 'a \<Rightarrow> int" and xs by (metis length_0_conv length_js_sort)
  have d: "distinct (map k (filter P (js_sort f xs))) = distinct (map k (filter P xs))"
    for f :: "'a \<Rightarrow> 'a \<Rightarrow> int" and k :: "'a \<Rightarrow> 'b" and P xs
    by (metis mset_js_sort mset_filter mset_map mset_eq_imp_distinct_iff)
  have i: "distinct (js_sort f xs) = distinct xs" for f :: "'a \<Rightarrow> 'a \<Rightarrow> int" and xs
    using distinct_map_js_sort[of id f xs] by simp
  have e: "set (map k (filter P (js_sort f xs))) = set (map k (filter P xs))"
    for f :: "'a \<Rightarrow> 'a \<Rightarrow> int" and k :: "'a \<Rightarrow> 'b" and P xs by simp
  show ?thesis
    by (simp add: valid_evidence_def no_path_overlap_def Let_def nil d i list_all_iff)
qed

text \<open>the canonical form of a receipt forgets exactly the order of its evidence: two receipts have one
  canonical form iff they agree in everything but the order of their files and omissions; the form keeps validity,
  and taking it twice changes nothing.\<close>

theorem canonical_receipt_unique:
  "(canonical_receipt r = canonical_receipt s \<longleftrightarrow>
      r\<lparr>rv_evidence := rv_evidence s\<rparr> = s \<and> vi_hunk (rv_evidence r) = vi_hunk (rv_evidence s) \<and>
      vi_complete (rv_evidence r) = vi_complete (rv_evidence s) \<and>
      mset (vi_files (rv_evidence r)) = mset (vi_files (rv_evidence s)) \<and>
      mset (vi_omitted (rv_evidence r)) = mset (vi_omitted (rv_evidence s))) \<and>
   canonical_receipt (canonical_receipt r) = canonical_receipt r \<and>
   valid_receipt (canonical_receipt r) = valid_receipt r"
proof (intro conjI)
  show "canonical_receipt r = canonical_receipt s \<longleftrightarrow>
      r\<lparr>rv_evidence := rv_evidence s\<rparr> = s \<and> vi_hunk (rv_evidence r) = vi_hunk (rv_evidence s) \<and>
      vi_complete (rv_evidence r) = vi_complete (rv_evidence s) \<and>
      mset (vi_files (rv_evidence r)) = mset (vi_files (rv_evidence s)) \<and>
      mset (vi_omitted (rv_evidence r)) = mset (vi_omitted (rv_evidence s))"
    by (cases r; cases s; cases "rv_evidence r"; cases "rv_evidence s")
      (auto simp: canonical_receipt_def Let_def)
  show "canonical_receipt (canonical_receipt r) = canonical_receipt r"
    by (simp add: canonical_receipt_def Let_def)
  show "valid_receipt (canonical_receipt r) = valid_receipt r"
    by (cases r) (simp add: canonical_receipt_def valid_receipt_def valid_state_def Let_def sorted_evidence_valid split: option.split)
qed

text \<open>of the receipts that pass the schema, only a confirmed one may keep its finding, and then it is complete:
  its hunk, when it has one, and at least one file are complete and nothing is omitted; every other state carries
  one of its own reasons, and every state but confirmed and refuted leaves the evidence incomplete.\<close>

theorem receipt_states_sound:
  assumes "valid_receipt r"
  shows "(rv_disposition r = Retain \<longleftrightarrow> rv_state r = RS_confirmed) \<and>
    (rv_reason r = None \<longleftrightarrow> rv_state r = RS_confirmed) \<and>
    (vi_complete (rv_evidence r) \<longleftrightarrow> rv_state r = RS_confirmed \<or> rv_state r = RS_refuted) \<and>
    (vi_complete (rv_evidence r) \<longrightarrow> vi_files (rv_evidence r) \<noteq> [] \<and> list_all ef_complete (vi_files (rv_evidence r)) \<and>
      vi_omitted (rv_evidence r) = [] \<and> (case vi_hunk (rv_evidence r) of None \<Rightarrow> True | Some k \<Rightarrow> eh_complete k))"
  using assms
  by (cases "rv_state r") (auto simp: valid_receipt_def valid_state_def valid_evidence_def Let_def split: option.splits)

section \<open>Example\<close>

definition ex_hash :: string where
  "ex_hash = replicate 64 (CHR ''b'')"

definition ex_head40 :: string where
  "ex_head40 = replicate 40 (CHR ''a'')"

definition ex_receipt :: receipt where
  "ex_receipt = \<lparr>rv_repo = ''o/r'', rv_pull = 7, rv_base = ex_head40, rv_head = ex_head40, rv_fingerprint = ''finding:'' @ ex_hash,
     rv_state = RS_confirmed, rv_disposition = Retain, rv_confidence = Some (4 / 5), rv_reason = None,
     rv_evidence = \<lparr>vi_hunk = Some \<lparr>eh_sha256 = ex_hash, eh_bytes = 10, eh_complete = True\<rparr>,
       vi_files = [\<lparr>ef_path = ''q.sql'', ef_kind = Whole_file, ef_sha256 = ex_hash, ef_bytes = 20, ef_complete = True\<rparr>],
       vi_omitted = [], vi_complete = True\<rparr>\<rparr>"

lemma ex_receipt_valid: "valid_receipt ex_receipt"
proof -
  have hex: "is_lower_hex (CHR ''a'')" "is_lower_hex (CHR ''b'')" by code_simp+
  have h: "is_sha256 ex_hash" "is_head40 ex_head40"
    using hex by (simp_all add: is_sha256_def ex_hash_def is_head40_def ex_head40_def list_all_iff)
  have p: "safe_path ''q.sql''" "receipt_repo ''o/r''" by code_simp+
  have f: "finding_id (''finding:'' @ ex_hash)" using h by (simp add: finding_id_def)
  show ?thesis
    using h p f
    by (simp add: ex_receipt_def valid_receipt_def valid_evidence_def valid_hunk_def valid_file_def no_path_overlap_def valid_state_def)
qed

theorem receipt_states_sound_witness:
  "rv_disposition ex_receipt = Retain \<and> vi_omitted (rv_evidence ex_receipt) = []"
  using receipt_states_sound[OF ex_receipt_valid] by (simp add: ex_receipt_def)

end
