(* ===== verification/SelfConsistency.thy ===== *)
theory SelfConsistency
  imports Receipts ReviewGate
begin

text \<open>
  The second look at severe findings (\<open>src/self-consistency.ts\<close>): every severe comment is drawn again, a bounded
  number of times, and only a complete confirmed receipt for this very finding and head keeps it severe. The
  injected runner and the parsing of its receipt are parameters.
\<close>

section \<open>Data\<close>

datatype unsupported_policy = Suppress_unsupported | Demote_unsupported

record recheck_config =
  rk_enabled :: bool
  rk_severities :: "severity list option"
  rk_provider :: "string option"
  rk_max :: "nat option"
  rk_unsupported :: "unsupported_policy option"

record review_context =
  rx_repo :: string
  rx_pull :: int
  rx_base :: string
  rx_head :: string

datatype verdict_action = Retained | Suppressed | Demoted

record verdict =
  vd_action :: verdict_action
  vd_demotion_skipped :: bool
  vd_path :: string
  vd_line :: int
  vd_severity :: severity
  vd_title :: string
  vd_original :: rat
  vd_second :: "rat option"
  vd_agreed :: "bool option"
  vd_refuted :: "bool option"
  vd_receipt :: "receipt option"
  vd_error :: "string option"

definition DEFAULT_SEVERITIES :: "severity list" where
  "DEFAULT_SEVERITIES = [P0, P1]"

definition DEFAULT_MAX_FINDINGS :: nat where
  "DEFAULT_MAX_FINDINGS = 5"

section \<open>One comment\<close>

definition extractHunk :: "review_comment \<Rightarrow> file_patch list \<Rightarrow> string" where
  "extractHunk c files = (case find (\<lambda>f. fp_filename f = c_path c) files of None \<Rightarrow> [] | Some f \<Rightarrow> or_default (fp_patch f) [])"

definition hasCompleteEvidence :: "receipt \<Rightarrow> string \<Rightarrow> bool" where
  "hasCompleteEvidence r path \<longleftrightarrow> (let v = rv_evidence r in
     vi_complete v \<and> (case vi_hunk v of None \<Rightarrow> False | Some k \<Rightarrow> eh_complete k) \<and> vi_omitted v = [] \<and> vi_files v \<noteq> [] \<and>
     list_all ef_complete (vi_files v) \<and> list_ex (\<lambda>f. ef_kind f = Whole_file \<and> ef_path f = path) (vi_files v))"

definition retainsSevereFinding :: "receipt \<Rightarrow> review_comment \<Rightarrow> review_context option \<Rightarrow> bool" where
  "retainsSevereFinding r c ctx = (case ctx of None \<Rightarrow> False
     | Some x \<Rightarrow> rv_state r = RS_confirmed \<and> rv_disposition r = Retain \<and> rv_repo r = rx_repo x \<and> rv_pull r = rx_pull x \<and>
         rv_base r = rx_base x \<and> rv_head r = rx_head x \<and> rv_fingerprint r = c_fingerprint c \<and> hasCompleteEvidence r (c_path c))"

definition base_verdict :: "review_comment \<Rightarrow> verdict" where
  "base_verdict c = \<lparr>vd_action = Suppressed, vd_demotion_skipped = False, vd_path = c_path c, vd_line = c_line c,
     vd_severity = c_severity c, vd_title = c_title c, vd_original = c_confidence c, vd_second = None, vd_agreed = None,
     vd_refuted = None, vd_receipt = None, vd_error = None\<rparr>"

text \<open>The comment, if any, and the verdict of an unsupported one.\<close>

definition handleUnsupported :: "unsupported_policy option \<Rightarrow> review_comment \<Rightarrow> verdict \<Rightarrow> review_comment option \<times> verdict" where
  "handleUnsupported policy c v =
     (if policy = Some Demote_unsupported
      then (case demoteReviewComment c SEVERITY_DEMOTION_NOTE of
          Some d \<Rightarrow> (Some d, v\<lparr>vd_action := Demoted\<rparr>)
        | None \<Rightarrow> (None, v\<lparr>vd_action := Suppressed, vd_demotion_skipped := True\<rparr>))
      else (None, v))"

text \<open>The runner: the \<open>n\<close>-th draw, for a comment and its hunk; nothing when it throws.\<close>

type_synonym 'v draw = "nat \<Rightarrow> review_comment \<Rightarrow> string \<Rightarrow> 'v option"

record 'v recheck =
  sk_config :: recheck_config
  sk_files :: "file_patch list"
  sk_context :: "review_context option"
  sk_draw :: "'v draw"
  sk_parse :: "'v \<Rightarrow> receipt option"

definition judge_draw :: "'v recheck \<Rightarrow> nat \<Rightarrow> review_comment \<Rightarrow> review_comment option \<times> verdict" where
  "judge_draw k n c =
     (let base = base_verdict c; unsupported = handleUnsupported (rk_unsupported (sk_config k)) c in
      case sk_draw k n c (extractHunk c (sk_files k)) of
        None \<Rightarrow> unsupported (base\<lparr>vd_error := Some ''severe_verifier_unavailable'', vd_refuted := Some True\<rparr>)
      | Some d \<Rightarrow>
          (case sk_parse k d of
             None \<Rightarrow> unsupported (base\<lparr>vd_error := Some ''severe_verifier_receipt_invalid'', vd_refuted := Some True\<rparr>)
           | Some r \<Rightarrow>
               if retainsSevereFinding r c (sk_context k)
               then (Some c, base\<lparr>vd_action := Retained, vd_second := rv_confidence r, vd_agreed := Some True,
                  vd_refuted := Some False, vd_receipt := Some r\<rparr>)
               else unsupported (base\<lparr>vd_second := rv_confidence r, vd_agreed := Some False, vd_refuted := Some True,
                  vd_receipt := Some r\<rparr>)))"

section \<open>The pass over all comments\<close>

definition severe_set :: "recheck_config \<Rightarrow> severity set" where
  "severe_set c = set (or_default (rk_severities c) DEFAULT_SEVERITIES)"

fun recheck_loop :: "'v recheck \<Rightarrow> nat \<Rightarrow> review_comment list \<Rightarrow> review_comment list \<times> verdict list" where
  "recheck_loop k n [] = ([], [])"
| "recheck_loop k n (c # cs) =
     (if c_severity c \<notin> severe_set (sk_config k)
      then (let (out, vs) = recheck_loop k n cs in (c # out, vs))
      else (let capped = or_default (rk_max (sk_config k)) DEFAULT_MAX_FINDINGS \<le> n;
                (kept, v) = (if capped
                  then handleUnsupported (rk_unsupported (sk_config k)) c
                    ((base_verdict c)\<lparr>vd_error := Some ''severe_verifier_cap_exceeded'', vd_refuted := Some True\<rparr>)
                  else judge_draw k n c);
                (out, vs) = recheck_loop k (if capped then n else n + 1) cs
            in ((case kept of None \<Rightarrow> out | Some d \<Rightarrow> d # out), v # vs)))"

definition runSelfConsistencyRecheck ::
    "'v recheck \<Rightarrow> conf_floors option \<Rightarrow> category_floors option \<Rightarrow> review_comment list \<Rightarrow> review_comment list \<times> review_event \<times> verdict list" where
  "runSelfConsistencyRecheck k fl cf comments =
     (if \<not> rk_enabled (sk_config k) then (comments, decideReviewEvent fl cf comments, [])
      else (let (out, vs) = recheck_loop k 0 comments in (out, decideReviewEvent fl cf out, vs)))"

section \<open>What the pass keeps\<close>

lemma unsupported_cases:
  "handleUnsupported p c v = (kept, w) \<Longrightarrow> kept = None \<or> demoteReviewComment c SEVERITY_DEMOTION_NOTE = kept"
  by (auto simp: handleUnsupported_def split: if_splits option.splits)

lemma unsupported_verdict:
  "handleUnsupported p c v = (kept, w) \<Longrightarrow> vd_error w = vd_error v"
  by (auto simp: handleUnsupported_def split: if_splits option.splits)

lemma judge_cases:
  assumes "judge_draw k n c = (kept, w)"
  shows "kept = None \<or> demoteReviewComment c SEVERITY_DEMOTION_NOTE = kept \<or>
    (kept = Some c \<and> (\<exists>d r. sk_draw k n c (extractHunk c (sk_files k)) = Some d \<and> sk_parse k d = Some r \<and>
       retainsSevereFinding r c (sk_context k)))"
  using assms by (auto simp: judge_draw_def Let_def split: option.splits if_splits dest: unsupported_cases)

lemma judge_error: "judge_draw k n c = (kept, w) \<Longrightarrow> vd_error w \<noteq> Some ''severe_verifier_cap_exceeded''"
  by (auto simp: judge_draw_def Let_def base_verdict_def split: option.splits if_splits dest!: unsupported_verdict)

lemma demoted_severity: "demoteReviewComment c note = Some d \<Longrightarrow> c_severity d = P2"
  by (auto simp: demoteReviewComment_def Let_def split: if_splits)

lemma demoted_not_eligible: "demoteReviewComment c note = Some d \<Longrightarrow> \<not> comment_eligible fl cf d"
  by (simp add: comment_eligible_def eligible_iff demoted_severity less_eq_severity_def)

lemma requests_changes_iff: "decideReviewEvent fl cf cs = EV_REQUEST_CHANGES \<longleftrightarrow> (\<exists>c\<in>set cs. comment_eligible fl cf c)"
  by (auto simp: decideReviewEvent_def list_ex_iff)

definition draw_limit :: "'v recheck \<Rightarrow> nat" where
  "draw_limit k = or_default (rk_max (sk_config k)) DEFAULT_MAX_FINDINGS"

lemma recheck_loop_output:
  assumes "recheck_loop k n cs = (out, vs)" "d \<in> set out"
  shows "(d \<in> set cs \<and> c_severity d \<notin> severe_set (sk_config k)) \<or>
    (\<exists>c\<in>set cs. c_severity c \<in> severe_set (sk_config k) \<and> demoteReviewComment c SEVERITY_DEMOTION_NOTE = Some d) \<or>
    (d \<in> set cs \<and> (\<exists>m x r. n \<le> m \<and> m < draw_limit k \<and> sk_draw k m d (extractHunk d (sk_files k)) = Some x \<and> sk_parse k x = Some r \<and>
       retainsSevereFinding r d (sk_context k)))"
  using assms
proof (induction k n cs arbitrary: out vs rule: recheck_loop.induct)
  case (1 k n)
  then show ?case by simp
next
  case (2 k n c cs)
  show ?case
  proof (cases "c_severity c \<in> severe_set (sk_config k)")
    case False
    obtain out' vs' where r: "recheck_loop k n cs = (out', vs')" by fastforce
    then have "out = c # out'" using 2 False by simp
    then show ?thesis using 2(1)[OF _ r] 2(4) False by auto
  next
    case True
    let ?capped = "draw_limit k \<le> n"
    obtain kept w where kw: "(if ?capped then handleUnsupported (rk_unsupported (sk_config k)) c
          ((base_verdict c)\<lparr>vd_error := Some ''severe_verifier_cap_exceeded'', vd_refuted := Some True\<rparr>) else judge_draw k n c) = (kept, w)"
      by fastforce
    obtain out' vs' where r: "recheck_loop k (if ?capped then n else n + 1) cs = (out', vs')" by fastforce
    have out: "out = (case kept of None \<Rightarrow> out' | Some d \<Rightarrow> d # out')"
      using 2(3) True kw r by (auto simp: Let_def draw_limit_def split: option.splits if_splits prod.splits)
    consider "d \<in> set out'" | "kept = Some d" using out 2(4) by (auto split: option.splits)
    then show ?thesis
    proof cases
      case 1
      have "n \<le> (if ?capped then n else n + 1)" by simp
      then show ?thesis using 2(2)[of ?capped "(kept, w)" kept w, OF _ _ _ _ r 1] True kw 1
        by (auto simp: draw_limit_def) 
    next
      case kept: 2
      show ?thesis
      proof (cases ?capped)
        case True
        then show ?thesis using unsupported_cases kw kept \<open>c_severity c \<in> severe_set (sk_config k)\<close> by fastforce
      next
        case False
        then have "judge_draw k n c = (Some d, w)" using kw kept by simp
        from judge_cases[OF this] show ?thesis using False \<open>c_severity c \<in> severe_set (sk_config k)\<close> by fastforce
      qed
    qed
  qed
qed


lemma recheck_loop_step:
  assumes "c_severity c \<in> severe_set (sk_config k)" "recheck_loop k n (c # cs) = (out, vs)"
  obtains kept w out' vs' where "recheck_loop k (if draw_limit k \<le> n then n else n + 1) cs = (out', vs')"
    "out = (case kept of None \<Rightarrow> out' | Some d \<Rightarrow> d # out')" "vs = w # vs'"
    "vd_error w = Some ''severe_verifier_cap_exceeded'' \<longleftrightarrow> draw_limit k \<le> n"
proof -
  obtain kept w where kw: "(if draw_limit k \<le> n then handleUnsupported (rk_unsupported (sk_config k)) c
          ((base_verdict c)\<lparr>vd_error := Some ''severe_verifier_cap_exceeded'', vd_refuted := Some True\<rparr>) else judge_draw k n c) = (kept, w)"
    by fastforce
  obtain out' vs' where r: "recheck_loop k (if draw_limit k \<le> n then n else n + 1) cs = (out', vs')" by fastforce
  have "out = (case kept of None \<Rightarrow> out' | Some d \<Rightarrow> d # out')" "vs = w # vs'"
    using assms kw r by (auto simp: Let_def draw_limit_def split: option.splits if_splits prod.splits)
  moreover have "vd_error w = Some ''severe_verifier_cap_exceeded'' \<longleftrightarrow> draw_limit k \<le> n"
    using kw judge_error[of k n c kept w] by (auto split: if_splits dest!: unsupported_verdict)
  ultimately show ?thesis using that r by blast
qed

lemma recheck_loop_counts:
  assumes "recheck_loop k n cs = (out, vs)"
  shows "length vs = length (filter (\<lambda>c. c_severity c \<in> severe_set (sk_config k)) cs) \<and>
    length out \<le> length cs \<and> {c \<in> set cs. c_severity c \<notin> severe_set (sk_config k)} \<subseteq> set out \<and>
    length (filter (\<lambda>v. vd_error v \<noteq> Some ''severe_verifier_cap_exceeded'') vs) =
      min (length (filter (\<lambda>c. c_severity c \<in> severe_set (sk_config k)) cs)) (draw_limit k - n)"
  using assms
proof (induction cs arbitrary: n out vs)
  case (Cons c cs)
  show ?case
  proof (cases "c_severity c \<in> severe_set (sk_config k)")
    case False
    obtain out' vs' where r: "recheck_loop k n cs = (out', vs')" by fastforce
    then have "out = c # out'" "vs = vs'" using Cons.prems False by simp_all
    then show ?thesis using Cons.IH[OF r] False by auto
  next
    case True
    obtain kept w out' vs' where s: "recheck_loop k (if draw_limit k \<le> n then n else n + 1) cs = (out', vs')"
      "out = (case kept of None \<Rightarrow> out' | Some d \<Rightarrow> d # out')" "vs = w # vs'"
      "vd_error w = Some ''severe_verifier_cap_exceeded'' \<longleftrightarrow> draw_limit k \<le> n"
      by (rule recheck_loop_step[OF True Cons.prems])
    have len: "length out' \<le> length out" "length out \<le> Suc (length out')" "set out' \<subseteq> set out" using s(2) by (auto split: option.splits)
    note ih = Cons.IH[OF s(1)]
    show ?thesis
    proof (cases "draw_limit k \<le> n")
      case capped: True
      then have "filter (\<lambda>v. vd_error v \<noteq> Some ''severe_verifier_cap_exceeded'') vs = filter (\<lambda>v. vd_error v \<noteq> Some ''severe_verifier_cap_exceeded'') vs'"
        using s(3,4) by simp
      then show ?thesis using ih True s(3) len capped by auto
    next
      case draws: False
      then have "filter (\<lambda>v. vd_error v \<noteq> Some ''severe_verifier_cap_exceeded'') vs = w # filter (\<lambda>v. vd_error v \<noteq> Some ''severe_verifier_cap_exceeded'') vs'"
        using s(3,4) by simp
      then show ?thesis using ih True s(3) len draws by auto
    qed
  qed
qed simp

text \<open>the second look only quietens a review: every comment it keeps was there before, or is one of them
  lowered to P2; advisory comments all stay; if the kept comments request changes, so did the given ones; every
  severe comment gets one verdict, and no more draws are made than the configured maximum.\<close>

theorem recheck_only_quietens:
  "case runSelfConsistencyRecheck k fl cf cs of (out, ev, vs) \<Rightarrow>
    set out \<subseteq> set cs \<union> {d. \<exists>c\<in>set cs. demoteReviewComment c SEVERITY_DEMOTION_NOTE = Some d \<and> c_severity d = P2} \<and>
    (rk_enabled (sk_config k) \<longrightarrow> {c \<in> set cs. c_severity c \<notin> severe_set (sk_config k)} \<subseteq> set out) \<and>
    length out \<le> length cs \<and>
    (ev = EV_REQUEST_CHANGES \<longrightarrow> decideReviewEvent fl cf cs = EV_REQUEST_CHANGES) \<and>
    (rk_enabled (sk_config k) \<longrightarrow> length vs = length (filter (\<lambda>c. c_severity c \<in> severe_set (sk_config k)) cs)) \<and>
    length (filter (\<lambda>v. vd_error v \<noteq> Some ''severe_verifier_cap_exceeded'') vs) \<le> draw_limit k"
proof (cases "rk_enabled (sk_config k)")
  case False
  then show ?thesis by (simp add: runSelfConsistencyRecheck_def)
next
  case True
  obtain out vs where r: "recheck_loop k 0 cs = (out, vs)" by fastforce
  have src: "d \<in> set cs \<or> (\<exists>c\<in>set cs. demoteReviewComment c SEVERITY_DEMOTION_NOTE = Some d)" if "d \<in> set out" for d
    using recheck_loop_output[OF r that] by blast
  have ev: "decideReviewEvent fl cf cs = EV_REQUEST_CHANGES" if rc: "decideReviewEvent fl cf out = EV_REQUEST_CHANGES"
  proof -
    obtain d where d: "d \<in> set out" "comment_eligible fl cf d"
      using rc by (auto simp: requests_changes_iff)
    then have "d \<in> set cs" using src[OF d(1)] demoted_not_eligible by blast
    then show ?thesis using d(2) by (auto simp: requests_changes_iff)
  qed
  have adv: "{c \<in> set cs. c_severity c \<notin> severe_set (sk_config k)} \<subseteq> set out"
    using recheck_loop_counts[OF r] by blast
  show ?thesis
    using True src demoted_severity ev adv recheck_loop_counts[OF r]
    by (auto simp: runSelfConsistencyRecheck_def r)
qed

lemma kept_severe_receipt:
  assumes "rk_enabled (sk_config k)" "P2 \<notin> severe_set (sk_config k)"
    and "runSelfConsistencyRecheck k fl cf cs = (out, ev, vs)" "c \<in> set out" "c_severity c \<in> severe_set (sk_config k)"
  shows "c \<in> set cs \<and> (\<exists>m x r. m < draw_limit k \<and> sk_draw k m c (extractHunk c (sk_files k)) = Some x \<and> sk_parse k x = Some r \<and>
        retainsSevereFinding r c (sk_context k))"
proof -
  have r: "recheck_loop k 0 cs = (out, vs)" using assms(1,3) by (auto simp: runSelfConsistencyRecheck_def split: prod.splits)
  have "\<nexists>b. demoteReviewComment b SEVERITY_DEMOTION_NOTE = Some c" using demoted_severity assms(2,5) by fastforce
  with recheck_loop_output[OF r assms(4)] assms(5) show ?thesis by blast
qed

text \<open>with the recheck on, a comment stays severe only with a receipt: one of the draws, within the maximum,
  answered for this very comment with a receipt that parses, is confirmed for this repository, pull request, base,
  head and finding, and has read the whole file of the finding and its hunk with nothing left out; the same holds
  for the comment that makes the review request changes.\<close>

theorem severe_comment_needs_receipt:
  assumes "rk_enabled (sk_config k)" "{P0, P1} \<subseteq> severe_set (sk_config k)" "P2 \<notin> severe_set (sk_config k)"
    and "runSelfConsistencyRecheck k fl cf cs = (out, ev, vs)"
  shows "(\<forall>c\<in>set out. c_severity c \<in> severe_set (sk_config k) \<longrightarrow>
      c \<in> set cs \<and> (\<exists>m x r. m < draw_limit k \<and> sk_draw k m c (extractHunk c (sk_files k)) = Some x \<and> sk_parse k x = Some r \<and>
        retainsSevereFinding r c (sk_context k))) \<and>
    (ev = EV_REQUEST_CHANGES \<longrightarrow> (\<exists>c\<in>set out. c_severity c \<in> severe_set (sk_config k) \<and> comment_eligible fl cf c))"
proof (intro conjI ballI impI)
  have r: "ev = decideReviewEvent fl cf out"
    using assms(1,4) by (auto simp: runSelfConsistencyRecheck_def split: prod.splits)
  { fix c assume c: "c \<in> set out" "c_severity c \<in> severe_set (sk_config k)"
    note kept_severe_receipt[OF assms(1,3,4) c]
    then show "c \<in> set cs" "\<exists>m x r. m < draw_limit k \<and> sk_draw k m c (extractHunk c (sk_files k)) = Some x \<and> sk_parse k x = Some r \<and>
        retainsSevereFinding r c (sk_context k)" by blast+ }
  { assume "ev = EV_REQUEST_CHANGES"
    then obtain c where "c \<in> set out" "comment_eligible fl cf c"
      using r by (auto simp: requests_changes_iff)
    moreover from this have "c_severity c = P0 \<or> c_severity c = P1"
      by (cases "c_severity c") (simp_all add: comment_eligible_def eligible_iff less_eq_severity_def)
    ultimately show "\<exists>c\<in>set out. c_severity c \<in> severe_set (sk_config k) \<and> comment_eligible fl cf c" using assms(2) by blast }
qed

section \<open>Example\<close>

definition ex_severe :: review_comment where
  "ex_severe = ex_comment\<lparr>c_fingerprint := ''finding:'' @ ex_hash\<rparr>"

definition ex_recheck :: "receipt recheck" where
  "ex_recheck = \<lparr>sk_config = \<lparr>rk_enabled = True, rk_severities = None, rk_provider = None, rk_max = Some 1, rk_unsupported = None\<rparr>,
     sk_files = [], sk_context = Some \<lparr>rx_repo = ''o/r'', rx_pull = 7, rx_base = ex_head40, rx_head = ex_head40\<rparr>,
     sk_draw = (\<lambda>n c h. Some ex_receipt), sk_parse = Some\<rparr>"

lemma ex_retains: "retainsSevereFinding ex_receipt ex_severe (sk_context ex_recheck)"
  by (simp add: retainsSevereFinding_def ex_recheck_def ex_receipt_def ex_severe_def ex_comment_def hasCompleteEvidence_def)

theorem severe_comment_needs_receipt_witness:
  "runSelfConsistencyRecheck ex_recheck None None [ex_severe, ex_severe] =
     ([ex_severe], EV_REQUEST_CHANGES, snd (snd (runSelfConsistencyRecheck ex_recheck None None [ex_severe, ex_severe]))) \<and>
   (\<exists>m x r. m < draw_limit ex_recheck \<and> sk_draw ex_recheck m ex_severe [] = Some x \<and> sk_parse ex_recheck x = Some r \<and>
     retainsSevereFinding r ex_severe (sk_context ex_recheck))"
proof -
  have sev: "severe_set (sk_config ex_recheck) = {P0, P1}"
    by (simp add: severe_set_def ex_recheck_def DEFAULT_SEVERITIES_def)
  have sv: "c_severity ex_severe = P1" by (simp add: ex_severe_def ex_comment_def)
  have hunk: "extractHunk ex_severe (sk_files ex_recheck) = []" by (simp add: extractHunk_def ex_recheck_def)
  have "fst (judge_draw ex_recheck 0 ex_severe) = Some ex_severe"
    using ex_retains by (simp add: judge_draw_def ex_recheck_def)
  then obtain w where j: "judge_draw ex_recheck 0 ex_severe = (Some ex_severe, w)"
    by (metis prod.collapse)
  have lim: "rk_max (sk_config ex_recheck) = Some 1" "rk_unsupported (sk_config ex_recheck) = None" by (simp_all add: ex_recheck_def)
  have en: "rk_enabled (sk_config ex_recheck)" by (simp add: ex_recheck_def)
  have "fst (recheck_loop ex_recheck 0 [ex_severe, ex_severe]) = [ex_severe]"
    using sev sv by (simp add: j lim handleUnsupported_def)
  then obtain vs where l: "recheck_loop ex_recheck 0 [ex_severe, ex_severe] = ([ex_severe], vs)" by (metis prod.collapse)
  have "decideReviewEvent None None [ex_severe] = EV_REQUEST_CHANGES"
    by (simp add: decideReviewEvent_def comment_eligible_def eligible_iff ex_severe_def ex_comment_def category_eligible_def
        severity_floor_def less_eq_severity_def)
  then have run: "runSelfConsistencyRecheck ex_recheck None None [ex_severe, ex_severe] =
     ([ex_severe], EV_REQUEST_CHANGES, snd (snd (runSelfConsistencyRecheck ex_recheck None None [ex_severe, ex_severe])))"
    using en l by (simp add: runSelfConsistencyRecheck_def l del: recheck_loop.simps)
  have "\<exists>m x r. m < draw_limit ex_recheck \<and> sk_draw ex_recheck m ex_severe [] = Some x \<and> sk_parse ex_recheck x = Some r \<and>
     retainsSevereFinding r ex_severe (sk_context ex_recheck)"
    using severe_comment_needs_receipt[OF en _ _ run] sev sv hunk by simp
  with run show ?thesis by blast
qed

theorem recheck_only_quietens_witness:
  "length (snd (snd (runSelfConsistencyRecheck ex_recheck None None [ex_severe, ex_severe]))) = 2"
proof -
  have "severe_set (sk_config ex_recheck) = {P0, P1}"
    by (simp add: severe_set_def ex_recheck_def DEFAULT_SEVERITIES_def)
  moreover have "c_severity ex_severe = P1" "rk_enabled (sk_config ex_recheck)"
    by (simp_all add: ex_severe_def ex_comment_def ex_recheck_def)
  ultimately show ?thesis
    using recheck_only_quietens[where k = ex_recheck and fl = None and cf = None and cs = "[ex_severe, ex_severe]"] by (auto split: prod.splits)
qed

end
