(* ===== verification/Reconcile.thy ===== *)
theory Reconcile
  imports ReviewHeadGate ReviewerSessions
begin

text \<open>
  Settling the queue after a direct review (\<open>reconcileProcessedHeadAfterDirectReview\<close> of \<open>src/worker.ts\<close>): when the
  head's review is posted, its open queue jobs and session jobs are closed and its readiness repaired. Whether the
  status comment is posted is an answer of GitHub.
\<close>

definition DIRECT_REVIEW_RECONCILE_QUEUE_STATES :: "queue_state list" where
  "DIRECT_REVIEW_RECONCILE_QUEUE_STATES = [Q_queued, Q_leased, Q_running, Q_provider_deferred, Q_blocked_on_proof]"

definition DIRECT_REVIEW_RECONCILED_ERROR :: string where
  "DIRECT_REVIEW_RECONCILED_ERROR = ''direct_review_reconciled_processed_head=posted''"

definition DIRECT_REVIEW_RECONCILED_REASON :: string where
  "DIRECT_REVIEW_RECONCILED_REASON = ''direct_review_reconciled_processed_head''"

definition directReviewReconcileLastError :: "string option \<Rightarrow> string" where
  "directReviewReconcileLastError previous = (case truthy previous of
      None \<Rightarrow> DIRECT_REVIEW_RECONCILED_ERROR
    | Some p \<Rightarrow> if str_includes DIRECT_REVIEW_RECONCILED_ERROR p then p
        else DIRECT_REVIEW_RECONCILED_ERROR @ ''; previous_last_error='' @ p)"

definition directReviewReconcileReadinessReason :: "host \<Rightarrow> readiness_row option \<Rightarrow> string" where
  "directReviewReconcileReadinessReason h previous =
     (let reason = truthy (map_option trim (Option.bind previous rr_reason))
      in case reason of
           None \<Rightarrow> DIRECT_REVIEW_RECONCILED_REASON
         | Some p \<Rightarrow> if str_includes DIRECT_REVIEW_RECONCILED_REASON p then DIRECT_REVIEW_RECONCILED_REASON
             else DIRECT_REVIEW_RECONCILED_REASON @ ''; previous_reason='' @ take 200 (redact h p))"

definition shouldRepairDirectReviewReadiness :: "readiness_row option \<Rightarrow> bool" where
  "shouldRepairDirectReviewReadiness r = (case r of None \<Rightarrow> True
     | Some x \<Rightarrow> rr_state x = R_queued \<or> rr_state x = R_reviewing \<or> rr_state x = R_awaiting_re_review \<or> rr_state x = R_provider_deferred)"

definition readinessStateForDirectProcessedReview :: "review_event option \<Rightarrow> readiness_state" where
  "readinessStateForDirectProcessedReview e = (if e = Some EV_REQUEST_CHANGES then R_needs_fix else R_ready_for_human)"

record reconcile_input =
  rn_repo :: string
  rn_pull :: int
  rn_head :: string
  rn_dry_run :: bool
  rn_now :: int

definition direct_readiness :: "host \<Rightarrow> reconcile_input \<Rightarrow> processed_row \<Rightarrow> readiness_row option \<Rightarrow> int option \<Rightarrow> readiness_input" where
  "direct_readiness h i p existing comment = \<lparr>ri_repo = rn_repo i, ri_pull = rn_pull i, ri_head = rn_head i,
     ri_state = readinessStateForDirectProcessedReview (pr_event p), ri_reason = Some (directReviewReconcileReadinessReason h existing),
     ri_event = pr_event p, ri_review_url = truthy (pr_review_url p), ri_command_action = None, ri_command_comment_id = comment,
     ri_clear_command = False, ri_now = rn_now i\<rparr>"

definition recordDirectReviewReadinessIfRepairable :: "host \<Rightarrow> reconcile_input \<Rightarrow> processed_row \<Rightarrow> readiness_row option \<Rightarrow> db \<Rightarrow> unit outcome" where
  "recordDirectReviewReadinessIfRepairable h i p existing d =
     (if \<not> shouldRepairDirectReviewReadiness existing then (Inr (), d)
      else (case recordReviewReadiness h (direct_readiness h i p existing None) d of
          (Inl e, d') \<Rightarrow> (Inl e, d') | (Inr _, d') \<Rightarrow> (Inr (), d')))"

text \<open>The open jobs are closed one after another; a failing update stops the pass.\<close>

definition settle_job :: "host \<Rightarrow> reconcile_input \<Rightarrow> processed_row \<Rightarrow> queue_job \<Rightarrow> db \<Rightarrow> unit outcome" where
  "settle_job h i p j d =
     (case updateReviewQueueJobState h \<lparr>qu_job_id = q_job_id j, qu_state = Q_posted, qu_next_eligible_at = None, qu_lease_id = None,
          qu_lease_expires_at = None, qu_clear_lease = None, qu_session_id = None, qu_review_url = truthy (pr_review_url p),
          qu_last_error = Some (directReviewReconcileLastError (q_last_error j)), qu_now = rn_now i\<rparr> d of
        (Inl e, d1) \<Rightarrow> (Inl e, d1)
      | (Inr _, d1) \<Rightarrow>
          if truthy (q_session_id j) \<noteq> None \<and> getReviewerSessionJob (q_repo j) (q_pull j) (q_head j) d1 \<noteq> None
          then (case updateReviewerSessionJobState (q_repo j) (q_pull j) (q_head j) SJ_completed (Some P_posted) (rn_now i) d1 of
              (Inl e, d2) \<Rightarrow> (Inl e, d2) | (Inr _, d2) \<Rightarrow> (Inr (), d2))
          else (Inr (), d1))"

fun settle_jobs :: "host \<Rightarrow> reconcile_input \<Rightarrow> processed_row \<Rightarrow> queue_job list \<Rightarrow> db \<Rightarrow> unit outcome" where
  "settle_jobs h i p [] d = (Inr (), d)"
| "settle_jobs h i p (j # js) d =
     (case settle_job h i p j d of (Inl e, d1) \<Rightarrow> (Inl e, d1) | (Inr _, d1) \<Rightarrow> settle_jobs h i p js d1)"

definition manual_command_job :: "queue_job list \<Rightarrow> queue_job option" where
  "manual_command_job js = coalesce
     (find (\<lambda>j. q_source j = QS_manual_command \<and> q_comment_id j \<noteq> None \<and> q_comment_id j \<noteq> Some 0) js)
     (find (\<lambda>j. q_source j = QS_manual_command) js)"

record reconcile_result =
  rt_active :: nat
  rt_settled :: nat
  rt_comment :: bool

text \<open>The posted head with the open jobs it has left.\<close>

definition settle_posted_head ::
    "host \<Rightarrow> (processed_row \<Rightarrow> bool) \<Rightarrow> reconcile_input \<Rightarrow> processed_row \<Rightarrow> queue_job list \<Rightarrow> db \<Rightarrow> reconcile_result outcome" where
  "settle_posted_head h postStatus i p active d =
     (let existing = getReviewReadiness (rn_repo i) (rn_pull i) (rn_head i) d; n = length active
      in if n = 0 then
           (case recordDirectReviewReadinessIfRepairable h i p existing d of
              (Inl e, d1) \<Rightarrow> (Inl e, d1)
            | (Inr _, d1) \<Rightarrow> (Inr \<lparr>rt_active = 0, rt_settled = 0, rt_comment = postStatus p\<rparr>, d1))
         else (case settle_jobs h i p active d of
             (Inl e, d1) \<Rightarrow> (Inl e, d1)
           | (Inr _, d1) \<Rightarrow>
               (case recordReviewReadiness h
                   (direct_readiness h i p existing
                     (case Option.bind (manual_command_job active) q_comment_id of None \<Rightarrow> None
                      | Some c \<Rightarrow> if c = 0 then None else Some c)) d1 of
                  (Inl e, d2) \<Rightarrow> (Inl e, d2)
                | (Inr _, d2) \<Rightarrow> (Inr \<lparr>rt_active = n, rt_settled = n, rt_comment = postStatus p\<rparr>, d2))))"

definition reconcileProcessedHeadAfterDirectReview ::
    "host \<Rightarrow> (processed_row \<Rightarrow> bool) \<Rightarrow> reconcile_input \<Rightarrow> db \<Rightarrow> reconcile_result outcome" where
  "reconcileProcessedHeadAfterDirectReview h postStatus i d =
     (if rn_dry_run i then (Inr \<lparr>rt_active = 0, rt_settled = 0, rt_comment = False\<rparr>, d)
      else (let processed = getProcessedReview (rn_repo i) (rn_pull i) (rn_head i) d in
        case listReviewQueueJobsForPull (rn_repo i) (rn_pull i) (Some DIRECT_REVIEW_RECONCILE_QUEUE_STATES) None d of
          Inl e \<Rightarrow> (Inl e, d)
        | Inr jobs \<Rightarrow>
            (let active = filter (\<lambda>j. q_head j = rn_head i) jobs
             in case processed of
                  None \<Rightarrow> (Inr \<lparr>rt_active = length active, rt_settled = 0, rt_comment = False\<rparr>, d)
                | Some p \<Rightarrow>
                    if pr_status p \<noteq> P_posted then (Inr \<lparr>rt_active = length active, rt_settled = 0, rt_comment = False\<rparr>, d)
                    else settle_posted_head h postStatus i p active d)))"

section \<open>What settling does\<close>

text \<open>A row of the queue after its job was settled with a review's URL.\<close>

definition settled_as :: "processed_row \<Rightarrow> int \<Rightarrow> queue_job \<Rightarrow> queue_job \<Rightarrow> bool" where
  "settled_as p now r r' \<longleftrightarrow> q_job_id r' = q_job_id r \<and> q_repo r' = q_repo r \<and> q_pull r' = q_pull r \<and> q_head r' = q_head r \<and>
     q_state r' = Q_posted \<and> q_lease_id r' = None \<and> q_finished_at r' = Some now \<and>
     q_review_url r' = coalesce (truthy (pr_review_url p)) (q_review_url r)"

lemma session_update_frame:
  assumes "updateReviewerSessionJobState repo pull head js ps now d = (Inr r, d')"
  shows "queue d' = queue d" "processed d' = processed d" "readiness d' = readiness d"
  using assms
  by (auto simp: updateReviewerSessionJobState_def expireDrainedReviewerSessionIfComplete_def Let_def split: option.splits if_splits)

lemma queue_update_queue:
  assumes "updateReviewQueueJobState h u d = (Inr r, d')"
  shows "queue d' = row_update (\<lambda>r. q_job_id r = qu_job_id u) (updated_queue_row h u) (queue d)"
    "processed d' = processed d" "readiness d' = readiness d"
  using assms by (auto simp: updateReviewQueueJobState_def Let_def split: option.splits)

lemma settle_job_rows:
  assumes "settle_job h i p j d = (Inr (), d')"
  shows "list_all2 (\<lambda>r r'. if q_job_id r = q_job_id j then settled_as p (rn_now i) r r' else r' = r) (queue d) (queue d')"
    "processed d' = processed d" "readiness d' = readiness d"
proof -
  let ?u = "\<lparr>qu_job_id = q_job_id j, qu_state = Q_posted, qu_next_eligible_at = None, qu_lease_id = None,
      qu_lease_expires_at = None, qu_clear_lease = None, qu_session_id = None, qu_review_url = truthy (pr_review_url p),
      qu_last_error = Some (directReviewReconcileLastError (q_last_error j)), qu_now = rn_now i\<rparr>"
  obtain q d1 where u: "updateReviewQueueJobState h ?u d = (Inr q, d1)"
    using assms by (auto simp: settle_job_def split: prod.splits sum.splits)
  have frame: "queue d' = queue d1" "processed d' = processed d1" "readiness d' = readiness d1"
    using assms u by (auto simp: settle_job_def split: prod.splits sum.splits if_splits dest: session_update_frame)
  have "settled_as p (rn_now i) r (updated_queue_row h ?u r)" for r
    by (simp add: settled_as_def updated_queue_row_def qu_clears_def isTerminalQueueState_def)
  then show "list_all2 (\<lambda>r r'. if q_job_id r = q_job_id j then settled_as p (rn_now i) r r' else r' = r) (queue d) (queue d')"
    unfolding frame queue_update_queue[OF u] by (simp add: row_update_def list_all2_conv_all_nth)
  show "processed d' = processed d" "readiness d' = readiness d" using frame queue_update_queue[OF u] by simp_all
qed

lemma settled_again: "settled_as p t a b \<Longrightarrow> settled_as p t b c \<Longrightarrow> settled_as p t a c"
  by (auto simp: settled_as_def coalesce_def split: option.splits)

lemma settle_jobs_rows:
  assumes "settle_jobs h i p js d = (Inr (), d')"
  shows "list_all2 (\<lambda>r r'. if q_job_id r \<in> q_job_id ` set js then settled_as p (rn_now i) r r' else r' = r) (queue d) (queue d') \<and>
    processed d' = processed d \<and> readiness d' = readiness d"
  using assms
proof (induction js arbitrary: d)
  case Nil
  then show ?case by (simp add: list_all2_refl)
next
  case (Cons j js)
  obtain d1 where d1: "settle_job h i p j d = (Inr (), d1)" "settle_jobs h i p js d1 = (Inr (), d')"
    using Cons.prems by (auto split: prod.splits sum.splits)
  have "list_all2 (\<lambda>r r'. if q_job_id r \<in> q_job_id ` set (j # js) then settled_as p (rn_now i) r r' else r' = r) (queue d) (queue d')"
  proof (rule list_all2_trans[OF _ settle_job_rows(1)[OF d1(1)] conjunct1[OF Cons.IH[OF d1(2)]]])
    fix a b c
    assume "if q_job_id a = q_job_id j then settled_as p (rn_now i) a b else b = a"
      "if q_job_id b \<in> q_job_id ` set js then settled_as p (rn_now i) b c else c = b"
    then show "if q_job_id a \<in> q_job_id ` set (j # js) then settled_as p (rn_now i) a c else c = a"
      using settled_again[of p "rn_now i" a b c] by (auto simp: settled_as_def[of _ _ a b] split: if_splits)
  qed
  then show ?case using settle_job_rows(2,3)[OF d1(1)] Cons.IH[OF d1(2)] by simp
qed

definition open_for :: "reconcile_input \<Rightarrow> queue_job \<Rightarrow> bool" where
  "open_for i j \<longleftrightarrow> q_repo j = rn_repo i \<and> q_pull j = rn_pull i \<and> q_head j = rn_head i \<and>
     q_state j \<in> set DIRECT_REVIEW_RECONCILE_QUEUE_STATES"

lemma active_listed:
  "listReviewQueueJobsForPull (rn_repo i) (rn_pull i) (Some DIRECT_REVIEW_RECONCILE_QUEUE_STATES) None d =
     Inr (map mapReviewQueueJobRow (js_sort queue_order (filter (\<lambda>j. q_repo j = rn_repo i \<and> q_pull j = rn_pull i \<and>
       q_state j \<in> set DIRECT_REVIEW_RECONCILE_QUEUE_STATES) (queue d))))"
  by (simp add: listReviewQueueJobsForPull_def DIRECT_REVIEW_RECONCILE_QUEUE_STATES_def)

lemma active_of_head:
  fixes d i
  defines "active \<equiv> filter (\<lambda>j. q_head j = rn_head i) (map mapReviewQueueJobRow (js_sort queue_order
      (filter (\<lambda>j. q_repo j = rn_repo i \<and> q_pull j = rn_pull i \<and> q_state j \<in> set DIRECT_REVIEW_RECONCILE_QUEUE_STATES) (queue d))))"
  shows "length active = length (filter (open_for i) (queue d))"
    "q_job_id ` set active = q_job_id ` {j \<in> set (queue d). open_for i j}"
proof -
  let ?rows = "filter (\<lambda>j. q_repo j = rn_repo i \<and> q_pull j = rn_pull i \<and> q_state j \<in> set DIRECT_REVIEW_RECONCILE_QUEUE_STATES) (queue d)"
  have a: "active = map mapReviewQueueJobRow (filter (\<lambda>j. q_head j = rn_head i) (js_sort queue_order ?rows))"
    by (simp add: active_def filter_map o_def)
  have "mset (filter (\<lambda>j. q_head j = rn_head i) (js_sort queue_order ?rows)) = mset (filter (\<lambda>j. q_head j = rn_head i) ?rows)"
    by (metis mset_filter mset_js_sort)
  also have "filter (\<lambda>j. q_head j = rn_head i) ?rows = filter (open_for i) (queue d)"
    unfolding filter_filter by (rule filter_cong) (auto simp: open_for_def)
  finally have m: "mset (filter (\<lambda>j. q_head j = rn_head i) (js_sort queue_order ?rows)) = mset (filter (open_for i) (queue d))" .
  show "length active = length (filter (open_for i) (queue d))" using arg_cong[OF m, of size] unfolding a length_map size_mset .
  have "set (filter (\<lambda>j. q_head j = rn_head i) (js_sort queue_order ?rows)) = {j \<in> set (queue d). open_for i j}"
    using arg_cong[OF m, of set_mset] unfolding set_mset_mset set_filter .
  then show "q_job_id ` set active = q_job_id ` {j \<in> set (queue d). open_for i j}"
    unfolding a by (simp add: image_image)
qed


lemma list_all2_mono_mem:
  "list_all2 P xs ys \<Longrightarrow> (\<And>x y. x \<in> set xs \<Longrightarrow> P x y \<Longrightarrow> Q x y) \<Longrightarrow> list_all2 Q xs ys"
  by (induction xs ys rule: list_all2_induct) auto

lemma unique_ids_mem:
  assumes "queue_wf d" "r \<in> set (queue d)"
  shows "q_job_id r \<in> q_job_id ` {j \<in> set (queue d). open_for i j} \<longleftrightarrow> open_for i r"
proof -
  have "inj_on q_job_id (set (queue d))" using assms(1) by (simp add: queue_wf_def unique_rows_def distinct_map)
  then show ?thesis using assms(2) by (auto dest: inj_onD)
qed

lemma record_readiness_frame:
  "recordReviewReadiness h x d = (r, d') \<Longrightarrow> queue d' = queue d \<and> processed d' = processed d"
  by (auto simp: recordReviewReadiness_def Let_def split: option.splits if_splits)

lemma readiness_recorded:
  assumes "recordReviewReadiness h x d = (Inr r, d')"
  shows "map_option rr_state (getReviewReadiness (ri_repo x) (ri_pull x) (ri_head x) d') = Some (ri_state x)"
proof -
  let ?ex = "getReviewReadiness (ri_repo x) (ri_pull x) (ri_head x) d"
  have t: "rr_state (readiness_target h x e) = ri_state x" "rr_key (readiness_target h x e) = (ri_repo x, ri_pull x, ri_head x)" for e
    by (simp_all add: readiness_target_def rr_key_def Let_def)
  have k: "rr_key (merge_readiness old new) = rr_key new" for old new by (simp add: merge_readiness_def rr_key_def)
  from record_readiness_Inr(2)[OF assms] show ?thesis
  proof
    assume "\<exists>old. ?ex = Some old \<and> same_readiness old (readiness_target h x ?ex) \<and> r = old \<and> d' = d"
    then show ?thesis using t(1) by (auto simp: same_readiness_def)
  next
    assume "\<not> (\<exists>old. ?ex = Some old \<and> same_readiness old (readiness_target h x ?ex)) \<and>
      d' = d\<lparr>readiness := row_upsert rr_key merge_readiness (readiness_target h x ?ex) (readiness d)\<rparr> \<and>
      r = the (getReviewReadiness (ri_repo x) (ri_pull x) (ri_head x) d')"
    then have d': "readiness d' = row_upsert rr_key merge_readiness (readiness_target h x ?ex) (readiness d)" by simp
    have "row_get rr_key (ri_repo x, ri_pull x, ri_head x) (readiness d') =
        Some (case row_get rr_key (ri_repo x, ri_pull x, ri_head x) (readiness d) of None \<Rightarrow> readiness_target h x ?ex
          | Some old \<Rightarrow> merge_readiness old (readiness_target h x ?ex))"
      unfolding d' by (subst row_get_upsert) (simp_all add: k t(2))
    then show ?thesis using t(1) by (simp add: getReviewReadiness_def merge_readiness_def split: option.split)
  qed
qed

lemma settle_posted_head_effect:
  assumes "settle_posted_head h post i p active d = (Inr res, d')"
  shows "rt_active res = length active" "rt_settled res = length active" "processed d' = processed d"
    "list_all2 (\<lambda>r r'. if q_job_id r \<in> q_job_id ` set active then settled_as p (rn_now i) r r' else r' = r) (queue d) (queue d')"
    "active \<noteq> [] \<Longrightarrow> map_option rr_state (getReviewReadiness (rn_repo i) (rn_pull i) (rn_head i) d') =
       Some (if pr_event p = Some EV_REQUEST_CHANGES then R_needs_fix else R_ready_for_human)"
proof -
  let ?ex = "getReviewReadiness (rn_repo i) (rn_pull i) (rn_head i) d"
  have "rt_active res = length active \<and> rt_settled res = length active \<and> processed d' = processed d \<and>
    list_all2 (\<lambda>r r'. if q_job_id r \<in> q_job_id ` set active then settled_as p (rn_now i) r r' else r' = r) (queue d) (queue d') \<and>
    (active \<noteq> [] \<longrightarrow> map_option rr_state (getReviewReadiness (rn_repo i) (rn_pull i) (rn_head i) d') =
       Some (if pr_event p = Some EV_REQUEST_CHANGES then R_needs_fix else R_ready_for_human))"
  proof (cases "active = []")
    case True
    then have "recordDirectReviewReadinessIfRepairable h i p ?ex d = (Inr (), d')" "res = \<lparr>rt_active = 0, rt_settled = 0, rt_comment = post p\<rparr>"
      using assms by (auto simp: settle_posted_head_def split: prod.splits sum.splits)
    moreover from this have "queue d' = queue d \<and> processed d' = processed d"
      using record_readiness_frame[of h _ d] by (auto simp: recordDirectReviewReadinessIfRepairable_def split: if_splits prod.splits sum.splits)
    ultimately show ?thesis using True by (simp add: list_all2_same)
  next
    case False
    let ?x = "direct_readiness h i p ?ex (case Option.bind (manual_command_job active) q_comment_id of None \<Rightarrow> None
        | Some c \<Rightarrow> if c = 0 then None else Some c)"
    obtain d1 y where s: "settle_jobs h i p active d = (Inr (), d1)" and x: "recordReviewReadiness h ?x d1 = (Inr y, d')"
      and res: "res = \<lparr>rt_active = length active, rt_settled = length active, rt_comment = post p\<rparr>"
      using assms False by (auto simp: settle_posted_head_def Let_def split: prod.splits sum.splits)
    have st: "ri_state ?x = (if pr_event p = Some EV_REQUEST_CHANGES then R_needs_fix else R_ready_for_human)"
      "ri_repo ?x = rn_repo i" "ri_pull ?x = rn_pull i" "ri_head ?x = rn_head i"
      by (simp_all add: direct_readiness_def readinessStateForDirectProcessedReview_def)
    show ?thesis
      using settle_jobs_rows[OF s] record_readiness_frame[OF x] readiness_recorded[OF x] st res by simp
  qed
  then show "rt_active res = length active" "rt_settled res = length active" "processed d' = processed d"
    "list_all2 (\<lambda>r r'. if q_job_id r \<in> q_job_id ` set active then settled_as p (rn_now i) r r' else r' = r) (queue d) (queue d')"
    "active \<noteq> [] \<Longrightarrow> map_option rr_state (getReviewReadiness (rn_repo i) (rn_pull i) (rn_head i) d') =
       Some (if pr_event p = Some EV_REQUEST_CHANGES then R_needs_fix else R_ready_for_human)" by blast+
qed

lemma settled_closed:
  "list_all2 (\<lambda>r r'. if open_for i r then settled_as p t r r' else r' = r) q q' \<Longrightarrow> list_all (\<lambda>r. \<not> open_for i r) q'"
proof (induction q q' rule: list_all2_induct)
  case (Cons x xs y ys)
  then show ?case by (auto simp: open_for_def settled_as_def DIRECT_REVIEW_RECONCILE_QUEUE_STATES_def split: if_splits)
qed simp

text \<open>C28: settling a head whose review is posted closes exactly its open queue jobs, as posted and with the review's
  URL, leaves every other job and the processed review alone, and marks the head as needing a fix or ready for a
  human, as the review says; a head whose review is not posted, and a dry run, change nothing.\<close>

theorem reconcile_settles_head:
  assumes "queue_wf d" "reconcileProcessedHeadAfterDirectReview h post i d = (Inr res, d')"
  shows "rt_settled res \<in> {0, rt_active res} \<and> processed d' = processed d \<and>
    (case getProcessedReview (rn_repo i) (rn_pull i) (rn_head i) d of
       Some p \<Rightarrow> if pr_status p = P_posted \<and> \<not> rn_dry_run i
         then rt_active res = length (filter (open_for i) (queue d)) \<and> rt_settled res = rt_active res \<and>
           list_all2 (\<lambda>r r'. if open_for i r then settled_as p (rn_now i) r r' else r' = r) (queue d) (queue d') \<and>
           list_all (\<lambda>r. \<not> open_for i r) (queue d') \<and>
           (0 < rt_active res \<longrightarrow> map_option rr_state (getReviewReadiness (rn_repo i) (rn_pull i) (rn_head i) d') =
             Some (if pr_event p = Some EV_REQUEST_CHANGES then R_needs_fix else R_ready_for_human))
         else d' = d
     | None \<Rightarrow> d' = d)"
proof (cases "\<not> rn_dry_run i \<and> map_option pr_status (getProcessedReview (rn_repo i) (rn_pull i) (rn_head i) d) = Some P_posted")
  case False
  then show ?thesis
    using assms(2) by (auto simp: reconcileProcessedHeadAfterDirectReview_def active_listed Let_def split: option.splits if_splits)
next
  case True
  then obtain p where p: "getProcessedReview (rn_repo i) (rn_pull i) (rn_head i) d = Some p" "pr_status p = P_posted" "\<not> rn_dry_run i" by auto
  define active where "active = filter (\<lambda>j. q_head j = rn_head i) (map mapReviewQueueJobRow (js_sort queue_order
      (filter (\<lambda>j. q_repo j = rn_repo i \<and> q_pull j = rn_pull i \<and> q_state j \<in> set DIRECT_REVIEW_RECONCILE_QUEUE_STATES) (queue d))))"
  note act = active_of_head[of i d, folded active_def]
  have run: "settle_posted_head h post i p active d = (Inr res, d')"
    using assms(2) p unfolding reconcileProcessedHeadAfterDirectReview_def active_listed Let_def active_def by simp
  note eff = settle_posted_head_effect[OF run]
  have rows: "list_all2 (\<lambda>r r'. if open_for i r then settled_as p (rn_now i) r r' else r' = r) (queue d) (queue d')"
    using list_all2_mono_mem[OF eff(4)] unique_ids_mem[OF assms(1)] act(2) by simp
  have ne: "active = [] \<longleftrightarrow> rt_active res = 0" using eff(1) by simp
  show ?thesis using p eff act(1) rows settled_closed[OF rows] ne by auto
qed


definition ex_settle_db :: db where
  "ex_settle_db = recordProcessed (ex_record\<lparr>pr_pull := 1, pr_status := P_posted, pr_event := Some EV_COMMENT, pr_review_url := Some ''u''\<rparr>) 1000 ex_queue"

definition ex_settle :: reconcile_input where
  "ex_settle = \<lparr>rn_repo = ''o/r'', rn_pull = 1, rn_head = ''h1'', rn_dry_run = False, rn_now = 9000\<rparr>"

theorem reconcile_settles_head_witness:
  "rt_active (projr (fst (reconcileProcessedHeadAfterDirectReview ex_host (\<lambda>_. True) ex_settle ex_settle_db))) = 1 \<and>
   list_all (\<lambda>r. \<not> open_for ex_settle r) (queue (snd (reconcileProcessedHeadAfterDirectReview ex_host (\<lambda>_. True) ex_settle ex_settle_db)))"
proof -
  let ?c = "reconcileProcessedHeadAfterDirectReview ex_host (\<lambda>_. True) ex_settle ex_settle_db"
  have wf: "queue_wf ex_settle_db" using ex_queue_wf by (simp add: ex_settle_db_def queue_wf_def recordProcessed_def)
  have "\<not> isl (fst ?c)" by code_simp
  then have c: "?c = (Inr (projr (fst ?c)), snd ?c)" by (cases ?c) auto
  have p: "map_option pr_status (getProcessedReview (rn_repo ex_settle) (rn_pull ex_settle) (rn_head ex_settle) ex_settle_db) = Some P_posted"
    "\<not> rn_dry_run ex_settle" by code_simp+
  have n: "length (filter (open_for ex_settle) (queue ex_settle_db)) = 1" by code_simp
  show ?thesis
    using reconcile_settles_head[OF wf c] p n
    by (cases "getProcessedReview (rn_repo ex_settle) (rn_pull ex_settle) (rn_head ex_settle) ex_settle_db") auto
qed

end
