(* ===== verification/Publication.thy ===== *)
theory Publication
  imports Commands Reconcile
begin

text \<open>
  Publishing a planned review (the end of \<open>reviewPull\<close> and its helpers in \<open>src/worker.ts\<close>): the head is claimed, the
  authorization of requested changes is looked up and consumed, the pull request is checked again before the
  review is created, and the outcome is recorded. GitHub's answers and the operations of other processes on the
  store are parameters: before every store operation and every request the others may act.
\<close>

section \<open>The world around a run\<close>

datatype processed_head_policy = PH_normal | PH_approved_dry_run | PH_refresh_dry_run | PH_retry_failed_head

record live_pull =
  lv_state :: "string option"
  lv_merged_at :: "string option"
  lv_head :: string
  lv_base :: string

datatype review_pull_result = RV_reviewed | RV_reviewed_command | RV_posted_stale_head | RV_posted_head_unverified
  | RV_skipped_consumed_authorization | RV_skipped_draft | RV_skipped_canary | RV_skipped_policy | RV_skipped_base_merge_only
  | RV_untrusted_author_public_repo | RV_untrusted_author_provider_unavailable | RV_untrusted_author_restricted_unavailable
  | RV_skipped_license_gate | RV_skipped_command_stop | RV_skipped_command_explain | RV_skipped_finishing_touch_draft
  | RV_skipped_processed | RV_skipped_capacity | RV_skipped_context_budget | RV_skipped_provider_cooldown
  | RV_skipped_stale_head | RV_skipped_closed

record review_receipt =
  pp_base_ref :: "string option"
  pp_base_sha :: "string option"
  pp_diff_fingerprint :: "string option"
  pp_event :: review_event
  pp_review_url :: string
  pp_preserve_blocking :: bool
  pp_authorization :: "(int \<times> string) option"

datatype review_failure = FL_github | FL_store store_error | FL_not_eligible | FL_incomplete_receipt | FL_persistence review_receipt

text \<open>What a run does that another process could act before: an operation of the store (the read of the head's row is
  told apart), a look at the pull request, the fetch of the command comment, and the requests that post. The request
  that creates a review is an event whether or not GitHub confirms it.\<close>

datatype run_event = Stored | ReadHead | SawPull "live_pull option" | FetchedComment int
  | PostedWalkthrough | PostedEnrichment | CreatedReview review_event

record world =
  wd_host :: host
  wd_clock :: "nat \<Rightarrow> int"
  wd_other :: "nat \<Rightarrow> db \<Rightarrow> db"
  wd_live :: "nat \<Rightarrow> live_pull option"
  wd_comment :: "nat \<Rightarrow> int \<Rightarrow> issue_comment option"
  wd_create :: "nat \<Rightarrow> review_event \<Rightarrow> (int \<times> string option) option"
  wd_claim_id :: string
  wd_pid :: int

record pub =
  pb_db :: db
  pb_tick :: nat
  pb_log :: "run_event list"

definition others_act :: "world \<Rightarrow> pub \<Rightarrow> pub" where
  "others_act w s = s\<lparr>pb_db := wd_other w (pb_tick s) (pb_db s), pb_tick := pb_tick s + 1\<rparr>"

text \<open>One operation of the store, at its own time.\<close>

definition store_as :: "run_event \<Rightarrow> world \<Rightarrow> (int \<Rightarrow> db \<Rightarrow> 'a \<times> db) \<Rightarrow> pub \<Rightarrow> 'a \<times> pub" where
  "store_as ev w op s = (let s1 = others_act w s; (r, d) = op (wd_clock w (pb_tick s1)) (pb_db s1)
     in (r, s1\<lparr>pb_db := d, pb_log := pb_log s1 @ [ev]\<rparr>))"

abbreviation store :: "world \<Rightarrow> (int \<Rightarrow> db \<Rightarrow> 'a \<times> db) \<Rightarrow> pub \<Rightarrow> 'a \<times> pub" where
  "store \<equiv> store_as Stored"

definition look :: "world \<Rightarrow> pub \<Rightarrow> live_pull option \<times> pub" where
  "look w s = (let s1 = others_act w s; l = wd_live w (pb_tick s1) in (l, s1\<lparr>pb_log := pb_log s1 @ [SawPull l]\<rparr>))"

datatype 'a step = Go 'a | Done review_pull_result | Fail review_failure

fun continue :: "'a step \<times> pub \<Rightarrow> ('a \<Rightarrow> pub \<Rightarrow> 'b step \<times> pub) \<Rightarrow> 'b step \<times> pub" where
  "continue (Go a, s) k = k a s"
| "continue (Done r, s) k = (Done r, s)"
| "continue (Fail e, s) k = (Fail e, s)"

text \<open>A store operation whose errors are thrown.\<close>

definition store_or_fail :: "world \<Rightarrow> (int \<Rightarrow> db \<Rightarrow> 'a outcome) \<Rightarrow> pub \<Rightarrow> 'a step \<times> pub" where
  "store_or_fail w op s = (case store w op s of (Inl e, s1) \<Rightarrow> (Fail (FL_store e), s1) | (Inr a, s1) \<Rightarrow> (Go a, s1))"

section \<open>The pull request before the review is posted\<close>

record publish_input =
  pu_repo :: string
  pu_number :: int
  pu_head :: string
  pu_base :: string
  pu_html_url :: string
  pu_dry_run :: bool
  pu_config_revision :: "string option"
  pu_policy :: processed_head_policy
  pu_mode :: policy_mode
  pu_commands :: command_config
  pu_comment_id :: "int option"
  pu_command :: "review_command option"
  pu_queued_owner :: bool
  pu_exact_owner :: bool
  pu_base_merge_override :: bool
  pu_baseline_override :: bool
  pu_claim_ttl_ms :: int
  pu_candidate :: review_event
  pu_base_ref :: "string option"
  pu_base_sha :: "string option"
  pu_fingerprint :: "string option"
  pu_walkthrough_posted :: bool
  pu_enrichment_posted :: bool
  pu_ensemble_pending :: bool

definition isClosedPull :: "live_pull \<Rightarrow> bool" where
  "isClosedPull l \<longleftrightarrow> (case truthy (lv_state l) of None \<Rightarrow> False | Some st \<Rightarrow> st \<noteq> ''open'')"

definition stale_pull :: "publish_input \<Rightarrow> live_pull \<Rightarrow> bool" where
  "stale_pull i l \<longleftrightarrow> \<not> (pu_head i = lv_head l \<and> pu_base i = lv_base l)"

definition plain_record :: "publish_input \<Rightarrow> processed_status \<Rightarrow> processed_review_record" where
  "plain_record i st = \<lparr>pr_repo = pu_repo i, pr_pull = pu_number i, pr_head = pu_head i, pr_status = st, pr_config_revision = None,
     pr_base_ref = None, pr_base_sha = None, pr_diff_fingerprint = None, pr_carried_from_head = None, pr_event = None,
     pr_review_url = None, pr_error = None\<rparr>"

definition recordSkipUnlessPosted :: "publish_input \<Rightarrow> string \<Rightarrow> int \<Rightarrow> db \<Rightarrow> unit \<times> db" where
  "recordSkipUnlessPosted i err clock d =
     (if map_option pr_status (getProcessedReview (pu_repo i) (pu_number i) (pu_head i) d) = Some P_posted then ((), d)
      else ((), recordProcessed ((plain_record i P_skipped)\<lparr>pr_error := Some err\<rparr>) clock d))"

definition recordStaleHeadSkip :: "publish_input \<Rightarrow> live_pull \<Rightarrow> int \<Rightarrow> db \<Rightarrow> unit \<times> db" where
  "recordStaleHeadSkip i l = recordSkipUnlessPosted i (''stale_head_before_post: live='' @ lv_head l)"

definition recordClosedPullBeforeReviewPost :: "publish_input \<Rightarrow> live_pull \<Rightarrow> int \<Rightarrow> db \<Rightarrow> unit \<times> db" where
  "recordClosedPullBeforeReviewPost i l = recordSkipUnlessPosted i (''closed_or_merged_before_review state='' @
     or_default (lv_state l) ''unknown'' @ (case truthy (lv_merged_at l) of None \<Rightarrow> [] | Some m \<Rightarrow> ''; merged_at='' @ m))"

definition recordPullLifecycleBeforePost :: "world \<Rightarrow> publish_input \<Rightarrow> pub \<Rightarrow> unit step \<times> pub" where
  "recordPullLifecycleBeforePost w i s =
     (case look w s of
        (None, s1) \<Rightarrow> (Fail FL_github, s1)
      | (Some l, s1) \<Rightarrow>
          if isClosedPull l then (Done RV_skipped_closed, snd (store w (recordClosedPullBeforeReviewPost i l) s1))
          else if stale_pull i l then (Done RV_skipped_stale_head, snd (store w (recordStaleHeadSkip i l) s1))
          else (Go (), s1))"

section \<open>Who authorizes requested changes\<close>

definition event_target :: "publish_input \<Rightarrow> auth_target" where
  "event_target i = \<lparr>tg_repo = pu_repo i, tg_pull = pu_number i, tg_head = pu_head i\<rparr>"

definition lookupQueuedReviewEventAuthorization :: "world \<Rightarrow> publish_input \<Rightarrow> pub \<Rightarrow> auth_attempt \<times> pub" where
  "lookupQueuedReviewEventAuthorization w i s =
     (if pu_mode i = Automatic then (Attempt AS_missing None None, s)
      else (case pu_comment_id i of
          None \<Rightarrow> (Attempt AS_missing None None, s)
        | Some c \<Rightarrow>
            if c = 0 then (Attempt AS_missing None None, s)
            else (let s0 = others_act w s; s1 = s0\<lparr>pb_log := pb_log s0 @ [FetchedComment c]\<rparr> in
              case wd_comment w (pb_tick s1) c of
                None \<Rightarrow> (Attempt AS_lookup_failed None (Some c), s1)
              | Some cm \<Rightarrow>
                  if ic_id cm \<noteq> c then (Attempt AS_lookup_failed None (Some c), s1)
                  else (case collectReviewEventAuthorizationAttempts [cm] (pu_commands i) (event_target i) of
                      (_, selected, _) \<Rightarrow> ((if is_missing selected then Attempt AS_missing None (Some c) else selected), s1)))))"

record resolution =
  re_decision :: policy_decision
  re_authorization :: auth_attempt
  re_consumed :: bool

definition auth_of :: "publish_input \<Rightarrow> string \<Rightarrow> int \<Rightarrow> int \<Rightarrow> auth_input" where
  "auth_of i author c now = \<lparr>ai_repo = pu_repo i, ai_pull = pu_number i, ai_head = pu_head i, ai_comment_id = c, ai_author = author, ai_now = now\<rparr>"

definition decideAndConsumeReviewEvent :: "world \<Rightarrow> publish_input \<Rightarrow> auth_attempt \<Rightarrow> bool \<Rightarrow> pub \<Rightarrow> resolution \<times> pub" where
  "decideAndConsumeReviewEvent w i a dry s =
     (let (a1, consumed, s1) =
        (case a of
           Eligible h author c \<Rightarrow>
             if pu_mode i = TrustedCommandOnly \<and> \<not> dry
             then (case store w (\<lambda>now d. tryConsumeReviewEventAuthorization (auth_of i author c now) d) s of
                 (Inl e, s1) \<Rightarrow> (Attempt AS_state_error (Some author) (Some c), False, s1)
               | (Inr ok, s1) \<Rightarrow> if ok then (a, True, s1) else (Attempt AS_consumed (Some author) (Some c), False, s1))
             else (a, False, s)
         | _ \<Rightarrow> (a, False, s))
      in (\<lparr>re_decision = decideReviewEventPolicy (pu_mode i) (pu_candidate i) (pu_head i) a1, re_authorization = a1,
           re_consumed = consumed\<rparr>, s1))"

definition hasDurableAuthorizedReviewOutcome :: "consumption_row option \<Rightarrow> bool" where
  "hasDurableAuthorizedReviewOutcome c = (case c of None \<Rightarrow> False
     | Some r \<Rightarrow> (co_posted_event r \<noteq> None \<and> truthy (co_review_url r) \<noteq> None \<and> co_posted_at r \<noteq> None) \<or>
         (co_terminal_no_op r \<and> truthy (co_terminal_reason r) \<noteq> None \<and> co_terminal_at r \<noteq> None))"

section \<open>Claiming the head\<close>

definition command_review_requested :: "publish_input \<Rightarrow> bool" where
  "command_review_requested i = should_review (pu_command i)"

definition base_merge_skip :: "processed_row option \<Rightarrow> bool" where
  "base_merge_skip p \<longleftrightarrow> (case p of None \<Rightarrow> False | Some r \<Rightarrow> pr_status r = P_skipped \<and> pr_error r = Some BASE_MERGE_ONLY)"

definition read_processed :: "world \<Rightarrow> publish_input \<Rightarrow> pub \<Rightarrow> processed_row option \<times> pub" where
  "read_processed w i = store_as ReadHead w (\<lambda>_ d. (getProcessedReview (pu_repo i) (pu_number i) (pu_head i) d, d))"

definition publish_claim :: "world \<Rightarrow> publish_input \<Rightarrow> bool \<Rightarrow> int \<Rightarrow> claim_input" where
  "publish_claim w i baseMerge now =
     (let other = command_review_requested i \<or> (pu_exact_owner i \<and> pu_queued_owner i) \<or> pu_policy i = PH_approved_dry_run \<or>
            pu_policy i = PH_retry_failed_head;
          base = \<lparr>ci_repo = pu_repo i, ci_pull = pu_number i, ci_head = pu_head i, ci_ttl_ms = pu_claim_ttl_ms i, ci_now = now,
            ci_owner_pid = wd_pid w, ci_allow_supersession = (baseMerge \<or> other), ci_required_status = None,
            ci_required_revision = None, ci_required_error = None, ci_consume = False\<rparr>
      in if pu_policy i = PH_approved_dry_run
         then base\<lparr>ci_required_status := Some P_dry_run, ci_required_revision := pu_config_revision i, ci_consume := True\<rparr>
         else if baseMerge \<and> \<not> other
         then base\<lparr>ci_required_status := Some P_skipped, ci_required_error := Some BASE_MERGE_ONLY\<rparr>
         else base)"

definition publish_dry_run :: "world \<Rightarrow> publish_input \<Rightarrow> bool \<Rightarrow> review_event \<Rightarrow> bool \<Rightarrow> pub \<Rightarrow> 'a step \<times> pub" where
  "publish_dry_run w i baseMerge event manual s =
     (case store w (\<lambda>now d. tryRecordDryRun \<lparr>di_repo = pu_repo i, di_pull = pu_number i, di_head = pu_head i,
          di_config_revision = truthy (pu_config_revision i), di_event = Some event,
          di_allow_baseline_supersession = pu_baseline_override i, di_allow_base_merge_supersession = baseMerge\<rparr> now d) s of
        (recorded, s1) \<Rightarrow> (Done (if \<not> recorded then RV_skipped_processed else if manual then RV_reviewed_command else RV_reviewed), s1))"

text \<open>\<open>reconcileProcessedHeadAfterDirectReviewSafely\<close>: errors are swallowed.\<close>

definition reconcile_safely :: "world \<Rightarrow> publish_input \<Rightarrow> pub \<Rightarrow> pub" where
  "reconcile_safely w i s = snd (store w (\<lambda>now d. reconcileProcessedHeadAfterDirectReview (wd_host w) (\<lambda>_. True)
     \<lparr>rn_repo = pu_repo i, rn_pull = pu_number i, rn_head = pu_head i, rn_dry_run = pu_dry_run i, rn_now = now\<rparr> d) s)"

definition claim_head :: "world \<Rightarrow> publish_input \<Rightarrow> bool \<Rightarrow> pub \<Rightarrow> head_claim step \<times> pub" where
  "claim_head w i baseMerge s =
     (case store w (\<lambda>now d. tryClaimReviewHeadWithOutcome (publish_claim w i baseMerge now) (wd_claim_id w) now d) s of
        (Inl e, s1) \<Rightarrow> (Fail (FL_store e), s1)
      | (Inr (Acquired c), s1) \<Rightarrow> (Go c, s1)
      | (Inr (Blocked CB_active_claim), s1) \<Rightarrow> (Done RV_skipped_processed, s1)
      | (Inr (Blocked CB_processed), s1) \<Rightarrow> (Done RV_skipped_processed, reconcile_safely w i s1))"

section \<open>The owner's authorization\<close>

text \<open>An authorization another run consumed meanwhile: its outcome is reconciled, or an incident is recorded.\<close>

definition check_concurrent_consumption :: "world \<Rightarrow> publish_input \<Rightarrow> pub \<Rightarrow> unit step \<times> pub" where
  "check_concurrent_consumption w i s =
     (if \<not> (pu_mode i = TrustedCommandOnly \<and> pu_queued_owner i) then (Go (), s)
      else (case store w (\<lambda>_ d. (getReviewEventAuthorizationConsumption (pu_repo i) (pu_number i) (pu_head i) d, d)) s of
          (Inl e, s1) \<Rightarrow> (Fail (FL_store e), s1)
        | (Inr None, s1) \<Rightarrow> (Go (), s1)
        | (Inr (Some c), s1) \<Rightarrow>
            if hasDurableAuthorizedReviewOutcome (Some c) then (Done RV_skipped_processed, reconcile_safely w i s1)
            else (let trigger = or_default (pu_comment_id i)
                    (case pu_command i of Some cmd \<Rightarrow> if rc_action cmd = CA_request_changes then rc_comment_id cmd else co_comment_id c
                     | None \<Rightarrow> co_comment_id c)
                  in continue (store_or_fail w (\<lambda>now. recordReviewEventAuthorizationIncident (wd_host w)
                       \<lparr>in_repo = pu_repo i, in_pull = pu_number i, in_head = pu_head i, in_trigger_comment_id = trigger,
                        in_error = EXACT_AUTHORIZATION_ALREADY_CONSUMED_ERROR, in_now = now\<rparr>) s1) (\<lambda>recorded s2.
                       if recorded then (Done RV_skipped_consumed_authorization, s2)
                       else (Done RV_skipped_processed, reconcile_safely w i s2)))))"

text \<open>A consumed authorization of a review that would repeat a posted comment resolves as a no-op.\<close>

definition check_noop :: "world \<Rightarrow> publish_input \<Rightarrow> resolution \<Rightarrow> pub \<Rightarrow> unit step \<times> pub" where
  "check_noop w i r s =
     (case read_processed w i s of
        (prior, s1) \<Rightarrow>
          if re_consumed r \<and> pd_selected (re_decision r) = EV_COMMENT \<and>
             (case prior of None \<Rightarrow> False | Some p \<Rightarrow> pr_status p = P_posted \<and> pr_event p = Some EV_COMMENT)
          then (case re_authorization r of
              Eligible h author c \<Rightarrow>
                continue (store_or_fail w (\<lambda>now. recordAuthorizedReviewNoop
                     (auth_input.extend (auth_of i author c now) \<lparr>no_reason = ''candidate_comment_already_posted''\<rparr>)) s1) (\<lambda>_ s2.
                   (Done RV_skipped_processed, reconcile_safely w i s2))
            | _ \<Rightarrow> (Fail FL_not_eligible, s1))
          else (Go (), s1))"

section \<open>Creating the review\<close>

definition posted_record :: "publish_input \<Rightarrow> review_event \<Rightarrow> string option \<Rightarrow> processed_review_record" where
  "posted_record i event url = (plain_record i P_posted)\<lparr>pr_base_ref := pu_base_ref i, pr_base_sha := pu_base_sha i,
     pr_diff_fingerprint := pu_fingerprint i, pr_event := Some event, pr_review_url := url\<rparr>"

definition authorized_post :: "publish_input \<Rightarrow> review_event \<Rightarrow> string \<Rightarrow> bool \<Rightarrow> string \<Rightarrow> int \<Rightarrow> int \<Rightarrow> posted_input" where
  "authorized_post i event url preserve author c now = auth_input.extend (auth_of i author c now)
     \<lparr>po_event = event, po_review_url = url, po_base_ref = pu_base_ref i, po_base_sha = pu_base_sha i,
      po_diff_fingerprint = pu_fingerprint i, po_preserve_blocking = preserve\<rparr>"

definition receipt_of :: "publish_input \<Rightarrow> resolution \<Rightarrow> review_event \<Rightarrow> int \<Rightarrow> string option \<Rightarrow> bool \<Rightarrow> review_receipt" where
  "receipt_of i r event rid url preserve = \<lparr>pp_base_ref = pu_base_ref i, pp_base_sha = pu_base_sha i, pp_diff_fingerprint = pu_fingerprint i,
     pp_event = event, pp_review_url = or_default url (pu_html_url i @ ''#pullrequestreview-'' @ string_of_int rid),
     pp_preserve_blocking = preserve,
     pp_authorization = (if re_consumed r then (case re_authorization r of Eligible h author c \<Rightarrow> Some (c, author) | _ \<Rightarrow> None) else None)\<rparr>"

text \<open>Recording the created review; what cannot be recorded is thrown with its receipt.\<close>

definition record_created ::
    "world \<Rightarrow> publish_input \<Rightarrow> resolution \<Rightarrow> review_event \<Rightarrow> int \<Rightarrow> string option \<Rightarrow> bool \<Rightarrow> pub \<Rightarrow> unit step \<times> pub" where
  "record_created w i r event rid url preserve s =
     (let lost = (\<lambda>s. (Fail (FL_persistence (receipt_of i r event rid url preserve)), s))
      in if re_consumed r
         then (case (re_authorization r, truthy url) of
             (Eligible h author c, Some u) \<Rightarrow>
               (case store w (\<lambda>now d. recordAuthorizedReviewPosted (authorized_post i event u preserve author c now) d) s of
                  (Inl e, s1) \<Rightarrow> lost s1 | (Inr _, s1) \<Rightarrow> (Go (), s1))
           | _ \<Rightarrow> lost s)
         else if \<not> preserve
         then (Go (), snd (store w (\<lambda>now d. ((), recordProcessed (posted_record i event url) now d)) s))
         else (Go (), s))"

text \<open>A head that changed or could not be read after the post leaves an uncertain row.\<close>

definition uncertain_record :: "publish_input \<Rightarrow> processed_row \<Rightarrow> string \<Rightarrow> processed_review_record" where
  "uncertain_record i p reason = (plain_record i P_posted)\<lparr>pr_base_ref := pr_base_ref p, pr_base_sha := pr_base_sha p,
     pr_diff_fingerprint := pr_diff_fingerprint p, pr_event := pr_event p, pr_review_url := truthy (pr_review_url p), pr_error := Some reason\<rparr>"

definition uncertain_readiness :: "publish_input \<Rightarrow> processed_row \<Rightarrow> bool \<Rightarrow> string \<Rightarrow> bool \<Rightarrow> int \<Rightarrow> readiness_input" where
  "uncertain_readiness i p changed reason commanded now =
     (let comment = (case pu_comment_id i of None \<Rightarrow> None | Some c \<Rightarrow> if c = 0 \<or> \<not> commanded then None else Some c)
      in \<lparr>ri_repo = pu_repo i, ri_pull = pu_number i, ri_head = pu_head i,
     ri_state = (if changed then R_stale else R_failed), ri_reason = Some reason, ri_event = pr_event p,
     ri_review_url = truthy (pr_review_url p), ri_command_action = (case comment of None \<Rightarrow> None | Some _ \<Rightarrow> Some CA_request_changes),
     ri_command_comment_id = comment, ri_clear_command = False, ri_now = now\<rparr>)"

definition record_uncertainty :: "world \<Rightarrow> publish_input \<Rightarrow> bool \<Rightarrow> bool \<Rightarrow> pub \<Rightarrow> unit step \<times> pub" where
  "record_uncertainty w i changed commanded s =
     (let reason = (if changed then REVIEW_POSTED_HEAD_CHANGED_ERROR else POST_REVIEW_HEAD_UNVERIFIED_ERROR) in
      case read_processed w i s of
        (None, s1) \<Rightarrow> (Go (), s1)
      | (Some p, s1) \<Rightarrow>
          if pr_status p \<noteq> P_posted then (Go (), s1)
          else (let s2 = snd (store w (\<lambda>now d. ((), recordProcessed (uncertain_record i p reason) now d)) s1)
                in continue (store_or_fail w (\<lambda>now. recordReviewReadiness (wd_host w) (uncertain_readiness i p changed reason commanded now)) s2)
                     (\<lambda>_ s3. (Go (), s3))))"

text \<open>The claim is released right after the review is recorded, unless evidence of an ensemble is still collected; the
  release at the end of the run then finds nothing of its own.\<close>

definition release_capacity :: "world \<Rightarrow> publish_input \<Rightarrow> pub \<Rightarrow> pub" where
  "release_capacity w i s =
     (if pu_ensemble_pending i then s else snd (store w (\<lambda>_ d. ((), releaseReviewHeadClaim (wd_claim_id w) d)) s))"

definition settle_posted :: "world \<Rightarrow> publish_input \<Rightarrow> bool \<Rightarrow> bool \<Rightarrow> pub \<Rightarrow> 'a step \<times> pub" where
  "settle_posted w i verified manual s =
     (case look w s of
        (live, s1) \<Rightarrow>
          (let changed = (case live of None \<Rightarrow> False | Some l \<Rightarrow> lv_head l \<noteq> pu_head i); failed = (live = None)
           in continue (if (changed \<or> failed) \<and> \<not> verified then record_uncertainty w i changed True s1 else (Go (), s1)) (\<lambda>_ s2'.
                let s2 = release_capacity w i s2' in
                if changed then (Done RV_posted_stale_head, s2)
                else if failed then (Done RV_posted_head_unverified, s2)
                else (Done (if manual then RV_reviewed_command else RV_reviewed),
                  if pu_policy i \<noteq> PH_retry_failed_head then reconcile_safely w i s2 else s2))))"

definition create_review :: "world \<Rightarrow> publish_input \<Rightarrow> resolution \<Rightarrow> bool \<Rightarrow> pub \<Rightarrow> 'a step \<times> pub" where
  "create_review w i r manual s =
     (case read_processed w i s of
        (prior, s1) \<Rightarrow>
          (let event = pd_selected (re_decision r);
               preserve = (case prior of None \<Rightarrow> False
                 | Some p \<Rightarrow> pr_status p = P_posted \<and> pr_event p = Some EV_REQUEST_CHANGES \<and> event = EV_COMMENT);
               verified = (preserve \<and> (case prior of None \<Rightarrow> False | Some p \<Rightarrow> truthy (pr_error p) = None));
               s2 = others_act w s1; s3 = s2\<lparr>pb_log := pb_log s2 @ [CreatedReview event]\<rparr>
           in case wd_create w (pb_tick s3) event of
                None \<Rightarrow> (Fail FL_github, s3)
              | Some (rid, url) \<Rightarrow>
                  continue (record_created w i r event rid url preserve s3) (\<lambda>_ s4. settle_posted w i verified manual s4)))"

section \<open>The whole publication\<close>

definition checked_if :: "bool \<Rightarrow> world \<Rightarrow> publish_input \<Rightarrow> pub \<Rightarrow> unit step \<times> pub" where
  "checked_if c w i s = (if c then recordPullLifecycleBeforePost w i s else (Go (), s))"

text \<open>The walkthrough or enrichment comment, where the run posts one: a request whose failure is swallowed.\<close>

definition posted_if :: "bool \<Rightarrow> run_event \<Rightarrow> world \<Rightarrow> pub \<Rightarrow> pub" where
  "posted_if c ev w s = (if c then (let s1 = others_act w s in s1\<lparr>pb_log := pb_log s1 @ [ev]\<rparr>) else s)"

text \<open>With the event decided: each comment posted is followed by a check of the pull request, and one more check is the
  last request before the review is created.\<close>

definition publish_decided :: "world \<Rightarrow> publish_input \<Rightarrow> resolution \<Rightarrow> bool \<Rightarrow> pub \<Rightarrow> 'a step \<times> pub" where
  "publish_decided w i r manual s =
     continue (checked_if (re_consumed r) w i s) (\<lambda>_ s1.
     continue (check_noop w i r s1) (\<lambda>_ s2.
     continue (checked_if (pu_walkthrough_posted i) w i (posted_if (pu_walkthrough_posted i) PostedWalkthrough w s2)) (\<lambda>_ s3.
     continue (checked_if (pu_enrichment_posted i) w i (posted_if (pu_enrichment_posted i) PostedEnrichment w s3)) (\<lambda>_ s4.
     continue (recordPullLifecycleBeforePost w i s4) (\<lambda>_ s5.
       create_review w i r manual s5)))))"

definition publish_claimed :: "world \<Rightarrow> publish_input \<Rightarrow> bool \<Rightarrow> pub \<Rightarrow> 'a step \<times> pub" where
  "publish_claimed w i manual0 s =
     continue (recordPullLifecycleBeforePost w i s) (\<lambda>_ s1.
       case lookupQueuedReviewEventAuthorization w i s1 of
         (a, s2) \<Rightarrow>
           continue (check_concurrent_consumption w i s2) (\<lambda>_ s3.
           continue (checked_if (pu_mode i = TrustedCommandOnly) w i s3) (\<lambda>_ s4.
             case decideAndConsumeReviewEvent w i a False s4 of
               (r, s5) \<Rightarrow> publish_decided w i r (manual0 \<or> attempt_head a \<noteq> None) s5)))"

definition publish_review :: "world \<Rightarrow> publish_input \<Rightarrow> pub \<Rightarrow> unit step \<times> pub" where
  "publish_review w i s =
     (let (event, exact, s1) =
        (if pu_dry_run i
         then (case lookupQueuedReviewEventAuthorization w i s of (a, s1) \<Rightarrow>
             (case decideAndConsumeReviewEvent w i a True s1 of (r, s2) \<Rightarrow>
               (pd_selected (re_decision r), pu_exact_owner i \<or> attempt_head (re_authorization r) \<noteq> None, s2)))
         else (pu_candidate i, pu_exact_owner i, s));
          manual = (command_review_requested i \<or> exact)
      in case read_processed w i s1 of
           (prior, s2) \<Rightarrow>
             (let baseMerge = ((pu_base_merge_override i \<or> manual) \<and> base_merge_skip prior)
              in if pu_dry_run i then publish_dry_run w i baseMerge event manual s2
                 else continue (claim_head w i baseMerge s2) (\<lambda>c s3.
                   case publish_claimed w i manual s3 of
                     (r, s4) \<Rightarrow> (r, snd (store w (\<lambda>_ d. ((), releaseReviewHeadClaim (claim_id c) d)) s4)))))"

section \<open>Recovering a created review that was not recorded\<close>

definition receipt_record :: "publish_input \<Rightarrow> review_receipt \<Rightarrow> processed_review_record" where
  "receipt_record i rc = (plain_record i P_posted)\<lparr>pr_base_ref := pp_base_ref rc, pr_base_sha := pp_base_sha rc,
     pr_diff_fingerprint := pp_diff_fingerprint rc, pr_event := Some (pp_event rc), pr_review_url := Some (pp_review_url rc)\<rparr>"

definition receipt_post :: "publish_input \<Rightarrow> review_receipt \<Rightarrow> string \<Rightarrow> int \<Rightarrow> int \<Rightarrow> posted_input" where
  "receipt_post i rc author c now = (authorized_post i (pp_event rc) (pp_review_url rc) (pp_preserve_blocking rc) author c now)
     \<lparr>po_base_ref := pp_base_ref rc, po_base_sha := pp_base_sha rc, po_diff_fingerprint := pp_diff_fingerprint rc\<rparr>"

definition recoverPostedReviewReceipt :: "world \<Rightarrow> publish_input \<Rightarrow> review_receipt \<Rightarrow> pub \<Rightarrow> unit step \<times> pub" where
  "recoverPostedReviewReceipt w i rc s =
     (if pp_review_url rc = [] then (Fail FL_incomplete_receipt, s)
      else (case pp_authorization rc of
          Some (c, author) \<Rightarrow> store_or_fail w (\<lambda>now. recordAuthorizedReviewPosted (receipt_post i rc author c now)) s
        | None \<Rightarrow> if pp_preserve_blocking rc then (Go (), s)
            else (Go (), snd (store w (\<lambda>now d. ((), recordProcessed (receipt_record i rc) now d)) s))))"

definition recoverPostedReviewReceiptForCurrentHead ::
    "world \<Rightarrow> publish_input \<Rightarrow> review_receipt \<Rightarrow> pub \<Rightarrow> unit step \<times> pub" where
  "recoverPostedReviewReceiptForCurrentHead w i rc s =
     (case read_processed w i s of
        (prior, s1) \<Rightarrow>
          (let verified = (pp_preserve_blocking rc \<and> (case prior of None \<Rightarrow> False
                 | Some p \<Rightarrow> pr_status p = P_posted \<and> pr_event p = Some EV_REQUEST_CHANGES \<and> truthy (pr_error p) = None))
           in case recoverPostedReviewReceipt w i rc s1 of
                (Go _, s2) \<Rightarrow>
                  (case look w s2 of
                     (live, s3) \<Rightarrow>
                       (let changed = (case live of None \<Rightarrow> False | Some l \<Rightarrow> lv_head l \<noteq> pu_head i)
                        in if \<not> changed \<and> live \<noteq> None then (Done RV_reviewed, s3)
                           else continue (if verified then (Go (), s3) else record_uncertainty w i changed False s3)
                             (\<lambda>_ s4. (Done (if changed then RV_posted_stale_head else RV_posted_head_unverified), s4))))
              | (_, s2) \<Rightarrow> (Done RV_posted_head_unverified, s2)))"

section \<open>What a phase leaves behind\<close>

text \<open>What the other processes never undo: their operations keep a property of the store.\<close>

definition steady :: "world \<Rightarrow> (db \<Rightarrow> bool) \<Rightarrow> bool" where
  "steady w P \<longleftrightarrow> (\<forall>n d. P d \<longrightarrow> P (wd_other w n d))"

text \<open>Events none of which creates a review.\<close>

fun creates :: "run_event \<Rightarrow> bool" where
  "creates (CreatedReview e) \<longleftrightarrow> True"
| "creates _ \<longleftrightarrow> False"

definition silent :: "run_event list \<Rightarrow> bool" where
  "silent evs \<longleftrightarrow> \<not> list_ex creates evs"

lemma silent_simps [simp]: "silent []" "silent (e # evs) \<longleftrightarrow> \<not> creates e \<and> silent evs" "silent (xs @ ys) \<longleftrightarrow> silent xs \<and> silent ys"
  by (auto simp: silent_def)

definition quiet :: "(db \<Rightarrow> bool) \<Rightarrow> pub \<Rightarrow> pub \<Rightarrow> bool" where
  "quiet P s s' \<longleftrightarrow> (\<exists>evs. pb_log s' = pb_log s @ evs \<and> silent evs) \<and> (P (pb_db s) \<longrightarrow> P (pb_db s'))"

lemma quietI: "pb_log s' = pb_log s @ evs \<Longrightarrow> silent evs \<Longrightarrow> (P (pb_db s) \<Longrightarrow> P (pb_db s')) \<Longrightarrow> quiet P s s'"
  unfolding quiet_def by blast

lemma quiet_refl [simp]: "quiet P s s"
  by (rule quietI[where evs = "[]"]) simp_all

lemma quiet_trans [trans]: "quiet P s t \<Longrightarrow> quiet P t u \<Longrightarrow> quiet P s u"
  unfolding quiet_def by (metis append.assoc silent_simps(3))

lemma others_quiet: "steady w P \<Longrightarrow> quiet P s (others_act w s)"
  by (rule quietI[where evs = "[]"]) (simp_all add: steady_def others_act_def)

lemma event_quiet: "\<not> creates ev \<Longrightarrow> quiet P s (s\<lparr>pb_log := pb_log s @ [ev]\<rparr>)"
  by (rule quietI[where evs = "[ev]"]) simp_all

lemma store_quiet:
  assumes "steady w P" "\<not> creates ev" "\<And>now d. P d \<Longrightarrow> P (snd (op now d))"
  shows "quiet P s (snd (store_as ev w op s))"
proof -
  let ?s = "others_act w s"
  obtain r d where o: "op (wd_clock w (pb_tick ?s)) (pb_db ?s) = (r, d)" by fastforce
  have "P (pb_db ?s) \<Longrightarrow> P d" using assms(3)[of "pb_db ?s" "wd_clock w (pb_tick ?s)"] o by simp
  then have "quiet P ?s (?s\<lparr>pb_db := d, pb_log := pb_log ?s @ [ev]\<rparr>)"
    using assms(2) by (intro quietI[where evs = "[ev]"]) simp_all
  from quiet_trans[OF others_quiet[OF assms(1)] this] show ?thesis by (simp add: store_as_def Let_def o)
qed

lemma store_quietD:
  "steady w P \<Longrightarrow> (\<And>now d. P d \<Longrightarrow> P (snd (op now d))) \<Longrightarrow> store w op s = (r, s') \<Longrightarrow> quiet P s s'"
  using store_quiet[of w P Stored op s] by simp

lemma store_or_fail_quiet:
  assumes "steady w P" "\<And>now d. P d \<Longrightarrow> P (snd (op now d))"
  shows "quiet P s (snd (store_or_fail w op s))"
  using store_quiet[of w P Stored op s] assms unfolding store_or_fail_def by (auto split: prod.split sum.split)

lemma look_quiet: "steady w P \<Longrightarrow> quiet P s (snd (look w s))"
  by (rule quietI[where evs = "[SawPull (wd_live w (pb_tick s + 1))]"]) (simp_all add: look_def others_act_def steady_def Let_def)

lemma posted_if_quiet: "steady w P \<Longrightarrow> \<not> creates ev \<Longrightarrow> quiet P s (posted_if c ev w s)"
  using quiet_trans[OF others_quiet event_quiet, of w P ev s] by (simp add: posted_if_def Let_def)

lemma continue_quiet:
  assumes "quiet P s (snd m)" "\<And>a t. m = (Go a, t) \<Longrightarrow> quiet P t (snd (f a t))"
  shows "quiet P s (snd (continue m f))"
proof (cases m)
  case (Pair r t)
  then show ?thesis using assms quiet_trans[of P s t] by (cases r) auto
qed

lemma consumed_processed: "consumed k (recordProcessed r now d) = consumed k d"
  by (simp add: consumed_def recordProcessed_def)

lemma consumed_skip: "consumed k (snd (recordSkipUnlessPosted i err now d)) = consumed k d"
  by (simp add: recordSkipUnlessPosted_def consumed_processed)

lemma consumed_claim: "consumed k (snd (tryClaimReviewHeadWithOutcome i uuid now d)) = consumed k d"
  using consumptions_head_op[of "HClaim i uuid now" d] by (simp add: consumed_def)

lemma consumed_dry_run: "consumed k (snd (tryRecordDryRun i now d)) = consumed k d"
  by (simp add: tryRecordDryRun_def consumed_def Let_def)

text \<open>Reconciling a head touches the queue, the sessions and the readiness only.\<close>

definition head_tables :: "db \<Rightarrow> consumption_row list \<times> head_claim_row list \<times> processed_row list" where
  "head_tables d = (consumptions d, claims d, processed d)"

lemma queue_update_heads: "updateReviewQueueJobState h u d = (r, d') \<Longrightarrow> head_tables d' = head_tables d"
  by (auto simp: updateReviewQueueJobState_def head_tables_def Let_def split: option.splits)

lemma session_update_heads: "updateReviewerSessionJobState repo pull head js ps now d = (r, d') \<Longrightarrow> head_tables d' = head_tables d"
  by (auto simp: updateReviewerSessionJobState_def expireDrainedReviewerSessionIfComplete_def head_tables_def Let_def
      split: option.splits if_splits)

lemma readiness_heads: "recordReviewReadiness h x d = (r, d') \<Longrightarrow> head_tables d' = head_tables d"
  by (auto simp: recordReviewReadiness_def head_tables_def Let_def split: option.splits if_splits)

lemma settle_job_heads: "settle_job h i p x d = (r, d') \<Longrightarrow> head_tables d' = head_tables d"
  by (auto simp: settle_job_def dest!: queue_update_heads session_update_heads split: prod.splits sum.splits if_splits)

lemma settle_jobs_heads: "settle_jobs h i p xs d = (r, d') \<Longrightarrow> head_tables d' = head_tables d"
proof (induction xs arbitrary: d)
  case (Cons x xs)
  obtain o1 d1 where "settle_job h i p x d = (o1, d1)" by fastforce
  with Cons show ?case by (auto dest: settle_job_heads split: sum.splits)
qed simp

lemma repair_heads: "recordDirectReviewReadinessIfRepairable h i p x d = (r, d') \<Longrightarrow> head_tables d' = head_tables d"
  by (auto simp: recordDirectReviewReadinessIfRepairable_def dest!: readiness_heads split: if_splits prod.splits sum.splits)

lemma settle_posted_heads: "settle_posted_head h post i p xs d = (r, d') \<Longrightarrow> head_tables d' = head_tables d"
  by (auto simp: settle_posted_head_def Let_def dest!: settle_jobs_heads readiness_heads repair_heads
      split: if_splits prod.splits sum.splits)

lemma reconcile_heads: "head_tables (snd (reconcileProcessedHeadAfterDirectReview h post i d)) = head_tables d"
proof -
  obtain r d' where r: "reconcileProcessedHeadAfterDirectReview h post i d = (r, d')" by fastforce
  then have "head_tables d' = head_tables d"
    by (auto simp: reconcileProcessedHeadAfterDirectReview_def Let_def dest: settle_posted_heads
        split: if_splits sum.splits option.splits)
  then show ?thesis by (simp add: r)
qed

lemma consumed_reconcile: "consumed k (snd (reconcileProcessedHeadAfterDirectReview h post i d)) = consumed k d"
  using reconcile_heads[of h post i d] by (simp add: head_tables_def consumed_def)


lemma consumed_ledger:
  assumes "consumed k d"
  shows "consumed k (snd (tryConsumeReviewEventAuthorization a d))" "consumed k (snd (recordAuthorizedReviewPosted p d))"
    "consumed k (snd (recordAuthorizedReviewNoop n d))" "consumed k (snd (recordReviewEventAuthorizationIncident h x d))"
    "consumed k (snd (recordReviewReadiness h y d))"
  using consumption_hold.held_step[OF assms, of "AConsume a"] consumption_hold.held_step[OF assms, of "APosted p"]
    consumption_hold.held_step[OF assms, of "ANoop n"] consumption_hold.held_step[OF assms, of "AIncident h x"]
    consumption_hold.held_step[OF assms, of "AReadiness h y"] by simp_all

lemma consumed_release: "consumed k (releaseReviewHeadClaim uuid d) = consumed k d"
  by (simp add: consumed_def releaseReviewHeadClaim_def)

lemmas consumed_keeps = consumed_processed consumed_skip consumed_claim consumed_dry_run consumed_reconcile consumed_ledger

section \<open>How a review comes to be created\<close>

lemma phaseE:
  assumes "quiet P s s1" "continue m f = (x, s')" "quiet P s1 (snd m)" "\<not> quiet P s s'"
  obtains a t where "m = (Go a, t)" "quiet P s t" "f a t = (x, s')"
proof (cases m)
  case (Pair y t)
  then have "quiet P s t" using quiet_trans[OF assms(1,3)] by simp
  then show thesis using that assms(2,4) Pair by (cases y) auto
qed

definition created :: "pub \<Rightarrow> review_event set" where
  "created s = {e. CreatedReview e \<in> set (pb_log s)}"

lemma silent_created: "silent evs \<Longrightarrow> CreatedReview e \<notin> set evs"
  by (auto simp: silent_def list_ex_iff)

lemma quiet_created: "quiet P s s' \<Longrightarrow> created s' = created s"
  by (auto simp: quiet_def created_def dest: silent_created)


text \<open>A run that passes a lifecycle check has just seen the pull request open, at the head and base of its plan.\<close>

lemma lifecycle_Go:
  assumes "recordPullLifecycleBeforePost w i s = (Go (), s')"
  shows "\<exists>l. pb_log s' = pb_log s @ [SawPull (Some l)] \<and> \<not> isClosedPull l \<and> \<not> stale_pull i l"
  using assms
  by (auto simp: recordPullLifecycleBeforePost_def look_def others_act_def Let_def split: prod.splits option.splits if_splits)

lemma store_log: "pb_log (snd (store_as ev w op s)) = pb_log s @ [ev]"
  by (simp add: store_as_def others_act_def Let_def split: prod.split)

lemma store_created: "created (snd (store w op s)) = created s"
  by (auto simp: created_def store_log)

lemma read_processed_quiet: "steady w P \<Longrightarrow> quiet P s (snd (read_processed w i s))"
  unfolding read_processed_def by (rule store_quiet) simp_all

lemma lookup_quiet: "steady w P \<Longrightarrow> quiet P s (snd (lookupQueuedReviewEventAuthorization w i s))"
  using quiet_trans[OF others_quiet event_quiet, of w P "FetchedComment c" s for c]
  by (auto simp: lookupQueuedReviewEventAuthorization_def Let_def split: option.split prod.split)


text \<open>A property of the store that every operation of a run keeps is lost by no phase, unless another process
  takes it away; and only the creation of the review adds a public event other than a look.\<close>

locale durable =
  fixes P :: "db \<Rightarrow> bool"
  assumes P_processed: "P d \<Longrightarrow> P (recordProcessed r now d)"
    and P_claim: "P d \<Longrightarrow> P (snd (tryClaimReviewHeadWithOutcome ci uuid now d))"
    and P_release: "P d \<Longrightarrow> P (releaseReviewHeadClaim uuid d)"
    and P_dry_run: "P d \<Longrightarrow> P (snd (tryRecordDryRun di now d))"
    and P_reconcile: "P d \<Longrightarrow> P (snd (reconcileProcessedHeadAfterDirectReview h post rn d))"
    and P_consume: "P d \<Longrightarrow> P (snd (tryConsumeReviewEventAuthorization a d))"
    and P_posted: "P d \<Longrightarrow> P (snd (recordAuthorizedReviewPosted po d))"
    and P_noop: "P d \<Longrightarrow> P (snd (recordAuthorizedReviewNoop no d))"
    and P_incident: "P d \<Longrightarrow> P (snd (recordReviewEventAuthorizationIncident h ic d))"
    and P_readiness: "P d \<Longrightarrow> P (snd (recordReviewReadiness h ri d))"
begin

lemma P_skip: "P d \<Longrightarrow> P (snd (recordSkipUnlessPosted i err now d))"
  by (simp add: recordSkipUnlessPosted_def P_processed)

lemmas P_keeps = P_processed P_claim P_release P_dry_run P_reconcile P_consume P_posted P_noop P_incident P_readiness P_skip

lemma reconcile_safely_quiet: "steady w P \<Longrightarrow> quiet P s (reconcile_safely w i s)"
  unfolding reconcile_safely_def by (rule store_quiet) (simp_all add: P_keeps)

lemma lifecycle_quiet:
  assumes "steady w P"
  shows "quiet P s (snd (recordPullLifecycleBeforePost w i s))"
proof -
  obtain l s1 where l: "look w s = (l, s1)" by fastforce
  then have q: "quiet P s s1" using look_quiet[OF assms, of s] by simp
  have "quiet P s1 (snd (store w (recordClosedPullBeforeReviewPost i x) s1))"
    "quiet P s1 (snd (store w (recordStaleHeadSkip i x) s1))" for x
    by (rule store_quiet[OF assms]; simp add: recordClosedPullBeforeReviewPost_def recordStaleHeadSkip_def P_skip)+
  then show ?thesis using l q
    by (auto simp: recordPullLifecycleBeforePost_def split: option.split intro: quiet_trans[OF q])
qed

lemma checked_quiet: "steady w P \<Longrightarrow> quiet P s (snd (checked_if c w i s))"
  by (simp add: checked_if_def lifecycle_quiet)

lemma decide_quiet:
  assumes "steady w P"
  shows "quiet P s (snd (decideAndConsumeReviewEvent w i a dry s))"
proof -
  have "quiet P s t"
    if "store w (\<lambda>now. tryConsumeReviewEventAuthorization (auth_of i author c now)) s = (x, t)" for author c x t
    by (rule store_quietD[OF assms _ that]) (simp add: P_keeps)
  then show ?thesis
    by (cases a) (auto simp: decideAndConsumeReviewEvent_def Let_def split: prod.split sum.split)
qed

lemma concurrent_quiet:
  assumes "steady w P"
  shows "quiet P s (snd (check_concurrent_consumption w i s))"
proof (cases "pu_mode i = TrustedCommandOnly \<and> pu_queued_owner i")
  case True
  obtain c s1 where g: "store w (\<lambda>_ d. (getReviewEventAuthorizationConsumption (pu_repo i) (pu_number i) (pu_head i) d, d)) s = (c, s1)"
    by fastforce
  have q: "quiet P s s1" by (rule store_quietD[OF assms _ g]) simp
  have r: "quiet P s1 (reconcile_safely w i s1)" by (rule reconcile_safely_quiet[OF assms])
  have i: "quiet P s1 (snd (continue (store_or_fail w (\<lambda>now. recordReviewEventAuthorizationIncident (wd_host w) (f now)) s1)
      (\<lambda>recorded s2. if recorded then (Done a, s2) else (Done b, reconcile_safely w i s2))))" for f a b
    by (rule continue_quiet[OF store_or_fail_quiet[OF assms]])
      (simp_all add: P_keeps reconcile_safely_quiet[OF assms])
  show ?thesis
    using True q
    by (auto simp: check_concurrent_consumption_def g Let_def split: sum.split option.split
        intro: quiet_trans[OF q i] quiet_trans[OF q r])
qed (auto simp: check_concurrent_consumption_def)

lemma noop_quiet:
  assumes "steady w P"
  shows "quiet P s (snd (check_noop w i r s))"
proof -
  obtain p s1 where g: "read_processed w i s = (p, s1)" by fastforce
  have q: "quiet P s s1" using read_processed_quiet[OF assms, of s i] g by simp
  have n: "quiet P s1 (snd (continue (store_or_fail w (\<lambda>now. recordAuthorizedReviewNoop (f now)) s1)
      (\<lambda>x s2. (Done a, reconcile_safely w i s2))))" for f a
    by (rule continue_quiet[OF store_or_fail_quiet[OF assms]])
      (simp_all add: P_keeps reconcile_safely_quiet[OF assms])
  show ?thesis
    using q by (auto simp: check_noop_def g split: auth_attempt.split intro: quiet_trans[OF q n])
qed

lemma record_created_quiet:
  assumes "steady w P"
  shows "quiet P s (snd (record_created w i r event rid url preserve s))"
proof -
  have a: "quiet P s t" if "store w (\<lambda>now. recordAuthorizedReviewPosted (f now)) s = (x, t)" for f x t
    by (rule store_quietD[OF assms _ that]) (simp add: P_keeps)
  have b: "quiet P s (snd (store w (\<lambda>now d. ((), recordProcessed (posted_record i event url) now d)) s))"
    by (rule store_quiet[OF assms]) (simp_all add: P_keeps)
  show ?thesis
    using b by (cases "re_authorization r")
      (auto simp: record_created_def Let_def split: option.split prod.split sum.split dest: a)
qed

lemma record_uncertainty_quiet:
  assumes "steady w P"
  shows "quiet P s (snd (record_uncertainty w i changed commanded s))"
proof -
  obtain p s1 where g: "read_processed w i s = (p, s1)" by fastforce
  have q: "quiet P s s1" using read_processed_quiet[OF assms, of s i] g by simp
  have m: "quiet P s1 (snd (store w (\<lambda>now d. ((), recordProcessed x now d)) s1))" for x
    by (rule store_quiet[OF assms]) (simp_all add: P_keeps)
  have n: "quiet P t (snd (continue (store_or_fail w (\<lambda>now. recordReviewReadiness (wd_host w) (f now)) t) (\<lambda>x s2. (Go (), s2))))" for f t
    by (rule continue_quiet[OF store_or_fail_quiet[OF assms]]) (simp_all add: P_keeps)
  show ?thesis
    using q by (auto simp: record_uncertainty_def g Let_def split: option.split intro: quiet_trans[OF q quiet_trans[OF m n]])
qed

lemma release_capacity_quiet: "steady w P \<Longrightarrow> quiet P s (release_capacity w i s)"
  by (simp add: release_capacity_def store_quiet P_keeps)

lemma settle_quiet:
  assumes "steady w P"
  shows "quiet P s (snd (settle_posted w i verified manual s))"
proof -
  obtain l s1 where l: "look w s = (l, s1)" by fastforce
  have q: "quiet P s s1" using look_quiet[OF assms, of s] l by simp
  have "quiet P s1 (snd (settle_posted w i verified manual s))"
    unfolding settle_posted_def l Let_def prod.case
    by (rule continue_quiet) (auto simp: record_uncertainty_quiet[OF assms] release_capacity_quiet[OF assms]
        intro: quiet_trans[OF release_capacity_quiet[OF assms] reconcile_safely_quiet[OF assms]])
  then show ?thesis by (rule quiet_trans[OF q])
qed

lemma claim_head_quiet:
  assumes "steady w P"
  shows "quiet P s (snd (claim_head w i b s))"
proof -
  obtain c s1 where g: "store w (\<lambda>now. tryClaimReviewHeadWithOutcome (publish_claim w i b now) (wd_claim_id w) now) s = (c, s1)"
    by fastforce
  have q: "quiet P s s1" by (rule store_quietD[OF assms _ g]) (simp add: P_keeps)
  show ?thesis
    using q quiet_trans[OF q reconcile_safely_quiet[OF assms, of s1 i]]
    by (auto simp: claim_head_def g split: sum.split claim_attempt.split claim_block.split)
qed

lemmas phases_quiet = lifecycle_quiet checked_quiet lookup_quiet decide_quiet concurrent_quiet noop_quiet read_processed_quiet
  record_created_quiet settle_quiet claim_head_quiet

lemma create_review_log:
  assumes "create_review w i r manual s = (x, s')" "steady w P"
  shows "\<exists>s3. pb_log s3 = pb_log s @ [ReadHead, CreatedReview (pd_selected (re_decision r))] \<and> quiet P s3 s' \<and>
    (P (pb_db s) \<longrightarrow> P (pb_db s3))"
proof -
  obtain prior s1 where g: "read_processed w i s = (prior, s1)" by fastforce
  have q: "quiet P s s1" using read_processed_quiet[OF assms(2), of s i] g by simp
  have l: "pb_log s1 = pb_log s @ [ReadHead]" using store_log[of ReadHead w _ s] g by (metis read_processed_def snd_conv)
  let ?s2 = "others_act w s1"
  let ?s3 = "?s2\<lparr>pb_log := pb_log ?s2 @ [CreatedReview (pd_selected (re_decision r))]\<rparr>"
  have c: "P (pb_db s) \<longrightarrow> P (pb_db ?s3)"
    using q others_quiet[OF assms(2), of s1] by (auto simp: quiet_def)
  have "quiet P ?s3 t"
    if c: "continue (record_created w i r e rid url p ?s3) (\<lambda>x s4. settle_posted w i v manual s4) = (y, t)" for e rid url p v y t
  proof -
    have "quiet P ?s3 (snd (y, t))"
      unfolding c[symmetric] by (rule continue_quiet[OF record_created_quiet[OF assms(2)] settle_quiet[OF assms(2)]])
    then show ?thesis by simp
  qed
  then have "quiet P ?s3 s'"
    using assms(1) by (auto simp: create_review_def g Let_def split: option.splits)
  moreover have "pb_log ?s3 = pb_log s @ [ReadHead, CreatedReview (pd_selected (re_decision r))]"
    by (simp add: others_act_def l)
  ultimately show ?thesis using c by blast
qed

lemma publish_decided_shape:
  assumes st: "steady w P" and run: "publish_decided w i r manual s = (x, s')" and nq: "\<not> quiet P s s'"
  obtains s5 evs l where "quiet P s s5" "pb_log s5 = pb_log s @ evs @ [SawPull (Some l)]" "silent evs"
    "\<not> isClosedPull l" "\<not> stale_pull i l" "create_review w i r manual s5 = (x, s')"
proof -
  note q = phases_quiet[OF st]
  let ?w = "posted_if (pu_walkthrough_posted i) PostedWalkthrough w" and ?e = "posted_if (pu_enrichment_posted i) PostedEnrichment w"
  have p: "quiet P t (?w t)" "quiet P t (?e t)" for t by (simp_all add: posted_if_quiet[OF st])
  obtain u s1 where r1: "checked_if (re_consumed r) w i s = (Go u, s1)" "quiet P s s1" "continue (check_noop w i r s1) (\<lambda>_ s2.
     continue (checked_if (pu_walkthrough_posted i) w i (?w s2)) (\<lambda>_ s3.
     continue (checked_if (pu_enrichment_posted i) w i (?e s3)) (\<lambda>_ s4.
     continue (recordPullLifecycleBeforePost w i s4) (\<lambda>_ s5.
       create_review w i r manual s5)))) = (x, s')"
    by (rule phaseE[OF quiet_refl run[unfolded publish_decided_def] q(2) nq])
  obtain v s2 where r2: "check_noop w i r s1 = (Go v, s2)" "quiet P s s2" "continue (checked_if (pu_walkthrough_posted i) w i (?w s2)) (\<lambda>_ s3.
     continue (checked_if (pu_enrichment_posted i) w i (?e s3)) (\<lambda>_ s4.
     continue (recordPullLifecycleBeforePost w i s4) (\<lambda>_ s5.
       create_review w i r manual s5))) = (x, s')"
    by (rule phaseE[OF r1(2,3) q(6) nq])
  obtain v s3 where r3: "checked_if (pu_walkthrough_posted i) w i (?w s2) = (Go v, s3)" "quiet P s s3"
    "continue (checked_if (pu_enrichment_posted i) w i (?e s3)) (\<lambda>_ s4.
     continue (recordPullLifecycleBeforePost w i s4) (\<lambda>_ s5. create_review w i r manual s5)) = (x, s')"
    by (rule phaseE[OF quiet_trans[OF r2(2) p(1)] r2(3) q(2) nq])
  obtain v s4 where r4: "checked_if (pu_enrichment_posted i) w i (?e s3) = (Go v, s4)" "quiet P s s4"
    "continue (recordPullLifecycleBeforePost w i s4) (\<lambda>_ s5. create_review w i r manual s5) = (x, s')"
    by (rule phaseE[OF quiet_trans[OF r3(2) p(2)] r3(3) q(2) nq])
  obtain v s5 where r5: "recordPullLifecycleBeforePost w i s4 = (Go v, s5)" "quiet P s s5" "create_review w i r manual s5 = (x, s')"
    by (rule phaseE[OF r4(2,3) q(1) nq])
  obtain evs where "pb_log s4 = pb_log s @ evs" "silent evs" using r4(2) by (auto simp: quiet_def)
  with lifecycle_Go[of w i s4 s5] r5 that[of s5 evs] show thesis by auto
qed

lemma publish_claimed_shape:
  assumes st: "steady w P" and run: "publish_claimed w i m s = (x, s')" and nq: "\<not> quiet P s s'"
  obtains a s1 s2 s4 r s5 manual where "quiet P s s1" "lookupQueuedReviewEventAuthorization w i s1 = (a, s2)"
    "quiet P s s4" "decideAndConsumeReviewEvent w i a False s4 = (r, s5)" "publish_decided w i r manual s5 = (x, s')"
proof -
  note q = phases_quiet[OF st]
  obtain u s1 where r1: "recordPullLifecycleBeforePost w i s = (Go u, s1)" "quiet P s s1" "(case lookupQueuedReviewEventAuthorization w i s1 of
         (a, s2) \<Rightarrow>
           continue (check_concurrent_consumption w i s2) (\<lambda>_ s3.
           continue (checked_if (pu_mode i = TrustedCommandOnly) w i s3) (\<lambda>_ s4.
             case decideAndConsumeReviewEvent w i a False s4 of
               (r, s5) \<Rightarrow> publish_decided w i r (m \<or> attempt_head a \<noteq> None) s5))) = (x, s')"
    by (rule phaseE[OF quiet_refl run[unfolded publish_claimed_def] q(1) nq])
  obtain a s2 where a: "lookupQueuedReviewEventAuthorization w i s1 = (a, s2)" by fastforce
  have q2: "quiet P s s2" using q(3)[of s1 i] a quiet_trans[OF r1(2)] by simp
  obtain v s3 where r3: "check_concurrent_consumption w i s2 = (Go v, s3)" "quiet P s s3" "continue (checked_if (pu_mode i = TrustedCommandOnly) w i s3) (\<lambda>_ s4.
             case decideAndConsumeReviewEvent w i a False s4 of
               (r, s5) \<Rightarrow> publish_decided w i r (m \<or> attempt_head a \<noteq> None) s5) = (x, s')"
    by (rule phaseE[OF q2 r1(3)[unfolded a prod.case] q(5) nq])
  obtain v s4 where r4: "checked_if (pu_mode i = TrustedCommandOnly) w i s3 = (Go v, s4)" "quiet P s s4"
    "(case decideAndConsumeReviewEvent w i a False s4 of (r, s5) \<Rightarrow> publish_decided w i r (m \<or> attempt_head a \<noteq> None) s5) = (x, s')"
    by (rule phaseE[OF r3(2,3) q(2) nq])
  then show thesis using that[OF r1(2) a r4(2)] by (auto split: prod.splits)
qed

lemma publish_review_shape:
  assumes st: "steady w P" and run: "publish_review w i s = (x, s')" and nq: "\<not> quiet P s s'"
  obtains b s2 c s3 m s4 where "\<not> pu_dry_run i" "claim_head w i b s2 = (Go c, s3)" "quiet P s s3"
    "publish_claimed w i m s3 = (x, s4)" "\<not> quiet P s3 s4" "quiet P s4 s'"
    "s' = snd (store w (\<lambda>_ d. ((), releaseReviewHeadClaim (claim_id c) d)) s4)"
proof (cases "pu_dry_run i")
  case True
  obtain a s1 where a: "lookupQueuedReviewEventAuthorization w i s = (a, s1)" by fastforce
  obtain r s2 where r: "decideAndConsumeReviewEvent w i a True s1 = (r, s2)" by fastforce
  obtain p s3 where p: "read_processed w i s2 = (p, s3)" by fastforce
  have "quiet P s s3"
    using phases_quiet(3,4,7)[OF st] a r p quiet_trans by (metis snd_conv)
  moreover have "quiet P s3 (snd (publish_dry_run w i b ev m s3 :: unit step \<times> pub))" for b ev m
  proof -
    have "quiet P s3 t" if "store w (\<lambda>now. tryRecordDryRun (f now) now) s3 = (y, t)" for f y t
      by (rule store_quietD[OF st _ that]) (simp add: P_keeps)
    then show ?thesis by (auto simp: publish_dry_run_def split: prod.split)
  qed
  moreover obtain b ev m where "publish_dry_run w i b ev m s3 = (x, s')"
    using run True by (auto simp: publish_review_def a r p Let_def)
  ultimately have "quiet P s s'" by (metis quiet_trans snd_conv)
  with nq show ?thesis by simp
next
  case False
  obtain p s2 where p: "read_processed w i s = (p, s2)" by fastforce
  have q2: "quiet P s s2" using phases_quiet(7)[OF st, of s i] p by simp
  obtain m b where c: "continue (claim_head w i b s2) (\<lambda>c s3. case publish_claimed w i m s3 of
      (r, s4) \<Rightarrow> (r, snd (store w (\<lambda>_ d. ((), releaseReviewHeadClaim (claim_id c) d)) s4))) = (x, s')"
    using run False by (auto simp: publish_review_def p Let_def)
  obtain c s3 where s3: "claim_head w i b s2 = (Go c, s3)" "quiet P s s3"
    "(case publish_claimed w i m s3 of
      (r, s4) \<Rightarrow> (r, snd (store w (\<lambda>_ d. ((), releaseReviewHeadClaim (claim_id c) d)) s4))) = (x, s')"
    by (rule phaseE[OF q2 c phases_quiet(10)[OF st] nq])
  obtain s4 where s4: "publish_claimed w i m s3 = (x, s4)" "s' = snd (store w (\<lambda>_ d. ((), releaseReviewHeadClaim (claim_id c) d)) s4)"
    using s3(3) by (auto split: prod.splits)
  have q4: "quiet P s4 s'"
    unfolding s4(2) by (rule store_quiet[OF st]) (simp_all add: P_keeps)
  have "\<not> quiet P s3 s4" using nq quiet_trans[OF s3(2) quiet_trans[OF _ q4]] by blast
  from that[OF False s3(1,2) s4(1) this q4 s4(2)] show thesis .
qed

end

interpretation ledger: durable "consumed k" for k
  by unfold_locales (simp_all add: consumed_keeps consumed_release)

interpretation runs: durable "\<lambda>_. True"
  by unfold_locales simp_all

text \<open>The comment that authorizes requested changes on a head.\<close>

definition authorizing_comment :: "publish_input \<Rightarrow> string \<Rightarrow> issue_comment \<Rightarrow> bool" where
  "authorizing_comment i author cm \<longleftrightarrow> pu_comment_id i = Some (ic_id cm) \<and> map_option ca_login (ic_user cm) = Some author \<and>
     isExplicitTrustedAuthor author (pu_commands i) \<and>
     (\<exists>h. normalizeHeadSha (pu_head i) = Some h \<and>
       parseRequestChangesCommand (ic_body cm) (cc_mentions (pu_commands i)) = Some (Parsed (pu_repo i) (pu_number i) h))"

lemma collect_single:
  assumes "collectReviewEventAuthorizationAttempts [cm] c t = (as, Eligible h author n, qs)"
  shows "n = ic_id cm \<and> comment_attempt c t cm = Some (Eligible h author n, Some \<lparr>rq_comment_id = n, rq_author = author,
      rq_repo = tg_repo t, rq_pull = tg_pull t, rq_head = h\<rparr>)"
proof -
  obtain x where x: "comment_attempt c t cm = Some (Eligible h author n, x)"
    using assms by (auto simp: collectReviewEventAuthorizationAttempts_def selectReviewEventAuthorizationAttempt_def
        List.map_filter_simps split: if_splits option.splits)
  with comment_attempt_eligible[OF x] obtain q where q: "x = Some q" by auto
  from comment_attempt_request[OF x[unfolded q]] x q show ?thesis
    by (cases q) auto
qed

lemma lookup_eligible:
  assumes "lookupQueuedReviewEventAuthorization w i s = (Eligible h author c, s')"
  shows "normalizeHeadSha (pu_head i) = Some h \<and> (\<exists>n cm. wd_comment w n c = Some cm \<and> ic_id cm = c \<and> authorizing_comment i author cm)"
proof -
  obtain n cm as qs where cm: "wd_comment w n (ic_id cm) = Some cm" "pu_comment_id i = Some (ic_id cm)"
    "collectReviewEventAuthorizationAttempts [cm] (pu_commands i) (event_target i) = (as, Eligible h author c, qs)"
    using assms by (auto simp: lookupQueuedReviewEventAuthorization_def Let_def split: if_splits option.splits prod.splits)
  from collect_single[OF cm(3)] comment_attempt_request[of "pu_commands i" "event_target i" cm]
  show ?thesis using cm(1,2) unfolding authorizing_comment_def by (fastforce simp: event_target_def)
qed

definition event_key :: "publish_input \<Rightarrow> head_key" where
  "event_key i = (pu_repo i, pu_number i, to_lower (pu_head i))"

lemma decide_changes:
  assumes "decideAndConsumeReviewEvent w i a False s = (r, s')" "pu_mode i = TrustedCommandOnly"
    "pd_selected (re_decision r) = EV_REQUEST_CHANGES" "steady w (consumed (event_key i))"
  shows "pu_candidate i = EV_REQUEST_CHANGES \<and> (\<exists>h author c. a = Eligible h author c) \<and> re_consumed r \<and>
    \<not> consumed (event_key i) (pb_db s) \<and> consumed (event_key i) (pb_db s')"
proof -
  have sel: "pu_candidate i = EV_REQUEST_CHANGES \<and> attempt_head (re_authorization r) \<noteq> None"
    if "re_decision r = decideReviewEventPolicy (pu_mode i) (pu_candidate i) (pu_head i) (re_authorization r)"
    using assms(2,3) that by (cases "re_authorization r"; cases "pu_candidate i") (auto simp: decideReviewEventPolicy_def Let_def split: prod.splits)
  have r: "re_decision r = decideReviewEventPolicy (pu_mode i) (pu_candidate i) (pu_head i) (re_authorization r)"
    using assms(1) by (auto simp: decideAndConsumeReviewEvent_def Let_def split: prod.splits)
  obtain h author c s1 where a: "a = Eligible h author c" "re_consumed r"
    "store w (\<lambda>now. tryConsumeReviewEventAuthorization (auth_of i author c now)) s = (Inr True, s')"
    using assms(1,2) sel[OF r] by (cases a) (auto simp: decideAndConsumeReviewEvent_def Let_def split: prod.splits sum.splits if_splits)
  let ?s = "others_act w s"
  obtain d where d: "tryConsumeReviewEventAuthorization (auth_of i author c (wd_clock w (pb_tick ?s))) (pb_db ?s) = (Inr True, d)" "pb_db s' = d"
    using a(3) by (auto simp: store_as_def Let_def split: prod.splits)
  have key: "ai_key (auth_of i author c t) = event_key i" for t by (simp add: ai_key_def auth_of_def event_key_def)
  have "\<not> consumed (event_key i) (pb_db ?s)"
    using d(1) key by (auto simp: tryConsumeReviewEventAuthorization_def consumed_get split: option.splits)
  moreover have "consumed (event_key i) d"
    using d(1) by (auto simp: tryConsumeReviewEventAuthorization_def consumed_def fresh_consumption_def co_key_def
        auth_of_def event_key_def split: option.splits)
  moreover have "consumed (event_key i) (pb_db s) \<longrightarrow> consumed (event_key i) (pb_db ?s)"
    using assms(4) by (simp add: steady_def others_act_def)
  ultimately show ?thesis using sel[OF r] a(1,2) d(2) by auto
qed

lemma decide_source:
  assumes "decideAndConsumeReviewEvent w i a False s = (r, s')" "pd_selected (re_decision r) = EV_REQUEST_CHANGES"
  shows "pu_candidate i = EV_REQUEST_CHANGES \<and> (pu_mode i = TrustedCommandOnly \<longrightarrow> (\<exists>h author c. a = Eligible h author c))"
proof -
  have "re_decision r = decideReviewEventPolicy (pu_mode i) (pu_candidate i) (pu_head i) (re_authorization r)"
    using assms(1) by (auto simp: decideAndConsumeReviewEvent_def Let_def split: prod.splits)
  then have "pu_candidate i = EV_REQUEST_CHANGES \<and> (pu_mode i = TrustedCommandOnly \<longrightarrow> attempt_head (re_authorization r) \<noteq> None)"
    using assms(2) by (cases "re_authorization r"; cases "pu_candidate i"; cases "pu_mode i")
      (auto simp: decideReviewEventPolicy_def Let_def split: prod.splits)
  then show ?thesis
    using assms(1) by (cases a) (auto simp: decideAndConsumeReviewEvent_def Let_def split: prod.splits sum.splits if_splits)
qed

text \<open>In any mode requested changes come from a candidate that requests them.\<close>

lemma changes_source:
  assumes "publish_review w i s = (x, s')" "EV_REQUEST_CHANGES \<in> created s'" "EV_REQUEST_CHANGES \<notin> created s"
  shows "pu_candidate i = EV_REQUEST_CHANGES \<and> \<not> pu_dry_run i \<and>
    (pu_mode i = TrustedCommandOnly \<longrightarrow> (\<exists>n cm author. wd_comment w n (ic_id cm) = Some cm \<and> authorizing_comment i author cm))"
proof -
  let ?q = "quiet (\<lambda>_. True)"
  have st: "steady w (\<lambda>_. True)" by (simp add: steady_def)
  have nq: "\<not> ?q s s'" using quiet_created[of "\<lambda>_. True" s s'] assms(2,3) by auto
  obtain b s2 c s3 m s4 where s4: "\<not> pu_dry_run i" "?q s s3" "publish_claimed w i m s3 = (x, s4)" "\<not> ?q s3 s4" "?q s4 s'"
    using runs.publish_review_shape[OF st assms(1) nq] by metis
  obtain a t1 t2 t4 r t5 manual where t: "lookupQueuedReviewEventAuthorization w i t1 = (a, t2)" "?q s3 t4"
    "decideAndConsumeReviewEvent w i a False t4 = (r, t5)" "publish_decided w i r manual t5 = (x, s4)"
    using runs.publish_claimed_shape[OF st s4(3,4)] by metis
  have q: "?q s t5" using quiet_trans[OF s4(2) quiet_trans[OF t(2)]] runs.decide_quiet[OF st, of t4 i a False] t(3) by simp
  have "\<not> ?q t5 s4" using quiet_created[OF quiet_trans[OF q quiet_trans[OF _ s4(5)]]] assms(2,3) by auto
  then obtain s5 where s5: "?q t5 s5" "create_review w i r manual s5 = (x, s4)"
    by (rule runs.publish_decided_shape[OF st t(4)])
  obtain s6 where s6: "pb_log s6 = pb_log s5 @ [ReadHead, CreatedReview (pd_selected (re_decision r))]" "?q s6 s4"
    using runs.create_review_log[OF s5(2) st] by auto
  have "EV_REQUEST_CHANGES \<in> created s6" "EV_REQUEST_CHANGES \<notin> created s5"
    using assms(2,3) quiet_created[OF quiet_trans[OF s6(2) s4(5)]] quiet_created[OF quiet_trans[OF q s5(1)]] by auto
  then have "pd_selected (re_decision r) = EV_REQUEST_CHANGES" using s6(1) by (auto simp: created_def)
  from decide_source[OF t(3) this] s4(1) show ?thesis using lookup_eligible t(1) by blast
qed

lemma changes_requested:
  assumes "steady w (consumed (event_key i))" "pu_mode i = TrustedCommandOnly" "publish_review w i s = (x, s')"
    "CreatedReview EV_REQUEST_CHANGES \<in> set (pb_log s')" "CreatedReview EV_REQUEST_CHANGES \<notin> set (pb_log s)"
  shows "\<not> consumed (event_key i) (pb_db s) \<and> consumed (event_key i) (pb_db s') \<and> \<not> pu_dry_run i \<and>
    pu_candidate i = EV_REQUEST_CHANGES \<and>
    (\<exists>n cm author. wd_comment w n (ic_id cm) = Some cm \<and> authorizing_comment i author cm)"
proof -
  let ?P = "consumed (event_key i)"
  have cr: "EV_REQUEST_CHANGES \<notin> created s" "EV_REQUEST_CHANGES \<in> created s'" using assms(4,5) by (simp_all add: created_def)
  obtain b s2 c s3 m s4 where s4: "\<not> pu_dry_run i" "quiet ?P s s3" "publish_claimed w i m s3 = (x, s4)" "\<not> quiet ?P s3 s4" "quiet ?P s4 s'"
    using ledger.publish_review_shape[OF assms(1,3)] cr quiet_created[of ?P s s'] by metis
  obtain a t1 t2 t4 r t5 manual where t: "lookupQueuedReviewEventAuthorization w i t1 = (a, t2)" "quiet ?P s3 t4"
    "decideAndConsumeReviewEvent w i a False t4 = (r, t5)" "publish_decided w i r manual t5 = (x, s4)"
    using ledger.publish_claimed_shape[OF assms(1) s4(3,4)] by metis
  have q5: "quiet ?P t4 t5" using ledger.decide_quiet[OF assms(1), of t4 i a False] t(3) by simp
  have q: "quiet ?P s t4" "quiet ?P s t5" using quiet_trans[OF s4(2) t(2)] quiet_trans[OF _ q5] by auto
  have nq: "\<not> quiet ?P t5 s4" using quiet_created[OF quiet_trans[OF q(2) quiet_trans[OF _ s4(5)]]] cr by auto
  obtain s5 where s5: "quiet ?P t5 s5" "create_review w i r manual s5 = (x, s4)"
    by (rule ledger.publish_decided_shape[OF assms(1) t(4) nq])
  obtain s6 where s6: "pb_log s6 = pb_log s5 @ [ReadHead, CreatedReview (pd_selected (re_decision r))]" "quiet ?P s6 s4"
    "?P (pb_db s5) \<longrightarrow> ?P (pb_db s6)"
    using ledger.create_review_log[OF s5(2) assms(1)] by auto
  have "EV_REQUEST_CHANGES \<in> created s6" "EV_REQUEST_CHANGES \<notin> created s5"
    using cr quiet_created[OF quiet_trans[OF s6(2) s4(5)]] quiet_created[OF quiet_trans[OF q(2) s5(1)]] by auto
  then have "pd_selected (re_decision r) = EV_REQUEST_CHANGES" using s6(1) by (auto simp: created_def)
  from decide_changes[OF t(3) assms(2) this assms(1)] obtain h author c where
    d: "pu_candidate i = EV_REQUEST_CHANGES" "a = Eligible h author c" "\<not> ?P (pb_db t4)" "?P (pb_db t5)" by auto
  have "?P (pb_db s')" using d(4) s5(1) s6(2,3) s4(5) by (auto simp: quiet_def)
  moreover have "\<not> ?P (pb_db s)" using q(1) d(3) by (auto simp: quiet_def)
  moreover have "\<exists>n cm author. wd_comment w n (ic_id cm) = Some cm \<and> authorizing_comment i author cm"
    using lookup_eligible[OF t(1)[unfolded d(2)]] by blast
  ultimately show ?thesis using s4(1) d(1) by blast
qed

text \<open>C1: outside the automatic mode a run creates a review that requests changes only for a candidate that does,
  on a comment fetched during the run whose author is trusted by name and which names this repository, pull
  request and head, and only when the authorization of the head was not consumed before; afterwards it is
  consumed for good, so that no later run requests changes on this head again.\<close>

theorem changes_requested_once:
  assumes "steady w (consumed (event_key i))" "pu_mode i = TrustedCommandOnly" "publish_review w i s = (x, s')"
    "CreatedReview EV_REQUEST_CHANGES \<in> set (pb_log s')" "CreatedReview EV_REQUEST_CHANGES \<notin> set (pb_log s)"
  shows "\<not> consumed (event_key i) (pb_db s) \<and> consumed (event_key i) (pb_db s') \<and> \<not> pu_dry_run i \<and>
    pu_candidate i = EV_REQUEST_CHANGES \<and>
    (\<exists>n cm author. wd_comment w n (ic_id cm) = Some cm \<and> authorizing_comment i author cm)"
  by (rule changes_requested[OF assms])


text \<open>C5: whatever other processes and GitHub do, a run creates at most one review, never in a dry run, and the look
  that lets it is the last thing it does but for reading the head's row: between that look, which found the pull
  request open at the head and base the review was made for, and the request that creates the review there is one read
  of the store and nothing else. So no other operation of the store, no comment posted and no other request of the run
  lies between, and the other processes act only before that read and before the request.\<close>

theorem review_created_on_seen_head:
  "\<exists>before after. silent before \<and> silent after \<and>
    (pb_log (snd (publish_review w i s)) = pb_log s @ before \<or>
     (\<exists>l e. pb_log (snd (publish_review w i s)) = pb_log s @ before @ [SawPull (Some l), ReadHead, CreatedReview e] @ after \<and>
        \<not> pu_dry_run i \<and> lv_head l = pu_head i \<and> lv_base l = pu_base i \<and>
        (lv_state l = Some ''open'' \<or> truthy (lv_state l) = None)))"
proof (cases "quiet (\<lambda>_. True) s (snd (publish_review w i s))")
  case True
  then show ?thesis unfolding quiet_def by (metis silent_simps(1))
next
  case False
  let ?q = "quiet (\<lambda>_. True)"
  have st: "steady w (\<lambda>_. True)" by (simp add: steady_def)
  obtain x s' where run: "publish_review w i s = (x, s')" by fastforce
  obtain b s2 c s3 m s4 where s4: "\<not> pu_dry_run i" "?q s s3" "publish_claimed w i m s3 = (x, s4)" "\<not> ?q s3 s4" "?q s4 s'"
    using runs.publish_review_shape[OF st run] False run by (metis snd_conv)
  obtain a t1 t2 t4 r t5 manual where t: "?q s3 t4" "decideAndConsumeReviewEvent w i a False t4 = (r, t5)"
    "publish_decided w i r manual t5 = (x, s4)"
    using runs.publish_claimed_shape[OF st s4(3,4)] by metis
  have q: "?q s t5" using quiet_trans[OF s4(2) quiet_trans[OF t(1)]] runs.decide_quiet[OF st, of t4 i a False] t(2) by simp
  have "\<not> ?q t5 s4" using False run quiet_trans[OF q quiet_trans[OF _ s4(5)]] by auto
  then obtain s5 evs l where s5: "pb_log s5 = pb_log t5 @ evs @ [SawPull (Some l)]" "silent evs"
      "\<not> isClosedPull l" "\<not> stale_pull i l" "create_review w i r manual s5 = (x, s4)"
    by (rule runs.publish_decided_shape[OF st t(3)])
  obtain s6 where s6: "pb_log s6 = pb_log s5 @ [ReadHead, CreatedReview (pd_selected (re_decision r))]" "?q s6 s4"
    using runs.create_review_log[OF s5(5) st] by auto
  obtain after where after: "pb_log s' = pb_log s6 @ after" "silent after"
    using quiet_trans[OF s6(2) s4(5)] by (auto simp: quiet_def)
  obtain evs0 where evs0: "pb_log t5 = pb_log s @ evs0" "silent evs0" using q by (auto simp: quiet_def)
  then have "pb_log s' = pb_log s @ (evs0 @ evs) @ [SawPull (Some l), ReadHead, CreatedReview (pd_selected (re_decision r))] @ after"
    using s5(1) s6(1) after by simp
  moreover have "lv_state l = Some ''open'' \<or> truthy (lv_state l) = None"
    using s5(3) by (auto simp: isClosedPull_def truthy_def split: option.splits if_splits)
  moreover have "lv_head l = pu_head i" "lv_base l = pu_base i" using s5(4) by (simp_all add: stale_pull_def)
  moreover have "silent (evs0 @ evs)" using evs0(2) s5(2) by simp
  ultimately show ?thesis using run s4(1) after(2) by (metis snd_conv)
qed

text \<open>C14: while another process's claim of the head is held past the clock of every operation of the run, and no
  process gives it up, the run creates no review.\<close>

theorem held_head_not_reviewed:
  assumes "held_by (pu_repo i, pu_number i, pu_head i) uuid till (pb_db s)"
    "steady w (held_by (pu_repo i, pu_number i, pu_head i) uuid till)" "\<And>n. wd_clock w n < till"
  shows "created (snd (publish_review w i s)) = created s"
proof (rule ccontr)
  let ?K = "(pu_repo i, pu_number i, pu_head i)"
  have st: "steady w (\<lambda>_. True)" by (simp add: steady_def)
  obtain x s' where run: "publish_review w i s = (x, s')" by fastforce
  assume "created (snd (publish_review w i s)) \<noteq> created s"
  then have nq: "\<not> quiet (\<lambda>_. True) s s'" using quiet_created[of "\<lambda>_. True" s s'] run by auto
  have dry: "\<not> pu_dry_run i" by (rule runs.publish_review_shape[OF st run nq])
  obtain p s2 where p: "read_processed w i s = (p, s2)" by fastforce
  have h2: "held_by ?K uuid till (pb_db s2)"
    using read_processed_quiet[OF assms(2), of s i] assms(1) p by (simp add: quiet_def)
  have blocked: "fst (claim_head w i b s2) \<noteq> Go c" for b c
  proof
    assume "fst (claim_head w i b s2) = Go c"
    then have "fst (store w (\<lambda>now. tryClaimReviewHeadWithOutcome (publish_claim w i b now) (wd_claim_id w) now) s2) = Inr (Acquired c)"
      by (auto simp: claim_head_def split: prod.splits sum.splits claim_attempt.splits claim_block.splits)
    then have "fst (tryClaimReviewHeadWithOutcome (publish_claim w i b (wd_clock w (pb_tick (others_act w s2)))) (wd_claim_id w)
        (wd_clock w (pb_tick (others_act w s2))) (pb_db (others_act w s2))) = Inr (Acquired c)"
      by (simp add: store_as_def Let_def split: prod.splits)
    moreover have "held_by ?K uuid till (pb_db (others_act w s2))" using assms(2) h2 by (simp add: steady_def others_act_def)
    moreover have "ci_key (publish_claim w i b t) = ?K" "ci_now (publish_claim w i b t) = t" for t
      by (simp_all add: publish_claim_def ci_key_def Let_def)
    ultimately show False using claim_held_attempt held_by_live[OF _ assms(3)] by metis
  qed
  show False
  proof -
    obtain f where f: "publish_review w i s = continue (claim_head w i f s2) (\<lambda>c s3.
        case publish_claimed w i (command_review_requested i \<or> pu_exact_owner i) s3 of
        (r, s4) \<Rightarrow> (r, snd (store w (\<lambda>_ d. ((), releaseReviewHeadClaim (claim_id c) d)) s4)))"
      using dry by (auto simp: publish_review_def p Let_def)
    have "quiet (\<lambda>_. True) s s2" using read_processed_quiet[OF st, of s i] p by simp
    then show False
      by (rule phaseE[OF _ f[symmetric, unfolded run] runs.claim_head_quiet[OF st] nq]) (use blocked in \<open>metis fst_conv\<close>)
  qed
qed

section \<open>A created review is recorded, or can be\<close>

text \<open>The head's row is posted with the review's event, or with the requested changes that a later comment preserves.\<close>

definition posted_as :: "publish_input \<Rightarrow> review_event \<Rightarrow> db \<Rightarrow> bool" where
  "posted_as i e d \<longleftrightarrow> (case getProcessedReview (pu_repo i) (pu_number i) (pu_head i) d of None \<Rightarrow> False
     | Some p \<Rightarrow> pr_status p = P_posted \<and>
         (pr_event p = Some e \<or> e = EV_COMMENT \<and> pr_event p = Some EV_REQUEST_CHANGES))"

lemma posted_as_cong: "processed d' = processed d \<Longrightarrow> posted_as i e d' = posted_as i e d"
  by (simp add: posted_as_def getProcessedReview_def)

lemma posted_as_recorded:
  assumes "pr_key r = (pu_repo i, pu_number i, pu_head i)" "pr_status r = P_posted" "pr_error r \<noteq> Some BASE_MERGE_ONLY"
    "pr_event r = Some e \<or> e = EV_COMMENT \<and> pr_event r = Some EV_REQUEST_CHANGES"
  shows "posted_as i e (recordProcessed r now d)"
proof -
  have "getProcessedReview (pu_repo i) (pu_number i) (pu_head i) (recordProcessed r now d) =
      Some (mapProcessedReviewRow (case row_get pr_key (pr_key r) (processed d) of None \<Rightarrow> processed_row_of r now
        | Some o' \<Rightarrow> merge_processed o' (processed_row_of r now)))"
    using assms(1) by (simp add: getProcessedReview_def recordProcessed_row)
  moreover have "pr_event (processed_row_of r now) = pr_event r"
    by (simp add: processed_row_of_def processed_review_record.defs)
  ultimately show ?thesis using assms(2-4)
    by (auto simp: posted_as_def merge_processed_def mapProcessedReviewRow_def split: option.split)
qed

lemma posted_as_authorized:
  assumes "recordAuthorizedReviewPosted x d = (Inr u, d')"
    "(ai_repo x, ai_pull x, ai_head x) = (pu_repo i, pu_number i, pu_head i)" "po_preserve_blocking x \<longrightarrow> po_event x = EV_COMMENT"
  shows "posted_as i (po_event x) d'"
proof -
  let ?old = "getProcessedReview (ai_repo x) (ai_pull x) (ai_head x) d"
  have body: "posted_body x d = (Inr (), d')"
    using assms(1) by (auto simp: recordAuthorizedReviewPosted_def transaction_result split: option.splits if_splits)
  have procd: "processed d' = (if keeps_blocking x ?old then processed d else row_upsert pr_key merge_processed (posted_processed_row x) (processed d))"
    using body by (auto simp: posted_body_def drop_claims_def Let_def split: if_splits)
  have x: "ai_repo x = pu_repo i" "ai_pull x = pu_number i" "ai_head x = pu_head i" using assms(2) by simp_all
  have k: "pr_key (posted_processed_row x) = (pu_repo i, pu_number i, pu_head i)" by (simp add: pr_key_def posted_processed_row_def x)
  show ?thesis
  proof (cases "keeps_blocking x ?old")
    case True
    then show ?thesis using assms(2,3) procd
      by (auto simp: posted_as_def keeps_blocking_def getProcessedReview_def split: option.splits)
  next
    case False
    then have "getProcessedReview (pu_repo i) (pu_number i) (pu_head i) d' =
      Some (mapProcessedReviewRow (case row_get pr_key (pu_repo i, pu_number i, pu_head i) (processed d) of None \<Rightarrow> posted_processed_row x
        | Some o' \<Rightarrow> merge_processed o' (posted_processed_row x)))"
      using procd by (simp add: getProcessedReview_def row_get_upsert merge_processed_key k x)
    then show ?thesis
      by (simp add: posted_as_def mapProcessedReviewRow_def merge_processed_def posted_processed_row_def split: option.split)
  qed
qed

lemma store_leaves: "(\<And>now d. Q (snd (op now d))) \<Longrightarrow> Q (pb_db (snd (store_as ev w op s)))"
  by (auto simp: store_as_def Let_def split: prod.split) (metis snd_conv)

lemma store_result: "store_as ev w op s = (r, s') \<Longrightarrow> \<exists>now d. op now d = (r, pb_db s')"
  by (auto simp: store_as_def Let_def split: prod.splits) blast

lemma steadyD: "steady w P \<Longrightarrow> P (pb_db s) \<Longrightarrow> P (pb_db (others_act w s))"
  by (simp add: steady_def others_act_def)

lemma read_processed_seen:
  assumes "read_processed w i s = (p, s')"
  shows "getProcessedReview (pu_repo i) (pu_number i) (pu_head i) (pb_db s') = p"
  using store_result[OF assms[unfolded read_processed_def]] by auto

lemma record_uncertainty_posted:
  assumes "steady w (posted_as i e)" "posted_as i e (pb_db s)" "record_uncertainty w i changed commanded s = (r, s')"
  shows "posted_as i e (pb_db s')"
proof -
  let ?P = "posted_as i e"
  obtain p s1 where p: "read_processed w i s = (p, s1)" by fastforce
  have P1: "?P (pb_db s1)" using read_processed_quiet[OF assms(1), of s i] assms(2) p by (simp add: quiet_def)
  obtain q where q: "p = Some q" "pr_status q = P_posted" "pr_event q = Some e \<or> e = EV_COMMENT \<and> pr_event q = Some EV_REQUEST_CHANGES"
    using P1 read_processed_seen[OF p] by (auto simp: posted_as_def split: option.splits)
  have P2: "?P (pb_db (snd (store w (\<lambda>now d. ((), recordProcessed (uncertain_record i q reason) now d)) s1)))"
    if "reason \<noteq> BASE_MERGE_ONLY" for reason
    by (rule store_leaves, unfold snd_conv, rule posted_as_recorded)
      (use q(3) that in \<open>simp_all add: uncertain_record_def plain_record_def pr_key_def\<close>)
  have R: "?P (pb_db s')" if t: "?P (pb_db t)"
    and c: "continue (store_or_fail w (\<lambda>now. recordReviewReadiness (wd_host w) (f now)) t) (\<lambda>_ s3. (Go (), s3)) = (r, s')" for f t
  proof -
    have "quiet ?P t (snd (continue (store_or_fail w (\<lambda>now. recordReviewReadiness (wd_host w) (f now)) t) (\<lambda>_ s3. (Go (), s3))))"
    proof (rule continue_quiet[OF store_or_fail_quiet[OF assms(1)]])
      fix now d
      assume "?P d"
      moreover obtain a d' where "recordReviewReadiness (wd_host w) (f now) d = (a, d')" by fastforce
      ultimately show "?P (snd (recordReviewReadiness (wd_host w) (f now) d))"
        using readiness_heads posted_as_cong by (metis head_tables_def prod.inject snd_conv)
    qed simp
    then show ?thesis using t by (simp add: quiet_def c)
  qed
  have "REVIEW_POSTED_HEAD_CHANGED_ERROR \<noteq> BASE_MERGE_ONLY" "POST_REVIEW_HEAD_UNVERIFIED_ERROR \<noteq> BASE_MERGE_ONLY"
    by (simp_all add: REVIEW_POSTED_HEAD_CHANGED_ERROR_def POST_REVIEW_HEAD_UNVERIFIED_ERROR_def BASE_MERGE_ONLY_def)
  then show ?thesis
    using assms(3) R[OF P2] by (auto simp: record_uncertainty_def p q Let_def split: if_splits)
qed

lemma uncertainty_result:
  assumes "record_uncertainty w i changed commanded s = (r, s')"
  shows "(\<exists>u. r = Go u) \<or> (\<exists>er. r = Fail (FL_store er))"
proof -
  have "(\<exists>u. r = Go u) \<or> (\<exists>er. r = Fail (FL_store er))"
    if "continue (store_or_fail w op t) (\<lambda>_ s3. (Go (), s3)) = (r, s')" for op :: "int \<Rightarrow> db \<Rightarrow> 'b outcome" and t
    using that by (auto simp: store_or_fail_def split: prod.splits sum.splits)
  then show ?thesis using assms by (auto simp: record_uncertainty_def Let_def split: prod.splits option.splits if_splits)
qed

lemma reconcile_safely_posted:
  assumes "steady w (posted_as i e)" "posted_as i e (pb_db s)"
  shows "posted_as i e (pb_db (reconcile_safely w i s))"
proof -
  have "posted_as i e (snd (reconcileProcessedHeadAfterDirectReview h post x d)) = posted_as i e d" for h post x d
    using reconcile_heads[of h post x d] by (intro posted_as_cong) (simp add: head_tables_def)
  then have "quiet (posted_as i e) s (reconcile_safely w i s)"
    unfolding reconcile_safely_def by (intro store_quiet[OF assms(1)]) simp_all
  then show ?thesis using assms(2) by (simp add: quiet_def)
qed

lemma release_posted: "posted_as i e (snd ((), releaseReviewHeadClaim c d)) = posted_as i e d"
  unfolding snd_conv by (rule posted_as_cong) (simp add: releaseReviewHeadClaim_def)

lemma release_capacity_posted:
  assumes "steady w (posted_as i e)" "posted_as i e (pb_db s)"
  shows "posted_as i e (pb_db (release_capacity w i s))"
proof -
  have "quiet (posted_as i e) s (release_capacity w i s)"
    unfolding release_capacity_def by (simp add: store_quiet[OF assms(1)] release_posted[unfolded snd_conv])
  then show ?thesis using assms(2) by (simp add: quiet_def)
qed

lemma settle_posted_outcome:
  assumes "steady w (posted_as i e)" "posted_as i e (pb_db s)" "settle_posted w i v m s = (x, s')"
  shows "posted_as i e (pb_db s') \<and> ((\<exists>rv. x = Done rv) \<or> (\<exists>er. x = Fail (FL_store er)))"
proof -
  obtain live s1 where l: "look w s = (live, s1)" by fastforce
  have P1: "posted_as i e (pb_db s1)" using look_quiet[OF assms(1), of s] assms(2) l by (simp add: quiet_def)
  define changed where "changed = (case live of None \<Rightarrow> False | Some l \<Rightarrow> lv_head l \<noteq> pu_head i)"
  obtain y s2 where u: "(if (changed \<or> live = None) \<and> \<not> v then record_uncertainty w i changed True s1 else (Go (), s1)) = (y, s2)"
    by fastforce
  have P2: "posted_as i e (pb_db s2)" and nl: "(\<exists>u. y = Go u) \<or> (\<exists>er. y = Fail (FL_store er))"
    using u P1 record_uncertainty_posted[OF assms(1) P1] uncertainty_result[of w i changed True s1 y s2]
    by (auto split: if_splits)
  have run: "(x, s') = continue (y, s2) (\<lambda>_ s2'. let s2 = release_capacity w i s2' in
                if changed then (Done RV_posted_stale_head, s2)
                else if live = None then (Done RV_posted_head_unverified, s2)
                else (Done (if m then RV_reviewed_command else RV_reviewed),
                  if pu_policy i \<noteq> PH_retry_failed_head then reconcile_safely w i s2 else s2))"
    using assms(3) unfolding settle_posted_def l prod.case Let_def by (fold changed_def) (simp only: u)
  note P3 = release_capacity_posted[OF assms(1) P2]
  show ?thesis
    using run P2 nl P3 reconcile_safely_posted[OF assms(1) P3]
    by (cases y) (auto simp: Let_def split: if_splits)
qed

definition recoverable :: "review_event \<Rightarrow> review_receipt \<Rightarrow> bool" where
  "recoverable e rc \<longleftrightarrow> pp_event rc = e \<and> pp_authorization rc \<noteq> None \<and> (pp_preserve_blocking rc \<longrightarrow> e = EV_COMMENT)"

text \<open>How a run that sent the request for a review can end: done, or unable to record that the head changed, with the
  row posted; without an answer to the request; or unable to record the review, with a receipt of it.\<close>

definition created_outcome :: "world \<Rightarrow> publish_input \<Rightarrow> review_event \<Rightarrow> 'a step \<Rightarrow> pub \<Rightarrow> bool" where
  "created_outcome w i e x s' \<longleftrightarrow> (case x of
     Done rv \<Rightarrow> posted_as i e (pb_db s')
   | Fail (FL_store er) \<Rightarrow> posted_as i e (pb_db s')
   | Fail FL_github \<Rightarrow> (\<exists>n. wd_create w n e = None)
   | Fail (FL_persistence rc) \<Rightarrow> recoverable e rc
   | _ \<Rightarrow> False)"

lemma record_created_outcome:
  assumes st: "steady w (posted_as i e)" and run: "record_created w i r e rid url pres s = (x, s')"
    and el: "re_consumed r \<Longrightarrow> attempt_head (re_authorization r) \<noteq> None"
    and pres: "pres \<Longrightarrow> e = EV_COMMENT \<and> posted_as i e (pb_db s)"
  shows "(\<exists>u. x = Go u) \<and> posted_as i e (pb_db s') \<or> (\<exists>rc. x = Fail (FL_persistence rc) \<and> recoverable e rc)"
proof (cases "re_consumed r")
  case True
  then obtain h author c where a: "re_authorization r = Eligible h author c" using el by (cases "re_authorization r") auto
  have rec: "recoverable e (receipt_of i r e rid url pres)" using True a pres by (simp add: recoverable_def receipt_of_def)
  have posted: "posted_as i e (pb_db t)"
    if q: "store w (\<lambda>now. recordAuthorizedReviewPosted (authorized_post i e u pres author c now)) s = (Inr y, t)" for u y t
  proof -
    obtain now d where d: "recordAuthorizedReviewPosted (authorized_post i e u pres author c now) d = (Inr y, pb_db t)"
      using store_result[OF q] by auto
    have "po_event (authorized_post i e u pres author c now) = e" by (simp add: authorized_post_def auth_input.defs)
    with posted_as_authorized[OF d, of i] pres show ?thesis
      by (simp add: authorized_post_def auth_of_def auth_input.defs)
  qed
  show ?thesis using run True a rec posted
    by (auto simp: record_created_def Let_def split: option.splits prod.splits sum.splits)
next
  case False
  have "posted_as i e (pb_db (snd (store w (\<lambda>now d. ((), recordProcessed (posted_record i e url) now d)) s)))"
    by (rule store_leaves, unfold snd_conv, rule posted_as_recorded) (simp_all add: posted_record_def plain_record_def pr_key_def)
  then show ?thesis using run False pres by (auto simp: record_created_def Let_def split: if_splits)
qed

lemma create_review_outcome:
  assumes st: "steady w (posted_as i (pd_selected (re_decision r)))" and run: "create_review w i r manual s = (x, s')"
    and el: "re_consumed r \<Longrightarrow> attempt_head (re_authorization r) \<noteq> None"
  shows "created_outcome w i (pd_selected (re_decision r)) x s'"
proof -
  let ?e = "pd_selected (re_decision r)"
  obtain prior s1 where p: "read_processed w i s = (prior, s1)" by fastforce
  define pres where "pres = (case prior of None \<Rightarrow> False
                 | Some p \<Rightarrow> pr_status p = P_posted \<and> pr_event p = Some EV_REQUEST_CHANGES \<and> ?e = EV_COMMENT)"
  define v where "v = (pres \<and> (case prior of None \<Rightarrow> False | Some p \<Rightarrow> truthy (pr_error p) = None))"
  let ?s2 = "others_act w s1"
  let ?s3 = "?s2\<lparr>pb_log := pb_log ?s2 @ [CreatedReview ?e]\<rparr>"
  have pres: "?e = EV_COMMENT \<and> posted_as i ?e (pb_db ?s3)" if pres
  proof -
    have "posted_as i ?e (pb_db s1)" "?e = EV_COMMENT"
      using that read_processed_seen[OF p] by (auto simp: posted_as_def pres_def split: option.splits)
    then show ?thesis using steadyD[OF st] by simp
  qed
  have created: "(x, s') = (case wd_create w (pb_tick ?s3) ?e of
                None \<Rightarrow> (Fail FL_github, ?s3)
              | Some (rid, url) \<Rightarrow>
                  continue (record_created w i r ?e rid url pres ?s3) (\<lambda>_ s4. settle_posted w i v manual s4))"
    using run unfolding create_review_def p prod.case Let_def pres_def v_def by simp
  show ?thesis
  proof (cases "wd_create w (pb_tick ?s3) ?e")
    case None
    then show ?thesis using created by (auto simp: created_outcome_def)
  next
    case (Some c)
    obtain rid url where c: "c = (rid, url)" by fastforce
    obtain y s4 where y: "record_created w i r ?e rid url pres ?s3 = (y, s4)" by fastforce
    have go: "continue (y, s4) (\<lambda>_ s4. settle_posted w i v manual s4) = (x, s')"
      using created Some by (simp add: c y)
    from record_created_outcome[OF st y el pres] show ?thesis
      using go settle_posted_outcome[OF st, of s4 v manual x s'] by (auto simp: created_outcome_def)
  qed
qed

lemma decide_consumed:
  "decideAndConsumeReviewEvent w i a dry s = (r, s') \<Longrightarrow> re_consumed r \<Longrightarrow> attempt_head (re_authorization r) \<noteq> None"
  by (cases a) (auto simp: decideAndConsumeReviewEvent_def Let_def split: prod.splits sum.splits if_splits)

lemma recover_outcome:
  assumes st: "steady w (posted_as i e)" and rc: "recoverable e rc"
    and run: "recoverPostedReviewReceiptForCurrentHead w i rc s = (x, s')"
  shows "posted_as i e (pb_db s') \<or>
    x = Done RV_posted_head_unverified \<and> (\<nexists>u. fst (recoverPostedReviewReceipt w i rc (snd (read_processed w i s))) = Go u)"
proof (rule disjCI)
  let ?P = "posted_as i e"
  obtain prior s1 where p: "read_processed w i s = (prior, s1)" by fastforce
  obtain z s2 where z: "recoverPostedReviewReceipt w i rc s1 = (z, s2)" by fastforce
  assume "\<not> (x = Done RV_posted_head_unverified \<and> (\<nexists>u. fst (recoverPostedReviewReceipt w i rc (snd (read_processed w i s))) = Go u))"
  then obtain y where y: "recoverPostedReviewReceipt w i rc s1 = (Go y, s2)"
    using run by (cases z) (auto simp: recoverPostedReviewReceiptForCurrentHead_def p z Let_def)
  obtain c author where c: "pp_authorization rc = Some (c, author)" using rc by (auto simp: recoverable_def)
  obtain now d where d: "recordAuthorizedReviewPosted (receipt_post i rc author c now) d = (Inr y, pb_db s2)"
    using y c by (auto simp: recoverPostedReviewReceipt_def store_or_fail_def split: if_splits prod.splits sum.splits dest: store_result)
  have ev: "po_event (receipt_post i rc author c now) = e" using rc by (simp add: receipt_post_def authorized_post_def auth_input.defs recoverable_def)
  have P2: "?P (pb_db s2)"
    using posted_as_authorized[OF d, of i] ev rc
    by (simp add: receipt_post_def authorized_post_def auth_of_def auth_input.defs recoverable_def)
  obtain live s3 where l: "look w s2 = (live, s3)" by fastforce
  have P3: "?P (pb_db s3)" using look_quiet[OF st, of s2] P2 l by (simp add: quiet_def)
  have u: "?P (pb_db s')" if "continue (if v then (Go (), s3) else record_uncertainty w i b False s3) (\<lambda>_ t. (Done q, t)) = (x, s')" for v b q
  proof -
    obtain x' t where t: "(if v then (Go (), s3) else record_uncertainty w i b False s3) = (x', t)" by fastforce
    then have "?P (pb_db t)" using P3 record_uncertainty_posted[OF st P3] by (auto split: if_splits)
    then show ?thesis using that unfolding t by (cases x') auto
  qed
  show "?P (pb_db s')"
    using run P3 u[where v = False] u[where v = True]
    by (auto simp: recoverPostedReviewReceiptForCurrentHead_def p y l Let_def split: if_split_asm)
qed

lemma created_review_outcome:
  assumes "publish_review w i s = (x, s')" "created s = {}" "e \<in> created s'" "steady w (posted_as i e)"
  shows "created_outcome w i e x s'"
proof -
  let ?q = "quiet (\<lambda>_. True)"
  have st: "steady w (\<lambda>_. True)" by (simp add: steady_def)
  have nq: "\<not> ?q s s'" using quiet_created[of "\<lambda>_. True" s s'] assms(2,3) by auto
  obtain b s2 c s3 m s4 where "\<not> pu_dry_run i" "claim_head w i b s2 = (Go c, s3)" and
    s4: "?q s s3" "publish_claimed w i m s3 = (x, s4)" "\<not> ?q s3 s4" "?q s4 s'"
    "s' = snd (store w (\<lambda>_ d. ((), releaseReviewHeadClaim (claim_id c) d)) s4)"
    by (rule runs.publish_review_shape[OF st assms(1) nq])
  obtain a t1 t2 t4 r t5 manual where t: "?q s3 t4" "decideAndConsumeReviewEvent w i a False t4 = (r, t5)"
    "publish_decided w i r manual t5 = (x, s4)"
    using runs.publish_claimed_shape[OF st s4(2,3)] by metis
  have c4: "created s' = created s4" by (simp add: s4(5) store_created)
  have q: "?q s t5" using quiet_trans[OF s4(1) quiet_trans[OF t(1)]] runs.decide_quiet[OF st, of t4 i a False] t(2) by simp
  have nq5: "\<not> ?q t5 s4" using assms(2,3) c4 quiet_created[OF quiet_trans[OF q, of s4]] by auto
  obtain s5 where s5: "?q t5 s5" "create_review w i r manual s5 = (x, s4)"
    by (rule runs.publish_decided_shape[OF st t(3) nq5])
  obtain s6 where s6: "pb_log s6 = pb_log s5 @ [ReadHead, CreatedReview (pd_selected (re_decision r))]" "?q s6 s4"
    using runs.create_review_log[OF s5(2) st] by auto
  have "created s4 = insert (pd_selected (re_decision r)) {}"
    using s6(1) quiet_created[OF s6(2)] quiet_created[OF quiet_trans[OF q s5(1)]] assms(2) by (auto simp: created_def)
  then have e: "pd_selected (re_decision r) = e" using assms(3) c4 by auto
  note out = create_review_outcome[OF assms(4)[folded e] s5(2) decide_consumed[OF t(2)], unfolded e]
  have "quiet (posted_as i e) s4 s'" unfolding s4(5) by (rule store_quiet[OF assms(4)]) (simp_all add: release_posted[unfolded snd_conv])
  then have "posted_as i e (pb_db s4) \<Longrightarrow> posted_as i e (pb_db s')" by (simp add: quiet_def)
  with out show ?thesis by (auto simp: created_outcome_def split: step.splits review_failure.splits)
qed

text \<open>C13: a created review is not lost, if the other processes keep the head's posted row. A run that sent the request
  for a review with event \<open>e\<close> and that ends has left the row posted with that event (or with requested changes that the
  new comment preserves), and so has one that then fails to write the readiness of a changed head. Otherwise GitHub gave
  no answer to the request, or the run fails with a receipt that names the event; and recovering from that receipt,
  whatever it answers, leaves the same row, unless the recovery's own write of the row fails too, and then it answers
  \<open>posted_head_unverified\<close>. No other failure comes after the request.\<close>

theorem created_review_settled:
  assumes "publish_review w i s = (x, s')" "created s = {}" "e \<in> created s'" "steady w (posted_as i e)"
  shows "case x of
     Done rv \<Rightarrow> posted_as i e (pb_db s')
   | Fail (FL_store er) \<Rightarrow> posted_as i e (pb_db s')
   | Fail FL_github \<Rightarrow> (\<exists>n. wd_create w n e = None)
   | Fail (FL_persistence rc) \<Rightarrow> pp_event rc = e \<and>
       (\<forall>y s''. recoverPostedReviewReceiptForCurrentHead w i rc s' = (y, s'') \<longrightarrow>
          posted_as i e (pb_db s'') \<or>
          y = Done RV_posted_head_unverified \<and>
            (\<nexists>u. fst (recoverPostedReviewReceipt w i rc (snd (read_processed w i s'))) = Go u))
   | _ \<Rightarrow> False"
  using created_review_outcome[OF assms] recover_outcome[OF assms(4)]
  by (auto simp: created_outcome_def split: step.splits review_failure.splits) (simp add: recoverable_def)

section \<open>A run\<close>

definition demo_pull :: live_pull where
  "demo_pull = \<lparr>lv_state = Some ''open'', lv_merged_at = None, lv_head = ex_sha40, lv_base = ex_sha40\<rparr>"

definition demo_comment :: issue_comment where
  "demo_comment = \<lparr>ic_id = 5, ic_body = Some (join_on (CHR '' '') (request_line ''@bot'' ''o/r'' 7 ex_sha40)), ic_url = None,
     ic_user = Some \<lparr>ca_login = ''owner'', ca_type = None\<rparr>\<rparr>"

definition demo_world :: world where
  "demo_world = \<lparr>wd_host = ex_auth_host, wd_clock = (\<lambda>_. 1000), wd_other = (\<lambda>_ d. d), wd_live = (\<lambda>_. Some demo_pull),
     wd_comment = (\<lambda>_ c. if c = 5 then Some demo_comment else None),
     wd_create = (\<lambda>_ _. Some (11, Some ''https://github.com/o/r/pull/7#r11'')), wd_claim_id = ''c1'', wd_pid = 4\<rparr>"

definition demo_input :: publish_input where
  "demo_input = \<lparr>pu_repo = ''o/r'', pu_number = 7, pu_head = ex_sha40, pu_base = ex_sha40, pu_html_url = ''https://github.com/o/r/pull/7'',
     pu_dry_run = False, pu_config_revision = None, pu_policy = PH_normal, pu_mode = TrustedCommandOnly,
     pu_commands = \<lparr>cc_enabled = True, cc_mentions = [''@bot''], cc_trusted = [''owner''], cc_acknowledge = False, cc_public = None\<rparr>,
     pu_comment_id = Some 5, pu_command = None, pu_queued_owner = False, pu_exact_owner = False,
     pu_base_merge_override = False, pu_baseline_override = False, pu_claim_ttl_ms = 60000, pu_candidate = EV_REQUEST_CHANGES,
     pu_base_ref = None, pu_base_sha = None, pu_fingerprint = None, pu_walkthrough_posted = False, pu_enrichment_posted = False, pu_ensemble_pending = False\<rparr>"

definition demo_start :: pub where
  "demo_start = \<lparr>pb_db = empty_db, pb_tick = 0, pb_log = []\<rparr>"

lemma demo_others: "others_act demo_world s = s\<lparr>pb_tick := pb_tick s + 1\<rparr>"
  by (simp add: others_act_def demo_world_def)

lemma demo_store: "store_as ev demo_world op s =
    (fst (op 1000 (pb_db s)), s\<lparr>pb_tick := pb_tick s + 1, pb_db := snd (op 1000 (pb_db s)), pb_log := pb_log s @ [ev]\<rparr>)"
  by (simp add: store_as_def demo_others Let_def split: prod.split) (simp add: demo_world_def)

lemma demo_lifecycle:
  "recordPullLifecycleBeforePost demo_world demo_input s =
     (Go (), s\<lparr>pb_tick := pb_tick s + 1, pb_log := pb_log s @ [SawPull (Some demo_pull)]\<rparr>)"
proof -
  have "wd_live demo_world n = Some demo_pull" for n by (simp add: demo_world_def)
  then show ?thesis
    by (simp add: recordPullLifecycleBeforePost_def look_def demo_others Let_def)
      (simp add: demo_pull_def demo_input_def isClosedPull_def stale_pull_def)
qed

lemma demo_lookup:
  "lookupQueuedReviewEventAuthorization demo_world demo_input s = (Eligible ex_sha40 ''owner'' 5,
     s\<lparr>pb_tick := pb_tick s + 1, pb_log := pb_log s @ [FetchedComment 5]\<rparr>)"
proof -
  let ?c = "pu_commands demo_input" and ?t = "event_target demo_input"
  have c: "wd_comment demo_world n 5 = Some demo_comment" for n by (simp add: demo_world_def)
  have parsed: "parseRequestChangesCommand (ic_body demo_comment) (cc_mentions ?c) = Some (Parsed ''o/r'' 7 ex_sha40)"
  proof -
    have sp: "\<forall>c\<in>set ''@bot''. \<not> is_space c" "isRepoName ''o/r''" by code_simp+
    show ?thesis
      using request_line_parsed[of "''@bot''" "[''@bot'']" "''o/r''" 7 ex_sha40, OF _ _ sp _ _ ex_sha40_ok(1)]
      by (simp add: demo_comment_def demo_input_def ex_sha40_ok safe_integer_def)
  qed
  have norm: "normalizeHeadSha ex_sha40 = Some ex_sha40" by (simp add: normalizeHeadSha_def ex_sha40_ok)
  have author: "boundedAuthor (map_option ca_login (ic_user demo_comment)) = Some ''owner''" "isExplicitTrustedAuthor ''owner'' ?c"
    by code_simp+
  have att: "comment_attempt ?c ?t demo_comment = Some (Eligible ex_sha40 ''owner'' 5,
      Some \<lparr>rq_comment_id = 5, rq_author = ''owner'', rq_repo = ''o/r'', rq_pull = 7, rq_head = ex_sha40\<rparr>)"
    unfolding comment_attempt_def parsed author
    using author norm by (simp add: Let_def) (simp add: event_target_def demo_input_def demo_comment_def)
  have fresh: "fresh_comments [] [demo_comment] = [demo_comment]" by (simp add: demo_comment_def safe_integer_def)
  have "collectReviewEventAuthorizationAttempts [demo_comment] ?c ?t = ([Eligible ex_sha40 ''owner'' 5], Eligible ex_sha40 ''owner'' 5,
      [\<lparr>rq_comment_id = 5, rq_author = ''owner'', rq_repo = ''o/r'', rq_pull = 7, rq_head = ex_sha40\<rparr>])"
    unfolding collectReviewEventAuthorizationAttempts_def fresh
    by (simp add: List.map_filter_simps att selectReviewEventAuthorizationAttempt_def eligible_for_def Let_def)
      (simp add: event_target_def demo_input_def norm)
  moreover have "pu_mode demo_input = TrustedCommandOnly" "pu_comment_id demo_input = Some 5" "ic_id demo_comment = 5"
    by (simp_all add: demo_input_def demo_comment_def)
  ultimately show ?thesis
    by (simp add: lookupQueuedReviewEventAuthorization_def demo_others c Let_def)
qed

lemma demo_claim:
  "claim_head demo_world demo_input False s = (Go \<lparr>claim_id = ''c1'', claim_expires_at = 61000, claim_owner_pid = 4\<rparr>,
     s\<lparr>pb_tick := pb_tick s + 1, pb_db := after_acquire (publish_claim demo_world demo_input False 1000) ''c1'' 1000 (pb_db s),
       pb_log := pb_log s @ [Stored]\<rparr>)"
  if "pb_db s = empty_db" for s
proof -
  let ?i = "publish_claim demo_world demo_input False 1000"
  have i: "ci_repo ?i = ''o/r''" "ci_pull ?i = 7" "ci_head ?i = ex_sha40" "ci_ttl_ms ?i = 60000" "ci_now ?i = 1000" "ci_owner_pid ?i = 4"
     "\<not> ci_consume ?i" "ci_required_status ?i = None" "ci_required_revision ?i = None" "ci_required_error ?i = None"
    by (simp_all add: publish_claim_def demo_input_def demo_world_def command_review_requested_def should_review_def Let_def)
  have "claim_input_error ?i = None" using i by (simp add: claim_input_error_def)
  then have "tryClaimReviewHeadWithOutcome ?i ''c1'' 1000 (pb_db s) =
      (Inr (Acquired \<lparr>claim_id = ''c1'', claim_expires_at = 61000, claim_owner_pid = 4\<rparr>), after_acquire ?i ''c1'' 1000 (pb_db s))"
    using that claim_free[of ?i "pb_db s" "''c1''" 1000] i
    by (simp add: live_claim_def empty_db_def acquired_of_def)
  moreover have "wd_claim_id demo_world = ''c1''" by (simp add: demo_world_def)
  ultimately show ?thesis by (simp add: claim_head_def demo_store)
qed

lemma demo_auth: "auth_of demo_input ''owner'' 5 1000 = ex_auth"
  by (simp add: auth_of_def demo_input_def ex_auth_def)

abbreviation demo_resolution :: resolution where
  "demo_resolution \<equiv> \<lparr>re_decision = decideReviewEventPolicy TrustedCommandOnly EV_REQUEST_CHANGES ex_sha40 (Eligible ex_sha40 ''owner'' 5),
     re_authorization = Eligible ex_sha40 ''owner'' 5, re_consumed = True\<rparr>"

lemma demo_selected: "pd_selected (re_decision demo_resolution) = EV_REQUEST_CHANGES"
  by (simp add: decideReviewEventPolicy_def normalizeHeadSha_def ex_sha40_ok Let_def split: prod.split)

lemma demo_decide:
  "decideAndConsumeReviewEvent demo_world demo_input (Eligible ex_sha40 ''owner'' 5) False s =
     (demo_resolution, s\<lparr>pb_tick := pb_tick s + 1, pb_db := (pb_db s)\<lparr>consumptions := [fresh_consumption ex_auth]\<rparr>,
        pb_log := pb_log s @ [Stored]\<rparr>)"
  if "consumptions (pb_db s) = []" for s
proof -
  have "tryConsumeReviewEventAuthorization ex_auth (pb_db s) = (Inr True, (pb_db s)\<lparr>consumptions := [fresh_consumption ex_auth]\<rparr>)"
    using that by (simp add: tryConsumeReviewEventAuthorization_def ex_auth_valid)
  moreover have "pu_mode demo_input = TrustedCommandOnly" "pu_candidate demo_input = EV_REQUEST_CHANGES" "pu_head demo_input = ex_sha40"
    by (simp_all add: demo_input_def)
  ultimately show ?thesis by (simp add: decideAndConsumeReviewEvent_def demo_store demo_auth Let_def)
qed

lemma demo_read:
  "read_processed demo_world demo_input s = (getProcessedReview ''o/r'' 7 ex_sha40 (pb_db s),
     s\<lparr>pb_tick := pb_tick s + 1, pb_log := pb_log s @ [ReadHead]\<rparr>)"
  by (simp add: read_processed_def demo_store) (simp add: demo_input_def)

lemma demo_flags:
  "pu_mode demo_input = TrustedCommandOnly" "\<not> pu_queued_owner demo_input" "\<not> pu_walkthrough_posted demo_input"
  "\<not> pu_enrichment_posted demo_input" "\<not> pu_dry_run demo_input" "\<not> pu_exact_owner demo_input"
  "\<not> pu_base_merge_override demo_input" "\<not> command_review_requested demo_input" "pu_head demo_input = ex_sha40"
  by (simp_all add: demo_input_def command_review_requested_def should_review_def)

text \<open>What the run does between its claim and the creation of the review.\<close>

definition demo_events :: "run_event list" where
  "demo_events = (let saw = SawPull (Some demo_pull) in [saw, FetchedComment 5, saw, Stored, saw, ReadHead, saw])"

lemma demo_claimed:
  assumes "consumptions (pb_db s) = []" "processed (pb_db s) = []"
  shows "publish_claimed demo_world demo_input m s = create_review demo_world demo_input demo_resolution True
    (s\<lparr>pb_db := (pb_db s)\<lparr>consumptions := [fresh_consumption ex_auth]\<rparr>, pb_tick := pb_tick s + 7, pb_log := pb_log s @ demo_events\<rparr>)"
  using assms demo_selected
  by (simp add: publish_claimed_def publish_decided_def check_concurrent_consumption_def checked_if_def check_noop_def
      posted_if_def demo_lifecycle demo_lookup demo_decide demo_read demo_flags demo_events_def Let_def eval_nat_numeral)

lemma demo_recorded:
  assumes "consumptions (pb_db s) = [fresh_consumption ex_auth]" "starts_with ''https://github.com/'' u"
  shows "\<exists>t. record_created demo_world demo_input demo_resolution EV_REQUEST_CHANGES 11 (Some u) False s = (Go (), t) \<and> created t = created s"
proof -
  let ?p = "authorized_post demo_input EV_REQUEST_CHANGES u False ''owner'' 5 1000"
  have f: "ai_repo ?p = ''o/r''" "ai_pull ?p = 7" "ai_head ?p = ex_sha40" "ai_comment_id ?p = 5" "ai_author ?p = ''owner''" "po_review_url ?p = u"
    by (simp_all add: authorized_post_def demo_auth auth_input.defs ex_auth_fields)
  have v: "validate_auth ?p = None"
    by (simp add: validate_auth_def validateReviewEventAuthorizationConsumption_def f
        validateReviewEventAuthorizationCoordinates_def ex_repo_ok ex_sha40_ok ex_login_ok)
  have k: "ai_key ?p = (''o/r'', 7, ex_sha40)" by (simp add: ai_key_def f ex_sha40_ok)
  have "exact_consumption ?p (fresh_consumption ex_auth)"
    by (simp add: exact_consumption_def k ex_keys f) (simp add: fresh_consumption_def ex_auth_fields)
  then have "fst (posted_body ?p (pb_db s)) = Inr ()"
    by (simp add: posted_body_def Let_def assms(1) row_count_def)
  then have "fst (recordAuthorizedReviewPosted ?p (pb_db s)) = Inr ()"
    by (simp add: recordAuthorizedReviewPosted_def v f assms(2))
  moreover have "truthy (Some u) = Some u" by (rule github_url_truthy[OF assms(2)])
  ultimately show ?thesis by (simp add: record_created_def demo_store created_def)
qed

lemma demo_create:
  assumes "consumptions (pb_db s) = [fresh_consumption ex_auth]" "processed (pb_db s) = []"
  shows "\<exists>t. create_review demo_world demo_input demo_resolution True s = (Done RV_reviewed_command, t) \<and>
    created t = insert EV_REQUEST_CHANGES (created s)"
proof -
  have gh: "starts_with ''https://github.com/'' ''https://github.com/o/r/pull/7#r11''" by code_simp
  have none: "getProcessedReview ''o/r'' 7 ex_sha40 (pb_db s) = None" using assms(2) by (simp add: getProcessedReview_def)
  let ?s3 = "s\<lparr>pb_tick := Suc (Suc (pb_tick s)), pb_log := pb_log s @ [ReadHead, CreatedReview EV_REQUEST_CHANGES]\<rparr>"
  obtain t where t: "record_created demo_world demo_input demo_resolution EV_REQUEST_CHANGES 11 (Some ''https://github.com/o/r/pull/7#r11'') False ?s3 = (Go (), t)"
    "created t = insert EV_REQUEST_CHANGES (created s)"
    using demo_recorded[of ?s3 "''https://github.com/o/r/pull/7#r11''"] assms(1) gh by (auto simp: created_def)
  have pull: "wd_live demo_world n = Some demo_pull" "lv_head demo_pull = ex_sha40"
    "wd_create demo_world n e = Some (11, Some ''https://github.com/o/r/pull/7#r11'')" for n e
    by (simp_all add: demo_world_def demo_pull_def)
  show ?thesis
    using t demo_selected
    by (simp add: create_review_def demo_read none demo_others pull settle_posted_def look_def demo_flags Let_def
        reconcile_safely_def release_capacity_def demo_store) (auto simp: created_def)
qed

lemma demo_publish:
  obtains t where "publish_review demo_world demo_input demo_start = (Done RV_reviewed_command, t)"
    "created t = {EV_REQUEST_CHANGES}"
proof -
  have i: "\<not> ci_consume (publish_claim demo_world demo_input False 1000)"
    by (simp add: publish_claim_def demo_input_def command_review_requested_def should_review_def Let_def)
  let ?d = "after_acquire (publish_claim demo_world demo_input False 1000) ''c1'' 1000 empty_db"
  let ?s = "\<lparr>pb_db = ?d, pb_tick = 2, pb_log = [ReadHead, Stored]\<rparr>"
  have empty: "consumptions ?d = []" "processed ?d = []" using i by (simp_all add: after_acquire_def empty_db_def)
  let ?t = "?s\<lparr>pb_db := ?d\<lparr>consumptions := [fresh_consumption ex_auth]\<rparr>, pb_tick := pb_tick ?s + 7, pb_log := pb_log ?s @ demo_events\<rparr>"
  obtain u where u: "(create_review demo_world demo_input demo_resolution True ?t :: unit step \<times> pub) = (Done RV_reviewed_command, u)"
    "created u = {EV_REQUEST_CHANGES}"
    using demo_create[of ?t] empty by (auto simp: created_def demo_events_def Let_def)
  have c: "(publish_claimed demo_world demo_input False ?s :: unit step \<times> pub) = (Done RV_reviewed_command, u)"
    by (subst demo_claimed) (use empty u(1) in simp_all)
  have "publish_review demo_world demo_input demo_start =
      (Done RV_reviewed_command, snd (store demo_world (\<lambda>_ d. ((), releaseReviewHeadClaim ''c1'' d)) u))"
    using c demo_claim[of "demo_start\<lparr>pb_tick := 1, pb_log := [ReadHead]\<rparr>"]
    by (simp add: publish_review_def demo_flags demo_read demo_start_def base_merge_skip_def getProcessedReview_def
        empty_db_def Let_def numeral_2_eq_2)
  then show thesis using that u(2) store_created by metis
qed

lemma demo_steady: "steady demo_world P"
  by (simp add: steady_def demo_world_def)

theorem changes_requested_once_witness:
  "consumed (event_key demo_input) (pb_db (snd (publish_review demo_world demo_input demo_start)))"
proof -
  obtain t where t: "publish_review demo_world demo_input demo_start = (Done RV_reviewed_command, t)"
    "created t = {EV_REQUEST_CHANGES}"
    by (rule demo_publish)
  from changes_requested_once[OF demo_steady demo_flags(1) t(1)] t(2) show ?thesis
    unfolding t(1) snd_conv by (simp add: demo_start_def created_def set_eq_iff)
qed

theorem created_review_settled_witness:
  "posted_as demo_input EV_REQUEST_CHANGES (pb_db (snd (publish_review demo_world demo_input demo_start)))"
proof -
  obtain t where t: "publish_review demo_world demo_input demo_start = (Done RV_reviewed_command, t)"
    "created t = {EV_REQUEST_CHANGES}"
    by (rule demo_publish)
  from created_review_settled[OF t(1) _ _ demo_steady, of EV_REQUEST_CHANGES] t(2) show ?thesis
    unfolding t(1) snd_conv by (auto simp: demo_start_def created_def set_eq_iff)
qed

definition demo_held :: pub where
  "demo_held = demo_start\<lparr>pb_db := empty_db\<lparr>claims := [\<lparr>hc_repo = ''o/r'', hc_pull = 7, hc_head = ex_sha40, hc_claim_id = ''c9'',
     hc_owner_pid = 8, hc_claimed_at = 900, hc_expires_at = 5000\<rparr>]\<rparr>\<rparr>"

theorem held_head_not_reviewed_witness:
  "created (snd (publish_review demo_world demo_input demo_held)) = {}"
proof -
  have "held_by (pu_repo demo_input, pu_number demo_input, pu_head demo_input) ''c9'' 5000 (pb_db demo_held)"
    by (simp add: held_by_def demo_held_def demo_input_def hc_key_def)
  from held_head_not_reviewed[OF this demo_steady] have "created (snd (publish_review demo_world demo_input demo_held)) = created demo_held"
    by (simp add: demo_world_def)
  then show ?thesis by (simp add: created_def demo_held_def demo_start_def)
qed

end
