(* ===== verification/ReviewPlan.thy ===== *)
theory ReviewPlan
  imports SelfConsistency
begin

text \<open>
  From the model's findings to the comments and the candidate event of a review (the middle of \<open>reviewPull\<close> in
  \<open>src/worker.ts\<close>): the confidence penalty of a degraded parse, the deterministic gate, the self-consistency
  recheck, and the second match of demoted comments against answered threads.
\<close>

section \<open>The plan\<close>

text \<open>Confidences are rationals here, not floating-point numbers.\<close>

definition applyRetryDegradedConfidencePenalty :: "finding list \<Rightarrow> bool \<Rightarrow> rat option \<Rightarrow> finding list" where
  "applyRetryDegradedConfidencePenalty fs degradedRecovery penalty =
     (case penalty of None \<Rightarrow> fs
      | Some p \<Rightarrow> if \<not> degradedRecovery \<or> p \<le> 0 then fs
          else map (\<lambda>f. f\<lparr>f_confidence := max 0 (f_confidence f - p)\<rparr>) fs)"

definition applySelfConsistencyRecheck ::
    "'v recheck option \<Rightarrow> conf_floors option \<Rightarrow> category_floors option \<Rightarrow> gate_result \<Rightarrow> review_comment list \<times> review_event" where
  "applySelfConsistencyRecheck recheck fl cf gate =
     (case recheck of None \<Rightarrow> (gr_comments gate, gr_event gate)
      | Some k \<Rightarrow> if \<not> rk_enabled (sk_config k) then (gr_comments gate, gr_event gate)
          else (case runSelfConsistencyRecheck k fl cf (gr_comments gate) of (out, event, _) \<Rightarrow> (out, event)))"

record 'v plan_input =
  pn_gate :: gate_input
  pn_degraded :: bool
  pn_penalty :: "rat option"
  pn_recheck :: "'v recheck option"

definition gated_findings :: "'v plan_input \<Rightarrow> finding list" where
  "gated_findings p = applyRetryDegradedConfidencePenalty (gi_findings (pn_gate p)) (pn_degraded p) (pn_penalty p)"

definition plan_review :: "text_host \<Rightarrow> 'v plan_input \<Rightarrow> review_comment list \<times> review_event \<times> dropped_finding list" where
  "plan_review h p =
     (let gate = applyDeterministicReviewGate h ((pn_gate p)\<lparr>gi_findings := gated_findings p\<rparr>);
          (checked, event) = applySelfConsistencyRecheck (pn_recheck p) (gi_floors (pn_gate p)) (gi_category_floors (pn_gate p)) gate;
          (comments, taken) = suppressAnsweredDemotedComments h checked (gated_findings p) (gi_threads (pn_gate p))
      in (comments, event, map (sanitizeDroppedFinding h) (gr_dropped gate @ taken)))"

section \<open>What a planned comment stems from\<close>

text \<open>A comment of the plan: made by the gate from a finding, or lowered from such a comment to P2.\<close>

definition stems_from :: "finding \<Rightarrow> review_comment \<Rightarrow> bool" where
  "stems_from f c \<longleftrightarrow> c_path c = f_path f \<and> c_line c = f_line f \<and> c_confidence c = f_confidence f \<and>
     (c_severity c = f_severity f \<or> c_severity c = P2 \<and> f_severity f \<in> {P0, P1})"

lemma comment_of_stems: "stems_from f (comment_of h f)"
  by (simp add: stems_from_def) (simp add: comment_of_def Let_def)

lemma demoted_stems: "stems_from f c \<Longrightarrow> demoteReviewComment c note = Some d \<Longrightarrow> stems_from f d"
  by (auto simp: stems_from_def demoteReviewComment_def Let_def split: if_splits)

lemma demoted_from_None: "c_demoted_from (comment_of h f) = None"
  by (simp add: comment_of_def Let_def)

text \<open>Whatever the recheck returns is a comment of the gate or a lowered one.\<close>

lemma rechecked_source:
  assumes "applySelfConsistencyRecheck k fl cf g = (out, ev)" "c \<in> set out"
  shows "c \<in> set (gr_comments g) \<or> (\<exists>b\<in>set (gr_comments g). demoteReviewComment b SEVERITY_DEMOTION_NOTE = Some c)"
proof (cases "\<exists>x. k = Some x \<and> rk_enabled (sk_config x)")
  case True
  then obtain x where x: "k = Some x" "rk_enabled (sk_config x)" by blast
  obtain o1 vs where l: "recheck_loop x 0 (gr_comments g) = (o1, vs)" by fastforce
  have "o1 = out" using assms(1) x l by (simp add: applySelfConsistencyRecheck_def runSelfConsistencyRecheck_def)
  from recheck_loop_output[OF l[unfolded this] assms(2)] show ?thesis by blast
next
  case False
  then show ?thesis using assms by (auto simp: applySelfConsistencyRecheck_def split: option.splits if_splits)
qed

lemma rechecked_event:
  assumes "gr_event g = decideReviewEvent fl cf (gr_comments g)" "applySelfConsistencyRecheck k fl cf g = (out, ev)"
  shows "ev = decideReviewEvent fl cf out"
  using assms by (auto simp: applySelfConsistencyRecheck_def runSelfConsistencyRecheck_def split: option.splits if_splits prod.splits)

lemma rechecked_length: "length (fst (applySelfConsistencyRecheck k fl cf g)) \<le> length (gr_comments g)"
proof (cases "\<exists>x. k = Some x \<and> rk_enabled (sk_config x)")
  case True
  then obtain x where x: "k = Some x" "rk_enabled (sk_config x)" by blast
  obtain o1 vs where l: "recheck_loop x 0 (gr_comments g) = (o1, vs)" by fastforce
  from recheck_loop_counts[OF l] x l show ?thesis by (simp add: applySelfConsistencyRecheck_def runSelfConsistencyRecheck_def)
qed (auto simp: applySelfConsistencyRecheck_def split: option.split)

text \<open>A comment taken back after the recheck was lowered to P2, so it never counted for the event.\<close>

lemma taken_back_not_eligible:
  assumes "applySelfConsistencyRecheck k fl cf (applyDeterministicReviewGate h i) = (out, ev)" "c \<in> set out"
    "demoted_thread h fs threads c \<noteq> None"
  shows "\<not> comment_eligible fl' cf' c"
proof -
  have "c_demoted_from c \<noteq> None" using assms(3) by (auto simp: demoted_thread_def split: if_splits)
  then have "c \<notin> set (gr_comments (applyDeterministicReviewGate h i))"
    using gate_comment_source[of c h i] demoted_from_None by auto
  with rechecked_source[OF assms(1,2)] show ?thesis using demoted_not_eligible by blast
qed

lemma suppressed_comments:
  "fst (suppressAnsweredDemotedComments h cs fs threads) = filter (\<lambda>c. threads = [] \<or> demoted_thread h fs threads c = None) cs"
  by (simp add: suppressAnsweredDemotedComments_def)

lemma penalty_source:
  assumes "g \<in> set (applyRetryDegradedConfidencePenalty fs b p)"
  shows "\<exists>f\<in>set fs. g = f\<lparr>f_confidence := f_confidence g\<rparr> \<and> f_confidence g \<le> max 0 (f_confidence f)"
proof (cases "\<exists>q. p = Some q \<and> b \<and> 0 < q")
  case True
  then obtain q where q: "p = Some q" "b" "0 < q" by blast
  then obtain f where f: "f \<in> set fs" "g = f\<lparr>f_confidence := max 0 (f_confidence f - q)\<rparr>"
    using assms by (auto simp: applyRetryDegradedConfidencePenalty_def)
  have "f_confidence g \<le> max 0 (f_confidence f)" using q(3) by (simp add: f(2) max_def)
  moreover have "g = f\<lparr>f_confidence := f_confidence g\<rparr>" by (simp add: f(2))
  ultimately show ?thesis using f(1) by blast
next
  case False
  then have "g \<in> set fs" using assms by (auto simp: applyRetryDegradedConfidencePenalty_def split: option.splits if_splits)
  then show ?thesis by (intro bexI[of _ g]) simp_all
qed

lemma planE:
  assumes "plan_review h p = (cs, ev, ds)"
  obtains g out where "g = applyDeterministicReviewGate h ((pn_gate p)\<lparr>gi_findings := gated_findings p\<rparr>)"
    "applySelfConsistencyRecheck (pn_recheck p) (gi_floors (pn_gate p)) (gi_category_floors (pn_gate p)) g = (out, ev)"
    "cs = fst (suppressAnsweredDemotedComments h out (gated_findings p) (gi_threads (pn_gate p)))"
  using assms by (auto simp: plan_review_def Let_def split: prod.splits)

lemma plan_event:
  assumes "plan_review h p = (cs, ev, ds)"
  shows "ev = decideReviewEvent (gi_floors (pn_gate p)) (gi_category_floors (pn_gate p)) cs"
proof -
  let ?i = "(pn_gate p)\<lparr>gi_findings := gated_findings p\<rparr>"
  let ?fl = "gi_floors (pn_gate p)" and ?cf = "gi_category_floors (pn_gate p)"
  obtain out where r: "applySelfConsistencyRecheck (pn_recheck p) ?fl ?cf (applyDeterministicReviewGate h ?i) = (out, ev)"
    and cs: "cs = fst (suppressAnsweredDemotedComments h out (gated_findings p) (gi_threads (pn_gate p)))"
    by (rule planE[OF assms]) blast
  have ev: "ev = decideReviewEvent ?fl ?cf out" using rechecked_event[OF _ r] gate_event[of h ?i] by simp
  have "c \<in> set cs" if "c \<in> set out" "comment_eligible ?fl ?cf c" for c
  proof -
    have "demoted_thread h (gated_findings p) (gi_threads (pn_gate p)) c = None"
      using taken_back_not_eligible[OF r that(1)] that(2) by blast
    then show ?thesis using that(1) by (simp add: cs suppressed_comments)
  qed
  then have "list_ex (comment_eligible ?fl ?cf) cs = list_ex (comment_eligible ?fl ?cf) out"
    unfolding list_ex_iff by (auto simp: cs suppressed_comments)
  then show ?thesis by (simp add: ev decideReviewEvent_def)
qed

lemma plan_source:
  assumes "plan_review h p = (cs, ev, ds)" "c \<in> set cs"
  shows "\<exists>f\<in>set (gi_findings (pn_gate p)). \<exists>ls. c_path c = f_path f \<and> c_line c = f_line f \<and>
       collectRightSideLines (gi_files (pn_gate p)) (f_path f) = Some ls \<and> f_line f \<in> int ` ls \<and>
       (c_severity c = f_severity f \<or> c_severity c = P2 \<and> f_severity f \<in> {P0, P1}) \<and>
       c_confidence c \<le> max 0 (f_confidence f)"
proof -
  let ?i = "(pn_gate p)\<lparr>gi_findings := gated_findings p\<rparr>"
  let ?g = "applyDeterministicReviewGate h ?i"
  obtain out where r: "applySelfConsistencyRecheck (pn_recheck p) (gi_floors (pn_gate p)) (gi_category_floors (pn_gate p)) ?g = (out, ev)"
    and cs: "cs = fst (suppressAnsweredDemotedComments h out (gated_findings p) (gi_threads (pn_gate p)))"
    by (rule planE[OF assms(1)]) blast
  have "c \<in> set out" using assms(2) by (simp add: cs suppressed_comments)
  from rechecked_source[OF r this] obtain b where b: "b \<in> set (gr_comments ?g)" "b = c \<or> demoteReviewComment b SEVERITY_DEMOTION_NOTE = Some c"
    by blast
  from gate_comment_source[OF b(1)] obtain g ls where g: "b = comment_of h g" "g \<in> set (gated_findings p)"
    "collectRightSideLines (gi_files (pn_gate p)) (f_path g) = Some ls" "f_line g \<in> int ` ls" by auto
  have st: "stems_from g c" using b(2) comment_of_stems[of g h] demoted_stems[of g b] g(1) by auto
  from penalty_source[OF g(2)[unfolded gated_findings_def]] obtain f where f: "f \<in> set (gi_findings (pn_gate p))"
    "g = f\<lparr>f_confidence := f_confidence g\<rparr>" "f_confidence g \<le> max 0 (f_confidence f)" by blast
  have "f_path g = f_path f" "f_line g = f_line f" "f_severity g = f_severity f" by (subst f(2), simp)+
  with st g(3,4) f(1,3) show ?thesis by (auto simp: stems_from_def)
qed

lemma plan_length:
  assumes "plan_review h p = (cs, ev, ds)"
  shows "length cs \<le> or_default (gi_cap (pn_gate p)) 25"
proof -
  let ?i = "(pn_gate p)\<lparr>gi_findings := gated_findings p\<rparr>"
  let ?fl = "gi_floors (pn_gate p)" and ?cf = "gi_category_floors (pn_gate p)"
  let ?g = "applyDeterministicReviewGate h ?i"
  obtain out where r: "applySelfConsistencyRecheck (pn_recheck p) ?fl ?cf ?g = (out, ev)"
    and cs: "cs = fst (suppressAnsweredDemotedComments h out (gated_findings p) (gi_threads (pn_gate p)))"
    by (rule planE[OF assms]) blast
  have "length cs \<le> length (gr_comments ?g)"
    using rechecked_length[of "pn_recheck p" ?fl ?cf ?g] r length_filter_le[of _ out] unfolding cs suppressed_comments
    by (metis (no_types, lifting) fst_conv order_trans)
  also have "\<dots> \<le> or_default (gi_cap (pn_gate p)) 25"
    using gate_cap[of h ?i] by simp
  finally show ?thesis .
qed

text \<open>C16: what is planned for posting is no more than the model found: every comment stands for a finding on a line
  that the scan of its file contains, at its severity or lowered from P0 or P1 to P2 and at most as confident;
  there are no more comments than the cap; and the candidate event is still the one these very comments call for,
  although comments were taken back after it was decided.\<close>

theorem plan_only_quietens:
  "case plan_review h p of (cs, ev, ds) \<Rightarrow>
     ev = decideReviewEvent (gi_floors (pn_gate p)) (gi_category_floors (pn_gate p)) cs \<and>
     list_all (\<lambda>c. \<exists>f\<in>set (gi_findings (pn_gate p)). \<exists>ls. c_path c = f_path f \<and> c_line c = f_line f \<and>
       collectRightSideLines (gi_files (pn_gate p)) (f_path f) = Some ls \<and> f_line f \<in> int ` ls \<and>
       (c_severity c = f_severity f \<or> c_severity c = P2 \<and> f_severity f \<in> {P0, P1}) \<and>
       c_confidence c \<le> max 0 (f_confidence f)) cs \<and>
     length cs \<le> or_default (gi_cap (pn_gate p)) 25"
proof -
  obtain cs ev ds where pl: "plan_review h p = (cs, ev, ds)" by (metis prod_cases3)
  show ?thesis using plan_event[OF pl] plan_source[OF pl] plan_length[OF pl] pl by (simp add: list_all_iff)
qed

lemma planned_change_receipt:
  assumes "pn_recheck p = Some k" "rk_enabled (sk_config k)" "{P0, P1} \<subseteq> severe_set (sk_config k)" "P2 \<notin> severe_set (sk_config k)"
    and "plan_review h p = (cs, EV_REQUEST_CHANGES, ds)"
  shows "\<exists>c\<in>set cs. \<exists>f\<in>set (gi_findings (pn_gate p)). c_path c = f_path f \<and> c_line c = f_line f \<and> c_severity c = f_severity f \<and>
    f_severity f \<in> {P0, P1} \<and>
    (\<exists>m x r. m < draw_limit k \<and> sk_draw k m c (extractHunk c (sk_files k)) = Some x \<and> sk_parse k x = Some r \<and>
      retainsSevereFinding r c (sk_context k))"
proof -
  let ?g = "applyDeterministicReviewGate h ((pn_gate p)\<lparr>gi_findings := gated_findings p\<rparr>)"
  let ?fl = "gi_floors (pn_gate p)" and ?cf = "gi_category_floors (pn_gate p)"
  obtain out where r: "applySelfConsistencyRecheck (pn_recheck p) ?fl ?cf ?g = (out, EV_REQUEST_CHANGES)"
    and cs: "cs = fst (suppressAnsweredDemotedComments h out (gated_findings p) (gi_threads (pn_gate p)))"
    by (rule planE[OF assms(5)]) blast
  then obtain vs where run: "runSelfConsistencyRecheck k ?fl ?cf (gr_comments ?g) = (out, EV_REQUEST_CHANGES, vs)"
    using assms(1,2) by (auto simp: applySelfConsistencyRecheck_def split: prod.splits)
  obtain c where c: "c \<in> set cs" "comment_eligible ?fl ?cf c"
    using plan_event[OF assms(5), symmetric] by (auto simp: requests_changes_iff)
  have out: "c \<in> set out" using c(1) by (simp add: cs suppressed_comments)
  have sev: "c_severity c = P0 \<or> c_severity c = P1"
    using c(2) by (cases "c_severity c") (simp_all add: comment_eligible_def eligible_iff less_eq_severity_def)
  obtain f where f: "f \<in> set (gi_findings (pn_gate p))" "c_path c = f_path f" "c_line c = f_line f"
    "c_severity c = f_severity f \<or> c_severity c = P2" using plan_source[OF assms(5) c(1)] by blast
  show ?thesis using kept_severe_receipt[OF assms(2,4) run out] c(1) f sev assms(3) by fastforce
qed

text \<open>with the second look on for P0 and P1, a planned review requests changes only because of a severe comment
  among those planned for posting: a draw within the maximum answered for this very comment with a receipt that
  parses, confirms it for this repository, pull request, base and head, and read the whole file and the whole hunk;
  and the model reported that finding at that severity.\<close>

theorem planned_changes_need_receipt:
  assumes "pn_recheck p = Some k" "rk_enabled (sk_config k)" "{P0, P1} \<subseteq> severe_set (sk_config k)" "P2 \<notin> severe_set (sk_config k)"
    and "plan_review h p = (cs, EV_REQUEST_CHANGES, ds)"
  shows "\<exists>c\<in>set cs. \<exists>f\<in>set (gi_findings (pn_gate p)). c_path c = f_path f \<and> c_line c = f_line f \<and> c_severity c = f_severity f \<and>
    f_severity f \<in> {P0, P1} \<and>
    (\<exists>m x r. m < draw_limit k \<and> sk_draw k m c (extractHunk c (sk_files k)) = Some x \<and> sk_parse k x = Some r \<and>
      retainsSevereFinding r c (sk_context k))"
  by (rule planned_change_receipt[OF assms])

section \<open>Example\<close>

definition demo_finding :: finding where
  "demo_finding = ex_finding\<lparr>f_category := Some runtime_correctness\<rparr>"

definition demo_confirmed :: "receipt recheck" where
  "demo_confirmed = ex_recheck\<lparr>sk_draw := (\<lambda>n c hunk. Some (ex_receipt\<lparr>rv_fingerprint := c_fingerprint c\<rparr>))\<rparr>"

definition demo_plan :: "receipt plan_input" where
  "demo_plan = \<lparr>pn_gate = \<lparr>gi_findings = [demo_finding], gi_files = ex_files, gi_schema_drops = [], gi_cap = None,
     gi_fingerprints = [], gi_memory = [], gi_threads = [], gi_floors = None, gi_category_floors = None\<rparr>,
     pn_degraded = False, pn_penalty = None, pn_recheck = Some demo_confirmed\<rparr>"

lemma demo_located: "location_drop (collectRightSideLines ex_files) demo_finding = None"
  by code_simp

lemma demo_gate: "gr_comments (applyDeterministicReviewGate ex_text_host (pn_gate demo_plan)) = [comment_of ex_text_host demo_finding]"
proof -
  have "validateFindingLocations [demo_finding] ex_files = ([demo_finding], [])"
    by (simp add: validateFindingLocations_def demo_located map_filter_simps)
  moreover have "applyRepoMemoryFalsePositiveSuppressions ex_text_host [demo_finding] [] [] = ([demo_finding], [])"
    by (simp add: applyRepoMemoryFalsePositiveSuppressions_def)
  moreover have "matchPriorThread demo_finding [] = None" by (simp add: matchPriorThread_def)
  moreover have "fst (normalizeFindingsForReview ex_text_host None [demo_finding]) = [comment_of ex_text_host demo_finding]"
  proof -
    have "\<not> carries_secret ex_text_host demo_finding" by code_simp
    moreover have "suppress_loop [] [demo_finding] = ([demo_finding], [])" by simp
    ultimately show ?thesis by (simp add: normalizeFindingsForReview_def suppressSameRunNearDuplicates_def js_sort_def Let_def)
  qed
  ultimately show ?thesis
    by (auto simp: applyDeterministicReviewGate_def demo_plan_def Let_def split: prod.splits)
qed


lemma demo_confirmed_config:
  "rk_enabled (sk_config demo_confirmed)" "severe_set (sk_config demo_confirmed) = {P0, P1}"
  "draw_limit demo_confirmed = 1" "rk_max (sk_config demo_confirmed) = Some 1" "pn_recheck demo_plan = Some demo_confirmed"
  "sk_draw demo_confirmed m c hk = Some (ex_receipt\<lparr>rv_fingerprint := c_fingerprint c\<rparr>)" "sk_parse demo_confirmed = Some"
  by (simp_all add: demo_confirmed_def demo_plan_def ex_recheck_def severe_set_def DEFAULT_SEVERITIES_def draw_limit_def)

lemma demo_comment_of:
  "c_severity (comment_of ex_text_host demo_finding) = P1" "c_path (comment_of ex_text_host demo_finding) = ''q.sql''"
  "c_confidence (comment_of ex_text_host demo_finding) = 9 / 10" "c_category (comment_of ex_text_host demo_finding) = runtime_correctness"
  by (simp_all add: comment_of_def Let_def normalizeFindingCategory_def category_eligible_def demo_finding_def ex_finding_def)

lemma demo_planned:
  "plan_review ex_text_host demo_plan =
     ([comment_of ex_text_host demo_finding], EV_REQUEST_CHANGES, snd (snd (plan_review ex_text_host demo_plan)))"
proof -
  let ?c = "comment_of ex_text_host demo_finding"
  note cfg = demo_confirmed_config and c = demo_comment_of
  have "retainsSevereFinding (ex_receipt\<lparr>rv_fingerprint := c_fingerprint ?c\<rparr>) ?c (sk_context demo_confirmed)"
    by (simp add: retainsSevereFinding_def demo_confirmed_def ex_recheck_def ex_receipt_def hasCompleteEvidence_def c demo_finding_def ex_finding_def)
  then have "fst (judge_draw demo_confirmed 0 ?c) = Some ?c"
    by (simp add: judge_draw_def demo_confirmed_def ex_recheck_def)
  then obtain w where j: "judge_draw demo_confirmed 0 ?c = (Some ?c, w)" by (metis prod.collapse)
  have "fst (recheck_loop demo_confirmed 0 [?c]) = [?c]" using cfg c by (simp add: j)
  then obtain vs where l: "recheck_loop demo_confirmed 0 [?c] = ([?c], vs)" by (metis prod.collapse)
  have ev: "decideReviewEvent None None [?c] = EV_REQUEST_CHANGES"
    by (simp add: decideReviewEvent_def comment_eligible_def eligible_iff c category_eligible_def severity_floor_def less_eq_severity_def)
  have "gated_findings demo_plan = [demo_finding]"
    by (simp add: gated_findings_def demo_plan_def applyRetryDegradedConfidencePenalty_def)
  then have gate: "(pn_gate demo_plan)\<lparr>gi_findings := gated_findings demo_plan\<rparr> = pn_gate demo_plan"
    by (simp add: demo_plan_def)
  have r: "pn_recheck demo_plan = Some demo_confirmed" "gi_floors (pn_gate demo_plan) = None"
    "gi_category_floors (pn_gate demo_plan) = None" "gi_threads (pn_gate demo_plan) = []"
    by (simp_all add: demo_plan_def)
  have "applySelfConsistencyRecheck (pn_recheck demo_plan) None None (applyDeterministicReviewGate ex_text_host (pn_gate demo_plan)) =
      ([?c], EV_REQUEST_CHANGES)"
    using cfg(1) ev l by (simp add: applySelfConsistencyRecheck_def runSelfConsistencyRecheck_def r(1) demo_gate)
  then show ?thesis
    by (simp add: plan_review_def gate r(2-4) suppressAnsweredDemotedComments_def)
qed

theorem planned_changes_need_receipt_witness:
  "\<exists>c\<in>set (fst (plan_review ex_text_host demo_plan)). c_severity c = P1 \<and>
     retainsSevereFinding (ex_receipt\<lparr>rv_fingerprint := c_fingerprint c\<rparr>) c (sk_context demo_confirmed)"
proof -
  note cfg = demo_confirmed_config
  have fst_plan: "fst (plan_review ex_text_host demo_plan) = [comment_of ex_text_host demo_finding]" by (subst demo_planned) simp
  have "P2 \<notin> severe_set (sk_config demo_confirmed)" "{P0, P1} \<subseteq> severe_set (sk_config demo_confirmed)" by (simp_all add: cfg(2))
  from planned_changes_need_receipt[OF cfg(5,1) this(2,1) demo_planned]
  show ?thesis by (auto simp: cfg(6,7) fst_plan demo_comment_of)
qed

end
