(* ===== verification/JsonText.thy ===== *)
theory JsonText
  imports Findings
begin

text \<open>
  The strict reading of receipt texts (\<open>src/severe-verification-receipt-parser-a.ts\<close>, \<open>-parser-b.ts\<close>): the byte cap, the
  byte order mark, the scanner that rejects duplicate keys, lone surrogates and deep nesting, and then \<open>JSON.parse\<close>.
  A text is the list of its UTF-16 code units. The scanner's position is the rest of the text.
\<close>

section \<open>Code units\<close>

type_synonym units = "nat list"

definition units_of :: "string \<Rightarrow> units" where
  "units_of s = map char_code s"

definition high_surrogate :: "nat \<Rightarrow> bool" where
  "high_surrogate c \<longleftrightarrow> 0xD800 \<le> c \<and> c \<le> 0xDBFF"

definition low_surrogate :: "nat \<Rightarrow> bool" where
  "low_surrogate c \<longleftrightarrow> 0xDC00 \<le> c \<and> c \<le> 0xDFFF"

text \<open>No lone surrogate.\<close>

fun scalar :: "units \<Rightarrow> bool" where
  "scalar [] = True"
| "scalar (c # s) =
     (if high_surrogate c then (case s of [] \<Rightarrow> False | n # s' \<Rightarrow> low_surrogate n \<and> scalar s')
      else \<not> low_surrogate c \<and> scalar s)"

section \<open>Parser A: the byte cap\<close>

datatype text_error = TE_malformed | TE_depth | TE_duplicate_key | TE_unicode | TE_bom | TE_utf8 | TE_cap_exceeded | TE_schema_invalid

definition MAX_SEVERE_VERIFICATION_RECEIPT_BYTES :: nat where
  "MAX_SEVERE_VERIFICATION_RECEIPT_BYTES = 512 * 1024"

text \<open>The bytes of the first code point, and what follows it.\<close>

fun first_bytes :: "units \<Rightarrow> nat \<times> units" where
  "first_bytes [] = (0, [])"
| "first_bytes (c # s) =
     (if c \<le> 0x7F then (1, s)
      else if c \<le> 0x7FF then (2, s)
      else if high_surrogate c \<and> s \<noteq> [] \<and> low_surrogate (hd s) then (4, tl s)
      else (3, s))"

lemma first_bytes_shorter [simp]: "length (snd (first_bytes (c # s))) < Suc (length s)"
  by (cases s) auto

function byte_cap_loop :: "nat \<Rightarrow> units \<Rightarrow> bool" where
  "byte_cap_loop bytes [] = True"
| "byte_cap_loop bytes (c # s) =
     (bytes + fst (first_bytes (c # s)) \<le> MAX_SEVERE_VERIFICATION_RECEIPT_BYTES \<and>
      byte_cap_loop (bytes + fst (first_bytes (c # s))) (snd (first_bytes (c # s))))"
  by pat_completeness auto
termination by (relation "measure (length \<circ> snd)") (simp_all del: first_bytes.simps)

definition withinByteCap :: "units \<Rightarrow> bool" where
  "withinByteCap t = byte_cap_loop 0 t"

text \<open>A text, or the bytes of one; the checks of \<open>Uint8Array\<close> objects by reflection have no counterpart in the model.\<close>

datatype serialized = Text units | Bytes "nat list"

definition prepareSerializedSevereVerificationInput :: "serialized \<Rightarrow> text_error + serialized" where
  "prepareSerializedSevereVerificationInput i =
     (case i of
        Text t \<Rightarrow> if withinByteCap t then Inr i else Inl TE_cap_exceeded
      | Bytes b \<Rightarrow> if length b \<le> MAX_SEVERE_VERIFICATION_RECEIPT_BYTES then Inr i else Inl TE_cap_exceeded)"

text \<open>The UTF-8 decoder is the platform's.\<close>

definition decode_text :: "(nat list \<Rightarrow> units option) \<Rightarrow> serialized \<Rightarrow> text_error + units" where
  "decode_text utf8 i =
     (case i of
        Text t \<Rightarrow> if take 1 t = [0xFEFF] then Inl TE_bom else Inr t
      | Bytes b \<Rightarrow>
          if take 3 b = [0xEF, 0xBB, 0xBF] then Inl TE_bom
          else (case utf8 b of None \<Rightarrow> Inl TE_utf8
            | Some t \<Rightarrow> if take 1 t = [0xFEFF] then Inl TE_bom else Inr t))"

section \<open>Parser B: the scanner\<close>

definition MAX_JSON_DEPTH :: nat where
  "MAX_JSON_DEPTH = 256"

definition json_space :: "units \<Rightarrow> units" where
  "json_space = dropWhile (\<lambda>c. c \<in> {9, 10, 13, 32})"

definition digit_unit :: "nat \<Rightarrow> bool" where
  "digit_unit c \<longleftrightarrow> 48 \<le> c \<and> c \<le> 57"

definition hex_unit :: "nat \<Rightarrow> nat option" where
  "hex_unit c = (if digit_unit c then Some (c - 48)
     else if 65 \<le> c \<and> c \<le> 70 then Some (c - 55)
     else if 97 \<le> c \<and> c \<le> 102 then Some (c - 87) else None)"

fun simple_escape :: "nat \<Rightarrow> nat option" where
  "simple_escape e =
     (if e \<in> {34, 92, 47} then Some e else if e = 98 then Some 8 else if e = 102 then Some 12
      else if e = 110 then Some 10 else if e = 114 then Some 13 else if e = 116 then Some 9 else None)"

text \<open>Four hexadecimal digits.\<close>

fun read_hex :: "nat \<Rightarrow> nat \<Rightarrow> units \<Rightarrow> (nat \<times> units) option" where
  "read_hex 0 u t = Some (u, t)"
| "read_hex (Suc k) u [] = None"
| "read_hex (Suc k) u (c # t) = (case hex_unit c of None \<Rightarrow> None | Some d \<Rightarrow> read_hex k (u * 16 + d) t)"

lemma read_hex_shorter: "read_hex k u t = Some (v, r) \<Longrightarrow> length r \<le> length t"
  by (induction k u t rule: read_hex.induct) (auto split: option.splits)

text \<open>The rest of a string after its opening quote; \<open>chars\<close> is what was read so far, in reverse.\<close>

function (sequential) scan_string :: "units \<Rightarrow> units \<Rightarrow> text_error + units \<times> units" where
  "scan_string chars [] = Inl TE_malformed"
| "scan_string chars (c # t) =
     (if c = 34 then (if scalar (rev chars) then Inr (rev chars, t) else Inl TE_unicode)
      else if c < 32 then Inl TE_malformed
      else if c \<noteq> 92 then scan_string (c # chars) t
      else (case t of
          [] \<Rightarrow> Inl TE_malformed
        | e # t1 \<Rightarrow>
            (case simple_escape e of
               Some u \<Rightarrow> scan_string (u # chars) t1
             | None \<Rightarrow>
                 if e \<noteq> 117 then Inl TE_malformed
                 else (case read_hex 4 0 t1 of None \<Rightarrow> Inl TE_malformed
                   | Some (u, t2) \<Rightarrow> scan_string (u # chars) t2))))"
  by pat_completeness auto
termination
  by (relation "measure (length \<circ> snd)") (auto dest!: read_hex_shorter simp del: simple_escape.simps read_hex.simps)

text \<open>A number: the rest after it, if there is one.\<close>

definition skip_digits :: "units \<Rightarrow> units" where
  "skip_digits = dropWhile digit_unit"

fun starts_digit :: "units \<Rightarrow> bool" where
  "starts_digit [] = False"
| "starts_digit (c # t) = digit_unit c"

definition skip_if :: "(nat \<Rightarrow> bool) \<Rightarrow> units \<Rightarrow> units" where
  "skip_if p t = (case t of c # t' \<Rightarrow> if p c then t' else t | [] \<Rightarrow> t)"

definition scan_fraction :: "units \<Rightarrow> units option" where
  "scan_fraction t = (case t of c # t1 \<Rightarrow> if c = 46 then (if starts_digit t1 then Some (skip_digits t1) else None) else Some t
     | [] \<Rightarrow> Some t)"

definition scan_exponent :: "units \<Rightarrow> units option" where
  "scan_exponent t = (case t of
       c # t1 \<Rightarrow> if c = 101 \<or> c = 69
         then (let t2 = skip_if (\<lambda>s. s = 43 \<or> s = 45) t1
               in if starts_digit t2 then Some (skip_digits t2) else None)
         else Some t
     | [] \<Rightarrow> Some t)"

definition scan_number :: "units \<Rightarrow> units option" where
  "scan_number t =
     (let t1 = skip_if (\<lambda>c. c = 45) t
      in case (case t1 of
           c # t' \<Rightarrow> if c = 48 then Some t' else if 49 \<le> c \<and> c \<le> 57 then Some (skip_digits t1) else None
         | [] \<Rightarrow> None) of
           None \<Rightarrow> None
         | Some t2 \<Rightarrow> (case scan_fraction t2 of None \<Rightarrow> None | Some t3 \<Rightarrow> scan_exponent t3))"

definition scan_literal :: "string \<Rightarrow> units \<Rightarrow> units option" where
  "scan_literal w t = (if take (length w) t = units_of w then Some (drop (length w) t) else None)"

definition malformed_or :: "units option \<Rightarrow> (text_error + units) option" where
  "malformed_or r = Some (case r of None \<Rightarrow> Inl TE_malformed | Some t \<Rightarrow> Inr t)"

text \<open>
  Values, and the loops of objects and arrays after their opening bracket and spaces. The first argument is fuel,
  one unit per call; \<open>None\<close> means that it ran out.
\<close>

fun scan_value :: "nat \<Rightarrow> nat \<Rightarrow> units \<Rightarrow> (text_error + units) option"
and scan_object :: "nat \<Rightarrow> nat \<Rightarrow> units set \<Rightarrow> units \<Rightarrow> (text_error + units) option"
and scan_array :: "nat \<Rightarrow> nat \<Rightarrow> units \<Rightarrow> (text_error + units) option" where
  "scan_value 0 depth t = None"
| "scan_value (Suc n) depth t =
     (if MAX_JSON_DEPTH < depth then Some (Inl TE_depth)
      else (case json_space t of
          [] \<Rightarrow> Some (Inl TE_malformed)
        | c # r \<Rightarrow>
            if c = 34 then (case scan_string [] r of Inl e \<Rightarrow> Some (Inl e) | Inr (_, r1) \<Rightarrow> Some (Inr r1))
            else if c = 123 then (if MAX_JSON_DEPTH \<le> depth then Some (Inl TE_depth)
              else (case json_space r of
                  d # r1 \<Rightarrow> if d = 125 then Some (Inr r1) else scan_object n (Suc depth) {} (d # r1)
                | [] \<Rightarrow> scan_object n (Suc depth) {} []))
            else if c = 91 then (if MAX_JSON_DEPTH \<le> depth then Some (Inl TE_depth)
              else (case json_space r of
                  d # r1 \<Rightarrow> if d = 93 then Some (Inr r1) else scan_array n (Suc depth) (d # r1)
                | [] \<Rightarrow> scan_array n (Suc depth) []))
            else if c = 116 then malformed_or (scan_literal ''true'' (c # r))
            else if c = 102 then malformed_or (scan_literal ''false'' (c # r))
            else if c = 110 then malformed_or (scan_literal ''null'' (c # r))
            else if c = 45 \<or> digit_unit c then malformed_or (scan_number (c # r))
            else Some (Inl TE_malformed)))"
| "scan_object 0 depth keys t = None"
| "scan_object (Suc n) depth keys t =
     (case t of
        [] \<Rightarrow> Some (Inl TE_malformed)
      | c # r \<Rightarrow>
          if c \<noteq> 34 then Some (Inl TE_malformed)
          else (case scan_string [] r of
              Inl e \<Rightarrow> Some (Inl e)
            | Inr (key, r1) \<Rightarrow>
                (case json_space r1 of
                   [] \<Rightarrow> Some (Inl TE_malformed)
                 | d # r2 \<Rightarrow>
                     if d \<noteq> 58 then Some (Inl TE_malformed)
                     else if key \<in> keys then Some (Inl TE_duplicate_key)
                     else (case scan_value n depth r2 of
                         None \<Rightarrow> None
                       | Some (Inl e) \<Rightarrow> Some (Inl e)
                       | Some (Inr r3) \<Rightarrow>
                           (case json_space r3 of
                              [] \<Rightarrow> Some (Inl TE_malformed)
                            | q # r4 \<Rightarrow>
                                if q = 125 then Some (Inr r4)
                                else if q \<noteq> 44 then Some (Inl TE_malformed)
                                else scan_object n depth (insert key keys) (json_space r4))))))"
| "scan_array 0 depth t = None"
| "scan_array (Suc n) depth t =
     (case scan_value n depth t of
        None \<Rightarrow> None
      | Some (Inl e) \<Rightarrow> Some (Inl e)
      | Some (Inr r) \<Rightarrow>
          (case json_space r of
             [] \<Rightarrow> Some (Inl TE_malformed)
           | q # r1 \<Rightarrow>
               if q = 93 then Some (Inr r1)
               else if q \<noteq> 44 then Some (Inl TE_malformed)
               else scan_array n depth (json_space r1)))"

definition scan_fuel :: "units \<Rightarrow> nat" where
  "scan_fuel t = 2 * length t + 1"

definition scanJson :: "units \<Rightarrow> (text_error + unit) option" where
  "scanJson t =
     (case scan_value (scan_fuel t) 0 t of
        None \<Rightarrow> None
      | Some (Inl e) \<Rightarrow> Some (Inl e)
      | Some (Inr r) \<Rightarrow> Some (if json_space r = [] then Inr () else Inl TE_malformed))"

section \<open>\<open>JSON.parse\<close>\<close>

datatype json_value = VNull | VBool bool | VNum "rat option" | VStr units | VArr "json_value list" | VObj "(units \<times> json_value) list"

text \<open>Strings here may hold lone surrogates.\<close>

function (sequential) read_string :: "units \<Rightarrow> units \<Rightarrow> (units \<times> units) option" where
  "read_string chars [] = None"
| "read_string chars (c # t) =
     (if c = 34 then Some (rev chars, t)
      else if c < 32 then None
      else if c \<noteq> 92 then read_string (c # chars) t
      else (case t of
          [] \<Rightarrow> None
        | e # t1 \<Rightarrow>
            (case simple_escape e of
               Some u \<Rightarrow> read_string (u # chars) t1
             | None \<Rightarrow>
                 if e \<noteq> 117 then None
                 else (case read_hex 4 0 t1 of None \<Rightarrow> None | Some (u, t2) \<Rightarrow> read_string (u # chars) t2))))"
  by pat_completeness auto
termination
  by (relation "measure (length \<circ> snd)") (auto dest!: read_hex_shorter simp del: simple_escape.simps read_hex.simps)

text \<open>A later member of the same name replaces the value of an earlier one.\<close>

definition put_member :: "units \<Rightarrow> json_value \<Rightarrow> (units \<times> json_value) list \<Rightarrow> (units \<times> json_value) list" where
  "put_member k v ms = (if k \<in> fst ` set ms then map (\<lambda>(q, w). (q, if q = k then v else w)) ms else ms @ [(k, v)])"

definition value_or :: "json_value \<Rightarrow> units option \<Rightarrow> (json_value \<times> units) option" where
  "value_or v r = map_option (Pair v) r"

text \<open>The value of a numeral is the platform's \<open>num\<close>; \<open>None\<close> is infinity.\<close>

fun read_value :: "(units \<Rightarrow> rat option) \<Rightarrow> nat \<Rightarrow> units \<Rightarrow> (json_value \<times> units) option"
and read_members :: "(units \<Rightarrow> rat option) \<Rightarrow> nat \<Rightarrow> (units \<times> json_value) list \<Rightarrow> units \<Rightarrow> (json_value \<times> units) option"
and read_items :: "(units \<Rightarrow> rat option) \<Rightarrow> nat \<Rightarrow> json_value list \<Rightarrow> units \<Rightarrow> (json_value \<times> units) option" where
  "read_value num 0 t = None"
| "read_value num (Suc n) t =
     (case json_space t of
        [] \<Rightarrow> None
      | c # r \<Rightarrow>
          if c = 34 then map_option (apfst VStr) (read_string [] r)
          else if c = 123 then (case json_space r of
              d # r1 \<Rightarrow> if d = 125 then Some (VObj [], r1) else read_members num n [] (d # r1)
            | [] \<Rightarrow> None)
          else if c = 91 then (case json_space r of
              d # r1 \<Rightarrow> if d = 93 then Some (VArr [], r1) else read_items num n [] (d # r1)
            | [] \<Rightarrow> None)
          else if c = 116 then value_or (VBool True) (scan_literal ''true'' (c # r))
          else if c = 102 then value_or (VBool False) (scan_literal ''false'' (c # r))
          else if c = 110 then value_or VNull (scan_literal ''null'' (c # r))
          else if c = 45 \<or> digit_unit c then
            (case scan_number (c # r) of None \<Rightarrow> None
             | Some r1 \<Rightarrow> Some (VNum (num (take (length (c # r) - length r1) (c # r))), r1))
          else None)"
| "read_members num 0 ms t = None"
| "read_members num (Suc n) ms t =
     (case t of
        [] \<Rightarrow> None
      | c # r \<Rightarrow>
          if c \<noteq> 34 then None
          else (case read_string [] r of
              None \<Rightarrow> None
            | Some (key, r1) \<Rightarrow>
                (case json_space r1 of
                   [] \<Rightarrow> None
                 | d # r2 \<Rightarrow>
                     if d \<noteq> 58 then None
                     else (case read_value num n r2 of
                         None \<Rightarrow> None
                       | Some (v, r3) \<Rightarrow>
                           (case json_space r3 of
                              [] \<Rightarrow> None
                            | q # r4 \<Rightarrow>
                                if q = 125 then Some (VObj (put_member key v ms), r4)
                                else if q \<noteq> 44 then None
                                else read_members num n (put_member key v ms) (json_space r4))))))"
| "read_items num 0 vs t = None"
| "read_items num (Suc n) vs t =
     (case read_value num n t of
        None \<Rightarrow> None
      | Some (v, r) \<Rightarrow>
          (case json_space r of
             [] \<Rightarrow> None
           | q # r1 \<Rightarrow>
               if q = 93 then Some (VArr (vs @ [v]), r1)
               else if q \<noteq> 44 then None
               else read_items num n (vs @ [v]) (json_space r1)))"

definition JSON_parse :: "(units \<Rightarrow> rat option) \<Rightarrow> units \<Rightarrow> json_value option" where
  "JSON_parse num t = (case read_value num (scan_fuel t) t of
      None \<Rightarrow> None
    | Some (v, r) \<Rightarrow> if json_space r = [] then Some v else None)"

text \<open>Parser B. An error of \<open>JSON.parse\<close> is caught.\<close>

definition parseSevereVerificationReceiptJson ::
    "(nat list \<Rightarrow> units option) \<Rightarrow> (units \<Rightarrow> rat option) \<Rightarrow> serialized \<Rightarrow> (text_error + json_value) option" where
  "parseSevereVerificationReceiptJson utf8 num i =
     (case prepareSerializedSevereVerificationInput i of
        Inl e \<Rightarrow> Some (Inl e)
      | Inr bounded \<Rightarrow>
          (case decode_text utf8 bounded of
             Inl e \<Rightarrow> Some (Inl e)
           | Inr t \<Rightarrow>
               (case scanJson t of
                  None \<Rightarrow> None
                | Some (Inl e) \<Rightarrow> Some (Inl e)
                | Some (Inr _) \<Rightarrow> Some (case JSON_parse num t of None \<Rightarrow> Inl TE_malformed | Some v \<Rightarrow> Inr v))))"

text \<open>What the scan promises of the value: bounded nesting, no name twice in an object, no lone surrogate.\<close>

fun clean :: "nat \<Rightarrow> json_value \<Rightarrow> bool" where
  "clean d (VStr s) = scalar s"
| "clean d (VArr vs) = (0 < d \<and> list_all (clean (d - 1)) vs)"
| "clean d (VObj ms) = (0 < d \<and> distinct (map fst ms) \<and> list_all (\<lambda>(k, v). scalar k \<and> clean (d - 1) v) ms)"
| "clean d v = True"

section \<open>The scan ends\<close>

lemma json_space_shorter: "length (json_space t) \<le> length t"
  by (simp add: json_space_def length_dropWhile_le)

lemma scan_string_step:
  assumes "scan_string cs (c # t) = Inr (v, r)"
  obtains "v = rev cs" "r = t" "scalar v" "read_string cs (c # t) = Some (v, r)"
    | cs' t' where "length t' \<le> length t" "scan_string cs' t' = Inr (v, r)" "read_string cs (c # t) = read_string cs' t'"
proof (cases "c = 34 \<or> c \<noteq> 92")
  case True
  then show ?thesis using assms that by (auto split: if_splits)
next
  case False
  then obtain e t1 where t: "t = e # t1" using assms by (cases t) auto
  show ?thesis
  proof (cases "simple_escape e")
    case (Some u)
    then have "scan_string (u # cs) t1 = Inr (v, r)" "read_string cs (c # t) = read_string (u # cs) t1"
      using assms False t by (simp_all del: simple_escape.simps)
    then show ?thesis using t that(2)[of t1 "u # cs"] by simp
  next
    case None
    then obtain u t2 where u: "read_hex 4 0 t1 = Some (u, t2)" "scan_string (u # cs) t2 = Inr (v, r)" "e = 117"
      using assms False t by (auto split: if_splits option.splits simp del: simple_escape.simps read_hex.simps)
    then have "read_string cs (c # t) = read_string (u # cs) t2" using None False t by (simp del: simple_escape.simps read_hex.simps)
    then show ?thesis using t read_hex_shorter[OF u(1)] u(2) that(2)[of t2 "u # cs"] by simp
  qed
qed

lemma scan_string_shorter: "scan_string cs t = Inr (v, r) \<Longrightarrow> length r < length t"
proof (induction "length t" arbitrary: cs t rule: less_induct)
  case less
  then obtain c t' where t: "t = c # t'" by (cases t) auto
  from less.prems[unfolded t] show ?case
  proof (cases rule: scan_string_step)
    case (2 cs2 t2)
    with less.hyps[of t2 cs2] t show ?thesis by simp
  qed (simp add: t)
qed

lemma scanned_string: "scan_string cs t = Inr (v, r) \<Longrightarrow> read_string cs t = Some (v, r) \<and> scalar v"
proof (induction "length t" arbitrary: cs t rule: less_induct)
  case less
  then obtain c t' where t: "t = c # t'" by (cases t) auto
  from less.prems[unfolded t] show ?case
  proof (cases rule: scan_string_step)
    case (2 cs2 t2)
    with less.hyps[of t2 cs2] t show ?thesis by (simp del: read_string.simps)
  qed (simp add: t)
qed

lemma skip_digits_shorter: "length (skip_digits t) \<le> length t"
  by (simp add: skip_digits_def length_dropWhile_le)

lemma scan_fraction_shorter: "scan_fraction t = Some r \<Longrightarrow> length r \<le> length t"
  using skip_digits_shorter[of "tl t"] by (cases t) (auto simp: scan_fraction_def split: if_splits)

lemma skip_if_shorter: "length (skip_if p t) \<le> length t"
  by (simp add: skip_if_def split: list.split)

lemma scan_exponent_shorter: "scan_exponent t = Some r \<Longrightarrow> length r \<le> length t"
proof (cases t)
  case (Cons c t1)
  let ?t2 = "skip_if (\<lambda>s. s = 43 \<or> s = 45) t1"
  assume "scan_exponent t = Some r"
  then have "r = t \<or> r = skip_digits ?t2" by (simp add: scan_exponent_def Let_def Cons split: if_splits)
  then show ?thesis using skip_digits_shorter[of ?t2] skip_if_shorter[of "\<lambda>s. s = 43 \<or> s = 45" t1] Cons by auto
qed (simp add: scan_exponent_def)

lemma scan_number_shorter:
  assumes "scan_number t = Some r"
  shows "length r < length t"
proof -
  obtain t1 t2 t3 where t: "t1 = skip_if (\<lambda>c. c = 45) t"
    "(case t1 of c # t' \<Rightarrow> if c = 48 then Some t' else if 49 \<le> c \<and> c \<le> 57 then Some (skip_digits t1) else None | [] \<Rightarrow> None) = Some t2"
    "scan_fraction t2 = Some t3" "scan_exponent t3 = Some r"
    using assms by (auto simp: scan_number_def Let_def split: option.splits)
  have "length t1 \<le> length t" by (simp add: t(1) skip_if_shorter)
  moreover have "length t2 < length t1"
  proof (cases t1)
    case (Cons c t')
    then have "t2 = t' \<or> t2 = skip_digits t'" using t(2) by (auto simp: skip_digits_def digit_unit_def split: if_splits)
    then show ?thesis using skip_digits_shorter[of t'] Cons by auto
  qed (use t(2) in simp)
  ultimately show ?thesis using scan_fraction_shorter[OF t(3)] scan_exponent_shorter[OF t(4)] by linarith
qed

lemma scan_literal_shorter: "w \<noteq> [] \<Longrightarrow> scan_literal w (c # t) = Some r \<Longrightarrow> length r \<le> length t"
  by (cases w) (auto simp: scan_literal_def split: if_splits)

text \<open>What a value consumes: the cases of the scanner in one rule.\<close>

lemma scan_value_cases:
  assumes "scan_value (Suc n) depth t = x"
  obtains (error) e where "x = Some (Inl e)"
    | (simple) c r r1 where "json_space t = c # r" "length r1 \<le> length r" "x = Some (Inr r1)"
        "\<And>num. \<exists>v. read_value num (Suc n) t = Some (v, r1) \<and> clean (MAX_JSON_DEPTH - depth) v"
    | (object) c r where "json_space t = c # r" "c = 123" "depth < MAX_JSON_DEPTH" "x = scan_object n (Suc depth) {} (json_space r)"
    | (array) c r where "json_space t = c # r" "c = 91" "depth < MAX_JSON_DEPTH" "x = scan_array n (Suc depth) (json_space r)"
        "\<nexists>r1. json_space r = 93 # r1"
proof (cases "json_space t")
  case Nil
  then show ?thesis using assms error by (auto split: if_splits)
next
  case (Cons c r)
  note head = this
  show ?thesis
  proof (cases "x = None \<or> (\<exists>r1. x = Some (Inr r1))")
    case False
    then obtain e where "x = Some (Inl e)" by (metis old.sum.exhaust option.exhaust)
    then show ?thesis by (rule error)
  next
    case good: True
    have d: "\<not> MAX_JSON_DEPTH < depth" using good assms by auto
    note eq = assms[symmetric, simplified, simplified head list.case d if_False]
    have settle: thesis if "length r1 \<le> length r" "x = Some (Inr r1)" "\<And>num. read_value num (Suc n) t = Some (w num, r1)"
        "\<And>num. clean (MAX_JSON_DEPTH - depth) (w num)" for r1 and w :: "(units \<Rightarrow> rat option) \<Rightarrow> json_value"
      using simple[OF head that(1,2)] that(3,4) by blast
    consider (str) "c = 34" | (obj) "c = 123" | (arr) "c = 91" | (tr) "c = 116" | (fl) "c = 102" | (nu) "c = 110"
      | (num) "c = 45 \<or> digit_unit c" "c \<notin> {34, 123, 91, 116, 102, 110}" | (other) "c \<notin> {34, 123, 91, 116, 102, 110, 45}" "\<not> digit_unit c"
      by blast
    then show ?thesis
    proof cases
      case str
      then obtain v r1 where v: "scan_string [] r = Inr (v, r1)" "x = Some (Inr r1)"
        using eq good by (auto split: sum.splits)
      show ?thesis
        by (rule settle[of r1 "\<lambda>_. VStr v"]) (use v scanned_string[OF v(1)] scan_string_shorter[OF v(1)] str in \<open>simp_all add: head\<close>)
    next
      case obj
      then have lt: "depth < MAX_JSON_DEPTH" using eq good by (auto simp: not_less split: if_splits)
      show ?thesis
      proof (cases "\<exists>r1. json_space r = 125 # r1")
        case True
        then obtain r1 where r1: "json_space r = 125 # r1" by blast
        show ?thesis
          by (rule settle[of r1 "\<lambda>_. VObj []"]) (use r1 eq obj lt json_space_shorter[of r] in \<open>simp_all add: head\<close>)
      next
        case False
        then have "x = scan_object n (Suc depth) {} (json_space r)" using eq obj lt by (auto split: list.splits if_splits)
        then show ?thesis using object[OF head obj lt] by simp
      qed
    next
      case arr
      then have lt: "depth < MAX_JSON_DEPTH" using eq good by (auto simp: not_less split: if_splits)
      show ?thesis
      proof (cases "\<exists>r1. json_space r = 93 # r1")
        case True
        then obtain r1 where r1: "json_space r = 93 # r1" by blast
        show ?thesis
          by (rule settle[of r1 "\<lambda>_. VArr []"]) (use r1 eq arr lt json_space_shorter[of r] in \<open>simp_all add: head\<close>)
      next
        case False
        then have "x = scan_array n (Suc depth) (json_space r)" using eq arr lt by (auto split: list.splits if_splits)
        then show ?thesis using array[OF head arr lt] False by simp
      qed
    next
      case num
      then obtain r1 where r1: "scan_number (c # r) = Some r1" "x = Some (Inr r1)"
        using eq good by (auto simp: malformed_or_def split: option.splits)
      show ?thesis
        by (rule settle[of r1 "\<lambda>num. VNum (num (take (length (c # r) - length r1) (c # r)))"])
          (use r1 num scan_number_shorter[OF r1(1)] in \<open>auto simp: head\<close>)
    next
      case tr
      then obtain r1 where r1: "scan_literal ''true'' (c # r) = Some r1" "x = Some (Inr r1)"
        using eq good by (auto simp: malformed_or_def split: option.splits)
      show ?thesis
        by (rule settle[of r1 "\<lambda>_. VBool True"]) (use r1 tr scan_literal_shorter[OF _ r1(1)] in \<open>simp_all add: head value_or_def\<close>)
    next
      case fl
      then obtain r1 where r1: "scan_literal ''false'' (c # r) = Some r1" "x = Some (Inr r1)"
        using eq good by (auto simp: malformed_or_def split: option.splits)
      show ?thesis
        by (rule settle[of r1 "\<lambda>_. VBool False"]) (use r1 fl scan_literal_shorter[OF _ r1(1)] in \<open>simp_all add: head value_or_def\<close>)
    next
      case nu
      then obtain r1 where r1: "scan_literal ''null'' (c # r) = Some r1" "x = Some (Inr r1)"
        using eq good by (auto simp: malformed_or_def split: option.splits)
      show ?thesis
        by (rule settle[of r1 "\<lambda>_. VNull"]) (use r1 nu scan_literal_shorter[OF _ r1(1)] in \<open>simp_all add: head value_or_def\<close>)
    next
      case other
      then show ?thesis using eq good by auto
    qed
  qed
qed

lemma json_space_Cons: "json_space t = c # r \<Longrightarrow> length r < length t"
  using json_space_shorter[of t] by simp

lemma scan_object_cases:
  assumes "scan_object (Suc n) depth keys t = x"
  obtains (error) e where "x = Some (Inl e)"
    | (member) key r1 r2 where "scan_string [] (tl t) = Inr (key, r1)" "json_space r1 = 58 # r2" "key \<notin> keys" "t = 34 # tl t"
        "Suc (Suc (length r2)) < length t" "scan_value n depth r2 = None" "x = None"
    | (last) key r1 r2 r3 r4 where "scan_string [] (tl t) = Inr (key, r1)" "json_space r1 = 58 # r2" "key \<notin> keys" "t = 34 # tl t"
        "Suc (Suc (length r2)) < length t" "scan_value n depth r2 = Some (Inr r3)" "json_space r3 = 125 # r4" "x = Some (Inr r4)"
    | (more) key r1 r2 r3 r4 where "scan_string [] (tl t) = Inr (key, r1)" "json_space r1 = 58 # r2" "key \<notin> keys" "t = 34 # tl t"
        "Suc (Suc (length r2)) < length t" "scan_value n depth r2 = Some (Inr r3)" "json_space r3 = 44 # r4"
        "x = scan_object n depth (insert key keys) (json_space r4)"
proof (cases "\<exists>e. x = Some (Inl e)")
  case True
  then show ?thesis using error by blast
next
  case False
  note eq = assms[symmetric, simplified]
  obtain r where t: "t = 34 # r" using eq False by (cases t) (auto split: if_splits)
  obtain key r1 where key: "scan_string [] r = Inr (key, r1)" using eq False t by (auto split: sum.splits)
  obtain r2 where r2: "json_space r1 = 58 # r2" "key \<notin> keys"
    using eq False t key by (auto split: list.splits if_splits)
  have len: "Suc (Suc (length r2)) < length t"
    using scan_string_shorter[OF key] json_space_Cons[OF r2(1)] t by simp
  note eq2 = eq[unfolded t list.case key sum.case prod.case r2(1), simplified r2(2) if_False, simplified]
  note base = key r2 len
  show ?thesis
  proof (cases "scan_value n depth r2")
    case None
    then show ?thesis using member[of key r1 r2] base t eq2 by simp
  next
    case (Some y)
    then obtain r3 where r3: "scan_value n depth r2 = Some (Inr r3)" using eq2 False by (cases y) auto
    then obtain q r4 where q: "json_space r3 = q # r4" using eq2 False by (auto split: list.splits)
    then consider "q = 125" | "q = 44" using eq2 False r3 by (auto split: if_splits)
    then show ?thesis
    proof cases
      case 1
      then have "x = Some (Inr r4)" using eq2 r3 q by simp
      then show ?thesis using last[of key r1 r2 r3 r4] base t r3 q 1 by simp
    next
      case 2
      then have "x = scan_object n depth (insert key keys) (json_space r4)" using eq2 r3 q by simp
      then show ?thesis using more[of key r1 r2 r3 r4] base t r3 q 2 by simp
    qed
  qed
qed

lemma scan_array_cases:
  assumes "scan_array (Suc n) depth t = x"
  obtains (error) e where "x = Some (Inl e)"
    | (item) "scan_value n depth t = None" "x = None"
    | (last) r r1 where "scan_value n depth t = Some (Inr r)" "json_space r = 93 # r1" "x = Some (Inr r1)"
    | (more) r r1 where "scan_value n depth t = Some (Inr r)" "json_space r = 44 # r1" "x = scan_array n depth (json_space r1)"
proof (cases "\<exists>e. x = Some (Inl e)")
  case True
  then show ?thesis using error by blast
next
  case False
  note eq = assms[symmetric, simplified]
  show ?thesis
  proof (cases "scan_value n depth t")
    case None
    then show ?thesis using item eq by simp
  next
    case (Some y)
    then obtain r where r: "scan_value n depth t = Some (Inr r)" using eq False by (cases y) auto
    then obtain q r1 where q: "json_space r = q # r1" using eq False by (auto split: list.splits)
    then have "q = 93 \<or> q = 44" using eq False r by (auto split: if_splits)
    then show ?thesis using last[of r r1] more[of r r1] eq r q by auto
  qed
qed

lemma scan_consumes:
  "(\<forall>depth t r. scan_value n depth t = Some (Inr r) \<longrightarrow> length r < length t) \<and>
   (\<forall>depth keys t r. scan_object n depth keys t = Some (Inr r) \<longrightarrow> length r < length t) \<and>
   (\<forall>depth t r. scan_array n depth t = Some (Inr r) \<longrightarrow> length r < length t)"
proof (induction n)
  case (Suc n)
  have v: "length r < length t" if "scan_value n depth t = Some (Inr r)" for depth t r using Suc that by blast
  have o: "length r < length t" if "scan_object n depth keys t = Some (Inr r)" for depth keys t r using Suc that by blast
  have a: "length r < length t" if "scan_array n depth t = Some (Inr r)" for depth t r using Suc that by blast
  show ?case
  proof (intro conjI allI impI)
    fix depth t r
    assume "scan_value (Suc n) depth t = Some (Inr r)"
    then show "length r < length t"
    proof (cases rule: scan_value_cases)
      case (object c q)
      then show ?thesis using o[of "Suc depth" "{}" "json_space q" r] json_space_Cons[of t c q] json_space_shorter[of q] by simp
    next
      case (array c q)
      then show ?thesis using a[of "Suc depth" "json_space q" r] json_space_Cons[of t c q] json_space_shorter[of q] by simp
    qed (auto dest!: json_space_Cons)
  next
    fix depth keys t r
    assume "scan_object (Suc n) depth keys t = Some (Inr r)"
    then show "length r < length t"
    proof (cases rule: scan_object_cases)
      case (last key r1 r2 r3 r4)
      then show ?thesis using v[of depth r2 r3] json_space_Cons[of r3 125 r4] by simp
    next
      case (more key r1 r2 r3 r4)
      then show ?thesis using v[of depth r2 r3] json_space_Cons[of r3 44 r4] json_space_shorter[of r4]
          o[of depth "insert key keys" "json_space r4" r] by simp
    qed auto
  next
    fix depth t r
    assume "scan_array (Suc n) depth t = Some (Inr r)"
    then show "length r < length t"
    proof (cases rule: scan_array_cases)
      case (last q r1)
      then show ?thesis using v[of depth t q] json_space_Cons[of q 93 r1] by simp
    next
      case (more q r1)
      then show ?thesis using v[of depth t q] json_space_Cons[of q 44 r1] json_space_shorter[of r1] a[of depth "json_space r1" r] by simp
    qed auto
  qed
qed simp

lemma scan_value_consumes: "scan_value n depth t = Some (Inr r) \<Longrightarrow> length r < length t"
  using scan_consumes by blast

lemma scan_enough:
  "(\<forall>depth t. 2 * length t + 1 \<le> n \<longrightarrow> scan_value n depth t \<noteq> None) \<and>
   (\<forall>depth keys t. 2 * length t + 2 \<le> n \<longrightarrow> scan_object n depth keys t \<noteq> None) \<and>
   (\<forall>depth t. 2 * length t + 2 \<le> n \<longrightarrow> scan_array n depth t \<noteq> None)"
proof (induction n)
  case (Suc n)
  have v: "scan_value n depth t \<noteq> None" if "2 * length t + 1 \<le> n" for depth t using Suc that by blast
  have o: "scan_object n depth keys t \<noteq> None" if "2 * length t + 2 \<le> n" for depth keys t using Suc that by blast
  have a: "scan_array n depth t \<noteq> None" if "2 * length t + 2 \<le> n" for depth t using Suc that by blast
  show ?case
  proof (intro conjI allI impI notI)
    fix depth and t :: units
    assume n: "2 * length t + 1 \<le> Suc n" and x: "scan_value (Suc n) depth t = None"
    from x show False
    proof (cases rule: scan_value_cases)
      case (object c q)
      then show ?thesis using o[of "json_space q" "Suc depth" "{}"] json_space_Cons[of t c q] json_space_shorter[of q] n by simp
    next
      case (array c q)
      then show ?thesis using a[of "json_space q" "Suc depth"] json_space_Cons[of t c q] json_space_shorter[of q] n by simp
    qed auto
  next
    fix depth keys and t :: units
    assume n: "2 * length t + 2 \<le> Suc n" and x: "scan_object (Suc n) depth keys t = None"
    from x show False
    proof (cases rule: scan_object_cases)
      case (member key r1 r2)
      then show ?thesis using v[of r2 depth] n by simp
    next
      case (more key r1 r2 r3 r4)
      then show ?thesis using o[of "json_space r4" depth "insert key keys"] scan_value_consumes[of n depth r2 r3]
          json_space_Cons[of r3 44 r4] json_space_shorter[of r4] n by simp
    qed auto
  next
    fix depth and t :: units
    assume n: "2 * length t + 2 \<le> Suc n" and x: "scan_array (Suc n) depth t = None"
    from x show False
    proof (cases rule: scan_array_cases)
      case item
      then show ?thesis using v[of t depth] n by simp
    next
      case (more q r1)
      then show ?thesis using a[of "json_space r1" depth] scan_value_consumes[of n depth t q]
          json_space_Cons[of q 44 r1] json_space_shorter[of r1] n by simp
    qed auto
  qed
qed simp


lemma scan_more_fuel:
  "(\<forall>depth t x. scan_value n depth t = Some x \<longrightarrow> scan_value (Suc n) depth t = Some x) \<and>
   (\<forall>depth keys t x. scan_object n depth keys t = Some x \<longrightarrow> scan_object (Suc n) depth keys t = Some x) \<and>
   (\<forall>depth t x. scan_array n depth t = Some x \<longrightarrow> scan_array (Suc n) depth t = Some x)"
proof (induction n)
  case (Suc n)
  have v: "scan_value (Suc n) depth t = Some x" if "scan_value n depth t = Some x" for depth t x using Suc that by blast
  have o: "scan_object (Suc n) depth keys t = Some x" if "scan_object n depth keys t = Some x" for depth keys t x using Suc that by blast
  have a: "scan_array (Suc n) depth t = Some x" if "scan_array n depth t = Some x" for depth t x using Suc that by blast
  show ?case
  proof (intro conjI allI impI)
    fix depth t x
    assume x: "scan_value (Suc n) depth t = Some x"
    show "scan_value (Suc (Suc n)) depth t = Some x"
    proof (cases "json_space t")
      case Nil
      then show ?thesis using x by (simp split: if_splits)
    next
      case (Cons c r)
      show ?thesis
      proof (cases "c = 123 \<or> c = 91")
        case True
        then show ?thesis using x o a Cons by (cases "json_space r") (auto simp del: scan_object.simps scan_array.simps split: if_splits)
      next
        case False
        then show ?thesis using x Cons by (auto split: if_splits)
      qed
    qed
  next
    fix depth keys t x
    assume x: "scan_object (Suc n) depth keys t = Some x"
    show "scan_object (Suc (Suc n)) depth keys t = Some x"
      using x v o
      by (subst scan_object.simps(2), subst (asm) scan_object.simps(2))
        (auto simp del: scan_value.simps scan_object.simps scan_array.simps split: if_splits list.splits sum.splits prod.splits option.splits)
  next
    fix depth t x
    assume x: "scan_array (Suc n) depth t = Some x"
    show "scan_array (Suc (Suc n)) depth t = Some x"
      using x v a
      by (subst scan_array.simps(2), subst (asm) scan_array.simps(2))
        (auto simp del: scan_value.simps scan_object.simps scan_array.simps split: if_splits list.splits sum.splits option.splits)
  qed
qed simp

lemma read_members_head: "read_members num n ms t = Some x \<Longrightarrow> \<exists>r. t = 34 # r"
  by (cases n; cases t) (auto split: if_splits)

lemma read_items_Nil: "read_items num n vs [] = None"
proof (cases n)
  case (Suc m)
  have "read_value num m [] = None" by (cases m) (simp_all add: json_space_def)
  then show ?thesis using Suc by simp
qed simp

abbreviation clean_members :: "nat \<Rightarrow> (units \<times> json_value) list \<Rightarrow> bool" where
  "clean_members d ms \<equiv> distinct (map fst ms) \<and> list_all (\<lambda>(k, v). scalar k \<and> clean d v) ms"

lemma put_new_member:
  "k \<notin> fst ` set ms \<Longrightarrow> clean_members d ms \<Longrightarrow> scalar k \<Longrightarrow> clean d v \<Longrightarrow>
   clean_members d (put_member k v ms) \<and> fst ` set (put_member k v ms) = insert k (fst ` set ms)"
  by (auto simp: put_member_def)

lemma scanned_reads:
  "(\<forall>depth t r. scan_value n depth t = Some (Inr r) \<longrightarrow>
      (\<exists>v. read_value num n t = Some (v, r) \<and> clean (MAX_JSON_DEPTH - depth) v)) \<and>
   (\<forall>depth keys t r ms. scan_object n depth keys t = Some (Inr r) \<longrightarrow> fst ` set ms = keys \<longrightarrow>
      clean_members (MAX_JSON_DEPTH - depth) ms \<longrightarrow>
      (\<exists>ms'. read_members num n ms t = Some (VObj ms', r) \<and> clean_members (MAX_JSON_DEPTH - depth) ms')) \<and>
   (\<forall>depth t r vs. scan_array n depth t = Some (Inr r) \<longrightarrow> list_all (clean (MAX_JSON_DEPTH - depth)) vs \<longrightarrow>
      (\<exists>vs'. read_items num n vs t = Some (VArr vs', r) \<and> list_all (clean (MAX_JSON_DEPTH - depth)) vs'))"
proof (induction n)
  case (Suc n)
  have v: "\<exists>v. read_value num n t = Some (v, r) \<and> clean (MAX_JSON_DEPTH - depth) v" if "scan_value n depth t = Some (Inr r)" for depth t r
    using Suc that by blast
  have o: "\<exists>ms'. read_members num n ms t = Some (VObj ms', r) \<and> clean_members (MAX_JSON_DEPTH - depth) ms'"
    if "scan_object n depth (fst ` set ms) t = Some (Inr r)" "clean_members (MAX_JSON_DEPTH - depth) ms" for depth ms t r
    using Suc that by blast
  have a: "\<exists>vs'. read_items num n vs t = Some (VArr vs', r) \<and> list_all (clean (MAX_JSON_DEPTH - depth)) vs'"
    if "scan_array n depth t = Some (Inr r)" "list_all (clean (MAX_JSON_DEPTH - depth)) vs" for depth vs t r
    using Suc that by blast
  show ?case
  proof (intro conjI allI impI)
    fix depth t r
    assume "scan_value (Suc n) depth t = Some (Inr r)"
    then show "\<exists>v. read_value num (Suc n) t = Some (v, r) \<and> clean (MAX_JSON_DEPTH - depth) v"
    proof (cases rule: scan_value_cases)
      case (object c q)
      then obtain ms' where m: "read_members num n [] (json_space q) = Some (VObj ms', r)" "clean_members (MAX_JSON_DEPTH - Suc depth) ms'"
        using o[of "Suc depth" "[]" "json_space q" r] by auto
      obtain q' where "json_space q = 34 # q'" using read_members_head[OF m(1)] by blast
      then have "read_value num (Suc n) t = Some (VObj ms', r)" using object(1,2) m(1) by simp
      moreover have "clean (MAX_JSON_DEPTH - depth) (VObj ms')" using m(2) object(3) by simp
      ultimately show ?thesis by blast
    next
      case (array c q)
      then obtain vs' where m: "read_items num n [] (json_space q) = Some (VArr vs', r)" "list_all (clean (MAX_JSON_DEPTH - Suc depth)) vs'"
        using a[of "Suc depth" "json_space q" r "[]"] by auto
      have "json_space q \<noteq> []" using m(1) by (auto simp: read_items_Nil)
      then have "read_value num (Suc n) t = Some (VArr vs', r)" using array(1,2,5) m(1) by (cases "json_space q") auto
      moreover have "clean (MAX_JSON_DEPTH - depth) (VArr vs')" using m(2) array(3) by simp
      ultimately show ?thesis by blast
    qed (simp_all del: read_value.simps)
  next
    fix depth keys t r and ms :: "(units \<times> json_value) list"
    assume x: "scan_object (Suc n) depth keys t = Some (Inr r)" and keys: "fst ` set ms = keys" and ms: "clean_members (MAX_JSON_DEPTH - depth) ms"
    from x show "\<exists>ms'. read_members num (Suc n) ms t = Some (VObj ms', r) \<and> clean_members (MAX_JSON_DEPTH - depth) ms'"
    proof (cases rule: scan_object_cases)
      case (last key r1 r2 r3 r4)
      then obtain w where w: "read_value num n r2 = Some (w, r3)" "clean (MAX_JSON_DEPTH - depth) w" using v by blast
      have k: "read_string [] (tl t) = Some (key, r1)" "scalar key" using scanned_string[OF last(1)] by blast+
      have "clean_members (MAX_JSON_DEPTH - depth) (put_member key w ms)"
        using put_new_member[of key ms "MAX_JSON_DEPTH - depth" w] keys last(3) ms k(2) w(2) by blast
      moreover have "read_members num (Suc n) ms t = Some (VObj (put_member key w ms), r)"
      proof -
        obtain q where q: "t = 34 # q" using last(4) by blast
        show ?thesis using k(1) last(2,7,8) w(1) by (simp add: q)
      qed
      ultimately show ?thesis by blast
    next
      case (more key r1 r2 r3 r4)
      then obtain w where w: "read_value num n r2 = Some (w, r3)" "clean (MAX_JSON_DEPTH - depth) w" using v by blast
      have k: "read_string [] (tl t) = Some (key, r1)" "scalar key" using scanned_string[OF more(1)] by blast+
      have p: "clean_members (MAX_JSON_DEPTH - depth) (put_member key w ms)" "fst ` set (put_member key w ms) = insert key keys"
        using put_new_member[of key ms "MAX_JSON_DEPTH - depth" w] keys more(3) ms k(2) w(2) by blast+
      have "read_members num (Suc n) ms t = read_members num n (put_member key w ms) (json_space r4)"
      proof -
        obtain q where q: "t = 34 # q" using more(4) by blast
        show ?thesis using k(1) more(2,7) w(1) by (simp add: q)
      qed
      then show ?thesis using o[of depth "put_member key w ms" "json_space r4" r] more(8) p by simp
    qed simp_all
  next
    fix depth t r and vs :: "json_value list"
    assume x: "scan_array (Suc n) depth t = Some (Inr r)" and vs: "list_all (clean (MAX_JSON_DEPTH - depth)) vs"
    from x show "\<exists>vs'. read_items num (Suc n) vs t = Some (VArr vs', r) \<and> list_all (clean (MAX_JSON_DEPTH - depth)) vs'"
    proof (cases rule: scan_array_cases)
      case (last q r1)
      then obtain w where w: "read_value num n t = Some (w, q)" "clean (MAX_JSON_DEPTH - depth) w" using v by blast
      then show ?thesis using last vs by simp
    next
      case (more q r1)
      then obtain w where w: "read_value num n t = Some (w, q)" "clean (MAX_JSON_DEPTH - depth) w" using v by blast
      then have "read_items num (Suc n) vs t = read_items num n (vs @ [w]) (json_space r1)" using more by simp
      then show ?thesis using a[of depth "json_space r1" r "vs @ [w]"] more(3) vs w(2) by simp
    qed simp_all
  qed
qed simp

section \<open>Properties of the strict reader\<close>

text \<open>C33: the scan of any text ends: its recursion never exceeds the fuel of twice the length plus one, and more fuel
  changes nothing.\<close>

theorem scan_terminates:
  "scanJson t \<noteq> None \<and> scan_value (scan_fuel t + k) 0 t = scan_value (scan_fuel t) 0 t"
proof -
  have some: "scan_value (scan_fuel t) 0 t \<noteq> None" using scan_enough[of "scan_fuel t"] by (simp add: scan_fuel_def del: scan_value.simps)
  then obtain x where x: "scan_value (scan_fuel t) 0 t = Some x" by blast
  have "scan_value (scan_fuel t + k) 0 t = Some x"
  proof (induction k)
    case (Suc k)
    then show ?case using scan_more_fuel[of "scan_fuel t + k"] by (simp del: scan_value.simps)
  qed (simp add: x)
  then show ?thesis using x by (auto simp: scanJson_def split: sum.split)
qed

text \<open>C32: a text that the scan accepts is always accepted by \<open>JSON.parse\<close> (so that its error branch is dead), and the value
  it gives nests at most 256 deep, has no object with a name twice and no string with a lone surrogate.\<close>

theorem scanned_text_parses:
  assumes "scanJson t = Some (Inr ())"
  shows "\<exists>v. JSON_parse num t = Some v \<and> clean MAX_JSON_DEPTH v"
proof -
  obtain r where r: "scan_value (scan_fuel t) 0 t = Some (Inr r)" "json_space r = []"
    using assms by (auto simp: scanJson_def split: option.splits sum.splits if_splits)
  then show ?thesis using scanned_reads[of "scan_fuel t" num] by (fastforce simp: JSON_parse_def)
qed

section \<open>Reading back what \<open>JSON.stringify\<close> wrote\<close>

definition quote_unit :: "nat \<Rightarrow> units" where
  "quote_unit n =
     (if n = 34 \<or> n = 92 then [92, n]
      else if n = 8 then [92, 98] else if n = 9 then [92, 116] else if n = 10 then [92, 110]
      else if n = 12 then [92, 102] else if n = 13 then [92, 114]
      else if n < 32 then [92, 117, 48, 48, 48 + n div 16, (if n mod 16 < 10 then 48 else 87) + n mod 16]
      else [n])"

definition quote_units :: "units \<Rightarrow> units" where
  "quote_units s = 34 # concat (map quote_unit s) @ [34]"

fun join_units :: "units list \<Rightarrow> units" where
  "join_units [] = []"
| "join_units [w] = w"
| "join_units (w # v # ws) = w @ 44 # join_units (v # ws)"

fun render :: "(rat \<Rightarrow> units) \<Rightarrow> json_value \<Rightarrow> units" where
  "render shown VNull = units_of ''null''"
| "render shown (VBool b) = (if b then units_of ''true'' else units_of ''false'')"
| "render shown (VNum q) = (case q of None \<Rightarrow> units_of ''null'' | Some q \<Rightarrow> shown q)"
| "render shown (VStr s) = quote_units s"
| "render shown (VArr vs) = 91 # join_units (map (render shown) vs) @ [93]"
| "render shown (VObj ms) = 123 # join_units (map (\<lambda>(k, v). quote_units k @ 58 # render shown v) ms) @ [125]"

text \<open>A numeral, whole; a text that may follow a value.\<close>

definition numeral_text :: "units \<Rightarrow> bool" where
  "numeral_text s \<longleftrightarrow> s \<noteq> [] \<and> (hd s = 45 \<or> digit_unit (hd s)) \<and> scan_number s = Some []"

definition follows :: "units \<Rightarrow> bool" where
  "follows r \<longleftrightarrow> r = [] \<or> hd r \<in> {44, 93, 125}"

fun readable_numbers :: "(units \<Rightarrow> rat option) \<Rightarrow> (rat \<Rightarrow> units) \<Rightarrow> json_value \<Rightarrow> bool" where
  "readable_numbers num shown (VNum x) = (case x of None \<Rightarrow> False | Some q \<Rightarrow> numeral_text (shown q) \<and> num (shown q) = Some q)"
| "readable_numbers num shown (VArr vs) = list_all (readable_numbers num shown) vs"
| "readable_numbers num shown (VObj ms) = list_all (\<lambda>(k, v). readable_numbers num shown v) ms"
| "readable_numbers num shown v = True"

lemma read_hex_control:
  assumes "n < 32"
  shows "read_hex 4 0 (48 # 48 # (48 + n div 16) # ((if n mod 16 < 10 then 48 else 87) + n mod 16) # t) = Some (n, t)"
proof -
  have "n mod 16 < 16" "n div 16 < 2" using assms by auto
  then have "hex_unit (48 + n div 16) = Some (n div 16)" "hex_unit ((if n mod 16 < 10 then 48 else 87) + n mod 16) = Some (n mod 16)"
    by (auto simp: hex_unit_def digit_unit_def)
  moreover have "hex_unit 48 = Some 0" by (simp add: hex_unit_def digit_unit_def)
  moreover have "(4::nat) = Suc (Suc (Suc (Suc 0)))" by simp
  moreover have "n div 16 * 16 + n mod 16 = n" by simp
  ultimately show ?thesis by (simp only: read_hex.simps option.case mult_0 add_0)
qed

lemma scan_quoted_unit:
  "scan_string cs (quote_unit c @ t) = scan_string (c # cs) t \<and> read_string cs (quote_unit c @ t) = read_string (c # cs) t"
proof -
  consider (quote) "c = 34 \<or> c = 92" | (short) "c \<in> {8, 9, 10, 12, 13}" | (control) "c < 32" "c \<notin> {8, 9, 10, 12, 13}"
    | (plain) "32 \<le> c" "c \<noteq> 34" "c \<noteq> 92" by fastforce
  then show ?thesis
  proof cases
    case control
    then have q: "quote_unit c @ t = 92 # 117 # 48 # 48 # (48 + c div 16) # ((if c mod 16 < 10 then 48 else 87) + c mod 16) # t"
      by (auto simp: quote_unit_def)
    show ?thesis unfolding q by (simp add: read_hex_control[OF control(1)] del: read_hex.simps)
  qed (auto simp: quote_unit_def)
qed

lemma read_quoted:
  assumes "scalar s"
  shows "scan_string [] (concat (map quote_unit s) @ 34 # t) = Inr (s, t)" "read_string [] (concat (map quote_unit s) @ 34 # t) = Some (s, t)"
proof -
  have "scan_string cs (concat (map quote_unit s) @ t') = scan_string (rev s @ cs) t'" "read_string cs (concat (map quote_unit s) @ t') = read_string (rev s @ cs) t'" for cs t'
    by (induction s arbitrary: cs) (simp_all add: scan_quoted_unit)
  then show "scan_string [] (concat (map quote_unit s) @ 34 # t) = Inr (s, t)" "read_string [] (concat (map quote_unit s) @ 34 # t) = Some (s, t)"
    using assms by simp_all
qed

lemma follows_head: "follows (c # r) \<Longrightarrow> c \<in> {44, 93, 125}"
  by (simp add: follows_def)

lemma skip_digits_append: "follows r \<Longrightarrow> skip_digits (t @ r) = skip_digits t @ r"
  by (cases r) (auto simp: skip_digits_def follows_def digit_unit_def dropWhile_append dropWhile_eq_self_iff)

lemma starts_digit_append: "starts_digit t \<Longrightarrow> starts_digit (t @ r)"
  by (cases t) auto

lemma skip_if_append: "skip_if p t \<noteq> [] \<Longrightarrow> skip_if p (t @ r) = skip_if p t @ r"
  by (cases t) (auto simp: skip_if_def)

lemma scan_fraction_append:
  assumes "scan_fraction t = Some u" "follows r"
  shows "scan_fraction (t @ r) = Some (u @ r)"
proof (cases t)
  case Nil
  then show ?thesis using assms by (cases r) (auto simp: scan_fraction_def follows_def)
next
  case (Cons c t1)
  then show ?thesis using assms skip_digits_append[OF assms(2), of t1] starts_digit_append[of t1 r]
    by (auto simp: scan_fraction_def split: if_splits)
qed

lemma scan_exponent_append:
  assumes "scan_exponent t = Some u" "follows r"
  shows "scan_exponent (t @ r) = Some (u @ r)"
proof (cases t)
  case Nil
  then show ?thesis using assms by (cases r) (auto simp: scan_exponent_def follows_def)
next
  case (Cons c t1)
  show ?thesis
  proof (cases "c = 101 \<or> c = 69")
    case True
    let ?sign = "skip_if (\<lambda>s. s = 43 \<or> s = 45)"
    have d: "starts_digit (?sign t1)" "u = skip_digits (?sign t1)"
      using assms(1) True Cons by (auto simp: scan_exponent_def Let_def split: if_splits)
    then have "?sign (t1 @ r) = ?sign t1 @ r" by (intro skip_if_append) auto
    then show ?thesis using d True Cons skip_digits_append[OF assms(2), of "?sign t1"] starts_digit_append[of "?sign t1" r]
      by (auto simp: scan_exponent_def Let_def)
  qed (use assms Cons in \<open>auto simp: scan_exponent_def\<close>)
qed

lemma scan_number_append:
  assumes "scan_number t = Some u" "follows r"
  shows "scan_number (t @ r) = Some (u @ r)"
proof -
  let ?sign = "skip_if (\<lambda>c. c = 45)"
  let ?int = "\<lambda>t. case t of c # t' \<Rightarrow> if c = 48 then Some t' else if 49 \<le> c \<and> c \<le> 57 then Some (skip_digits t) else None | [] \<Rightarrow> None"
  obtain t2 t3 where t: "?int (?sign t) = Some t2" "scan_fraction t2 = Some t3" "scan_exponent t3 = Some u"
    using assms(1) by (auto simp: scan_number_def Let_def split: option.splits)
  have ne: "?sign t \<noteq> []" using t(1) by auto
  then have s: "?sign (t @ r) = ?sign t @ r" by (rule skip_if_append)
  obtain c t' where c: "?sign t = c # t'" using ne by (cases "?sign t") auto
  then have "?int (?sign t @ r) = Some (t2 @ r)"
    using t(1) skip_digits_append[OF assms(2), of "c # t'"] by (auto split: if_splits)
  then show ?thesis
    using scan_fraction_append[OF t(2) assms(2)] scan_exponent_append[OF t(3) assms(2)] by (simp only: scan_number_def Let_def s option.case)
qed

lemma json_space_id: "t = [] \<or> hd t \<notin> {9, 10, 13, 32} \<Longrightarrow> json_space t = t"
  by (cases t) (auto simp: json_space_def)

lemma follows_space: "follows r \<Longrightarrow> json_space r = r"
  by (rule json_space_id) (auto simp: follows_def)

text \<open>The first unit of a rendered value is no space and closes nothing.\<close>

lemma render_head:
  assumes "readable_numbers num shown v"
  shows "\<exists>c t. render shown v = c # t \<and> c \<notin> {9, 10, 13, 32, 44, 93, 125}"
proof (cases v)
  case (VNum x)
  then obtain q where "x = Some q" "numeral_text (shown q)" using assms by (auto split: option.splits)
  then show ?thesis using VNum by (cases "shown q") (auto simp: numeral_text_def digit_unit_def)
qed (auto simp: units_of_def char_code_def quote_units_def)

definition reads_back :: "(units \<Rightarrow> rat option) \<Rightarrow> (rat \<Rightarrow> units) \<Rightarrow> json_value \<Rightarrow> bool" where
  "reads_back num shown v \<longleftrightarrow>
     (\<forall>depth n r. clean (MAX_JSON_DEPTH - depth) v \<longrightarrow> depth \<le> MAX_JSON_DEPTH \<longrightarrow> readable_numbers num shown v \<longrightarrow> follows r \<longrightarrow>
        2 * length (render shown v) + 1 \<le> n \<longrightarrow>
        scan_value n depth (render shown v @ r) = Some (Inr r) \<and> read_value num n (render shown v @ r) = Some (v, r))"

lemma reads_backD:
  assumes "reads_back num shown v" "clean (MAX_JSON_DEPTH - depth) v" "depth \<le> MAX_JSON_DEPTH" "readable_numbers num shown v" "follows r"
    "2 * length (render shown v) + 1 \<le> n"
  shows "scan_value n depth (render shown v @ r) = Some (Inr r)" "read_value num n (render shown v @ r) = Some (v, r)"
  using assms unfolding reads_back_def by blast+

lemma join_units_Cons: "ws \<noteq> [] \<Longrightarrow> join_units (w # ws) = w @ 44 # join_units ws"
  by (cases ws) auto

lemma items_read_back:
  assumes "\<And>v. v \<in> set vs \<Longrightarrow> reads_back num shown v" "list_all (clean (MAX_JSON_DEPTH - depth)) vs" "depth \<le> MAX_JSON_DEPTH"
    "list_all (readable_numbers num shown) vs" "vs \<noteq> []" "2 * length (join_units (map (render shown) vs)) + 2 \<le> n"
  shows "scan_array n depth (join_units (map (render shown) vs) @ 93 # r) = Some (Inr r) \<and>
    read_items num n us (join_units (map (render shown) vs) @ 93 # r) = Some (VArr (us @ vs), r)"
  using assms
proof (induction vs arbitrary: n us)
  case (Cons v vs)
  obtain m where n: "n = Suc m" using Cons.prems(6) by (cases n) auto
  show ?case
  proof (cases "vs = []")
    case True
    have f: "follows (93 # r)" by (simp add: follows_def)
    have "scan_value m depth (render shown v @ 93 # r) = Some (Inr (93 # r))" "read_value num m (render shown v @ 93 # r) = Some (v, 93 # r)"
      by (rule reads_backD[where num = num, OF _ _ _ _ f]; use Cons.prems True in \<open>simp add: n\<close>)+
    then show ?thesis using True f by (simp add: n follows_space)
  next
    case False
    let ?rest = "44 # join_units (map (render shown) vs) @ 93 # r"
    have f: "follows ?rest" by (simp add: follows_def)
    have j: "join_units (map (render shown) (v # vs)) = render shown v @ 44 # join_units (map (render shown) vs)"
      using False by (simp add: join_units_Cons)
    have one: "scan_value m depth (render shown v @ ?rest) = Some (Inr ?rest)" "read_value num m (render shown v @ ?rest) = Some (v, ?rest)"
      by (rule reads_backD[where num = num, OF _ _ _ _ f]; use Cons.prems j in \<open>simp add: n\<close>)+
    obtain w ws where w: "vs = w # ws" using False by (cases vs) auto
    have "json_space (join_units (map (render shown) vs) @ 93 # r) = join_units (map (render shown) vs) @ 93 # r"
    proof (rule json_space_id, rule disjI2)
      obtain c t where "render shown w = c # t" "c \<notin> {9, 10, 13, 32, 44, 93, 125}"
        using render_head[of num shown w] Cons.prems(4) w by auto
      then show "hd (join_units (map (render shown) vs) @ 93 # r) \<notin> {9, 10, 13, 32}" using w by (cases ws) auto
    qed
    moreover have "scan_array m depth (join_units (map (render shown) vs) @ 93 # r) = Some (Inr r) \<and>
        read_items num m (us @ [v]) (join_units (map (render shown) vs) @ 93 # r) = Some (VArr (us @ v # vs), r)"
      using Cons.IH[of m "us @ [v]"] Cons.prems False n j by simp
    moreover have shape: "join_units (map (render shown) (v # vs)) @ 93 # r = render shown v @ ?rest" unfolding j by simp
    ultimately show ?thesis unfolding shape using f one by (simp add: n follows_space)
  qed
qed simp

lemma quote_units_read:
  assumes "scalar s"
  shows "\<exists>t. quote_units s @ r = 34 # t \<and> scan_string [] t = Inr (s, r) \<and> read_string [] t = Some (s, r)"
  using read_quoted[OF assms, of r] by (simp add: quote_units_def)

lemma members_read_back:
  assumes "\<And>k v. (k, v) \<in> set ms \<Longrightarrow> reads_back num shown v" "clean_members (MAX_JSON_DEPTH - depth) ms" "depth \<le> MAX_JSON_DEPTH"
    "list_all (\<lambda>(k, v). readable_numbers num shown v) ms" "ms \<noteq> []"
    "2 * length (join_units (map (\<lambda>(k, v). quote_units k @ 58 # render shown v) ms)) + 2 \<le> n"
    "keys \<inter> fst ` set ms = {}" "fst ` set us \<inter> fst ` set ms = {}"
  shows "scan_object n depth keys (join_units (map (\<lambda>(k, v). quote_units k @ 58 # render shown v) ms) @ 125 # r) = Some (Inr r) \<and>
    read_members num n us (join_units (map (\<lambda>(k, v). quote_units k @ 58 # render shown v) ms) @ 125 # r) = Some (VObj (us @ ms), r)"
  using assms
proof (induction ms arbitrary: n keys us)
  case (Cons kv ms)
  obtain k v where kv: "kv = (k, v)" by fastforce
  obtain m where n: "n = Suc m" using Cons.prems(6) by (cases n) auto
  let ?j = "join_units (map (\<lambda>(k, v). quote_units k @ 58 # render shown v) ms)"
  have sk: "scalar k" and new: "k \<notin> keys" "put_member k v us = us @ [(k, v)]" using Cons.prems kv by (auto simp: put_member_def)
  have rv: "reads_back num shown v" using Cons.prems(1)[of k v] kv by simp
  have colon: "json_space (58 # t) = 58 # t" for t by (rule json_space_id) simp
  show ?case
  proof (cases "ms = []")
    case True
    have f: "follows (125 # r)" by (simp add: follows_def)
    obtain t where t: "quote_units k @ 58 # render shown v @ 125 # r = 34 # t" "scan_string [] t = Inr (k, 58 # render shown v @ 125 # r)"
      "read_string [] t = Some (k, 58 # render shown v @ 125 # r)" using quote_units_read[OF sk] by blast
    have one: "scan_value m depth (render shown v @ 125 # r) = Some (Inr (125 # r))" "read_value num m (render shown v @ 125 # r) = Some (v, 125 # r)"
      by (rule reads_backD[OF rv _ _ _ f]; use Cons.prems(2-) True kv in \<open>simp add: n\<close>)+
    have shape: "join_units (map (\<lambda>(k, v). quote_units k @ 58 # render shown v) (kv # ms)) @ 125 # r = 34 # t" using t(1) True kv by simp
    show ?thesis unfolding shape using True f new one by (simp add: n t(2,3) colon follows_space kv)
  next
    case False
    let ?rest = "44 # ?j @ 125 # r"
    have f: "follows ?rest" by (simp add: follows_def)
    have j: "join_units (map (\<lambda>(k, v). quote_units k @ 58 # render shown v) (kv # ms)) = quote_units k @ 58 # render shown v @ 44 # ?j"
      using False kv by (simp add: join_units_Cons)
    obtain t where t: "quote_units k @ 58 # render shown v @ ?rest = 34 # t" "scan_string [] t = Inr (k, 58 # render shown v @ ?rest)"
      "read_string [] t = Some (k, 58 # render shown v @ ?rest)" using quote_units_read[OF sk] by blast
    have one: "scan_value m depth (render shown v @ ?rest) = Some (Inr ?rest)" "read_value num m (render shown v @ ?rest) = Some (v, ?rest)"
      by (rule reads_backD[OF rv _ _ _ f]; use Cons.prems(2-) j kv in \<open>simp add: n\<close>)+
    obtain k' v' ms' where w: "ms = (k', v') # ms'" using False by (cases ms) auto
    have head: "json_space (?j @ 125 # r) = ?j @ 125 # r"
      by (rule json_space_id, rule disjI2) (use w in \<open>cases ms'; simp add: quote_units_def\<close>)
    have more: "scan_object m depth (insert k keys) (?j @ 125 # r) = Some (Inr r) \<and>
        read_members num m (us @ [(k, v)]) (?j @ 125 # r) = Some (VObj ((us @ [(k, v)]) @ ms), r)"
      by (rule Cons.IH) (use Cons.prems False n j kv in \<open>auto\<close>)
    have shape: "join_units (map (\<lambda>(k, v). quote_units k @ 58 # render shown v) (kv # ms)) @ 125 # r = 34 # t" using t(1) j by simp
    show ?thesis unfolding shape using f new one more by (simp add: n t(2,3) colon follows_space head kv)
  qed
qed simp

lemma value_reads_back: "reads_back num shown v"
proof (induction v)
  case (VArr vs)
  show ?case unfolding reads_back_def
  proof (intro allI impI)
    fix depth n r
    assume c: "clean (MAX_JSON_DEPTH - depth) (VArr vs)" "depth \<le> MAX_JSON_DEPTH" "readable_numbers num shown (VArr vs)"
      and n: "2 * length (render shown (VArr vs)) + 1 \<le> n"
    obtain m where m: "n = Suc m" using n by (cases n) auto
    have d: "depth < MAX_JSON_DEPTH" "list_all (clean (MAX_JSON_DEPTH - Suc depth)) vs" using c(1) by simp_all
    show "scan_value n depth (render shown (VArr vs) @ r) = Some (Inr r) \<and> read_value num n (render shown (VArr vs) @ r) = Some (VArr vs, r)"
    proof (cases "vs = []")
      case True
      then show ?thesis using d(1) by (simp add: m json_space_id)
    next
      case False
      let ?t = "join_units (map (render shown) vs) @ 93 # r"
      have items: "scan_array m (Suc depth) ?t = Some (Inr r) \<and> read_items num m [] ?t = Some (VArr ([] @ vs), r)"
        by (rule items_read_back) (use VArr c d n m False in auto)
      obtain w ws where w: "vs = w # ws" using False by (cases vs) auto
      obtain a t where a: "?t = a # t" "a \<notin> {9, 10, 13, 32, 44, 93, 125}"
        using render_head[of num shown w] c(3) w by (cases ws) auto
      have sp: "json_space ?t = ?t" by (rule json_space_id) (use a in simp)
      have shape: "render shown (VArr vs) @ r = 91 # ?t" by simp
      show ?thesis unfolding shape using d(1) items sp a by (simp add: m json_space_id)
    qed
  qed
next
  case (VObj ms)
  show ?case unfolding reads_back_def
  proof (intro allI impI)
    fix depth n r
    assume c: "clean (MAX_JSON_DEPTH - depth) (VObj ms)" "depth \<le> MAX_JSON_DEPTH" "readable_numbers num shown (VObj ms)"
      and n: "2 * length (render shown (VObj ms)) + 1 \<le> n"
    obtain m where m: "n = Suc m" using n by (cases n) auto
    have d: "depth < MAX_JSON_DEPTH" "clean_members (MAX_JSON_DEPTH - Suc depth) ms" using c(1) by simp_all
    let ?j = "join_units (map (\<lambda>(k, v). quote_units k @ 58 # render shown v) ms)"
    show "scan_value n depth (render shown (VObj ms) @ r) = Some (Inr r) \<and> read_value num n (render shown (VObj ms) @ r) = Some (VObj ms, r)"
    proof (cases "ms = []")
      case True
      then show ?thesis using d(1) by (simp add: m json_space_id)
    next
      case False
      let ?t = "?j @ 125 # r"
      have members: "scan_object m (Suc depth) {} ?t = Some (Inr r) \<and> read_members num m [] ?t = Some (VObj ([] @ ms), r)"
        by (rule members_read_back) (use VObj c d n m False in \<open>auto simp: Basic_BNFs.snds.simps\<close>)
      obtain a t where a: "?t = 34 # t"
        using False by (cases ms; cases "tl ms") (auto simp: quote_units_def)
      have sp: "json_space ?t = ?t" by (rule json_space_id) (use a in simp)
      have shape: "render shown (VObj ms) @ r = 123 # ?t" by simp
      show ?thesis unfolding shape using d(1) members sp a by (simp add: m json_space_id)
    qed
  qed
next
  case (VNum x)
  show ?case unfolding reads_back_def
  proof (intro allI impI)
    fix depth n r
    assume c: "depth \<le> MAX_JSON_DEPTH" "readable_numbers num shown (VNum x)" and f: "follows r" and n: "2 * length (render shown (VNum x)) + 1 \<le> n"
    obtain m where m: "n = Suc m" using n by (cases n) auto
    obtain q where q: "x = Some q" "numeral_text (shown q)" "num (shown q) = Some q" using c(2) by (auto split: option.splits)
    obtain a t where a: "shown q = a # t" "a = 45 \<or> digit_unit a" using q(2) by (cases "shown q") (auto simp: numeral_text_def)
    have s: "scan_number (a # t @ r) = Some r" using scan_number_append[OF _ f, of "shown q" "[]"] q(2) a(1) by (simp add: numeral_text_def)
    have sp: "json_space (a # t @ r) = a # t @ r" by (rule json_space_id) (use a(2) in \<open>auto simp: digit_unit_def\<close>)
    have ne: "a \<notin> {34, 123, 91, 116, 102, 110}" using a(2) by (auto simp: digit_unit_def)
    have l: "take (length (a # t @ r) - length r) (a # t @ r) = shown q" by (simp add: a(1))
    have shape: "render shown (VNum x) @ r = a # t @ r" using q(1) a(1) by simp
    show "scan_value n depth (render shown (VNum x) @ r) = Some (Inr r) \<and> read_value num n (render shown (VNum x) @ r) = Some (VNum x, r)"
      unfolding shape using c(1) ne a(2) s l q(1,3) by (simp add: m sp malformed_or_def del: length_append length_Cons take_Cons)
  qed
next
  case (VStr s)
  show ?case unfolding reads_back_def
  proof (intro allI impI)
    fix depth n r
    assume c: "clean (MAX_JSON_DEPTH - depth) (VStr s)" "depth \<le> MAX_JSON_DEPTH" and n: "2 * length (render shown (VStr s)) + 1 \<le> n"
    obtain m where m: "n = Suc m" using n by (cases n) auto
    obtain t where t: "quote_units s @ r = 34 # t" "scan_string [] t = Inr (s, r)" "read_string [] t = Some (s, r)"
      using quote_units_read[of s r] c(1) by auto
    have shape: "render shown (VStr s) @ r = 34 # t" using t(1) by simp
    show "scan_value n depth (render shown (VStr s) @ r) = Some (Inr r) \<and> read_value num n (render shown (VStr s) @ r) = Some (VStr s, r)"
      unfolding shape using c(2) t by (simp add: m json_space_id)
  qed
next
  case VNull
  show ?case unfolding reads_back_def
  proof (intro allI impI)
    fix depth n r
    assume "depth \<le> MAX_JSON_DEPTH" "2 * length (render shown VNull) + 1 \<le> n"
    then show "scan_value n depth (render shown VNull @ r) = Some (Inr r) \<and> read_value num n (render shown VNull @ r) = Some (VNull, r)"
      by (cases n) (simp_all add: json_space_id malformed_or_def value_or_def scan_literal_def units_of_def char_code_def)
  qed
next
  case (VBool b)
  show ?case unfolding reads_back_def
  proof (intro allI impI)
    fix depth n r
    assume "depth \<le> MAX_JSON_DEPTH" "2 * length (render shown (VBool b)) + 1 \<le> n"
    then show "scan_value n depth (render shown (VBool b) @ r) = Some (Inr r) \<and> read_value num n (render shown (VBool b) @ r) = Some (VBool b, r)"
      by (cases n; cases b) (simp_all add: json_space_id malformed_or_def value_or_def scan_literal_def units_of_def char_code_def)
  qed
qed

text \<open>what \<open>JSON.stringify\<close> writes of a value within the limits is accepted by the scan and read back as that value.\<close>

lemma rendered_read_back:
  assumes "clean MAX_JSON_DEPTH v" "readable_numbers num shown v"
  shows "scanJson (render shown v) = Some (Inr ()) \<and> JSON_parse num (render shown v) = Some v"
proof -
  have "scan_value (scan_fuel (render shown v)) 0 (render shown v @ []) = Some (Inr [])"
    "read_value num (scan_fuel (render shown v)) (render shown v @ []) = Some (v, [])"
    using reads_backD[OF value_reads_back, where depth = 0 and r = "[]" and v = v and num = num and shown = shown] assms
    by (simp_all add: scan_fuel_def follows_def del: scan_value.simps read_value.simps)
  then show ?thesis by (simp add: scanJson_def JSON_parse_def json_space_def del: scan_value.simps read_value.simps)
qed

theorem scanned_text_parses_witness:
  "\<exists>v. JSON_parse (\<lambda>_. None) (units_of ''[true]'') = Some v \<and> clean MAX_JSON_DEPTH v"
proof -
  have "scanJson (units_of ''[true]'') = Some (Inr ())" by code_simp
  then show ?thesis by (rule scanned_text_parses)
qed

end
