(* ===== verification/ReceiptText.thy ===== *)
theory ReceiptText
  imports JsonText Receipts "HOL-Library.Monad_Syntax"
begin

text \<open>
  Reading, checking and writing the receipts of the severe-finding verifier (\<open>src/severe-verification-receipt-parser-c.ts\<close> and
  \<open>src/severe-verification-receipt-canonical.ts\<close>). The platform converts numbers to text and back and hashes texts.
  Texts of the fields are 8-bit characters, as everywhere in this library.
\<close>

section \<open>The platform\<close>

text \<open>\<open>pf_show\<close> is \<open>JSON.stringify\<close> and template interpolation of a number; \<open>pf_number\<close> tells the finite numbers of the platform.\<close>

record platform =
  pf_utf8 :: "nat list \<Rightarrow> units option"
  pf_num :: "units \<Rightarrow> rat option"
  pf_show :: "rat \<Rightarrow> string"
  pf_number :: "rat \<Rightarrow> bool"
  pf_sha256 :: "string \<Rightarrow> string"

text \<open>What ECMAScript promises: integers are numbers, numerals denote numbers, and a number is read back from its text.\<close>

definition platform_ok :: "platform \<Rightarrow> bool" where
  "platform_ok pf \<longleftrightarrow> (\<forall>n :: int. 0 \<le> n \<and> n < 2 ^ 53 \<longrightarrow> pf_number pf (of_int n)) \<and>
     (\<forall>t q. pf_num pf t = Some q \<longrightarrow> pf_number pf q) \<and>
     (\<forall>q. pf_number pf q \<longrightarrow> numeral_text (units_of (pf_show pf q)) \<and> pf_num pf (units_of (pf_show pf q)) = Some q)"

section \<open>Parser C\<close>

definition MAX_OBJECT_KEYS :: nat where "MAX_OBJECT_KEYS = 16"
definition MAX_ARRAY_ITEMS :: nat where "MAX_ARRAY_ITEMS = 64"

text \<open>\<open>copyPlainData\<close> on what \<open>JSON.parse\<close> gives: the data are plain and no object occurs twice, so only the limits count.\<close>

fun copyPlainData :: "json_value \<Rightarrow> bool" where
  "copyPlainData (VNum x) = (x \<noteq> None)"
| "copyPlainData (VArr vs) = (length vs \<le> MAX_ARRAY_ITEMS \<and> list_all copyPlainData vs)"
| "copyPlainData (VObj ms) = (length ms \<le> MAX_OBJECT_KEYS \<and> list_all (\<lambda>(k, v). copyPlainData v) ms)"
| "copyPlainData v = True"

definition json_get :: "string \<Rightarrow> (units \<times> json_value) list \<Rightarrow> json_value option" where
  "json_get k ms = map_of ms (units_of k)"

text \<open>\<open>additionalProperties: false\<close>\<close>

definition only_keys :: "string list \<Rightarrow> (units \<times> json_value) list \<Rightarrow> bool" where
  "only_keys ks ms = list_all (\<lambda>(k, v). k \<in> units_of ` set ks) ms"

fun as_string :: "json_value \<Rightarrow> string option" where
  "as_string (VStr u) = (if list_all (\<lambda>c. c < 256) u then Some (map char_of u) else None)"
| "as_string v = None"

fun as_int :: "json_value \<Rightarrow> int option" where
  "as_int (VNum (Some q)) = (if of_int \<lfloor>q\<rfloor> = q then Some \<lfloor>q\<rfloor> else None)"
| "as_int v = None"

fun as_number :: "json_value \<Rightarrow> rat option" where
  "as_number (VNum x) = x"
| "as_number v = None"

fun as_bool :: "json_value \<Rightarrow> bool option" where
  "as_bool (VBool b) = Some b"
| "as_bool v = None"

fun as_array :: "json_value \<Rightarrow> json_value list option" where
  "as_array (VArr vs) = Some vs"
| "as_array v = None"

fun as_object :: "string list \<Rightarrow> json_value \<Rightarrow> (units \<times> json_value) list option" where
  "as_object ks (VObj ms) = (if only_keys ks ms then Some ms else None)"
| "as_object ks v = None"

text \<open>An enumeration: the element of this name.\<close>

definition as_enum :: "('a \<Rightarrow> string) \<Rightarrow> 'a list \<Rightarrow> json_value \<Rightarrow> 'a option" where
  "as_enum name xs v = Option.bind (as_string v) (\<lambda>s. find (\<lambda>x. name x = s) xs)"

text \<open>A required and an optional member.\<close>

definition required :: "string \<Rightarrow> (json_value \<Rightarrow> 'a option) \<Rightarrow> (units \<times> json_value) list \<Rightarrow> 'a option" where
  "required k p ms = Option.bind (json_get k ms) p"

definition optional :: "string \<Rightarrow> (json_value \<Rightarrow> 'a option) \<Rightarrow> (units \<times> json_value) list \<Rightarrow> 'a option option" where
  "optional k p ms = (case json_get k ms of None \<Rightarrow> Some None | Some v \<Rightarrow> map_option Some (p v))"

fun map_all :: "('a \<Rightarrow> 'b option) \<Rightarrow> 'a list \<Rightarrow> 'b list option" where
  "map_all p [] = Some []"
| "map_all p (x # xs) = (case (p x, map_all p xs) of (Some y, Some ys) \<Rightarrow> Some (y # ys) | _ \<Rightarrow> None)"

fun state_name :: "receipt_state \<Rightarrow> string" where
  "state_name RS_confirmed = ''confirmed''"
| "state_name RS_refuted = ''refuted''"
| "state_name RS_failed = ''failed''"
| "state_name RS_malformed = ''malformed''"
| "state_name RS_timeout = ''timeout''"
| "state_name RS_unavailable = ''unavailable''"
| "state_name RS_stale_head = ''stale_head''"
| "state_name RS_incomplete = ''incomplete''"

fun disposition_name :: "disposition \<Rightarrow> string" where
  "disposition_name Retain = ''retain''"
| "disposition_name Suppress = ''suppress''"

definition SEVERE_VERIFICATION_STATES :: "receipt_state list" where
  "SEVERE_VERIFICATION_STATES = [RS_confirmed, RS_refuted, RS_failed, RS_malformed, RS_timeout, RS_unavailable, RS_stale_head, RS_incomplete]"

definition SEVERE_VERIFICATION_CODES :: "receipt_code list" where
  "SEVERE_VERIFICATION_CODES = [RC_not_read, RC_refuted, RC_malformed, RC_timeout, RC_unavailable, RC_stale_head, RC_incomplete,
     RC_schema_invalid, RC_identity_mismatch, RC_evidence_incomplete, RC_provider_unavailable, RC_cap_exceeded, RC_receipt_invalid]"

definition as_hunk :: "json_value \<Rightarrow> evidence_hunk option" where
  "as_hunk v = do {
     ms \<leftarrow> as_object [''sha256'', ''bytes'', ''complete''] v;
     sha \<leftarrow> required ''sha256'' as_string ms;
     bytes \<leftarrow> required ''bytes'' as_int ms;
     complete \<leftarrow> required ''complete'' as_bool ms;
     Some \<lparr>eh_sha256 = sha, eh_bytes = bytes, eh_complete = complete\<rparr>
   }"

definition as_file :: "json_value \<Rightarrow> evidence_file option" where
  "as_file v = do {
     ms \<leftarrow> as_object [''path'', ''kind'', ''sha256'', ''bytes'', ''complete''] v;
     path \<leftarrow> required ''path'' as_string ms;
     kind \<leftarrow> required ''kind'' (as_enum kind_name [Whole_file, Module]) ms;
     sha \<leftarrow> required ''sha256'' as_string ms;
     bytes \<leftarrow> required ''bytes'' as_int ms;
     complete \<leftarrow> required ''complete'' as_bool ms;
     Some \<lparr>ef_path = path, ef_kind = kind, ef_sha256 = sha, ef_bytes = bytes, ef_complete = complete\<rparr>
   }"

definition as_omission :: "json_value \<Rightarrow> evidence_omission option" where
  "as_omission v = do {
     ms \<leftarrow> as_object [''path'', ''code''] v;
     path \<leftarrow> required ''path'' as_string ms;
     code \<leftarrow> required ''code'' (as_enum code_name SEVERE_VERIFICATION_CODES) ms;
     Some \<lparr>eo_path = path, eo_code = code\<rparr>
   }"

definition as_evidence :: "json_value \<Rightarrow> evidence option" where
  "as_evidence v = do {
     ms \<leftarrow> as_object [''changedHunk'', ''files'', ''omitted'', ''complete''] v;
     hunk \<leftarrow> optional ''changedHunk'' as_hunk ms;
     files \<leftarrow> required ''files'' (\<lambda>a. Option.bind (as_array a) (map_all as_file)) ms;
     omitted \<leftarrow> required ''omitted'' (\<lambda>a. Option.bind (as_array a) (map_all as_omission)) ms;
     complete \<leftarrow> required ''complete'' as_bool ms;
     Some \<lparr>vi_hunk = hunk, vi_files = files, vi_omitted = omitted, vi_complete = complete\<rparr>
   }"

definition schema_version :: string where
  "schema_version = ''severe-verifier-v1''"

definition as_receipt :: "json_value \<Rightarrow> receipt option" where
  "as_receipt v = do {
     ms \<leftarrow> as_object [''schemaVersion'', ''repo'', ''pullNumber'', ''baseSha'', ''headSha'', ''findingFingerprint'', ''state'',
       ''disposition'', ''confidence'', ''reasonCode'', ''evidence''] v;
     version \<leftarrow> required ''schemaVersion'' as_string ms;
     repo \<leftarrow> required ''repo'' as_string ms;
     pull \<leftarrow> required ''pullNumber'' as_int ms;
     base \<leftarrow> required ''baseSha'' as_string ms;
     head \<leftarrow> required ''headSha'' as_string ms;
     fingerprint \<leftarrow> required ''findingFingerprint'' as_string ms;
     st \<leftarrow> required ''state'' (as_enum state_name SEVERE_VERIFICATION_STATES) ms;
     disp \<leftarrow> required ''disposition'' (as_enum disposition_name [Retain, Suppress]) ms;
     confidence \<leftarrow> optional ''confidence'' as_number ms;
     reason \<leftarrow> optional ''reasonCode'' (as_enum code_name SEVERE_VERIFICATION_CODES) ms;
     evidence \<leftarrow> required ''evidence'' as_evidence ms;
     if version = schema_version
     then Some \<lparr>rv_repo = repo, rv_pull = pull, rv_base = base, rv_head = head, rv_fingerprint = fingerprint, rv_state = st,
       rv_disposition = disp, rv_confidence = confidence, rv_reason = reason, rv_evidence = evidence\<rparr>
     else None
   }"

definition parseSevereVerificationReceipt :: "json_value \<Rightarrow> text_error + receipt" where
  "parseSevereVerificationReceipt v =
     (if copyPlainData v
      then (case as_receipt v of Some r \<Rightarrow> if valid_receipt r then Inr r else Inl TE_schema_invalid | None \<Rightarrow> Inl TE_schema_invalid)
      else Inl TE_schema_invalid)"

section \<open>The canonical text\<close>

definition bool_text :: "bool \<Rightarrow> string" where
  "bool_text b = (if b then ''true'' else ''false'')"

definition file_text :: "platform \<Rightarrow> evidence_file \<Rightarrow> string" where
  "file_text pf f = ''{'' @ json_member ''path'' (json_string (ef_path f)) @ '','' @ json_member ''kind'' (json_string (kind_name (ef_kind f))) @
     '','' @ json_member ''sha256'' (json_string (ef_sha256 f)) @ '','' @ json_member ''bytes'' (pf_show pf (of_int (ef_bytes f))) @ '','' @
     json_member ''complete'' (bool_text (ef_complete f)) @ ''}''"

definition omission_text :: "evidence_omission \<Rightarrow> string" where
  "omission_text x = ''{'' @ json_member ''path'' (json_string (eo_path x)) @ '','' @ json_member ''code'' (json_string (code_name (eo_code x))) @ ''}''"

definition hunk_text :: "platform \<Rightarrow> evidence_hunk \<Rightarrow> string" where
  "hunk_text pf k = ''{'' @ json_member ''sha256'' (json_string (eh_sha256 k)) @ '','' @ json_member ''bytes'' (pf_show pf (of_int (eh_bytes k))) @
     '','' @ json_member ''complete'' (bool_text (eh_complete k)) @ ''}''"

definition serializeReceipt :: "platform \<Rightarrow> receipt \<Rightarrow> string" where
  "serializeReceipt pf r =
     (let v = rv_evidence r in
      ''{'' @ json_member ''schemaVersion'' (json_string schema_version) @ '','' @ json_member ''repo'' (json_string (rv_repo r)) @
      '','' @ json_member ''pullNumber'' (pf_show pf (of_int (rv_pull r))) @ '','' @ json_member ''baseSha'' (json_string (rv_base r)) @
      '','' @ json_member ''headSha'' (json_string (rv_head r)) @ '','' @ json_member ''findingFingerprint'' (json_string (rv_fingerprint r)) @
      '','' @ json_member ''state'' (json_string (state_name (rv_state r))) @
      '','' @ json_member ''disposition'' (json_string (disposition_name (rv_disposition r))) @
      (case rv_confidence r of None \<Rightarrow> [] | Some q \<Rightarrow> '','' @ json_member ''confidence'' (pf_show pf q)) @
      (case rv_reason r of None \<Rightarrow> [] | Some c \<Rightarrow> '','' @ json_member ''reasonCode'' (json_string (code_name c))) @
      '','' @ json_string ''evidence'' @ '':{'' @
      (case vi_hunk v of None \<Rightarrow> [] | Some k \<Rightarrow> json_member ''changedHunk'' (hunk_text pf k) @ '','') @
      json_string ''files'' @ '':['' @ join_on (CHR '','') (map (file_text pf) (vi_files v)) @ ''],'' @
      json_string ''omitted'' @ '':['' @ join_on (CHR '','') (map omission_text (vi_omitted v)) @ ''],'' @
      json_member ''complete'' (bool_text (vi_complete v)) @ ''}}'')"

definition canonicalizeSevereVerificationReceipt :: "platform \<Rightarrow> serialized \<Rightarrow> (text_error + receipt \<times> string \<times> string) option" where
  "canonicalizeSevereVerificationReceipt pf i =
     (case parseSevereVerificationReceiptJson (pf_utf8 pf) (pf_num pf) i of
        None \<Rightarrow> None
      | Some (Inl e) \<Rightarrow> Some (Inl e)
      | Some (Inr v) \<Rightarrow>
          Some (case parseSevereVerificationReceipt v of
             Inl e \<Rightarrow> Inl e
           | Inr p \<Rightarrow> (let r = canonical_receipt p; text = serializeReceipt pf r in Inr (r, text, pf_sha256 pf text))))"

section \<open>The value a receipt is written as\<close>

definition str_value :: "string \<Rightarrow> json_value" where
  "str_value s = VStr (units_of s)"

definition int_value :: "int \<Rightarrow> json_value" where
  "int_value n = VNum (Some (of_int n))"

definition hunk_value :: "evidence_hunk \<Rightarrow> json_value" where
  "hunk_value k = VObj [(units_of ''sha256'', str_value (eh_sha256 k)), (units_of ''bytes'', int_value (eh_bytes k)),
     (units_of ''complete'', VBool (eh_complete k))]"

definition file_value :: "evidence_file \<Rightarrow> json_value" where
  "file_value f = VObj [(units_of ''path'', str_value (ef_path f)), (units_of ''kind'', str_value (kind_name (ef_kind f))),
     (units_of ''sha256'', str_value (ef_sha256 f)), (units_of ''bytes'', int_value (ef_bytes f)), (units_of ''complete'', VBool (ef_complete f))]"

definition omission_value :: "evidence_omission \<Rightarrow> json_value" where
  "omission_value x = VObj [(units_of ''path'', str_value (eo_path x)), (units_of ''code'', str_value (code_name (eo_code x)))]"

definition evidence_value :: "evidence \<Rightarrow> json_value" where
  "evidence_value v = VObj ((case vi_hunk v of None \<Rightarrow> [] | Some k \<Rightarrow> [(units_of ''changedHunk'', hunk_value k)]) @
     [(units_of ''files'', VArr (map file_value (vi_files v))), (units_of ''omitted'', VArr (map omission_value (vi_omitted v))),
      (units_of ''complete'', VBool (vi_complete v))])"

definition receipt_value :: "receipt \<Rightarrow> json_value" where
  "receipt_value r = VObj ([(units_of ''schemaVersion'', str_value schema_version), (units_of ''repo'', str_value (rv_repo r)),
      (units_of ''pullNumber'', int_value (rv_pull r)), (units_of ''baseSha'', str_value (rv_base r)), (units_of ''headSha'', str_value (rv_head r)),
      (units_of ''findingFingerprint'', str_value (rv_fingerprint r)), (units_of ''state'', str_value (state_name (rv_state r))),
      (units_of ''disposition'', str_value (disposition_name (rv_disposition r)))] @
     (case rv_confidence r of None \<Rightarrow> [] | Some q \<Rightarrow> [(units_of ''confidence'', VNum (Some q))]) @
     (case rv_reason r of None \<Rightarrow> [] | Some c \<Rightarrow> [(units_of ''reasonCode'', str_value (code_name c))]) @
     [(units_of ''evidence'', evidence_value (rv_evidence r))])"

lemma units_of_simps [simp]:
  "units_of [] = []" "units_of (c # s) = char_code c # units_of s" "units_of (s @ t) = units_of s @ units_of t"
  by (simp_all add: units_of_def)

lemma units_of_eq [simp]: "units_of s = units_of t \<longleftrightarrow> s = t"
  unfolding units_of_def by (rule inj_map_eq_map) (auto intro: injI dest: char_code_inj)

lemma char_code_bound: "char_code c < 256"
  by (simp add: char_code_def)

lemma units_small: "list_all (\<lambda>c. c < 256) (units_of s)"
  by (simp add: units_of_def list_all_iff char_code_bound)

lemma scalar_small: "list_all (\<lambda>c. c < 256) u \<Longrightarrow> scalar u"
  by (induction u) (auto simp: high_surrogate_def low_surrogate_def)

lemma as_string_units [simp]: "as_string (str_value s) = Some s"
  by (simp add: str_value_def units_small) (simp add: units_of_def comp_def)

lemma units_json_char: "units_of (json_char c) = quote_unit (char_code c)"
proof -
  have "char_code (hex_digit k) = (if k < 10 then 48 else 87) + k" if "k < 16" for k
    using that by (simp add: hex_digit_def char_code_def)
  moreover have "char_code c < 32 \<Longrightarrow> char_code c div 16 < 10" by simp
  ultimately show ?thesis by (auto simp: json_char_def quote_unit_def Let_def) (simp_all add: char_code_def)
qed

lemma units_json_string [simp]: "units_of (json_string s) = quote_units (units_of s)"
proof -
  have "units_of (concat (map json_char s)) = concat (map quote_unit (units_of s))"
    by (induction s) (simp_all add: units_json_char)
  then show ?thesis by (simp add: json_string_def quote_units_def char_code_def)
qed

lemma units_join [simp]: "units_of (join_on (CHR '','') ws) = join_units (map units_of ws)"
  by (induction "CHR '',''" ws rule: join_on.induct) (simp_all add: char_code_def)

lemma bool_units [simp]: "units_of (bool_text b) = render sh (VBool b)"
  by (simp add: bool_text_def)

lemma file_units [simp]: "units_of (file_text pf f) = render (\<lambda>q. units_of (pf_show pf q)) (file_value f)"
  by (simp add: file_text_def file_value_def json_member_def str_value_def int_value_def char_code_def
      bool_units[where sh = "\<lambda>q. units_of (pf_show pf q)"] del: render.simps(2) units_of_eq)

lemma omission_units [simp]: "units_of (omission_text x) = render sh (omission_value x)"
  by (simp add: omission_text_def omission_value_def json_member_def str_value_def char_code_def)

lemma hunk_units [simp]: "units_of (hunk_text pf k) = render (\<lambda>q. units_of (pf_show pf q)) (hunk_value k)"
  by (simp add: hunk_text_def hunk_value_def json_member_def str_value_def int_value_def char_code_def
      bool_units[where sh = "\<lambda>q. units_of (pf_show pf q)"] del: render.simps(2))

lemma receipt_units: "units_of (serializeReceipt pf r) = render (\<lambda>q. units_of (pf_show pf q)) (receipt_value r)"
  by (cases "rv_confidence r"; cases "rv_reason r"; cases "vi_hunk (rv_evidence r)")
    (simp_all add: serializeReceipt_def receipt_value_def evidence_value_def json_member_def str_value_def int_value_def char_code_def Let_def
      comp_def omission_units[where sh = "\<lambda>q. units_of (pf_show pf q)"] bool_units[where sh = "\<lambda>q. units_of (pf_show pf q)"])

lemma as_enum_name:
  assumes "x \<in> set xs" "\<And>y. name y = name x \<Longrightarrow> y = x"
  shows "as_enum name xs (str_value (name x)) = Some x"
proof -
  have "find (\<lambda>y. name y = name x) xs = Some x"
    using assms(1)
  proof (induction xs)
    case (Cons y ys)
    then show ?case using assms(2) by auto
  qed simp
  then show ?thesis by (simp add: as_enum_def)
qed

lemma as_names [simp]:
  "as_enum kind_name [Whole_file, Module] (str_value (kind_name k)) = Some k"
  "as_enum code_name SEVERE_VERIFICATION_CODES (str_value (code_name c)) = Some c"
  "as_enum state_name SEVERE_VERIFICATION_STATES (str_value (state_name s)) = Some s"
  "as_enum disposition_name [Retain, Suppress] (str_value (disposition_name d)) = Some d"
proof -
  show "as_enum kind_name [Whole_file, Module] (str_value (kind_name k)) = Some k"
    by (rule as_enum_name, cases k) simp_all
  have "c \<in> set SEVERE_VERIFICATION_CODES" by (cases c) (simp_all add: SEVERE_VERIFICATION_CODES_def)
  then show "as_enum code_name SEVERE_VERIFICATION_CODES (str_value (code_name c)) = Some c"
    by (rule as_enum_name) simp
  show "as_enum state_name SEVERE_VERIFICATION_STATES (str_value (state_name s)) = Some s"
  proof (rule as_enum_name)
    show "s \<in> set SEVERE_VERIFICATION_STATES" by (cases s) (simp_all add: SEVERE_VERIFICATION_STATES_def)
    show "state_name y = state_name s \<Longrightarrow> y = s" for y by (cases y; cases s) simp_all
  qed
  show "as_enum disposition_name [Retain, Suppress] (str_value (disposition_name d)) = Some d"
  proof (rule as_enum_name)
    show "d \<in> set [Retain, Suppress]" by (cases d) simp_all
    show "disposition_name y = disposition_name d \<Longrightarrow> y = d" for y by (cases y; cases d) simp_all
  qed
qed

lemma as_int_value [simp]: "as_int (int_value n) = Some n"
  by (simp add: int_value_def)

text \<open>Reading members: keys are compared as texts.\<close>

lemma json_get_Cons [simp]: "json_get k ((units_of q, v) # ms) = (if q = k then Some v else json_get k ms)" "json_get k [] = None"
  by (auto simp: json_get_def simp del: units_of_simps)

lemma only_keys_Cons [simp]: "only_keys ks ((units_of q, v) # ms) \<longleftrightarrow> q \<in> set ks \<and> only_keys ks ms" "only_keys ks []"
  by (auto simp: only_keys_def simp del: units_of_simps)

lemma as_file_value [simp]: "as_file (file_value f) = Some f"
  by (simp add: as_file_def file_value_def required_def del: units_of_simps)

lemma as_omission_value [simp]: "as_omission (omission_value x) = Some x"
  by (simp add: as_omission_def omission_value_def required_def del: units_of_simps)

lemma as_hunk_value [simp]: "as_hunk (hunk_value k) = Some k"
  by (simp add: as_hunk_def hunk_value_def required_def del: units_of_simps)

lemma map_all_map [simp]: "(\<And>x. p (f x) = Some x) \<Longrightarrow> map_all p (map f xs) = Some xs"
  by (induction xs) simp_all

lemma as_evidence_value [simp]: "as_evidence (evidence_value v) = Some v"
  by (cases "vi_hunk v") (simp_all add: as_evidence_def evidence_value_def required_def optional_def del: units_of_simps)

lemma as_receipt_value [simp]: "as_receipt (receipt_value r) = Some r"
  by (cases "rv_confidence r"; cases "rv_reason r")
    (simp_all add: as_receipt_def receipt_value_def required_def optional_def del: units_of_simps)

section \<open>The canonical text is read back\<close>

lemma receipt_clean: "clean MAX_JSON_DEPTH (receipt_value r)"
proof -
  have s: "clean d (str_value s)" for d s by (simp add: str_value_def scalar_small units_small del: units_of_simps)
  have u: "scalar (units_of k)" for k by (simp add: scalar_small units_small del: units_of_simps)
  have f: "list_all (clean (Suc d) \<circ> file_value) fs" "list_all (clean (Suc d) \<circ> omission_value) os" for d fs os
    by (simp_all add: list_all_iff file_value_def omission_value_def int_value_def s u del: units_of_simps)
  show ?thesis
    by (cases "rv_confidence r"; cases "rv_reason r"; cases "vi_hunk (rv_evidence r)")
      (simp_all add: receipt_value_def evidence_value_def hunk_value_def int_value_def s u f MAX_JSON_DEPTH_def numeral_eq_Suc list.pred_map del: units_of_simps)
qed

lemma receipt_plain:
  assumes "valid_receipt r"
  shows "copyPlainData (receipt_value r)"
proof -
  have len: "length (vi_files (rv_evidence r)) \<le> 64" "length (vi_omitted (rv_evidence r)) \<le> 64"
    using assms by (simp_all add: valid_receipt_def valid_evidence_def)
  have s: "copyPlainData (str_value s)" "copyPlainData (int_value n)" for s n by (simp_all add: str_value_def int_value_def)
  have f: "list_all copyPlainData (map file_value fs)" "list_all copyPlainData (map omission_value os)" for fs os
    by (simp_all add: list_all_iff file_value_def omission_value_def s MAX_OBJECT_KEYS_def)
  show ?thesis
    using len by (cases "rv_confidence r"; cases "rv_reason r"; cases "vi_hunk (rv_evidence r)")
      (simp_all add: receipt_value_def evidence_value_def hunk_value_def s f MAX_OBJECT_KEYS_def MAX_ARRAY_ITEMS_def)
qed

lemma receipt_numbers:
  assumes "platform_ok pf" "valid_receipt r" "case rv_confidence r of None \<Rightarrow> True | Some q \<Rightarrow> pf_number pf q"
  shows "readable_numbers (pf_num pf) (\<lambda>q. units_of (pf_show pf q)) (receipt_value r)"
proof -
  let ?R = "readable_numbers (pf_num pf) (\<lambda>q. units_of (pf_show pf q))"
  have q: "?R (VNum (Some q))" if "pf_number pf q" for q using that assms(1) by (simp add: platform_ok_def)
  have i: "?R (int_value n)" if "0 \<le> n" "n < 2 ^ 53" for n using q assms(1) that by (simp add: platform_ok_def int_value_def)
  have s: "?R (str_value s)" for s by (simp add: str_value_def)
  have v: "valid_evidence (rv_evidence r)" "0 \<le> rv_pull r" "rv_pull r < 2 ^ 53" using assms(2) by (simp_all add: valid_receipt_def)
  have b: "?R (int_value n)" if "0 \<le> n" "n \<le> 65536" for n by (rule i) (use that in simp_all)
  have f: "list_all ?R (map file_value (vi_files (rv_evidence r)))" "list_all ?R (map omission_value (vi_omitted (rv_evidence r)))"
    using v(1) b by (auto simp: list_all_iff file_value_def omission_value_def s valid_evidence_def valid_file_def simp del: readable_numbers.simps(1))
  have h: "?R (hunk_value k)" if "vi_hunk (rv_evidence r) = Some k" for k
    using v(1) b that by (simp add: hunk_value_def s valid_evidence_def valid_hunk_def del: readable_numbers.simps(1))
  show ?thesis
    using q assms(3) i[OF v(2,3)] f h s
    by (cases "rv_confidence r"; cases "rv_reason r"; cases "vi_hunk (rv_evidence r)")
      (simp_all add: receipt_value_def evidence_value_def del: readable_numbers.simps(1))
qed

lemma first_is_brace: "units_of (serializeReceipt pf r) = 123 # tl (units_of (serializeReceipt pf r))"
  by (simp add: receipt_units receipt_value_def)

lemma serialized_read_back:
  assumes "platform_ok pf" "valid_receipt r" "case rv_confidence r of None \<Rightarrow> True | Some q \<Rightarrow> pf_number pf q"
    "withinByteCap (units_of (serializeReceipt pf r))"
  shows "parseSevereVerificationReceiptJson (pf_utf8 pf) (pf_num pf) (Text (units_of (serializeReceipt pf r))) = Some (Inr (receipt_value r)) \<and>
    parseSevereVerificationReceipt (receipt_value r) = Inr r"
proof
  let ?t = "units_of (serializeReceipt pf r)"
  have b: "take 1 ?t \<noteq> [0xFEFF]" by (subst first_is_brace) simp
  have "scanJson ?t = Some (Inr ()) \<and> JSON_parse (pf_num pf) ?t = Some (receipt_value r)"
    unfolding receipt_units by (rule rendered_read_back[OF receipt_clean receipt_numbers[OF assms(1-3)]])
  then show "parseSevereVerificationReceiptJson (pf_utf8 pf) (pf_num pf) (Text ?t) = Some (Inr (receipt_value r))"
    using assms(4) b by (simp add: parseSevereVerificationReceiptJson_def prepareSerializedSevereVerificationInput_def decode_text_def)
  show "parseSevereVerificationReceipt (receipt_value r) = Inr r"
    using receipt_plain[OF assms(2)] assms(2) by (simp add: parseSevereVerificationReceipt_def)
qed

lemma canonical_confidence [simp]: "rv_confidence (canonical_receipt r) = rv_confidence r"
  by (simp add: canonical_receipt_def Let_def)

lemma required_None: "required k p ms = Some x \<Longrightarrow> \<exists>v. json_get k ms = Some v \<and> p v = Some x"
  by (auto simp: required_def split: bind_splits)

text \<open>A confidence that was read is a number of the platform.\<close>

fun platform_numbers :: "platform \<Rightarrow> json_value \<Rightarrow> bool" where
  "platform_numbers pf (VNum x) = (case x of None \<Rightarrow> True | Some q \<Rightarrow> pf_number pf q)"
| "platform_numbers pf (VArr vs) = list_all (platform_numbers pf) vs"
| "platform_numbers pf (VObj ms) = list_all (\<lambda>(k, v). platform_numbers pf v) ms"
| "platform_numbers pf v = True"

lemma put_member_numbers:
  "list_all (\<lambda>(k, v). platform_numbers pf v) ms \<Longrightarrow> platform_numbers pf v \<Longrightarrow> list_all (\<lambda>(k, v). platform_numbers pf v) (put_member k v ms)"
  by (auto simp: put_member_def list_all_iff)

lemma read_numbers:
  assumes "\<And>t q. pf_num pf t = Some q \<Longrightarrow> pf_number pf q"
  shows "(\<forall>t v r. read_value (pf_num pf) n t = Some (v, r) \<longrightarrow> platform_numbers pf v) \<and>
    (\<forall>ms t v r. read_members (pf_num pf) n ms t = Some (v, r) \<longrightarrow> list_all (\<lambda>(k, v). platform_numbers pf v) ms \<longrightarrow> platform_numbers pf v) \<and>
    (\<forall>vs t v r. read_items (pf_num pf) n vs t = Some (v, r) \<longrightarrow> list_all (platform_numbers pf) vs \<longrightarrow> platform_numbers pf v)"
proof (induction n)
  case (Suc n)
  have v: "platform_numbers pf v" if "read_value (pf_num pf) n t = Some (v, r)" for t v r using Suc that by blast
  have m: "platform_numbers pf v" if "read_members (pf_num pf) n ms t = Some (v, r)" "list_all (\<lambda>(k, v). platform_numbers pf v) ms" for ms t v r
    using Suc that by blast
  have i: "platform_numbers pf v" if "read_items (pf_num pf) n vs t = Some (v, r)" "list_all (platform_numbers pf) vs" for vs t v r
    using Suc that by blast
  show ?case
  proof (intro conjI allI impI)
    fix t v r
    assume x: "read_value (pf_num pf) (Suc n) t = Some (v, r)"
    then obtain c q where t: "json_space t = c # q" by (cases "json_space t") auto
    show "platform_numbers pf v"
    proof (cases "c = 123 \<or> c = 91")
      case True
      then show ?thesis using x t m[of "[]"] i[of "[]"] by (cases "json_space q") (auto split: if_splits)
    next
      case False
      then show ?thesis using x t assms
        by (auto simp: value_or_def split: if_splits option.splits)
    qed
  next
    fix ms t v r
    assume "read_members (pf_num pf) (Suc n) ms t = Some (v, r)" "list_all (\<lambda>(k, v). platform_numbers pf v) ms"
    then show "platform_numbers pf v"
      using v m put_member_numbers[of pf ms] by (auto split: list.splits if_splits option.splits prod.splits)
  next
    fix vs t v r
    assume "read_items (pf_num pf) (Suc n) vs t = Some (v, r)" "list_all (platform_numbers pf) vs"
    then show "platform_numbers pf v"
      using v i by (auto split: list.splits if_splits option.splits prod.splits)
  qed
qed simp

lemma canonical_again [simp]: "canonical_receipt (canonical_receipt r) = canonical_receipt r"
  by (simp add: canonical_receipt_def Let_def)

lemma canonical_valid [simp]: "valid_receipt (canonical_receipt r) = valid_receipt r"
  by (cases r) (simp add: canonical_receipt_def valid_receipt_def valid_state_def Let_def sorted_evidence_valid split: option.split)

text \<open>The confidence of a receipt that was read is a number of the platform.\<close>

lemma parsed_confidence:
  assumes "platform_ok pf" "parseSevereVerificationReceiptJson u (pf_num pf) i = Some (Inr v)" "as_receipt v = Some p"
  shows "case rv_confidence p of None \<Rightarrow> True | Some q \<Rightarrow> pf_number pf q"
proof -
  obtain t r where "read_value (pf_num pf) (scan_fuel t) t = Some (v, r)"
    using assms(2) by (auto simp: parseSevereVerificationReceiptJson_def JSON_parse_def split: option.splits sum.splits if_splits prod.splits)
  then have n: "platform_numbers pf v"
    using read_numbers[of pf "scan_fuel t"] assms(1) unfolding platform_ok_def by blast
  obtain ms where ms: "v = VObj ms" "optional ''confidence'' as_number ms = Some (rv_confidence p)"
    using assms(3) by (cases v) (auto simp: as_receipt_def split: bind_splits if_splits)
  show ?thesis
  proof (cases "json_get ''confidence'' ms")
    case None
    then show ?thesis using ms(2) by (auto simp: optional_def)
  next
    case (Some w)
    then have "platform_numbers pf w" using n ms(1) by (fastforce simp: json_get_def list_all_iff dest: map_of_SomeD)
    then show ?thesis using ms(2) Some by (cases w) (auto simp: optional_def split: option.splits)
  qed
qed

lemma canonicalized_source:
  assumes "platform_ok pf" "canonicalizeSevereVerificationReceipt pf i = Some (Inr (r, text, digest))"
  shows "canonical_receipt r = r" "text = serializeReceipt pf r" "digest = pf_sha256 pf text" "valid_receipt r"
    "case rv_confidence r of None \<Rightarrow> True | Some q \<Rightarrow> pf_number pf q"
proof -
  obtain v p where v: "parseSevereVerificationReceiptJson (pf_utf8 pf) (pf_num pf) i = Some (Inr v)" "parseSevereVerificationReceipt v = Inr p"
    "r = canonical_receipt p" "text = serializeReceipt pf r" "digest = pf_sha256 pf text"
    using assms(2) by (auto simp: canonicalizeSevereVerificationReceipt_def Let_def split: option.splits sum.splits)
  have p: "valid_receipt p" "as_receipt v = Some p"
    using v(2) by (auto simp: parseSevereVerificationReceipt_def split: if_splits option.splits)
  show "canonical_receipt r = r" "valid_receipt r" using p(1) by (simp_all add: v(3))
  show "text = serializeReceipt pf r" "digest = pf_sha256 pf text" by (fact v)+
  show "case rv_confidence r of None \<Rightarrow> True | Some q \<Rightarrow> pf_number pf q"
    using parsed_confidence[OF assms(1) v(1) p(2)] by (simp add: v(3))
qed

text \<open>Two canonical receipts with one text are one receipt.\<close>

lemma canonical_text_identifies:
  assumes "platform_ok pf" "canonicalizeSevereVerificationReceipt pf i = Some (Inr (r, text, digest))"
    "canonicalizeSevereVerificationReceipt pf j = Some (Inr (s, txt', digest'))" "withinByteCap (units_of text)"
  shows "text = txt' \<longleftrightarrow> r = s"
proof -
  note r = canonicalized_source[OF assms(1,2)] and s = canonicalized_source[OF assms(1,3)]
  have "r = s" if e: "text = txt'"
    using serialized_read_back[OF assms(1) r(4,5) assms(4)[unfolded r(2)]]
      serialized_read_back[OF assms(1) s(4,5) assms(4)[unfolded e s(2)]] e r(2) s(2) by auto
  then show ?thesis using r(2) s(2) by auto
qed

text \<open>What an accepted input says: the receipt in it, its evidence in the order the input has it.\<close>

definition receipt_in :: "platform \<Rightarrow> serialized \<Rightarrow> receipt \<Rightarrow> bool" where
  "receipt_in pf i p \<longleftrightarrow>
     (case parseSevereVerificationReceiptJson (pf_utf8 pf) (pf_num pf) i of
        Some (Inr v) \<Rightarrow> parseSevereVerificationReceipt v = Inr p
      | _ \<Rightarrow> False)"

lemma receipt_in_canonical:
  assumes "receipt_in pf i p" "canonicalizeSevereVerificationReceipt pf i = Some (Inr (r, text, digest))"
  shows "r = canonical_receipt p" "digest = pf_sha256 pf text"
  using assms by (auto simp: receipt_in_def canonicalizeSevereVerificationReceipt_def Let_def split: option.splits sum.splits)

text \<open>Two receipts that differ at most in the order their evidence lists its files and its omissions.\<close>

definition same_but_order :: "receipt \<Rightarrow> receipt \<Rightarrow> bool" where
  "same_but_order p q \<longleftrightarrow>
     p\<lparr>rv_evidence := rv_evidence q\<rparr> = q \<and>
     vi_hunk (rv_evidence p) = vi_hunk (rv_evidence q) \<and> vi_complete (rv_evidence p) = vi_complete (rv_evidence q) \<and>
     mset (vi_files (rv_evidence p)) = mset (vi_files (rv_evidence q)) \<and>
     mset (vi_omitted (rv_evidence p)) = mset (vi_omitted (rv_evidence q))"

text \<open>C31: the canonical text identifies a receipt up to the order of its evidence. Take two accepted inputs, texts or
  bytes, that say the receipts \<open>p\<close> and \<open>q\<close>: their canonical texts are equal iff \<open>p\<close> and \<open>q\<close> differ at most in the order
  in which they list the files and the omissions of their evidence, and then the canonical receipts and the digests
  are equal too. And the canonical text is a fixed point: given as an input it is accepted and gives the same receipt,
  text and digest. Both are for a canonical text within the byte cap of the parser, which the program checks on what it
  reads, never on what it writes: a receipt whose text is longer is written and refused when read back.\<close>

theorem canonical_text_stable:
  assumes "platform_ok pf" "receipt_in pf i p" "receipt_in pf j q"
    "canonicalizeSevereVerificationReceipt pf i = Some (Inr (r, text, digest))"
    "canonicalizeSevereVerificationReceipt pf j = Some (Inr (s, txt', digest'))" "withinByteCap (units_of text)"
  shows "(text = txt' \<longleftrightarrow> same_but_order p q) \<and> (text = txt' \<longrightarrow> r = s \<and> digest = digest') \<and>
    canonicalizeSevereVerificationReceipt pf (Text (units_of text)) = Some (Inr (r, text, digest))"
proof (intro conjI)
  note r = canonicalized_source[OF assms(1,4)]
  have e: "text = txt' \<longleftrightarrow> r = s" by (rule canonical_text_identifies[OF assms(1,4,5,6)])
  then show "text = txt' \<longleftrightarrow> same_but_order p q"
    using canonical_receipt_unique[of p q] receipt_in_canonical[OF assms(2,4)] receipt_in_canonical[OF assms(3,5)]
    by (simp add: same_but_order_def)
  show "text = txt' \<longrightarrow> r = s \<and> digest = digest'"
    using e receipt_in_canonical(2)[OF assms(2,4)] receipt_in_canonical(2)[OF assms(3,5)] by auto
  show "canonicalizeSevereVerificationReceipt pf (Text (units_of text)) = Some (Inr (r, text, digest))"
    using serialized_read_back[OF assms(1) r(4,5) assms(6)[unfolded r(2)]]
    by (simp add: canonicalizeSevereVerificationReceipt_def r(1) flip: r(2,3))
qed

section \<open>Example\<close>

text \<open>A platform whose numbers are the natural numbers.\<close>

definition natural_platform :: platform where
  "natural_platform = \<lparr>pf_utf8 = (\<lambda>b. Some b), pf_num = (\<lambda>t. Some (of_nat (foldl (\<lambda>a c. 10 * a + (c - 48)) 0 t))),
     pf_show = (\<lambda>q. digits_of_nat (nat \<lfloor>q\<rfloor>)), pf_number = (\<lambda>q. q \<in> \<nat>), pf_sha256 = (\<lambda>s. s)\<rparr>"

lemma digit_units: "list_all digit_unit (units_of (digits_of_nat n))"
  using digits_of_nat_digits[of n] by (simp add: units_of_def list_all_iff is_digit_def digit_unit_def)

lemma digits_head: "0 < n \<Longrightarrow> 49 \<le> hd (units_of (digits_of_nat n))"
proof (induction n rule: digits_of_nat.induct)
  case (1 n)
  show ?case
  proof (cases "n < 10")
    case True
    then show ?thesis using 1 digit_char[of n] by (subst digits_of_nat.simps) simp
  next
    case False
    then have "49 \<le> hd (units_of (digits_of_nat (n div 10)))" using 1 by simp
    moreover have "units_of (digits_of_nat (n div 10)) \<noteq> []" by (simp add: units_of_def)
    ultimately show ?thesis using False by (subst digits_of_nat.simps) simp
  qed
qed

lemma digits_numeral: "numeral_text (units_of (digits_of_nat n))"
proof -
  obtain c t where c: "units_of (digits_of_nat n) = c # t" by (cases "units_of (digits_of_nat n)") (simp_all add: units_of_def)
  have d: "digit_unit c" "skip_digits t = []" "skip_digits (c # t) = []"
    using digit_units[of n] by (simp_all add: c skip_digits_def list_all_iff)
  have z: "t = []" if "n = 0" using c that by (simp add: digits_of_nat.simps[of 0] char_code_def)
  have "scan_number (c # t) = Some []"
  proof (cases "n = 0")
    case True
    then show ?thesis using z c by (simp add: digits_of_nat.simps[of 0] char_code_def scan_number_def skip_if_def scan_fraction_def scan_exponent_def)
  next
    case False
    then have "49 \<le> c" using digits_head[of n] c by simp
    then show ?thesis using d by (simp add: scan_number_def skip_if_def scan_fraction_def scan_exponent_def digit_unit_def)
  qed
  then show ?thesis using d(1) by (simp add: numeral_text_def c)
qed

lemma digits_read: "foldl (\<lambda>a c. 10 * a + (c - 48)) 0 (units_of (digits_of_nat n)) = n"
proof (induction n rule: digits_of_nat.induct)
  case (1 n)
  then show ?case using digit_char[of n] digit_char[of "n mod 10"] by (subst digits_of_nat.simps) simp
qed

lemma natural_platform_ok: "platform_ok natural_platform"
proof -
  have i: "(of_int n :: rat) \<in> \<nat>" if "0 \<le> n" for n using that by (metis of_int_of_nat_eq of_nat_in_Nats zero_le_imp_eq_int)
  have f: "\<lfloor>q\<rfloor> = int (nat \<lfloor>q\<rfloor>)" "of_nat (nat \<lfloor>q\<rfloor>) = q" if "q \<in> \<nat>" for q :: rat using that by (auto simp: Nats_def)
  show ?thesis unfolding platform_ok_def natural_platform_def
    using i f(2) by (simp add: digits_numeral digits_read)
qed

lemma byte_cap_small: "bytes + 3 * length t \<le> MAX_SEVERE_VERIFICATION_RECEIPT_BYTES \<Longrightarrow> byte_cap_loop bytes t"
proof (induction bytes t rule: byte_cap_loop.induct)
  case (2 bytes c s)
  then show ?case by (cases s) (auto split: if_splits)
qed simp

text \<open>One receipt, its two files listed in either order.\<close>

definition demo_file :: "string \<Rightarrow> evidence_file" where
  "demo_file p = \<lparr>ef_path = p, ef_kind = Whole_file, ef_sha256 = ex_hash, ef_bytes = 20, ef_complete = True\<rparr>"

definition demo_receipt :: "string list \<Rightarrow> receipt" where
  "demo_receipt ps = ex_receipt\<lparr>rv_confidence := Some 1, rv_evidence := (rv_evidence ex_receipt)\<lparr>vi_files := map demo_file ps\<rparr>\<rparr>"

lemma demo_receipt_valid: "valid_receipt (demo_receipt [''a'', ''b''])" "valid_receipt (demo_receipt [''b'', ''a''])"
proof -
  have p: "safe_path ''a''" "safe_path ''b''" by code_simp+
  show "valid_receipt (demo_receipt [''a'', ''b''])" "valid_receipt (demo_receipt [''b'', ''a''])"
    using ex_receipt_valid p
    by (simp_all add: demo_receipt_def demo_file_def valid_receipt_def valid_state_def valid_evidence_def valid_file_def
        no_path_overlap_def ex_receipt_def Let_def split: option.splits)
qed

lemma demo_canonical:
  "canonical_receipt (demo_receipt [''a'', ''b'']) = demo_receipt [''a'', ''b'']"
  "canonical_receipt (demo_receipt [''b'', ''a'']) = demo_receipt [''a'', ''b'']"
proof -
  have c: "compareFiles (demo_file ''a'') (demo_file ''b'') = -1" "compareFiles (demo_file ''b'') (demo_file ''a'') = 1"
    by code_simp+
  show "canonical_receipt (demo_receipt [''a'', ''b'']) = demo_receipt [''a'', ''b'']"
    "canonical_receipt (demo_receipt [''b'', ''a'']) = demo_receipt [''a'', ''b'']"
    by (simp_all add: demo_receipt_def canonical_receipt_def ex_receipt_def js_sort_def c)
qed

lemma demo_text_read:
  assumes "ps = [''a'', ''b''] \<or> ps = [''b'', ''a'']"
  shows "withinByteCap (units_of (serializeReceipt natural_platform (demo_receipt ps)))"
    "parseSevereVerificationReceiptJson (pf_utf8 natural_platform) (pf_num natural_platform)
       (Text (units_of (serializeReceipt natural_platform (demo_receipt ps)))) = Some (Inr (receipt_value (demo_receipt ps))) \<and>
     parseSevereVerificationReceipt (receipt_value (demo_receipt ps)) = Inr (demo_receipt ps)"
proof -
  let ?t = "serializeReceipt natural_platform (demo_receipt ps)"
  have "length (serializeReceipt natural_platform (demo_receipt [''a'', ''b''])) < 2000"
    "length (serializeReceipt natural_platform (demo_receipt [''b'', ''a''])) < 2000" by code_simp+
  then have "length ?t < 2000" using assms by blast
  then show cap: "withinByteCap (units_of ?t)"
    unfolding withinByteCap_def by (intro byte_cap_small) (simp add: units_of_def MAX_SEVERE_VERIFICATION_RECEIPT_BYTES_def)
  have v: "valid_receipt (demo_receipt ps)" using assms demo_receipt_valid by blast
  have n: "case rv_confidence (demo_receipt ps) of None \<Rightarrow> True | Some q \<Rightarrow> pf_number natural_platform q"
    by (simp add: demo_receipt_def natural_platform_def)
  show "parseSevereVerificationReceiptJson (pf_utf8 natural_platform) (pf_num natural_platform)
       (Text (units_of ?t)) = Some (Inr (receipt_value (demo_receipt ps))) \<and>
     parseSevereVerificationReceipt (receipt_value (demo_receipt ps)) = Inr (demo_receipt ps)"
    by (rule serialized_read_back[OF natural_platform_ok v n cap])
qed

theorem canonical_text_stable_witness:
  "canonicalizeSevereVerificationReceipt natural_platform
     (Text (units_of (serializeReceipt natural_platform (demo_receipt [''a'', ''b''])))) =
   Some (Inr (demo_receipt [''a'', ''b''], serializeReceipt natural_platform (demo_receipt [''a'', ''b'']),
     serializeReceipt natural_platform (demo_receipt [''a'', ''b'']))) \<and>
   same_but_order (demo_receipt [''b'', ''a'']) (demo_receipt [''a'', ''b''])"
proof -
  let ?p = "demo_receipt [''b'', ''a'']" and ?q = "demo_receipt [''a'', ''b'']"
  let ?i = "Text (units_of (serializeReceipt natural_platform ?p))" and ?j = "Text (units_of (serializeReceipt natural_platform ?q))"
  let ?t = "serializeReceipt natural_platform ?q"
  note p = demo_text_read[of "[''b'', ''a'']", simplified] and q = demo_text_read[of "[''a'', ''b'']", simplified]
  have i: "receipt_in natural_platform ?i ?p" "canonicalizeSevereVerificationReceipt natural_platform ?i = Some (Inr (?q, ?t, ?t))"
    using p(2) by (simp_all add: receipt_in_def canonicalizeSevereVerificationReceipt_def demo_canonical Let_def)
      (simp add: natural_platform_def)
  have j: "receipt_in natural_platform ?j ?q" "canonicalizeSevereVerificationReceipt natural_platform ?j = Some (Inr (?q, ?t, ?t))"
    using q(2) by (simp_all add: receipt_in_def canonicalizeSevereVerificationReceipt_def demo_canonical Let_def)
      (simp add: natural_platform_def)
  from canonical_text_stable[OF natural_platform_ok i(1) j(1) i(2) j(2) q(1)] show ?thesis by blast
qed

end
