(* ===== verification/ReviewBudget.thy ===== *)
theory ReviewBudget
  imports ReviewQueue
begin

text \<open>
  The budget projection of the queue (\<open>src/review-budget.ts\<close>): which jobs the next lease would take, why the others
  wait, and the counter of running reviews of one scheduler cycle. The projection works on the listed jobs
  and does not touch the store; the echo of the configuration and of the clock in the status is left out. The theorem at the
  end says when it tells the truth about the lease.
\<close>

section \<open>The run counter\<close>

record run_budget =
  rb_max :: int
  rb_current :: int

definition new_run_budget :: "int \<Rightarrow> run_budget option" where
  "new_run_budget maxActiveRuns = (if maxActiveRuns < 1 then None else Some \<lparr>rb_max = maxActiveRuns, rb_current = 0\<rparr>)"

definition tryStart :: "run_budget \<Rightarrow> bool \<times> run_budget" where
  "tryStart b = (if rb_max b \<le> rb_current b then (False, b) else (True, b\<lparr>rb_current := rb_current b + 1\<rparr>))"

definition finish_run :: "run_budget \<Rightarrow> run_budget" where
  "finish_run b = b\<lparr>rb_current := max 0 (rb_current b - 1)\<rparr>"

section \<open>Data\<close>

datatype delay_reason = D_provider_cooldown | D_provider_capacity | D_org_capacity | D_repo_capacity | D_head_active
  | D_manual_reserve | D_proof_cooldown | D_lease_limit

record budget_candidate =
  bc_job_id :: string
  bc_source :: queue_source
  bc_lane :: queue_lane
  bc_repo :: string
  bc_org :: string
  bc_pull :: int
  bc_head :: string
  bc_provider :: string
  bc_priority :: int
  bc_state :: queue_state
  bc_next_eligible_at :: "string option"

definition candidate :: "queue_job \<Rightarrow> budget_candidate" where
  "candidate j = \<lparr>bc_job_id = q_job_id j, bc_source = q_source j, bc_lane = q_lane j, bc_repo = q_repo j, bc_org = q_org j,
     bc_pull = q_pull j, bc_head = q_head j, bc_provider = q_provider j, bc_priority = q_priority j, bc_state = q_state j,
     bc_next_eligible_at = truthy (q_next_eligible_at j)\<rparr>"

text \<open>The configuration: the run slots and the scheduler's caps; \<open>bg_repo_limit\<close> is the limit a repository's profile gives.\<close>

record budget_config =
  bg_max_runs :: int
  bg_lease_ttl_ms :: int
  bg_max_provider :: int
  bg_max_org :: int
  bg_reserve :: int
  bg_repo_limit :: "string \<Rightarrow> int"

definition effective_global :: "budget_config \<Rightarrow> int" where
  "effective_global g = min (bg_max_runs g) (bg_max_provider g)"

definition effective_reserve :: "budget_config \<Rightarrow> int" where
  "effective_reserve g = min (bg_reserve g) (effective_global g)"

section \<open>Jobs as the projection sees them\<close>

definition isExpiredLeaseJob :: "int \<Rightarrow> int \<Rightarrow> queue_job \<Rightarrow> bool" where
  "isExpiredLeaseJob now ttl j = (case q_lease_expires_at j of Some e \<Rightarrow> e \<le> now | None \<Rightarrow> q_updated_at j \<le> now - ttl)"

definition normalizeExpiredLeaseJob :: "int \<Rightarrow> int \<Rightarrow> queue_job \<Rightarrow> queue_job" where
  "normalizeExpiredLeaseJob now ttl j =
     (if \<not> is_active_state (q_state j) \<or> \<not> isExpiredLeaseJob now ttl j then j
      else j\<lparr>q_state := Q_queued, q_last_error := Some ''queue_lease_expired_requeued'', q_updated_at := now,
             q_lease_id := None, q_lease_expires_at := None\<rparr>)"

definition isRetryEligibleByNextEligibleAt :: "host \<Rightarrow> int \<Rightarrow> queue_job \<Rightarrow> bool" where
  "isRetryEligibleByNextEligibleAt h now j = (case truthy (q_next_eligible_at j) of None \<Rightarrow> True
     | Some s \<Rightarrow> (case date_parse h s of None \<Rightarrow> True | Some t \<Rightarrow> t \<le> now))"

definition isProviderDeferredEligible :: "host \<Rightarrow> int \<Rightarrow> queue_job \<Rightarrow> bool" where
  "isProviderDeferredEligible h now j = (if q_state j \<noteq> Q_provider_deferred then True else isRetryEligibleByNextEligibleAt h now j)"

definition compareQueueJobsForBudget :: "queue_job \<Rightarrow> queue_job \<Rightarrow> int" where
  "compareQueueJobsForBudget left right =
     (if q_priority left \<noteq> q_priority right then q_priority left - q_priority right
      else (let created = q_created_at left - q_created_at right in if created \<noteq> 0 then created else 0))"

definition hasRunnableManualAfter :: "queue_job list \<Rightarrow> string list \<Rightarrow> string \<Rightarrow> bool" where
  "hasRunnableManualAfter rest activeHeads candidateHeadKey =
     list_ex (\<lambda>j. q_lane j = QL_manual \<and> reviewQueueHeadKey j \<noteq> candidateHeadKey \<and> reviewQueueHeadKey j \<notin> set activeHeads) rest"

definition capacityDelayReason :: "budget_config \<Rightarrow> queue_job \<Rightarrow> int \<Rightarrow> int \<Rightarrow> int \<Rightarrow> bool \<Rightarrow> delay_reason option" where
  "capacityDelayReason g j providerCount orgCount repoCount hasManualAfter =
     (if effective_global g \<le> providerCount then Some D_provider_capacity
      else if bg_max_org g \<le> orgCount then Some D_org_capacity
      else if bg_repo_limit g (q_repo j) \<le> repoCount then Some D_repo_capacity
      else if q_lane j = QL_background \<and> hasManualAfter \<and> 0 < effective_reserve g \<and>
              effective_global g - effective_reserve g \<le> providerCount then Some D_manual_reserve
      else None)"

section \<open>The simulated lease\<close>

record budget_sim =
  bs_provider :: "string \<Rightarrow> int"
  bs_org :: "string \<Rightarrow> int"
  bs_repo :: "string \<Rightarrow> int"
  bs_heads :: "string list"
  bs_would :: "queue_job list"
  bs_delayed :: "(queue_job \<times> delay_reason) list"

definition budget_delay :: "queue_job \<Rightarrow> delay_reason \<Rightarrow> budget_sim \<Rightarrow> budget_sim" where
  "budget_delay j r s = s\<lparr>bs_delayed := bs_delayed s @ [(j, r)]\<rparr>"

definition budget_take :: "queue_job \<Rightarrow> budget_sim \<Rightarrow> budget_sim" where
  "budget_take j s = s\<lparr>bs_would := bs_would s @ [j],
     bs_provider := (bs_provider s)(q_provider j := bs_provider s (q_provider j) + 1),
     bs_org := (bs_org s)(q_org j := bs_org s (q_org j) + 1),
     bs_repo := (bs_repo s)(q_repo j := bs_repo s (q_repo j) + 1),
     bs_heads := reviewQueueHeadKey j # bs_heads s\<rparr>"

definition budget_step :: "budget_config \<Rightarrow> int \<Rightarrow> queue_job \<Rightarrow> queue_job list \<Rightarrow> budget_sim \<Rightarrow> budget_sim" where
  "budget_step g activeCount j rest s =
     (if reviewQueueHeadKey j \<in> set (bs_heads s) then budget_delay j D_head_active s
      else (case capacityDelayReason g j (bs_provider s (q_provider j)) (bs_org s (q_org j)) (bs_repo s (q_repo j))
                (hasRunnableManualAfter rest (bs_heads s) (reviewQueueHeadKey j)) of
              Some r \<Rightarrow> budget_delay j r s
            | None \<Rightarrow> if effective_global g \<le> activeCount + int (length (bs_would s)) then budget_delay j D_lease_limit s
                else budget_take j s))"

fun budget_loop :: "budget_config \<Rightarrow> int \<Rightarrow> queue_job list \<Rightarrow> budget_sim \<Rightarrow> budget_sim" where
  "budget_loop g activeCount [] s = s"
| "budget_loop g activeCount (j # rest) s = budget_loop g activeCount rest (budget_step g activeCount j rest s)"

section \<open>The status\<close>

definition is_waiting_state :: "queue_state \<Rightarrow> bool" where
  "is_waiting_state st \<longleftrightarrow> st = Q_queued \<or> st = Q_provider_deferred \<or> st = Q_blocked_on_proof"

text \<open>The jobs that wait for their time.\<close>

definition cooling_jobs :: "host \<Rightarrow> int \<Rightarrow> queue_job list \<Rightarrow> (queue_job \<times> delay_reason) list" where
  "cooling_jobs h now queued = concat (map (\<lambda>j.
     (if q_state j = Q_blocked_on_proof \<and> \<not> isRetryEligibleByNextEligibleAt h now j then [(j, D_proof_cooldown)] else []) @
     (if q_state j = Q_provider_deferred \<and> \<not> isProviderDeferredEligible h now j then [(j, D_provider_cooldown)] else [])) queued)"

definition applyDetailLimit :: "int option \<Rightarrow> 'a list \<Rightarrow> 'a list" where
  "applyDetailLimit limit xs = (case limit of None \<Rightarrow> xs | Some n \<Rightarrow> take (nat (max 0 n)) xs)"

record budget_capacity =
  cp_name :: string
  cp_active :: int
  cp_limit :: int
  cp_remaining :: int

definition capacityRows :: "(string \<Rightarrow> string \<Rightarrow> int) \<Rightarrow> ('a \<Rightarrow> string) \<Rightarrow> 'a list \<Rightarrow> (string \<Rightarrow> int) \<Rightarrow> budget_capacity list" where
  "capacityRows collate key items limit =
     map (\<lambda>n. \<lparr>cp_name = n, cp_active = countBy key items n, cp_limit = limit n, cp_remaining = max 0 (limit n - countBy key items n)\<rparr>)
       (js_sort collate (rev (remdups (rev (map key items)))))"

record budget_status =
  bd_active_total :: nat
  bd_active_leased :: nat
  bd_active_running :: nat
  bd_active_manual :: nat
  bd_active_background :: nat
  bd_by_provider :: "budget_capacity list"
  bd_by_org :: "budget_capacity list"
  bd_by_repo :: "budget_capacity list"
  bd_queued_total :: nat
  bd_queued_manual :: nat
  bd_queued_background :: nat
  bd_deferred_total :: nat
  bd_deferred_retryable :: nat
  bd_deferred_ready :: nat
  bd_deferred_waiting :: "delay_reason \<Rightarrow> nat"
  bd_reserved_open :: int
  bd_background_before_reserve :: int
  bd_would_count :: nat
  bd_delayed_count :: nat
  bd_details_truncated :: bool
  bd_would_lease :: "budget_candidate list"
  bd_delayed :: "(budget_candidate \<times> delay_reason) list"
  bd_delayed_by_reason :: "delay_reason \<Rightarrow> nat"

record budget_input =
  bi_config :: budget_config
  bi_jobs :: "queue_job list"
  bi_now :: int
  bi_include_details :: bool
  bi_detail_limit :: "int option"
  bi_jobs_truncated :: bool

definition budget_jobs :: "budget_input \<Rightarrow> queue_job list" where
  "budget_jobs i = map (normalizeExpiredLeaseJob (bi_now i) (bg_lease_ttl_ms (bi_config i))) (bi_jobs i)"

definition budget_start :: "host \<Rightarrow> int \<Rightarrow> queue_job list \<Rightarrow> queue_job list \<Rightarrow> budget_sim" where
  "budget_start h now active queued = \<lparr>bs_provider = countBy q_provider active, bs_org = countBy q_org active,
     bs_repo = countBy q_repo active, bs_heads = map reviewQueueHeadKey active, bs_would = [],
     bs_delayed = cooling_jobs h now queued\<rparr>"

definition budget_eligible :: "host \<Rightarrow> int \<Rightarrow> queue_job list \<Rightarrow> queue_job list" where
  "budget_eligible h now queued =
     js_sort compareQueueJobsForBudget (filter (\<lambda>j. q_state j = Q_queued \<or> isRetryEligibleByNextEligibleAt h now j) queued)"

definition budget_sim_of :: "host \<Rightarrow> budget_input \<Rightarrow> budget_sim" where
  "budget_sim_of h i =
     (let jobs = budget_jobs i;
          active = filter (\<lambda>j. is_active_state (q_state j)) jobs;
          queued = filter (\<lambda>j. is_waiting_state (q_state j)) jobs
      in budget_loop (bi_config i) (int (length active)) (budget_eligible h (bi_now i) queued)
           (budget_start h (bi_now i) active queued))"

definition buildReviewBudgetStatus :: "host \<Rightarrow> (string \<Rightarrow> string \<Rightarrow> int) \<Rightarrow> budget_input \<Rightarrow> budget_status" where
  "buildReviewBudgetStatus h collate i =
     (let g = bi_config i; now = bi_now i; jobs = budget_jobs i;
          active = filter (\<lambda>j. is_active_state (q_state j)) jobs;
          queued = filter (\<lambda>j. is_waiting_state (q_state j)) jobs;
          sim = budget_sim_of h i; would = bs_would sim; delayed = bs_delayed sim;
          deferred = filter (\<lambda>j. q_state j = Q_provider_deferred) queued;
          deferredDelayed = filter (\<lambda>(j, r). q_state j = Q_provider_deferred) delayed;
          activeManual = length (filter (\<lambda>j. q_lane j = QL_manual) active);
          returnedWould = (if bi_include_details i then applyDetailLimit (bi_detail_limit i) would else []);
          returnedDelayed = (if bi_include_details i then applyDetailLimit (bi_detail_limit i) delayed else [])
      in \<lparr>bd_active_total = length active,
          bd_active_leased = length (filter (\<lambda>j. q_state j = Q_leased) active),
          bd_active_running = length (filter (\<lambda>j. q_state j = Q_running) active),
          bd_active_manual = activeManual,
          bd_active_background = length (filter (\<lambda>j. q_lane j = QL_background) active),
          bd_by_provider = capacityRows collate q_provider active (\<lambda>_. bg_max_provider g),
          bd_by_org = capacityRows collate q_org active (\<lambda>_. bg_max_org g),
          bd_by_repo = capacityRows collate q_repo active (bg_repo_limit g),
          bd_queued_total = length queued,
          bd_queued_manual = length (filter (\<lambda>j. q_lane j = QL_manual) queued),
          bd_queued_background = length (filter (\<lambda>j. q_lane j = QL_background) queued),
          bd_deferred_total = length deferred,
          bd_deferred_retryable = length (filter (isProviderDeferredEligible h now) deferred),
          bd_deferred_ready = length (filter (\<lambda>j. q_state j = Q_provider_deferred) would),
          bd_deferred_waiting = (\<lambda>r. length (filter (\<lambda>(j, q). q = r) deferredDelayed)),
          bd_reserved_open = max 0 (effective_reserve g - int activeManual),
          bd_background_before_reserve = max 0 (effective_global g - effective_reserve g - int (length active)),
          bd_would_count = length would, bd_delayed_count = length delayed,
          bd_details_truncated = (length returnedWould < length would \<or> length returnedDelayed < length delayed \<or> bi_jobs_truncated i),
          bd_would_lease = map candidate returnedWould,
          bd_delayed = map (\<lambda>(j, r). (candidate j, r)) returnedDelayed,
          bd_delayed_by_reason = (\<lambda>r. length (filter (\<lambda>(j, q). q = r) delayed))\<rparr>)"


section \<open>The projection and the lease\<close>

text \<open>The lease call of a scheduler cycle (\<open>runSchedulerCycle\<close> of \<open>src/scheduler.ts\<close>).\<close>

definition scheduler_lease :: "budget_config \<Rightarrow> int \<Rightarrow> (string \<times> int) list \<Rightarrow> lease_aging option \<Rightarrow> int \<Rightarrow> lease_next_input" where
  "scheduler_lease g maxRepoActive repoActiveLimitOverrides aging now =
     (let effectiveSlots = max 1 (min (bg_max_runs g) (bg_max_provider g))
      in \<lparr>ln_max_global = Some effectiveSlots, ln_max_provider = bg_max_provider g, ln_max_org = bg_max_org g,
          ln_max_repo = maxRepoActive, ln_max_repo_by_repo = repoActiveLimitOverrides,
          ln_manual_reserve = Some (min (bg_reserve g) effectiveSlots), ln_exclude_job_ids = [], ln_reserved = [],
          ln_limit = Some effectiveSlots, ln_lease_ttl_ms = Some (bg_lease_ttl_ms g), ln_aging = aging, ln_now = now\<rparr>)"

lemma js_insert_map:
  assumes "\<And>x y. cmp (f x) (f y) = cmp' x y"
  shows "js_insert cmp (f x) (map f xs) = map f (js_insert cmp' x xs)"
  using assms by (induction xs) auto

lemma js_sort_map:
  assumes "\<And>x y. cmp (f x) (f y) = cmp' x y"
  shows "js_sort cmp (map f xs) = map f (js_sort cmp' xs)"
  by (induction xs) (simp_all add: js_sort_def js_insert_map[where f = f and cmp' = cmp', OF assms])

lemma normalize_map_row:
  assumes "is_active_state (q_state r) \<Longrightarrow> isExpiredLeaseJob now ttl r = queue_lease_lapsed now ttl r"
  shows "normalizeExpiredLeaseJob now ttl (mapReviewQueueJobRow r) =
    mapReviewQueueJobRow (if queue_lease_lapsed now ttl r
      then r\<lparr>q_state := Q_queued, q_lease_id := None, q_lease_expires_at := None,
             q_last_error := Some ''queue_lease_expired_requeued'', q_updated_at := now\<rparr> else r)"
proof -
  have same: "isExpiredLeaseJob now ttl (mapReviewQueueJobRow r) = isExpiredLeaseJob now ttl r"
    "q_state (mapReviewQueueJobRow r) = q_state r"
    by (simp_all add: isExpiredLeaseJob_def mapReviewQueueJobRow_def split: option.split)
  have "\<not> is_active_state (q_state r) \<Longrightarrow> \<not> queue_lease_lapsed now ttl r" by (simp add: queue_lease_lapsed_def)
  with assms show ?thesis
    by (auto simp: normalizeExpiredLeaseJob_def same) (simp add: mapReviewQueueJobRow_def truthy_def)
qed

lemma budget_sees_lease_jobs:
  assumes "bi_jobs b = all_queue_jobs d" "ln_now i = bi_now b" "ln_ttl i = bg_lease_ttl_ms (bi_config b)"
    and "list_all (\<lambda>r. is_active_state (q_state r) \<longrightarrow>
      isExpiredLeaseJob (bi_now b) (ln_ttl i) r = queue_lease_lapsed (bi_now b) (ln_ttl i) r) (queue d)"
  shows "budget_jobs b = lease_jobs i d"
proof -
  define f where "f r = (if queue_lease_lapsed (ln_now i) (ln_ttl i) r
      then r\<lparr>q_state := Q_queued, q_lease_id := None, q_lease_expires_at := None,
             q_last_error := Some ''queue_lease_expired_requeued'', q_updated_at := ln_now i\<rparr> else r)" for r
  have order: "queue_order (f x) (f y) = queue_order x y" for x y by (simp add: f_def queue_order_def)
  have "lease_jobs i d = map mapReviewQueueJobRow (js_sort queue_order (map f (queue d)))"
    by (simp add: lease_jobs_def lease_rows_def requeue_lapsed_def row_update_def all_queue_jobs_def f_def[abs_def])
  also have "\<dots> = map (\<lambda>r. mapReviewQueueJobRow (f r)) (js_sort queue_order (queue d))"
    by (simp add: js_sort_map[where f = f and cmp' = queue_order, OF order])
  finally have lease: "lease_jobs i d = map (\<lambda>r. mapReviewQueueJobRow (f r)) (js_sort queue_order (queue d))" .
  have "normalizeExpiredLeaseJob (bi_now b) (bg_lease_ttl_ms (bi_config b)) (mapReviewQueueJobRow r) = mapReviewQueueJobRow (f r)"
    if "r \<in> set (queue d)" for r
    using normalize_map_row[of r "bi_now b" "bg_lease_ttl_ms (bi_config b)"] assms(2,3,4) that
    by (simp add: list_all_iff f_def)
  then show ?thesis
    unfolding lease budget_jobs_def assms(1) all_queue_jobs_def by simp
qed

lemma same_order: "compareQueueJobsForBudget = compareQueueJobsForLease"
  by (simp add: fun_eq_iff compareQueueJobsForBudget_def compareQueueJobsForLease_def Let_def)

lemma same_eligible:
  assumes "ln_aging i = None" "ln_exclude_job_ids i = []"
  shows "budget_eligible h (ln_now i) (filter (\<lambda>j. is_waiting_state (q_state j)) jobs) = eligible_jobs h i jobs"
proof -
  have "(is_waiting_state (q_state j) \<and> (q_state j = Q_queued \<or> isRetryEligibleByNextEligibleAt h (ln_now i) j)) =
      isQueueJobEligible h (ln_now i) j" for j
    by (auto simp: is_waiting_state_def isQueueJobEligible_def isRetryEligibleByNextEligibleAt_def split: option.splits)
  then show ?thesis
    by (simp add: budget_eligible_def eligible_jobs_def same_order assms buildLeaseComparator_def[abs_def] conj_commute)
qed

lemma countBy_map: "countBy k (map f xs) = countBy (\<lambda>x. k (f x)) xs"
  by (induction xs) (simp_all add: countBy_def fun_eq_iff)

lemma same_active_keys:
  "rj_provider (reserved_of j) = q_provider j" "rj_org (reserved_of j) = q_org j" "rj_repo (reserved_of j) = q_repo j"
  "rj_head_key (reserved_of j) = reviewQueueHeadKey j"
  by (simp_all add: reserved_of_def rj_provider_def q_provider_def rj_head_key_def reviewQueueHeadKey_def)

text \<open>Once the slots are taken, the projection takes nothing more.\<close>

lemma budget_loop_full:
  assumes "effective_global g \<le> n + int (length (bs_would s))"
  shows "bs_would (budget_loop g n jobs s) = bs_would s"
  using assms
proof (induction jobs arbitrary: s)
  case Nil
  then show ?case by simp
next
  case (Cons j rest)
  then have "bs_would (budget_step g n j rest s) = bs_would s"
    by (auto simp: budget_step_def budget_delay_def split: option.splits)
  with Cons show ?case by simp
qed

text \<open>The scan of the projection and the scan of the lease, side by side.\<close>

definition scans_agree :: "int \<Rightarrow> budget_sim \<Rightarrow> lease_scan \<Rightarrow> bool" where
  "scans_agree n s st \<longleftrightarrow> bs_provider s = ls_provider st \<and> bs_org s = ls_org st \<and> bs_repo s = ls_repo st \<and>
     bs_heads s = ls_heads st \<and> map q_job_id (bs_would s) = map q_job_id (ls_leased st) \<and>
     (\<forall>p. ls_provider st p \<le> n + int (length (ls_leased st)))"

lemma scans_agree_length: "scans_agree n s st \<Longrightarrow> length (bs_would s) = length (ls_leased st)"
  by (metis scans_agree_def length_map)

lemma scans_agree_take:
  assumes "scans_agree n s st"
  shows "scans_agree n (budget_take j s) (lease_take i uuid j st)"
proof -
  let ?rows = "row_update (\<lambda>r. q_job_id r = q_job_id j \<and> is_leasable_state (q_state r))
            (leased_row (uuid (length (ls_leased st))) (ln_now i + ln_ttl i) (ln_now i)) (ls_rows st)"
  have "q_job_id (case row_get q_job_id (q_job_id j) ?rows of Some r \<Rightarrow> mapReviewQueueJobRow r | None \<Rightarrow> j) = q_job_id j"
    by (auto split: option.split dest: row_get_SomeD)
  moreover have "ls_provider st p \<le> n + (1 + int (length (ls_leased st)))" for p
    using assms by (simp add: scans_agree_def) (metis add_left_mono order_trans zle_iff_zadd add.commute of_nat_1)
  ultimately show ?thesis
    using assms by (auto simp: scans_agree_def budget_take_def lease_take_def Let_def)
qed

lemma scan_decision:
  assumes "ln_max_provider i = bg_max_provider g" "ln_max_org i = bg_max_org g" "ln_global i = effective_global g"
    "ln_reserve i = effective_reserve g" "repo_limit i ov = bg_repo_limit g" "scans_agree n s st"
    and room: "n + int (length (ls_leased st)) < effective_global g"
  shows "budget_step g n j rest s =
    (if lease_skips i ov j rest st then budget_step g n j rest s else budget_take j s)"
    "lease_skips i ov j rest st \<Longrightarrow> \<exists>r. budget_step g n j rest s = budget_delay j r s"
proof -
  have eff: "effective_global g \<le> bg_max_provider g" by (simp add: effective_global_def)
  have free: "ls_provider st p < effective_global g" for p
    using assms(6) room by (auto simp: scans_agree_def intro: le_less_trans)
  have prov: "\<not> bg_max_provider g \<le> ls_provider st p" "\<not> effective_global g \<le> ls_provider st p" for p
    using free[of p] eff by auto
  have manual: "hasRunnableManualAfter rest hs k = hasUncoveredManualAfter rest hs k" for hs k
    by (simp add: hasRunnableManualAfter_def hasUncoveredManualAfter_def)
  have cap: "min (bg_max_provider g) (effective_global g) = effective_global g" using eff by simp
  have sim: "bs_provider s = ls_provider st" "bs_org s = ls_org st" "bs_repo s = ls_repo st" "bs_heads s = ls_heads st"
    "length (bs_would s) = length (ls_leased st)"
    using assms(6) scans_agree_length by (auto simp: scans_agree_def)
  have skips: "lease_skips i ov j rest st \<longleftrightarrow> reviewQueueHeadKey j \<in> set (ls_heads st) \<or>
     capacityDelayReason g j (bs_provider s (q_provider j)) (bs_org s (q_org j)) (bs_repo s (q_repo j))
                (hasRunnableManualAfter rest (bs_heads s) (reviewQueueHeadKey j)) \<noteq> None"
    by (auto simp: lease_skips_def capacityDelayReason_def assms(1-5) prov manual cap sim)
  show "lease_skips i ov j rest st \<Longrightarrow> \<exists>r. budget_step g n j rest s = budget_delay j r s"
    using skips by (auto simp: budget_step_def sim)
  show "budget_step g n j rest s = (if lease_skips i ov j rest st then budget_step g n j rest s else budget_take j s)"
    using skips room by (auto simp: budget_step_def sim)
qed

lemma budget_loop_simulates:
  assumes g: "ln_max_provider i = bg_max_provider g" "ln_max_org i = bg_max_org g" "ln_global i = effective_global g"
    "ln_reserve i = effective_reserve g" "repo_limit i ov = bg_repo_limit g" and lim: "ln_limit_of i = effective_global g"
    and n: "0 \<le> n" and agree: "scans_agree n s st"
  shows "map q_job_id (bs_would (budget_loop g n jobs s)) = map q_job_id (ls_leased (lease_loop i ov uuid n jobs st))"
  using agree
proof (induction jobs arbitrary: s st)
  case Nil
  then show ?case by (simp add: scans_agree_def)
next
  case (Cons j rest)
  show ?case
  proof (cases "effective_global g \<le> n + int (length (ls_leased st))")
    case True
    then have "lease_loop i ov uuid n (j # rest) st = st" using g(3) by simp
    moreover have "bs_would (budget_loop g n (j # rest) s) = bs_would s"
      by (rule budget_loop_full) (simp add: True scans_agree_length[OF Cons.prems])
    ultimately show ?thesis using Cons.prems by (simp add: scans_agree_def)
  next
    case False
    then have room: "n + int (length (ls_leased st)) < effective_global g"
      "int (length (ls_leased st)) < effective_global g" using n by auto
    note dec = scan_decision[OF g Cons.prems room(1), of j rest]
    show ?thesis
    proof (cases "lease_skips i ov j rest st")
      case True
      then obtain r where r: "budget_step g n j rest s = budget_delay j r s" using dec(2) by auto
      have "scans_agree n (budget_delay j r s) st"
        using Cons.prems by (simp add: scans_agree_def budget_delay_def)
      from Cons.IH[OF this] True room g(3) lim show ?thesis by (simp add: r)
    next
      case False
      with dec(1) have "budget_step g n j rest s = budget_take j s" by simp
      with Cons.IH[OF scans_agree_take[OF Cons.prems]] False room g(3) lim show ?thesis by simp
    qed
  qed
qed


lemma ln_of_scheduler_lease:
  assumes "1 \<le> effective_global g"
  shows "ln_max_provider (scheduler_lease g r ovs ag now) = bg_max_provider g"
    "ln_max_org (scheduler_lease g r ovs ag now) = bg_max_org g"
    "ln_global (scheduler_lease g r ovs ag now) = effective_global g"
    "ln_reserve (scheduler_lease g r ovs ag now) = effective_reserve g"
    "ln_limit_of (scheduler_lease g r ovs ag now) = effective_global g"
    "ln_ttl (scheduler_lease g r ovs ag now) = bg_lease_ttl_ms g" "ln_now (scheduler_lease g r ovs ag now) = now"
    "ln_aging (scheduler_lease g r ovs ag now) = ag" "ln_exclude_job_ids (scheduler_lease g r ovs ag now) = []"
    "ln_reserved (scheduler_lease g r ovs ag now) = []"
  using assms by (simp_all add: scheduler_lease_def ln_global_def ln_reserve_def ln_limit_of_def ln_ttl_def or_default_def
      effective_global_def effective_reserve_def Let_def)

lemma scans_agree_start:
  assumes "active = filter (\<lambda>j. is_active_state (q_state j)) jobs"
  shows "scans_agree (int (length active)) (budget_start h now active queued)
    (lease_start (map reserved_of active) rows)"
proof -
  have "countBy k active p \<le> int (length active)" for k p
    by (simp add: countBy_def)
  then show ?thesis
    by (simp add: scans_agree_def budget_start_def lease_start_def countBy_map same_active_keys)
qed

lemma budget_sim_predicts_lease:
  fixes h :: host
  assumes "1 \<le> effective_global (bi_config b)"
    and "i = scheduler_lease (bi_config b) maxRepo ovs None (bi_now b)"
    and lease: "leaseNextReviewQueueJobs h i uuid d = (Inr leased, d')"
    and "bi_jobs b = all_queue_jobs d"
    and limits: "lease_next_check i = Inr ov" "repo_limit i ov = bg_repo_limit (bi_config b)"
    and lapse: "list_all (\<lambda>r. is_active_state (q_state r) \<longrightarrow>
      isExpiredLeaseJob (bi_now b) (ln_ttl i) r = queue_lease_lapsed (bi_now b) (ln_ttl i) r) (queue d)"
  shows "map q_job_id (bs_would (budget_sim_of h b)) = map q_job_id leased"
proof -
  let ?g = "bi_config b"
  note ln = ln_of_scheduler_lease[OF assms(1), of maxRepo ovs None "bi_now b", folded assms(2)]
  let ?active = "filter (\<lambda>j. is_active_state (q_state j)) (lease_jobs i d)"
  have jobs: "budget_jobs b = lease_jobs i d"
    by (rule budget_sees_lease_jobs) (use assms(4) ln lapse in auto)
  have active: "active_jobs i (lease_jobs i d) = map reserved_of ?active"
    by (simp add: active_jobs_def ln)
  have leased: "leased = ls_leased (lease_loop i ov uuid (int (length ?active)) (eligible_jobs h i (lease_jobs i d))
      (lease_start (map reserved_of ?active) (lease_rows i d)))"
    using lease limits(1) active[unfolded lease_jobs_def lease_rows_def]
    by (simp add: leaseNextReviewQueueJobs_def Let_def lease_jobs_def lease_rows_def)
  have sim: "budget_sim_of h b = budget_loop ?g (int (length ?active)) (eligible_jobs h i (lease_jobs i d))
      (budget_start h (bi_now b) ?active (filter (\<lambda>j. is_waiting_state (q_state j)) (lease_jobs i d)))"
    using same_eligible[OF ln(8,9), of h "lease_jobs i d"] by (simp add: budget_sim_of_def jobs Let_def ln(7))
  show ?thesis
    unfolding sim leased
    by (rule budget_loop_simulates[OF ln(1-4) limits(2) ln(5) _ scans_agree_start]) simp_all
qed

section \<open>Every waiting job has an outcome\<close>

lemma budget_step_outcome:
  "mset (bs_would (budget_step g n j rest s)) + mset (map fst (bs_delayed (budget_step g n j rest s))) =
     add_mset j (mset (bs_would s) + mset (map fst (bs_delayed s)))"
  by (auto simp: budget_step_def budget_delay_def budget_take_def split: option.split)

lemma budget_loop_outcome:
  "mset (bs_would (budget_loop g n jobs s)) + mset (map fst (bs_delayed (budget_loop g n jobs s))) =
     mset jobs + (mset (bs_would s) + mset (map fst (bs_delayed s)))"
  by (induction jobs arbitrary: s) (simp_all add: budget_step_outcome[simplified])

lemma cooling_jobs_mset:
  "mset (map fst (cooling_jobs h now queued)) = mset (filter (\<lambda>j. is_waiting_state (q_state j) \<and> q_state j \<noteq> Q_queued \<and>
     \<not> isRetryEligibleByNextEligibleAt h now j) queued)"
  by (induction queued) (auto simp: cooling_jobs_def isProviderDeferredEligible_def is_waiting_state_def)

lemma cooling_or_eligible:
  assumes "list_all (\<lambda>j. is_waiting_state (q_state j)) queued"
  shows "mset (budget_eligible h now queued) + mset (map fst (cooling_jobs h now queued)) = mset queued"
  unfolding budget_eligible_def mset_js_sort cooling_jobs_mset
  using assms by (induction queued) (auto simp: is_waiting_state_def)

lemma budget_outcomes:
  "mset (bs_would (budget_sim_of h b)) + mset (map fst (bs_delayed (budget_sim_of h b))) =
     mset (filter (\<lambda>j. is_waiting_state (q_state j)) (budget_jobs b))"
proof -
  let ?q = "filter (\<lambda>j. is_waiting_state (q_state j)) (budget_jobs b)"
  have "mset (budget_eligible h (bi_now b) ?q) + mset (map fst (cooling_jobs h (bi_now b) ?q)) = mset ?q"
    by (rule cooling_or_eligible) (simp add: list_all_iff)
  then show ?thesis
    by (simp add: budget_sim_of_def Let_def budget_loop_outcome[simplified] budget_start_def)
qed


lemma candidate_job_id [simp]: "bc_job_id (candidate j) = q_job_id j"
  by (simp add: candidate_def)

lemma listed_ids: "map bc_job_id (map candidate js) = map q_job_id js"
  "map (bc_job_id \<circ> fst) (map (\<lambda>(j, r). (candidate j, r)) ds) = map q_job_id (map fst ds)"
  by (simp_all add: split_def)

lemma reason_counts:
  "sum_list (map (\<lambda>r. length (filter (\<lambda>(j, q). q = r) ds)) [D_provider_cooldown, D_provider_capacity,
      D_org_capacity, D_repo_capacity, D_head_active, D_manual_reserve, D_proof_cooldown, D_lease_limit]) = length ds"
proof (induction ds)
  case (Cons x ds)
  then show ?case by (cases x; cases "snd x") simp_all
qed simp

section \<open>Properties\<close>

text \<open>C38: the budget projection tells the truth about the lease: when a scheduler cycle without aging leases from
  the listed queue and every lease has lapsed for the store exactly when it has for the projection, the jobs the
  projection says would be leased are the jobs the store leases, in the same order.\<close>

theorem budget_predicts_lease:
  fixes h :: host
  assumes "1 \<le> effective_global (bi_config b)"
    and "i = scheduler_lease (bi_config b) maxRepo ovs None (bi_now b)"
    and "leaseNextReviewQueueJobs h i uuid d = (Inr leased, d')"
    and "bi_jobs b = all_queue_jobs d" "bi_include_details b" "bi_detail_limit b = None"
    and "lease_next_check i = Inr ov" "repo_limit i ov = bg_repo_limit (bi_config b)"
    and "list_all (\<lambda>r. is_active_state (q_state r) \<longrightarrow>
      isExpiredLeaseJob (bi_now b) (ln_ttl i) r = queue_lease_lapsed (bi_now b) (ln_ttl i) r) (queue d)"
  shows "map bc_job_id (bd_would_lease (buildReviewBudgetStatus h collate b)) = map q_job_id leased \<and>
    bd_would_count (buildReviewBudgetStatus h collate b) = length leased"
proof -
  have eq: "map q_job_id (bs_would (budget_sim_of h b)) = map q_job_id leased"
    using budget_sim_predicts_lease[OF assms(1-4,7-9)] .
  moreover have "length (bs_would (budget_sim_of h b)) = length leased" using eq by (metis length_map)
  ultimately show ?thesis
    by (simp add: buildReviewBudgetStatus_def Let_def assms(5,6) applyDetailLimit_def candidate_def comp_def)
qed

text \<open>the projection accounts for every waiting job exactly once: those it would lease and those it delays are
  together the queued, deferred and blocked jobs, and the counts by reason add up to the delayed ones.\<close>

theorem budget_accounts_for_queue:
  "let st = (\<lambda>b. buildReviewBudgetStatus h collate (b\<lparr>bi_include_details := True, bi_detail_limit := None\<rparr>)) in
    mset (map bc_job_id (bd_would_lease (st b)) @ map (bc_job_id \<circ> fst) (bd_delayed (st b))) =
      mset (map q_job_id (filter (\<lambda>j. is_waiting_state (q_state j)) (budget_jobs b))) \<and>
    bd_would_count (st b) + bd_delayed_count (st b) = bd_queued_total (st b) \<and>
    sum_list (map (bd_delayed_by_reason (st b)) [D_provider_cooldown, D_provider_capacity, D_org_capacity,
      D_repo_capacity, D_head_active, D_manual_reserve, D_proof_cooldown, D_lease_limit]) = bd_delayed_count (st b)"
proof -
  let ?b = "b\<lparr>bi_include_details := True, bi_detail_limit := None\<rparr>"
  let ?w = "bs_would (budget_sim_of h ?b)" and ?d = "bs_delayed (budget_sim_of h ?b)"
  let ?q = "filter (\<lambda>j. is_waiting_state (q_state j)) (budget_jobs b)"
  have jobs: "budget_jobs ?b = budget_jobs b" by (simp add: budget_jobs_def)
  have out: "mset (?w @ map fst ?d) = mset ?q" using budget_outcomes[of h ?b] by (simp add: jobs)
  have "length ?w + length ?d = length ?q" using arg_cong[OF out, of size] by (metis length_append length_map size_mset)
  moreover have "mset (map q_job_id (?w @ map fst ?d)) = mset (map q_job_id ?q)" using out by (metis mset_map)
  moreover note reason_counts[of ?d]
  ultimately show ?thesis
    by (simp only: Let_def buildReviewBudgetStatus_def jobs applyDetailLimit_def budget_status.select_convs
        budget_input.simps option.case if_True map_append listed_ids) simp
qed

text \<open>the run counter stays within its bounds.\<close>

lemma run_budget_bounds:
  "new_run_budget m = Some b \<Longrightarrow> 0 \<le> rb_current (fold (\<lambda>start b. if start then snd (tryStart b) else finish_run b) ops b) \<and>
     rb_current (fold (\<lambda>start b. if start then snd (tryStart b) else finish_run b) ops b) \<le> m"
proof -
  assume "new_run_budget m = Some b"
  then have "rb_max b = m \<and> 0 \<le> rb_current b \<and> rb_current b \<le> m" by (auto simp: new_run_budget_def split: if_splits)
  then have "rb_max (fold (\<lambda>start b. if start then snd (tryStart b) else finish_run b) ops b) = m \<and>
     0 \<le> rb_current (fold (\<lambda>start b. if start then snd (tryStart b) else finish_run b) ops b) \<and>
     rb_current (fold (\<lambda>start b. if start then snd (tryStart b) else finish_run b) ops b) \<le> m"
    by (induction ops arbitrary: b) (auto simp: tryStart_def finish_run_def)
  then show ?thesis by simp
qed

section \<open>Examples\<close>

definition ex_budget_config :: budget_config where
  "ex_budget_config = \<lparr>bg_max_runs = 2, bg_lease_ttl_ms = 60000, bg_max_provider = 3, bg_max_org = 3, bg_reserve = 1,
     bg_repo_limit = (\<lambda>_. 1)\<rparr>"

definition ex_budget :: budget_input where
  "ex_budget = \<lparr>bi_config = ex_budget_config,
     bi_jobs = all_queue_jobs ex_queue, bi_now = 600000, bi_include_details = True, bi_detail_limit = None,
     bi_jobs_truncated = False\<rparr>"

definition ex_budget_lease :: lease_next_input where
  "ex_budget_lease = scheduler_lease ex_budget_config 1 [] None 600000"

lemma ex_budget_call:
  "(case leaseNextReviewQueueJobs ex_host ex_budget_lease ex_uuid ex_queue of
      (Inl e, d) \<Rightarrow> False | (Inr leased, d) \<Rightarrow> map q_job_id leased = [''j2'', ''j1''])"
  by code_simp

lemma ex_queue_waits: "list_all (\<lambda>r. \<not> is_active_state (q_state r)) (queue ex_queue)"
  by code_simp

theorem budget_predicts_lease_witness:
  "map bc_job_id (bd_would_lease (buildReviewBudgetStatus ex_host (\<lambda>_ _. 0) ex_budget)) = [''j2'', ''j1'']"
proof -
  obtain leased d' where call: "leaseNextReviewQueueJobs ex_host ex_budget_lease ex_uuid ex_queue = (Inr leased, d')"
    and ids: "map q_job_id leased = [''j2'', ''j1'']"
    using ex_budget_call by (auto split: prod.splits sum.splits)
  have check: "lease_next_check ex_budget_lease = Inr Map.empty"
    by (simp add: ex_budget_lease_def scheduler_lease_def ex_budget_config_def lease_next_check_def ln_global_def ln_limit_of_def
        ln_reserve_def ln_ttl_def or_default_def validatePositiveQueueLimit_def)
  have lease: "ex_budget_lease = scheduler_lease (bi_config ex_budget) 1 [] None (bi_now ex_budget)"
    by (simp add: ex_budget_lease_def ex_budget_def)
  have "map bc_job_id (bd_would_lease (buildReviewBudgetStatus ex_host (\<lambda>_ _. 0) ex_budget)) = map q_job_id leased \<and>
    bd_would_count (buildReviewBudgetStatus ex_host (\<lambda>_ _. 0) ex_budget) = length leased"
  proof (rule budget_predicts_lease[OF _ lease call _ _ _ check])
    show "1 \<le> effective_global (bi_config ex_budget)"
      by (simp add: ex_budget_def ex_budget_config_def effective_global_def)
    show "repo_limit ex_budget_lease Map.empty = bg_repo_limit (bi_config ex_budget)"
      by (simp add: fun_eq_iff repo_limit_def or_default_def ex_budget_lease_def scheduler_lease_def ex_budget_def ex_budget_config_def)
    show "list_all (\<lambda>r. is_active_state (q_state r) \<longrightarrow> isExpiredLeaseJob (bi_now ex_budget) (ln_ttl ex_budget_lease) r =
        queue_lease_lapsed (bi_now ex_budget) (ln_ttl ex_budget_lease) r) (queue ex_queue)"
      using ex_queue_waits by (auto simp: list_all_iff)
  qed (simp_all add: ex_budget_def)
  with ids show ?thesis by simp
qed

end
