(* ===== verification/RepoPolicy.thy ===== *)
theory RepoPolicy
  imports Texts "HOL-Library.Sublist"
begin

text \<open>
  Repository profiles (\<open>src/repo-policy.ts\<close>): which profile applies to a repository, which files of a pull
  request it shows to the model, the guidance it adds to the prompt, and the guard that keeps configuration
  and prompt text out of what is posted. Objects of the configuration are lists of their entries in order.
\<close>

section \<open>Profiles\<close>

datatype profile_source = PS_default | PS_explicit | PS_org_fallback

datatype profile_skip = PK_repo_profile_disabled | PK_repo_profile_missing

datatype review_profile = RP_chill | RP_assertive

record pre_merge_check =
  pm_mode :: string
  pm_threshold :: "int option"
  pm_instructions :: "string option"

record finishing_touch =
  ft_enabled :: bool
  ft_instructions :: "string option"

record repo_scheduler =
  rsc_max_active_heads :: "int option"
  rsc_max_queued_heads :: "int option"
  rsc_overflow_action :: "string option"

record auto_review =
  ar_base_branches :: "string list option"
  ar_labels :: "string list option"

record repo_profile =
  rp_enabled :: "bool option"
  rp_display_name :: "string option"
  rp_default_branch :: "string option"
  rp_review_profile :: "review_profile option"
  rp_prompt_note :: "string option"
  rp_risk_lens :: "string option"
  rp_path_filters :: "string list option"
  rp_path_instructions :: "(string \<times> string list) list option"
  rp_risky_paths :: "string list option"
  rp_proof_expectations :: "string list option"
  rp_validation_hints :: "string list option"
  rp_readiness_hints :: "string list option"
  rp_auto_review :: "auto_review option"
  rp_pre_merge_checks :: "(string \<times> pre_merge_check option) list option"
  rp_finishing_touches :: "(string \<times> finishing_touch option) list option"
  rp_review_scheduler :: "repo_scheduler option"
  rp_suggested_labels :: "string list option"
  rp_suggested_reviewers :: "string list option"

record resolved_profile = repo_profile +
  rr_repo :: string
  rr_canonical :: string
  rr_source :: profile_source

record profile_registry =
  reg_repos :: "(string \<times> repo_profile) list option"
  reg_org_fallbacks :: "(string \<times> repo_profile) list option"
  reg_enable_org_fallbacks :: "bool option"

text \<open>The part of the configuration the policy reads.\<close>

record policy_config =
  pc_pilot_repos :: "string list"
  pc_profiles :: "profile_registry option"

datatype profile_resolution = Allowed resolved_profile | NotAllowed profile_skip

definition canonicalRepoName :: "string \<Rightarrow> string" where
  "canonicalRepoName repo = (case split_on (CHR ''/'') repo of
     [] \<Rightarrow> ''/'' | [owner] \<Rightarrow> to_lower owner @ ''/'' | owner # name # _ \<Rightarrow> to_lower owner @ ''/'' @ to_lower name)"

definition empty_profile :: repo_profile where
  "empty_profile = \<lparr>rp_enabled = None, rp_display_name = None, rp_default_branch = None, rp_review_profile = None,
     rp_prompt_note = None, rp_risk_lens = None, rp_path_filters = None, rp_path_instructions = None,
     rp_risky_paths = None, rp_proof_expectations = None, rp_validation_hints = None, rp_readiness_hints = None,
     rp_auto_review = None, rp_pre_merge_checks = None, rp_finishing_touches = None, rp_review_scheduler = None,
     rp_suggested_labels = None, rp_suggested_reviewers = None\<rparr>"

definition normalizeProfile :: "string \<Rightarrow> profile_source \<Rightarrow> repo_profile \<Rightarrow> resolved_profile" where
  "normalizeProfile repo source profile =
     repo_profile.extend (profile\<lparr>rp_review_profile := Some (or_default (rp_review_profile profile) RP_assertive)\<rparr>)
       (resolved_profile.fields repo (canonicalRepoName repo) source)"

definition hasProfileRegistry :: "profile_registry option \<Rightarrow> bool" where
  "hasProfileRegistry registry = (case registry of None \<Rightarrow> False
     | Some r \<Rightarrow> or_default (reg_repos r) [] \<noteq> [] \<or> or_default (reg_org_fallbacks r) [] \<noteq> [])"

definition findProfileByRepo :: "(string \<times> repo_profile) list option \<Rightarrow> string \<Rightarrow> (string \<times> repo_profile) option" where
  "findProfileByRepo profiles repo =
     (case profiles of None \<Rightarrow> None | Some ps \<Rightarrow> find (\<lambda>(c, _). canonicalRepoName c = canonicalRepoName repo) ps)"

definition findProfileByOwner :: "(string \<times> repo_profile) list option \<Rightarrow> string \<Rightarrow> (string \<times> repo_profile) option" where
  "findProfileByOwner profiles owner =
     (case profiles of None \<Rightarrow> None | Some ps \<Rightarrow> find (\<lambda>(c, _). to_lower c = to_lower owner) ps)"

definition resolveRepoProfile :: "policy_config \<Rightarrow> string \<Rightarrow> profile_resolution" where
  "resolveRepoProfile config repo =
     (case pc_profiles config of
        Some registry \<Rightarrow>
          if \<not> hasProfileRegistry (Some registry) then Allowed (normalizeProfile repo PS_default empty_profile)
          else (case findProfileByRepo (reg_repos registry) repo of
              Some (explicitRepo, profile) \<Rightarrow>
                if rp_enabled profile = Some False then NotAllowed PK_repo_profile_disabled
                else Allowed (normalizeProfile explicitRepo PS_explicit profile)
            | None \<Rightarrow>
                (let org = hd (split_on (CHR ''/'') repo);
                     fallback = (if org \<noteq> [] then findProfileByOwner (reg_org_fallbacks registry) org else None)
                 in (case fallback of
                      Some (_, profile) \<Rightarrow>
                        if rp_enabled profile = Some False then NotAllowed PK_repo_profile_disabled
                        else if reg_enable_org_fallbacks registry = Some True
                          then Allowed (normalizeProfile repo PS_org_fallback profile)
                        else NotAllowed PK_repo_profile_missing
                    | None \<Rightarrow> NotAllowed PK_repo_profile_missing)))
      | None \<Rightarrow> Allowed (normalizeProfile repo PS_default empty_profile))"

text \<open>The repositories a scan visits.\<close>

fun unique_from :: "string list \<Rightarrow> string list \<Rightarrow> string list" where
  "unique_from seen [] = []"
| "unique_from seen (v # vs) =
     (if canonicalRepoName v \<in> set seen then unique_from seen vs
      else v # unique_from (canonicalRepoName v # seen) vs)"

definition uniqueRepos :: "string list \<Rightarrow> string list" where
  "uniqueRepos values = unique_from [] (filter (\<lambda>v. v \<noteq> []) values)"

definition listReposToScan :: "policy_config \<Rightarrow> string list" where
  "listReposToScan config =
     (let configured = uniqueRepos (pc_pilot_repos config)
      in if configured \<noteq> [] then configured
         else uniqueRepos (map fst (filter (\<lambda>(_, p). rp_enabled p \<noteq> Some False)
                (case pc_profiles config of None \<Rightarrow> [] | Some r \<Rightarrow> or_default (reg_repos r) []))))"

record policy_snapshot =
  sn_repo :: string
  sn_canonical :: string
  sn_resolution :: profile_resolution

definition buildRepoPolicySnapshot :: "policy_config \<Rightarrow> string \<Rightarrow> policy_snapshot" where
  "buildRepoPolicySnapshot config repo = (case resolveRepoProfile config repo of
     NotAllowed r \<Rightarrow> \<lparr>sn_repo = repo, sn_canonical = canonicalRepoName repo, sn_resolution = NotAllowed r\<rparr>
   | Allowed p \<Rightarrow> \<lparr>sn_repo = repo, sn_canonical = rr_canonical p, sn_resolution = Allowed p\<rparr>)"

text \<open>The limits a profile sets for the queue (\<open>src/review-budget.ts\<close>).\<close>

definition repoActiveLimitFor :: "policy_config \<Rightarrow> int \<Rightarrow> string \<Rightarrow> int" where
  "repoActiveLimitFor config maxRepoActive repo = (case resolveRepoProfile config repo of
     NotAllowed _ \<Rightarrow> maxRepoActive
   | Allowed p \<Rightarrow> (case rp_review_scheduler p of None \<Rightarrow> maxRepoActive | Some s \<Rightarrow> or_default (rsc_max_active_heads s) maxRepoActive))"

section \<open>Path filters\<close>

text \<open>A glob is turned into a regular expression: two stars become \<open>.*\<close>, one star \<open>[^/]*\<close>, every other
  character stands for itself. The placeholder for two stars is a text of its own.\<close>

definition DOUBLE_STAR :: string where
  "DOUBLE_STAR = CHR 0x00 # ''DOUBLE_STAR'' @ [CHR 0x00]"

fun mark_double_stars :: "string \<Rightarrow> string" where
  "mark_double_stars [] = []"
| "mark_double_stars [c] = [c]"
| "mark_double_stars (c # d # s) =
     (if c = CHR ''*'' \<and> d = CHR ''*'' then DOUBLE_STAR @ mark_double_stars s else c # mark_double_stars (d # s))"

datatype glob_token = Lit char | Star | DoubleStar

function glob_tokens :: "string \<Rightarrow> glob_token list" where
  "glob_tokens s = (case s of [] \<Rightarrow> []
     | c # r \<Rightarrow> if starts_with DOUBLE_STAR s then DoubleStar # glob_tokens (drop (length DOUBLE_STAR) s)
         else (if c = CHR ''*'' then Star else Lit c) # glob_tokens r)"
  by auto
termination by (relation "measure length") (auto simp: DOUBLE_STAR_def)

declare glob_tokens.simps [simp del]

text \<open>\<open>.\<close> does not match a line terminator.\<close>

definition line_terminator :: "char \<Rightarrow> bool" where
  "line_terminator c \<longleftrightarrow> c = CHR 0x0A \<or> c = CHR 0x0D"

fun glob_match :: "glob_token list \<Rightarrow> string \<Rightarrow> bool" where
  "glob_match [] s = (s = [])"
| "glob_match (Lit c # ts) [] = False"
| "glob_match (Lit c # ts) (x # s) = (x = c \<and> glob_match ts s)"
| "glob_match (Star # ts) [] = glob_match ts []"
| "glob_match (Star # ts) (x # s) = (glob_match ts (x # s) \<or> (x \<noteq> CHR ''/'' \<and> glob_match (Star # ts) s))"
| "glob_match (DoubleStar # ts) [] = glob_match ts []"
| "glob_match (DoubleStar # ts) (x # s) = (glob_match ts (x # s) \<or> (\<not> line_terminator x \<and> glob_match (DoubleStar # ts) s))"

definition globToRegExp :: "string \<Rightarrow> glob_token list" where
  "globToRegExp pattern = glob_tokens (mark_double_stars pattern)"

definition strip_slashes :: "string \<Rightarrow> string" where
  "strip_slashes p = dropWhile (\<lambda>c. c = CHR ''/'') p"

definition matchesGlob :: "string \<Rightarrow> string \<Rightarrow> bool" where
  "matchesGlob path pattern = glob_match (globToRegExp (strip_slashes pattern)) (strip_slashes path)"

definition SAFETY_INCLUDE_PATTERNS :: "string list" where
  "SAFETY_INCLUDE_PATTERNS = [''.github/**'', ''README.md'', ''AGENTS.md'', ''CHANGELOG.md'', ''SECURITY.md'', ''CODEOWNERS'',
     ''Dockerfile'', ''Dockerfile.*'', ''docker-compose*.yml'', ''Makefile'', ''justfile'', ''package.json'', ''package-lock.json'',
     ''pnpm-lock.yaml'', ''yarn.lock'', ''bun.lock'', ''tsconfig*.json'', ''vite.config.*'', ''vitest.config.*'',
     ''playwright.config.*'', ''next.config.*'', ''tailwind.config.*'', ''eslint.config.*'', ''.npmrc'', ''.nvmrc'', ''.node-version'',
     ''.env.example'', ''.gitleaks.toml'', ''.gitattributes'', ''.gitignore'', ''go.mod'', ''go.sum'', ''Cargo.toml'', ''Cargo.lock'',
     ''pyproject.toml'', ''uv.lock'', ''requirements*.txt'', ''poetry.lock'', ''Pipfile'', ''Pipfile.lock'', ''**/*.plist'',
     ''**/*.entitlements'', ''**/*.entitlements.plist'']"

datatype filter_reason = FR_no_profile_filters | FR_matched_profile_include | FR_matched_safety_include
  | FR_excluded_by_profile | FR_no_matching_include

record filter_decision =
  fd_filename :: string
  fd_included :: bool
  fd_reason :: filter_reason
  fd_pattern :: "string option"

definition decideFileFilter :: "string \<Rightarrow> string list \<Rightarrow> string list \<Rightarrow> filter_decision" where
  "decideFileFilter filename includeFilters excludeFilters =
     (case truthy (find (matchesGlob filename) excludeFilters) of
        Some p \<Rightarrow> \<lparr>fd_filename = filename, fd_included = False, fd_reason = FR_excluded_by_profile, fd_pattern = Some p\<rparr>
      | None \<Rightarrow>
        if includeFilters = [] then \<lparr>fd_filename = filename, fd_included = True, fd_reason = FR_no_profile_filters, fd_pattern = None\<rparr>
        else (case truthy (find (matchesGlob filename) includeFilters) of
            Some p \<Rightarrow> \<lparr>fd_filename = filename, fd_included = True, fd_reason = FR_matched_profile_include, fd_pattern = Some p\<rparr>
          | None \<Rightarrow> (case truthy (find (matchesGlob filename) SAFETY_INCLUDE_PATTERNS) of
              Some p \<Rightarrow> \<lparr>fd_filename = filename, fd_included = True, fd_reason = FR_matched_safety_include, fd_pattern = Some p\<rparr>
            | None \<Rightarrow> \<lparr>fd_filename = filename, fd_included = False, fd_reason = FR_no_matching_include, fd_pattern = None\<rparr>)))"

record filter_impact =
  fi_original_count :: nat
  fi_included_count :: nat
  fi_excluded_count :: nat
  fi_include_filters :: "string list"
  fi_exclude_filters :: "string list"
  fi_included :: "filter_decision list"
  fi_excluded :: "filter_decision list"

definition is_exclude :: "string \<Rightarrow> bool" where
  "is_exclude pattern \<longleftrightarrow> starts_with ''!'' pattern"

definition profile_filters :: "('a repo_profile_scheme) \<Rightarrow> string list" where
  "profile_filters profile = filter (\<lambda>p. p \<noteq> []) (or_default (rp_path_filters profile) [])"

definition buildPullFileFilterImpact :: "string list \<Rightarrow> ('a repo_profile_scheme) \<Rightarrow> filter_impact" where
  "buildPullFileFilterImpact files profile =
     (let filters = profile_filters profile;
          includeFilters = filter (\<lambda>p. \<not> is_exclude p) filters;
          excludeFilters = map (drop 1) (filter is_exclude filters);
          decisions = map (\<lambda>f. decideFileFilter f includeFilters excludeFilters) files;
          included = filter fd_included decisions; excluded = filter (\<lambda>d. \<not> fd_included d) decisions
      in \<lparr>fi_original_count = length files, fi_included_count = length included, fi_excluded_count = length excluded,
          fi_include_filters = includeFilters, fi_exclude_filters = excludeFilters, fi_included = included, fi_excluded = excluded\<rparr>)"

text \<open>The files of a pull request are given by any record with a name.\<close>

definition filterPullFilesForProfile :: "('f \<Rightarrow> string) \<Rightarrow> 'f list \<Rightarrow> ('a repo_profile_scheme) \<Rightarrow> 'f list" where
  "filterPullFilesForProfile filename files profile =
     (let included = map fd_filename (fi_included (buildPullFileFilterImpact (map filename files) profile))
      in filter (\<lambda>f. filename f \<in> set included) files)"

section \<open>Guidance in the prompt\<close>

fun join_text :: "string \<Rightarrow> string list \<Rightarrow> string" where
  "join_text sep [] = []"
| "join_text sep [w] = w"
| "join_text sep (w # v # ws) = w @ sep @ join_text sep (v # ws)"

definition NL :: string where "NL = [CHR 0x0A]"

definition pushList :: "string \<Rightarrow> string list option \<Rightarrow> string list" where
  "pushList label values = (case values of None \<Rightarrow> []
     | Some vs \<Rightarrow> if vs = [] then [] else [''- '' @ label @ '': '' @ join_text ''; '' vs])"

definition pushAutoReview :: "auto_review option \<Rightarrow> string list" where
  "pushAutoReview ar = (case ar of None \<Rightarrow> []
     | Some a \<Rightarrow> pushList ''Auto-review base branches'' (ar_base_branches a) @ pushList ''Auto-review label filters'' (ar_labels a))"

definition pushPathInstructions :: "(string \<times> string list) list option \<Rightarrow> string list" where
  "pushPathInstructions pis = (case pis of None \<Rightarrow> []
     | Some entries \<Rightarrow> if entries = [] then []
         else ''- Path-specific instructions:'' # map (\<lambda>(p, is). ''  - '' @ p @ '': '' @ join_text ''; '' is) entries)"

definition pushPreMergeChecks :: "(string \<times> pre_merge_check option) list option \<Rightarrow> string list" where
  "pushPreMergeChecks checks = (case checks of None \<Rightarrow> []
     | Some cs \<Rightarrow>
        (let entries = List.map_filter (\<lambda>(n, c). map_option (\<lambda>c. (n, c)) c) cs
         in if entries = [] then []
            else ''- Pre-merge checks (advisory; do not invent CI status):'' # map (\<lambda>(n, c). ''  - '' @ n @ '': '' @ join_text ''; ''
              ([''mode='' @ pm_mode c] @ (case pm_threshold c of None \<Rightarrow> [] | Some t \<Rightarrow> [''threshold='' @ string_of_int t]) @
               (case truthy (pm_instructions c) of None \<Rightarrow> [] | Some i \<Rightarrow> [i]))) entries))"

definition pushFinishingTouches :: "(string \<times> finishing_touch option) list option \<Rightarrow> string list" where
  "pushFinishingTouches touches = (case touches of None \<Rightarrow> []
     | Some ts \<Rightarrow>
        (let entries = List.map_filter (\<lambda>(n, t). map_option (\<lambda>t. (n, t)) t) ts
         in if entries = [] then []
            else ''- Finishing-touch commands (declarations only; do not execute or offer as active unless enabled):'' #
              map (\<lambda>(n, t). ''  - '' @ n @ '': '' @ join_text ''; ''
                ([''enabled='' @ (if ft_enabled t then ''true'' else ''false'')] @
                 (case truthy (ft_instructions t) of None \<Rightarrow> [] | Some i \<Rightarrow> [i]))) entries))"

text \<open>The length of a text in UTF-8: a character above 127 takes two bytes.\<close>

definition utf8_length :: "string \<Rightarrow> nat" where
  "utf8_length s = sum_list (map (\<lambda>c. if char_code c < 128 then 1 else 2) s)"

definition source_name :: "profile_source \<Rightarrow> string" where
  "source_name s = (case s of PS_default \<Rightarrow> ''default'' | PS_explicit \<Rightarrow> ''explicit'' | PS_org_fallback \<Rightarrow> ''org_fallback'')"

definition review_profile_name :: "review_profile \<Rightarrow> string" where
  "review_profile_name p = (case p of RP_chill \<Rightarrow> ''chill'' | RP_assertive \<Rightarrow> ''assertive'')"

definition lens_tokens :: "string \<Rightarrow> nat" where
  "lens_tokens lens = max 1 ((utf8_length lens + 3) div 4)"

definition lens_fits :: "string \<Rightarrow> nat option \<Rightarrow> bool" where
  "lens_fits lens estimate \<longleftrightarrow> \<not> 512 < lens_tokens lens \<and>
     \<not> (case estimate of None \<Rightarrow> 512 | Some e \<Rightarrow> e div 10) < lens_tokens lens"

definition LENS_LINE :: string where
  "LENS_LINE = ''- Repository risk lens (advisory; cannot override the canonical review contract):''"

definition prompt_lines :: "resolved_profile \<Rightarrow> nat option \<Rightarrow> string list" where
  "prompt_lines profile estimate =
     (let branch = (case truthy (rp_default_branch profile) of None \<Rightarrow> [] | Some b \<Rightarrow> [''- Default branch: '' @ b]);
          first = [''Repository profile guidance:'', ''- Repo: '' @ rr_repo profile, ''- Source: '' @ source_name (rr_source profile),
            ''- Display name: '' @ or_default (rp_display_name profile) (rr_repo profile),
            ''- Review profile: '' @ review_profile_name (or_default (rp_review_profile profile) RP_assertive)]
      in case truthy (rp_risk_lens profile) of
           Some raw \<Rightarrow>
             if \<not> lens_fits (trim raw) estimate
             then first @ branch @ [''- Optional repository guidance omitted: context budget exceeded.'']
             else first @ branch @ [LENS_LINE, trim raw]
         | None \<Rightarrow> first @ branch @
             (case truthy (rp_prompt_note profile) of None \<Rightarrow> [] | Some n \<Rightarrow> [''- Repo-specific instruction: '' @ n]) @
             pushAutoReview (rp_auto_review profile) @ pushList ''Path filters'' (rp_path_filters profile) @
             pushPathInstructions (rp_path_instructions profile) @ pushList ''High-risk paths'' (rp_risky_paths profile) @
             pushList ''Proof expectations'' (rp_proof_expectations profile) @
             pushList ''Validation hints'' (rp_validation_hints profile) @ pushList ''Readiness hints'' (rp_readiness_hints profile) @
             pushPreMergeChecks (rp_pre_merge_checks profile) @ pushFinishingTouches (rp_finishing_touches profile) @
             pushList ''Allowed label suggestions'' (rp_suggested_labels profile) @
             pushList ''Allowed reviewer suggestions'' (rp_suggested_reviewers profile))"

definition buildRepoProfilePromptSection :: "resolved_profile \<Rightarrow> nat option \<Rightarrow> string" where
  "buildRepoProfilePromptSection profile estimate = join_text NL (prompt_lines profile estimate)"

section \<open>The guard of what is posted\<close>

datatype leak_error = PublicReviewConfigLeakRejected

definition PUBLIC_REVIEW_CONFIG_LEAK_MARKERS :: "string list" where
  "PUBLIC_REVIEW_CONFIG_LEAK_MARKERS = [''review settings preview'', ''enabled sections'', ''path instructions'',
     ''suggestion behavior'', ''roadmap only settings'', ''repo specific instruction'', ''prompt note'',
     ''review risk lens'', ''proof expectations'', ''validation hints'', ''readiness hints'']"

definition PUBLIC_REVIEW_PROFILE_FRAGMENT_WORD_WINDOW :: nat where
  "PUBLIC_REVIEW_PROFILE_FRAGMENT_WORD_WINDOW = 8"

definition is_upper :: "char \<Rightarrow> bool" where
  "is_upper c \<longleftrightarrow> 65 \<le> char_code c \<and> char_code c \<le> 90"

definition is_word_char :: "char \<Rightarrow> bool" where
  "is_word_char c \<longleftrightarrow> is_alnum c \<and> \<not> is_upper c"

text \<open>A space between a lower-case letter or digit and an upper-case letter.\<close>

fun camel_split :: "string \<Rightarrow> string" where
  "camel_split [] = []"
| "camel_split [c] = [c]"
| "camel_split (c # d # s) =
     (if is_word_char c \<and> is_upper d then c # CHR '' '' # camel_split (d # s) else c # camel_split (d # s))"

text \<open>\<open>s.replace(/[^a-z0-9]+/g, " ")\<close>\<close>

function collapse_other :: "string \<Rightarrow> string" where
  "collapse_other s = (case s of [] \<Rightarrow> []
     | c # r \<Rightarrow> if is_word_char c then c # collapse_other r
         else CHR '' '' # collapse_other (dropWhile (\<lambda>x. \<not> is_word_char x) r))"
  by auto
termination by (relation "measure length") (auto simp: le_imp_less_Suc length_dropWhile_le)

declare collapse_other.simps [simp del]

definition normalizePublicLeakText :: "string \<Rightarrow> string" where
  "normalizePublicLeakText value = trim (collapse_other (to_lower (camel_split value)))"

definition compactPublicLeakText :: "string \<Rightarrow> string" where
  "compactPublicLeakText value = filter (\<lambda>c. c \<noteq> CHR '' '') (normalizePublicLeakText value)"

fun glue_tokens :: "nat \<Rightarrow> string \<Rightarrow> string list \<Rightarrow> string" where
  "glue_tokens n candidate [] = candidate"
| "glue_tokens n candidate (t # ts) = (if length candidate < n then glue_tokens n (candidate @ t) ts else candidate)"

definition containsCanonicalPublicLeakMarker :: "string \<Rightarrow> string \<Rightarrow> bool" where
  "containsCanonicalPublicLeakMarker value marker =
     (let tokens = filter (\<lambda>t. t \<noteq> []) (split_on (CHR '' '') (normalizePublicLeakText value));
          compactMarker = compactPublicLeakText marker
      in list_ex (\<lambda>start. glue_tokens (length compactMarker) [] (drop start tokens) = compactMarker) [0..<length tokens])"

text \<open>\<open>value.match(/[a-z0-9]+/g)\<close>\<close>

function word_runs :: "string \<Rightarrow> string list" where
  "word_runs s = (case s of [] \<Rightarrow> []
     | c # r \<Rightarrow> if is_word_char c then (c # takeWhile is_word_char r) # word_runs (dropWhile is_word_char r) else word_runs r)"
  by auto
termination by (relation "measure length") (auto simp: le_imp_less_Suc length_dropWhile_le)

declare word_runs.simps [simp del]

definition word_windows :: "nat \<Rightarrow> string \<Rightarrow> string list" where
  "word_windows wordCount value =
     (let ws = word_runs value
      in if length ws < wordCount then []
         else map (\<lambda>i. join_text '' '' (take wordCount (drop i ws))) [0..<length ws - wordCount + 1])"

definition hasSharedForbiddenWordWindow :: "string \<Rightarrow> string \<Rightarrow> nat \<Rightarrow> bool" where
  "hasSharedForbiddenWordWindow content forbidden wordCount =
     list_ex (\<lambda>w. w \<in> set (word_windows wordCount content)) (word_windows wordCount forbidden)"

definition assertPublicReviewOutputSafe :: "string \<Rightarrow> string list \<Rightarrow> nat \<Rightarrow> leak_error + unit" where
  "assertPublicReviewOutputSafe content forbiddenFragments sharedWordWindow =
     (let normalized = normalizePublicLeakText content
      in if list_ex (containsCanonicalPublicLeakMarker content) PUBLIC_REVIEW_CONFIG_LEAK_MARKERS
         then Inl PublicReviewConfigLeakRejected
         else if list_ex (\<lambda>fragment. let candidate = normalizePublicLeakText fragment
                in 12 \<le> length candidate \<and>
                   (str_includes candidate normalized \<or>
                    (2 \<le> sharedWordWindow \<and> hasSharedForbiddenWordWindow normalized candidate sharedWordWindow))) forbiddenFragments
         then Inl PublicReviewConfigLeakRejected
         else Inr ())"

definition RENDERED_REVIEW_RISK_LENS_PREFIX :: string where
  "RENDERED_REVIEW_RISK_LENS_PREFIX = LENS_LINE @ NL"

definition publicReviewForbiddenProfileFragments :: "('a repo_profile_scheme) \<Rightarrow> string list option \<Rightarrow> string list" where
  "publicReviewForbiddenProfileFragments profile renderedPrompts =
     (let renderedLens = (case rp_risk_lens profile of None \<Rightarrow> [] | Some l \<Rightarrow> trim l);
          included = (case renderedPrompts of None \<Rightarrow> True
            | Some prompts \<Rightarrow> renderedLens \<noteq> [] \<and>
                list_ex (str_includes (RENDERED_REVIEW_RISK_LENS_PREFIX @ renderedLens)) prompts)
      in filter (\<lambda>v. trim v \<noteq> [])
           ((case rp_prompt_note profile of None \<Rightarrow> [] | Some n \<Rightarrow> [n]) @
            (if included then (case rp_risk_lens profile of None \<Rightarrow> [] | Some l \<Rightarrow> [l]) else []) @
            or_default (rp_proof_expectations profile) [] @ or_default (rp_validation_hints profile) [] @
            or_default (rp_readiness_hints profile) [] @ concat (map snd (or_default (rp_path_instructions profile) []))))"

section \<open>What a pattern matches\<close>

text \<open>A pattern read declaratively: the path is cut into one part per token, and each part is what the token allows.\<close>

fun token_allows :: "glob_token \<Rightarrow> string \<Rightarrow> bool" where
  "token_allows (Lit c) part = (part = [c])"
| "token_allows Star part = (CHR ''/'' \<notin> set part)"
| "token_allows DoubleStar part = list_all (\<lambda>x. \<not> line_terminator x) part"

definition pattern_denotes :: "string \<Rightarrow> string \<Rightarrow> bool" where
  "pattern_denotes pattern path \<longleftrightarrow>
     (\<exists>parts. list_all2 token_allows (globToRegExp (strip_slashes pattern)) parts \<and> concat parts = strip_slashes path)"

lemma glob_match_Star:
  "glob_match (Star # ts) s \<longleftrightarrow> (\<exists>p q. s = p @ q \<and> CHR ''/'' \<notin> set p \<and> glob_match ts q)"
proof (induction s)
  case Nil
  then show ?case by simp
next
  case (Cons x s)
  show ?case
  proof
    assume "glob_match (Star # ts) (x # s)"
    then consider "glob_match ts (x # s)" | "x \<noteq> CHR ''/''" "glob_match (Star # ts) s" by auto
    then show "\<exists>p q. x # s = p @ q \<and> CHR ''/'' \<notin> set p \<and> glob_match ts q"
    proof cases
      case 1
      then show ?thesis by (metis append_Nil empty_iff list.set(1))
    next
      case 2
      then obtain p q where "s = p @ q" "CHR ''/'' \<notin> set p" "glob_match ts q" using Cons by blast
      with 2 show ?thesis by (intro exI[of _ "x # p"] exI[of _ q]) auto
    qed
  next
    assume "\<exists>p q. x # s = p @ q \<and> CHR ''/'' \<notin> set p \<and> glob_match ts q"
    then obtain p q where "x # s = p @ q" "CHR ''/'' \<notin> set p" "glob_match ts q" by blast
    then show "glob_match (Star # ts) (x # s)" using Cons by (cases p) auto
  qed
qed

lemma glob_match_DoubleStar:
  "glob_match (DoubleStar # ts) s \<longleftrightarrow> (\<exists>p q. s = p @ q \<and> list_all (\<lambda>x. \<not> line_terminator x) p \<and> glob_match ts q)"
proof (induction s)
  case Nil
  then show ?case by simp
next
  case (Cons x s)
  show ?case
  proof
    assume "glob_match (DoubleStar # ts) (x # s)"
    then consider "glob_match ts (x # s)" | "\<not> line_terminator x" "glob_match (DoubleStar # ts) s" by auto
    then show "\<exists>p q. x # s = p @ q \<and> list_all (\<lambda>x. \<not> line_terminator x) p \<and> glob_match ts q"
    proof cases
      case 1
      then show ?thesis by (metis append_Nil list.pred_inject(1))
    next
      case 2
      then obtain p q where "s = p @ q" "list_all (\<lambda>x. \<not> line_terminator x) p" "glob_match ts q" using Cons by blast
      with 2 show ?thesis by (intro exI[of _ "x # p"] exI[of _ q]) auto
    qed
  next
    assume "\<exists>p q. x # s = p @ q \<and> list_all (\<lambda>x. \<not> line_terminator x) p \<and> glob_match ts q"
    then obtain p q where "x # s = p @ q" "list_all (\<lambda>x. \<not> line_terminator x) p" "glob_match ts q" by blast
    then show "glob_match (DoubleStar # ts) (x # s)" using Cons by (cases p) auto
  qed
qed

lemma glob_match_Lit: "glob_match (Lit c # ts) s \<longleftrightarrow> (\<exists>q. s = c # q \<and> glob_match ts q)"
  by (cases s) auto

lemma glob_match_token:
  "glob_match (t # ts) s \<longleftrightarrow> (\<exists>p q. s = p @ q \<and> token_allows t p \<and> glob_match ts q)"
  by (cases t) (auto simp: glob_match_Star glob_match_DoubleStar glob_match_Lit simp del: glob_match.simps)

lemma glob_match_parts:
  "glob_match ts s \<longleftrightarrow> (\<exists>parts. list_all2 token_allows ts parts \<and> concat parts = s)"
proof (induction ts arbitrary: s)
  case Nil
  then show ?case by auto
next
  case (Cons t ts)
  show ?case
    unfolding glob_match_token Cons list_all2_Cons1
    by (metis concat.simps(2))
qed

lemma matchesGlob_denotes: "matchesGlob path pattern \<longleftrightarrow> pattern_denotes pattern path"
  by (simp add: matchesGlob_def pattern_denotes_def glob_match_parts)

lemma truthy_find:
  assumes "\<forall>p \<in> set ps. p \<noteq> []"
  shows "truthy (find P ps) = find P ps"
  using assms by (induction ps) (auto simp: truthy_def)

lemma find_None_ex: "(find P ps = None) = (\<forall>p \<in> set ps. \<not> P p)"
  by (induction ps) auto

lemma safety_nonempty: "\<forall>p \<in> set SAFETY_INCLUDE_PATTERNS. p \<noteq> []"
  by (simp add: SAFETY_INCLUDE_PATTERNS_def)

text \<open>A file the profile shows to the model.\<close>

definition shown_file :: "string list \<Rightarrow> string \<Rightarrow> bool" where
  "shown_file filters f \<longleftrightarrow>
     \<not> list_ex (\<lambda>p. is_exclude p \<and> pattern_denotes (drop 1 p) f) filters \<and>
     (list_all is_exclude filters \<or> list_ex (\<lambda>p. \<not> is_exclude p \<and> pattern_denotes p f) filters \<or>
      list_ex (\<lambda>p. pattern_denotes p f) SAFETY_INCLUDE_PATTERNS)"


lemma empty_pattern: "matchesGlob f [] \<longleftrightarrow> strip_slashes f = []"
  by (simp add: matchesGlob_def globToRegExp_def strip_slashes_def glob_tokens.simps)

lemma decide_included:
  assumes "strip_slashes f \<noteq> []" "\<forall>p \<in> set incs. p \<noteq> []"
  shows "fd_included (decideFileFilter f incs excs) \<longleftrightarrow>
     \<not> list_ex (matchesGlob f) excs \<and> (incs = [] \<or> list_ex (matchesGlob f) incs \<or> list_ex (matchesGlob f) SAFETY_INCLUDE_PATTERNS)"
    "fd_filename (decideFileFilter f incs excs) = f"
proof -
  have ex: "truthy (find (matchesGlob f) excs) = find (matchesGlob f) excs"
    using assms(1) by (induction excs) (auto simp: truthy_def empty_pattern)
  have inc: "truthy (find (matchesGlob f) incs) = find (matchesGlob f) incs"
    "truthy (find (matchesGlob f) SAFETY_INCLUDE_PATTERNS) = find (matchesGlob f) SAFETY_INCLUDE_PATTERNS"
    using truthy_find[OF assms(2)] truthy_find[OF safety_nonempty] by auto
  have found: "(find (matchesGlob f) ps = None) = (\<not> list_ex (matchesGlob f) ps)" for ps
    by (induction ps) auto
  show "fd_included (decideFileFilter f incs excs) \<longleftrightarrow>
     \<not> list_ex (matchesGlob f) excs \<and> (incs = [] \<or> list_ex (matchesGlob f) incs \<or> list_ex (matchesGlob f) SAFETY_INCLUDE_PATTERNS)"
    using found[of excs] found[of incs] found[of SAFETY_INCLUDE_PATTERNS]
    by (auto simp: decideFileFilter_def ex inc split: option.splits)
  show "fd_filename (decideFileFilter f incs excs) = f"
    by (auto simp: decideFileFilter_def split: option.splits)
qed

lemma kept_iff_decided:
  "filterPullFilesForProfile fname files profile =
     filter (\<lambda>f. fd_included (decideFileFilter (fname f) (filter (\<lambda>p. \<not> is_exclude p) (profile_filters profile))
        (map (drop 1) (filter is_exclude (profile_filters profile))))) files"
proof -
  have name: "fd_filename (decideFileFilter x i e) = x" for x i e
    by (auto simp: decideFileFilter_def split: option.splits)
  show ?thesis
    by (auto simp: filterPullFilesForProfile_def buildPullFileFilterImpact_def Let_def name image_iff intro!: filter_cong)
qed

lemma list_ex_filter: "list_ex Q (filter P xs) \<longleftrightarrow> list_ex (\<lambda>x. P x \<and> Q x) xs"
  by (induction xs) auto

text \<open>C39: the files shown to the model are, in order, exactly those that no exclude pattern of the profile denotes
  and that the profile includes, by naming no include pattern, by one that denotes the file or by the built-in
  safety patterns; a pattern is read declaratively, and every file is accounted for as included or excluded.\<close>

theorem shown_files_exact:
  assumes "list_all (\<lambda>f. strip_slashes (fname f) \<noteq> []) files"
  shows "filterPullFilesForProfile fname files profile = filter (\<lambda>f. shown_file (profile_filters profile) (fname f)) files \<and>
    fi_included_count (buildPullFileFilterImpact (map fname files) profile) =
      length (filterPullFilesForProfile fname files profile) \<and>
    fi_included_count (buildPullFileFilterImpact (map fname files) profile) +
      fi_excluded_count (buildPullFileFilterImpact (map fname files) profile) = length files"
proof -
  let ?fs = "profile_filters profile"
  let ?dec = "\<lambda>f. decideFileFilter (fname f) (filter (\<lambda>p. \<not> is_exclude p) ?fs) (map (drop 1) (filter is_exclude ?fs))"
  have ne: "\<forall>p \<in> set (filter (\<lambda>p. \<not> is_exclude p) ?fs). p \<noteq> []" by (simp add: profile_filters_def)
  have "fd_included (?dec f) = shown_file ?fs (fname f)" if "f \<in> set files" for f
    using that assms decide_included(1)[OF _ ne, of "fname f"]
    by (auto simp: shown_file_def list_all_iff list_ex_filter list_ex_iff comp_def matchesGlob_denotes[abs_def] filter_empty_conv)
  then have kept: "filterPullFilesForProfile fname files profile = filter (\<lambda>f. shown_file ?fs (fname f)) files"
    unfolding kept_iff_decided by (simp cong: filter_cong)
  have "fi_included_count (buildPullFileFilterImpact (map fname files) profile) =
      length (filterPullFilesForProfile fname files profile)"
    unfolding kept_iff_decided by (simp add: buildPullFileFilterImpact_def Let_def filter_map comp_def)
  moreover have "fi_included_count (buildPullFileFilterImpact (map fname files) profile) +
      fi_excluded_count (buildPullFileFilterImpact (map fname files) profile) = length files"
    by (simp add: buildPullFileFilterImpact_def Let_def filter_map comp_def sum_length_filter_compl)
  ultimately show ?thesis using kept by blast
qed

text \<open>the safety pattern for property lists needs a directory: with any include pattern that does not match it, a
  \<open>.plist\<close> file at the root of the repository is hidden from the model although the documentation lists it among
  the common root files that stay visible.\<close>

theorem root_plist_hidden:
  "\<not> shown_file [''Sources/**''] ''Info.plist'' \<and> shown_file [''Sources/**''] ''App/Info.plist'' \<and>
   shown_file [''Sources/**''] ''package.json''"
  unfolding shown_file_def matchesGlob_denotes[symmetric] by (intro conjI; code_simp)

section \<open>Profile resolution\<close>

lemma canonical_cases: "canonicalRepoName (owner @ CHR ''/'' # name) = canonicalRepoName (owner' @ CHR ''/'' # name')"
  if "to_lower owner = to_lower owner'" "to_lower name = to_lower name'" "CHR ''/'' \<notin> set (owner @ name @ owner' @ name')"
  using that by (simp add: canonicalRepoName_def split_on_append split_on_none)

text \<open>who may be reviewed under a registry: a repository is allowed exactly when its own entry, found without
  regard to letter case, is not disabled, or it has none and the fallback of its organisation is enabled and
  switched on; an entry always wins over a fallback, and the profile in force is that entry's.\<close>

theorem registry_decides:
  assumes "pc_profiles config = Some reg" "hasProfileRegistry (Some reg)"
  shows "resolveRepoProfile config repo = Allowed p \<longleftrightarrow>
    (case findProfileByRepo (reg_repos reg) repo of
       Some (name, q) \<Rightarrow> rp_enabled q \<noteq> Some False \<and> p = normalizeProfile name PS_explicit q
     | None \<Rightarrow> (case findProfileByOwner (reg_org_fallbacks reg) (hd (split_on (CHR ''/'') repo)) of
         Some (_, q) \<Rightarrow> hd (split_on (CHR ''/'') repo) \<noteq> [] \<and> rp_enabled q \<noteq> Some False \<and>
           reg_enable_org_fallbacks reg = Some True \<and> p = normalizeProfile repo PS_org_fallback q
       | None \<Rightarrow> False))"
  using assms by (auto simp: resolveRepoProfile_def Let_def split: option.splits prod.splits if_splits)

lemma lower_slash: "lower_char c = CHR ''/'' \<longleftrightarrow> c = CHR ''/''"
proof
  assume "lower_char c = CHR ''/''"
  moreover have "lower_char c \<noteq> CHR ''/''" if "65 \<le> char_code c" "char_code c \<le> 90"
  proof
    assume "lower_char c = CHR ''/''"
    then have "char_code (lower_char c) = 47" by (simp add: char_code_def)
    moreover have "char_code (lower_char c) = char_code c + 32" using that by (simp add: lower_char_def char_code_def)
    ultimately show False using that by simp
  qed
  ultimately show "c = CHR ''/''" by (auto simp: lower_char_def split: if_splits)
next
  assume "c = CHR ''/''"
  then show "lower_char c = CHR ''/''" by (simp add: lower_char_def char_code_def)
qed

lemma split_on_lower: "split_on (CHR ''/'') (to_lower s) = map to_lower (split_on (CHR ''/'') s)"
  by (induction s) (auto simp: to_lower_def lower_slash split: list.splits)

definition resolution_kind :: "profile_resolution \<Rightarrow> profile_skip option" where
  "resolution_kind r = (case r of Allowed _ \<Rightarrow> None | NotAllowed k \<Rightarrow> Some k)"

lemma canonical_ignores_case:
  assumes "to_lower repo = to_lower repo'"
  shows "canonicalRepoName repo = canonicalRepoName repo'"
    "to_lower (hd (split_on (CHR ''/'') repo)) = to_lower (hd (split_on (CHR ''/'') repo'))"
proof -
  have *: "map to_lower (split_on (CHR ''/'') repo) = map to_lower (split_on (CHR ''/'') repo')"
    using assms by (metis split_on_lower)
  then show "canonicalRepoName repo = canonicalRepoName repo'"
    by (auto simp: canonicalRepoName_def split: list.splits)
  show "to_lower (hd (split_on (CHR ''/'') repo)) = to_lower (hd (split_on (CHR ''/'') repo'))"
    using * by (metis hd_map split_on_not_Nil)
qed

text \<open>Whether a repository may be reviewed does not depend on the letter case it is written in.\<close>

theorem resolution_ignores_case:
  assumes "to_lower repo = to_lower repo'"
  shows "resolution_kind (resolveRepoProfile config repo) = resolution_kind (resolveRepoProfile config repo')"
proof -
  have same: "findProfileByRepo ps repo = findProfileByRepo ps repo'"
    "findProfileByOwner ps (hd (split_on (CHR ''/'') repo)) = findProfileByOwner ps (hd (split_on (CHR ''/'') repo'))" for ps
    by (simp_all only: findProfileByRepo_def findProfileByOwner_def canonical_ignores_case[OF assms])
  have "(hd (split_on (CHR ''/'') repo) = []) = (hd (split_on (CHR ''/'') repo') = [])"
    using canonical_ignores_case(2)[OF assms] by (metis length_0_conv length_to_lower)
  then show ?thesis
    by (auto simp: resolveRepoProfile_def resolution_kind_def same Let_def split: option.splits)
qed

section \<open>What the guard keeps out\<close>

lemma word_char_nospace: "is_word_char c \<Longrightarrow> \<not> is_space c \<and> c \<noteq> CHR '' ''"
  by (auto simp: is_word_char_def is_alnum_def is_digit_def is_space_def char_code_def)

lemma word_runs_Nil [simp, code]: "word_runs [] = []"
  by (simp add: word_runs.simps)

lemma word_runs_Cons [code]:
  "word_runs (c # r) = (if is_word_char c then (c # takeWhile is_word_char r) # word_runs (dropWhile is_word_char r) else word_runs r)"
  by (subst word_runs.simps) simp

lemma collapse_Nil [simp, code]: "collapse_other [] = []"
  by (simp add: collapse_other.simps)

lemma collapse_Cons [code]:
  "collapse_other (c # r) = (if is_word_char c then c # collapse_other r
     else CHR '' '' # collapse_other (dropWhile (\<lambda>x. \<not> is_word_char x) r))"
  by (subst collapse_other.simps) simp

lemma collapse_word_or_space: "c \<in> set (collapse_other s) \<Longrightarrow> is_word_char c \<or> c = CHR '' ''"
proof (induction s rule: collapse_other.induct)
  case (1 s)
  then show ?case by (cases s) (auto simp: collapse_Cons split: if_splits)
qed

text \<open>The head of a text that is collapsed is a word character or one space before a word character.\<close>

lemma collapse_drop: "dropWhile is_space (collapse_other s) = collapse_other (dropWhile (\<lambda>x. \<not> is_word_char x) s)"
proof (cases s)
  case (Cons c r)
  have head: "dropWhile is_space (collapse_other t) = collapse_other t" if "t = [] \<or> is_word_char (hd t)" for t
    using that word_char_nospace by (cases t) (auto simp: collapse_Cons)
  have "dropWhile (\<lambda>x. \<not> is_word_char x) r = [] \<or> is_word_char (hd (dropWhile (\<lambda>x. \<not> is_word_char x) r))"
    using hd_dropWhile[of "\<lambda>x. \<not> is_word_char x" r] by auto
  then show ?thesis using Cons word_char_nospace head by (auto simp: collapse_Cons)
qed simp

lemma skip_append:
  "\<forall>x \<in> set r. \<not> is_word_char x \<Longrightarrow> dropWhile (\<lambda>x. \<not> is_word_char x) (r @ b) = dropWhile (\<lambda>x. \<not> is_word_char x) b"
  "\<forall>x \<in> set r. \<not> is_word_char x \<Longrightarrow> dropWhile (\<lambda>x. \<not> is_word_char x) r = []"
  "\<not> (\<forall>x \<in> set r. \<not> is_word_char x) \<Longrightarrow>
     dropWhile (\<lambda>x. \<not> is_word_char x) (r @ b) = dropWhile (\<lambda>x. \<not> is_word_char x) r @ b"
  by (auto intro: dropWhile_append2)

lemma collapse_append_left:
  "\<exists>z. collapse_other (a @ b) = z @ collapse_other (dropWhile (\<lambda>x. \<not> is_word_char x) b)"
proof (induction a rule: length_induct)
  case (1 a)
  show ?case
  proof (cases a)
    case Nil
    then show ?thesis by (cases b) (auto simp: collapse_Cons)
  next
    case (Cons c r)
    show ?thesis
    proof (cases "is_word_char c")
      case True
      from 1 Cons obtain z where "collapse_other (r @ b) = z @ collapse_other (dropWhile (\<lambda>x. \<not> is_word_char x) b)" by auto
      with True Cons show ?thesis by (auto simp: collapse_Cons intro: exI[of _ "c # z"])
    next
      case False
      let ?d = "dropWhile (\<lambda>x. \<not> is_word_char x)"
      show ?thesis
      proof (cases "\<forall>x \<in> set r. \<not> is_word_char x")
        case True
        then have "?d (r @ b) = ?d b" by (rule skip_append(1))
        with False Cons show ?thesis by (auto simp: collapse_Cons intro: exI[of _ "'' ''"])
      next
        case some: False
        then have "?d (r @ b) = ?d r @ b" by (rule skip_append(3))
        moreover have "length (?d r) < length a" using Cons by (simp add: le_imp_less_Suc length_dropWhile_le)
        then obtain z where "collapse_other (?d r @ b) = z @ collapse_other (?d b)" using 1 by blast
        ultimately show ?thesis using False Cons by (auto simp: collapse_Cons intro: exI[of _ "CHR '' '' # z"])
      qed
    qed
  qed
qed

lemma collapse_source: "x \<in> set (collapse_other s) \<Longrightarrow> is_word_char x \<Longrightarrow> x \<in> set s"
proof (induction s rule: collapse_other.induct)
  case (1 s)
  show ?case
  proof (cases s)
    case (Cons c r)
    have "x \<noteq> CHR '' ''" using 1(4) word_char_nospace by auto
    with 1 Cons show ?thesis by (cases "is_word_char c") (auto simp: collapse_Cons dest: set_dropWhileD)
  qed (use 1(3) in simp)
qed

lemma collapse_append_right: "\<exists>z. collapse_other (b @ c) = collapse_other b @ z \<and> (\<forall>x \<in> set z. is_word_char x \<longrightarrow> x \<in> set c)"
proof (induction b rule: length_induct)
  case (1 b)
  let ?d = "dropWhile (\<lambda>x. \<not> is_word_char x)"
  show ?case
  proof (cases b)
    case (Cons x r)
    show ?thesis
    proof (cases "is_word_char x")
      case True
      from 1 Cons obtain z where "collapse_other (r @ c) = collapse_other r @ z" "\<forall>x \<in> set z. is_word_char x \<longrightarrow> x \<in> set c"
        by auto
      with True Cons show ?thesis by (auto simp: collapse_Cons)
    next
      case False
      show ?thesis
      proof (cases "\<forall>y \<in> set r. \<not> is_word_char y")
        case True
        have "\<forall>x \<in> set (collapse_other (?d c)). is_word_char x \<longrightarrow> x \<in> set c"
          using collapse_source set_dropWhileD by metis
        moreover have "collapse_other (b @ c) = collapse_other b @ collapse_other (?d c)"
          by (simp only: Cons append_Cons collapse_Cons False if_False skip_append(1)[OF True] skip_append(2)[OF True]
              collapse_Nil append_Nil)
        ultimately show ?thesis by blast
      next
        case some: False
        have "length (?d r) < length b" using Cons by (simp add: le_imp_less_Suc length_dropWhile_le)
        then obtain z where "collapse_other (?d r @ c) = collapse_other (?d r) @ z" "\<forall>x \<in> set z. is_word_char x \<longrightarrow> x \<in> set c"
          using 1 by blast
        then show ?thesis using False Cons skip_append(3)[OF some] by (auto simp: collapse_Cons)
      qed
    qed
  qed (use collapse_source in auto)
qed

definition rtrim :: "string \<Rightarrow> string" where
  "rtrim s = rev (dropWhile is_space (rev s))"

lemma trim_rtrim: "trim s = rtrim (dropWhile is_space s)"
  by (simp add: trim_def rtrim_def)

lemma rtrim_append: "rtrim b \<noteq> [] \<Longrightarrow> rtrim (a @ b) = a @ rtrim b"
  by (simp add: rtrim_def dropWhile_append) (metis dropWhile_eq_Nil_conv)

lemma rtrim_prefix: "\<exists>z. rtrim (b @ c) = rtrim b @ z"
proof (cases "rtrim c = []")
  case True
  then have "\<forall>x \<in> set c. is_space x" by (simp add: rtrim_def)
  then have "dropWhile is_space (rev c @ rev b) = dropWhile is_space (rev b)" by (intro dropWhile_append2) auto
  then have "rtrim (b @ c) = rtrim b" by (simp add: rtrim_def)
  then show ?thesis by simp
next
  case False
  have "b = rtrim b @ rev (takeWhile is_space (rev b))"
    unfolding rtrim_def rev_append[symmetric] by simp
  then have "rtrim (b @ c) = rtrim b @ (rev (takeWhile is_space (rev b)) @ rtrim c)"
    using rtrim_append[OF False, of b] by simp
  then show ?thesis by blast
qed

lemma trim_append_spaces: "\<forall>c \<in> set z. is_space c \<Longrightarrow> trim (s @ z) = trim s"
proof -
  assume z: "\<forall>c \<in> set z. is_space c"
  have r: "rtrim (t @ z) = rtrim t" for t
    using z dropWhile_append2[of "rev z" is_space "rev t"] by (simp add: rtrim_def)
  have "dropWhile is_space (s @ z) = dropWhile is_space s @ z \<or> (dropWhile is_space s = [] \<and> dropWhile is_space (s @ z) = [])"
    using z by (induction s) auto
  then show ?thesis by (elim disjE) (simp_all only: trim_rtrim r)
qed

lemma collapsed_infix: "sublist (trim (collapse_other b)) (trim (collapse_other (a @ b @ c)))"
proof -
  let ?d = "dropWhile (\<lambda>x. \<not> is_word_char x)"
  have 1: "\<exists>z. trim (collapse_other (b @ c)) = trim (collapse_other b) @ z"
  proof (cases "?d b = []")
    case True
    then show ?thesis by (simp add: trim_rtrim collapse_drop rtrim_def del: dropWhile_eq_Nil_conv)
  next
    case False
    then have "?d (b @ c) = ?d b @ c" by (intro skip_append(3)) (auto simp: dropWhile_eq_Nil_conv)
    moreover obtain z where "collapse_other (?d b @ c) = collapse_other (?d b) @ z" using collapse_append_right by blast
    ultimately show ?thesis using rtrim_prefix[of "collapse_other (?d b)" z] by (simp add: trim_rtrim collapse_drop)
  qed
  have 2: "\<exists>z. trim (collapse_other (a @ b)) = z @ trim (collapse_other b)" for a b
  proof (cases "trim (collapse_other b) = []")
    case False
    obtain z where "collapse_other (?d a @ b) = z @ collapse_other (?d b)" using collapse_append_left by blast
    moreover have "?d (a @ b) = ?d a @ b \<or> (?d (a @ b) = ?d b)"
      by (cases "\<forall>y \<in> set a. \<not> is_word_char y") (auto simp: skip_append)
    ultimately show ?thesis
      using rtrim_append[of "collapse_other (?d b)" z] False by (auto simp: trim_rtrim collapse_drop)
  qed simp
  from 1 2[of a "b @ c"] show ?thesis by (metis append.assoc sublist_def)
qed

lemma camel_append:
  "camel_split (a @ b) = camel_split a @ (if a \<noteq> [] \<and> b \<noteq> [] \<and> is_word_char (last a) \<and> is_upper (hd b) then '' '' else []) @ camel_split b"
proof (induction a rule: camel_split.induct)
  case (2 c)
  then show ?case by (cases b) auto
qed auto

lemma to_lower_append [simp]: "to_lower (a @ b) = to_lower a @ to_lower b"
  by (simp add: to_lower_def)

text \<open>A text posted verbatim inside another stays visible after normalisation.\<close>

lemma normalize_infix: "sublist (normalizePublicLeakText f) (normalizePublicLeakText (a @ f @ b))"
  by (simp add: normalizePublicLeakText_def camel_append[of a] camel_append[of f] collapsed_infix)
     (metis append.assoc collapsed_infix)

lemma str_includes_sublist: "str_includes s t \<longleftrightarrow> sublist s t"
proof (induction t)
  case (Cons c t)
  have "starts_with s (c # t) \<longleftrightarrow> prefix s (c # t)"
    by (metis append_take_drop_id prefixE prefixI starts_with_append starts_with_iff)
  with Cons show ?case by (simp add: sublist_Cons_right)
qed simp


subsection \<open>Words\<close>

lemma word_runs_append:
  assumes "a = [] \<or> b = [] \<or> \<not> is_word_char (last a) \<or> \<not> is_word_char (hd b)"
  shows "word_runs (a @ b) = word_runs a @ word_runs b"
  using assms
proof (induction a rule: word_runs.induct)
  case (1 a)
  show ?case
  proof (cases a)
    case (Cons c r)
    show ?thesis
    proof (cases "is_word_char c")
      case True
      let ?t = "takeWhile is_word_char r" and ?d = "dropWhile is_word_char r"
      have IH: "word_runs (?d @ b) = word_runs ?d @ word_runs b"
      proof (rule 1(1)[OF Cons True])
        have "last ?d = last a" if "?d \<noteq> []"
        proof -
          have "r \<noteq> []" using that by auto
          then have "last a = last (?t @ ?d)" using Cons by simp
          then show ?thesis using that by (simp only: last_append if_False)
        qed
        with 1(3) Cons show "?d = [] \<or> b = [] \<or> \<not> is_word_char (last ?d) \<or> \<not> is_word_char (hd b)"
          by (metis list.distinct(1))
      qed
      have "takeWhile is_word_char (r @ b) = ?t \<and> dropWhile is_word_char (r @ b) = ?d @ b"
      proof (cases "\<forall>x \<in> set r. is_word_char x")
        case all: True
        then have "is_word_char (last a)" using Cons True by (cases r) auto
        then have "b = [] \<or> \<not> is_word_char (hd b)" using 1(3) Cons by auto
        with all show ?thesis
          by (cases b) (auto simp: takeWhile_append dropWhile_append takeWhile_eq_all_conv[THEN iffD2])
      next
        case False
        then show ?thesis by (auto simp: takeWhile_append dropWhile_append)
      qed
      with IH Cons True show ?thesis by (simp add: word_runs_Cons)
    next
      case False
      have "word_runs (r @ b) = word_runs r @ word_runs b"
      proof (cases "r = []")
        case False
        then show ?thesis using 1(2)[OF Cons \<open>\<not> is_word_char c\<close>] 1(3) Cons by simp
      qed simp
      with False Cons show ?thesis by (simp add: word_runs_Cons)
    qed
  qed simp
qed

lemma word_runs_other: "\<forall>c \<in> set s. \<not> is_word_char c \<Longrightarrow> word_runs s = []"
  by (induction s) (simp_all add: word_runs_Cons)

lemma word_runs_skip: "word_runs (dropWhile (\<lambda>x. \<not> is_word_char x) s) = word_runs s"
  by (induction s) (simp_all add: word_runs_Cons)

lemma word_runs_drop:
  "word_runs (dropWhile is_word_char s) = (if s \<noteq> [] \<and> is_word_char (hd s) then tl (word_runs s) else word_runs s)"
  by (cases s) (simp_all add: word_runs_Cons)

lemma word_runs_collapse: "word_runs (collapse_other s) = word_runs s"
proof (induction s rule: collapse_other.induct)
  case (1 s)
  show ?case
  proof (cases s)
    case (Cons c r)
    have sp: "\<not> is_word_char (CHR '' '')" using word_char_nospace[of "CHR '' ''"] by auto
    show ?thesis
    proof (cases "is_word_char c")
      case True
      have same: "takeWhile is_word_char (collapse_other r) = takeWhile is_word_char r" for r
        by (induction r) (auto simp: collapse_Cons sp)
      have "word_runs (dropWhile is_word_char (collapse_other r)) = word_runs (dropWhile is_word_char r)"
        unfolding word_runs_drop 1(1)[OF Cons True] by (cases r) (auto simp: collapse_Cons sp)
      with True Cons same show ?thesis by (simp add: collapse_Cons word_runs_Cons)
    next
      case False
      then show ?thesis using 1(2)[OF Cons False] Cons by (simp add: collapse_Cons word_runs_Cons sp word_runs_skip)
    qed
  qed simp
qed

lemma word_runs_dropWhile_space: "word_runs (dropWhile is_space s) = word_runs s"
  using word_char_nospace by (induction s) (auto simp: word_runs_Cons)

lemma word_runs_trim: "word_runs (trim s) = word_runs s"
proof -
  have "word_runs (rtrim s) = word_runs s" for s
  proof -
    have s: "s = rtrim s @ rev (takeWhile is_space (rev s))"
      unfolding rtrim_def rev_append[symmetric] by simp
    have sp: "\<forall>c \<in> set (rev (takeWhile is_space (rev s))). \<not> is_word_char c"
      using word_char_nospace set_takeWhileD by fastforce
    then have "word_runs (rtrim s @ rev (takeWhile is_space (rev s))) = word_runs (rtrim s)"
      using word_runs_append[of "rtrim s" "rev (takeWhile is_space (rev s))"] word_runs_other[OF sp]
      by (metis append.right_neutral hd_in_set)
    with s show ?thesis by simp
  qed
  then show ?thesis by (simp add: trim_rtrim word_runs_dropWhile_space)
qed


lemma lower_not_word: "\<not> is_alnum c \<Longrightarrow> \<not> is_word_char (lower_char c)"
  by (auto simp: is_word_char_def lower_char_def is_alnum_def split: if_splits)

lemma camel_ends: "s \<noteq> [] \<Longrightarrow> camel_split s \<noteq> [] \<and> hd (camel_split s) = hd s \<and> last (camel_split s) = last s"
  by (induction s rule: camel_split.induct) auto

definition leak_words :: "string \<Rightarrow> string list" where
  "leak_words s = word_runs (normalizePublicLeakText s)"

lemma leak_words_runs: "leak_words s = word_runs (to_lower (camel_split s))"
  by (simp add: leak_words_def normalizePublicLeakText_def word_runs_trim word_runs_collapse)

lemma leak_words_append:
  assumes "a = [] \<or> b = [] \<or> \<not> is_alnum (last a) \<or> \<not> is_alnum (hd b)"
  shows "leak_words (a @ b) = leak_words a @ leak_words b"
proof (cases "a = [] \<or> b = []")
  case False
  then have sep: "\<not> is_alnum (last a) \<or> \<not> is_alnum (hd b)" using assms by auto
  then have "camel_split (a @ b) = camel_split a @ camel_split b"
    by (auto simp: camel_append is_word_char_def is_upper_def is_alnum_def)
  moreover have "\<not> is_word_char (last (to_lower (camel_split a))) \<or> \<not> is_word_char (hd (to_lower (camel_split b)))"
    using sep False camel_ends[of a] camel_ends[of b] by (auto simp: to_lower_def last_map hd_map lower_not_word)
  ultimately show ?thesis by (simp add: leak_words_runs word_runs_append)
qed (auto simp: leak_words_runs to_lower_def)

text \<open>A passage that stands between characters that are no letters or digits, or at the ends.\<close>

definition passage :: "string \<Rightarrow> string \<Rightarrow> bool" where
  "passage x s \<longleftrightarrow> (\<exists>a b. s = a @ x @ b \<and> (a = [] \<or> \<not> is_alnum (last a)) \<and> (b = [] \<or> \<not> is_alnum (hd b)))"

lemma passage_words: "passage x s \<Longrightarrow> \<exists>us vs. leak_words s = us @ leak_words x @ vs"
proof -
  assume "passage x s"
  then obtain a b where s: "s = a @ x @ b" and sep: "a = [] \<or> \<not> is_alnum (last a)" "b = [] \<or> \<not> is_alnum (hd b)"
    by (auto simp: passage_def)
  have "leak_words (x @ b) = leak_words x @ leak_words b" using sep(2) by (intro leak_words_append) auto
  moreover have "leak_words (a @ (x @ b)) = leak_words a @ leak_words (x @ b)" using sep(1) by (intro leak_words_append) auto
  ultimately show ?thesis using s by auto
qed

lemma word_runs_words: "w \<in> set (word_runs s) \<Longrightarrow> w \<noteq> [] \<and> (\<forall>c \<in> set w. is_word_char c)"
proof (induction s rule: word_runs.induct)
  case (1 s)
  show ?case
  proof (cases s)
    case (Cons c r)
    show ?thesis
    proof (cases "is_word_char c")
      case True
      then have "w = c # takeWhile is_word_char r \<or> w \<in> set (word_runs (dropWhile is_word_char r))"
        using 1(3) Cons by (simp add: word_runs_Cons)
      with 1(1)[OF Cons True] True show ?thesis by (metis list.distinct(1) set_ConsD set_takeWhileD)
    next
      case False
      with 1(2)[OF Cons False] 1(3) Cons show ?thesis by (simp add: word_runs_Cons)
    qed
  qed (use 1(3) in simp)
qed

lemma normalized_chars: "c \<in> set (normalizePublicLeakText s) \<Longrightarrow> is_word_char c \<or> c = CHR '' ''"
proof -
  assume "c \<in> set (normalizePublicLeakText s)"
  then have "c \<in> set (collapse_other (to_lower (camel_split s)))"
    by (auto simp: normalizePublicLeakText_def trim_def dest!: set_dropWhileD)
  then show ?thesis by (rule collapse_word_or_space)
qed

lemma split_words:
  assumes "\<forall>c \<in> set s. is_word_char c \<or> c = CHR '' ''"
  shows "filter (\<lambda>t. t \<noteq> []) (split_on (CHR '' '') s) = word_runs s \<and> filter (\<lambda>c. c \<noteq> CHR '' '') s = concat (word_runs s)"
  using assms
proof (induction s rule: word_runs.induct)
  case (1 s)
  show ?case
  proof (cases s)
    case (Cons c r)
    show ?thesis
    proof (cases "is_word_char c")
      case False
      with 1 Cons show ?thesis by (auto simp: word_runs_Cons)
    next
      case True
      let ?w = "c # takeWhile is_word_char r" and ?d = "dropWhile is_word_char r"
      have s: "s = ?w @ ?d" using Cons by simp
      have w: "CHR '' '' \<notin> set ?w" "filter (\<lambda>c. c \<noteq> CHR '' '') ?w = ?w"
        using True word_char_nospace by (auto dest: set_takeWhileD simp: filter_id_conv)
      have IH: "filter (\<lambda>t. t \<noteq> []) (split_on (CHR '' '') ?d) = word_runs ?d \<and> filter (\<lambda>c. c \<noteq> CHR '' '') ?d = concat (word_runs ?d)"
        using 1(1)[OF Cons True] 1(3) Cons by (auto dest: set_dropWhileD)
      have "filter (\<lambda>t. t \<noteq> []) (split_on (CHR '' '') s) = ?w # word_runs ?d"
      proof (cases ?d)
        case Nil
        then have "split_on (CHR '' '') s = [?w]" "word_runs ?d = []"
          using split_on_none[OF w(1)] s by (metis append_Nil2, metis word_runs_Nil)
        then show ?thesis by simp
      next
        case (Cons e r')
        then have "\<not> is_word_char e" using hd_dropWhile[of is_word_char r] by (metis list.distinct(1) list.sel(1))
        moreover have "e \<in> set s" using s Cons by (metis Un_iff list.set_intros(1) set_append)
        ultimately have e: "e = CHR '' ''" using 1(3) by auto
        have "split_on (CHR '' '') s = ?w # split_on (CHR '' '') r'" using split_on_append[OF w(1)] s Cons e by metis
        moreover have "filter (\<lambda>t. t \<noteq> []) (split_on (CHR '' '') ?d) = filter (\<lambda>t. t \<noteq> []) (split_on (CHR '' '') r')"
          using Cons e by simp
        ultimately show ?thesis using IH by simp
      qed
      moreover have "filter (\<lambda>c. c \<noteq> CHR '' '') s = ?w @ concat (word_runs ?d)"
        using s w(2) IH by (metis filter_append)
      ultimately show ?thesis using Cons True by (simp add: word_runs_Cons)
    qed
  qed simp
qed

lemma normalized_tokens: "filter (\<lambda>t. t \<noteq> []) (split_on (CHR '' '') (normalizePublicLeakText s)) = leak_words s"
  "compactPublicLeakText s = concat (leak_words s)"
  using split_words[of "normalizePublicLeakText s"] normalized_chars
  by (auto simp: leak_words_def compactPublicLeakText_def)

text \<open>A lower-case phrase is its own normal form, so the markers are compacted by dropping their spaces.\<close>

lemma camel_plain: "\<forall>c \<in> set m. \<not> is_upper c \<Longrightarrow> camel_split m = m"
  by (induction m rule: camel_split.induct) simp_all

lemma compact_plain:
  assumes "list_all (\<lambda>c. is_word_char c \<or> c = CHR '' '') m"
  shows "compactPublicLeakText m = filter (\<lambda>c. c \<noteq> CHR '' '') m"
proof -
  have space: "\<not> is_upper (CHR '' '')" by code_simp
  then have up: "\<forall>c \<in> set m. \<not> is_upper c"
    using assms by (auto simp: list_all_iff is_word_char_def)
  then have "camel_split m = m" by (rule camel_plain)
  moreover have "to_lower m = m"
    using up by (auto simp: to_lower_def lower_char_def is_upper_def intro!: map_idI)
  ultimately have "concat (leak_words m) = concat (word_runs m)" by (simp add: leak_words_runs)
  then show ?thesis using split_words[of m] assms by (simp add: normalized_tokens(2) list_all_iff)
qed

lemma glue_finds:
  assumes "length acc + length (concat us) = n" "\<forall>u \<in> set us. u \<noteq> []"
  shows "glue_tokens n acc (us @ rest) = acc @ concat us"
  using assms
proof (induction us arbitrary: acc)
  case Nil
  then show ?case by (cases rest) auto
next
  case (Cons u us)
  then have "length acc < n" by auto
  then show ?case using Cons by simp
qed

lemma marker_found:
  assumes "leak_words s = us @ xs @ vs" "concat xs = compactPublicLeakText m" "xs \<noteq> []"
  shows "containsCanonicalPublicLeakMarker s m"
proof -
  have "\<forall>u \<in> set xs. u \<noteq> []" using assms(1) word_runs_words[of _ "normalizePublicLeakText s"]
    by (metis UnCI leak_words_def set_append)
  then have "glue_tokens (length (compactPublicLeakText m)) [] (drop (length us) (leak_words s)) = compactPublicLeakText m"
    using glue_finds[of "[]" xs "length (compactPublicLeakText m)" vs] assms(1,2) by simp
  then show ?thesis
    using assms(1,3) unfolding containsCanonicalPublicLeakMarker_def Let_def normalized_tokens list_ex_iff
    by (intro bexI[of _ "length us"]) auto
qed

lemma window_shared:
  assumes "leak_words s = us @ xs @ vs" "leak_words f = us' @ xs @ vs'" "n \<le> length xs"
  shows "hasSharedForbiddenWordWindow (normalizePublicLeakText s) (normalizePublicLeakText f) n"
proof -
  have mem: "join_text '' '' (take n xs) \<in> set (word_windows n (normalizePublicLeakText t))"
    if "leak_words t = a @ xs @ b" for t a b
  proof -
    have "take n (drop (length a) (leak_words t)) = take n xs" using that assms(3) by simp
    moreover have "length a \<in> set [0..<length (leak_words t) - n + 1]" "\<not> length (leak_words t) < n"
      using that assms(3) by auto
    ultimately show ?thesis by (auto simp: word_windows_def leak_words_def[symmetric] Let_def image_iff intro!: bexI[of _ "length a"])
  qed
  then show ?thesis using assms(1,2) by (auto simp: hasSharedForbiddenWordWindow_def list_ex_iff)
qed

lemma guard_rejects:
  assumes "assertPublicReviewOutputSafe s fragments w = Inr ()"
  shows "m \<in> set PUBLIC_REVIEW_CONFIG_LEAK_MARKERS \<Longrightarrow> \<not> containsCanonicalPublicLeakMarker s m"
    and "f \<in> set fragments \<Longrightarrow> 12 \<le> length (normalizePublicLeakText f) \<Longrightarrow>
      \<not> str_includes (normalizePublicLeakText f) (normalizePublicLeakText s)"
    and "f \<in> set fragments \<Longrightarrow> 12 \<le> length (normalizePublicLeakText f) \<Longrightarrow> 2 \<le> w \<Longrightarrow>
      \<not> hasSharedForbiddenWordWindow (normalizePublicLeakText s) (normalizePublicLeakText f) w"
  using assms by (auto simp: assertPublicReviewOutputSafe_def Let_def list_ex_iff split: if_splits)

text \<open>C40: a text that passes the guard leaks nothing: it contains no forbidden fragment verbatim unless its words
  are shorter than twelve characters, no passage that spells a configuration marker in whatever case and
  punctuation, and no passage of a fragment that has as many words as the window.\<close>

theorem leak_guard_sound:
  assumes "assertPublicReviewOutputSafe s fragments w = Inr ()"
  shows "list_all (\<lambda>f. length (normalizePublicLeakText f) < 12 \<or>
      \<not> sublist f s \<and> (w < 2 \<or> (\<nexists>x. passage x f \<and> passage x s \<and> w \<le> length (leak_words x)))) fragments \<and>
    list_all (\<lambda>m. \<nexists>x. passage x s \<and> leak_words x \<noteq> [] \<and> concat (leak_words x) = concat (leak_words m))
      PUBLIC_REVIEW_CONFIG_LEAK_MARKERS"
proof (intro conjI)
  show "list_all (\<lambda>m. \<nexists>x. passage x s \<and> leak_words x \<noteq> [] \<and> concat (leak_words x) = concat (leak_words m))
      PUBLIC_REVIEW_CONFIG_LEAK_MARKERS"
    unfolding list_all_iff
  proof (intro ballI notI)
    fix m assume m: "m \<in> set PUBLIC_REVIEW_CONFIG_LEAK_MARKERS"
    assume "\<exists>x. passage x s \<and> leak_words x \<noteq> [] \<and> concat (leak_words x) = concat (leak_words m)"
    then obtain x where x: "passage x s" "leak_words x \<noteq> []" "concat (leak_words x) = compactPublicLeakText m"
      by (auto simp: normalized_tokens(2))
    obtain us vs where "leak_words s = us @ leak_words x @ vs" using passage_words[OF x(1)] by blast
    then have "containsCanonicalPublicLeakMarker s m" using x(3,2) by (rule marker_found)
    with guard_rejects(1)[OF assms m] show False by simp
  qed
  have "\<not> sublist f s \<and> (w < 2 \<or> (\<nexists>x. passage x f \<and> passage x s \<and> w \<le> length (leak_words x)))"
    if f: "f \<in> set fragments" "\<not> length (normalizePublicLeakText f) < 12" for f
  proof
    show "\<not> sublist f s"
    proof
      assume "sublist f s"
      then obtain a b where "s = a @ f @ b" by (auto simp: sublist_def)
      then have "str_includes (normalizePublicLeakText f) (normalizePublicLeakText s)"
        by (simp add: str_includes_sublist normalize_infix)
      then show False using guard_rejects(2)[OF assms f(1)] f(2) by simp
    qed
    show "w < 2 \<or> (\<nexists>x. passage x f \<and> passage x s \<and> w \<le> length (leak_words x))"
    proof (cases "w < 2")
      case False
      note w = False
      then have no: "\<not> hasSharedForbiddenWordWindow (normalizePublicLeakText s) (normalizePublicLeakText f) w"
        using guard_rejects(3)[OF assms f(1)] f(2) by simp
      have False if "passage x f" "passage x s" "w \<le> length (leak_words x)" for x
      proof -
      note x = that
      obtain us vs us' vs' where "leak_words s = us @ leak_words x @ vs" "leak_words f = us' @ leak_words x @ vs'"
        using passage_words x(1,2) by meson
      from window_shared[OF this x(3)] no show False by simp
      qed
      then show ?thesis by blast
    qed simp
  qed
  then show "list_all (\<lambda>f. length (normalizePublicLeakText f) < 12 \<or>
      \<not> sublist f s \<and> (w < 2 \<or> (\<nexists>x. passage x f \<and> passage x s \<and> w \<le> length (leak_words x)))) fragments"
    by (auto simp: list_all_iff)
qed


lemma join_text_append: "ys \<noteq> [] \<Longrightarrow> \<exists>z. join_text sep (xs @ ys) = z @ join_text sep ys"
proof (induction xs)
  case (Cons w ws)
  then obtain z where "join_text sep (ws @ ys) = z @ join_text sep ys" by blast
  moreover have "\<exists>v vs. ws @ ys = v # vs" using Cons.prems by (cases ws; cases ys) auto
  ultimately show ?case by auto
qed simp

lemma trim_parts: "\<exists>a b. l = a @ trim l @ b \<and> (\<forall>c \<in> set a. is_space c) \<and> (\<forall>c \<in> set b. is_space c)"
proof -
  let ?r = "dropWhile is_space l"
  have "l = takeWhile is_space l @ ?r" by simp
  moreover have "?r = trim l @ rev (takeWhile is_space (rev ?r))"
    unfolding trim_def rev_append[symmetric] by simp
  ultimately show ?thesis
    by (intro exI[of _ "takeWhile is_space l"] exI[of _ "rev (takeWhile is_space (rev ?r))"])
       (auto dest: set_takeWhileD)
qed

lemma space_no_word: "is_space c \<Longrightarrow> \<not> is_word_char c \<and> \<not> is_upper c"
  by (auto simp: is_word_char_def is_alnum_def is_digit_def is_space_def is_upper_def)

lemma camel_spaces: "\<forall>c \<in> set a. is_space c \<Longrightarrow> camel_split a = a"
  by (induction a rule: camel_split.induct) (auto dest: space_no_word)

lemma lower_spaces: "\<forall>c \<in> set a. is_space c \<Longrightarrow> \<forall>c \<in> set (to_lower a). \<not> is_word_char c"
  by (auto simp: to_lower_def is_space_def lower_char_def is_word_char_def is_alnum_def is_digit_def)

text \<open>White space around a text does not change its normal form.\<close>

lemma normalize_trim: "normalizePublicLeakText (trim l) = normalizePublicLeakText l"
proof -
  obtain a b where l: "l = a @ trim l @ b" and sp: "\<forall>c \<in> set a. is_space c" "\<forall>c \<in> set b. is_space c"
    using trim_parts by blast
  let ?x = "to_lower (camel_split (trim l))"
  have mid: "\<not> (a \<noteq> [] \<and> s \<noteq> [] \<and> is_word_char (last a) \<and> is_upper (hd s))"
    "\<not> (s \<noteq> [] \<and> b \<noteq> [] \<and> is_word_char (last s) \<and> is_upper (hd b))" for s
    using sp space_no_word by auto
  have "camel_split l = a @ camel_split (trim l) @ b"
    by (subst l) (simp only: camel_append mid if_False append_Nil camel_spaces[OF sp(1)] camel_spaces[OF sp(2)])
  then have "to_lower (camel_split l) = to_lower a @ ?x @ to_lower b" by simp
  moreover have "trim (collapse_other (to_lower a @ ?x @ to_lower b)) = trim (collapse_other (?x @ to_lower b))"
    using skip_append(1)[OF lower_spaces[OF sp(1)]] by (simp add: trim_rtrim collapse_drop)
  moreover have "trim (collapse_other (?x @ to_lower b)) = trim (collapse_other ?x)"
  proof -
    obtain z where z: "collapse_other (?x @ to_lower b) = collapse_other ?x @ z"
      "\<forall>c \<in> set z. is_word_char c \<longrightarrow> c \<in> set (to_lower b)" using collapse_append_right by blast
    have "\<forall>c \<in> set z. is_word_char c \<or> c = CHR '' ''"
      using collapse_word_or_space[of _ "?x @ to_lower b"] z(1) by auto
    then have "\<forall>c \<in> set z. is_space c" using z(2) lower_spaces[OF sp(2)] by (metis space_is_space)
    then show ?thesis unfolding z(1) by (rule trim_append_spaces)
  qed
  ultimately show ?thesis by (simp add: normalizePublicLeakText_def)
qed

text \<open>the risk lens of a repository that a prompt carried is never posted: a text that passes the guard with the
  fragments of that profile and prompt does not contain the lens, unless its words are shorter than twelve
  characters.\<close>

theorem prompted_lens_not_posted:
  assumes "rp_risk_lens profile = Some raw" "trim raw \<noteq> []" "lens_fits (trim raw) estimate"
    and "prompt = before @ buildRepoProfilePromptSection profile estimate @ after" "prompt \<in> set prompts"
    and "assertPublicReviewOutputSafe s (publicReviewForbiddenProfileFragments profile (Some prompts)) w = Inr ()"
    and "12 \<le> length (normalizePublicLeakText raw)"
  shows "\<not> sublist (trim raw) s"
proof -
  have "raw \<noteq> []" using assms(2) by (auto simp: trim_def)
  then have raw: "truthy (rp_risk_lens profile) = Some raw" using assms(1) by (simp add: truthy_def)
  obtain ls where "prompt_lines profile estimate = ls @ [LENS_LINE, trim raw]"
    using assms(3) by (auto simp: prompt_lines_def raw Let_def)
  then obtain z where "buildRepoProfilePromptSection profile estimate = z @ RENDERED_REVIEW_RISK_LENS_PREFIX @ trim raw"
    using join_text_append[of "[LENS_LINE, trim raw]" NL ls]
    by (auto simp: buildRepoProfilePromptSection_def RENDERED_REVIEW_RISK_LENS_PREFIX_def)
  then have "prompt = (before @ z) @ (RENDERED_REVIEW_RISK_LENS_PREFIX @ trim raw) @ after" using assms(4) by simp
  then have "sublist (RENDERED_REVIEW_RISK_LENS_PREFIX @ trim raw) prompt" by (simp only: sublist_appendI)
  then have inc: "list_ex (str_includes (RENDERED_REVIEW_RISK_LENS_PREFIX @ trim raw)) prompts"
    using assms(5) unfolding list_ex_iff str_includes_sublist by (rule bexI)
  have "raw \<in> set (publicReviewForbiddenProfileFragments profile (Some prompts))"
    unfolding publicReviewForbiddenProfileFragments_def Let_def assms(1) option.case
    using assms(2) by (simp del: list_ex_iff) (intro disjI2 disjI1 inc)
  with guard_rejects(2)[OF assms(6)] assms(7)
  have "\<not> str_includes (normalizePublicLeakText raw) (normalizePublicLeakText s)" by blast
  moreover have "sublist (normalizePublicLeakText raw) (normalizePublicLeakText s)" if "sublist (trim raw) s"
    using that normalize_infix normalize_trim by (metis sublist_def)
  ultimately show ?thesis by (auto simp: str_includes_sublist)
qed


section \<open>Examples\<close>

definition ex_files :: "string list" where
  "ex_files = [''Sources/A.swift'', ''Info.plist'', ''package.json'', ''Sources/gen/B.swift'', ''docs/x.md'']"

definition ex_profile :: repo_profile where
  "ex_profile = empty_profile\<lparr>rp_path_filters := Some [''Sources/**'', ''!**/gen/*''],
     rp_risk_lens := Some '' Watch the ledger. ''\<rparr>"

theorem shown_files_exact_witness:
  "filterPullFilesForProfile (\<lambda>f. f) ex_files ex_profile = [''Sources/A.swift'', ''package.json''] \<and>
   filter (\<lambda>f. shown_file (profile_filters ex_profile) f) ex_files = [''Sources/A.swift'', ''package.json'']"
proof -
  have "filterPullFilesForProfile (\<lambda>f. f) ex_files ex_profile = [''Sources/A.swift'', ''package.json'']" by code_simp
  moreover have "filterPullFilesForProfile (\<lambda>f. f) ex_files ex_profile = filter (\<lambda>f. shown_file (profile_filters ex_profile) f) ex_files"
    by (rule shown_files_exact[of "\<lambda>f. f", THEN conjunct1]) code_simp
  ultimately show ?thesis by metis
qed

definition ex_policy :: policy_config where
  "ex_policy = \<lparr>pc_pilot_repos = [], pc_profiles = Some \<lparr>reg_repos = Some [(''Acme/App'', ex_profile)],
     reg_org_fallbacks = Some [(''acme'', empty_profile\<lparr>rp_enabled := Some False\<rparr>)],
     reg_enable_org_fallbacks = Some True\<rparr>\<rparr>"

theorem registry_decides_witness:
  "resolveRepoProfile ex_policy ''acme/APP'' = Allowed (normalizeProfile ''Acme/App'' PS_explicit ex_profile)"
proof -
  have reg: "pc_profiles ex_policy = Some (the (pc_profiles ex_policy))" "hasProfileRegistry (Some (the (pc_profiles ex_policy)))"
    by (simp_all add: ex_policy_def hasProfileRegistry_def)
  have f: "findProfileByRepo (reg_repos (the (pc_profiles ex_policy))) ''acme/APP'' = Some (''Acme/App'', ex_profile)"
  proof -
    have "canonicalRepoName ''Acme/App'' = canonicalRepoName ''acme/APP''" by code_simp
    then show ?thesis by (simp add: ex_policy_def findProfileByRepo_def)
  qed
  have "rp_enabled ex_profile \<noteq> Some False" by code_simp
  then show ?thesis by (subst registry_decides[OF reg]) (simp add: f)
qed

definition ex_post :: string where
  "ex_post = ''Lock lost.''"

definition ex_lens :: string where
  "ex_lens = '' Watch the ledger. ''"

lemma ex_post_safe: "assertPublicReviewOutputSafe ex_post [ex_lens] 3 = Inr ()"
proof -
  have "leak_words ex_post = [''lock'', ''lost'']" unfolding leak_words_def by code_simp
  then have spelled: "containsCanonicalPublicLeakMarker ex_post m \<longleftrightarrow>
      glue_tokens (length (compactPublicLeakText m)) [] [''lock'', ''lost''] = compactPublicLeakText m \<or>
      glue_tokens (length (compactPublicLeakText m)) [] [''lost''] = compactPublicLeakText m" for m
    by (simp add: containsCanonicalPublicLeakMarker_def normalized_tokens(1) Let_def)
  have plain: "list_all (list_all (\<lambda>c. is_word_char c \<or> c = CHR '' '')) PUBLIC_REVIEW_CONFIG_LEAK_MARKERS"
    by (simp add: PUBLIC_REVIEW_CONFIG_LEAK_MARKERS_def is_word_char_def is_alnum_def is_digit_def is_upper_def char_code_def)
  have "list_all (\<lambda>m. 8 < length (filter (\<lambda>c. c \<noteq> CHR '' '') m)) PUBLIC_REVIEW_CONFIG_LEAK_MARKERS"
    by (simp add: PUBLIC_REVIEW_CONFIG_LEAK_MARKERS_def)
  with plain have "list_all (\<lambda>c. 8 < length c) (map compactPublicLeakText PUBLIC_REVIEW_CONFIG_LEAK_MARKERS)"
    by (simp add: list_all_iff compact_plain)
  then have "\<not> list_ex (containsCanonicalPublicLeakMarker ex_post) PUBLIC_REVIEW_CONFIG_LEAK_MARKERS"
    by (auto simp: list_all_iff list_ex_iff spelled dest!: arg_cong[of _ _ length])
  moreover have "\<not> str_includes (normalizePublicLeakText ex_lens) (normalizePublicLeakText ex_post)" by code_simp
  moreover have "normalizePublicLeakText ex_post = ''lock lost''" "normalizePublicLeakText ex_lens = ''watch the ledger''"
    by (code_simp+)
  moreover have "\<not> hasSharedForbiddenWordWindow ''lock lost'' ''watch the ledger'' 3" by code_simp
  ultimately show ?thesis by (simp add: assertPublicReviewOutputSafe_def Let_def)
qed

lemma ex_lens_long: "12 \<le> length (normalizePublicLeakText ex_lens)"
  by code_simp

theorem leak_guard_sound_witness:
  "\<not> sublist ex_lens ex_post \<and> \<not> (\<exists>x. passage x ex_lens \<and> passage x ex_post \<and> 3 \<le> length (leak_words x))"
  using leak_guard_sound[OF ex_post_safe] ex_lens_long by auto

definition ex_resolved :: resolved_profile where
  "ex_resolved = normalizeProfile ''Acme/App'' PS_explicit ex_profile"

theorem prompted_lens_not_posted_witness: "\<not> sublist (trim ex_lens) ex_post"
proof (rule prompted_lens_not_posted[where profile = ex_resolved and estimate = None and before = "[]" and after = "[]" and w = 3])
  show lens: "rp_risk_lens ex_resolved = Some ex_lens"
    by (simp add: ex_resolved_def normalizeProfile_def ex_profile_def ex_lens_def repo_profile.defs resolved_profile.defs)
  show ne: "trim ex_lens \<noteq> []" by code_simp
  show fits: "lens_fits (trim ex_lens) None" by code_simp
  show "buildRepoProfilePromptSection ex_resolved None \<in> set [buildRepoProfilePromptSection ex_resolved None]" by simp
  have "publicReviewForbiddenProfileFragments ex_resolved (Some [buildRepoProfilePromptSection ex_resolved None]) = [ex_lens]"
    by code_simp
  then show "assertPublicReviewOutputSafe ex_post (publicReviewForbiddenProfileFragments ex_resolved
      (Some [buildRepoProfilePromptSection ex_resolved None])) 3 = Inr ()" by (simp add: ex_post_safe)
qed (simp_all add: ex_lens_long)

end
