(* ===== verification/AuthorGate.thy ===== *)
theory AuthorGate
  imports Authorizations
begin

text \<open>
  Who may have a pull request reviewed (\<open>src/public-repo-author-gate.ts\<close>, the skips of \<open>src/worker.ts\<close>) and which repositories a
  licence covers (\<open>authorizeAdmissionForVisibility\<close> of \<open>src/license-admission.ts\<close>). Both fail closed: a repository whose
  visibility is not known to be private counts as public, and one that is not known at all is not covered.
\<close>

section \<open>Data\<close>

datatype visibility_flag = VF_public | VF_private | VF_internal

datatype repository_visibility = RepoPublic | RepoPrivate | RepoUnknown

record pull_summary =
  ps_number :: int
  ps_draft :: bool
  ps_state :: "string option"
  ps_head :: string
  ps_base :: string
  ps_private :: "bool option"
  ps_visibility :: "visibility_flag option"
  ps_author_association :: "string option"
  ps_author_login :: "string option"

datatype gate_mode = GM_auto | GM_on | GM_off

text \<open>\<open>untrustedAuthorReview\<close>: \<open>Some p\<close> is the mode \<open>provider\<close> with its provider.\<close>

record author_gate =
  ag_mode :: gate_mode
  ag_associations :: "string list"
  ag_logins :: "string list"
  ag_lane :: "string option option"

text \<open>The part of the configuration and of the process environment the gate reads: \<open>gs_api_key_only\<close> is the answer of
  \<open>codexChildUsesApiKeyOnly\<close>, which looks at environment variables and a login file.\<close>

record gate_settings =
  gs_gate :: "author_gate option"
  gs_codex_enabled :: bool
  gs_api_key_only :: bool

definition DEFAULT_PUBLIC_REPO_AUTHOR_GATE :: author_gate where
  "DEFAULT_PUBLIC_REPO_AUTHOR_GATE = \<lparr>ag_mode = GM_auto, ag_associations = [''OWNER'', ''MEMBER'', ''COLLABORATOR''],
     ag_logins = [''dependabot[bot]'', ''renovate[bot]''], ag_lane = None\<rparr>"

section \<open>The gate\<close>

definition visibilityFromRepositoryFlags :: "bool option \<Rightarrow> visibility_flag option \<Rightarrow> repository_visibility" where
  "visibilityFromRepositoryFlags private visibility =
     (if private = Some True \<or> visibility = Some VF_private \<or> visibility = Some VF_internal then RepoPrivate
      else if visibility = Some VF_public \<or> private = Some False then RepoPublic
      else RepoUnknown)"

definition visibilityFromPullSummary :: "'a pull_summary_scheme \<Rightarrow> repository_visibility" where
  "visibilityFromPullSummary pull = visibilityFromRepositoryFlags (ps_private pull) (ps_visibility pull)"

definition settings_gate :: "gate_settings \<Rightarrow> author_gate" where
  "settings_gate c = (case gs_gate c of None \<Rightarrow> DEFAULT_PUBLIC_REPO_AUTHOR_GATE | Some g \<Rightarrow> g)"

definition matchesTrustedAuthor :: "gate_settings \<Rightarrow> string option \<Rightarrow> string option \<Rightarrow> bool" where
  "matchesTrustedAuthor config association login \<longleftrightarrow>
     (case truthy association of None \<Rightarrow> False | Some a \<Rightarrow> a \<in> set (ag_associations (settings_gate config))) \<or>
     (case truthy login of None \<Rightarrow> False
      | Some l \<Rightarrow> list_ex (\<lambda>x. to_lower x = to_lower l) (ag_logins (settings_gate config)))"

definition isPublicRepoAuthorGateEnabled :: "gate_settings \<Rightarrow> bool" where
  "isPublicRepoAuthorGateEnabled config \<longleftrightarrow> ag_mode (settings_gate config) = GM_on \<or>
     (ag_mode (settings_gate config) = GM_auto \<and> gs_codex_enabled config \<and> \<not> gs_api_key_only config)"

definition isAuthorBlockedOnPublicRepo :: "gate_settings \<Rightarrow> string option \<Rightarrow> string option \<Rightarrow> repository_visibility \<Rightarrow> bool" where
  "isAuthorBlockedOnPublicRepo config association login visibility =
     (if \<not> isPublicRepoAuthorGateEnabled config \<or> visibility = RepoPrivate then False
      else \<not> matchesTrustedAuthor config association login)"

definition isUntrustedPublicAuthor :: "gate_settings \<Rightarrow> 'a pull_summary_scheme \<Rightarrow> repository_visibility \<Rightarrow> bool" where
  "isUntrustedPublicAuthor config pull visibility \<longleftrightarrow> visibility \<noteq> RepoPrivate \<and>
     \<not> matchesTrustedAuthor config (ps_author_association pull) (ps_author_login pull)"

definition isPublicRepoAuthorBlocked :: "gate_settings \<Rightarrow> 'a pull_summary_scheme \<Rightarrow> repository_visibility \<Rightarrow> bool" where
  "isPublicRepoAuthorBlocked config pull visibility =
     isAuthorBlockedOnPublicRepo config (ps_author_association pull) (ps_author_login pull) visibility"

definition untrustedAuthorReviewProviderId :: "gate_settings \<Rightarrow> string option" where
  "untrustedAuthorReviewProviderId config = Option.bind (gs_gate config) (\<lambda>g. Option.bind (ag_lane g) (\<lambda>p. p))"

definition isRoutedToUntrustedProvider :: "gate_settings \<Rightarrow> string option \<Rightarrow> string option \<Rightarrow> repository_visibility \<Rightarrow> bool" where
  "isRoutedToUntrustedProvider config association login visibility \<longleftrightarrow>
     isAuthorBlockedOnPublicRepo config association login visibility \<and> untrustedAuthorReviewProviderId config \<noteq> None"

section \<open>Skips of a head\<close>

definition gate_skip_record :: "string \<Rightarrow> int \<Rightarrow> string \<Rightarrow> author_gate_reason \<Rightarrow> processed_review_record" where
  "gate_skip_record repo pull head reason = \<lparr>pr_repo = repo, pr_pull = pull, pr_head = head, pr_status = P_skipped,
     pr_config_revision = None, pr_base_ref = None, pr_base_sha = None, pr_diff_fingerprint = None, pr_carried_from_head = None,
     pr_event = None, pr_review_url = None, pr_error = Some (author_gate_text reason)\<rparr>"

definition gate_skip_readiness :: "string \<Rightarrow> int \<Rightarrow> string \<Rightarrow> author_gate_reason \<Rightarrow> int \<Rightarrow> readiness_input" where
  "gate_skip_readiness repo pull head reason now = \<lparr>ri_repo = repo, ri_pull = pull, ri_head = head, ri_state = R_skipped,
     ri_reason = Some (author_gate_text reason), ri_event = None, ri_review_url = None, ri_command_action = None,
     ri_command_comment_id = None, ri_clear_command = False, ri_now = now\<rparr>"

text \<open>A skip is recorded for a head without a record or with a failed one.\<close>

definition record_gate_skip :: "host \<Rightarrow> string \<Rightarrow> int \<Rightarrow> string \<Rightarrow> author_gate_reason \<Rightarrow> processed_row option \<Rightarrow> int \<Rightarrow> db \<Rightarrow> unit outcome" where
  "record_gate_skip h repo pull head reason existing clock d =
     (if (case existing of None \<Rightarrow> True | Some p \<Rightarrow> pr_status p = P_failed)
      then (case recordReviewReadiness h (gate_skip_readiness repo pull head reason clock)
                   (recordProcessed (gate_skip_record repo pull head reason) clock d) of
              (Inl e, d1) \<Rightarrow> (Inl e, d1) | (Inr _, d1) \<Rightarrow> (Inr (), d1))
      else (Inr (), d))"

definition recordPublicRepoAuthorGateSkip ::
  "host \<Rightarrow> gate_settings \<Rightarrow> string \<Rightarrow> 'a pull_summary_scheme \<Rightarrow> repository_visibility \<Rightarrow> int \<Rightarrow> db \<Rightarrow> bool outcome" where
  "recordPublicRepoAuthorGateSkip h config repo pull visibility clock d =
     (let found = getProcessedReview repo (ps_number pull) (ps_head pull) d;
          alreadySkipped = (case found of None \<Rightarrow> False
            | Some p \<Rightarrow> pr_status p = P_skipped \<and> pr_error p = Some (author_gate_text AG_untrusted_author_public_repo));
          routed = isRoutedToUntrustedProvider config (ps_author_association pull) (ps_author_login pull) visibility;
          cleared = (if Option.bind found pr_error = Some (author_gate_text AG_untrusted_author_provider_unavailable) \<and> \<not> routed
            then clearAuthorGateSkip repo (ps_number pull) (ps_head pull) AG_untrusted_author_provider_unavailable d
            else (False, d));
          existing = (if fst cleared then None else found); d1 = snd cleared
      in if \<not> isPublicRepoAuthorBlocked config pull visibility \<or> routed
         then (let d2 = (if alreadySkipped
                   then snd (clearAuthorGateSkip repo (ps_number pull) (ps_head pull) AG_untrusted_author_public_repo d1) else d1);
                   d3 = (if (case existing of None \<Rightarrow> False | Some p \<Rightarrow> pr_status p = P_skipped \<and>
                               pr_error p = Some (author_gate_text AG_untrusted_author_restricted_unavailable)) \<and>
                             (routed \<or> \<not> isUntrustedPublicAuthor config pull visibility)
                   then snd (clearAuthorGateSkip repo (ps_number pull) (ps_head pull) AG_untrusted_author_restricted_unavailable d2) else d2)
               in (Inr False, d3))
         else if alreadySkipped then (Inr True, d1)
         else (case record_gate_skip h repo (ps_number pull) (ps_head pull) AG_untrusted_author_public_repo existing clock d1 of
             (Inl e, d2) \<Rightarrow> (Inl e, d2) | (Inr _, d2) \<Rightarrow> (Inr True, d2)))"

definition recordRestrictedReviewUnavailable ::
  "host \<Rightarrow> string \<Rightarrow> int \<Rightarrow> string \<Rightarrow> author_gate_reason \<Rightarrow> int \<Rightarrow> db \<Rightarrow> author_gate_reason outcome" where
  "recordRestrictedReviewUnavailable h repo pull head reason clock d =
     (case record_gate_skip h repo pull head reason (getProcessedReview repo pull head d) clock d of
        (Inl e, d1) \<Rightarrow> (Inl e, d1) | (Inr _, d1) \<Rightarrow> (Inr reason, d1))"

section \<open>Licence admission\<close>

datatype license_operation = LO_review_discovery | LO_review_cycle | LO_provider_verify | LO_provider_smoke | LO_daemon_cycle
  | LO_issue_enrichment | LO_update_check

datatype visibility_scope = VS_public | VS_private | VS_all

text \<open>\<open>la_minted\<close> says whether the admission is one that live validation has issued (the weak set of the module).\<close>

record license_admission =
  la_minted :: bool
  la_operation :: license_operation
  la_scope :: visibility_scope
  la_private_allowed :: bool

datatype license_refusal = LR_not_minted | LR_other_operation | LR_network | LR_scope_mismatch

definition isAuthenticProductionLicenseAdmission :: "license_admission \<Rightarrow> license_operation option \<Rightarrow> bool" where
  "isAuthenticProductionLicenseAdmission admission operation \<longleftrightarrow> la_minted admission \<and>
     (operation = None \<or> Some (la_operation admission) = operation)"

definition authorizeAdmissionForVisibility ::
  "license_admission \<Rightarrow> repository_visibility \<Rightarrow> license_operation option \<Rightarrow> license_refusal + unit" where
  "authorizeAdmissionForVisibility admission visibility expectedOperation =
     (if \<not> isAuthenticProductionLicenseAdmission admission None then Inl LR_not_minted
      else if expectedOperation \<noteq> None \<and> Some (la_operation admission) \<noteq> expectedOperation then Inl LR_other_operation
      else (let covered = (case visibility of
                RepoPublic \<Rightarrow> la_scope admission = VS_public \<or> la_scope admission = VS_private \<or> la_scope admission = VS_all
              | RepoPrivate \<Rightarrow> la_private_allowed admission \<and> (la_scope admission = VS_private \<or> la_scope admission = VS_all)
              | RepoUnknown \<Rightarrow> False)
            in if covered then Inr ()
               else Inl (if visibility = RepoUnknown then LR_network else LR_scope_mismatch)))"


section \<open>What the gate does to a head\<close>

lemma mapped_row [simp]: "pr_status (mapProcessedReviewRow r) = pr_status r" "pr_error (mapProcessedReviewRow r) = truthy (pr_error r)"
  by (simp_all add: mapProcessedReviewRow_def)

lemma gate_text_truthy [simp]: "truthy e = Some (author_gate_text r) \<longleftrightarrow> e = Some (author_gate_text r)"
  by (cases r) (auto simp: truthy_def split: option.splits if_splits)

lemma gate_text_inj [simp]: "author_gate_text a = author_gate_text b \<longleftrightarrow> a = b"
  by (cases a; cases b) simp_all

definition pinned_by :: "string \<Rightarrow> int \<Rightarrow> string \<Rightarrow> author_gate_reason \<Rightarrow> db \<Rightarrow> bool" where
  "pinned_by repo pull head reason d \<longleftrightarrow> (case getProcessedReview repo pull head d of None \<Rightarrow> False
     | Some p \<Rightarrow> pr_status p = P_skipped \<and> pr_error p = Some (author_gate_text reason))"

lemma cleared_not_pinned:
  "\<not> pinned_by repo pull head reason (snd (clearAuthorGateSkip repo pull head reason d))"
proof -
  have "r \<in> set rows \<Longrightarrow> find P rows = Some x \<Longrightarrow> x \<in> set rows" for r x rows P by (auto simp: find_Some_iff)
  then show ?thesis
    by (auto simp: pinned_by_def clearAuthorGateSkip_def getProcessedReview_def row_get_def row_delete_def Let_def find_Some_iff
        split: option.splits)
      (metis (mono_tags, lifting) mem_Collect_eq nth_mem set_filter)
qed

lemma clear_keeps_other:
  assumes "\<not> pinned_by repo pull head reason d" "unique_rows pr_key (processed d)"
  shows "snd (clearAuthorGateSkip repo pull head reason d) = d" "\<not> fst (clearAuthorGateSkip repo pull head reason d)"
proof -
  let ?P = "\<lambda>r. pr_key r = (repo, pull, head) \<and> pr_status r = P_skipped \<and> pr_error r = Some (author_gate_text reason)"
  have "\<not> ?P r" if "r \<in> set (processed d)" for r
  proof
    assume "?P r"
    then have "row_get pr_key (repo, pull, head) (processed d) = Some r"
      using assms(2) that by (metis unique_rows_get)
    with \<open>?P r\<close> assms(1) show False by (simp add: pinned_by_def getProcessedReview_def)
  qed
  then show "snd (clearAuthorGateSkip repo pull head reason d) = d" "\<not> fst (clearAuthorGateSkip repo pull head reason d)"
    by (simp_all add: clearAuthorGateSkip_def Let_def row_delete_def row_count_def filter_id_conv)
qed

lemma clear_pinned:
  assumes "pinned_by repo pull head reason d" "unique_rows pr_key (processed d)"
  shows "fst (clearAuthorGateSkip repo pull head reason d)"
    "getProcessedReview repo pull head (snd (clearAuthorGateSkip repo pull head reason d)) = None"
proof -
  let ?P = "\<lambda>r. pr_key r = (repo, pull, head) \<and> pr_status r = P_skipped \<and> pr_error r = Some (author_gate_text reason)"
  obtain r where r: "row_get pr_key (repo, pull, head) (processed d) = Some r" "?P r"
    using assms(1) by (auto simp: pinned_by_def getProcessedReview_def split: option.splits dest: row_get_SomeD)
  then have "r \<in> set (processed d)" by (auto dest: row_get_SomeD)
  with r(2) show "fst (clearAuthorGateSkip repo pull head reason d)"
    by (auto simp: clearAuthorGateSkip_def Let_def row_count_def filter_empty_conv)
  have "?P x" if "x \<in> set (processed d)" "pr_key x = (repo, pull, head)" for x
    using that r assms(2) by (metis unique_rows_get option.inject)
  then have "row_delete ?P (processed d) = row_delete (\<lambda>r. pr_key r = (repo, pull, head)) (processed d)"
    by (auto simp: row_delete_def intro: filter_cong)
  then show "getProcessedReview repo pull head (snd (clearAuthorGateSkip repo pull head reason d)) = None"
    by (simp add: clearAuthorGateSkip_def Let_def getProcessedReview_def table_simps)
qed

lemma unique_after_clear: "unique_rows pr_key (processed d) \<Longrightarrow> unique_rows pr_key (processed (snd (clearAuthorGateSkip repo pull head reason d)))"
  by (simp add: clearAuthorGateSkip_def Let_def unique_rows_delete)

lemma record_gate_skip_effect:
  assumes "record_gate_skip h repo pull head reason existing clock d = (Inr (), d')"
  shows "(existing = None \<or> pr_status (the existing) = P_failed) \<and> (case getProcessedReview repo pull head d of None \<Rightarrow> True | Some p \<Rightarrow> pr_status p \<noteq> P_posted)
      \<longrightarrow> pinned_by repo pull head reason d'"
    "existing \<noteq> None \<Longrightarrow> pr_status (the existing) \<noteq> P_failed \<Longrightarrow> d' = d"
proof -
  have keep: "processed (snd (recordReviewReadiness h ri dd)) = processed dd" for ri dd
    by (simp add: recordReviewReadiness_def Let_def split: option.split)
  have key: "pr_key (gate_skip_record repo pull head reason) = (repo, pull, head)" by (simp add: gate_skip_record_def pr_key_def)
  show "existing \<noteq> None \<Longrightarrow> pr_status (the existing) \<noteq> P_failed \<Longrightarrow> d' = d"
    using assms by (auto simp: record_gate_skip_def split: option.splits)
  have fields: "pr_status (gate_skip_record repo pull head reason) = P_skipped"
    "pr_error (gate_skip_record repo pull head reason) = Some (author_gate_text reason)"
    by (simp_all add: gate_skip_record_def)
  have base: "author_gate_text reason \<noteq> BASE_MERGE_ONLY" by (cases reason) (simp_all add: BASE_MERGE_ONLY_def)
  show "(existing = None \<or> pr_status (the existing) = P_failed) \<and> (case getProcessedReview repo pull head d of None \<Rightarrow> True | Some p \<Rightarrow> pr_status p \<noteq> P_posted)
      \<longrightarrow> pinned_by repo pull head reason d'"
  proof
    assume "(existing = None \<or> pr_status (the existing) = P_failed) \<and> (case getProcessedReview repo pull head d of None \<Rightarrow> True | Some p \<Rightarrow> pr_status p \<noteq> P_posted)"
    then have "processed d' = processed (recordProcessed (gate_skip_record repo pull head reason) clock d)"
      using assms keep[of "gate_skip_readiness repo pull head reason clock" "recordProcessed (gate_skip_record repo pull head reason) clock d"]
      by (auto simp: record_gate_skip_def split: option.splits prod.splits sum.splits)
    then show "pinned_by repo pull head reason d'"
      by (auto simp: pinned_by_def getProcessedReview_def recordProcessed_row key base fields merge_processed_def split: option.split)
  qed
qed


lemma author_gate_iff:
  assumes "recordPublicRepoAuthorGateSkip h config repo pull visibility clock d = (Inr turnedAway, d')"
  shows "turnedAway \<longleftrightarrow> isPublicRepoAuthorGateEnabled config \<and> visibility \<noteq> RepoPrivate \<and>
    \<not> matchesTrustedAuthor config (ps_author_association pull) (ps_author_login pull) \<and> untrustedAuthorReviewProviderId config = None"
proof -
  have "turnedAway \<longleftrightarrow> isPublicRepoAuthorBlocked config pull visibility \<and>
      \<not> isRoutedToUntrustedProvider config (ps_author_association pull) (ps_author_login pull) visibility"
    using assms(1) by (auto simp: recordPublicRepoAuthorGateSkip_def Let_def split: if_splits prod.splits sum.splits)
  then show ?thesis
    by (auto simp: isPublicRepoAuthorBlocked_def isRoutedToUntrustedProvider_def isAuthorBlockedOnPublicRepo_def)
qed

text \<open>C18: the gate turns a pull request away exactly when it is enabled, the repository is not known to be private, the author is
  not trusted, and no separate provider is set for such authors. Then a posted or dry-run record of the head stays as it
  is, and a head without a record or with a failed one is pinned as skipped. When the pull request is let through because
  the author is trusted or the repository private, no skip of the gate pins the head any more.\<close>

theorem author_gate_decides:
  assumes "recordPublicRepoAuthorGateSkip h config repo pull visibility clock d = (Inr turnedAway, d')" "unique_rows pr_key (processed d)"
  shows "(turnedAway \<longleftrightarrow> isPublicRepoAuthorGateEnabled config \<and> visibility \<noteq> RepoPrivate \<and>
        \<not> matchesTrustedAuthor config (ps_author_association pull) (ps_author_login pull) \<and> untrustedAuthorReviewProviderId config = None) \<and>
    (turnedAway \<longrightarrow> (case getProcessedReview repo (ps_number pull) (ps_head pull) d of
        None \<Rightarrow> pinned_by repo (ps_number pull) (ps_head pull) AG_untrusted_author_public_repo d'
      | Some p \<Rightarrow> if pr_status p = P_failed then pinned_by repo (ps_number pull) (ps_head pull) AG_untrusted_author_public_repo d'
          else pr_status p \<noteq> P_skipped \<longrightarrow> getProcessedReview repo (ps_number pull) (ps_head pull) d' = Some p)) \<and>
    (matchesTrustedAuthor config (ps_author_association pull) (ps_author_login pull) \<or> visibility = RepoPrivate \<longrightarrow>
      \<not> pinned_by repo (ps_number pull) (ps_head pull) reason d')"
proof (intro conjI impI)
  let ?key = "(repo, ps_number pull, ps_head pull)"
  let ?found = "getProcessedReview repo (ps_number pull) (ps_head pull) d"
  let ?trusted = "matchesTrustedAuthor config (ps_author_association pull) (ps_author_login pull)"
  let ?pin = "\<lambda>r. pinned_by repo (ps_number pull) (ps_head pull) r"
  let ?clear = "\<lambda>r. clearAuthorGateSkip repo (ps_number pull) (ps_head pull) r"
  let ?routed = "isRoutedToUntrustedProvider config (ps_author_association pull) (ps_author_login pull) visibility"
  let ?blocked = "isPublicRepoAuthorBlocked config pull visibility"
  have iff: "turnedAway \<longleftrightarrow> ?blocked \<and> \<not> ?routed"
    using assms(1) by (auto simp: recordPublicRepoAuthorGateSkip_def Let_def split: if_splits prod.splits sum.splits)
  show "turnedAway = (isPublicRepoAuthorGateEnabled config \<and> visibility \<noteq> RepoPrivate \<and> \<not> ?trusted \<and>
      untrustedAuthorReviewProviderId config = None)"
    by (rule author_gate_iff[OF assms(1)])
  show "case ?found of None \<Rightarrow> ?pin AG_untrusted_author_public_repo d'
      | Some p \<Rightarrow> if pr_status p = P_failed then ?pin AG_untrusted_author_public_repo d'
          else pr_status p \<noteq> P_skipped \<longrightarrow> getProcessedReview repo (ps_number pull) (ps_head pull) d' = Some p" if turnedAway
  proof (cases "\<exists>p. ?found = Some p \<and> pr_status p = P_skipped")
    case True
    then show ?thesis by auto
  next
    case False
    then have nopin: "\<not> ?pin r d" for r by (auto simp: pinned_by_def split: option.splits)
    note same = clear_keeps_other[OF nopin assms(2)]
    have "record_gate_skip h repo (ps_number pull) (ps_head pull) AG_untrusted_author_public_repo ?found clock d = (Inr (), d')"
      using assms(1) that iff False
      by (auto simp: recordPublicRepoAuthorGateSkip_def Let_def same split: if_splits option.splits prod.splits sum.splits)
    note effect = record_gate_skip_effect[OF this]
    show ?thesis
      using effect by (cases ?found) auto
  qed
  show "\<not> ?pin reason d'" if "?trusted \<or> visibility = RepoPrivate"
  proof -
    have free: "\<not> ?blocked" "\<not> ?routed" "\<not> isUntrustedPublicAuthor config pull visibility"
      using that by (auto simp: isPublicRepoAuthorBlocked_def isRoutedToUntrustedProvider_def isAuthorBlockedOnPublicRepo_def isUntrustedPublicAuthor_def)
    show ?thesis
    proof (cases "\<exists>r. ?pin r d")
      case True
      then obtain r where r: "?pin r d" ..
      then obtain p where p: "?found = Some p" "pr_status p = P_skipped" "pr_error p = Some (author_gate_text r)"
        by (auto simp: pinned_by_def split: option.splits)
      have "getProcessedReview repo (ps_number pull) (ps_head pull) d' = None"
        using assms(1) clear_pinned[OF r assms(2)] p free
        by (cases r) (simp_all add: recordPublicRepoAuthorGateSkip_def Let_def)
      then show ?thesis by (simp add: pinned_by_def)
    next
      case False
      then have "d' = d"
        using assms(1) free clear_keeps_other[OF _ assms(2)]
        by (auto simp: recordPublicRepoAuthorGateSkip_def Let_def pinned_by_def split: if_splits option.splits)
      with False show ?thesis by simp
    qed
  qed
qed

text \<open>An admission that covers a repository was issued by live validation for this operation, and the visibility is known.\<close>

lemma admission_covers:
  assumes "authorizeAdmissionForVisibility admission visibility (Some operation) = Inr ()"
  shows "la_minted admission" "la_operation admission = operation" "visibility \<noteq> RepoUnknown"
    "visibility = RepoPrivate \<Longrightarrow> la_private_allowed admission \<and> la_scope admission \<noteq> VS_public"
  using assms by (auto simp: authorizeAdmissionForVisibility_def isAuthenticProductionLicenseAdmission_def Let_def
      split: if_splits repository_visibility.splits)

section \<open>Example\<close>

definition ex_gate_host :: host where
  "ex_gate_host = \<lparr>date_parse = (\<lambda>_. None), iso_string = (\<lambda>_. []), redact = (\<lambda>s. s), alive = (\<lambda>_. True)\<rparr>"

definition ex_stranger :: pull_summary where
  "ex_stranger = \<lparr>ps_number = 4, ps_draft = False, ps_state = Some ''open'', ps_head = ''h4'', ps_base = ''b'', ps_private = None,
     ps_visibility = Some VF_public, ps_author_association = Some ''NONE'', ps_author_login = Some ''mallory''\<rparr>"

definition ex_gate_settings :: gate_settings where
  "ex_gate_settings = \<lparr>gs_gate = None, gs_codex_enabled = True, gs_api_key_only = False\<rparr>"

lemma ex_gate_call: "fst (recordPublicRepoAuthorGateSkip ex_gate_host ex_gate_settings ''a/b'' ex_stranger RepoPublic 0 empty_db) = Inr True"
  by code_simp

theorem author_gate_decides_witness:
  "pinned_by ''a/b'' 4 ''h4'' AG_untrusted_author_public_repo
     (snd (recordPublicRepoAuthorGateSkip ex_gate_host ex_gate_settings ''a/b'' ex_stranger RepoPublic 0 empty_db))"
proof -
  obtain d' where call: "recordPublicRepoAuthorGateSkip ex_gate_host ex_gate_settings ''a/b'' ex_stranger RepoPublic 0 empty_db = (Inr True, d')"
    using ex_gate_call by (cases "recordPublicRepoAuthorGateSkip ex_gate_host ex_gate_settings ''a/b'' ex_stranger RepoPublic 0 empty_db") auto
  have "getProcessedReview ''a/b'' 4 ''h4'' empty_db = None" "ps_number ex_stranger = 4" "ps_head ex_stranger = ''h4''"
    by (simp_all add: getProcessedReview_def empty_db_def ex_stranger_def)
  moreover have "unique_rows pr_key (processed empty_db)" by (simp add: empty_db_def)
  ultimately show ?thesis using author_gate_decides[OF call, of AG_untrusted_author_public_repo] by (simp add: call)
qed

end
