(* ===== verification/ProviderCooldown.thy ===== *)
theory ProviderCooldown
  imports ProcessedReviews Texts
begin

text \<open>
  Provider errors and cooldowns (\<open>src/worker.ts\<close>, \<open>src/state.ts\<close>): how an error is classified, how long its
  cooldown lasts, how the cooldown of a repository and of a head are stored, how a failed review is recorded,
  and that the text recorded for a head is read back as it was written, which the backoff relies on.
\<close>

section \<open>Classification\<close>

datatype provider_category = PC_request_rate_limit | PC_overloaded | PC_quota_exhausted | PC_model_output_schema | PC_none

record provider_classification =
  pk_category :: provider_category
  pk_provider_code :: "string option"
  pk_request_id :: "string option"
  pk_retry_after_ms :: "int option"
  pk_reason :: string
  pk_retryable :: bool
  pk_cooldown :: bool

text \<open>The readings of a message that come from other files or from the clock: the removal of the fetch cause chain,
  the test for a schema failure, and the \<open>retry-after\<close> value.\<close>

record error_reader =
  er_strip_causes :: "string \<Rightarrow> string"
  er_schema_failure :: "string \<Rightarrow> bool"
  er_retry_after_ms :: "string \<Rightarrow> int option"

definition QUOTE :: char where "QUOTE = CHR 0x27"
definition DQUOTE :: char where "DQUOTE = CHR 0x22"

definition is_quote :: "char \<Rightarrow> bool" where
  "is_quote c \<longleftrightarrow> c = QUOTE \<or> c = DQUOTE"

text \<open>The first suffix at which a pattern matches.\<close>

fun find_at :: "(string \<Rightarrow> string option) \<Rightarrow> string \<Rightarrow> string option" where
  "find_at p [] = p []"
| "find_at p (c # s) = (case p (c # s) of Some x \<Rightarrow> Some x | None \<Rightarrow> find_at p s)"

definition after_prefix :: "string \<Rightarrow> string \<Rightarrow> string option" where
  "after_prefix p s = (if starts_with p s then Some (drop (length p) s) else None)"

definition four_digits :: "string \<Rightarrow> (string \<times> string) option" where
  "four_digits s = (if 4 \<le> length s \<and> list_all is_digit (take 4 s) then Some (take 4 s, drop 4 s) else None)"

definition skip_quote :: "string \<Rightarrow> string" where
  "skip_quote s = (case s of [] \<Rightarrow> [] | c # r \<Rightarrow> if is_quote c then r else s)"

text \<open>\<open>/providerCode:\s*['"]?(\d{4})['"]?/\<close>, \<open>/"code"\s*:\s*"(\d{4})"/\<close> and \<open>/\[(\d{4})\]/\<close>.\<close>

definition code_pattern_1 :: "string \<Rightarrow> string option" where
  "code_pattern_1 s = (case after_prefix ''providerCode:'' s of None \<Rightarrow> None
     | Some r \<Rightarrow> map_option fst (four_digits (skip_quote (dropWhile is_space r))))"

definition code_pattern_2 :: "string \<Rightarrow> string option" where
  "code_pattern_2 s = (case after_prefix (DQUOTE # ''code'' @ [DQUOTE]) s of None \<Rightarrow> None
     | Some r \<Rightarrow> (case dropWhile is_space r of
         c # r1 \<Rightarrow> if c \<noteq> CHR '':'' then None
           else (case dropWhile is_space r1 of
               q # r2 \<Rightarrow> if q \<noteq> DQUOTE then None
                 else (case four_digits r2 of Some (d, e # r3) \<Rightarrow> if e = DQUOTE then Some d else None | _ \<Rightarrow> None)
             | [] \<Rightarrow> None)
       | [] \<Rightarrow> None))"

definition code_pattern_3 :: "string \<Rightarrow> string option" where
  "code_pattern_3 s = (case s of c # r \<Rightarrow> if c \<noteq> CHR ''['' then None
       else (case four_digits r of Some (d, e # r3) \<Rightarrow> if e = CHR '']'' then Some d else None | _ \<Rightarrow> None)
     | [] \<Rightarrow> None)"

definition extractProviderCode :: "string \<Rightarrow> string option" where
  "extractProviderCode message =
     coalesce (find_at code_pattern_1 message) (coalesce (find_at code_pattern_2 message) (find_at code_pattern_3 message))"

text \<open>\<open>['"]([^'"]+)['"]\<close> after white space.\<close>

definition quoted :: "string \<Rightarrow> string option" where
  "quoted s = (case dropWhile is_space s of [] \<Rightarrow> None
     | q # r \<Rightarrow> if \<not> is_quote q then None
         else (let body = takeWhile (\<lambda>c. \<not> is_quote c) r
               in if body = [] \<or> dropWhile (\<lambda>c. \<not> is_quote c) r = [] then None else Some body))"

definition id_pattern_1 :: "string \<Rightarrow> string option" where
  "id_pattern_1 s = (case after_prefix ''providerRequestId:'' s of None \<Rightarrow> None | Some r \<Rightarrow> quoted r)"

definition id_pattern_2 :: "string \<Rightarrow> string option" where
  "id_pattern_2 s = (case after_prefix ''request_id'' s of None \<Rightarrow> None
     | Some r \<Rightarrow> (case dropWhile is_space (skip_quote r) of
         c # r1 \<Rightarrow> if c = CHR '':'' then quoted r1 else None
       | [] \<Rightarrow> None))"

definition extractProviderRequestId :: "string \<Rightarrow> string option" where
  "extractProviderRequestId message = coalesce (find_at id_pattern_1 message) (find_at id_pattern_2 message)"

definition names_code :: "string \<Rightarrow> string \<Rightarrow> bool" where
  "names_code code normalized \<longleftrightarrow> str_includes (''providercode: '' @ QUOTE # code @ [QUOTE]) normalized
     \<or> str_includes (''providercode: '' @ DQUOTE # code @ [DQUOTE]) normalized
     \<or> str_includes (CHR ''['' # code @ '']'') normalized"

definition classifyProviderError :: "error_reader \<Rightarrow> string \<Rightarrow> provider_classification" where
  "classifyProviderError rd error =
     (let message = er_strip_causes rd error; normalized = to_lower message;
          code = truthy (extractProviderCode message);
          requestRateLimited = (str_includes ''rate limit'' normalized \<or> str_includes ''rate_limit_error'' normalized
            \<or> names_code ''1302'' normalized \<or> code = Some ''1302'');
          overloaded = (str_includes ''temporarily overloaded'' normalized \<or> str_includes ''overloaded_error'' normalized
            \<or> names_code ''1305'' normalized \<or> code = Some ''1305'');
          quotaExhausted = (str_includes ''usage limit reached'' normalized
            \<or> str_includes ''weekly/monthly limit exhausted'' normalized \<or> str_includes ''package has expired'' normalized
            \<or> (case code of None \<Rightarrow> False | Some c \<Rightarrow> c \<in> set [''1308'', ''1309'', ''1310'', ''1316'', ''1317'']));
          base = (\<lambda>cat reason retryable cooldown. \<lparr>pk_category = cat, pk_provider_code = code,
            pk_request_id = truthy (extractProviderRequestId message),
            pk_retry_after_ms = (if er_retry_after_ms rd message = Some 0 then None else er_retry_after_ms rd message),
            pk_reason = reason, pk_retryable = retryable, pk_cooldown = cooldown\<rparr>)
      in if quotaExhausted then base PC_quota_exhausted ''provider_quota_exhausted'' False True
         else if overloaded then base PC_overloaded ''provider_overloaded'' True True
         else if requestRateLimited then base PC_request_rate_limit ''provider_request_rate_limit'' True True
         else if er_schema_failure rd message then base PC_model_output_schema ''model_output_schema_failure'' True False
         else base PC_none ''not_provider_retryable'' False False)"

section \<open>Durations\<close>

record cooldown_config =
  pcc_enabled :: bool
  pcc_duration_ms :: int
  pcc_request_rate_limit_ms :: int
  pcc_overload_ms :: int
  pcc_quota_ms :: int
  pcc_backoff_max_ms :: int
  pcc_backoff_jitter_ms :: int

definition providerCooldownDurationMs :: "cooldown_config \<Rightarrow> provider_classification \<Rightarrow> int \<Rightarrow> int \<Rightarrow> int" where
  "providerCooldownDurationMs config k retryAttempt jitterMs =
     (case pk_category k of
        PC_request_rate_limit \<Rightarrow> pcc_request_rate_limit_ms config
      | PC_overloaded \<Rightarrow>
          (let attempt = max 1 retryAttempt;
               exponential = pcc_overload_ms config * 2 ^ nat (max 0 (attempt - 1));
               boundedJitter = min (max 0 jitterMs) (pcc_backoff_jitter_ms config)
           in min (pcc_backoff_max_ms config) (exponential + boundedJitter))
      | PC_quota_exhausted \<Rightarrow> pcc_quota_ms config
      | _ \<Rightarrow> pcc_duration_ms config)"

definition nextProviderCooldownRetryAttempt :: "string option \<Rightarrow> provider_classification \<Rightarrow> int" where
  "nextProviderCooldownRetryAttempt previousError k =
     (if pk_category k \<noteq> PC_overloaded then 1
      else (case parseProviderCooldownError previousError of None \<Rightarrow> 1
        | Some previous \<Rightarrow> if pcd_reason previous \<noteq> Some (pk_reason k) then 1
            else min 99 (or_default (pcd_retry_attempt previous) 1 + 1)))"

text \<open>\<open>draw max\<close> is the random number from 0 to \<open>max\<close>.\<close>

definition providerCooldownJitterMs :: "(int \<Rightarrow> int) \<Rightarrow> cooldown_config \<Rightarrow> provider_classification \<Rightarrow> int \<Rightarrow> int" where
  "providerCooldownJitterMs draw config k retryAttempt =
     (if pk_category k \<noteq> PC_overloaded then 0
      else if retryAttempt \<le> 1 then 0
      else if pcc_backoff_jitter_ms config \<le> 0 then 0
      else draw (pcc_backoff_jitter_ms config))"

section \<open>The cooldown of a repository\<close>

definition recordRepoProviderCooldown :: "host \<Rightarrow> string \<Rightarrow> int \<Rightarrow> string \<Rightarrow> int \<Rightarrow> db \<Rightarrow> db" where
  "recordRepoProviderCooldown h repo cooldownUntil reason clock d =
     d\<lparr>cooldowns := row_upsert cd_repo (\<lambda>old new. new)
         \<lparr>cd_repo = repo, cd_until = cooldownUntil, cd_reason = redact h reason, cd_updated_at = sql_now clock\<rparr> (cooldowns d)\<rparr>"

definition getRepoProviderCooldown :: "string \<Rightarrow> db \<Rightarrow> cooldown_row option" where
  "getRepoProviderCooldown repo d = row_get cd_repo repo (cooldowns d)"

definition getActiveRepoProviderCooldown :: "string \<Rightarrow> int \<Rightarrow> db \<Rightarrow> cooldown_row option" where
  "getActiveRepoProviderCooldown repo now d =
     (case getRepoProviderCooldown repo d of None \<Rightarrow> None
      | Some c \<Rightarrow> if cd_until c \<le> now then None else Some c)"

definition listRepoProviderCooldowns :: "bool \<Rightarrow> int \<Rightarrow> db \<Rightarrow> cooldown_row list" where
  "listRepoProviderCooldowns activeOnly now d =
     (let rows = js_sort (\<lambda>a b. sql_datetime (cd_until b) - sql_datetime (cd_until a)) (cooldowns d)
      in if \<not> activeOnly then rows else filter (\<lambda>c. now < cd_until c) rows)"

definition getActiveProviderCooldown :: "int \<Rightarrow> db \<Rightarrow> cooldown_row option" where
  "getActiveProviderCooldown now d = (case listRepoProviderCooldowns True now d of [] \<Rightarrow> None | c # _ \<Rightarrow> Some c)"

record cooldown_review =
  cv_row :: processed_row
  cv_until :: string
  cv_reason :: "string option"
  cv_expired :: bool

definition listProviderCooldownReviews ::
  "host \<Rightarrow> string option \<Rightarrow> int \<Rightarrow> bool \<Rightarrow> int option \<Rightarrow> db \<Rightarrow> store_error + cooldown_review list" where
  "listProviderCooldownReviews h repo now expiredOnly limit d =
     (if (case limit of None \<Rightarrow> False | Some n \<Rightarrow> n < 1) then Inl (BadLimit ''limit'')
      else (let rows = js_sort (\<lambda>a b. sql_datetime (pr_created_at a) - sql_datetime (pr_created_at b))
                  (filter (\<lambda>r. (case truthy repo of None \<Rightarrow> True | Some x \<Rightarrow> pr_repo r = x) \<and> pr_status r = P_skipped \<and>
                     (case pr_error r of None \<Rightarrow> False | Some e \<Rightarrow> sql_like (PROVIDER_COOLDOWN_ERROR_PREFIX @ ''%'') e)) (processed d));
                mapped = List.map_filter (\<lambda>r. let record = mapProcessedReviewRow r in
                  map_option (\<lambda>p. \<lparr>cv_row = record, cv_until = pcd_until p, cv_reason = pcd_reason p,
                     cv_expired = (case date_parse h (pcd_until p) of None \<Rightarrow> True | Some t \<Rightarrow> t \<le> now)\<rparr>)
                    (parseProviderCooldownError (pr_error record))) rows;
                shown = filter (\<lambda>c. \<not> expiredOnly \<or> cv_expired c) mapped
            in Inr (case limit of None \<Rightarrow> shown | Some n \<Rightarrow> take (nat n) shown)))"

section \<open>Failed heads\<close>

definition bare_record :: "string \<Rightarrow> int \<Rightarrow> string \<Rightarrow> processed_status \<Rightarrow> string \<Rightarrow> processed_review_record" where
  "bare_record repo pull head status error =
     \<lparr>pr_repo = repo, pr_pull = pull, pr_head = head, pr_status = status, pr_config_revision = None, pr_base_ref = None,
      pr_base_sha = None, pr_diff_fingerprint = None, pr_carried_from_head = None, pr_event = None, pr_review_url = None,
      pr_error = Some error\<rparr>"

text \<open>\<open>format previousError\<close> is the message of a timeout of the model, if the error was one, or the redacted
  message.\<close>

definition recordFailedReview ::
  "(string option \<Rightarrow> string) \<Rightarrow> bool \<Rightarrow> string \<Rightarrow> int \<Rightarrow> string \<Rightarrow> int \<Rightarrow> db \<Rightarrow> string \<times> db" where
  "recordFailedReview format preserveExistingDryRun repo pull head clock d =
     (let previous = getProcessedReview repo pull head d;
          errorMessage = format (Option.bind previous pr_error)
      in case previous of
           Some p \<Rightarrow>
             if pr_status p = P_skipped \<and> (case pr_error p of None \<Rightarrow> False | Some e \<Rightarrow> starts_with APPROVED_DRY_RUN_LIVE_CLAIM_ERROR e)
             then (errorMessage, recordProcessed ((bare_record repo pull head P_skipped
                     (APPROVED_DRY_RUN_LIVE_CLAIM_ERROR @ ''; post_error='' @ errorMessage))
                     \<lparr>pr_config_revision := truthy (pr_config_revision p), pr_event := pr_event p\<rparr>) clock d)
             else if pr_status p \<noteq> P_posted \<and> \<not> (preserveExistingDryRun \<and> pr_status p = P_dry_run)
             then (errorMessage, recordProcessed (bare_record repo pull head P_failed errorMessage) clock d)
             else (errorMessage, d)
         | None \<Rightarrow> (errorMessage, recordProcessed (bare_record repo pull head P_failed errorMessage) clock d))"

section \<open>The cooldown of a head\<close>

text \<open>Metadata joined by a semicolon and a space.\<close>

fun join_semicolons :: "string list \<Rightarrow> string" where
  "join_semicolons [] = []"
| "join_semicolons [w] = w"
| "join_semicolons (w # v # ws) = w @ ''; '' @ join_semicolons (v # ws)"

definition cooldown_text :: "host \<Rightarrow> string \<Rightarrow> string \<Rightarrow> int option \<Rightarrow> string option \<Rightarrow> int option \<Rightarrow> string" where
  "cooldown_text h cooldownUntil reason retryAttempt providerCode retryAfterMs =
     (let metadata = [''reason='' @ redact h reason] @
        (case retryAttempt of None \<Rightarrow> [] | Some n \<Rightarrow> if n = 0 then [] else [''retry_attempt='' @ string_of_int n]) @
        (case truthy providerCode of None \<Rightarrow> [] | Some c \<Rightarrow> [''provider_code='' @ redact h c]) @
        (case retryAfterMs of None \<Rightarrow> [] | Some n \<Rightarrow> if n = 0 then [] else [''retry_after_ms='' @ string_of_int n])
      in ''provider_rate_limit_cooldown_until='' @ cooldownUntil @ ''; '' @ join_semicolons metadata)"

definition recordProviderCooldownSkip ::
  "host \<Rightarrow> string \<Rightarrow> int \<Rightarrow> string \<Rightarrow> string \<Rightarrow> string \<Rightarrow> int option \<Rightarrow> string option \<Rightarrow> int option \<Rightarrow> int \<Rightarrow> db \<Rightarrow> db" where
  "recordProviderCooldownSkip h repo pull head cooldownUntil reason retryAttempt providerCode retryAfterMs clock d =
     recordProcessed (bare_record repo pull head P_skipped
       (cooldown_text h cooldownUntil reason retryAttempt providerCode retryAfterMs)) clock d"

record cooldown_call =
  pcl_config :: cooldown_config
  pcl_class :: provider_classification
  pcl_untrusted :: bool
  pcl_preserve_dry_run :: bool
  pcl_format :: "string option \<Rightarrow> string"
  pcl_draw :: "int \<Rightarrow> int"

definition recordProviderRateLimitCooldownIfNeeded ::
  "host \<Rightarrow> cooldown_call \<Rightarrow> string \<Rightarrow> int \<Rightarrow> string \<Rightarrow> int \<Rightarrow> int \<Rightarrow> db \<Rightarrow> bool \<times> db" where
  "recordProviderRateLimitCooldownIfNeeded h i repo pull head now clock d =
     (let k = pcl_class i; config = pcl_config i in
      if \<not> pcc_enabled config then (False, d)
      else if \<not> pk_cooldown k then (False, d)
      else (let previous = getProcessedReview repo pull head d;
                retryAttempt = nextProviderCooldownRetryAttempt (Option.bind previous pr_error) k;
                jitterMs = providerCooldownJitterMs (pcl_draw i) config k retryAttempt;
                cooldownUntil = now + providerCooldownDurationMs config k retryAttempt jitterMs;
                d1 = (if pcl_untrusted i then d
                      else recordRepoProviderCooldown h repo cooldownUntil (pk_reason k) clock d);
                overloaded = (pk_category k = PC_overloaded)
            in if pcl_preserve_dry_run i \<and> (case previous of None \<Rightarrow> False | Some p \<Rightarrow> pr_status p = P_skipped \<and>
                    (case pr_error p of None \<Rightarrow> False | Some e \<Rightarrow> starts_with APPROVED_DRY_RUN_LIVE_CLAIM_ERROR e))
               then (True, snd (recordFailedReview (pcl_format i) True repo pull head clock d1))
               else if \<not> (pcl_preserve_dry_run i \<and> (case previous of None \<Rightarrow> False | Some p \<Rightarrow> pr_status p = P_dry_run))
               then (True, recordProviderCooldownSkip h repo pull head (iso_string h cooldownUntil) (pk_reason k)
                       (if overloaded then Some retryAttempt else None)
                       (if overloaded then pk_provider_code k else None)
                       (if overloaded then pk_retry_after_ms k else None) clock d1)
               else (True, d1)))"

section \<open>The recorded text is read back\<close>

text \<open>A value that survives in the metadata: not empty, no semicolon, no white space at its ends.\<close>

definition metadata_value :: "string \<Rightarrow> bool" where
  "metadata_value s \<longleftrightarrow> s \<noteq> [] \<and> CHR '';'' \<notin> set s \<and> \<not> is_space (hd s) \<and> \<not> is_space (last s)"

lemma trim_value: "s \<noteq> [] \<Longrightarrow> \<not> is_space (hd s) \<Longrightarrow> \<not> is_space (last s) \<Longrightarrow> trim s = s"
proof -
  assume a: "s \<noteq> []" "\<not> is_space (hd s)" "\<not> is_space (last s)"
  have drop: "dropWhile is_space t = t" if "t \<noteq> []" "\<not> is_space (hd t)" for t using that by (cases t) auto
  show "trim s = s" using a by (simp add: trim_def drop hd_rev)
qed

lemma trim_blank: "trim (CHR '' '' # s) = trim s"
  by (simp add: trim_def)

lemma join_semicolons_on:
  "join_semicolons (m # ms) = join_on (CHR '';'') (m # map ((#) (CHR '' '')) ms)"
proof (induction ms arbitrary: m)
  case (Cons a ms)
  have "CHR '' '' # join_on (CHR '';'') (a # map ((#) (CHR '' '')) ms) =
      join_on (CHR '';'') ((CHR '' '' # a) # map ((#) (CHR '' '')) ms)"
    by (cases ms) simp_all
  then show ?case by (simp add: Cons)
qed simp

definition positive_part :: "int option \<Rightarrow> int option" where
  "positive_part n = (case n of None \<Rightarrow> None | Some k \<Rightarrow> if k = 0 then None else Some k)"

definition piece :: "string \<Rightarrow> string option \<Rightarrow> string list" where
  "piece name v = (case v of None \<Rightarrow> [] | Some x \<Rightarrow> [name @ x])"

definition cooldown_metadata :: "host \<Rightarrow> string \<Rightarrow> int option \<Rightarrow> string option \<Rightarrow> int option \<Rightarrow> string list" where
  "cooldown_metadata h reason retryAttempt providerCode retryAfterMs =
     piece ''reason='' (Some (redact h reason)) @
     piece ''retry_attempt='' (map_option string_of_int (positive_part retryAttempt)) @
     piece ''provider_code='' (map_option (redact h) (truthy providerCode)) @
     piece ''retry_after_ms='' (map_option string_of_int (positive_part retryAfterMs))"

lemma cooldown_text_joined:
  "cooldown_text h cooldownUntil reason a c r = join_on (CHR '';'')
     ((PROVIDER_COOLDOWN_ERROR_PREFIX @ cooldownUntil) # map ((#) (CHR '' '')) (cooldown_metadata h reason a c r))"
proof -
  have ne: "cooldown_metadata h reason a c r \<noteq> []" by (simp add: cooldown_metadata_def piece_def)
  have "cooldown_text h cooldownUntil reason a c r =
      (PROVIDER_COOLDOWN_ERROR_PREFIX @ cooldownUntil) @ ''; '' @ join_semicolons (cooldown_metadata h reason a c r)"
    by (simp add: cooldown_text_def cooldown_metadata_def PROVIDER_COOLDOWN_ERROR_PREFIX_def piece_def positive_part_def Let_def
        split: option.split)
  also have "\<dots> = join_semicolons ((PROVIDER_COOLDOWN_ERROR_PREFIX @ cooldownUntil) # cooldown_metadata h reason a c r)"
    using ne by (auto simp: neq_Nil_conv)
  finally show ?thesis by (simp only: join_semicolons_on)
qed

lemma piece_value:
  assumes "\<And>x. v = Some x \<Longrightarrow> metadata_value x" "metadata_value (name @ [CHR ''=''])"
  shows "\<forall>m\<in>set (piece (name @ [CHR ''='']) v). metadata_value m"
  using assms by (cases v; cases name) (auto simp: piece_def metadata_value_def)

lemma find_piece:
  "find (starts_with name) (piece name v @ ms) = (case v of None \<Rightarrow> find (starts_with name) ms | Some x \<Rightarrow> Some (name @ x))"
  by (simp add: piece_def split: option.split)

lemma find_other_piece:
  assumes "\<And>x. \<not> starts_with name (other @ x)"
  shows "find (starts_with name) (piece other v @ ms) = find (starts_with name) ms"
    "find (starts_with name) (piece other v) = None"
  using assms by (simp_all add: piece_def split: option.split)

lemma find_last_piece: "find (starts_with name) (piece name v) = map_option ((@) name) v"
  using find_piece[of name v "[]"] by (simp split: option.splits)

lemma trim_metadata: "metadata_value m \<Longrightarrow> trim (CHR '' '' # m) = m"
  by (auto simp: trim_blank metadata_value_def intro: trim_value)

lemma number_value:
  assumes "0 < n"
  shows "metadata_value (string_of_int n)" "parsePositiveInt (Some (string_of_int n)) = Some n"
proof -
  obtain m where m: "string_of_int n = digits_of_nat m" "int m = n" "0 < m" using assms by (auto simp: string_of_int_def)
  have no_space: "is_digit c \<Longrightarrow> \<not> is_space c" "is_digit c \<Longrightarrow> c \<noteq> CHR ''+''" for c
    by (auto simp: is_digit_def is_space_def char_code_def)
  have digits: "\<forall>c\<in>set (digits_of_nat m). is_digit c" using digits_of_nat_digits[of m] by (simp add: list_all_iff)
  then have ends: "\<not> is_space (hd (digits_of_nat m))" "\<not> is_space (last (digits_of_nat m))" "hd (digits_of_nat m) \<noteq> CHR ''+''"
    using hd_in_set[of "digits_of_nat m"] last_in_set[of "digits_of_nat m"] by (auto simp: no_space)
  have "CHR '';'' \<notin> set (digits_of_nat m)" using digits by (auto simp: is_digit_def char_code_def)
  then show "metadata_value (string_of_int n)" using ends by (simp add: metadata_value_def m(1))
  have "dropWhile is_space (digits_of_nat m) = digits_of_nat m" using ends by (simp add: dropWhile_eq_self_iff)
  moreover have "takeWhile is_digit (digits_of_nat m) = digits_of_nat m" using digits by (simp add: takeWhile_eq_all_conv)
  moreover have "(case digits_of_nat m of c # r \<Rightarrow> if c = CHR ''+'' then r else digits_of_nat m | [] \<Rightarrow> digits_of_nat m) = digits_of_nat m"
    using ends by (cases "digits_of_nat m") simp_all
  moreover have "truthy (Some (digits_of_nat m)) = Some (digits_of_nat m)" by (simp add: truthy_def)
  ultimately show "parsePositiveInt (Some (string_of_int n)) = Some n"
    using m by (simp add: parsePositiveInt_def Let_def del: takeWhile_eq_all_conv)
qed

lemma metadata_values:
  assumes "metadata_value (redact h reason)" "\<And>c. truthy code = Some c \<Longrightarrow> metadata_value (redact h c)"
    and "case_option True (\<lambda>n. 0 \<le> n) attempt" "case_option True (\<lambda>n. 0 \<le> n) after"
  shows "\<forall>m\<in>set (cooldown_metadata h reason attempt code after). metadata_value m"
proof -
  have names: "metadata_value (''reason'' @ [CHR ''=''])" "metadata_value (''retry_attempt'' @ [CHR ''=''])"
    "metadata_value (''provider_code'' @ [CHR ''=''])" "metadata_value (''retry_after_ms'' @ [CHR ''=''])"
    by (simp_all add: metadata_value_def is_space_def char_code_def)
  have num: "map_option string_of_int (positive_part n) = Some x \<Longrightarrow> metadata_value x" if "case_option True (\<lambda>n. 0 \<le> n) n" for n x
    using that by (auto simp: positive_part_def split: option.splits if_splits intro!: number_value)
  show ?thesis unfolding cooldown_metadata_def set_append ball_Un
  proof (intro conjI)
    show "\<forall>m\<in>set (piece ''reason='' (Some (redact h reason))). metadata_value m"
      by (rule piece_value[of _ "''reason''", simplified]) (use assms(1) names in simp_all)
    show "\<forall>m\<in>set (piece ''retry_attempt='' (map_option string_of_int (positive_part attempt))). metadata_value m"
      by (rule piece_value[of _ "''retry_attempt''", simplified]) (use num[OF assms(3)] names in simp_all)
    show "\<forall>m\<in>set (piece ''provider_code='' (map_option (redact h) (truthy code))). metadata_value m"
      by (rule piece_value[of _ "''provider_code''", simplified]) (use assms(2) names in auto)
    show "\<forall>m\<in>set (piece ''retry_after_ms='' (map_option string_of_int (positive_part after))). metadata_value m"
      by (rule piece_value[of _ "''retry_after_ms''", simplified]) (use num[OF assms(4)] names in simp_all)
  qed
qed

lemma cooldown_text_parsed:
  assumes "metadata_value until" "metadata_value (redact h reason)"
    and "\<And>c. truthy code = Some c \<Longrightarrow> metadata_value (redact h c)"
    and "case_option True (\<lambda>n. 0 \<le> n) attempt" "case_option True (\<lambda>n. 0 \<le> n) after"
  shows "parseProviderCooldownError (Some (cooldown_text h until reason attempt code after)) =
    Some \<lparr>pcd_until = until, pcd_reason = Some (redact h reason), pcd_retry_attempt = positive_part attempt,
      pcd_provider_code = map_option (redact h) (truthy code), pcd_retry_after_ms = positive_part after\<rparr>"
proof -
  let ?ms = "cooldown_metadata h reason attempt code after"
  have good: "\<forall>m\<in>set ?ms. metadata_value m" by (rule metadata_values[OF assms(2-5)])
  then have trimmed: "map trim (map ((#) (CHR '' '')) ?ms) = ?ms"
    by (simp add: trim_metadata map_idI)
  have semis: "\<forall>m\<in>set ?ms. CHR '';'' \<notin> set m" using good by (simp add: metadata_value_def)
  let ?all = "(PROVIDER_COOLDOWN_ERROR_PREFIX @ until) # map ((#) (CHR '' '')) ?ms"
  have split: "split_on (CHR '';'') (cooldown_text h until reason attempt code after) = ?all"
    unfolding cooldown_text_joined using semis assms(1)
    by (intro split_join) (auto simp: metadata_value_def PROVIDER_COOLDOWN_ERROR_PREFIX_def)
  have starts: "starts_with PROVIDER_COOLDOWN_ERROR_PREFIX (cooldown_text h until reason attempt code after)"
    by (simp add: cooldown_text_def PROVIDER_COOLDOWN_ERROR_PREFIX_def Let_def)
  have until: "trim until = until" "until \<noteq> []" using assms(1) by (auto simp: metadata_value_def intro: trim_value)
  have red: "redact h reason \<noteq> []" "trim (redact h reason) = redact h reason"
    using assms(2) by (auto simp: metadata_value_def intro: trim_value)
  have code: "redact h c \<noteq> []" "trim (redact h c) = redact h c" if "truthy code = Some c" for c
    using assms(3)[OF that] by (auto simp: metadata_value_def intro: trim_value)
  have got: "cooldown_field name (map ((#) (CHR '' '')) ?ms) = v" if "find (starts_with name) ?ms = map_option ((@) name) v" for name v
    unfolding cooldown_field_def trimmed that by (cases v) simp_all
  have "find (starts_with ''reason='') ?ms = map_option ((@) ''reason='') (Some (redact h reason))"
    "find (starts_with ''retry_attempt='') ?ms = map_option ((@) ''retry_attempt='') (map_option string_of_int (positive_part attempt))"
    "find (starts_with ''provider_code='') ?ms = map_option ((@) ''provider_code='') (map_option (redact h) (truthy code))"
    "find (starts_with ''retry_after_ms='') ?ms = map_option ((@) ''retry_after_ms='') (map_option string_of_int (positive_part after))"
    unfolding cooldown_metadata_def by (simp_all add: find_piece find_last_piece find_other_piece split: option.split)
  note reason = got[OF this(1)] and att = got[OF this(2)] and cod = got[OF this(3)] and aft = got[OF this(4)]
  have nums: "parsePositiveInt (map_option string_of_int (positive_part n)) = positive_part n" if "case_option True (\<lambda>k. 0 \<le> k) n" for n
    using that number_value(2) by (auto simp: positive_part_def parsePositiveInt_def[of None] truthy_def split: option.splits)
  have field: "truthy (map_option trim (Some r)) = Some r" if "r \<noteq> []" "trim r = r" for r
    using that by (simp add: truthy_def)
  have codes: "truthy (map_option trim (map_option (redact h) (truthy code))) = map_option (redact h) (truthy code)"
    using code by (cases "truthy code") (simp_all add: truthy_def)
  show ?thesis
    unfolding parseProviderCooldownError_def
    using starts until
    by (simp add: split Let_def reason att cod aft nums[OF assms(4)] nums[OF assms(5)] field[OF red] codes del: option.map)
qed


text \<open>The row of a head after its cooldown was recorded.\<close>

lemma cooldown_text_not_base_merge: "cooldown_text h u r a c f \<noteq> BASE_MERGE_ONLY"
  by (simp add: cooldown_text_def BASE_MERGE_ONLY_def Let_def)

lemma cooldown_text_truthy: "truthy (Some (cooldown_text h u r a c f)) = Some (cooldown_text h u r a c f)"
  by (simp add: truthy_def cooldown_text_def Let_def)

lemma skip_row_error:
  "getProcessedReview repo pull head (recordProviderCooldownSkip h repo pull head u r a c f clock d) \<noteq> None \<and>
   pr_status (the (getProcessedReview repo pull head (recordProviderCooldownSkip h repo pull head u r a c f clock d))) = P_skipped \<and>
   pr_error (the (getProcessedReview repo pull head (recordProviderCooldownSkip h repo pull head u r a c f clock d))) =
     Some (cooldown_text h u r a c f)"
  by (auto simp: getProcessedReview_def recordProviderCooldownSkip_def recordProcessed_row bare_record_def pr_key_def
      processed_row_of_def processed_review_record.defs merge_processed_def cooldown_text_not_base_merge mapProcessedReviewRow_def
      cooldown_text_truthy split: option.split)

text \<open>what is recorded for a head in a provider cooldown is read back as it was written: the end of the cooldown, the
  reason, and for an overloaded provider the attempt, the provider's code and its retry delay.\<close>

theorem cooldown_text_roundtrip:
  assumes "metadata_value until" "metadata_value (redact h reason)"
    and "\<And>c. code = Some c \<Longrightarrow> metadata_value (redact h c)" "\<And>n. attempt = Some n \<Longrightarrow> 0 < n" "\<And>n. after = Some n \<Longrightarrow> 0 < n"
    and "code \<noteq> Some []"
  shows "parseProviderCooldownError (Option.bind (getProcessedReview repo pull head
      (recordProviderCooldownSkip h repo pull head until reason attempt code after clock d)) pr_error) =
    Some \<lparr>pcd_until = until, pcd_reason = Some (redact h reason), pcd_retry_attempt = attempt,
      pcd_provider_code = map_option (redact h) code, pcd_retry_after_ms = after\<rparr>"
proof -
  have "truthy code = code" using assms(6) by (auto simp: truthy_def split: option.split)
  moreover have "positive_part attempt = attempt" "positive_part after = after"
    using assms(4,5) by (force simp: positive_part_def split: option.split)+
  moreover have "case_option True (\<lambda>n. 0 \<le> n) attempt" "case_option True (\<lambda>n. 0 \<le> n) after"
    using assms(4,5) by (force split: option.split)+
  ultimately show ?thesis
    using cooldown_text_parsed[of until h reason code attempt after] assms(1-3)
    using skip_row_error[of repo pull head h until reason attempt code after clock d] by auto
qed


section \<open>Backoff\<close>

lemma overloaded_class:
  assumes "pk_category (classifyProviderError rd e) = PC_overloaded"
  shows "pk_reason (classifyProviderError rd e) = ''provider_overloaded'' \<and> pk_cooldown (classifyProviderError rd e)"
  using assms unfolding classifyProviderError_def Let_def by (simp split: if_splits) (elim disjE; simp)

text \<open>A failure of an overloaded provider, reported by the trusted lane outside an approved dry run.\<close>

definition overload_call :: "host \<Rightarrow> cooldown_call \<Rightarrow> bool" where
  "overload_call h i \<longleftrightarrow> pcc_enabled (pcl_config i) \<and> pk_category (pcl_class i) = PC_overloaded \<and> pk_cooldown (pcl_class i) \<and>
     pk_reason (pcl_class i) = ''provider_overloaded'' \<and> \<not> pcl_preserve_dry_run i \<and>
     (\<forall>c. truthy (pk_provider_code (pcl_class i)) = Some c \<longrightarrow> metadata_value (redact h c)) \<and>
     (\<forall>n. pk_retry_after_ms (pcl_class i) = Some n \<longrightarrow> 0 \<le> n) \<and> (\<forall>m. 0 \<le> m \<longrightarrow> 0 \<le> pcl_draw i m \<and> pcl_draw i m \<le> m)"

definition throttled ::
  "host \<Rightarrow> string \<Rightarrow> int \<Rightarrow> string \<Rightarrow> (cooldown_call \<times> int \<times> int) list \<Rightarrow> db \<Rightarrow> db" where
  "throttled h repo pull head cs d =
     foldl (\<lambda>d (i, now, clock). snd (recordProviderRateLimitCooldownIfNeeded h i repo pull head now clock d)) d cs"

definition backoff_jitter :: "cooldown_call \<Rightarrow> int \<Rightarrow> int" where
  "backoff_jitter i k = (if k \<le> 1 \<or> pcc_backoff_jitter_ms (pcl_config i) \<le> 0 then min 0 (pcc_backoff_jitter_ms (pcl_config i))
     else pcl_draw i (pcc_backoff_jitter_ms (pcl_config i)))"

definition backoff_until :: "cooldown_call \<Rightarrow> int \<Rightarrow> int \<Rightarrow> int" where
  "backoff_until i k now = now + min (pcc_backoff_max_ms (pcl_config i))
     (pcc_overload_ms (pcl_config i) * 2 ^ nat (k - 1) + backoff_jitter i k)"

definition stored_cooldown :: "string \<Rightarrow> int \<Rightarrow> string \<Rightarrow> db \<Rightarrow> parsed_cooldown option" where
  "stored_cooldown repo pull head d = parseProviderCooldownError (Option.bind (getProcessedReview repo pull head d) pr_error)"

lemma throttle_step:
  assumes "overload_call h i" "\<And>t. metadata_value (iso_string h t)" "redact h ''provider_overloaded'' = ''provider_overloaded''"
    and k: "k = nextProviderCooldownRetryAttempt (Option.bind (getProcessedReview repo pull head d) pr_error) (pcl_class i)" "1 \<le> k"
  shows "\<exists>p. stored_cooldown repo pull head (snd (recordProviderRateLimitCooldownIfNeeded h i repo pull head now clock d)) = Some p \<and>
    pcd_reason p = Some ''provider_overloaded'' \<and> pcd_retry_attempt p = Some k \<and> pcd_until p = iso_string h (backoff_until i k now)"
proof -
  note call = assms(1)[unfolded overload_call_def]
  define d1 where "d1 = (if pcl_untrusted i then d
    else recordRepoProviderCooldown h repo (backoff_until i k now) ''provider_overloaded'' clock d)"
  have "providerCooldownDurationMs (pcl_config i) (pcl_class i) k (providerCooldownJitterMs (pcl_draw i) (pcl_config i) (pcl_class i) k) =
      backoff_until i k now - now"
    using call k(2) by (auto simp: providerCooldownDurationMs_def providerCooldownJitterMs_def backoff_until_def backoff_jitter_def Let_def max_def min_def)
  then have run: "snd (recordProviderRateLimitCooldownIfNeeded h i repo pull head now clock d) =
      recordProviderCooldownSkip h repo pull head (iso_string h (backoff_until i k now)) ''provider_overloaded''
        (Some k) (pk_provider_code (pcl_class i)) (pk_retry_after_ms (pcl_class i)) clock d1"
    using call by (simp add: recordProviderRateLimitCooldownIfNeeded_def Let_def k(1)[symmetric] d1_def)
  have "parseProviderCooldownError (Some (cooldown_text h (iso_string h (backoff_until i k now)) ''provider_overloaded''
        (Some k) (pk_provider_code (pcl_class i)) (pk_retry_after_ms (pcl_class i)))) =
      Some \<lparr>pcd_until = iso_string h (backoff_until i k now), pcd_reason = Some (redact h ''provider_overloaded''),
        pcd_retry_attempt = positive_part (Some k), pcd_provider_code = map_option (redact h) (truthy (pk_provider_code (pcl_class i))),
        pcd_retry_after_ms = positive_part (pk_retry_after_ms (pcl_class i))\<rparr>"
  proof (rule cooldown_text_parsed)
    show "metadata_value (redact h ''provider_overloaded'')"
      by (simp add: assms(3)) (simp add: metadata_value_def is_space_def char_code_def)
  qed (use call k(2) assms(2) in \<open>auto split: option.split\<close>)
  then show ?thesis
    unfolding run stored_cooldown_def
    using skip_row_error[of repo pull head h "iso_string h (backoff_until i k now)" "''provider_overloaded''" "Some k"
        "pk_provider_code (pcl_class i)" "pk_retry_after_ms (pcl_class i)" clock d1] k(2) assms(3)
    by (auto simp: positive_part_def)
qed

lemma next_attempt:
  assumes "overload_call h i"
  shows "nextProviderCooldownRetryAttempt e (pcl_class i) =
    (case parseProviderCooldownError e of None \<Rightarrow> 1
     | Some p \<Rightarrow> if pcd_reason p = Some ''provider_overloaded'' then min 99 (or_default (pcd_retry_attempt p) 1 + 1) else 1)"
  using assms by (auto simp: nextProviderCooldownRetryAttempt_def overload_call_def split: option.split)

lemma throttled_attempts:
  assumes "cs \<noteq> []" "\<forall>(i, now, clock) \<in> set cs. overload_call h i" "\<And>t. metadata_value (iso_string h t)"
    and "redact h ''provider_overloaded'' = ''provider_overloaded''" "stored_cooldown repo pull head d = None"
  shows "\<exists>p. stored_cooldown repo pull head (throttled h repo pull head cs d) = Some p \<and> pcd_reason p = Some ''provider_overloaded'' \<and>
    pcd_retry_attempt p = Some (min 99 (int (length cs))) \<and>
    pcd_until p = iso_string h (backoff_until (fst (last cs)) (min 99 (int (length cs))) (fst (snd (last cs))))"
  using assms(1,2)
proof (induction cs rule: rev_induct)
  case Nil
  then show ?case by simp
next
  case (snoc c cs)
  obtain i now clock where c: "c = (i, now, clock)" by (cases c)
  have i: "overload_call h i" using snoc.prems(2) by (simp add: c)
  have step: "throttled h repo pull head (cs @ [c]) d =
      snd (recordProviderRateLimitCooldownIfNeeded h i repo pull head now clock (throttled h repo pull head cs d))"
    by (simp add: throttled_def c)
  have att: "nextProviderCooldownRetryAttempt (Option.bind (getProcessedReview repo pull head (throttled h repo pull head cs d)) pr_error)
      (pcl_class i) = min 99 (int (length (cs @ [c])))"
  proof (cases "cs = []")
    case True
    then show ?thesis using assms(5) by (simp add: next_attempt[OF i] throttled_def stored_cooldown_def)
  next
    case False
    with snoc obtain p where "stored_cooldown repo pull head (throttled h repo pull head cs d) = Some p"
      "pcd_reason p = Some ''provider_overloaded''" "pcd_retry_attempt p = Some (min 99 (int (length cs)))" by auto
    then show ?thesis by (simp add: next_attempt[OF i] stored_cooldown_def or_default_def)
  qed
  have "1 \<le> min 99 (int (length (cs @ [c])))" by simp
  from throttle_step[OF i assms(3,4) att[symmetric] this, of now clock] show ?case unfolding step by (simp add: c)
qed


text \<open>C19: the backoff of an overloaded provider: after \<open>n\<close> failures in a row of a head that was in no cooldown, the head is
  recorded for attempt \<open>min 99 n\<close>, and its cooldown ends after the base delay doubled \<open>n - 1\<close> times, plus a jitter within its bound,
  but never later than the largest delay. The count lives only in the recorded text, so this rests on its being read back.\<close>

theorem overload_backoff:
  assumes "cs \<noteq> []" "\<forall>(i, now, clock) \<in> set cs. overload_call h i" "\<And>t. metadata_value (iso_string h t)"
    and "redact h ''provider_overloaded'' = ''provider_overloaded''" "stored_cooldown repo pull head d = None"
    and "last cs = (i, now, clock)" "n = min 99 (length cs)" "0 \<le> pcc_backoff_jitter_ms (pcl_config i)"
  shows "\<exists>p jitter. stored_cooldown repo pull head (throttled h repo pull head cs d) = Some p \<and>
    pcd_retry_attempt p = Some (int n) \<and> 0 \<le> jitter \<and> jitter \<le> pcc_backoff_jitter_ms (pcl_config i) \<and>
    pcd_until p = iso_string h (now + min (pcc_backoff_max_ms (pcl_config i)) (pcc_overload_ms (pcl_config i) * 2 ^ (n - 1) + jitter))"
proof -
  have n: "min 99 (int (length cs)) = int n" "nat (int n - 1) = n - 1" using assms(7) by auto
  have "overload_call h i" using assms(1,2,6) last_in_set[of cs] by force
  then have "0 \<le> backoff_jitter i (int n)" "backoff_jitter i (int n) \<le> pcc_backoff_jitter_ms (pcl_config i)"
    using assms(8) by (auto simp: backoff_jitter_def overload_call_def)
  with throttled_attempts[OF assms(1-5)] show ?thesis
    unfolding assms(6) n by (auto simp: backoff_until_def n)
qed


section \<open>The throttle of the untrusted lane\<close>

lemma recordProcessed_tables:
  "cooldowns (recordProcessed r clock d) = cooldowns d" "queue (recordProcessed r clock d) = queue d"
  "readiness (recordProcessed r clock d) = readiness d"
  by (simp_all add: recordProcessed_def)

lemma recordFailedReview_tables:
  "cooldowns (snd (recordFailedReview f keep repo pull head clock d)) = cooldowns d"
  "queue (snd (recordFailedReview f keep repo pull head clock d)) = queue d"
  "readiness (snd (recordFailedReview f keep repo pull head clock d)) = readiness d"
  by (simp_all add: recordFailedReview_def Let_def recordProcessed_tables split: option.split)

lemma recordFailedReview_others:
  assumes "(repo', pull', head') \<noteq> (repo, pull, head)"
  shows "getProcessedReview repo' pull' head' (snd (recordFailedReview f keep repo pull head clock d)) = getProcessedReview repo' pull' head' d"
  using assms by (auto simp: recordFailedReview_def getProcessedReview_def recordProcessed_row bare_record_def pr_key_def Let_def
      split: option.split)

text \<open>the throttle of the provider for untrusted authors defers its own head only: it starts no repository cooldown and leaves
  the queue, the readiness of all heads and the record of every other head as they are.\<close>

theorem untrusted_throttle_isolated:
  assumes "pcl_untrusted i"
  shows "let d' = snd (recordProviderRateLimitCooldownIfNeeded h i repo pull head now clock d)
    in cooldowns d' = cooldowns d \<and> queue d' = queue d \<and> readiness d' = readiness d \<and>
      (\<forall>repo' pull' head'. (repo', pull', head') \<noteq> (repo, pull, head) \<longrightarrow>
        getProcessedReview repo' pull' head' d' = getProcessedReview repo' pull' head' d)"
proof -
  have skip: "getProcessedReview repo' pull' head' (recordProviderCooldownSkip h repo pull head u r a c f clock d) =
      getProcessedReview repo' pull' head' d" if "(repo', pull', head') \<noteq> (repo, pull, head)" for repo' pull' head' u r a c f
    using that by (auto simp: recordProviderCooldownSkip_def getProcessedReview_def recordProcessed_row bare_record_def pr_key_def)
  have frame: "cooldowns (recordProviderCooldownSkip h repo pull head u r a c f clock d) = cooldowns d"
    "queue (recordProviderCooldownSkip h repo pull head u r a c f clock d) = queue d"
    "readiness (recordProviderCooldownSkip h repo pull head u r a c f clock d) = readiness d" for u r a c f
    by (simp_all add: recordProviderCooldownSkip_def recordProcessed_tables)
  show ?thesis
    using assms by (auto simp: recordProviderRateLimitCooldownIfNeeded_def Let_def frame skip recordFailedReview_tables recordFailedReview_others)
qed

section \<open>Witnesses\<close>

definition ex_clock_host :: host where
  "ex_clock_host = \<lparr>date_parse = (\<lambda>_. None), iso_string = (\<lambda>t. CHR ''t'' # digits_of_nat (nat t)), redact = (\<lambda>s. s), alive = (\<lambda>_. True)\<rparr>"

definition ex_cooldown_config :: cooldown_config where
  "ex_cooldown_config = \<lparr>pcc_enabled = True, pcc_duration_ms = 50, pcc_request_rate_limit_ms = 60, pcc_overload_ms = 100,
     pcc_quota_ms = 900, pcc_backoff_max_ms = 5000, pcc_backoff_jitter_ms = 0\<rparr>"

definition ex_overload_reader :: error_reader where
  "ex_overload_reader = \<lparr>er_strip_causes = (\<lambda>s. s), er_schema_failure = (\<lambda>_. False), er_retry_after_ms = (\<lambda>_. None)\<rparr>"

definition ex_overload_text :: string where
  "ex_overload_text = ''providerCode: 1305''"

definition ex_throttle :: "bool \<Rightarrow> cooldown_call" where
  "ex_throttle untrusted = \<lparr>pcl_config = ex_cooldown_config, pcl_class = classifyProviderError ex_overload_reader ex_overload_text,
     pcl_untrusted = untrusted, pcl_preserve_dry_run = False, pcl_format = (\<lambda>_. ''failed''), pcl_draw = (\<lambda>_. 0)\<rparr>"

lemma ex_class: "classifyProviderError ex_overload_reader ex_overload_text = \<lparr>pk_category = PC_overloaded,
    pk_provider_code = Some ''1305'', pk_request_id = None, pk_retry_after_ms = None, pk_reason = ''provider_overloaded'',
    pk_retryable = True, pk_cooldown = True\<rparr>"
  by code_simp

lemma ex_clock_values: "metadata_value (iso_string ex_clock_host t)"
proof -
  let ?ds = "digits_of_nat (nat t)"
  have ds: "\<forall>c\<in>set ?ds. is_digit c" using digits_of_nat_digits[of "nat t"] by (simp add: list_all_iff)
  then have "is_digit (last ?ds)" using last_in_set[of ?ds] by simp
  then have "\<not> is_space (last ?ds)" by (auto simp: is_digit_def is_space_def)
  moreover have "CHR '';'' \<notin> set ?ds" using ds by (auto simp: is_digit_def char_code_def)
  ultimately show ?thesis by (simp add: metadata_value_def ex_clock_host_def is_space_def char_code_def)
qed

lemma ex_overload_call: "overload_call ex_clock_host (ex_throttle u)"
  by (simp add: overload_call_def ex_throttle_def ex_class ex_cooldown_config_def truthy_def metadata_value_def ex_clock_host_def
      is_space_def char_code_def)

theorem cooldown_text_roundtrip_witness:
  "parseProviderCooldownError (Option.bind (getProcessedReview ''a/b'' 1 ''h'' (recordProviderCooldownSkip ex_clock_host ''a/b'' 1 ''h''
      ''t9'' ''provider_overloaded'' (Some 2) (Some ''1305'') None 0 empty_db)) pr_error) =
   Some \<lparr>pcd_until = ''t9'', pcd_reason = Some ''provider_overloaded'', pcd_retry_attempt = Some 2, pcd_provider_code = Some ''1305'',
     pcd_retry_after_ms = None\<rparr>"
  using cooldown_text_roundtrip[of "''t9''" ex_clock_host "''provider_overloaded''" "Some ''1305''" "Some 2" None "''a/b''" 1 "''h''" 0 empty_db]
  by (simp add: ex_clock_host_def metadata_value_def is_space_def char_code_def)

theorem overload_backoff_witness:
  "\<exists>p. stored_cooldown ''a/b'' 1 ''h'' (throttled ex_clock_host ''a/b'' 1 ''h''
      [(ex_throttle False, 0, 0), (ex_throttle False, 10, 10), (ex_throttle False, 20, 20)] empty_db) = Some p \<and>
    pcd_retry_attempt p = Some 3 \<and> pcd_until p = CHR ''t'' # digits_of_nat 420"
proof -
  let ?cs = "[(ex_throttle False, 0, 0), (ex_throttle False, 10, 10), (ex_throttle False, 20, 20)]"
  have "\<exists>p jitter. stored_cooldown ''a/b'' 1 ''h'' (throttled ex_clock_host ''a/b'' 1 ''h'' ?cs empty_db) = Some p \<and>
    pcd_retry_attempt p = Some (int 3) \<and> 0 \<le> jitter \<and> jitter \<le> pcc_backoff_jitter_ms (pcl_config (ex_throttle False)) \<and>
    pcd_until p = iso_string ex_clock_host (20 + min (pcc_backoff_max_ms (pcl_config (ex_throttle False)))
      (pcc_overload_ms (pcl_config (ex_throttle False)) * 2 ^ (3 - 1) + jitter))"
    by (rule overload_backoff[where clock = 20])
       (simp_all add: ex_overload_call ex_clock_values, simp_all add: ex_clock_host_def stored_cooldown_def getProcessedReview_def
         empty_db_def parseProviderCooldownError_def row_get_def ex_throttle_def ex_cooldown_config_def)
  then show ?thesis by (auto simp: ex_throttle_def ex_cooldown_config_def ex_clock_host_def)
qed

theorem untrusted_throttle_isolated_witness:
  "cooldowns (snd (recordProviderRateLimitCooldownIfNeeded ex_clock_host (ex_throttle True) ''a/b'' 1 ''h'' 0 0 empty_db)) = []"
  using untrusted_throttle_isolated[of "ex_throttle True" ex_clock_host "''a/b''" 1 "''h''" 0 0 empty_db]
  by (simp add: ex_throttle_def Let_def empty_db_def)

end
