(* ===== verification/Scheduler.thy ===== *)
theory Scheduler
  imports Publication AuthorGate ProviderCooldown
begin

text \<open>
  The run of one leased queue job (\<open>runLeasedQueueJob\<close> of \<open>src/scheduler.ts\<close>): from the lease to the states in which the
  job, its session job and the readiness of its head are left. The review itself is a parameter, as in the code
  (\<open>reviewPullImpl\<close>); so is GitHub's answer. Posting of status comments does not touch the store and is left out.
\<close>

section \<open>Sequences of store operations\<close>

text \<open>The next operation of a handler: an exception of the one before ends it and keeps what was stored.\<close>

definition and_then :: "('e + 'a) \<times> db \<Rightarrow> ('a \<Rightarrow> db \<Rightarrow> ('e + 'b) \<times> db) \<Rightarrow> ('e + 'b) \<times> db" where
  "and_then r f = (case r of (Inl e, d) \<Rightarrow> (Inl e, d) | (Inr x, d) \<Rightarrow> f x d)"

section \<open>From a result to the states it leaves\<close>

definition isPriorVerifiedBlockingReview :: "processed_row option \<Rightarrow> bool" where
  "isPriorVerifiedBlockingReview p = (case p of None \<Rightarrow> False
     | Some r \<Rightarrow> pr_status r = P_posted \<and> pr_event r = Some EV_REQUEST_CHANGES \<and> truthy (pr_error r) = None)"

definition readinessStateForProcessedStatus ::
  "processed_status option \<Rightarrow> review_event option \<Rightarrow> string option \<Rightarrow> readiness_state" where
  "readinessStateForProcessedStatus status event error =
     (if isProviderCooldownError error then R_provider_deferred
      else if error = Some POST_REVIEW_HEAD_UNVERIFIED_ERROR \<or> error = Some EXACT_AUTHORIZATION_ALREADY_CONSUMED_ERROR then R_failed
      else if error = Some REVIEW_POSTED_HEAD_CHANGED_ERROR then R_stale
      else (case status of
          Some P_posted \<Rightarrow> if event = Some EV_REQUEST_CHANGES then R_needs_fix else R_ready_for_human
        | Some P_dry_run \<Rightarrow> if event = Some EV_REQUEST_CHANGES then R_needs_fix else R_ready_for_human
        | Some P_failed \<Rightarrow> R_failed
        | Some P_skipped \<Rightarrow> R_skipped
        | None \<Rightarrow> R_queued))"

definition processed_state :: "processed_row option \<Rightarrow> readiness_state" where
  "processed_state p = readinessStateForProcessedStatus (map_option pr_status p) (Option.bind p pr_event) (Option.bind p pr_error)"

definition readinessStateForReviewResult :: "review_pull_result \<Rightarrow> processed_row option \<Rightarrow> readiness_state option" where
  "readinessStateForReviewResult status p =
     (let posted = (if Option.bind p pr_event = Some EV_REQUEST_CHANGES then R_needs_fix else R_ready_for_human)
      in case status of
           RV_reviewed \<Rightarrow> Some posted
         | RV_reviewed_command \<Rightarrow> Some posted
         | RV_posted_stale_head \<Rightarrow> Some (if isPriorVerifiedBlockingReview p then R_needs_fix else R_stale)
         | RV_posted_head_unverified \<Rightarrow> Some (if isPriorVerifiedBlockingReview p then R_needs_fix else R_failed)
         | RV_skipped_consumed_authorization \<Rightarrow> Some R_failed
         | RV_skipped_processed \<Rightarrow> Some (processed_state p)
         | RV_skipped_provider_cooldown \<Rightarrow> Some R_provider_deferred
         | RV_skipped_capacity \<Rightarrow> Some R_provider_deferred
         | RV_skipped_context_budget \<Rightarrow> Some R_skipped
         | RV_skipped_stale_head \<Rightarrow> Some R_stale
         | RV_skipped_closed \<Rightarrow> Some R_closed
         | RV_skipped_base_merge_only \<Rightarrow> Some R_skipped
         | RV_untrusted_author_public_repo \<Rightarrow> Some R_skipped
         | RV_untrusted_author_provider_unavailable \<Rightarrow> Some R_skipped
         | RV_untrusted_author_restricted_unavailable \<Rightarrow> Some R_skipped
         | RV_skipped_draft \<Rightarrow> Some R_skipped
         | RV_skipped_canary \<Rightarrow> Some R_skipped
         | RV_skipped_command_stop \<Rightarrow> Some R_skipped
         | RV_skipped_policy \<Rightarrow> Some R_failed
         | RV_skipped_license_gate \<Rightarrow> Some R_blocked_on_proof
         | RV_skipped_command_explain \<Rightarrow> None
         | RV_skipped_finishing_touch_draft \<Rightarrow> None)"

fun status_text :: "processed_status \<Rightarrow> string" where
  "status_text P_dry_run = ''dry_run''"
| "status_text P_posted = ''posted''"
| "status_text P_skipped = ''skipped''"
| "status_text P_failed = ''failed''"

definition readinessReasonForProcessedHead :: "processed_row \<Rightarrow> string" where
  "readinessReasonForProcessedHead p =
     (case parseProviderCooldownError (pr_error p) of
        Some c \<Rightarrow> ''processed_head_provider_deferred: '' @ or_default (pcd_reason c) ''provider_cooldown''
      | None \<Rightarrow>
          if pr_status p = P_skipped \<and> pr_error p = Some BASE_MERGE_ONLY then BASE_MERGE_ONLY
          else if pr_status p = P_skipped \<and> pr_error p = Some ACTIVATION_BASELINE_EXISTING_HEAD_ERROR
            then ACTIVATION_BASELINE_EXISTING_HEAD_ERROR
          else if pr_error p = Some POST_REVIEW_HEAD_UNVERIFIED_ERROR then POST_REVIEW_HEAD_UNVERIFIED_ERROR
          else if pr_error p = Some REVIEW_POSTED_HEAD_CHANGED_ERROR then REVIEW_POSTED_HEAD_CHANGED_ERROR
          else if pr_error p = Some EXACT_AUTHORIZATION_ALREADY_CONSUMED_ERROR then EXACT_AUTHORIZATION_ALREADY_CONSUMED_ERROR
          else ''processed_head_already_'' @ status_text (pr_status p))"

definition readinessReasonForReviewResult :: "review_pull_result \<Rightarrow> processed_row option \<Rightarrow> string" where
  "readinessReasonForReviewResult status p =
     (let posted = (if Option.bind p pr_event = Some EV_REQUEST_CHANGES then ''request_changes_review_posted'' else ''comment_review_posted'');
          error = (\<lambda>otherwise. or_default (Option.bind p pr_error) otherwise)
      in case status of
           RV_reviewed \<Rightarrow> posted
         | RV_reviewed_command \<Rightarrow> posted
         | RV_posted_stale_head \<Rightarrow>
             if isPriorVerifiedBlockingReview p then ''request_changes_review_posted'' else REVIEW_POSTED_HEAD_CHANGED_ERROR
         | RV_posted_head_unverified \<Rightarrow>
             if isPriorVerifiedBlockingReview p then ''request_changes_review_posted'' else POST_REVIEW_HEAD_UNVERIFIED_ERROR
         | RV_skipped_consumed_authorization \<Rightarrow> EXACT_AUTHORIZATION_ALREADY_CONSUMED_ERROR
         | RV_skipped_processed \<Rightarrow> (case p of None \<Rightarrow> ''processed_head_already_unknown'' | Some r \<Rightarrow> readinessReasonForProcessedHead r)
         | RV_skipped_provider_cooldown \<Rightarrow> ''provider_cooldown''
         | RV_skipped_capacity \<Rightarrow> ''review_capacity_busy''
         | RV_skipped_context_budget \<Rightarrow> error ''context_budget_overflow''
         | RV_skipped_stale_head \<Rightarrow> ''stale_head''
         | RV_skipped_closed \<Rightarrow> error ''closed_or_merged_before_review''
         | RV_skipped_base_merge_only \<Rightarrow> BASE_MERGE_ONLY
         | RV_untrusted_author_public_repo \<Rightarrow> author_gate_text AG_untrusted_author_public_repo
         | RV_untrusted_author_provider_unavailable \<Rightarrow> author_gate_text AG_untrusted_author_provider_unavailable
         | RV_untrusted_author_restricted_unavailable \<Rightarrow> author_gate_text AG_untrusted_author_restricted_unavailable
         | RV_skipped_draft \<Rightarrow> ''draft_pr''
         | RV_skipped_canary \<Rightarrow> ''canary_policy''
         | RV_skipped_policy \<Rightarrow> ''unexpected_scheduler_review_status=skipped_policy''
         | RV_skipped_license_gate \<Rightarrow> error ''license_entitlement_required''
         | RV_skipped_command_stop \<Rightarrow> ''manual_command_stop''
         | RV_skipped_command_explain \<Rightarrow> ''manual_command_explain''
         | RV_skipped_finishing_touch_draft \<Rightarrow> ''manual_command_finishing_touch_draft'')"

definition reviewQueueJobStateForProcessedStatus :: "processed_status option \<Rightarrow> string option \<Rightarrow> queue_state" where
  "reviewQueueJobStateForProcessedStatus status error =
     (if error = Some POST_REVIEW_HEAD_UNVERIFIED_ERROR \<or> error = Some EXACT_AUTHORIZATION_ALREADY_CONSUMED_ERROR then Q_failed
      else if error = Some REVIEW_POSTED_HEAD_CHANGED_ERROR then Q_stale_retired
      else (case status of Some P_posted \<Rightarrow> Q_posted | Some P_dry_run \<Rightarrow> Q_queued | Some P_failed \<Rightarrow> Q_failed
        | Some P_skipped \<Rightarrow> Q_stale_retired | None \<Rightarrow> Q_queued))"

definition reviewerSessionJobStateForProcessedStatus :: "processed_status option \<Rightarrow> session_job_state" where
  "reviewerSessionJobStateForProcessedStatus status = (case status of Some P_posted \<Rightarrow> SJ_completed | Some P_dry_run \<Rightarrow> SJ_completed
     | Some P_failed \<Rightarrow> SJ_failed | Some P_skipped \<Rightarrow> SJ_skipped | None \<Rightarrow> SJ_assigned)"

section \<open>Storing the outcome\<close>

definition readiness_of :: "string \<Rightarrow> int \<Rightarrow> string \<Rightarrow> readiness_state \<Rightarrow> string \<Rightarrow> int \<Rightarrow> readiness_input" where
  "readiness_of repo pull head st reason now = \<lparr>ri_repo = repo, ri_pull = pull, ri_head = head, ri_state = st,
     ri_reason = Some reason, ri_event = None, ri_review_url = None, ri_command_action = None, ri_command_comment_id = None,
     ri_clear_command = False, ri_now = now\<rparr>"

definition recordReadinessTransition :: "host \<Rightarrow> readiness_input \<Rightarrow> db \<Rightarrow> unit outcome" where
  "recordReadinessTransition h i d = and_then (recordReviewReadiness h
     (i\<lparr>ri_review_url := truthy (ri_review_url i),
        ri_command_comment_id := (if ri_command_comment_id i = Some 0 then None else ri_command_comment_id i)\<rparr>) d) (\<lambda>_ d. (Inr (), d))"

definition queue_change :: "string \<Rightarrow> queue_state \<Rightarrow> string \<Rightarrow> int \<Rightarrow> queue_update" where
  "queue_change jobId st err now = \<lparr>qu_job_id = jobId, qu_state = st, qu_next_eligible_at = None, qu_lease_id = None,
     qu_lease_expires_at = None, qu_clear_lease = None, qu_session_id = None, qu_review_url = None, qu_last_error = Some err, qu_now = now\<rparr>"

definition update_queue :: "host \<Rightarrow> queue_update \<Rightarrow> db \<Rightarrow> unit outcome" where
  "update_queue h u d = and_then (updateReviewQueueJobState h u d) (\<lambda>_ d. (Inr (), d))"

text \<open>The cooldown an error starts directly (\<open>providerCooldownFromError\<close>): its end and its reason.\<close>

definition providerCooldownFromError ::
  "host \<Rightarrow> cooldown_config \<Rightarrow> provider_classification \<Rightarrow> int \<Rightarrow> (string \<times> string) option" where
  "providerCooldownFromError h config k now =
     (if \<not> pk_cooldown k then None
      else Some (iso_string h (now + providerCooldownDurationMs config k 1 0), pk_reason k))"

definition markQueueJobProviderDeferredFromProcessed ::
  "host \<Rightarrow> queue_job \<Rightarrow> pull_summary \<Rightarrow> (string \<times> string) option \<Rightarrow> int \<Rightarrow> db \<Rightarrow> unit outcome" where
  "markQueueJobProviderDeferredFromProcessed h j pull direct now d =
     (let processed = getProcessedReview (q_repo j) (ps_number pull) (ps_head pull) d;
          parsed = parseProviderCooldownError (Option.bind processed pr_error);
          repoCooldown = getActiveRepoProviderCooldown (q_repo j) now d;
          cooldownUntil = coalesce (map_option pcd_until parsed)
            (coalesce (map_option (\<lambda>c. iso_string h (cd_until c)) repoCooldown) (map_option fst direct));
          reason = coalesce (Option.bind parsed pcd_reason) (coalesce (map_option cd_reason repoCooldown) (map_option snd direct))
      in update_queue h ((queue_change (q_job_id j) Q_provider_deferred
           (case Option.bind processed pr_error of Some e \<Rightarrow> e
            | None \<Rightarrow> (case truthy cooldownUntil of
                Some u \<Rightarrow> ''repo_provider_cooldown_until='' @ u @ ''; reason='' @ or_default reason ''provider_cooldown''
              | None \<Rightarrow> ''provider_deferred_without_cooldown'')) now)\<lparr>qu_next_eligible_at := truthy cooldownUntil\<rparr>) d)"

definition LICENSE_GATE_RETRY_DELAY_MS :: int where "LICENSE_GATE_RETRY_DELAY_MS = 15 * 60000"

definition updateQueueJobAfterReviewStatus ::
  "host \<Rightarrow> queue_job \<Rightarrow> pull_summary \<Rightarrow> review_pull_result \<Rightarrow> bool \<Rightarrow> int \<Rightarrow> db \<Rightarrow> unit outcome" where
  "updateQueueJobAfterReviewStatus h j pull status dryRun now d =
     (let processed = getProcessedReview (q_repo j) (ps_number pull) (ps_head pull) d;
          url = truthy (Option.bind processed pr_review_url); error = Option.bind processed pr_error;
          set = (\<lambda>st err. update_queue h (queue_change (q_job_id j) st err now) d);
          set_url = (\<lambda>st err. update_queue h ((queue_change (q_job_id j) st err now)\<lparr>qu_review_url := url\<rparr>) d)
      in case status of
           RV_reviewed \<Rightarrow> set_url (if dryRun then Q_queued else Q_posted) (if dryRun then ''dry_run_completed_not_posted'' else ''reviewed'')
         | RV_reviewed_command \<Rightarrow>
             set_url (if dryRun then Q_queued else Q_posted) (if dryRun then ''dry_run_completed_not_posted'' else ''reviewed_command'')
         | RV_posted_stale_head \<Rightarrow> set_url Q_stale_retired ''review_posted_head_changed''
         | RV_posted_head_unverified \<Rightarrow> set_url Q_failed ''posted_head_unverified''
         | RV_skipped_consumed_authorization \<Rightarrow> set Q_failed ''skipped_consumed_authorization''
         | RV_skipped_provider_cooldown \<Rightarrow> markQueueJobProviderDeferredFromProcessed h j pull None now d
         | RV_skipped_stale_head \<Rightarrow> set Q_stale_retired ''review_pull_returned_stale_head''
         | RV_skipped_closed \<Rightarrow> set Q_closed_retired (or_default error ''closed_or_merged_before_review'')
         | RV_skipped_processed \<Rightarrow>
             if isProviderCooldownError error then markQueueJobProviderDeferredFromProcessed h j pull None now d
             else set_url (reviewQueueJobStateForProcessedStatus (map_option pr_status processed) error)
               (if error = Some BASE_MERGE_ONLY then BASE_MERGE_ONLY
                else ''processed_head_already_'' @ (case processed of None \<Rightarrow> ''unknown'' | Some p \<Rightarrow> status_text (pr_status p)))
         | RV_skipped_capacity \<Rightarrow> set Q_queued ''legacy_review_capacity_busy''
         | RV_skipped_context_budget \<Rightarrow> set Q_failed (or_default error ''context_budget_overflow'')
         | RV_skipped_canary \<Rightarrow> set Q_failed ''unexpected_scheduler_review_status=skipped_canary''
         | RV_skipped_policy \<Rightarrow> set Q_failed ''unexpected_scheduler_review_status=skipped_policy''
         | RV_skipped_license_gate \<Rightarrow>
             update_queue h ((queue_change (q_job_id j) Q_blocked_on_proof
               (or_default (Option.bind (getReviewReadiness (q_repo j) (ps_number pull) (ps_head pull) d) rr_reason) ''license_entitlement_required'')
               now)\<lparr>qu_next_eligible_at := Some (iso_string h (now + LICENSE_GATE_RETRY_DELAY_MS))\<rparr>) d
         | RV_skipped_base_merge_only \<Rightarrow> set Q_stale_retired BASE_MERGE_ONLY
         | RV_untrusted_author_public_repo \<Rightarrow> set Q_stale_retired (author_gate_text AG_untrusted_author_public_repo)
         | RV_untrusted_author_provider_unavailable \<Rightarrow> set Q_stale_retired (author_gate_text AG_untrusted_author_provider_unavailable)
         | RV_untrusted_author_restricted_unavailable \<Rightarrow> set Q_stale_retired (author_gate_text AG_untrusted_author_restricted_unavailable)
         | RV_skipped_draft \<Rightarrow> set Q_stale_retired ''draft_pr''
         | RV_skipped_command_stop \<Rightarrow> set Q_command_recorded ''manual_command_stop_recorded''
         | RV_skipped_command_explain \<Rightarrow> set Q_command_recorded ''manual_command_explain_recorded''
         | RV_skipped_finishing_touch_draft \<Rightarrow> set Q_command_recorded ''manual_command_finishing_touch_draft_recorded'')"

definition updateReviewerSessionJobFromQueueStatus ::
  "queue_job \<Rightarrow> session_job_state \<Rightarrow> processed_status option \<Rightarrow> int \<Rightarrow> db \<Rightarrow> unit outcome" where
  "updateReviewerSessionJobFromQueueStatus j st processedStatus now d =
     (if truthy (q_session_id j) = None then (Inr (), d)
      else and_then (updateReviewerSessionJobState (q_repo j) (q_pull j) (q_head j) st processedStatus now d) (\<lambda>_ d. (Inr (), d)))"

definition updateReviewerSessionJobAfterReviewStatus ::
  "queue_job \<Rightarrow> review_pull_result \<Rightarrow> bool \<Rightarrow> int \<Rightarrow> db \<Rightarrow> unit outcome" where
  "updateReviewerSessionJobAfterReviewStatus j status dryRun now d =
     (let set = (\<lambda>st ps. updateReviewerSessionJobFromQueueStatus j st ps now d);
          processed = getProcessedReview (q_repo j) (q_pull j) (q_head j) d
      in case status of
           RV_reviewed \<Rightarrow> set SJ_completed (Some (if dryRun then P_dry_run else P_posted))
         | RV_reviewed_command \<Rightarrow> set SJ_completed (Some (if dryRun then P_dry_run else P_posted))
         | RV_posted_stale_head \<Rightarrow> set SJ_failed (Some P_failed)
         | RV_posted_head_unverified \<Rightarrow> set SJ_failed (Some P_failed)
         | RV_skipped_consumed_authorization \<Rightarrow> set SJ_failed (Some P_failed)
         | RV_skipped_processed \<Rightarrow>
             if isProviderCooldownError (Option.bind processed pr_error) then set SJ_assigned (map_option pr_status processed)
             else set (reviewerSessionJobStateForProcessedStatus (map_option pr_status processed)) (map_option pr_status processed)
         | RV_skipped_provider_cooldown \<Rightarrow> set SJ_assigned None
         | RV_skipped_capacity \<Rightarrow> set SJ_assigned None
         | _ \<Rightarrow> set SJ_skipped (Some P_skipped))"

definition syncReadinessForReviewResult ::
  "host \<Rightarrow> queue_job \<Rightarrow> pull_summary \<Rightarrow> review_pull_result \<Rightarrow> int \<Rightarrow> db \<Rightarrow> unit outcome" where
  "syncReadinessForReviewResult h j pull status now d =
     (case (if status = RV_skipped_processed
            then (case getReviewEventAuthorizationConsumption (q_repo j) (ps_number pull) (ps_head pull) d of
                Inl e \<Rightarrow> Inl e
              | Inr c \<Rightarrow> Inr (case c of None \<Rightarrow> False
                  | Some x \<Rightarrow> co_terminal_no_op x \<and> truthy (co_terminal_reason x) \<noteq> None \<and> co_terminal_at x \<noteq> None))
            else Inr False) of
        Inl e \<Rightarrow> (Inl e, d)
      | Inr True \<Rightarrow> (Inr (), d)
      | Inr False \<Rightarrow>
          (let processed = getProcessedReview (q_repo j) (ps_number pull) (ps_head pull) d;
               existing = (if status = RV_skipped_license_gate
                 then getReviewReadiness (q_repo j) (ps_number pull) (ps_head pull) d else None);
               kept = (case existing of None \<Rightarrow> None | Some r \<Rightarrow> if rr_state r = R_blocked_on_proof then truthy (rr_reason r) else None)
           in case readinessStateForReviewResult status processed of
                None \<Rightarrow> (Inr (), d)
              | Some st \<Rightarrow> recordReadinessTransition h ((readiness_of (q_repo j) (ps_number pull) (ps_head pull) st
                    (or_default kept (readinessReasonForReviewResult status processed)) now)
                    \<lparr>ri_event := Option.bind processed pr_event, ri_review_url := Option.bind processed pr_review_url\<rparr>) d))"


section \<open>One leased job\<close>

definition shouldMarkJobReviewing :: "queue_job \<Rightarrow> db \<Rightarrow> bool" where
  "shouldMarkJobReviewing j d =
     (if q_source j \<noteq> QS_manual_command then True
      else (case Option.bind (getReviewReadiness (q_repo j) (q_pull j) (q_head j) d) rr_command_action of
          Some a \<Rightarrow> isReviewCommandAction a | None \<Rightarrow> True))"

definition isProviderDeferredRetryJob :: "queue_job \<Rightarrow> bool" where
  "isProviderDeferredRetryJob j \<longleftrightarrow> isProviderCooldownError (q_last_error j) \<or>
     (case q_last_error j of None \<Rightarrow> False
      | Some e \<Rightarrow> str_includes ''repo_provider_cooldown_until='' e \<or> e = ''provider_deferred_without_cooldown'')"

definition processedHeadPolicyForQueueJob :: "queue_job \<Rightarrow> pull_summary \<Rightarrow> db \<Rightarrow> processed_head_policy" where
  "processedHeadPolicyForQueueJob j pull d =
     (if isProviderDeferredRetryJob j then PH_retry_failed_head
      else (let processed = getProcessedReview (q_repo j) (ps_number pull) (ps_head pull) d
            in if map_option pr_status processed = Some P_failed \<or> isProviderCooldownError (Option.bind processed pr_error)
               then PH_retry_failed_head else PH_normal))"

text \<open>The \<open>reviewerSessions\<close> part of the configuration, if enabled, and the provider name it falls back to.\<close>

record session_config =
  sc_ttl_ms :: int
  sc_head_count_limit :: int
  sc_model :: string
  sc_provider :: string

text \<open>What a review throws: the message of the error, and whether it comes from the provider for untrusted authors.\<close>

record review_error =
  ve_message :: string
  ve_untrusted :: bool

record queue_run =
  qx_host :: host
  qx_job :: queue_job
  qx_dry_run :: bool
  qx_started_at :: int
  qx_done_at :: int
  qx_failed_at :: int
  qx_live :: "string + pull_summary"
  qx_admission :: license_admission
  qx_gate :: gate_settings
  qx_sessions :: "session_config option"
  qx_session_id :: string
  qx_pid :: int
  qx_reader :: error_reader
  qx_cooldown :: cooldown_config
  qx_draw :: "int \<Rightarrow> int"
  qx_store_message :: "store_error \<Rightarrow> string"
  qx_format :: "string \<Rightarrow> string option \<Rightarrow> string"
  qx_review :: "processed_head_policy \<Rightarrow> db \<Rightarrow> (review_error + review_pull_result) \<times> db"

datatype job_result = Ran review_pull_result | JobFailed | JobClosedRetired | JobStaleRetired

definition ensureReviewerSessionForLeasedJob :: "queue_run \<Rightarrow> db \<Rightarrow> string option outcome" where
  "ensureReviewerSessionForLeasedJob x d =
     (let j = qx_job x
      in case qx_sessions x of
           None \<Rightarrow> (Inr (q_session_id j), d)
         | Some c \<Rightarrow>
             if truthy (q_session_id j) \<noteq> None then (Inr (q_session_id j), d)
             else if q_source j = QS_manual_command then (Inr None, d)
             else and_then (assignReviewerSessionJob (qx_host x) (qx_pid x) (qx_session_id x)
                 \<lparr>as_repo = q_repo j, as_pull = q_pull j, as_head = q_head j, as_ttl_ms = sc_ttl_ms c,
                  as_head_count_limit = sc_head_count_limit c, as_now = qx_started_at x, as_worker_pid = None,
                  as_model = Some (sc_model c), as_provider = Some (or_default (q_provider_id j) (sc_provider c)),
                  as_zcode_cli_version = None, as_repo_family = None, as_reason = None, as_allow_processed = False\<rparr> d)
               (\<lambda>assignment d. case truthy (map_option rs_session_id (case assignment of
                      AlreadyProcessed \<Rightarrow> None | AlreadyAssigned s _ \<Rightarrow> s | Assigned s _ _ \<Rightarrow> Some s)) of
                    None \<Rightarrow> (Inr None, d)
                  | Some sid \<Rightarrow> and_then (update_queue (qx_host x) ((queue_change (q_job_id j) Q_running [] (qx_started_at x))
                        \<lparr>qu_last_error := None, qu_session_id := Some sid, qu_clear_lease := Some False\<rparr>) d)
                      (\<lambda>_ d. (Inr (Some sid), d))))"

text \<open>A job that the live pull request has overtaken.\<close>

definition retire_leased_job ::
  "queue_run \<Rightarrow> pull_summary \<Rightarrow> queue_state \<Rightarrow> readiness_state \<Rightarrow> string \<Rightarrow> db \<Rightarrow> unit outcome" where
  "retire_leased_job x pull st rst reason d =
     (let j = qx_job x; now = qx_started_at x
      in and_then (update_queue (qx_host x) (queue_change (q_job_id j) st reason now) d) (\<lambda>_ d.
         and_then (recordReadinessTransition (qx_host x) (readiness_of (q_repo j) (ps_number pull) (q_head j) rst reason now) d) (\<lambda>_ d.
         updateReviewerSessionJobFromQueueStatus j SJ_skipped (Some P_skipped) now d)))"

text \<open>The pull request could not be fetched.\<close>

definition fail_refetch :: "queue_run \<Rightarrow> string \<Rightarrow> db \<Rightarrow> unit outcome" where
  "fail_refetch x message d =
     (let j = qx_job x; now = qx_started_at x
      in and_then (update_queue (qx_host x) (queue_change (q_job_id j) Q_failed message now) d) (\<lambda>_ d.
         and_then (recordReadinessTransition (qx_host x)
           (readiness_of (q_repo j) (q_pull j) (q_head j) R_failed (''github_refetch_failed: '' @ message) now) d) (\<lambda>_ d.
         updateReviewerSessionJobFromQueueStatus j SJ_failed (Some P_failed) now d)))"

text \<open>A result that the guards before the review give.\<close>

definition skip_leased_job :: "queue_run \<Rightarrow> pull_summary \<Rightarrow> review_pull_result \<Rightarrow> db \<Rightarrow> unit outcome" where
  "skip_leased_job x pull status d =
     and_then (updateQueueJobAfterReviewStatus (qx_host x) (qx_job x) pull status (qx_dry_run x) (qx_started_at x) d) (\<lambda>_ d.
     updateReviewerSessionJobAfterReviewStatus (qx_job x) status (qx_dry_run x) (qx_started_at x) d)"

text \<open>What the result of the review leaves; an exception in it is handled like one of the review.\<close>

definition settle_result :: "queue_run \<Rightarrow> queue_job \<Rightarrow> pull_summary \<Rightarrow> review_pull_result \<Rightarrow> db \<Rightarrow> unit outcome" where
  "settle_result x j pull status d =
     and_then (updateQueueJobAfterReviewStatus (qx_host x) (qx_job x) pull status (qx_dry_run x) (qx_done_at x) d) (\<lambda>_ d.
     and_then (syncReadinessForReviewResult (qx_host x) (qx_job x) pull status (qx_done_at x) d) (\<lambda>_ d.
     updateReviewerSessionJobAfterReviewStatus j status (qx_dry_run x) (qx_done_at x) d))"

definition review_leased_job :: "queue_run \<Rightarrow> queue_job \<Rightarrow> pull_summary \<Rightarrow> db \<Rightarrow> (review_error + review_pull_result) \<times> db" where
  "review_leased_job x j pull d =
     (case qx_review x (processedHeadPolicyForQueueJob (qx_job x) pull d) d of
        (Inl e, d1) \<Rightarrow> (Inl e, d1)
      | (Inr status, d1) \<Rightarrow> (case settle_result x j pull status d1 of
            (Inl e, d2) \<Rightarrow> (Inl \<lparr>ve_message = qx_store_message x e, ve_untrusted = False\<rparr>, d2)
          | (Inr _, d2) \<Rightarrow> (Inr status, d2)))"

definition review_failed :: "queue_run \<Rightarrow> queue_job \<Rightarrow> pull_summary \<Rightarrow> review_error \<Rightarrow> db \<Rightarrow> job_result outcome" where
  "review_failed x j pull e d =
     (let h = qx_host x; now = qx_failed_at x; k = classifyProviderError (qx_reader x) (ve_message e);
          call = \<lparr>pcl_config = qx_cooldown x, pcl_class = k, pcl_untrusted = ve_untrusted e, pcl_preserve_dry_run = False,
            pcl_format = qx_format x (ve_message e), pcl_draw = qx_draw x\<rparr>;
          cooled = recordProviderRateLimitCooldownIfNeeded h call (q_repo j) (ps_number pull) (ps_head pull) now now d
      in if fst cooled
         then and_then (markQueueJobProviderDeferredFromProcessed h (qx_job x) pull
                (providerCooldownFromError h (qx_cooldown x) k now) now (snd cooled)) (\<lambda>_ d.
              and_then (recordReadinessTransition h
                (readiness_of (q_repo j) (ps_number pull) (ps_head pull) R_provider_deferred ''provider_rate_limit_cooldown'' now) d) (\<lambda>_ d.
              and_then (updateReviewerSessionJobFromQueueStatus j SJ_assigned None now d) (\<lambda>_ d.
              (Inr (Ran RV_skipped_provider_cooldown), d))))
         else (let failed = recordFailedReview (qx_format x (ve_message e)) False (q_repo j) (ps_number pull) (ps_head pull) now (snd cooled)
           in and_then (update_queue h (queue_change (q_job_id j) Q_failed (fst failed) now) (snd failed)) (\<lambda>_ d.
              and_then (recordReadinessTransition h
                (readiness_of (q_repo j) (ps_number pull) (ps_head pull) R_failed (''review_failed: '' @ fst failed) now) d) (\<lambda>_ d.
              and_then (updateReviewerSessionJobFromQueueStatus j SJ_failed (Some P_failed) now d) (\<lambda>_ d. (Inr JobFailed, d))))))"

definition pull_closed :: "pull_summary \<Rightarrow> bool" where
  "pull_closed pull \<longleftrightarrow> (case truthy (ps_state pull) of None \<Rightarrow> False | Some st \<Rightarrow> st \<noteq> ''open'')"

definition closed_reason :: "pull_summary \<Rightarrow> string" where
  "closed_reason pull = ''closed_or_merged_before_review state='' @ or_default (ps_state pull) ''unknown''"

definition base_moved :: "queue_job \<Rightarrow> pull_summary \<Rightarrow> bool" where
  "base_moved j pull \<longleftrightarrow> q_source j \<noteq> QS_manual_command \<and>
     (case truthy (q_base_sha j) of None \<Rightarrow> False | Some b \<Rightarrow> ps_base pull \<noteq> b)"

text \<open>The run once the pull request has passed its guards.\<close>

definition run_admitted_job :: "queue_run \<Rightarrow> pull_summary \<Rightarrow> db \<Rightarrow> job_result outcome" where
  "run_admitted_job x pull d =
     and_then (ensureReviewerSessionForLeasedJob x d) (\<lambda>sessionId d.
       (let j = (case truthy sessionId of None \<Rightarrow> qx_job x | Some sid \<Rightarrow> (qx_job x)\<lparr>q_session_id := Some sid\<rparr>)
        in and_then (updateReviewerSessionJobFromQueueStatus j SJ_running None (qx_started_at x) d) (\<lambda>_ d.
           (case review_leased_job x j pull d of
              (Inr status, d1) \<Rightarrow> (Inr (Ran status), d1)
            | (Inl e, d1) \<Rightarrow> review_failed x j pull e d1))))"

definition run_fetched_job :: "queue_run \<Rightarrow> pull_summary \<Rightarrow> db \<Rightarrow> job_result outcome" where
  "run_fetched_job x pull d =
     (let j = qx_job x
      in if authorizeAdmissionForVisibility (qx_admission x) (visibilityFromPullSummary pull) (Some LO_review_discovery) \<noteq> Inr ()
         then and_then (skip_leased_job x pull RV_skipped_license_gate d) (\<lambda>_ d. (Inr (Ran RV_skipped_license_gate), d))
         else if pull_closed pull
         then and_then (retire_leased_job x pull Q_closed_retired R_closed (closed_reason pull) d) (\<lambda>_ d. (Inr JobClosedRetired, d))
         else if ps_head pull \<noteq> q_head j
         then and_then (retire_leased_job x pull Q_stale_retired R_stale (''stale_head_before_review live='' @ ps_head pull) d)
                (\<lambda>_ d. (Inr JobStaleRetired, d))
         else and_then (recordPublicRepoAuthorGateSkip (qx_host x) (qx_gate x) (q_repo j) pull (visibilityFromPullSummary pull)
                  (qx_started_at x) d) (\<lambda>turnedAway d.
              if turnedAway
              then and_then (skip_leased_job x pull RV_untrusted_author_public_repo d) (\<lambda>_ d. (Inr (Ran RV_untrusted_author_public_repo), d))
              else if base_moved j pull
              then and_then (retire_leased_job x pull Q_stale_retired R_stale (''base_changed_before_review live='' @ ps_base pull) d)
                     (\<lambda>_ d. (Inr JobStaleRetired, d))
              else run_admitted_job x pull d))"

definition runLeasedQueueJob :: "queue_run \<Rightarrow> db \<Rightarrow> job_result outcome" where
  "runLeasedQueueJob x d =
     (let j = qx_job x; h = qx_host x; now = qx_started_at x
      in and_then (update_queue h ((queue_change (q_job_id j) Q_running [] now)\<lparr>qu_last_error := None\<rparr>) d) (\<lambda>_ d.
         and_then (if shouldMarkJobReviewing j d
             then recordReadinessTransition h (readiness_of (q_repo j) (q_pull j) (q_head j) R_reviewing ''queue_job_running'' now) d
             else (Inr (), d)) (\<lambda>_ d.
         (case qx_live x of
            Inl message \<Rightarrow> and_then (fail_refetch x message d) (\<lambda>_ d. (Inr JobFailed, d))
          | Inr pull \<Rightarrow> run_fetched_job x pull d))))"


section \<open>Where a job is left\<close>

lemma and_thenD:
  assumes "and_then r f = (Inr y, d')"
  obtains x d1 where "r = (Inr x, d1)" "f x d1 = (Inr y, d')"
  using assms by (cases r; cases "fst r") (auto simp: and_then_def)

lemma and_then_simps [simp]:
  "and_then (Inr x, d) f = f x d" "and_then (Inl e, d) f = (Inl e, d)"
  by (simp_all add: and_then_def)

lemma readiness_frame:
  "queue (snd (recordReviewReadiness h i d)) = queue d" "processed (snd (recordReviewReadiness h i d)) = processed d"
  "session_jobs (snd (recordReviewReadiness h i d)) = session_jobs d" "consumptions (snd (recordReviewReadiness h i d)) = consumptions d"
  by (simp_all add: recordReviewReadiness_def Let_def split: option.split)

lemma transition_frame:
  assumes "recordReadinessTransition h i d = (r, d')"
  shows "queue d' = queue d" "processed d' = processed d" "session_jobs d' = session_jobs d" "consumptions d' = consumptions d"
proof -
  define i' where "i' = i\<lparr>ri_review_url := truthy (ri_review_url i),
    ri_command_comment_id := (if ri_command_comment_id i = Some 0 then None else ri_command_comment_id i)\<rparr>"
  have "d' = snd (recordReviewReadiness h i' d)"
    using assms by (cases "recordReviewReadiness h i' d"; cases "fst (recordReviewReadiness h i' d)")
      (auto simp: recordReadinessTransition_def i'_def[symmetric] and_then_def)
  then show "queue d' = queue d" "processed d' = processed d" "session_jobs d' = session_jobs d" "consumptions d' = consumptions d"
    by (simp_all add: readiness_frame)
qed

lemma session_status_frame:
  assumes "updateReviewerSessionJobFromQueueStatus j st ps now d = (r, d')"
  shows "queue d' = queue d" "processed d' = processed d" "readiness d' = readiness d" "consumptions d' = consumptions d"
  using assms
  by (auto simp: updateReviewerSessionJobFromQueueStatus_def and_then_def updateReviewerSessionJobState_def
      expireDrainedReviewerSessionIfComplete_def Let_def split: if_splits option.splits)

lemma session_after_status:
  "\<exists>st ps. updateReviewerSessionJobAfterReviewStatus j status dry now d = updateReviewerSessionJobFromQueueStatus j st ps now d"
  unfolding updateReviewerSessionJobAfterReviewStatus_def Let_def
  by (cases status; simp split: if_split; blast)

lemma session_after_frame:
  assumes "updateReviewerSessionJobAfterReviewStatus j status dry now d = (r, d')"
  shows "queue d' = queue d" "processed d' = processed d" "readiness d' = readiness d" "consumptions d' = consumptions d"
proof -
  obtain st ps where "updateReviewerSessionJobFromQueueStatus j st ps now d = (r, d')"
    using session_after_status[of j status dry now d] assms by auto
  from session_status_frame[OF this] show "queue d' = queue d" "processed d' = processed d" "readiness d' = readiness d"
    "consumptions d' = consumptions d" .
qed

lemma sync_readiness_frame:
  assumes "syncReadinessForReviewResult h j pull status now d = (r, d')"
  shows "queue d' = queue d" "processed d' = processed d" "session_jobs d' = session_jobs d"
  using assms unfolding syncReadinessForReviewResult_def Let_def
  by (auto split: if_splits sum.splits bool.splits option.splits dest: transition_frame)

text \<open>The job is stored in one of the states, without a lease.\<close>

definition job_in :: "string \<Rightarrow> queue_state list \<Rightarrow> db \<Rightarrow> bool" where
  "job_in jobId sts d \<longleftrightarrow> (case getReviewQueueJob jobId d of None \<Rightarrow> False
     | Some r \<Rightarrow> q_state r \<in> set sts \<and> q_lease_id r = None)"

lemma job_in_queue: "queue d' = queue d \<Longrightarrow> job_in k sts d' = job_in k sts d"
  by (simp add: job_in_def getReviewQueueJob_def)

lemma job_in_mono: "job_in k sts d \<Longrightarrow> set sts \<subseteq> set sts' \<Longrightarrow> job_in k sts' d"
  by (auto simp: job_in_def split: option.splits)

lemma update_queue_row:
  assumes "update_queue h u d = (Inr (), d')"
  obtains r where "row_get q_job_id (qu_job_id u) (queue d) = Some r"
    "getReviewQueueJob (qu_job_id u) d' = Some (mapReviewQueueJobRow (updated_queue_row h u r))"
    "queue d' = row_update (\<lambda>r. q_job_id r = qu_job_id u) (updated_queue_row h u) (queue d)"
    "processed d' = processed d" "readiness d' = readiness d" "session_jobs d' = session_jobs d"
proof -
  from assms obtain q where "updateReviewQueueJobState h u d = (Inr q, d')"
    by (auto simp: update_queue_def elim: and_thenD)
  then obtain r0 where r0: "row_get q_job_id (qu_job_id u) (queue d) = Some r0"
    and d': "d' = d\<lparr>queue := row_update (\<lambda>r. q_job_id r = qu_job_id u) (updated_queue_row h u) (queue d)\<rparr>"
    by (auto simp: updateReviewQueueJobState_def getReviewQueueJob_def Let_def split: option.splits)
  have key: "q_job_id (updated_queue_row h u r) = q_job_id r" for r by (simp add: updated_queue_row_def)
  have "q_job_id r0 = qu_job_id u" using r0 by (auto dest: row_get_SomeD)
  then show thesis
    by (intro that[OF r0]) (simp_all add: d' getReviewQueueJob_def row_get_update_key key r0)
qed

lemma update_queue_in:
  assumes "update_queue h u d = (Inr (), d')" "qu_clears u"
  shows "job_in (qu_job_id u) [qu_state u] d'"
proof -
  obtain r where "getReviewQueueJob (qu_job_id u) d' = Some (mapReviewQueueJobRow (updated_queue_row h u r))"
    using assms(1) by (rule update_queue_row)
  with assms(2) show ?thesis by (simp add: job_in_def mapReviewQueueJobRow_def updated_queue_row_def truthy_def)
qed

lemma mark_deferred_in:
  assumes "markQueueJobProviderDeferredFromProcessed h j pull direct now d = (Inr (), d')"
  shows "job_in (q_job_id j) [Q_provider_deferred] d'"
  using update_queue_in[OF assms[unfolded markQueueJobProviderDeferredFromProcessed_def Let_def]]
  by (simp add: queue_change_def qu_clears_def or_default_def)

fun result_states :: "bool \<Rightarrow> review_pull_result \<Rightarrow> queue_state list" where
  "result_states dry RV_reviewed = [if dry then Q_queued else Q_posted]"
| "result_states dry RV_reviewed_command = [if dry then Q_queued else Q_posted]"
| "result_states dry RV_posted_stale_head = [Q_stale_retired]"
| "result_states dry RV_posted_head_unverified = [Q_failed]"
| "result_states dry RV_skipped_consumed_authorization = [Q_failed]"
| "result_states dry RV_skipped_provider_cooldown = [Q_provider_deferred]"
| "result_states dry RV_skipped_stale_head = [Q_stale_retired]"
| "result_states dry RV_skipped_closed = [Q_closed_retired]"
| "result_states dry RV_skipped_processed = [Q_provider_deferred, Q_failed, Q_stale_retired, Q_posted, Q_queued]"
| "result_states dry RV_skipped_capacity = [Q_queued]"
| "result_states dry RV_skipped_context_budget = [Q_failed]"
| "result_states dry RV_skipped_canary = [Q_failed]"
| "result_states dry RV_skipped_policy = [Q_failed]"
| "result_states dry RV_skipped_license_gate = [Q_blocked_on_proof]"
| "result_states dry RV_skipped_base_merge_only = [Q_stale_retired]"
| "result_states dry RV_untrusted_author_public_repo = [Q_stale_retired]"
| "result_states dry RV_untrusted_author_provider_unavailable = [Q_stale_retired]"
| "result_states dry RV_untrusted_author_restricted_unavailable = [Q_stale_retired]"
| "result_states dry RV_skipped_draft = [Q_stale_retired]"
| "result_states dry RV_skipped_command_stop = [Q_command_recorded]"
| "result_states dry RV_skipped_command_explain = [Q_command_recorded]"
| "result_states dry RV_skipped_finishing_touch_draft = [Q_command_recorded]"

fun job_result_states :: "bool \<Rightarrow> job_result \<Rightarrow> queue_state list" where
  "job_result_states dry (Ran status) = result_states dry status"
| "job_result_states dry JobFailed = [Q_failed]"
| "job_result_states dry JobClosedRetired = [Q_closed_retired]"
| "job_result_states dry JobStaleRetired = [Q_stale_retired]"

lemma result_state_clears:
  "set (result_states dry status) \<subseteq> {st. isTerminalQueueState st \<or> st = Q_queued \<or> st = Q_provider_deferred \<or> st = Q_blocked_on_proof}"
  by (cases status) (auto simp: isTerminalQueueState_def)

lemma queue_result_in:
  assumes "updateQueueJobAfterReviewStatus h j pull status dry now d = (Inr (), d')"
  shows "job_in (q_job_id j) (result_states dry status) d'"
proof -
  have set: "job_in (q_job_id j) [st] d'" if "update_queue h (queue_change (q_job_id j) st err now) d = (Inr (), d')"
    "isTerminalQueueState st \<or> st = Q_queued" for st err
    using update_queue_in[OF that(1)] that(2) by (auto simp: queue_change_def qu_clears_def or_default_def)
  have set_url: "job_in (q_job_id j) [st] d'"
    if "update_queue h ((queue_change (q_job_id j) st err now)\<lparr>qu_review_url := u\<rparr>) d = (Inr (), d')"
    "isTerminalQueueState st \<or> st = Q_queued" for st err u
    using update_queue_in[OF that(1)] that(2) by (auto simp: queue_change_def qu_clears_def or_default_def)
  have gate: "job_in (q_job_id j) [Q_blocked_on_proof] d'"
    if "update_queue h ((queue_change (q_job_id j) Q_blocked_on_proof err now)\<lparr>qu_next_eligible_at := u\<rparr>) d = (Inr (), d')" for err u
    using update_queue_in[OF that(1)] by (auto simp: queue_change_def qu_clears_def or_default_def)
  have ps: "isTerminalQueueState (reviewQueueJobStateForProcessedStatus p e) \<or> reviewQueueJobStateForProcessedStatus p e = Q_queued"
    "reviewQueueJobStateForProcessedStatus p e \<in> {Q_failed, Q_stale_retired, Q_posted, Q_queued}" for p e
    by (auto simp: reviewQueueJobStateForProcessedStatus_def isTerminalQueueState_def split: option.split processed_status.split)
  show ?thesis
  proof (cases "status = RV_skipped_processed")
    case True
    show ?thesis
    proof (cases "isProviderCooldownError (Option.bind (getProcessedReview (q_repo j) (ps_number pull) (ps_head pull) d) pr_error)")
      case c: True
      then have "job_in (q_job_id j) [Q_provider_deferred] d'"
        using assms True by (auto simp: updateQueueJobAfterReviewStatus_def Let_def intro: mark_deferred_in)
      then show ?thesis using True by (auto intro: job_in_mono)
    next
      case False
      let ?p = "getProcessedReview (q_repo j) (ps_number pull) (ps_head pull) d"
      let ?st = "reviewQueueJobStateForProcessedStatus (map_option pr_status ?p) (Option.bind ?p pr_error)"
      have "job_in (q_job_id j) [?st] d'"
        using assms True False ps(1) by (auto simp: updateQueueJobAfterReviewStatus_def Let_def intro: set_url)
      moreover have "set [?st] \<subseteq> set (result_states dry status)"
        using ps(2)[of "map_option pr_status ?p" "Option.bind ?p pr_error"] True by auto
      ultimately show ?thesis by (rule job_in_mono)
    qed
  next
    case False
    with assms show ?thesis
      by (cases status) (auto simp: updateQueueJobAfterReviewStatus_def Let_def isTerminalQueueState_def
        intro!: mark_deferred_in intro: set set_url gate)
  qed
qed


lemma transition_unit: "recordReadinessTransition h i d = (Inr u, d') \<Longrightarrow> u = ()" by simp

lemma retire_in:
  assumes "retire_leased_job x pull st rst reason d = (Inr u, d')" "isTerminalQueueState st"
  shows "job_in (q_job_id (qx_job x)) [st] d'"
proof -
  from assms(1) obtain d1 d2 where d1: "update_queue (qx_host x) (queue_change (q_job_id (qx_job x)) st reason (qx_started_at x)) d = (Inr (), d1)"
    and d2: "recordReadinessTransition (qx_host x) (readiness_of (q_repo (qx_job x)) (ps_number pull) (q_head (qx_job x)) rst reason
        (qx_started_at x)) d1 = (Inr (), d2)"
    and d': "updateReviewerSessionJobFromQueueStatus (qx_job x) SJ_skipped (Some P_skipped) (qx_started_at x) d2 = (Inr u, d')"
    by (auto simp: retire_leased_job_def Let_def elim!: and_thenD)
  have "job_in (q_job_id (qx_job x)) [st] d1"
    using update_queue_in[OF d1] assms(2) by (simp add: queue_change_def qu_clears_def or_default_def)
  then show ?thesis using job_in_queue transition_frame(1)[OF d2] session_status_frame(1)[OF d'] by metis
qed

lemma refetch_in:
  assumes "fail_refetch x message d = (Inr u, d')"
  shows "job_in (q_job_id (qx_job x)) [Q_failed] d'"
proof -
  from assms obtain d1 d2 where d1: "update_queue (qx_host x) (queue_change (q_job_id (qx_job x)) Q_failed message (qx_started_at x)) d = (Inr (), d1)"
    and d2: "recordReadinessTransition (qx_host x) (readiness_of (q_repo (qx_job x)) (q_pull (qx_job x)) (q_head (qx_job x)) R_failed
        (''github_refetch_failed: '' @ message) (qx_started_at x)) d1 = (Inr (), d2)"
    and d': "updateReviewerSessionJobFromQueueStatus (qx_job x) SJ_failed (Some P_failed) (qx_started_at x) d2 = (Inr u, d')"
    by (auto simp: fail_refetch_def Let_def elim!: and_thenD)
  have "job_in (q_job_id (qx_job x)) [Q_failed] d1"
    using update_queue_in[OF d1] by (simp add: queue_change_def qu_clears_def or_default_def isTerminalQueueState_def)
  then show ?thesis using job_in_queue transition_frame(1)[OF d2] session_status_frame(1)[OF d'] by metis
qed

lemma skip_in:
  assumes "skip_leased_job x pull status d = (Inr u, d')"
  shows "job_in (q_job_id (qx_job x)) (result_states (qx_dry_run x) status) d'"
proof -
  from assms obtain d1 where d1: "updateQueueJobAfterReviewStatus (qx_host x) (qx_job x) pull status (qx_dry_run x) (qx_started_at x) d = (Inr (), d1)"
    and d': "updateReviewerSessionJobAfterReviewStatus (qx_job x) status (qx_dry_run x) (qx_started_at x) d1 = (Inr u, d')"
    by (auto simp: skip_leased_job_def elim!: and_thenD)
  show ?thesis using queue_result_in[OF d1] job_in_queue session_after_frame(1)[OF d'] by metis
qed

lemma settle_in:
  assumes "settle_result x j pull status d = (Inr u, d')"
  shows "job_in (q_job_id (qx_job x)) (result_states (qx_dry_run x) status) d'"
proof -
  from assms obtain d1 d2 where d1: "updateQueueJobAfterReviewStatus (qx_host x) (qx_job x) pull status (qx_dry_run x) (qx_done_at x) d = (Inr (), d1)"
    and d2: "syncReadinessForReviewResult (qx_host x) (qx_job x) pull status (qx_done_at x) d1 = (Inr (), d2)"
    and d': "updateReviewerSessionJobAfterReviewStatus j status (qx_dry_run x) (qx_done_at x) d2 = (Inr u, d')"
    by (auto simp: settle_result_def elim!: and_thenD)
  show ?thesis using queue_result_in[OF d1] job_in_queue sync_readiness_frame(1)[OF d2] session_after_frame(1)[OF d'] by metis
qed

lemma failed_in:
  assumes "review_failed x j pull e d = (Inr r, d')" "q_job_id j = q_job_id (qx_job x)"
  shows "job_in (q_job_id (qx_job x)) (job_result_states dry r) d'"
proof -
  let ?k = "classifyProviderError (qx_reader x) (ve_message e)"
  define cooled where "cooled = recordProviderRateLimitCooldownIfNeeded (qx_host x) \<lparr>pcl_config = qx_cooldown x, pcl_class = ?k,
    pcl_untrusted = ve_untrusted e, pcl_preserve_dry_run = False, pcl_format = qx_format x (ve_message e), pcl_draw = qx_draw x\<rparr>
    (q_repo j) (ps_number pull) (ps_head pull) (qx_failed_at x) (qx_failed_at x) d"
  show ?thesis
  proof (cases "fst cooled")
    case True
    with assms(1) obtain d1 d2 where
      d1: "markQueueJobProviderDeferredFromProcessed (qx_host x) (qx_job x) pull (providerCooldownFromError (qx_host x) (qx_cooldown x) ?k (qx_failed_at x))
          (qx_failed_at x) (snd cooled) = (Inr (), d1)"
      and d2: "recordReadinessTransition (qx_host x) (readiness_of (q_repo j) (ps_number pull) (ps_head pull) R_provider_deferred
          ''provider_rate_limit_cooldown'' (qx_failed_at x)) d1 = (Inr (), d2)"
      and d': "updateReviewerSessionJobFromQueueStatus j SJ_assigned None (qx_failed_at x) d2 = (Inr (), d')"
      and r: "r = Ran RV_skipped_provider_cooldown"
      unfolding review_failed_def Let_def cooled_def[symmetric] by (auto elim!: and_thenD)
    show ?thesis using mark_deferred_in[OF d1] job_in_queue transition_frame(1)[OF d2] session_status_frame(1)[OF d'] r by (metis job_result_states.simps(1) result_states.simps(6))
  next
    case False
    define failed where "failed = recordFailedReview (qx_format x (ve_message e)) False (q_repo j) (ps_number pull) (ps_head pull) (qx_failed_at x) (snd cooled)"
    from False assms(1) obtain d1 d2 where
      d1: "update_queue (qx_host x) (queue_change (q_job_id j) Q_failed (fst failed) (qx_failed_at x)) (snd failed) = (Inr (), d1)"
      and d2: "recordReadinessTransition (qx_host x) (readiness_of (q_repo j) (ps_number pull) (ps_head pull) R_failed
          (''review_failed: '' @ fst failed) (qx_failed_at x)) d1 = (Inr (), d2)"
      and d': "updateReviewerSessionJobFromQueueStatus j SJ_failed (Some P_failed) (qx_failed_at x) d2 = (Inr (), d')"
      and r: "r = JobFailed"
      unfolding review_failed_def Let_def cooled_def[symmetric] failed_def[symmetric] by (auto elim!: and_thenD)
    have "job_in (q_job_id j) [Q_failed] d1"
      using update_queue_in[OF d1] by (simp add: queue_change_def qu_clears_def or_default_def isTerminalQueueState_def)
    then show ?thesis using job_in_queue transition_frame(1)[OF d2] session_status_frame(1)[OF d'] r assms(2) by (metis job_result_states.simps(2))
  qed
qed

lemma admitted_in:
  assumes "run_admitted_job x pull d = (Inr r, d')"
  shows "job_in (q_job_id (qx_job x)) (job_result_states (qx_dry_run x) r) d'"
proof -
  from assms obtain sid d1 where d1: "ensureReviewerSessionForLeasedJob x d = (Inr sid, d1)"
    and rest: "(let j = (case truthy sid of None \<Rightarrow> qx_job x | Some sid \<Rightarrow> (qx_job x)\<lparr>q_session_id := Some sid\<rparr>)
        in and_then (updateReviewerSessionJobFromQueueStatus j SJ_running None (qx_started_at x) d1) (\<lambda>_ d.
           (case review_leased_job x j pull d of
              (Inr status, d1) \<Rightarrow> (Inr (Ran status), d1)
            | (Inl e, d1) \<Rightarrow> review_failed x j pull e d1))) = (Inr r, d')"
    unfolding run_admitted_job_def by (rule and_thenD)
  define j where "j = (case truthy sid of None \<Rightarrow> qx_job x | Some sid \<Rightarrow> (qx_job x)\<lparr>q_session_id := Some sid\<rparr>)"
  have j: "q_job_id j = q_job_id (qx_job x)" by (simp add: j_def split: option.split)
  from rest[folded j_def, unfolded Let_def] obtain d2 where
    "(case review_leased_job x j pull d2 of (Inr status, d1) \<Rightarrow> (Inr (Ran status), d1)
      | (Inl e, d1) \<Rightarrow> review_failed x j pull e d1) = (Inr r, d')"
    by (auto simp: Let_def j_def[symmetric] elim!: and_thenD)
  then show ?thesis
    by (auto simp: review_leased_job_def split: prod.splits sum.splits intro: failed_in[OF _ j] settle_in)
qed

lemma fetched_in:
  assumes "run_fetched_job x pull d = (Inr r, d')"
  shows "job_in (q_job_id (qx_job x)) (job_result_states (qx_dry_run x) r) d'"
proof -
  have terminal: "isTerminalQueueState Q_closed_retired" "isTerminalQueueState Q_stale_retired" by (simp_all add: isTerminalQueueState_def)
  note parts = skip_in[of x pull RV_untrusted_author_public_repo, simplified] skip_in[of x pull RV_skipped_license_gate, simplified]
    retire_in[OF _ terminal(1)] retire_in[OF _ terminal(2)] admitted_in
  show ?thesis
    using assms unfolding run_fetched_job_def Let_def
    by (auto split: if_splits elim!: and_thenD intro: parts) (blast intro: parts)+
qed

lemma run_in:
  assumes "runLeasedQueueJob x d = (Inr r, d')"
  shows "job_in (q_job_id (qx_job x)) (job_result_states (qx_dry_run x) r) d'"
  using assms unfolding runLeasedQueueJob_def Let_def
  by (auto split: if_splits sum.splits elim!: and_thenD intro: refetch_in fetched_in) (blast intro: refetch_in fetched_in)+

lemma job_result_inactive: "st \<in> set (job_result_states dry r) \<Longrightarrow> \<not> is_active_state st"
  by (cases r; cases "case r of Ran s \<Rightarrow> s | _ \<Rightarrow> RV_reviewed") (auto simp: is_active_state_def split: if_splits)


section \<open>Every leased job comes to rest\<close>

text \<open>A store with the job of the run and, when the run has the session \<open>s\<close>, the job of that session.\<close>

definition kept :: "queue_run \<Rightarrow> string option \<Rightarrow> db \<Rightarrow> bool" where
  "kept x s d \<longleftrightarrow> getReviewQueueJob (q_job_id (qx_job x)) d \<noteq> None \<and>
     (truthy s \<noteq> None \<longrightarrow> getReviewerSessionJob (q_repo (qx_job x)) (q_pull (qx_job x)) (q_head (qx_job x)) d \<noteq> None)"

text \<open>What a run relies on: its job is stored, and so is its session job if it has a session; the id drawn for a new
  session is in no row.\<close>

definition run_ready :: "queue_run \<Rightarrow> db \<Rightarrow> bool" where
  "run_ready x d \<longleftrightarrow> kept x (q_session_id (qx_job x)) d \<and>
     (qx_sessions x \<noteq> None \<longrightarrow> row_get rs_session_id (qx_session_id x) (sessions d) = None)"

definition goes_on :: "queue_run \<Rightarrow> string option \<Rightarrow> ('e + 'a) \<times> db \<Rightarrow> bool" where
  "goes_on x s r \<longleftrightarrow> (\<exists>v. fst r = Inr v) \<and> kept x s (snd r)"

lemma goes_on_then:
  assumes "goes_on x s r" "\<And>v d. r = (Inr v, d) \<Longrightarrow> kept x s d \<Longrightarrow> goes_on x s (f v d)"
  shows "goes_on x s (and_then r f)"
  using assms by (cases r) (auto simp: goes_on_def and_then_def)

lemma goes_on_return [simp]: "goes_on x s (Inr v, d) = kept x s d"
  by (simp add: goes_on_def)

lemma ready_same: "queue d' = queue d \<Longrightarrow> session_jobs d' = session_jobs d \<Longrightarrow> kept x s d' = kept x s d"
  by (simp add: kept_def getReviewQueueJob_def getReviewerSessionJob_def)

lemma goes_on_update:
  assumes "kept x s d" "qu_job_id u = q_job_id (qx_job x)"
  shows "goes_on x s (update_queue h u d)"
proof -
  let ?d = "d\<lparr>queue := row_update (\<lambda>r. q_job_id r = qu_job_id u) (updated_queue_row h u) (queue d)\<rparr>"
  have key: "q_job_id (updated_queue_row h u r) = q_job_id r" for r by (simp add: updated_queue_row_def)
  have "getReviewQueueJob (qu_job_id u) d \<noteq> None" using assms by (simp add: kept_def)
  then have run: "update_queue h u d = (Inr (), ?d)"
    by (auto simp: update_queue_def updateReviewQueueJobState_def Let_def)
  have "getReviewQueueJob (q_job_id (qx_job x)) ?d \<noteq> None"
    using assms by (simp add: kept_def getReviewQueueJob_def row_get_update_key[where key = q_job_id and f = "updated_queue_row h u", OF key])
  then show ?thesis using assms(1) by (simp add: run kept_def getReviewerSessionJob_def)
qed

lemma goes_on_transition:
  assumes "kept x s d" "validateReviewQueueInput (ri_repo i) (ri_pull i) (ri_head i) None None = None" "ri_command_comment_id i = None"
  shows "goes_on x s (recordReadinessTransition h i d)"
proof -
  define i' where "i' = i\<lparr>ri_review_url := truthy (ri_review_url i),
    ri_command_comment_id := (if ri_command_comment_id i = Some 0 then None else ri_command_comment_id i)\<rparr>"
  have "\<exists>v. fst (recordReviewReadiness h i' d) = Inr v"
  proof -
    have "validateReviewQueueInput (ri_repo i') (ri_pull i') (ri_head i') None (ri_command_comment_id i') = None"
      using assms(2,3) by (simp add: i'_def)
    then show ?thesis
      by (cases "getReviewReadiness (ri_repo i') (ri_pull i') (ri_head i') d") (simp_all add: recordReviewReadiness_def Let_def)
  qed
  then obtain v d1 where v: "recordReviewReadiness h i' d = (Inr v, d1)" by (metis prod.collapse)
  have "kept x s d1" using readiness_frame(1,3)[of h i' d] assms(1) ready_same[of d1 d x] by (simp add: v)
  then show ?thesis by (simp add: recordReadinessTransition_def i'_def[symmetric] v)
qed

lemma session_update_keys:
  "map sj_key (session_jobs (snd (updateReviewerSessionJobState repo pull head st ps now d))) = map sj_key (session_jobs d)"
  "queue (snd (updateReviewerSessionJobState repo pull head st ps now d)) = queue d"
proof -
  have expired: "queue (expireDrainedReviewerSessionIfComplete s d1) = queue d1"
    "session_jobs (expireDrainedReviewerSessionIfComplete s d1) = session_jobs d1" for s d1
    by (simp_all add: expireDrainedReviewerSessionIfComplete_def)
  have keys: "map sj_key (row_update P f rows) = map sj_key rows" if "\<And>s. sj_key (f s) = sj_key s" for P f rows
    using that by (simp add: row_update_def)
  show "map sj_key (session_jobs (snd (updateReviewerSessionJobState repo pull head st ps now d))) = map sj_key (session_jobs d)"
    "queue (snd (updateReviewerSessionJobState repo pull head st ps now d)) = queue d"
    by (simp_all add: updateReviewerSessionJobState_def Let_def expired keys sj_key_def split: option.split)
qed

lemma ready_keys:
  "queue d' = queue d \<Longrightarrow> map sj_key (session_jobs d') = map sj_key (session_jobs d) \<Longrightarrow> kept x s d' = kept x s d"
  by (simp add: kept_def getReviewQueueJob_def getReviewerSessionJob_def row_get_None_iff flip: set_map)

lemma ready_session:
  assumes "kept x s d"
  shows "kept x s (snd (updateReviewerSessionJobFromQueueStatus j st ps now d))"
proof -
  have "snd (updateReviewerSessionJobFromQueueStatus j st ps now d) = d \<or>
      snd (updateReviewerSessionJobFromQueueStatus j st ps now d) = snd (updateReviewerSessionJobState (q_repo j) (q_pull j) (q_head j) st ps now d)"
    by (auto simp: updateReviewerSessionJobFromQueueStatus_def and_then_def split: prod.split sum.split)
  then show ?thesis using assms session_update_keys ready_keys by metis
qed

definition same_head :: "queue_run \<Rightarrow> queue_job \<Rightarrow> bool" where
  "same_head x j \<longleftrightarrow> q_job_id j = q_job_id (qx_job x) \<and> q_repo j = q_repo (qx_job x) \<and> q_pull j = q_pull (qx_job x) \<and>
     q_head j = q_head (qx_job x)"

lemma goes_on_session:
  assumes "kept x s d" "same_head x j" "truthy (q_session_id j) = truthy s"
  shows "goes_on x s (updateReviewerSessionJobFromQueueStatus j st ps now d)"
proof (cases "truthy (q_session_id j) = None")
  case True
  then show ?thesis using assms(1) by (simp add: updateReviewerSessionJobFromQueueStatus_def)
next
  case False
  with assms obtain sj where "getReviewerSessionJob (q_repo j) (q_pull j) (q_head j) d = Some sj"
    by (auto simp: kept_def same_head_def)
  then have "\<exists>v. fst (updateReviewerSessionJobState (q_repo j) (q_pull j) (q_head j) st ps now d) = Inr v"
    by (simp add: updateReviewerSessionJobState_def Let_def)
  then have "\<exists>v. fst (updateReviewerSessionJobFromQueueStatus j st ps now d) = Inr v"
    using False by (cases "updateReviewerSessionJobState (q_repo j) (q_pull j) (q_head j) st ps now d")
      (auto simp: updateReviewerSessionJobFromQueueStatus_def)
  then show ?thesis using ready_session[OF assms(1)] by (simp add: goes_on_def)
qed

lemma goes_on_session_after:
  assumes "kept x s d" "same_head x j" "truthy (q_session_id j) = truthy s"
  shows "goes_on x s (updateReviewerSessionJobAfterReviewStatus j status dry now d)"
  using session_after_status[of j status dry now d] goes_on_session[OF assms] by metis

lemma goes_on_mark:
  assumes "kept x s d" "q_job_id j = q_job_id (qx_job x)"
  shows "goes_on x s (markQueueJobProviderDeferredFromProcessed h j pull direct now d)"
  unfolding markQueueJobProviderDeferredFromProcessed_def Let_def
  by (rule goes_on_update[OF assms(1)]) (simp add: queue_change_def assms(2))

lemma goes_on_result:
  assumes "kept x s d" "q_job_id j = q_job_id (qx_job x)"
  shows "goes_on x s (updateQueueJobAfterReviewStatus h j pull status dry now d)"
proof -
  note g = goes_on_update[OF assms(1)] goes_on_mark[OF assms]
  show ?thesis unfolding updateQueueJobAfterReviewStatus_def Let_def
    by (cases status) (auto simp: queue_change_def assms(2) intro!: g)
qed

lemma ready_sync:
  assumes "kept x s d"
  shows "kept x s (snd (syncReadinessForReviewResult h j pull status now d))"
  using assms sync_readiness_frame[of h j pull status now d] by (metis prod.collapse ready_same)

lemma ready_and_then:
  assumes "kept x s (snd r)" "\<And>v d. r = (Inr v, d) \<Longrightarrow> kept x s (snd (f v d))"
  shows "kept x s (snd (and_then r f))"
  using assms by (cases r; cases "fst r") (auto simp: and_then_def)

lemma goes_on_ready: "goes_on x s r \<Longrightarrow> kept x s (snd r)"
  by (simp add: goes_on_def)

lemma ready_settle:
  assumes "kept x s d" "same_head x j" "truthy (q_session_id j) = truthy s"
  shows "kept x s (snd (settle_result x j pull status d))"
  unfolding settle_result_def
proof (intro ready_and_then)
  show "kept x s (snd (updateQueueJobAfterReviewStatus (qx_host x) (qx_job x) pull status (qx_dry_run x) (qx_done_at x) d))"
    by (rule goes_on_ready[OF goes_on_result[OF assms(1) refl]])
next
  fix v d1 assume "updateQueueJobAfterReviewStatus (qx_host x) (qx_job x) pull status (qx_dry_run x) (qx_done_at x) d = (Inr v, d1)"
  then have "kept x s d1" using goes_on_ready[OF goes_on_result[OF assms(1) refl]] by (metis snd_conv)
  then show "kept x s (snd (syncReadinessForReviewResult (qx_host x) (qx_job x) pull status (qx_done_at x) d1))" by (rule ready_sync)
  fix w d2 assume "syncReadinessForReviewResult (qx_host x) (qx_job x) pull status (qx_done_at x) d1 = (Inr w, d2)"
  then have "kept x s d2" using ready_sync[OF \<open>kept x s d1\<close>] by (metis snd_conv)
  then show "kept x s (snd (updateReviewerSessionJobAfterReviewStatus j status (qx_dry_run x) (qx_done_at x) d2))"
    by (rule goes_on_ready[OF goes_on_session_after[OF _ assms(2,3)]])
qed


lemma recordProcessed_ready: "kept x s (recordProcessed r clock d) = kept x s d"
  by (rule ready_same) (simp_all add: recordProcessed_def)

lemma recordFailedReview_ready: "kept x s (snd (recordFailedReview f keep repo pull head clock d)) = kept x s d"
  by (simp add: recordFailedReview_def Let_def recordProcessed_ready split: option.split)

lemma cooldown_ready:
  "kept x s (snd (recordProviderRateLimitCooldownIfNeeded h i repo pull head now clock d)) = kept x s d"
proof -
  have repo: "kept x s (recordRepoProviderCooldown h r u t c d) = kept x s d" for r u t c
    by (rule ready_same) (simp_all add: recordRepoProviderCooldown_def)
  show ?thesis
    by (simp add: recordProviderRateLimitCooldownIfNeeded_def Let_def recordProviderCooldownSkip_def recordProcessed_ready
        recordFailedReview_ready repo)
qed

text \<open>The coordinates of the job are ones the store accepts, GitHub answers for the pull request it was asked for, and the
  configured session limits are positive, as the store requires.\<close>

definition run_valid :: "queue_run \<Rightarrow> bool" where
  "run_valid x \<longleftrightarrow> validateReviewQueueInput (q_repo (qx_job x)) (q_pull (qx_job x)) (q_head (qx_job x)) None None = None \<and>
     (\<forall>pull. qx_live x = Inr pull \<longrightarrow> ps_number pull = q_pull (qx_job x)) \<and>
     (\<forall>c. qx_sessions x = Some c \<longrightarrow> 1 \<le> sc_ttl_ms c \<and> 1 \<le> sc_head_count_limit c)"

lemma goes_on_transition_of:
  assumes "kept x s d" "run_valid x" "repo = q_repo (qx_job x)" "pull = q_pull (qx_job x)" "head = q_head (qx_job x)"
  shows "goes_on x s (recordReadinessTransition h (readiness_of repo pull head st reason now) d)"
  using assms by (intro goes_on_transition) (simp_all add: run_valid_def readiness_of_def)

lemma goes_on_queue_change:
  "kept x s d \<Longrightarrow> jobId = q_job_id (qx_job x) \<Longrightarrow> goes_on x s (update_queue h (queue_change jobId st err now) d)"
  by (rule goes_on_update) (simp_all add: queue_change_def)

lemma same_head_self [simp]: "same_head x (qx_job x)"
  by (simp add: same_head_def)

lemma goes_on_retire:
  assumes "kept x (q_session_id (qx_job x)) d" "run_valid x" "qx_live x = Inr pull"
  shows "goes_on x (q_session_id (qx_job x)) (retire_leased_job x pull st rst reason d)"
  using assms unfolding retire_leased_job_def Let_def
  by (intro goes_on_then goes_on_queue_change goes_on_transition_of goes_on_session) (simp_all add: run_valid_def)

lemma goes_on_refetch:
  assumes "kept x (q_session_id (qx_job x)) d" "run_valid x"
  shows "goes_on x (q_session_id (qx_job x)) (fail_refetch x message d)"
  using assms unfolding fail_refetch_def Let_def
  by (intro goes_on_then goes_on_queue_change goes_on_transition_of goes_on_session) simp_all

lemma goes_on_skip:
  assumes "kept x (q_session_id (qx_job x)) d"
  shows "goes_on x (q_session_id (qx_job x)) (skip_leased_job x pull status d)"
  using assms unfolding skip_leased_job_def
  by (intro goes_on_then goes_on_result goes_on_session_after) simp_all

lemma goes_on_failed:
  assumes "kept x s d" "run_valid x" "same_head x j" "ps_number pull = q_pull (qx_job x)" "ps_head pull = q_head (qx_job x)"
    and session: "truthy (q_session_id j) = truthy s"
  shows "goes_on x s (review_failed x j pull e d)"
proof -
  have j: "q_repo j = q_repo (qx_job x)" "q_job_id j = q_job_id (qx_job x)" using assms(3) by (simp_all add: same_head_def)
  define cooled where "cooled = recordProviderRateLimitCooldownIfNeeded (qx_host x) \<lparr>pcl_config = qx_cooldown x,
    pcl_class = classifyProviderError (qx_reader x) (ve_message e), pcl_untrusted = ve_untrusted e, pcl_preserve_dry_run = False,
    pcl_format = qx_format x (ve_message e), pcl_draw = qx_draw x\<rparr>
    (q_repo j) (ps_number pull) (ps_head pull) (qx_failed_at x) (qx_failed_at x) d"
  have ready: "kept x s (snd cooled)" using assms(1) by (simp add: cooled_def cooldown_ready)
  then have failed: "kept x s (snd (recordFailedReview f keep repo pl head clock (snd cooled)))" for f keep repo pl head clock
    by (simp add: recordFailedReview_ready)
  have coords: "ps_number pull = q_pull (qx_job x)" "ps_head pull = q_head (qx_job x)" by (fact assms)+
  show ?thesis
  proof (cases "fst cooled")
    case True
    show ?thesis unfolding review_failed_def Let_def cooled_def[symmetric] if_P[OF True]
      by (intro goes_on_then goes_on_mark[OF ready] goes_on_transition_of[OF _ assms(2) j(1) coords] goes_on_session[OF _ assms(3) session]) simp_all
  next
    case False
    show ?thesis unfolding review_failed_def Let_def cooled_def[symmetric] if_not_P[OF False]
      by (intro goes_on_then goes_on_queue_change[OF failed j(2)] goes_on_transition_of[OF _ assms(2) j(1) coords] goes_on_session[OF _ assms(3) session]) simp_all
  qed
qed

lemma ready_review:
  assumes "kept x s d" "same_head x j" "\<And>p d. kept x s d \<Longrightarrow> kept x s (snd (qx_review x p d))"
    and session: "truthy (q_session_id j) = truthy s"
  shows "kept x s (snd (review_leased_job x j pull d))"
proof -
  obtain a d1 where a: "qx_review x (processedHeadPolicyForQueueJob (qx_job x) pull d) d = (a, d1)" by fastforce
  have d1: "kept x s d1" using assms(3)[OF assms(1), of "processedHeadPolicyForQueueJob (qx_job x) pull d"] by (simp add: a)
  have "kept x s (snd (settle_result x j pull status d1))" for status by (rule ready_settle[OF d1 assms(2) session])
  then show ?thesis using d1 by (auto simp: review_leased_job_def a split: sum.split prod.split) (metis snd_conv)+
qed

lemma keep_if: "sessions (snd r) = z \<Longrightarrow> sessions (snd t) = z \<Longrightarrow> sessions (snd (if b then r else t)) = z"
  by simp

lemma keep_if_db: "sessions (if b then d1 else d2) = (if b then sessions d1 else sessions d2)"
  by simp

lemma sessions_frames:
  "update_queue h u d = (Inr v, d1) \<Longrightarrow> sessions d1 = sessions d"
  "recordReadinessTransition h i d = (Inr w, d1) \<Longrightarrow> sessions d1 = sessions d"
  "recordPublicRepoAuthorGateSkip h c repo pull vis clock d = (Inr b, d1) \<Longrightarrow> sessions d1 = sessions d"
proof -
  have ready: "sessions (snd (recordReviewReadiness h i d)) = sessions d" for i d
    by (simp add: recordReviewReadiness_def Let_def split: option.split)
  show "update_queue h u d = (Inr v, d1) \<Longrightarrow> sessions d1 = sessions d"
    by (auto simp: update_queue_def updateReviewQueueJobState_def Let_def elim!: and_thenD split: option.splits)
  show "recordReadinessTransition h i d = (Inr w, d1) \<Longrightarrow> sessions d1 = sessions d"
    unfolding recordReadinessTransition_def by (auto elim!: and_thenD) (metis ready snd_conv)
  have clear: "sessions (snd (clearAuthorGateSkip r n hd reason d)) = sessions d" for r n hd reason d
    by (simp add: clearAuthorGateSkip_def Let_def)
  have skip: "sessions (snd (record_gate_skip h r n hd reason existing clock d)) = sessions d" for r n hd reason existing d
  proof -
    obtain q d1 where q: "recordReviewReadiness h (gate_skip_readiness r n hd reason clock) (recordProcessed (gate_skip_record r n hd reason) clock d) = (q, d1)"
      by fastforce
    have "sessions d1 = sessions (recordProcessed (gate_skip_record r n hd reason) clock d)"
      using ready[of "gate_skip_readiness r n hd reason clock" "recordProcessed (gate_skip_record r n hd reason) clock d"] by (simp add: q)
    then have "sessions d1 = sessions d" by (simp add: recordProcessed_def)
    then show ?thesis by (simp add: record_gate_skip_def q split: sum.split)
  qed
  define cleared where "cleared = (if Option.bind (getProcessedReview repo (ps_number pull) (ps_head pull) d) pr_error =
      Some (author_gate_text AG_untrusted_author_provider_unavailable) \<and>
      \<not> isRoutedToUntrustedProvider c (ps_author_association pull) (ps_author_login pull) vis
    then clearAuthorGateSkip repo (ps_number pull) (ps_head pull) AG_untrusted_author_provider_unavailable d else (False, d))"
  have same: "sessions (snd cleared) = sessions d" by (simp add: cleared_def clear)
  obtain q d2 where q: "record_gate_skip h repo (ps_number pull) (ps_head pull) AG_untrusted_author_public_repo
      (if fst cleared then None else getProcessedReview repo (ps_number pull) (ps_head pull) d) clock (snd cleared) = (q, d2)" by fastforce
  have "sessions d2 = sessions d" using skip[of repo "ps_number pull" "ps_head pull" AG_untrusted_author_public_repo
      "if fst cleared then None else getProcessedReview repo (ps_number pull) (ps_head pull) d" "snd cleared"] same by (simp add: q)
  then have "sessions (snd (recordPublicRepoAuthorGateSkip h c repo pull vis clock d)) = sessions d"
    unfolding recordPublicRepoAuthorGateSkip_def Let_def cleared_def[symmetric] q
    by (cases q; intro keep_if; simp only: snd_conv prod.case sum.case clear same keep_if_db if_cancel)
  then show "recordPublicRepoAuthorGateSkip h c repo pull vis clock d = (Inr b, d1) \<Longrightarrow> sessions d1 = sessions d" by simp
qed

text \<open>An assignment under a fresh id does not fail, and the session it names has a job of the head.\<close>

lemma session_ids_kept:
  "map rs_session_id (sessions (snd (expireReviewerSessions now repo d))) = map rs_session_id (sessions d)"
  "map rs_session_id (sessions (snd (getReusableReviewerSession h r now d))) = map rs_session_id (sessions d)"
  "session_jobs (snd (getReusableReviewerSession h r now d)) = session_jobs d"
  "queue (snd (getReusableReviewerSession h r now d)) = queue d"
proof -
  show "map rs_session_id (sessions (snd (expireReviewerSessions now repo d))) = map rs_session_id (sessions d)"
    by (simp add: expireReviewerSessions_def row_update_def)
  have fail: "map rs_session_id (sessions (fail_session sid pid d)) = map rs_session_id (sessions d)"
    "session_jobs (fail_session sid pid d) = session_jobs d" "queue (fail_session sid pid d) = queue d" for sid pid d
    by (simp_all add: fail_session_def row_update_def failed_session_def)
  have "map rs_session_id (sessions (snd (pick_reusable h cs d))) = map rs_session_id (sessions d) \<and>
      session_jobs (snd (pick_reusable h cs d)) = session_jobs d \<and> queue (snd (pick_reusable h cs d)) = queue d" for cs
    by (induction h cs d rule: pick_reusable.induct) (auto simp: fail Let_def split: option.splits)
  then show "map rs_session_id (sessions (snd (getReusableReviewerSession h r now d))) = map rs_session_id (sessions d)"
    "session_jobs (snd (getReusableReviewerSession h r now d)) = session_jobs d"
    "queue (snd (getReusableReviewerSession h r now d)) = queue d"
    by (simp_all add: getReusableReviewerSession_def)
qed

lemma assign_succeeds:
  assumes "row_get rs_session_id uuid (sessions d) = None" "1 \<le> as_ttl_ms i" "1 \<le> as_head_count_limit i" "as_worker_pid i = None"
  obtains a d1 where "assignReviewerSessionJob h pid uuid i d = (Inr a, d1)" "queue d1 = queue d"
    "a = AlreadyProcessed \<or> getReviewerSessionJob (as_repo i) (as_pull i) (as_head i) d1 \<noteq> None"
proof -
  obtain expired d1 where e: "expireReviewerSessions (as_now i) (Some (as_repo i)) d = (expired, d1)" by fastforce
  obtain reusable d2 where r: "getReusableReviewerSession h (as_repo i) (as_now i) d1 = (reusable, d2)" by fastforce
  have ids: "map rs_session_id (sessions d2) = map rs_session_id (sessions d)"
    using session_ids_kept(1)[of "as_now i" "Some (as_repo i)" d] session_ids_kept(2)[of h "as_repo i" "as_now i" d1] by (simp add: e r)
  have jobs: "session_jobs d2 = session_jobs d" "queue d2 = queue d"
    using session_ids_kept(3,4)[of h "as_repo i" "as_now i" d1] e r by (auto simp: expireReviewerSessions_def)
  have new: "row_get rs_session_id (rs_session_id (new_session_row i pid uuid)) (sessions d2) = None"
    using assms(1) ids by (simp add: row_get_None_iff new_session_row_def flip: set_map)
  define d3 where "d3 = d2\<lparr>sessions := sessions d2 @ [new_session_row i pid uuid]\<rparr>"
  have create: "createReviewerSession (new_session_row i pid uuid) d2 = (Inr (the (getReviewerSession (rs_session_id (new_session_row i pid uuid)) d3)), d3)"
    using new by (simp add: createReviewerSession_def Let_def d3_def)
  have job: "getReviewerSessionJob (as_repo i) (as_pull i) (as_head i) (attach_job i s reason dd) \<noteq> None" for s reason dd
    by (simp add: getReviewerSessionJob_def attach_job_def row_get_append row_get_Cons new_session_job_def sj_key_def split: option.split)
  have queues: "queue (attach_job i s reason dd) = queue dd" for s reason dd by (simp add: attach_job_def)
  have "\<exists>a dd. assign_body h pid uuid i d = (Inr a, dd) \<and> queue dd = queue d \<and>
      (a = AlreadyProcessed \<or> getReviewerSessionJob (as_repo i) (as_pull i) (as_head i) dd \<noteq> None)"
  proof (cases "\<not> as_allow_processed i \<and> row_get pr_key (as_repo i, as_pull i, as_head i) (processed d) \<noteq> None")
    case True
    then show ?thesis by (auto simp: assign_body_def Let_def)
  next
    case False
    note body = assign_body_def Let_def e r if_not_P[OF False] prod.case
    show ?thesis
    proof (cases "getReviewerSessionJob (as_repo i) (as_pull i) (as_head i) d")
      case (Some job)
      then show ?thesis unfolding body by simp
    next
      case None
      then show ?thesis unfolding body using job jobs by (cases reusable) (simp_all add: create queues d3_def[symmetric], simp add: d3_def)
    qed
  qed
  moreover have "validateReviewerSessionInput (as_ttl_ms i) (as_head_count_limit i) (as_worker_pid i) = None"
    using assms(2-4) by (simp add: validateReviewerSessionInput_def)
  ultimately show thesis
    using that by (auto simp: assignReviewerSessionJob_def transaction_result)
qed

text \<open>The session of a run: none, the one of its job, or the one it is given.\<close>

lemma ensure_goes_on:
  assumes "run_ready x d" "run_valid x"
  obtains sid d1 where "ensureReviewerSessionForLeasedJob x d = (Inr sid, d1)" "kept x sid d1"
    "truthy (q_session_id (qx_job x)) = None \<or> sid = q_session_id (qx_job x)"
proof -
  let ?j = "qx_job x"
  have stored: "getReviewQueueJob (q_job_id ?j) d \<noteq> None" and kept: "kept x (q_session_id ?j) d" "kept x None d"
    using assms(1) by (simp_all add: run_ready_def kept_def truthy_def)
  show thesis
  proof (cases "\<exists>c. qx_sessions x = Some c \<and> truthy (q_session_id ?j) = None \<and> q_source ?j \<noteq> QS_manual_command")
    case False
    then consider "qx_sessions x = None \<or> truthy (q_session_id ?j) \<noteq> None"
      | c where "qx_sessions x = Some c" "truthy (q_session_id ?j) = None" "q_source ?j = QS_manual_command"
      by (cases "qx_sessions x"; cases "truthy (q_session_id ?j)") auto
    then show thesis
    proof cases
      case 1
      then have "ensureReviewerSessionForLeasedJob x d = (Inr (q_session_id ?j), d)"
        by (auto simp: ensureReviewerSessionForLeasedJob_def Let_def split: option.split)
      then show thesis using kept(1) by (rule that) simp
    next
      case 2
      then have "ensureReviewerSessionForLeasedJob x d = (Inr None, d)" by (simp add: ensureReviewerSessionForLeasedJob_def Let_def)
      then show thesis using kept(2) 2(2) by (intro that[of None d]) simp_all
    qed
  next
    case True
    then obtain c where c: "qx_sessions x = Some c" "truthy (q_session_id ?j) = None" "q_source ?j \<noteq> QS_manual_command" by blast
    define i where "i = \<lparr>as_repo = q_repo ?j, as_pull = q_pull ?j, as_head = q_head ?j, as_ttl_ms = sc_ttl_ms c,
                  as_head_count_limit = sc_head_count_limit c, as_now = qx_started_at x, as_worker_pid = None,
                  as_model = Some (sc_model c), as_provider = Some (or_default (q_provider_id ?j) (sc_provider c)),
                  as_zcode_cli_version = None, as_repo_family = None, as_reason = None, as_allow_processed = False\<rparr>"
    have "row_get rs_session_id (qx_session_id x) (sessions d) = None" "1 \<le> as_ttl_ms i" "1 \<le> as_head_count_limit i" "as_worker_pid i = None"
      using assms c(1) by (simp_all add: run_ready_def run_valid_def i_def)
    then obtain a d1 where a: "assignReviewerSessionJob (qx_host x) (qx_pid x) (qx_session_id x) i d = (Inr a, d1)" "queue d1 = queue d"
      "a = AlreadyProcessed \<or> getReviewerSessionJob (q_repo ?j) (q_pull ?j) (q_head ?j) d1 \<noteq> None"
      by (rule assign_succeeds[where i = i]) (auto simp: i_def)
    have d1: "kept x None d1" using stored a(2) by (simp add: kept_def getReviewQueueJob_def truthy_def)
    let ?sid = "truthy (map_option rs_session_id (case a of AlreadyProcessed \<Rightarrow> None | AlreadyAssigned s _ \<Rightarrow> s | Assigned s _ _ \<Rightarrow> Some s))"
    have run: "ensureReviewerSessionForLeasedJob x d = (case ?sid of None \<Rightarrow> (Inr None, d1)
        | Some sid \<Rightarrow> and_then (update_queue (qx_host x) ((queue_change (q_job_id ?j) Q_running [] (qx_started_at x))
                        \<lparr>qu_last_error := None, qu_session_id := Some sid, qu_clear_lease := Some False\<rparr>) d1) (\<lambda>_ d. (Inr (Some sid), d)))"
      using c a(1) by (simp add: ensureReviewerSessionForLeasedJob_def i_def)
    show thesis
    proof (cases ?sid)
      case None
      then show thesis using run d1 c(2) by (intro that[of None d1]) simp_all
    next
      case (Some sid)
      then have "a \<noteq> AlreadyProcessed" by (auto simp: truthy_def)
      then have "kept x (Some sid) d1" using d1 a(3) by (simp add: kept_def)
      then have go: "goes_on x (Some sid) (update_queue (qx_host x) ((queue_change (q_job_id ?j) Q_running [] (qx_started_at x))
          \<lparr>qu_last_error := None, qu_session_id := Some sid, qu_clear_lease := Some False\<rparr>) d1)" (is "goes_on _ _ ?u")
        by (rule goes_on_update) (simp add: queue_change_def)
      obtain r d2 where u: "?u = (r, d2)" by fastforce
      then obtain w where "r = Inr w" "kept x (Some sid) d2" using go by (auto simp: goes_on_def)
      with u have "?u = (Inr w, d2)" "kept x (Some sid) d2" by simp_all
      then show thesis using run Some c(2) by (intro that[of "Some sid" d2]) simp_all
    qed
  qed
qed

lemma goes_on_admitted:
  assumes "run_ready x d" "run_valid x" "qx_live x = Inr pull" "ps_head pull = q_head (qx_job x)"
    and "\<And>s p d. kept x s d \<Longrightarrow> kept x s (snd (qx_review x p d))"
  shows "\<exists>v d'. run_admitted_job x pull d = (Inr v, d')"
proof -
  have number: "ps_number pull = q_pull (qx_job x)" using assms(2,3) by (simp add: run_valid_def)
  obtain sid d1 where sid: "ensureReviewerSessionForLeasedJob x d = (Inr sid, d1)" "kept x sid d1"
    "truthy (q_session_id (qx_job x)) = None \<or> sid = q_session_id (qx_job x)"
    by (rule ensure_goes_on[OF assms(1,2)])
  define j where "j = (case truthy sid of None \<Rightarrow> qx_job x | Some sid \<Rightarrow> (qx_job x)\<lparr>q_session_id := Some sid\<rparr>)"
  have same: "same_head x j" "truthy (q_session_id j) = truthy sid"
    using sid(3) by (auto simp: j_def same_head_def truthy_def split: option.splits if_splits)
  have rest: "goes_on x sid (case review_leased_job x j pull d2 of (Inr status, d1) \<Rightarrow> (Inr (Ran status), d1)
      | (Inl e, d1) \<Rightarrow> review_failed x j pull e d1)" if "kept x sid d2" for d2
    using ready_review[OF that same(1) assms(5) same(2), of pull] goes_on_failed[OF _ assms(2) same(1) number assms(4) same(2)]
    by (auto split: prod.split sum.split)
  have "goes_on x sid (run_admitted_job x pull d)"
    unfolding run_admitted_job_def sid(1) and_then_simps Let_def j_def[symmetric]
    by (intro goes_on_then[OF goes_on_session[OF sid(2) same]] rest)
  then show ?thesis by (auto simp: goes_on_def) (metis prod.collapse)
qed

lemma gate_goes_on:
  assumes "kept x s d" "run_valid x" "ps_number pull = q_pull (qx_job x)" "ps_head pull = q_head (qx_job x)"
  shows "goes_on x s (recordPublicRepoAuthorGateSkip h c (q_repo (qx_job x)) pull v clock d)"
proof -
  have clear: "kept x s (snd (clearAuthorGateSkip r n hd reason d)) = kept x s d" for r n hd reason d
    by (rule ready_same) (simp_all add: clearAuthorGateSkip_def Let_def)
  have skip: "goes_on x s (record_gate_skip h (q_repo (qx_job x)) (ps_number pull) (ps_head pull) reason existing clock d)"
    if "kept x s d" for reason existing d
  proof -
    let ?r = "recordReviewReadiness h (gate_skip_readiness (q_repo (qx_job x)) (ps_number pull) (ps_head pull) reason clock)
        (recordProcessed (gate_skip_record (q_repo (qx_job x)) (ps_number pull) (ps_head pull) reason) clock d)"
    have "\<exists>v. fst ?r = Inr v"
      using assms by (simp add: recordReviewReadiness_def gate_skip_readiness_def run_valid_def Let_def split: option.split)
    moreover have "kept x s (snd ?r)"
      using that ready_same[OF readiness_frame(1,3)] recordProcessed_ready by metis
    ultimately show ?thesis using that by (cases ?r) (auto simp: record_gate_skip_def goes_on_def)
  qed
  define cleared where "cleared = (if Option.bind (getProcessedReview (q_repo (qx_job x)) (ps_number pull) (ps_head pull) d) pr_error =
      Some (author_gate_text AG_untrusted_author_provider_unavailable) \<and>
      \<not> isRoutedToUntrustedProvider c (ps_author_association pull) (ps_author_login pull) v
    then clearAuthorGateSkip (q_repo (qx_job x)) (ps_number pull) (ps_head pull) AG_untrusted_author_provider_unavailable d else (False, d))"
  have ready: "kept x s (snd cleared)" using assms(1) by (simp add: cleared_def clear)
  have "goes_on x s (case record_gate_skip h (q_repo (qx_job x)) (ps_number pull) (ps_head pull) AG_untrusted_author_public_repo existing clock
      (snd cleared) of (Inl e, d2) \<Rightarrow> (Inl e, d2) | (Inr _, d2) \<Rightarrow> (Inr True, d2))" for existing
    using skip[OF ready, of AG_untrusted_author_public_repo existing] by (auto simp: goes_on_def split: prod.split sum.split)
  then show ?thesis
    unfolding recordPublicRepoAuthorGateSkip_def Let_def cleared_def[symmetric]
    using ready by (simp add: clear split: if_split)
qed

text \<open>A run returns: the steps before the session leave the sessions alone.\<close>

definition returns :: "('e + 'a) \<times> db \<Rightarrow> bool" where
  "returns r \<longleftrightarrow> (\<exists>v d'. r = (Inr v, d'))"

lemma returns_simps [simp]: "returns (Inr v, d)"
  by (simp add: returns_def)

lemma returns_then:
  assumes "goes_on x s r" "\<And>v d. r = (Inr v, d) \<Longrightarrow> kept x s d \<Longrightarrow> returns (f v d)"
  shows "returns (and_then r f)"
  using assms by (cases r) (auto simp: goes_on_def and_then_def)

lemma ready_frame: "run_ready x d \<Longrightarrow> kept x (q_session_id (qx_job x)) d1 \<Longrightarrow> sessions d1 = sessions d \<Longrightarrow> run_ready x d1"
  by (simp add: run_ready_def)

lemma returns_fetched:
  assumes "run_ready x d" "run_valid x" "qx_live x = Inr pull"
    and "\<And>s p d. kept x s d \<Longrightarrow> kept x s (snd (qx_review x p d))"
  shows "returns (run_fetched_job x pull d)"
proof -
  let ?s = "q_session_id (qx_job x)"
  have number: "ps_number pull = q_pull (qx_job x)" using assms(2,3) by (simp add: run_valid_def)
  have kept: "kept x ?s d" using assms(1) by (simp add: run_ready_def)
  have skip: "returns (and_then (skip_leased_job x pull st d1) (\<lambda>_ d. (Inr (Ran st), d)))" if "kept x ?s d1" for st d1
    by (rule returns_then[OF goes_on_skip[OF that]]) simp
  have retire: "returns (and_then (retire_leased_job x pull st rst reason d1) (\<lambda>_ d. (Inr r, d)))" if "kept x ?s d1"
    for st rst reason d1 and r :: job_result
    by (rule returns_then[OF goes_on_retire[OF that assms(2,3)]]) simp
  have admitted: "returns (run_admitted_job x pull d1)"
    if "recordPublicRepoAuthorGateSkip (qx_host x) (qx_gate x) (q_repo (qx_job x)) pull (visibilityFromPullSummary pull) (qx_started_at x) d = (Inr b, d1)"
      "kept x ?s d1" "ps_head pull = q_head (qx_job x)" for b d1
    using goes_on_admitted[OF ready_frame[OF assms(1) that(2) sessions_frames(3)[OF that(1)]] assms(2,3) that(3) assms(4)]
    by (simp add: returns_def)
  have "returns (and_then (recordPublicRepoAuthorGateSkip (qx_host x) (qx_gate x) (q_repo (qx_job x)) pull
       (visibilityFromPullSummary pull) (qx_started_at x) d) (\<lambda>turnedAway d.
              if turnedAway
              then and_then (skip_leased_job x pull RV_untrusted_author_public_repo d) (\<lambda>_ d. (Inr (Ran RV_untrusted_author_public_repo), d))
              else if base_moved (qx_job x) pull
              then and_then (retire_leased_job x pull Q_stale_retired R_stale (''base_changed_before_review live='' @ ps_base pull) d)
                     (\<lambda>_ d. (Inr JobStaleRetired, d))
              else run_admitted_job x pull d))" if "ps_head pull = q_head (qx_job x)"
    by (rule returns_then[OF gate_goes_on[OF kept assms(2) number that]]) (use skip retire admitted that in \<open>auto split: if_split\<close>)
  then show ?thesis unfolding run_fetched_job_def Let_def using skip[OF kept] retire[OF kept] by (simp split: if_split)
qed

lemma run_returns:
  assumes "run_ready x d" "run_valid x" "\<And>s p d. kept x s d \<Longrightarrow> kept x s (snd (qx_review x p d))"
  shows "returns (runLeasedQueueJob x d)"
proof -
  let ?s = "q_session_id (qx_job x)"
  have kept: "kept x ?s d" using assms(1) by (simp add: run_ready_def)
  have start: "goes_on x ?s (update_queue (qx_host x) ((queue_change (q_job_id (qx_job x)) Q_running [] (qx_started_at x))\<lparr>qu_last_error := None\<rparr>) d)"
    by (rule goes_on_update[OF kept]) (simp add: queue_change_def)
  let ?mark = "\<lambda>d1. if shouldMarkJobReviewing (qx_job x) d1
      then recordReadinessTransition (qx_host x) (readiness_of (q_repo (qx_job x)) (q_pull (qx_job x)) (q_head (qx_job x)) R_reviewing ''queue_job_running''
        (qx_started_at x)) d1 else (Inr (), d1)"
  have mark: "goes_on x ?s (?mark d1)" if "kept x ?s d1" for d1
    using goes_on_transition_of[OF that assms(2) refl refl refl] that by simp
  have marked: "sessions d2 = sessions d1" if "?mark d1 = (Inr u, d2)" for u d1 d2
    using that sessions_frames(2) by (auto split: if_splits)
  have refetch: "returns (and_then (fail_refetch x message d1) (\<lambda>_ d. (Inr JobFailed, d)))" if "kept x ?s d1" for d1 message
    by (rule returns_then[OF goes_on_refetch[OF that assms(2)]]) simp
  have live: "returns (case qx_live x of Inl message \<Rightarrow> and_then (fail_refetch x message d2) (\<lambda>_ d. (Inr JobFailed, d))
          | Inr pull \<Rightarrow> run_fetched_job x pull d2)" if "kept x ?s d2" "sessions d2 = sessions d" for d2
    using refetch[OF that(1)] returns_fetched[OF ready_frame[OF assms(1) that] assms(2) _ assms(3)] by (auto split: sum.split)
  show ?thesis unfolding runLeasedQueueJob_def Let_def
  proof (rule returns_then[OF start], rule returns_then[OF mark])
    fix v d1 w d2
    assume "update_queue (qx_host x) ((queue_change (q_job_id (qx_job x)) Q_running [] (qx_started_at x))\<lparr>qu_last_error := None\<rparr>) d = (Inr v, d1)"
      "?mark d1 = (Inr w, d2)" "kept x ?s d2"
    then show "returns (case qx_live x of Inl message \<Rightarrow> and_then (fail_refetch x message d2) (\<lambda>_ d. (Inr JobFailed, d))
          | Inr pull \<Rightarrow> run_fetched_job x pull d2)"
      using live marked sessions_frames(1) by metis
  qed
qed

text \<open>C6: whatever GitHub answers and whatever the review does or throws, the run of a leased job returns, and its job is then in
  the state its result stands for, without a lease and neither leased nor running: every slot a lease takes is given
  back by the run, also when the run first assigns its job to a reviewer session. It relies on the job being stored with
  coordinates the store accepts (and with its session job, when it has a session), on positive session limits and a new
  session id that is in no row, on GitHub answering for the pull request it was asked for, and on a review that, whatever
  else it does to the store, keeps the rows of the job and of its session job.\<close>

theorem leased_job_settles:
  assumes "run_ready x d" "run_valid x"
    and "\<And>s p d. kept x s d \<Longrightarrow> kept x s (snd (qx_review x p d))"
  shows "\<exists>r d' row. runLeasedQueueJob x d = (Inr r, d') \<and> getReviewQueueJob (q_job_id (qx_job x)) d' = Some row \<and>
    q_state row \<in> set (job_result_states (qx_dry_run x) r) \<and> \<not> is_active_state (q_state row) \<and> q_lease_id row = None"
proof -
  obtain r d' where r: "runLeasedQueueJob x d = (Inr r, d')"
    using run_returns[OF assms] by (auto simp: returns_def)
  then show ?thesis
    using run_in[OF r] job_result_inactive by (fastforce simp: job_in_def split: option.splits)
qed


section \<open>What the guards keep from the review\<close>

text \<open>The guards of a run, from the live pull request.\<close>

definition review_admitted :: "queue_run \<Rightarrow> bool" where
  "review_admitted x \<longleftrightarrow> (case qx_live x of Inl _ \<Rightarrow> False
     | Inr pull \<Rightarrow>
         la_minted (qx_admission x) \<and> la_operation (qx_admission x) = LO_review_discovery \<and>
         visibilityFromPullSummary pull \<noteq> RepoUnknown \<and>
         (visibilityFromPullSummary pull = RepoPrivate \<longrightarrow> la_private_allowed (qx_admission x) \<and> la_scope (qx_admission x) \<noteq> VS_public) \<and>
         \<not> pull_closed pull \<and> ps_head pull = q_head (qx_job x) \<and> \<not> base_moved (qx_job x) pull \<and>
         (isPublicRepoAuthorGateEnabled (qx_gate x) \<and> visibilityFromPullSummary pull \<noteq> RepoPrivate \<and>
            untrustedAuthorReviewProviderId (qx_gate x) = None \<longrightarrow>
          matchesTrustedAuthor (qx_gate x) (ps_author_association pull) (ps_author_login pull)))"

lemma other_review:
  "retire_leased_job (x\<lparr>qx_review := f\<rparr>) = retire_leased_job x" "fail_refetch (x\<lparr>qx_review := f\<rparr>) = fail_refetch x"
  "skip_leased_job (x\<lparr>qx_review := f\<rparr>) = skip_leased_job x"
  by (simp_all add: fun_eq_iff retire_leased_job_def fail_refetch_def skip_leased_job_def)

lemma and_then_cong:
  assumes "\<And>v d1. r = (Inr v, d1) \<Longrightarrow> f v d1 = g v d1"
  shows "and_then r f = and_then r g"
  using assms by (cases r; cases "fst r") (auto simp: and_then_def)

lemma gate_step_cong:
  assumes "\<And>d1. g = (Inr False, d1) \<Longrightarrow> \<not> moved \<Longrightarrow> run d1 = run' d1"
  shows "and_then g (\<lambda>away d. if away then skip d else if moved then retire d else run d) =
    and_then g (\<lambda>away d. if away then skip d else if moved then retire d else run' d)"
  by (rule and_then_cong) (use assms in auto)

lemma fetched_without_review:
  assumes "qx_live x = Inr pull" "\<not> review_admitted x"
  shows "run_fetched_job (x\<lparr>qx_review := f\<rparr>) pull d = run_fetched_job x pull d"
proof (cases "authorizeAdmissionForVisibility (qx_admission x) (visibilityFromPullSummary pull) (Some LO_review_discovery) = Inr () \<and>
    \<not> pull_closed pull \<and> ps_head pull = q_head (qx_job x)")
  case False
  then show ?thesis by (auto simp: run_fetched_job_def Let_def other_review)
next
  case True
  have "False" if "recordPublicRepoAuthorGateSkip (qx_host x) (qx_gate x) (q_repo (qx_job x)) pull (visibilityFromPullSummary pull)
      (qx_started_at x) d = (Inr False, d1)" "\<not> base_moved (qx_job x) pull" for d1
    using that assms True admission_covers[OF conjunct1[OF True]] by (auto simp: review_admitted_def dest: author_gate_iff)
  then show ?thesis
    by (simp add: run_fetched_job_def Let_def other_review True cong: if_cong) (rule gate_step_cong, blast)
qed

text \<open>C7: no review runs, whatever it would do, unless GitHub answered, the licence covers the repository by an admission that
  live validation issued for this operation, the pull request is open at the head (and, for an automatic job, the base) the
  job was queued for, and its author passes the gate of public repositories: otherwise the run is the same for every review.\<close>

theorem unadmitted_review_never_runs:
  assumes "\<not> review_admitted x"
  shows "runLeasedQueueJob (x\<lparr>qx_review := f\<rparr>) d = runLeasedQueueJob x d"
  using assms fetched_without_review by (auto simp: runLeasedQueueJob_def Let_def other_review split: sum.split intro!: and_then_cong)

section \<open>Reviews that throw\<close>

lemma getProcessed_same: "processed d' = processed d \<Longrightarrow> getProcessedReview repo pull head d' = getProcessedReview repo pull head d"
  by (simp add: getProcessedReview_def)

lemma update_queue_stored:
  assumes "update_queue h u d = (Inr (), d')"
  shows "\<exists>row. getReviewQueueJob (qu_job_id u) d' = Some row \<and> q_state row = qu_state u \<and> q_next_eligible_at row = truthy (qu_next_eligible_at u)"
  using assms by (rule update_queue_row) (simp add: mapReviewQueueJobRow_def updated_queue_row_def)

lemma cooldown_skip_recorded:
  assumes "pcc_enabled (pcl_config i)" "pk_cooldown (pcl_class i)" "\<not> pcl_preserve_dry_run i"
    and "n = nextProviderCooldownRetryAttempt (Option.bind (getProcessedReview repo pull head d) pr_error) (pcl_class i)"
  shows "\<exists>d1 a c r.
    recordProviderRateLimitCooldownIfNeeded h i repo pull head now clock d =
      (True, recordProviderCooldownSkip h repo pull head
        (iso_string h (now + providerCooldownDurationMs (pcl_config i) (pcl_class i) n
          (providerCooldownJitterMs (pcl_draw i) (pcl_config i) (pcl_class i) n))) (pk_reason (pcl_class i)) a c r clock d1) \<and>
    (a = None \<or> a = Some n) \<and> 1 \<le> n \<and> (c = None \<or> c = pk_provider_code (pcl_class i)) \<and> (r = None \<or> r = pk_retry_after_ms (pcl_class i))"
proof -
  have "1 \<le> n"
    unfolding assms(4)
    by (auto simp: nextProviderCooldownRetryAttempt_def parseProviderCooldownError_def parsePositiveInt_def or_default_def Let_def
        split: option.split if_split)
  then show ?thesis
    using assms(1-3) by (simp add: recordProviderRateLimitCooldownIfNeeded_def Let_def assms(4)[symmetric]) (blast intro: le_less_trans)
qed

text \<open>The end of the cooldown that a provider error of this run starts, when the head's record said \<open>previous\<close>.\<close>

definition retry_at :: "queue_run \<Rightarrow> provider_classification \<Rightarrow> string option \<Rightarrow> int" where
  "retry_at x k previous = (let n = nextProviderCooldownRetryAttempt previous k
     in qx_failed_at x + providerCooldownDurationMs (qx_cooldown x) k n (providerCooldownJitterMs (qx_draw x) (qx_cooldown x) k n))"

text \<open>C8: a review that fails with a provider error is put off, not failed: the cooldown recorded for its head ends at \<open>t\<close>, the time
  its backoff gives, and its job waits as provider-deferred and becomes eligible exactly at \<open>t\<close>.\<close>

theorem provider_error_defers_job:
  assumes "review_failed x j pull e d = (Inr r, d')" "same_head x j"
    and "pcc_enabled (qx_cooldown x)" "k = classifyProviderError (qx_reader x) (ve_message e)" "pk_cooldown k"
    and "t = retry_at x k (Option.bind (getProcessedReview (q_repo j) (ps_number pull) (ps_head pull) d) pr_error)"
    and "metadata_value (iso_string (qx_host x) t)" "date_parse (qx_host x) (iso_string (qx_host x) t) = Some t"
    and "metadata_value (redact (qx_host x) (pk_reason k))" "\<And>c. pk_provider_code k = Some c \<Longrightarrow> metadata_value (redact (qx_host x) c)"
    and "\<And>n. pk_retry_after_ms k = Some n \<Longrightarrow> 0 \<le> n"
  shows "r = Ran RV_skipped_provider_cooldown \<and>
    (\<exists>p c. getProcessedReview (q_repo j) (ps_number pull) (ps_head pull) d' = Some p \<and>
      parseProviderCooldownError (pr_error p) = Some c \<and> pcd_until c = iso_string (qx_host x) t) \<and>
    (\<exists>row. getReviewQueueJob (q_job_id (qx_job x)) d' = Some row \<and> q_state row = Q_provider_deferred \<and>
      (\<forall>now. isQueueJobEligible (qx_host x) now row \<longleftrightarrow> t \<le> now))"
proof -
  let ?h = "qx_host x" and ?now = "qx_failed_at x"
  let ?call = "\<lparr>pcl_config = qx_cooldown x, pcl_class = k, pcl_untrusted = ve_untrusted e, pcl_preserve_dry_run = False,
    pcl_format = qx_format x (ve_message e), pcl_draw = qx_draw x\<rparr>"
  define rec where "rec = recordProviderRateLimitCooldownIfNeeded ?h ?call (q_repo j) (ps_number pull) (ps_head pull) ?now ?now d"
  define n where "n = nextProviderCooldownRetryAttempt (Option.bind (getProcessedReview (q_repo j) (ps_number pull) (ps_head pull) d) pr_error) k"
  have t: "t = ?now + providerCooldownDurationMs (qx_cooldown x) k n (providerCooldownJitterMs (qx_draw x) (qx_cooldown x) k n)"
    by (simp add: assms(6) retry_at_def n_def Let_def)
  obtain d1 a c q where rec: "rec = (True, recordProviderCooldownSkip ?h (q_repo j) (ps_number pull) (ps_head pull)
      (iso_string ?h t) (pk_reason k) a c q ?now d1)"
    and parts: "a = None \<or> a = Some n" "1 \<le> n" "c = None \<or> c = pk_provider_code k" "q = None \<or> q = pk_retry_after_ms k"
    using cooldown_skip_recorded[of ?call n "q_repo j" "ps_number pull" "ps_head pull" d ?h ?now ?now] assms(3,5) n_def
    unfolding rec_def t by auto
  have repo: "q_repo j = q_repo (qx_job x)" using assms(2) by (simp add: same_head_def)
  have code: "metadata_value (redact ?h b)" if "truthy c = Some b" for b
    using that parts(3) assms(10)[of b] by (auto simp: truthy_def split: option.splits if_splits)
  obtain p where p: "parseProviderCooldownError (Some (cooldown_text ?h (iso_string ?h t) (pk_reason k) a c q)) = Some p"
    "pcd_until p = iso_string ?h t"
    using cooldown_text_parsed[of "iso_string ?h t" ?h "pk_reason k" c a q] assms(7,9,11) parts code
    by (auto split: option.splits)
  obtain y where y: "getProcessedReview (q_repo j) (ps_number pull) (ps_head pull) (snd rec) = Some y"
    "pr_error y = Some (cooldown_text ?h (iso_string ?h t) (pk_reason k) a c q)"
    using skip_row_error[of "q_repo j" "ps_number pull" "ps_head pull" ?h "iso_string ?h t" "pk_reason k" a c q ?now d1]
    by (auto simp: rec)
  from assms(1) obtain d2 d3 where
    d2: "markQueueJobProviderDeferredFromProcessed ?h (qx_job x) pull (providerCooldownFromError ?h (qx_cooldown x) k ?now) ?now (snd rec) = (Inr (), d2)"
    and d3: "recordReadinessTransition ?h (readiness_of (q_repo j) (ps_number pull) (ps_head pull) R_provider_deferred
      ''provider_rate_limit_cooldown'' ?now) d2 = (Inr (), d3)"
    and d': "updateReviewerSessionJobFromQueueStatus j SJ_assigned None ?now d3 = (Inr (), d')"
    and r: "r = Ran RV_skipped_provider_cooldown"
    unfolding review_failed_def Let_def assms(4)[symmetric] rec_def[symmetric] by (auto simp: rec elim!: and_thenD)
  have until: "truthy (Some (iso_string ?h t)) = Some (iso_string ?h t)" using assms(7) by (simp add: truthy_def metadata_value_def)
  note marked = d2[unfolded markQueueJobProviderDeferredFromProcessed_def Let_def]
  have "\<exists>row. getReviewQueueJob (q_job_id (qx_job x)) d2 = Some row \<and> q_state row = Q_provider_deferred \<and>
      q_next_eligible_at row = Some (iso_string ?h t)"
    using update_queue_stored[OF marked] by (simp add: y[unfolded repo] p queue_change_def coalesce_def until)
  then obtain row where "getReviewQueueJob (q_job_id (qx_job x)) d' = Some row" "q_state row = Q_provider_deferred"
    "q_next_eligible_at row = Some (iso_string ?h t)"
    using transition_frame(1)[OF d3] session_status_frame(1)[OF d'] by (auto simp: getReviewQueueJob_def)
  moreover have "processed d' = processed (snd rec)"
    using update_queue_row[OF marked] transition_frame(2)[OF d3] session_status_frame(2)[OF d'] by metis
  then have "getProcessedReview (q_repo j) (ps_number pull) (ps_head pull) d' = Some y" using y(1) getProcessed_same by metis
  ultimately show ?thesis using r until assms(8) y(2) p by (auto simp: isQueueJobEligible_def)
qed

text \<open>The head a review was running on is out of reach of \<open>recordFailedReview\<close>: it is recorded as posted, or as a claim of an
  approved dry run whose live review may exist.\<close>

definition posted_head :: "processed_row option \<Rightarrow> bool" where
  "posted_head p \<longleftrightarrow> (case p of None \<Rightarrow> False | Some r \<Rightarrow> pr_status r = P_posted)"

definition claimed_head :: "processed_row option \<Rightarrow> bool" where
  "claimed_head p \<longleftrightarrow> (case p of None \<Rightarrow> False
     | Some r \<Rightarrow> pr_status r = P_skipped \<and> starts_with APPROVED_DRY_RUN_LIVE_CLAIM_ERROR (or_default (pr_error r) []))"

lemma live_claim_error_ne: "APPROVED_DRY_RUN_LIVE_CLAIM_ERROR \<noteq> []" "\<not> starts_with APPROVED_DRY_RUN_LIVE_CLAIM_ERROR []"
  by (simp_all add: APPROVED_DRY_RUN_LIVE_CLAIM_ERROR_def)

text \<open>C20: a review that throws anything but a provider error always ends its job as failed, and what it leaves of the head
  depends on the record of the head at that moment only: a head recorded as posted keeps its record, a claim of an
  approved dry run stays a skipped claim with the error appended, and every other head, whatever has reached GitHub
  without being recorded, is recorded as failed, which the next run of a job for this head will retry.\<close>

theorem thrown_review_fails_head:
  assumes "review_failed x j pull e d = (Inr r, d')" "same_head x j"
    and "\<not> pk_cooldown (classifyProviderError (qx_reader x) (ve_message e))"
  shows "let before = getProcessedReview (q_repo j) (ps_number pull) (ps_head pull) d;
             after = getProcessedReview (q_repo j) (ps_number pull) (ps_head pull) d'
    in r = JobFailed \<and>
       map_option q_state (getReviewQueueJob (q_job_id (qx_job x)) d') = Some Q_failed \<and>
       (if posted_head before then after = before
        else if claimed_head before then claimed_head after
        else map_option pr_status after = Some P_failed \<and>
          processedHeadPolicyForQueueJob (qx_job x) pull d' = PH_retry_failed_head)"
proof -
  let ?h = "qx_host x" and ?now = "qx_failed_at x"
  let ?get = "getProcessedReview (q_repo j) (ps_number pull) (ps_head pull)"
  define failed where "failed = recordFailedReview (qx_format x (ve_message e)) False (q_repo j) (ps_number pull) (ps_head pull) ?now d"
  have calm: "recordProviderRateLimitCooldownIfNeeded ?h \<lparr>pcl_config = qx_cooldown x, pcl_class = classifyProviderError (qx_reader x) (ve_message e),
      pcl_untrusted = ve_untrusted e, pcl_preserve_dry_run = False, pcl_format = qx_format x (ve_message e), pcl_draw = qx_draw x\<rparr>
      (q_repo j) (ps_number pull) (ps_head pull) ?now ?now d = (False, d)"
    using assms(3) by (simp add: recordProviderRateLimitCooldownIfNeeded_def Let_def)
  from assms(1) obtain d1 d2 where
    d1: "update_queue ?h (queue_change (q_job_id j) Q_failed (fst failed) ?now) (snd failed) = (Inr (), d1)"
    and d2: "recordReadinessTransition ?h (readiness_of (q_repo j) (ps_number pull) (ps_head pull) R_failed
        (''review_failed: '' @ fst failed) ?now) d1 = (Inr (), d2)"
    and d': "updateReviewerSessionJobFromQueueStatus j SJ_failed (Some P_failed) ?now d2 = (Inr (), d')"
    and r: "r = JobFailed"
    unfolding review_failed_def Let_def calm failed_def by (auto elim!: and_thenD)
  have same: "processed d' = processed (snd failed)"
    using update_queue_row[OF d1] transition_frame(2)[OF d2] session_status_frame(2)[OF d'] by metis
  note after = getProcessed_same[OF same, of "q_repo j" "ps_number pull" "ps_head pull"]
  have row: "map_option q_state (getReviewQueueJob (q_job_id (qx_job x)) d') = Some Q_failed"
    using update_queue_stored[OF d1] transition_frame(1)[OF d2] session_status_frame(1)[OF d'] assms(2)
    by (auto simp: getReviewQueueJob_def queue_change_def same_head_def)
  have posted: "?get (snd failed) = ?get d" if "posted_head (?get d)"
    using that by (auto simp: failed_def recordFailedReview_def Let_def posted_head_def split: option.splits)
  have claimed: "claimed_head (?get (snd failed))" if "claimed_head (?get d)" "\<not> posted_head (?get d)"
    using that unfolding failed_def
    by (auto simp: posted_head_def claimed_head_def recordFailedReview_def Let_def getProcessedReview_def recordProcessed_row bare_record_def pr_key_def
        processed_row_of_def processed_review_record.defs merge_processed_def or_default_def truthy_def mapProcessedReviewRow_def live_claim_error_ne
        starts_with_append split: option.splits)
  have noted: "map_option pr_status (?get (snd failed)) = Some P_failed" if "\<not> posted_head (?get d)" "\<not> claimed_head (?get d)"
    using that unfolding failed_def
    by (auto simp: posted_head_def claimed_head_def recordFailedReview_def Let_def getProcessedReview_def recordProcessed_row bare_record_def pr_key_def
        processed_row_of_def processed_review_record.defs merge_processed_def or_default_def truthy_def split: option.splits)
  have retry: "processedHeadPolicyForQueueJob (qx_job x) pull d' = PH_retry_failed_head" if "map_option pr_status (?get d') = Some P_failed"
    using that assms(2) by (simp add: processedHeadPolicyForQueueJob_def same_head_def)
  show ?thesis using r row posted claimed noted retry by (simp add: Let_def after)
qed

lemma stored_keys:
  "q_state (mapReviewQueueJobRow (updated_queue_row h u r)) = qu_state u"
  "q_priority (mapReviewQueueJobRow (updated_queue_row h u r)) = q_priority (mapReviewQueueJobRow r)"
  "q_created_at (mapReviewQueueJobRow (updated_queue_row h u r)) = q_created_at (mapReviewQueueJobRow r)"
  by (simp_all add: mapReviewQueueJobRow_def updated_queue_row_def)

text \<open>C21: a dry run gives its job back to the queue at the very place it was leased from: eligible at once and ordered against every
  other job as before, so the same heads are leased again in the next cycle.\<close>

theorem dry_run_keeps_turn:
  assumes "updateQueueJobAfterReviewStatus h j pull RV_reviewed True now d = (Inr (), d')"
    and "getReviewQueueJob (q_job_id j) d = Some old"
  shows "\<exists>row. getReviewQueueJob (q_job_id j) d' = Some row \<and> q_state row = Q_queued \<and>
    (\<forall>t. isQueueJobEligible h t row) \<and>
    (\<forall>aging t other. buildLeaseComparator aging t row other = buildLeaseComparator aging t old other)"
proof -
  let ?u = "(queue_change (q_job_id j) Q_queued ''dry_run_completed_not_posted'' now)\<lparr>qu_review_url :=
      truthy (Option.bind (getProcessedReview (q_repo j) (ps_number pull) (ps_head pull) d) pr_review_url)\<rparr>"
  have "update_queue h ?u d = (Inr (), d')"
    using assms(1) by (simp add: updateQueueJobAfterReviewStatus_def Let_def)
  then obtain r where r: "row_get q_job_id (q_job_id j) (queue d) = Some r"
    "getReviewQueueJob (q_job_id j) d' = Some (mapReviewQueueJobRow (updated_queue_row h ?u r))"
    by (rule update_queue_row) (simp add: queue_change_def)
  have old: "old = mapReviewQueueJobRow r" using assms(2) r(1) by (simp add: getReviewQueueJob_def)
  have keys: "q_state (mapReviewQueueJobRow (updated_queue_row h ?u r)) = Q_queued"
    "q_priority (mapReviewQueueJobRow (updated_queue_row h ?u r)) = q_priority old"
    "q_created_at (mapReviewQueueJobRow (updated_queue_row h ?u r)) = q_created_at old"
    unfolding old by (simp_all only: stored_keys) (simp add: queue_change_def)
  then show ?thesis
    by (intro exI[of _ "mapReviewQueueJobRow (updated_queue_row h ?u r)"] conjI r(2))
       (simp_all only: isQueueJobEligible_def buildLeaseComparator_def compareQueueJobsForLease_def isRescued_def keys simp_thms)
qed


section \<open>Witnesses\<close>

definition ex_run_host :: host where
  "ex_run_host = \<lparr>date_parse = (\<lambda>_. Some 700060), iso_string = (\<lambda>_. ''t''), redact = (\<lambda>s. s), alive = (\<lambda>_. True)\<rparr>"

definition ex_pull :: pull_summary where
  "ex_pull = \<lparr>ps_number = 1, ps_draft = False, ps_state = Some ''open'', ps_head = ''h1'', ps_base = ''b'', ps_private = None,
     ps_visibility = Some VF_public, ps_author_association = Some ''OWNER'', ps_author_login = Some ''alice''\<rparr>"

definition ex_run :: queue_run where
  "ex_run = \<lparr>qx_host = ex_run_host, qx_job = hd ex_leased, qx_dry_run = False, qx_started_at = 600000, qx_done_at = 690000,
     qx_failed_at = 700000, qx_live = Inr ex_pull, qx_admission = \<lparr>la_minted = True, la_operation = LO_review_discovery,
       la_scope = VS_public, la_private_allowed = False\<rparr>, qx_gate = ex_gate_settings,
     qx_sessions = Some \<lparr>sc_ttl_ms = 1000, sc_head_count_limit = 2, sc_model = ''m'', sc_provider = ''p''\<rparr>, qx_session_id = ''s'',
     qx_pid = 7, qx_reader = ex_overload_reader, qx_cooldown = ex_cooldown_config, qx_draw = (\<lambda>_. 0),
     qx_store_message = (\<lambda>_. ''store''), qx_format = (\<lambda>m _. m),
     qx_review = (\<lambda>_ d. (Inr RV_reviewed, recordProcessed (bare_record ''o/r'' 1 ''h1'' P_posted ''none'') 690000 d))\<rparr>"

lemma ex_run_parts: "qx_dry_run ex_run = False" "qx_host ex_run = ex_run_host" "qx_failed_at ex_run = 700000"
  "qx_cooldown ex_run = ex_cooldown_config" "qx_reader ex_run = ex_overload_reader" "qx_live ex_run = Inr ex_pull"
  "qx_review ex_run p d = (Inr RV_reviewed, recordProcessed (bare_record ''o/r'' 1 ''h1'' P_posted ''none'') 690000 d)"
  by (simp_all add: ex_run_def)

lemma ex_run_valid: "run_valid ex_run"
proof -
  have "validateReviewQueueInput (q_repo (qx_job ex_run)) (q_pull (qx_job ex_run)) (q_head (qx_job ex_run)) None None = None"
    "ps_number ex_pull = q_pull (qx_job ex_run)" by code_simp+
  then show ?thesis by (simp add: run_valid_def ex_run_parts) (simp add: ex_run_def)
qed

theorem leased_job_settles_witness:
  "\<exists>row. getReviewQueueJob ''j1'' (snd (runLeasedQueueJob ex_run ex_leased_db)) = Some row \<and>
     \<not> is_active_state (q_state row) \<and> q_lease_id row = None"
proof -
  have "run_ready ex_run ex_leased_db" "q_job_id (qx_job ex_run) = ''j1''" by code_simp+
  then show ?thesis
    using leased_job_settles[of ex_run ex_leased_db, OF _ ex_run_valid] by (auto simp: ex_run_parts recordProcessed_ready)
qed

definition ex_closed_run :: queue_run where
  "ex_closed_run = ex_run\<lparr>qx_live := Inr (ex_pull\<lparr>ps_state := Some ''closed''\<rparr>)\<rparr>"

theorem unadmitted_review_never_runs_witness:
  "runLeasedQueueJob (ex_closed_run\<lparr>qx_review := (\<lambda>_ _. (Inl \<lparr>ve_message = ''x'', ve_untrusted = False\<rparr>, empty_db))\<rparr>) ex_leased_db =
   runLeasedQueueJob ex_closed_run ex_leased_db"
proof -
  have "\<not> review_admitted ex_closed_run" by (simp add: review_admitted_def ex_closed_run_def pull_closed_def ex_pull_def truthy_def)
  then show ?thesis by (rule unadmitted_review_never_runs)
qed

definition ex_throw :: "string \<Rightarrow> job_result outcome" where
  "ex_throw message = review_failed ex_run (qx_job ex_run) ex_pull \<lparr>ve_message = message, ve_untrusted = False\<rparr> ex_leased_db"

lemma ex_throw_runs: "ex_throw ''rate limit'' = (Inr (projr (fst (ex_throw ''rate limit''))), snd (ex_throw ''rate limit''))"
  "ex_throw ''boom'' = (Inr (projr (fst (ex_throw ''boom''))), snd (ex_throw ''boom''))"
proof -
  have "\<not> isl (fst (ex_throw ''rate limit''))" "\<not> isl (fst (ex_throw ''boom''))" by code_simp+
  then show "ex_throw ''rate limit'' = (Inr (projr (fst (ex_throw ''rate limit''))), snd (ex_throw ''rate limit''))"
    "ex_throw ''boom'' = (Inr (projr (fst (ex_throw ''boom''))), snd (ex_throw ''boom''))"
    by (simp_all add: prod_eq_iff)
qed

theorem provider_error_defers_job_witness:
  "\<exists>row. getReviewQueueJob ''j1'' (snd (ex_throw ''rate limit'')) = Some row \<and> q_state row = Q_provider_deferred \<and>
     (\<forall>now. isQueueJobEligible ex_run_host now row \<longleftrightarrow> 700060 \<le> now)"
proof -
  define k where "k = classifyProviderError ex_overload_reader ''rate limit''"
  have "pk_category k = PC_request_rate_limit" "pk_cooldown k" "pk_provider_code k = None" "pk_retry_after_ms k = None"
    "metadata_value (pk_reason k)" "metadata_value ''t''" "q_job_id (qx_job ex_run) = ''j1''"
    unfolding k_def by code_simp+
  then show ?thesis
    using provider_error_defers_job[OF ex_throw_runs(1)[unfolded ex_throw_def[of "''rate limit''"]] same_head_self, of k 700060]
    by (auto simp: ex_run_parts k_def[symmetric] retry_at_def providerCooldownDurationMs_def ex_cooldown_config_def ex_run_host_def
        ex_throw_def Let_def)
qed

theorem thrown_review_fails_head_witness:
  "map_option q_state (getReviewQueueJob ''j1'' (snd (ex_throw ''boom''))) = Some Q_failed"
proof -
  have id: "q_job_id (qx_job ex_run) = ''j1''" by code_simp
  have calm: "\<not> pk_cooldown (classifyProviderError ex_overload_reader ''boom'')" by code_simp
  have fresh: "getProcessedReview (q_repo (qx_job ex_run)) (ps_number ex_pull) (ps_head ex_pull) ex_leased_db = None" by code_simp
  show ?thesis
    using thrown_review_fails_head[OF ex_throw_runs(2)[unfolded ex_throw_def[of "''boom''"]] same_head_self] calm fresh id
    by (simp add: ex_run_parts ex_throw_def Let_def)
qed

theorem dry_run_keeps_turn_witness:
  "\<exists>row. getReviewQueueJob ''j1'' (snd (updateQueueJobAfterReviewStatus ex_run_host (hd ex_leased) ex_pull RV_reviewed True 0 ex_leased_db)) =
     Some row \<and> isQueueJobEligible ex_run_host 0 row"
proof -
  let ?c = "updateQueueJobAfterReviewStatus ex_run_host (hd ex_leased) ex_pull RV_reviewed True 0 ex_leased_db"
  have id: "q_job_id (hd ex_leased) = ''j1''" by code_simp
  have "\<not> isl (fst ?c)" by code_simp
  then have "?c = (Inr (), snd ?c)" by (simp add: prod_eq_iff) (metis (full_types) old.unit.exhaust sum.collapse(2))
  moreover have "getReviewQueueJob (q_job_id (hd ex_leased)) ex_leased_db = Some (the (getReviewQueueJob (q_job_id (hd ex_leased)) ex_leased_db))"
    by code_simp
  ultimately show ?thesis using dry_run_keeps_turn[of ex_run_host "hd ex_leased" ex_pull 0 ex_leased_db] id by metis
qed

end
