(* ===== verification/Spec2Isabelle.thy ===== *)
theory Spec2Isabelle
  imports ProcessedReviews RunLeases ReviewQueue ReviewerSessions Authorizations ReviewGate ReviewHeadGate Commands
    Receipts SelfConsistency Reconcile Publication ReviewPlan ReceiptText
    ReviewBudget RepoPolicy
    AuthorGate ProviderCooldown Scheduler
begin

text \<open>
  \<^bold>\<open>NeonDiff\<close>, a code-review bot for GitHub pull requests: a daemon polls repositories, queues the heads of open pull
  requests, runs a model on each, filters what the model found and posts one review per head. All processes of
  the bot (daemon cycles, one-shot runs, operator commands) share one SQLite file. This library models that
  store and the decisions made on top of it, and proves the properties that keep a review correct: no head
  is reviewed twice at once, no review blocks a pull request without a confirmed finding and an authorized
  request, caps hold, and nothing that was decided gets lost.

  \<^bold>\<open>Parts and theories.\<close> Source files are those of \<open>src/\<close> of the repository (so \<open>state.ts\<close> is \<open>src/src/state.ts\<close>).
  \<^item> \<open>Prelude\<close>: optional values, strings, clocks, tables as row lists, stable sorting; the locale \<open>comparator\<close> (what a
    comparison function promises and what sorting with it gives) and the locale \<open>exclusive_hold\<close> (a hold that a
    step grants, that only its end or expiry takes away, and that refuses every other request meanwhile).
  \<^item> \<open>StoreModel\<close>: the tables, unions and validators of \<open>state.ts\<close>, transactions with rollback.
  \<^item> \<open>ProcessedReviews\<close>: outcomes of heads, head claims, dry-run approvals, base-merge-only skips, cooldown of public
    commands. \<open>RunLeases\<close>: run leases (a pool with a capacity: locale \<open>lease_pool\<close>, interpreted for review and for enrichment runs)
    and the worktree guard. \<open>ReviewQueue\<close>: enqueueing, leasing under caps, aging, updates, retirement.
    \<open>ReviewerSessions\<close>: sticky sessions with a head budget. \<open>Authorizations\<close>: readiness of a head and the one-shot
    authorizations of requested changes. All of them model methods of the class \<open>ReviewStateStore\<close> in \<open>state.ts\<close>.
  \<^item> \<open>Texts\<close>, \<open>Diff\<close> (\<open>diff.ts\<close>), \<open>Findings\<close> (\<open>findings.ts\<close>, \<open>regression-taxonomy.ts\<close>), \<open>ReviewGate\<close> (\<open>review-gate.ts\<close>,
    \<open>prior-thread-suppression.ts\<close>): from the model's answer to the comments of a review.
  \<^item> \<open>Receipts\<close> (\<open>severe-verification-receipt-schema.ts\<close>, \<open>-canonical.ts\<close>), \<open>JsonText\<close> (\<open>-parser-a.ts\<close>, \<open>-parser-b.ts\<close>: the strict scan
    of a text and \<open>JSON.parse\<close>), \<open>ReceiptText\<close> (\<open>-parser-c.ts\<close>, \<open>serializeReceipt\<close>: from the bytes of a receipt to its canonical text
    and back) and \<open>SelfConsistency\<close> (\<open>self-consistency.ts\<close>): the second look at severe findings.
  \<^item> \<open>ReviewPlan\<close> (\<open>worker.ts\<close>): the findings of one run through penalty, gate, second look and second suppression.
  \<^item> \<open>Commands\<close> (\<open>commands.ts\<close>, \<open>finishing-touches.ts\<close>, \<open>review-event-policy.ts\<close>, parts of \<open>scheduler.ts\<close>): the command grammar,
    who may command, which command acts, and when a review may request changes.
  \<^item> \<open>ReviewBudget\<close> (\<open>review-budget.ts\<close>, the lease call of \<open>scheduler.ts\<close>): what the operator is told the next lease will take.
  \<^item> \<open>RepoPolicy\<close> (\<open>repo-policy.ts\<close>, the profile types of \<open>config.ts\<close>): the profile of a repository, the files it shows to the model, the
    section it puts into the prompt, and the guard that keeps that section out of posted texts.
  \<^item> \<open>AuthorGate\<close> (\<open>public-repo-author-gate.ts\<close>, \<open>license-admission.ts\<close>, the skips of \<open>worker.ts\<close>): whose pull requests a public repository
    reviews, and which repositories a licence covers. \<open>ProviderCooldown\<close> (\<open>worker.ts\<close>, \<open>state.ts\<close>): what a failed review means and how long its
    head and its repository wait. \<open>Scheduler\<close> (\<open>scheduler.ts\<close>): the run of a leased job over the store, with the review as a parameter.
  \<^item> \<open>Publication\<close> and \<open>Reconcile\<close> (\<open>worker.ts\<close>): from a planned review to its durable record.
  \<^item> \<open>ReviewHeadGate\<close> (\<open>review-head-gate.ts\<close>): the merge gate that reads all of this back; the locale \<open>head_gate_store\<close> is
    the part of the store it relies on.
  \<^item> This theory: properties that span these parts.

  \<^bold>\<open>State and operations.\<close> The store is the record \<open>db\<close>, one field per table; a method of the class is a function from
  its arguments and the store to a result and the new store. A method that throws returns \<open>Inl\<close> with the error; inside a
  transaction it then returns the old store. Clocks, fresh identifiers and the liveness of processes are arguments
  (\<open>host\<close> in the store, \<open>world\<close> in \<open>Publication\<close>). In \<open>Publication\<close> a run is a sequence of store operations and GitHub requests, each logged (\<open>run_event\<close>); before
  each of them the other processes may change the store in any way (\<open>others_act\<close>), and a property that needs
  something of them says so with \<open>steady\<close>: they keep the named fact. One reconciliation of a posted head is
  one such step. The run's release of its head claim happens at the end also on the paths where the code releases it
  earlier; releasing twice is the same as releasing once.

  \<^bold>\<open>Groups of lemmas.\<close> For each part: what an operation stores on each branch (\<open>..._effect\<close>, \<open>..._iff\<close>), what it leaves alone
  (frame lemmas), the well-formedness it keeps (\<open>heads_wf\<close>, \<open>queue_wf\<close>, \<open>sessions_wf\<close>), and what holds over all sequences of operations
  (\<open>exclusive_hold\<close> with its interpretations \<open>head_hold\<close>, \<open>queue_hold\<close>, \<open>lease_hold\<close>, \<open>guard_hold\<close>, \<open>consumption_hold\<close>). In \<open>Publication\<close> the
  locale \<open>durable\<close> carries a fact that the others keep through a whole run.

  \<^bold>\<open>Bounds.\<close> Integers of the store are unbounded; JavaScript numbers and SQLite integers agree with them below 2^53, which
  row counts, limits and milliseconds stay within. Confidences are rationals instead of floating-point
  numbers: they are compared with thresholds, and a penalty is subtracted once. Strings are ASCII, so that
  \<open>toLowerCase\<close>, \<open>trim\<close> and \<open>\s\<close> act on single characters. The JSON scanner and \<open>JSON.parse\<close> carry fuel,
  \<open>scan_fuel\<close> = twice the length of the text plus one; \<open>scan_terminates\<close> shows that it is enough for every text. No other
  definition uses fuel; every other recursion is over a list or has a termination proof.

  \<^bold>\<open>Parameters.\<close> Redaction of secrets, rewriting of public texts, \<open>localeCompare\<close> and SHA-256 (\<open>text_host\<close>); the provider's draws and
  the parser of their receipts (\<open>sk_draw\<close>, \<open>sk_parse\<close>); UTF-8 decoding, number conversion and hashing of a receipt (\<open>platform\<close>); GitHub's answers (\<open>wd_pull\<close>, \<open>wd_comment\<close>, \<open>wd_create\<close>,
  \<open>qx_live\<close>); the review of a scheduled run and the readings of its error (\<open>qx_review\<close>, \<open>error_reader\<close>, \<open>qx_format\<close>). Where a property needs
  more than an arbitrary function, it names it (\<open>collation\<close>, injectivity of the hash is never assumed).

  \<^bold>\<open>Not modelled.\<close> Evidence files and console output; HTTP clients, provider processes and git worktrees; the schema
  migrations of the store; the contents of the walkthrough and enrichment comments (their requests and the checks these cause are); the preview of the
  review settings; paths with characters beyond eight bits; the reflection checks on byte arrays and plain objects, which have
  no counterpart among HOL values; the configuration parser; the discovery of pull requests, the risk priorities
  and the status comments of a scheduler cycle; the minting of licence admissions; the daemon loop; the release, licence and desktop tooling. They are I/O around these decisions.
\<close>

section \<open>From the model's answer to the posted review\<close>

text \<open>The context the second look is given: the pull request that is being reviewed.\<close>

definition recheck_context :: "publish_input \<Rightarrow> review_context" where
  "recheck_context i = \<lparr>rx_repo = pu_repo i, rx_pull = pu_number i, rx_base = pu_base i, rx_head = pu_head i\<rparr>"

text \<open>C2: when the second look is enabled (it is off by default) and covers P0 and P1 (its default; the configuration
  admits no other severity), a run that requests changes does not do so on the word of the model alone. It planned a
  comment of severity P0 or P1 that stems from a finding of that severity, and a second draw within the maximum answered
  for that comment with a receipt that parses, confirms and retains it, names this repository, pull request, base and
  head and the fingerprint of the comment, and has complete evidence for its file. In the trusted-command mode the run
  also fetched a comment of an author trusted by name that asks for requested changes on this head. The plan is the one
  whose event the run was given, and its second look was given the pull request of the run.\<close>

theorem requested_changes_justified:
  assumes "plan_review h p = (cs, pu_candidate i, ds)" "pn_recheck p = Some k" "rk_enabled (sk_config k)"
      "severe_set (sk_config k) = {P0, P1}" "sk_context k = Some (recheck_context i)"
    and "publish_review w i s = (x, s')" "EV_REQUEST_CHANGES \<in> created s'" "EV_REQUEST_CHANGES \<notin> created s"
  shows "(\<exists>c\<in>set cs. \<exists>f\<in>set (gi_findings (pn_gate p)).
      c_path c = f_path f \<and> c_line c = f_line f \<and> c_severity c = f_severity f \<and> f_severity f \<in> {P0, P1} \<and>
      (\<exists>m d r. m < draw_limit k \<and> sk_draw k m c (extractHunk c (sk_files k)) = Some d \<and> sk_parse k d = Some r \<and>
        rv_state r = RS_confirmed \<and> rv_disposition r = Retain \<and>
        rv_repo r = pu_repo i \<and> rv_pull r = pu_number i \<and> rv_base r = pu_base i \<and> rv_head r = pu_head i \<and>
        rv_fingerprint r = c_fingerprint c \<and> hasCompleteEvidence r (c_path c))) \<and>
    (pu_mode i = TrustedCommandOnly \<longrightarrow>
      (\<exists>n cm author. wd_comment w n (ic_id cm) = Some cm \<and> authorizing_comment i author cm))"
proof
  note run = changes_source[OF assms(6-8)]
  then show "pu_mode i = TrustedCommandOnly \<longrightarrow>
      (\<exists>n cm author. wd_comment w n (ic_id cm) = Some cm \<and> authorizing_comment i author cm)" by blast
  have "plan_review h p = (cs, EV_REQUEST_CHANGES, ds)" using assms(1) run by simp
  from planned_change_receipt[OF assms(2,3) _ _ this] show "\<exists>c\<in>set cs. \<exists>f\<in>set (gi_findings (pn_gate p)).
      c_path c = f_path f \<and> c_line c = f_line f \<and> c_severity c = f_severity f \<and> f_severity f \<in> {P0, P1} \<and>
      (\<exists>m d r. m < draw_limit k \<and> sk_draw k m c (extractHunk c (sk_files k)) = Some d \<and> sk_parse k d = Some r \<and>
        rv_state r = RS_confirmed \<and> rv_disposition r = Retain \<and>
        rv_repo r = pu_repo i \<and> rv_pull r = pu_number i \<and> rv_base r = pu_base i \<and> rv_head r = pu_head i \<and>
        rv_fingerprint r = c_fingerprint c \<and> hasCompleteEvidence r (c_path c))"
    by (simp add: assms(4,5) retainsSevereFinding_def recheck_context_def)
qed

section \<open>From the posted review to the head gate\<close>

lemma posted_change_gate:
  assumes "posted_as i EV_REQUEST_CHANGES d"
  shows "\<not> (case storeHeadGate h now (pu_repo i) (pu_number i) (pu_head i) d of Inl _ \<Rightarrow> False | Inr g \<Rightarrow> hg_ok g)"
proof -
  obtain p where "getProcessedReview (pu_repo i) (pu_number i) (pu_head i) d = Some p" "pr_status p = P_posted" "pr_event p = Some EV_REQUEST_CHANGES"
    using assms by (auto simp: posted_as_def split: option.splits)
  then show ?thesis unfolding gate_passes_iff by (simp add: skip_anchor_def carried_head_def truthy_def Let_def)
qed

text \<open>C3: once a run that posted requested changes has ended, the head gate of that head does not pass, at whatever time
  it is asked, as long as the other processes keep the posted row.\<close>

theorem requested_changes_block_gate:
  assumes "publish_review w i s = (Done rv, s')" "created s = {}" "EV_REQUEST_CHANGES \<in> created s'"
    "steady w (posted_as i EV_REQUEST_CHANGES)"
  shows "case storeHeadGate h now (pu_repo i) (pu_number i) (pu_head i) (pb_db (others_act w s')) of Inl _ \<Rightarrow> True | Inr g \<Rightarrow> \<not> hg_ok g"
proof -
  have "posted_as i EV_REQUEST_CHANGES (pb_db s')" using created_review_outcome[OF assms] by (simp add: created_outcome_def)
  then have "posted_as i EV_REQUEST_CHANGES (pb_db (others_act w s'))" by (rule steadyD[OF assms(4)])
  from posted_change_gate[OF this, of h now] show ?thesis by (simp split: sum.splits)
qed

section \<open>From a base-merge-only skip to the head gate\<close>

text \<open>C17: take a head that was skipped because it only merges the base branch, and the gate of that head at any time
  until its processed rows change again, whatever happened to the queue and the readiness meanwhile. It passes exactly
  when the review the skip carries on from, the newest posted review of the pull request, did not request changes, and
  the most urgent active job of the head, if there is one, was not touched after the skip was recorded. So the job
  whose run records the skip does not hold the gate up, and one that is leased later does.\<close>

theorem base_merge_skip_carries_gate:
  assumes "heads_wf d" "recordBaseMergeOnlySkip r clock d = (SkipRecorded, d')" "processed e = processed d'"
    "valid_repo_slug (pr_repo r)" "1 \<le> pr_pull r" "is_sha40 (pr_head r)" "pr_carried_from_head r \<noteq> Some []"
  shows "(case storeHeadGate h now (pr_repo r) (pr_pull r) (pr_head r) e of Inl _ \<Rightarrow> False | Inr g \<Rightarrow> hg_ok g) \<longleftrightarrow>
    (\<exists>a. getBaseMergeOnlyAnchor (pr_repo r) (pr_pull r) d = Some a \<and> pr_carried_from_head r = Some (pr_head a) \<and>
      pr_event a \<noteq> Some EV_REQUEST_CHANGES) \<and>
    (case find isActiveQueueJob (filter (\<lambda>j. q_head j = pr_head r) (pull_jobs (pr_repo r) (pr_pull r) e)) of
       None \<Rightarrow> True | Some j \<Rightarrow> q_updated_at j \<le> clock)"
proof -
  have rec: "fst (recordBaseMergeOnlySkip r clock d) = SkipRecorded" using assms(2) by simp
  obtain a where a: "\<And>p. getProcessedReview (pr_repo r) (pr_pull r) (pr_head r) d = Some p \<Longrightarrow> retryable_for_skip p"
    "getBaseMergeOnlyAnchor (pr_repo r) (pr_pull r) d = Some a" "pr_carried_from_head r = Some (pr_head a)"
    "d' = d\<lparr>processed := row_upsert pr_key (\<lambda>_ new. new) (skip_row r clock) (processed d)\<rparr>"
    using skip_recordedD[OF rec] assms(2) by (metis snd_conv)
  obtain ar where ar: "ar \<in> set (processed d)" "a = mapProcessedReviewRow ar" "pr_repo ar = pr_repo r"
    "pr_pull ar = pr_pull r" "pr_status ar = P_posted"
    by (rule anchor_props[OF a(2)])
  have key: "pr_key ar = (pr_repo r, pr_pull r, pr_head a)" using ar by (simp add: pr_key_def)
  have row: "row_get pr_key (pr_key ar) (processed d) = Some ar"
    using assms(1) ar(1) by (simp add: heads_wf_def unique_rows_get)
  have other: "pr_key ar \<noteq> pr_key r"
    using retryable_not_posted[OF a(1)] row ar(5) by (fastforce simp: getProcessedReview_def pr_key_def)
  have e: "getProcessedReview x y z e = getProcessedReview x y z d'" for x y z
    using assms(3) by (simp add: getProcessedReview_def)
  have mine: "getProcessedReview (pr_repo r) (pr_pull r) (pr_head r) d' = Some (mapProcessedReviewRow (skip_row r clock))"
    by (simp add: a(4) getProcessedReview_def row_get_upsert flip: pr_key_def) (simp add: pr_key_def row_get_upsert split: option.split)
  have anchor: "getProcessedReview (pr_repo r) (pr_pull r) (pr_head a) d' = Some a"
    using other row by (simp add: a(4) getProcessedReview_def row_get_upsert key ar(2))
  have err: "truthy (Some BASE_MERGE_ONLY) = Some BASE_MERGE_ONLY" by (simp add: truthy_def BASE_MERGE_ONLY_def)
  have carried: "truthy (truthy (Some (pr_head a))) = Some (pr_head a)" using assms(7) a(3) by (simp add: truthy_def)
  have "skip_anchor (pr_repo r) (pr_pull r) (Some (mapProcessedReviewRow (skip_row r clock))) e = Some a"
    using carried by (simp add: skip_anchor_def carried_head_def err a(3) e anchor)
  moreover have "pr_created_at (mapProcessedReviewRow (skip_row r clock)) = clock"
    by (simp add: skip_row_def processed_row_of_def mapProcessedReviewRow_def processed_review_record.defs)
  ultimately have "(case storeHeadGate h now (pr_repo r) (pr_pull r) (pr_head r) e of Inl _ \<Rightarrow> False | Inr g \<Rightarrow> hg_ok g) \<longleftrightarrow>
      pr_event a \<noteq> Some EV_REQUEST_CHANGES \<and>
      (case find isActiveQueueJob (filter (\<lambda>j. q_head j = pr_head r) (pull_jobs (pr_repo r) (pr_pull r) e)) of
         None \<Rightarrow> True | Some j \<Rightarrow> q_updated_at j \<le> clock)"
    unfolding gate_passes_iff using assms(4-6) ar(2,5) by (auto simp: e mine Let_def not_less split: option.split)
  then show ?thesis using a(2,3) by auto
qed

section \<open>Examples\<close>

lemma demo_context: "sk_context demo_confirmed = Some (recheck_context demo_input)"
  by (simp add: demo_confirmed_def ex_recheck_def recheck_context_def demo_input_def ex_head40_def ex_sha40_def)

theorem requested_changes_justified_witness:
  "(\<exists>c\<in>set (fst (plan_review ex_text_host demo_plan)). \<exists>f\<in>set (gi_findings (pn_gate demo_plan)).
      c_path c = f_path f \<and> f_severity f \<in> {P0, P1} \<and>
      (\<exists>r. sk_draw demo_confirmed 0 c [] = Some r \<and> rv_head r = pu_head demo_input \<and> rv_fingerprint r = c_fingerprint c)) \<and>
   (\<exists>n cm author. wd_comment demo_world n (ic_id cm) = Some cm \<and> authorizing_comment demo_input author cm)"
proof -
  obtain t where t: "publish_review demo_world demo_input demo_start = (Done RV_reviewed_command, t)" "created t = {EV_REQUEST_CHANGES}"
    by (rule demo_publish)
  have log: "EV_REQUEST_CHANGES \<in> created t" "EV_REQUEST_CHANGES \<notin> created demo_start"
    using t(2) by (simp_all add: created_def demo_start_def)
  have cand: "pu_candidate demo_input = EV_REQUEST_CHANGES" by (simp add: demo_input_def)
  note all = requested_changes_justified[OF demo_planned[folded cand] demo_confirmed_config(5,1,2) demo_context t(1) log]
  have plan: "fst (plan_review ex_text_host demo_plan) = [comment_of ex_text_host demo_finding]" by (subst demo_planned) simp
  show ?thesis
    using all[THEN conjunct1] all[THEN conjunct2] demo_flags(1) unfolding plan by (simp add: demo_confirmed_config(6,7)) blast
qed

theorem requested_changes_block_gate_witness:
  "case storeHeadGate ex_auth_host 2000 ''o/r'' 7 ex_sha40 (pb_db (snd (publish_review demo_world demo_input demo_start))) of
     Inl _ \<Rightarrow> True | Inr g \<Rightarrow> \<not> hg_ok g"
proof -
  obtain t where t: "publish_review demo_world demo_input demo_start = (Done RV_reviewed_command, t)"
    "created t = {EV_REQUEST_CHANGES}"
    by (rule demo_publish)
  have log: "created demo_start = {}" "EV_REQUEST_CHANGES \<in> created t"
    using t(2) by (simp_all add: created_def demo_start_def)
  have others: "pb_db (others_act demo_world t) = pb_db t" by (simp add: others_act_def demo_world_def)
  have names: "pu_repo demo_input = ''o/r''" "pu_number demo_input = 7" "pu_head demo_input = ex_sha40" by (simp_all add: demo_input_def)
  from requested_changes_block_gate[OF t(1) log demo_steady, of ex_auth_host 2000] show ?thesis
    unfolding others names t(1) snd_conv .
qed

definition demo_posted :: db where
  "demo_posted = recordProcessed (ex_record\<lparr>pr_status := P_posted, pr_review_url := Some ''u''\<rparr>) 1000 empty_db"

definition demo_merge :: processed_review_record where
  "demo_merge = ex_record\<lparr>pr_head := ex_sha40, pr_carried_from_head := Some ''h1''\<rparr>"

theorem base_merge_skip_carries_gate_witness:
  "case storeHeadGate ex_auth_host 2000 ''o/r'' 7 ex_sha40 (snd (recordBaseMergeOnlySkip demo_merge 2000 demo_posted)) of
     Inl _ \<Rightarrow> False | Inr g \<Rightarrow> hg_ok g"
proof -
  have wf: "heads_wf demo_posted" by code_simp
  have skip: "recordBaseMergeOnlySkip demo_merge 2000 demo_posted = (SkipRecorded, snd (recordBaseMergeOnlySkip demo_merge 2000 demo_posted))"
    by code_simp
  have anchor: "\<exists>a. getBaseMergeOnlyAnchor ''o/r'' 7 demo_posted = Some a \<and> Some ''h1'' = Some (pr_head a) \<and> pr_event a \<noteq> Some EV_REQUEST_CHANGES"
    by (rule exI[of _ "the (getBaseMergeOnlyAnchor ''o/r'' 7 demo_posted)"]) code_simp
  have slug: "valid_repo_slug ''o/r''" by code_simp
  have idle: "find isActiveQueueJob (filter (\<lambda>j. q_head j = ex_sha40) (pull_jobs ''o/r'' 7
      (snd (recordBaseMergeOnlySkip demo_merge 2000 demo_posted)))) = None" by code_simp
  have r: "pr_repo demo_merge = ''o/r''" "pr_pull demo_merge = 7" "pr_head demo_merge = ex_sha40" "pr_carried_from_head demo_merge = Some ''h1''"
    by (simp_all add: demo_merge_def ex_record_def)
  show ?thesis
    using base_merge_skip_carries_gate[OF wf skip refl, of ex_auth_host 2000] anchor slug idle ex_sha40_ok(1) by (simp add: r)
qed


end
